(* ===== verification/Prelude.thy ===== *)
theory Prelude
  imports Main "HOL-Library.Word" "HOL-Library.Monad_Syntax" "HOL-Library.Sublist"
begin

text \<open>
  Shared notions of the development: the result conventions of the modelled C code, bounded
  buffers with checked access, generic facts on lists, and the theorem collections the
  component theories add to.

  Conventions.  A value of type \<^verbatim>\<open>'a option\<close> returned by a \<^emph>\<open>memory level\<close> function is
  \<^verbatim>\<open>None\<close> when the C code would read or write outside an object (undefined behaviour).
  An error the code reports is a value of type \<^verbatim>\<open>errno\<close> or of a sum type.
\<close>

section \<open>Theorem collections\<close>

named_theorems buf_simps \<open>reading and writing bounded buffers\<close>
named_theorems cstr_simps \<open>evaluation of the C string functions\<close>
named_theorems inv_intros \<open>invariants kept by the operations\<close>

section \<open>Error numbers\<close>

text \<open>The error numbers that the modelled functions return; 0 is success.\<close>

datatype errno = OK0 | EINVAL | ERANGE | ENOENT | EPERM | ENOSPC | EBUSY

section \<open>Bounded buffers\<close>

text \<open>A C array is the list of its cells; access outside it is \<^const>\<open>None\<close>.\<close>

definition rd :: "'a list \<Rightarrow> nat \<Rightarrow> 'a option" where
  "rd b i = (if i < length b then Some (b ! i) else None)"

definition wr :: "'a list \<Rightarrow> nat \<Rightarrow> 'a \<Rightarrow> 'a list option" where
  "wr b i v = (if i < length b then Some (b[i := v]) else None)"

lemma rd_Some_iff [buf_simps]: "rd b i = Some v \<longleftrightarrow> i < length b \<and> v = b ! i"
  by (auto simp: rd_def)

lemma wr_Some_iff [buf_simps]: "wr b i v = Some b' \<longleftrightarrow> i < length b \<and> b' = b[i := v]"
  by (auto simp: wr_def)

lemma rd_in [simp]: "i < length b \<Longrightarrow> rd b i = Some (b ! i)"
  by (simp add: rd_def)

lemma wr_in [simp]: "i < length b \<Longrightarrow> wr b i v = Some (b[i := v])"
  by (simp add: wr_def)

lemma rd_append_at [buf_simps]: "rd (xs @ c # ys) (length xs) = Some c"
  by (simp add: rd_def)

lemma rd_append_right [buf_simps]: "rd (xs @ ys) (length xs + j) = rd ys j"
  by (simp add: rd_def nth_append)

text \<open>Reads and writes never change the extent of a buffer.\<close>

lemma length_wr: "wr b i v = Some b' \<Longrightarrow> length b' = length b"
  by (auto simp: wr_def split: if_splits)

section \<open>Lists\<close>

lemma takeWhile_append_stop:
  "\<lbrakk>\<forall>x\<in>set xs. P x; \<not> P y\<rbrakk> \<Longrightarrow> takeWhile P (xs @ y # ys) = xs"
  by (induction xs) auto

lemma dropWhile_append_stop:
  "\<lbrakk>\<forall>x\<in>set xs. P x; \<not> P y\<rbrakk> \<Longrightarrow> dropWhile P (xs @ y # ys) = y # ys"
  by (induction xs) auto

lemma filter_take_drop:
  "filter P (take i xs) @ filter P (drop i xs) = filter P xs"
  by (metis append_take_drop_id filter_append)

lemma dropWhile_replicate [simp]: "dropWhile (\<lambda>c. c = x) (replicate n x @ ys) = dropWhile (\<lambda>c. c = x) ys"
  by (induction n) auto

lemma takeWhile_eq_self: "\<forall>x\<in>set xs. P x \<Longrightarrow> takeWhile P xs = xs"
  by (induction xs) auto

lemma length_takeWhile_less_iff:
  "length (takeWhile P xs) < length xs \<longleftrightarrow> (\<exists>x\<in>set xs. \<not> P x)"
  by (induction xs) auto

lemma takeWhile_neq_split:
  "c \<in> set xs \<Longrightarrow> xs = takeWhile (\<lambda>x. x \<noteq> c) xs @ c # drop (Suc (length (takeWhile (\<lambda>x. x \<noteq> c) xs))) xs"
proof (induction xs)
  case Nil
  then show ?case by simp
next
  case (Cons a xs)
  then show ?case by (cases "a = c") auto
qed

lemma find_index_unique:
  "\<lbrakk>distinct (map fst kvs); (k, v) \<in> set kvs\<rbrakk> \<Longrightarrow> map_of kvs k = Some v"
  by (rule map_of_is_SomeI)

end
