(* ===== verification/C_String.thy ===== *)
theory C_String
  imports Prelude "HOL-Library.Char_ord"
begin

text \<open>
  The part of the C standard library on character strings that the program uses.  A C string
  is the list of its characters before the terminating NUL, of type \<^typ>\<open>string\<close>; the
  functions below are \<^verbatim>\<open><string.h>\<close>, \<^verbatim>\<open><strings.h>\<close> and \<^verbatim>\<open><ctype.h>\<close> in the
  "C" (or a UTF-8) locale, where bytes above 127 belong to no class and have no case.
\<close>

section \<open>Bytes\<close>

text \<open>The code of a character, and its value as a (signed) C \<^verbatim>\<open>char\<close> promoted to int.\<close>

definition code :: "char \<Rightarrow> nat" where
  "code c = of_char c"

definition schar :: "char \<Rightarrow> int" where
  "schar c = (if code c < 128 then int (code c) else int (code c) - 256)"

definition nul :: char where
  "nul = CHR 0x00"

lemma code_less: "code c < 256"
  by (simp add: code_def)

lemma code_eq_iff [simp]: "code a = code b \<longleftrightarrow> a = b"
  by (simp add: code_def)

lemma schar_eq_iff [simp]: "schar a = schar b \<longleftrightarrow> a = b"
proof
  assume "schar a = schar b"
  then have "code a = code b"
    using code_less [of a] code_less [of b] by (auto simp: schar_def split: if_splits)
  then show "a = b" by simp
qed simp

lemma schar_range: "-128 \<le> schar c \<and> schar c < 128"
  using code_less [of c] by (auto simp: schar_def)

section \<open>Character classes\<close>

definition isupper :: "nat \<Rightarrow> bool" where "isupper n \<longleftrightarrow> 65 \<le> n \<and> n \<le> 90"
definition islower :: "nat \<Rightarrow> bool" where "islower n \<longleftrightarrow> 97 \<le> n \<and> n \<le> 122"
definition isalpha :: "nat \<Rightarrow> bool" where "isalpha n \<longleftrightarrow> isupper n \<or> islower n"
definition isdigit :: "nat \<Rightarrow> bool" where "isdigit n \<longleftrightarrow> 48 \<le> n \<and> n \<le> 57"
definition isalnum :: "nat \<Rightarrow> bool" where "isalnum n \<longleftrightarrow> isalpha n \<or> isdigit n"
definition isspace :: "nat \<Rightarrow> bool" where "isspace n \<longleftrightarrow> n = 32 \<or> (9 \<le> n \<and> n \<le> 13)"
definition isprint :: "nat \<Rightarrow> bool" where "isprint n \<longleftrightarrow> 32 \<le> n \<and> n \<le> 126"

lemmas ctype_defs = isupper_def islower_def isalpha_def isdigit_def isalnum_def isspace_def
  isprint_def

definition tolower :: "char \<Rightarrow> char" where
  "tolower c = (if isupper (code c) then char_of (code c + 32) else c)"

definition toupper :: "char \<Rightarrow> char" where
  "toupper c = (if islower (code c) then char_of (code c - 32) else c)"

lemma code_char_of [simp]: "n < 256 \<Longrightarrow> code (char_of n) = n"
  by (simp add: code_def)

lemma char_of_code [simp]: "char_of (code c) = c"
  by (simp add: code_def)

lemma code_tolower: "code (tolower c) = (if isupper (code c) then code c + 32 else code c)"
  by (auto simp: tolower_def isupper_def)

lemma code_toupper: "code (toupper c) = (if islower (code c) then code c - 32 else code c)"
  by (auto simp: toupper_def islower_def)

lemma tolower_idem [simp]: "tolower (tolower c) = tolower c"
proof -
  have "\<not> isupper (code (tolower c))"
    by (auto simp: code_tolower isupper_def)
  then show ?thesis by (simp add: tolower_def [of "tolower c"])
qed

section \<open>Comparison\<close>

text \<open>\<^verbatim>\<open>strcasecmp(s1, s2) == 0\<close> and the bounded comparisons with 0.\<close>

definition strcasecmp_eq :: "string \<Rightarrow> string \<Rightarrow> bool" where
  "strcasecmp_eq a b \<longleftrightarrow> map tolower a = map tolower b"

definition strncmp_eq :: "string \<Rightarrow> string \<Rightarrow> nat \<Rightarrow> bool" where
  "strncmp_eq a b n \<longleftrightarrow> take n a = take n b"

definition strncasecmp_eq :: "string \<Rightarrow> string \<Rightarrow> nat \<Rightarrow> bool" where
  "strncasecmp_eq a b n \<longleftrightarrow> map tolower (take n a) = map tolower (take n b)"

text \<open>The sign of \<^verbatim>\<open>strcmp\<close>: unsigned bytes, the shorter string first.\<close>

fun strcmp :: "string \<Rightarrow> string \<Rightarrow> int" where
  "strcmp [] [] = 0"
| "strcmp [] (b # bs) = -1"
| "strcmp (a # as) [] = 1"
| "strcmp (a # as) (b # bs) =
     (if code a < code b then -1 else if code b < code a then 1 else strcmp as bs)"

lemma strcmp_refl [simp]: "strcmp s s = 0"
  by (induction s) auto

lemma strcmp_0_iff: "strcmp a b = 0 \<longleftrightarrow> a = b"
proof (induction a b rule: strcmp.induct)
  case (4 a as b bs)
  have "a = b" if "\<not> code a < code b" "\<not> code b < code a"
    using that by (metis code_eq_iff nat_neq_iff)
  with 4 show ?case by auto
qed auto

lemma strcmp_antisym: "strcmp a b < 0 \<longleftrightarrow> 0 < strcmp b a"
  by (induction a b rule: strcmp.induct) auto

lemma strcmp_trans: "\<lbrakk>strcmp a b < 0; strcmp b c < 0\<rbrakk> \<Longrightarrow> strcmp a c < 0"
proof (induction a c arbitrary: b rule: strcmp.induct)
  case (4 a as c cs)
  obtain x xs where b: "b = x # xs" using 4 by (cases b) auto
  then show ?case using 4 by (auto split: if_splits)
next
  case 1
  then show ?case by (cases b) auto
next
  case (2 b' bs)
  then show ?case by simp
next
  case (3 a as)
  then show ?case by (cases b) auto
qed

section \<open>Searching\<close>

text \<open>
  The search functions return the index of the match in the string they search
  (the C functions return a pointer to it), \<^const>\<open>None\<close> for the null pointer.
\<close>

definition strchr :: "string \<Rightarrow> char \<Rightarrow> nat option" where
  "strchr s c = (let n = length (takeWhile (\<lambda>x. x \<noteq> c) s) in if n < length s then Some n else None)"

definition strcspn :: "string \<Rightarrow> string \<Rightarrow> nat" where
  "strcspn s reject = length (takeWhile (\<lambda>x. x \<notin> set reject) s)"

definition strpbrk :: "string \<Rightarrow> string \<Rightarrow> nat option" where
  "strpbrk s accept = (let n = strcspn s accept in if n < length s then Some n else None)"

fun strrchr :: "string \<Rightarrow> char \<Rightarrow> nat option" where
  "strrchr [] c = None"
| "strrchr (x # xs) c =
     (case strrchr xs c of Some n \<Rightarrow> Some (Suc n) | None \<Rightarrow> if x = c then Some 0 else None)"

fun strstr :: "string \<Rightarrow> string \<Rightarrow> nat option" where
  "strstr [] needle = (if needle = [] then Some 0 else None)"
| "strstr (x # xs) needle =
     (if prefix needle (x # xs) then Some 0 else map_option Suc (strstr xs needle))"

lemma strchr_None_iff [simp]: "strchr s c = None \<longleftrightarrow> c \<notin> set s"
  by (auto simp: strchr_def Let_def length_takeWhile_less_iff)

lemma strchr_Some_iff:
  "strchr s c = Some n \<longleftrightarrow> n < length s \<and> s ! n = c \<and> c \<notin> set (take n s)"
proof
  assume "strchr s c = Some n"
  then have n: "n = length (takeWhile (\<lambda>x. x \<noteq> c) s)" and less: "n < length s"
    by (auto simp: strchr_def Let_def split: if_splits)
  from n less have "s ! n = c" using nth_length_takeWhile by blast
  moreover have "take n s = takeWhile (\<lambda>x. x \<noteq> c) s"
    using n takeWhile_eq_take [of "\<lambda>x. x \<noteq> c" s] by metis
  then have "c \<notin> set (take n s)" by (metis set_takeWhileD)
  ultimately show "n < length s \<and> s ! n = c \<and> c \<notin> set (take n s)" using less by blast
next
  assume *: "n < length s \<and> s ! n = c \<and> c \<notin> set (take n s)"
  then have split: "take n s @ c # drop (Suc n) s = s"
    by (metis id_take_nth_drop)
  have "\<forall>x\<in>set (take n s). x \<noteq> c" using * by auto
  then have "takeWhile (\<lambda>x. x \<noteq> c) (take n s @ c # drop (Suc n) s) = take n s"
    by (rule takeWhile_append_stop) simp
  then have "takeWhile (\<lambda>x. x \<noteq> c) s = take n s" by (simp only: split)
  then show "strchr s c = Some n"
    using * by (simp add: strchr_def)
qed

lemma strstr_Some:
  "strstr s p = Some n \<Longrightarrow> n \<le> length s \<and> prefix p (drop n s)"
  by (induction s p arbitrary: n rule: strstr.induct) (auto split: if_splits)

lemma strstr_first:
  "\<lbrakk>strstr s p = Some n; m < n\<rbrakk> \<Longrightarrow> \<not> prefix p (drop m s)"
proof (induction s p arbitrary: n m rule: strstr.induct)
  case (2 x xs needle)
  then show ?case by (cases m) (auto split: if_splits)
qed (auto split: if_splits)

lemma strstr_None: "strstr s p = None \<Longrightarrow> \<not> sublist p s"
proof (induction s p rule: strstr.induct)
  case (2 x xs needle)
  then show ?case by (auto split: if_splits simp: sublist_Cons_right)
qed (auto split: if_splits)

lemma strstr_Some_iff_sublist: "(\<exists>n. strstr s p = Some n) \<longleftrightarrow> sublist p s"
proof
  assume "\<exists>n. strstr s p = Some n"
  then obtain n where "prefix p (drop n s)" using strstr_Some by blast
  then show "sublist p s"
    by (metis append_take_drop_id prefix_def sublist_appendI)
next
  assume "sublist p s"
  then show "\<exists>n. strstr s p = Some n" using strstr_None by (cases "strstr s p") auto
qed

lemma strrchr_None_iff: "strrchr s c = None \<longleftrightarrow> c \<notin> set s"
  by (induction s) (auto split: option.splits)

lemma strrchr_append_last:
  "c \<notin> set t \<Longrightarrow> strrchr (s @ c # t) c = Some (length s)"
  by (induction s) (auto simp: strrchr_None_iff [THEN iffD2])

lemma strcspn_le: "strcspn s r \<le> length s"
  by (simp add: strcspn_def length_takeWhile_le)

lemma take_strcspn: "take (strcspn s r) s = takeWhile (\<lambda>x. x \<notin> set r) s"
  by (metis strcspn_def takeWhile_eq_take)

section \<open>Tokenizing\<close>

text \<open>
  One call of \<^verbatim>\<open>strtok_r\<close> with the separators \<^verbatim>\<open>seps\<close> on the saved string: the token,
  if any, and the string saved for the next call.
\<close>

definition strtok_r :: "string \<Rightarrow> string \<Rightarrow> (string \<times> string) option" where
  "strtok_r seps s =
     (let t = dropWhile (\<lambda>c. c \<in> set seps) s
      in if t = [] then None
         else Some (takeWhile (\<lambda>c. c \<notin> set seps) t,
                    drop 1 (dropWhile (\<lambda>c. c \<notin> set seps) t)))"

lemma strtok_r_shorter: "strtok_r seps s = Some (tok, rest) \<Longrightarrow> length rest < length s"
proof -
  assume "strtok_r seps s = Some (tok, rest)"
  then have t: "dropWhile (\<lambda>c. c \<in> set seps) s \<noteq> []"
    and r: "rest = drop 1 (dropWhile (\<lambda>c. c \<notin> set seps) (dropWhile (\<lambda>c. c \<in> set seps) s))"
    by (auto simp: strtok_r_def Let_def split: if_splits)
  let ?t = "dropWhile (\<lambda>c. c \<in> set seps) s"
  have "length rest < length ?t"
    using t r length_dropWhile_le [of "\<lambda>c. c \<notin> set seps" ?t] by (cases ?t) auto
  then show ?thesis
    using length_dropWhile_le [of "\<lambda>c. c \<in> set seps" s] by linarith
qed

lemma strtok_r_token:
  "strtok_r seps s = Some (tok, rest) \<Longrightarrow> tok \<noteq> [] \<and> set tok \<inter> set seps = {}"
proof -
  assume *: "strtok_r seps s = Some (tok, rest)"
  let ?t = "dropWhile (\<lambda>c. c \<in> set seps) s"
  from * have t: "?t \<noteq> []" and tok: "tok = takeWhile (\<lambda>c. c \<notin> set seps) ?t"
    by (auto simp: strtok_r_def Let_def split: if_splits)
  have "hd ?t \<notin> set seps" using t hd_dropWhile by blast
  then have "tok \<noteq> []" using t tok by (cases ?t) auto
  moreover have "set tok \<inter> set seps = {}" using tok set_takeWhileD by fastforce
  ultimately show ?thesis by blast
qed

text \<open>All the tokens that successive calls return.\<close>

function strtoks :: "string \<Rightarrow> string \<Rightarrow> string list" where
  "strtoks seps s = (case strtok_r seps s of None \<Rightarrow> [] | Some (tok, rest) \<Rightarrow> tok # strtoks seps rest)"
  by pat_completeness auto
termination
  by (relation "measure (\<lambda>(seps, s). length s)") (auto simp: strtok_r_shorter)

declare strtoks.simps [simp del]

text \<open>How the tokens of a text follow from those of its parts.\<close>

lemma strtok_r_sep: "c \<in> set seps \<Longrightarrow> strtok_r seps (c # s) = strtok_r seps s"
  by (simp add: strtok_r_def)

lemma strtok_r_Nil [simp]: "strtok_r seps [] = None"
  by (simp add: strtok_r_def)

lemma strtok_r_word:
  assumes "w \<noteq> []" "set w \<inter> set seps = {}"
  shows "c \<in> set seps \<Longrightarrow> strtok_r seps (w @ c # s) = Some (w, s)" "strtok_r seps w = Some (w, [])"
proof -
  have d: "dropWhile (\<lambda>c. c \<in> set seps) (w @ r) = w @ r" for r
    using assms by (cases w) auto
  have nw: "\<forall>x\<in>set w. x \<notin> set seps" using assms by auto
  show "strtok_r seps (w @ c # s) = Some (w, s)" if "c \<in> set seps"
    using nw that d assms(1) by (simp add: takeWhile_append_stop dropWhile_append_stop strtok_r_def)
  have t: "takeWhile (\<lambda>c. c \<notin> set seps) w = w" "dropWhile (\<lambda>c. c \<notin> set seps) w = []"
    using nw by (simp_all add: takeWhile_eq_self)
  have "dropWhile (\<lambda>c. c \<in> set seps) w = w" using d [of "[]"] by simp
  then have "strtok_r seps w = Some (w, drop 1 [])"
    using assms(1) by (simp only: strtok_r_def Let_def t if_False)
  then show "strtok_r seps w = Some (w, [])" by simp
qed

lemma strtoks_Nil [simp]: "strtoks seps [] = []"
  by (subst strtoks.simps) simp

lemma strtoks_sep: "c \<in> set seps \<Longrightarrow> strtoks seps (c # s) = strtoks seps s"
  by (subst (1 2) strtoks.simps) (simp add: strtok_r_sep)

lemma strtoks_word:
  assumes "w \<noteq> []" "set w \<inter> set seps = {}"
  shows "strtoks seps w = [w]" "c \<in> set seps \<Longrightarrow> strtoks seps (w @ c # s) = w # strtoks seps s"
proof -
  show "strtoks seps w = [w]"
    using strtok_r_word(2) [OF assms] by (subst strtoks.simps) simp
  show "strtoks seps (w @ c # s) = w # strtoks seps s" if "c \<in> set seps"
    using strtok_r_word(1) [OF assms that, of s] by (subst strtoks.simps) simp
qed

lemma strtoks_append:
  assumes "c \<in> set seps"
  shows "strtoks seps (a @ c # b) = strtoks seps a @ strtoks seps b"
proof (induction a rule: length_induct)
  case (1 a)
  show ?case
  proof (cases a)
    case Nil
    then show ?thesis using assms by (simp add: strtoks_sep)
  next
    case (Cons x xs)
    show ?thesis
    proof (cases "x \<in> set seps")
      case True
      then show ?thesis using 1 Cons by (simp add: strtoks_sep)
    next
      case x: False
      let ?w = "takeWhile (\<lambda>c. c \<notin> set seps) a" and ?r = "dropWhile (\<lambda>c. c \<notin> set seps) a"
      have w: "?w \<noteq> []" "set ?w \<inter> set seps = {}" "a = ?w @ ?r"
        using x Cons by (auto dest: set_takeWhileD)
      show ?thesis
      proof (cases ?r)
        case Nil
        then have a: "a = ?w" using w(3) by (metis append_Nil2)
        have "strtoks seps (?w @ c # b) = strtoks seps ?w @ strtoks seps b"
          using strtoks_word [OF w(1,2)] assms by simp
        then show ?thesis using a by metis
      next
        case (Cons y ys)
        then have y: "y \<in> set seps" by (metis dropWhile_eq_Cons_conv)
        have "length ys < length a" using w(3) Cons by (metis length_append length_Cons less_add_Suc2 trans_less_add2 lessI)
        then have "strtoks seps (ys @ c # b) = strtoks seps ys @ strtoks seps b" using 1 by blast
        then show ?thesis
          using strtoks_word(2) [OF w(1,2) y] w(3) Cons by (metis append.assoc append_Cons)
      qed
    qed
  qed
qed

lemma strtoks_tokens: "t \<in> set (strtoks seps s) \<Longrightarrow> t \<noteq> [] \<and> set t \<inter> set seps = {}"
proof (induction seps s rule: strtoks.induct)
  case (1 seps s)
  show ?case
  proof (cases "strtok_r seps s")
    case None
    then show ?thesis using 1 by (subst (asm) strtoks.simps) simp
  next
    case (Some tr)
    then obtain w r where tr: "strtok_r seps s = Some (w, r)" by (cases tr) auto
    then have "t = w \<or> t \<in> set (strtoks seps r)" using 1(2) by (subst (asm) strtoks.simps) simp
    then show ?thesis using 1(1) tr strtok_r_token [OF tr] by blast
  qed
qed

end
