(* ===== verification/Char_Class.thy ===== *)
theory Char_Class
  imports C_String
begin

text \<open>
  The inline functions of \<^verbatim>\<open>src/src/dataClassify.h\<close> and \<^verbatim>\<open>src/src/strHand.h\<close> that all
  other components call: the guarded character classes and string equality.  The argument of a
  class function is a C \<^verbatim>\<open>int\<close>; a \<^verbatim>\<open>char\<close> argument is promoted with \<^const>\<open>schar\<close>, so a
  byte above 127 arrives as a negative number and is rejected by the guard.
\<close>

definition EOF_int :: int where "EOF_int = -1"
definition UCHAR_MAX :: int where "UCHAR_MAX = 255"

definition sw_isalnum :: "int \<Rightarrow> bool" where
  "sw_isalnum c = (if c = EOF_int \<or> c < 0 \<or> c > UCHAR_MAX then False else isalnum (nat c))"

definition sw_isalpha :: "int \<Rightarrow> bool" where
  "sw_isalpha c = (if c = EOF_int \<or> c < 0 \<or> c > UCHAR_MAX then False else isalpha (nat c))"

definition sw_isdigit :: "int \<Rightarrow> bool" where
  "sw_isdigit c = (if c = EOF_int \<or> c < 0 \<or> c > UCHAR_MAX then False else isdigit (nat c))"

definition sw_isspace :: "int \<Rightarrow> bool" where
  "sw_isspace c = (if c = EOF_int \<or> c < 0 \<or> c > UCHAR_MAX then False else isspace (nat c))"

definition sw_isprint :: "int \<Rightarrow> bool" where
  "sw_isprint c = (if c = EOF_int \<or> c < 0 \<or> c > UCHAR_MAX then False else isprint (nat c))"

definition sw_isupper :: "int \<Rightarrow> bool" where
  "sw_isupper c = (if c = EOF_int \<or> c < 0 \<or> c > UCHAR_MAX then False else isupper (nat c))"

definition sw_islower :: "int \<Rightarrow> bool" where
  "sw_islower c = (if c = EOF_int \<or> c < 0 \<or> c > UCHAR_MAX then False else islower (nat c))"

lemmas sw_class_defs = sw_isalnum_def sw_isalpha_def sw_isdigit_def sw_isspace_def
  sw_isprint_def sw_isupper_def sw_islower_def EOF_int_def UCHAR_MAX_def

text \<open>On characters the guarded classes agree with the classes on byte codes.\<close>

lemma sw_class_char:
  "sw_isalnum (schar c) = isalnum (code c)"
  "sw_isalpha (schar c) = isalpha (code c)"
  "sw_isdigit (schar c) = isdigit (code c)"
  "sw_isspace (schar c) = isspace (code c)"
  "sw_isprint (schar c) = isprint (code c)"
  "sw_isupper (schar c) = isupper (code c)"
  "sw_islower (schar c) = islower (code c)"
  using code_less [of c] by (auto simp: sw_class_defs schar_def ctype_defs)

definition strings_match :: "string \<Rightarrow> string \<Rightarrow> bool" where
  "strings_match s1 s2 \<longleftrightarrow> strcmp s1 s2 = 0"

definition strings_match_ignore_case :: "string \<Rightarrow> string \<Rightarrow> bool" where
  "strings_match_ignore_case s1 s2 \<longleftrightarrow> strcasecmp_eq s1 s2"

lemma strings_match_iff [simp]: "strings_match a b \<longleftrightarrow> a = b"
  by (simp add: strings_match_def strcmp_0_iff)

lemma smic_refl [simp]: "strings_match_ignore_case s s"
  by (simp add: strings_match_ignore_case_def strcasecmp_eq_def)

lemma smic_sym: "strings_match_ignore_case a b \<Longrightarrow> strings_match_ignore_case b a"
  by (simp add: strings_match_ignore_case_def strcasecmp_eq_def)

lemma smic_trans:
  "\<lbrakk>strings_match_ignore_case a b; strings_match_ignore_case b c\<rbrakk> \<Longrightarrow> strings_match_ignore_case a c"
  by (simp add: strings_match_ignore_case_def strcasecmp_eq_def)

definition fold_case :: "string \<Rightarrow> string" where
  "fold_case s = map tolower s"

lemma smic_fold: "strings_match_ignore_case s t \<longleftrightarrow> fold_case s = fold_case t"
  by (simp add: strings_match_ignore_case_def strcasecmp_eq_def fold_case_def)

end
