(* ===== verification/Str_Hand.thy ===== *)
theory Str_Hand
  imports Char_Class
begin

text \<open>
  String handling: \<^verbatim>\<open>src/src/strHand.c\<close>, \<^verbatim>\<open>strcpy.c\<close>, \<^verbatim>\<open>strcat.c\<close>,
  \<^verbatim>\<open>wcscpy.c\<close>, \<^verbatim>\<open>wcscat.c\<close>, \<^verbatim>\<open>strnlen.c\<close> and \<^verbatim>\<open>timingsafe_memcmp.c\<close>.

  The copying functions are modelled at memory level: a buffer is the list of all cells of the
  array, the terminating zero included, and an access outside it gives \<^const>\<open>None\<close>.  The
  narrow and the wide variants have the same body, so one model with the zero element of the
  character type as parameter serves both.  The in-place editing functions work on the
  characters of a string.
\<close>

section \<open>Copying: sw_strcpy, sw_strcat and the wide variants\<close>

text \<open>\<^verbatim>\<open>strlen\<close>/\<^verbatim>\<open>wcslen\<close>: scan for the zero; no zero in the array is undefined behaviour.\<close>

definition mem_strlen :: "'a \<Rightarrow> 'a list \<Rightarrow> nat option" where
  "mem_strlen z b = (let n = length (takeWhile (\<lambda>c. c \<noteq> z) b) in if n < length b then Some n else None)"

text \<open>The loop \<^verbatim>\<open>while ((*dest++ = *src++)) ;\<close>.\<close>

function copy_loop :: "'a \<Rightarrow> 'a list \<Rightarrow> nat \<Rightarrow> 'a list \<Rightarrow> nat \<Rightarrow> 'a list option" where
  "copy_loop z dest i src j = do {
     c \<leftarrow> rd src j;
     dest' \<leftarrow> wr dest i c;
     if c = z then Some dest' else copy_loop z dest' (Suc i) src (Suc j) }"
  by pat_completeness auto
termination
  by (relation "measure (\<lambda>(z, dest, i, src, j). length src - j)") (auto simp: buf_simps)

declare copy_loop.simps [simp del]

text \<open>The loop \<^verbatim>\<open>while (*dest) dest++;\<close>.\<close>

function seek_end :: "'a \<Rightarrow> 'a list \<Rightarrow> nat \<Rightarrow> nat option" where
  "seek_end z dest i = do {
     c \<leftarrow> rd dest i;
     if c = z then Some i else seek_end z dest (Suc i) }"
  by pat_completeness auto
termination
  by (relation "measure (\<lambda>(z, dest, i). length dest - i)") (auto simp: buf_simps)

declare seek_end.simps [simp del]

text \<open>Arguments that may be the null pointer are options.\<close>

definition sw_strcpy :: "'a \<Rightarrow> 'a list option \<Rightarrow> 'a list option \<Rightarrow> nat \<Rightarrow> (errno \<times> 'a list option) option" where
  "sw_strcpy z dest src sz =
     (case (dest, src) of
        (Some d, Some s) \<Rightarrow>
          if sz = 0 then Some (EINVAL, dest)
          else do {
            n \<leftarrow> mem_strlen z s;
            if n \<ge> sz then Some (ERANGE, dest)
            else do { d' \<leftarrow> copy_loop z d 0 s 0; Some (OK0, Some d') } }
      | _ \<Rightarrow> Some (EINVAL, dest))"

definition sw_strcat :: "'a \<Rightarrow> 'a list option \<Rightarrow> 'a list option \<Rightarrow> nat \<Rightarrow> (errno \<times> 'a list option) option" where
  "sw_strcat z dest src sz =
     (case (dest, src) of
        (Some d, Some s) \<Rightarrow>
          if sz = 0 then Some (EINVAL, dest)
          else do {
            m \<leftarrow> mem_strlen z d;
            n \<leftarrow> mem_strlen z s;
            if m + n \<ge> sz then Some (ERANGE, dest)
            else do {
              e \<leftarrow> seek_end z d 0;
              d' \<leftarrow> copy_loop z d e s 0;
              Some (OK0, Some d') } }
      | _ \<Rightarrow> Some (EINVAL, dest))"

text \<open>The wide variants, on \<^verbatim>\<open>wchar_t\<close> of 32 bits.\<close>

definition sw_wcscpy :: "32 word list option \<Rightarrow> 32 word list option \<Rightarrow> nat \<Rightarrow> (errno \<times> 32 word list option) option" where
  "sw_wcscpy = sw_strcpy 0"

definition sw_wcscat :: "32 word list option \<Rightarrow> 32 word list option \<Rightarrow> nat \<Rightarrow> (errno \<times> 32 word list option) option" where
  "sw_wcscat = sw_strcat 0"

lemma mem_strlen_terminated:
  "z \<notin> set s \<Longrightarrow> mem_strlen z (s @ z # rest) = Some (length s)"
proof -
  assume "z \<notin> set s"
  then have "takeWhile (\<lambda>c. c \<noteq> z) (s @ z # rest) = s"
    by (intro takeWhile_append_stop) auto
  then show ?thesis by (simp add: mem_strlen_def)
qed

lemma seek_end_terminated:
  "z \<notin> set s \<Longrightarrow> seek_end z (pre @ s @ z # rest) (length pre) = Some (length pre + length s)"
proof (induction s arbitrary: pre)
  case Nil
  then show ?case by (subst seek_end.simps) (simp add: rd_append_at)
next
  case (Cons a s)
  have "seek_end z (pre @ (a # s) @ z # rest) (length pre)
      = seek_end z ((pre @ [a]) @ s @ z # rest) (length (pre @ [a]))"
    using Cons.prems by (subst seek_end.simps) (auto simp: rd_append_at)
  also have "\<dots> = Some (length pre + length (a # s))"
    using Cons.IH [of "pre @ [a]"] Cons.prems by simp
  finally show ?case .
qed

lemma copy_loop_terminated:
  "\<lbrakk>z \<notin> set s; length pre + length s < length (pre @ d)\<rbrakk>
   \<Longrightarrow> copy_loop z (pre @ d) (length pre) (spre @ s @ z # rest) (length spre)
      = Some (pre @ s @ z # drop (Suc (length s)) d)"
proof (induction s arbitrary: pre d spre)
  case Nil
  then obtain x d' where "d = x # d'" by (cases d) auto
  then show ?case by (subst copy_loop.simps) (simp add: rd_append_at list_update_append)
next
  case (Cons a s)
  then obtain x d' where d: "d = x # d'" by (cases d) auto
  have "copy_loop z (pre @ d) (length pre) (spre @ (a # s) @ z # rest) (length spre)
      = copy_loop z ((pre @ [a]) @ d') (length (pre @ [a])) ((spre @ [a]) @ s @ z # rest) (length (spre @ [a]))"
    using Cons.prems d by (subst copy_loop.simps) (auto simp: rd_append_at list_update_append)
  also have "\<dots> = Some ((pre @ [a]) @ s @ z # drop (Suc (length s)) d')"
    using Cons.prems d by (intro Cons.IH) auto
  finally show ?case using d by simp
qed

text \<open>
  Copying stays inside the destination and stores exactly the source string with its
  terminator, or reports \<^const>\<open>ERANGE\<close> and leaves the destination alone.
\<close>

lemma sw_strcpy_correct:
  assumes "z \<notin> set s" and "0 < sz" and "sz \<le> length d"
  shows "sw_strcpy z (Some d) (Some (s @ z # rest)) sz =
    Some (if length s < sz then (OK0, Some (s @ z # drop (Suc (length s)) d)) else (ERANGE, Some d))"
  using assms copy_loop_terminated [of z s "[]" d "[]" rest]
  by (auto simp: sw_strcpy_def mem_strlen_terminated)

lemma sw_strcat_correct:
  assumes "z \<notin> set s" and "z \<notin> set t" and "sz \<le> length (t @ z # junk)" and "0 < sz"
  shows "sw_strcat z (Some (t @ z # junk)) (Some (s @ z # rest)) sz =
    Some (if length t + length s < sz
          then (OK0, Some (t @ s @ z # drop (length s) junk))
          else (ERANGE, Some (t @ z # junk)))"
proof (cases "length t + length s < sz")
  case True
  have seek: "seek_end z (t @ z # junk) 0 = Some (length t)"
    using seek_end_terminated [of z t "[]" junk] assms by simp
  have copy: "copy_loop z (t @ z # junk) (length t) (s @ z # rest) 0
      = Some (t @ s @ z # drop (length s) junk)"
    using copy_loop_terminated [of z s t "z # junk" "[]" rest] assms True by simp
  show ?thesis
    using assms True seek copy by (simp add: sw_strcat_def mem_strlen_terminated)
next
  case False
  then show ?thesis using assms by (simp add: sw_strcat_def mem_strlen_terminated)
qed

section \<open>xstrnlen\<close>

text \<open>\<^verbatim>\<open>memchr(str, 0, maxlen)\<close> on a terminated string looks at no more than the terminator.\<close>

definition xstrnlen :: "string option \<Rightarrow> nat \<Rightarrow> nat" where
  "xstrnlen str maxlen =
     (case str of None \<Rightarrow> 0
      | Some s \<Rightarrow> (case strchr (take maxlen (s @ [nul])) nul of None \<Rightarrow> maxlen | Some cp \<Rightarrow> cp))"

lemma xstrnlen_eq: "nul \<notin> set s \<Longrightarrow> xstrnlen (Some s) n = min (length s) n"
proof (cases "length s < n")
  case True
  assume "nul \<notin> set s"
  then have "takeWhile (\<lambda>x. x \<noteq> nul) (s @ [nul]) = s"
    by (intro takeWhile_append_stop) auto
  then show ?thesis using True by (simp add: xstrnlen_def strchr_def)
next
  case False
  assume "nul \<notin> set s"
  with False show ?thesis
    by (auto simp: xstrnlen_def strchr_Some_iff split: option.splits dest: in_set_takeD)
      (metis less_le_trans linorder_not_less nth_mem)
qed

section \<open>Case conversion, trim, strFeed, squeeze\<close>

text \<open>Both converters rewrite the characters of the given class and keep the others.\<close>

definition strToLower :: "string \<Rightarrow> string" where
  "strToLower s = map (\<lambda>c. if sw_isupper (schar c) then tolower c else c) s"

definition strToUpper :: "string \<Rightarrow> string" where
  "strToUpper s = map (\<lambda>c. if sw_islower (schar c) then toupper c else c) s"

lemma strToLower_eq: "strToLower s = map tolower s"
  by (simp add: strToLower_def sw_class_char tolower_def)

lemma strToUpper_eq: "strToUpper s = map toupper s"
  by (simp add: strToUpper_def sw_class_char toupper_def)

lemma strToLower_smic: "strToLower s = strToLower t \<longleftrightarrow> strings_match_ignore_case s t"
  by (simp add: strToLower_eq strings_match_ignore_case_def strcasecmp_eq_def)

text \<open>
  \<^verbatim>\<open>trim\<close>: the pointer \<^verbatim>\<open>p\<close> runs down from the last character and stops at the first
  non-space or one before the array; the terminator goes one past it.  The argument \<^verbatim>\<open>n\<close>
  is the index of \<^verbatim>\<open>p + 1\<close>.
\<close>

fun trim_loop :: "string \<Rightarrow> nat \<Rightarrow> nat" where
  "trim_loop s 0 = 0"
| "trim_loop s (Suc p) = (if \<not> sw_isspace (schar (s ! p)) then Suc p else trim_loop s p)"

definition trim :: "string \<Rightarrow> string" where
  "trim s = (if s = [] then s else take (trim_loop s (length s)) s)"

lemma trim_eq: "trim s = rev (dropWhile (\<lambda>c. isspace (code c)) (rev s))"
proof -
  have "n \<le> length s \<Longrightarrow>
      take (trim_loop s n) s = rev (dropWhile (\<lambda>c. isspace (code c)) (rev (take n s)))" for n
    by (induction n) (auto simp: sw_class_char take_Suc_conv_app_nth)
  then show ?thesis by (auto simp: trim_def)
qed

text \<open>
  \<^verbatim>\<open>strFeed\<close>: each round searches the string from its start for a space and overwrites it
  with a newline, until \<^verbatim>\<open>count\<close> were written or none is left.
\<close>

definition feed_char :: char where "feed_char = CHR 0x0A"

fun strFeed_loop :: "string \<Rightarrow> nat \<Rightarrow> nat \<Rightarrow> nat \<times> string" where
  "strFeed_loop string 0 written = (written, string)"
| "strFeed_loop string (Suc left) written =
     (case strchr string CHR '' '' of
        None \<Rightarrow> (written, string)
      | Some p \<Rightarrow> strFeed_loop (string[p := feed_char]) left (Suc written))"

definition strFeed :: "string \<Rightarrow> int \<Rightarrow> nat \<times> string" where
  "strFeed string count =
     (if string = [] \<or> count \<le> 0 then (0, string) else strFeed_loop string (nat count) 0)"

text \<open>What it computes: the first \<^verbatim>\<open>n\<close> spaces become newlines.\<close>

fun feed_spec :: "nat \<Rightarrow> string \<Rightarrow> string" where
  "feed_spec n [] = []"
| "feed_spec 0 s = s"
| "feed_spec (Suc n) (c # s) = (if c = CHR '' '' then feed_char # feed_spec n s else c # feed_spec (Suc n) s)"

lemma feed_spec_0 [simp]: "feed_spec 0 s = s"
  by (cases s) auto

lemma feed_spec_nospace: "CHR '' '' \<notin> set s \<Longrightarrow> feed_spec n s = s"
  by (induction n s rule: feed_spec.induct) auto

lemma feed_spec_prefix:
  "CHR '' '' \<notin> set pre \<Longrightarrow> feed_spec (Suc n) (pre @ CHR '' '' # t) = pre @ feed_char # feed_spec n t"
  by (induction pre) auto

lemma feed_spec_skip:
  "CHR '' '' \<notin> set pre \<Longrightarrow> feed_spec n (pre @ t) = pre @ feed_spec n t"
  by (induction pre) (cases n; auto)+

lemma strFeed_loop_eq:
  "strFeed_loop s n w = (w + min n (count_list s CHR '' ''), feed_spec n s)"
proof (induction n arbitrary: s w)
  case 0
  then show ?case by simp
next
  case (Suc n)
  show ?case
  proof (cases "CHR '' '' \<in> set s")
    case False
    then have "strchr s CHR '' '' = None" by simp
    with False show ?thesis by (simp add: feed_spec_nospace count_list_0_iff del: strchr_None_iff)
  next
    case True
    then obtain pre t where s: "s = pre @ CHR '' '' # t" and pre: "CHR '' '' \<notin> set pre"
      by (meson split_list_first)
    have p: "strchr (pre @ CHR '' '' # t) CHR '' '' = Some (length pre)"
      using pre by (simp add: strchr_Some_iff)
    have "feed_char \<noteq> CHR '' ''" by (simp add: feed_char_def)
    then show ?thesis
      using pre Suc.IH [of "pre @ feed_char # t"] feed_spec_skip [of "pre @ [feed_char]" n t]
      by (simp add: s p list_update_append feed_spec_prefix count_list_0_iff
          del: strchr_None_iff)
  qed
qed

lemma strFeed_eq:
  "strFeed s n = (min (nat n) (count_list s CHR '' ''), feed_spec (nat n) s)"
  by (auto simp: strFeed_def strFeed_loop_eq)

text \<open>
  \<^verbatim>\<open>squeeze\<close> compacts the array in place: \<^verbatim>\<open>i\<close> reads, \<^verbatim>\<open>j\<close> writes behind it.
  The model runs the loop on the cells of the array and cuts the string at \<^verbatim>\<open>j\<close>.
\<close>

fun squeeze_loop :: "string \<Rightarrow> string \<Rightarrow> nat \<Rightarrow> nat \<Rightarrow> nat \<Rightarrow> string \<times> nat" where
  "squeeze_loop reject buffer i j 0 = (buffer, j)"
| "squeeze_loop reject buffer i j (Suc left) =
     (if strchr reject (buffer ! i) = None
      then squeeze_loop reject (buffer[j := buffer ! i]) (Suc i) (Suc j) left
      else squeeze_loop reject buffer (Suc i) j left)"

definition squeeze :: "string \<Rightarrow> string \<Rightarrow> string" where
  "squeeze buffer reject =
     (if buffer = [] \<or> reject = [] then buffer
      else (let (b, j) = squeeze_loop reject buffer 0 0 (length buffer) in take j b))"

lemma squeeze_loop_eq:
  "\<lbrakk>j \<le> length pre; set out \<inter> set reject = {}; length out = j\<rbrakk> \<Longrightarrow>
   squeeze_loop reject (out @ drop j pre @ s) (length pre) j (length s)
     = (let out' = out @ filter (\<lambda>c. c \<notin> set reject) s
        in (out' @ drop (length out') (pre @ s), length out'))"
proof (induction s arbitrary: pre out j)
  case Nil
  then show ?case by simp
next
  case (Cons a s)
  have at: "(out @ drop j pre @ a # s) ! length pre = a"
    using Cons.prems by (simp add: nth_append)
  show ?case
  proof (cases "a \<in> set reject")
    case True
    then have "squeeze_loop reject (out @ drop j pre @ a # s) (length pre) j (length (a # s))
      = squeeze_loop reject (out @ drop j (pre @ [a]) @ s) (length (pre @ [a])) j (length s)"
      using Cons.prems by (simp add: at)
    also have "\<dots> = (let out' = out @ filter (\<lambda>c. c \<notin> set reject) s
        in (out' @ drop (length out') ((pre @ [a]) @ s), length out'))"
      using Cons.prems by (intro Cons.IH) auto
    finally show ?thesis using True by simp
  next
    case False
    have upd: "(out @ drop j pre @ a # s)[j := a] = (out @ [a]) @ drop (Suc j) (pre @ [a]) @ s"
    proof (cases "drop j pre")
      case Nil
      then show ?thesis using Cons.prems by (simp add: list_update_append)
    next
      case (Cons x xs)
      then have "drop (Suc j) pre = xs" by (metis drop_Suc list.sel(3) tl_drop)
      moreover have "j < length pre" using Cons by (metis drop_all linorder_not_less list.distinct(1))
      ultimately show ?thesis using Cons \<open>length out = j\<close> by (simp add: list_update_append)
    qed
    have "squeeze_loop reject (out @ drop j pre @ a # s) (length pre) j (length (a # s))
      = squeeze_loop reject ((out @ [a]) @ drop (Suc j) (pre @ [a]) @ s) (length (pre @ [a])) (Suc j) (length s)"
      using False by (simp only: squeeze_loop.simps list.size at add_Suc_right upd) simp
    also have "\<dots> = (let out' = (out @ [a]) @ filter (\<lambda>c. c \<notin> set reject) s
        in (out' @ drop (length out') ((pre @ [a]) @ s), length out'))"
      using Cons.prems False by (intro Cons.IH) auto
    finally show ?thesis using False by simp
  qed
qed

lemma squeeze_eq: "squeeze buffer reject = filter (\<lambda>c. c \<notin> set reject) buffer"
  using squeeze_loop_eq [of 0 "[]" "[]" reject buffer]
  by (auto simp: squeeze_def Let_def)

section \<open>strColor\<close>

definition strColor :: "int \<Rightarrow> string" where
  "strColor color =
     (if color = 0 then ''Black'' else if color = 1 then ''Red'' else if color = 2 then ''Green''
      else if color = 3 then ''Yellow'' else if color = 4 then ''Blue''
      else if color = 5 then ''Magenta'' else if color = 6 then ''Cyan''
      else if color = 7 then ''White'' else ''Unknown Color!'')"

section \<open>timingsafe_memcmp\<close>

text \<open>
  The comparison that takes the same steps whatever the octets are.  All values of
  \<^verbatim>\<open>lt\<close>, \<^verbatim>\<open>gt\<close>, \<^verbatim>\<open>cmp\<close>, \<^verbatim>\<open>res\<close> and \<^verbatim>\<open>done\<close> are -1, 0 or 1; the shift of
  a negative \<^verbatim>\<open>int\<close> is the arithmetic one of the supported compilers.
\<close>

unbundle bit_operations_syntax

function timingsafe_loop :: "8 word list \<Rightarrow> 8 word list \<Rightarrow> nat \<Rightarrow> nat \<Rightarrow> int \<Rightarrow> int \<Rightarrow> int option" where
  "timingsafe_loop p1 p2 len i res don =
     (if i < len then do {
        a \<leftarrow> rd p1 i;
        b \<leftarrow> rd p2 i;
        let lt = drop_bit 8 (uint a - uint b);
            gt = drop_bit 8 (uint b - uint a);
            cmp = lt - gt
        in timingsafe_loop p1 p2 len (Suc i) (res OR (cmp AND NOT don)) (don OR (lt OR gt)) }
      else Some res)"
  by pat_completeness auto
termination by (relation "measure (\<lambda>(p1, p2, len, i, _). len - i)") auto

declare timingsafe_loop.simps [simp del]

definition timingsafe_memcmp :: "8 word list \<Rightarrow> 8 word list \<Rightarrow> nat \<Rightarrow> int option" where
  "timingsafe_memcmp b1 b2 len = timingsafe_loop b1 b2 len 0 0 0"

text \<open>The order it decides: the sign of the first difference.\<close>

fun octet_order :: "8 word list \<Rightarrow> 8 word list \<Rightarrow> int" where
  "octet_order (a # as) (b # bs) = (if a = b then octet_order as bs else if a < b then -1 else 1)"
| "octet_order _ _ = 0"

lemma div_256_small:
  fixes d :: int
  assumes "-256 < d" "d < 256"
  shows "d div 256 = (if d < 0 then -1 else 0)"
proof (cases "d < 0")
  case True
  have "d div 256 = ((d + 256) + (-1) * 256) div 256" by simp
  also have "\<dots> = (d + 256) div 256 + (-1)" by (subst div_mult_self1) auto
  also have "(d + 256) div 256 = 0" using True assms by (intro div_pos_pos_trivial) auto
  finally show ?thesis using True by simp
qed (use assms in auto)

lemma drop_bit_8_diff:
  fixes a b :: "8 word"
  shows "drop_bit 8 (uint a - uint b) = (if a < b then -1 else 0)"
proof -
  have b: "0 \<le> uint a" "0 \<le> uint b" "uint a < 256" "uint b < 256"
    using uint_lt2p [of a] uint_lt2p [of b] by auto
  have "(uint a - uint b) div 256 = (if uint a - uint b < 0 then -1 else 0)"
    by (rule div_256_small) (use b in linarith)+
  then show ?thesis by (simp add: drop_bit_eq_div word_less_def)
qed

lemma timingsafe_loop_decided:
  "\<lbrakk>i \<le> len; len \<le> length p1; len \<le> length p2\<rbrakk> \<Longrightarrow> timingsafe_loop p1 p2 len i res (-1) = Some res"
proof (induction "len - i" arbitrary: i)
  case 0
  then show ?case by (subst timingsafe_loop.simps) simp
next
  case (Suc n)
  then have "timingsafe_loop p1 p2 len (Suc i) res (-1) = Some res" by simp
  then show ?case using Suc.hyps(2) Suc.prems by (subst timingsafe_loop.simps) (simp add: Let_def)
qed

lemma timingsafe_loop_eq:
  "\<lbrakk>i \<le> len; len \<le> length p1; len \<le> length p2\<rbrakk> \<Longrightarrow>
   timingsafe_loop p1 p2 len i 0 0 = Some (octet_order (take (len - i) (drop i p1)) (take (len - i) (drop i p2)))"
proof (induction "len - i" arbitrary: i)
  case 0
  then show ?case by (subst timingsafe_loop.simps) simp
next
  case (Suc n)
  then have i: "i < len" "len - i = Suc (len - Suc i)" by auto
  then have drops: "drop i p1 = p1 ! i # drop (Suc i) p1" "drop i p2 = p2 ! i # drop (Suc i) p2"
    using Suc.prems by (simp_all add: Cons_nth_drop_Suc)
  have IH: "timingsafe_loop p1 p2 len (Suc i) 0 0
      = Some (octet_order (take (len - Suc i) (drop (Suc i) p1)) (take (len - Suc i) (drop (Suc i) p2)))"
    using Suc.hyps(1) [of "Suc i"] Suc.hyps(2) Suc.prems by auto
  have dec: "timingsafe_loop p1 p2 len (Suc i) r (-1) = Some r" for r
    using timingsafe_loop_decided i Suc.prems by auto
  show ?case
    using i Suc.prems IH dec
    by (subst timingsafe_loop.simps) (auto simp: Let_def drop_bit_8_diff drops)
qed

lemma timingsafe_memcmp_eq:
  "\<lbrakk>len \<le> length p; len \<le> length q\<rbrakk> \<Longrightarrow>
   timingsafe_memcmp p q len = Some (octet_order (take len p) (take len q))"
  using timingsafe_loop_eq [of 0 len p q] by (simp add: timingsafe_memcmp_def)

lemma octet_order_0: "length as = length bs \<Longrightarrow> octet_order as bs = 0 \<longleftrightarrow> as = bs"
  by (induction as bs rule: octet_order.induct) auto

section \<open>Properties\<close>

text \<open>
  The bounded copy and the bounded concatenation never write outside their
  destination and never truncate: given a terminated source (and destination) and a size that
  does not exceed the array, they store exactly the text with its terminator and leave the
  cells behind it alone, or return ERANGE with the destination unchanged; null pointers and a
  size of zero give EINVAL.
\<close>

theorem bounded_copy_correct:
  assumes "z \<notin> set s" "z \<notin> set t" "sz \<le> length (t @ z # junk)"
  shows "sw_strcpy z (Some (t @ z # junk)) (Some (s @ z # rest)) sz =
      Some (if sz = 0 then (EINVAL, Some (t @ z # junk))
            else if length s < sz then (OK0, Some (s @ z # drop (Suc (length s)) (t @ z # junk)))
            else (ERANGE, Some (t @ z # junk)))
    \<and> sw_strcat z (Some (t @ z # junk)) (Some (s @ z # rest)) sz =
      Some (if sz = 0 then (EINVAL, Some (t @ z # junk))
            else if length t + length s < sz then (OK0, Some (t @ s @ z # drop (length s) junk))
            else (ERANGE, Some (t @ z # junk)))
    \<and> sw_strcpy z None src n = Some (EINVAL, None) \<and> sw_strcat z dst None n = Some (EINVAL, dst)"
proof (cases "sz = 0")
  case True
  then show ?thesis by (auto simp: sw_strcpy_def sw_strcat_def split: option.splits)
next
  case False
  then show ?thesis
    using sw_strcpy_correct [OF assms(1) _ assms(3)] sw_strcat_correct [OF assms]
    by (auto simp: sw_strcpy_def sw_strcat_def split: option.splits)
qed

theorem bounded_copy_correct_witness:
  "sw_strcat 0 (Some [104, 0, 7, 7]) (Some [105, 0]) 4 = Some (OK0, Some [104, 105, 0, 7::nat])
   \<and> sw_strcpy 0 (Some [104, 0, 7, 7]) (Some [105, 0]) 1 = Some (ERANGE, Some [104, 0, 7, 7::nat])"
  using bounded_copy_correct [of "0::nat" "[105]" "[104]" 4 "[7, 7]" "[]"]
    bounded_copy_correct [of "0::nat" "[105]" "[104]" 1 "[7, 7]" "[]"] by simp

text \<open>
  The in-place edits of a string: trimming removes exactly the trailing white space,
  feeding turns the first given number of spaces into line feeds and returns how many it
  wrote, and squeezing keeps exactly the characters that are not rejected, in order.
\<close>

theorem string_edits_correct:
  "trim s = rev (dropWhile (\<lambda>c. isspace (code c)) (rev s))
   \<and> strFeed s n = (min (nat n) (count_list s CHR '' ''), feed_spec (nat n) s)
   \<and> squeeze s reject = filter (\<lambda>c. c \<notin> set reject) s"
  by (simp add: trim_eq strFeed_eq squeeze_eq)

text \<open>
  The constant-time comparison is right: on blocks of at least the given length it
  reads nothing outside them, returns zero exactly if the blocks agree, and otherwise the sign
  of the first octet that differs.
\<close>

theorem timingsafe_memcmp_correct:
  assumes "len \<le> length p" "len \<le> length q"
  shows "timingsafe_memcmp p q len = Some (octet_order (take len p) (take len q))
    \<and> (timingsafe_memcmp p q len = Some 0 \<longleftrightarrow> take len p = take len q)"
  using assms by (simp add: timingsafe_memcmp_eq octet_order_0 min_def)

theorem timingsafe_memcmp_correct_witness: "timingsafe_memcmp [1, 5, 9] [1, 7, 2] 3 = Some (-1)"
  using timingsafe_memcmp_correct [of 3 "[1, 5, 9]" "[1, 7, 2]"] by simp

end
