(* ===== verification/Data_Classify.thy ===== *)
theory Data_Classify
  imports Str_Hand
begin

text \<open>
  Data classification, \<^verbatim>\<open>src/src/dataClassify.c\<close>: the predicates that decide whether a string
  may be used as a nickname, user name, host name, real name or file name, and the column width
  of wide characters.  A wide character is its code point, an \<^typ>\<open>int\<close>; a string argument that
  the code compares with the null pointer is an option.  The range tables keep the order of the
  source; their comment field, which no code reads, is left out.
\<close>

section \<open>Range tables\<close>

datatype RANGE = RANGE (start: int) (stop: int)

definition in_range :: "int \<Rightarrow> RANGE \<Rightarrow> bool" where
  "in_range wc r \<longleftrightarrow> wc \<ge> start r \<and> wc \<le> stop r"

definition cjk_array :: "RANGE list" where
  "cjk_array = [
    RANGE 0x2E80 0x2EFF, RANGE 0x2F00 0x2FDF, RANGE 0x3000 0x303F, RANGE 0x30A0 0x30FF,
    RANGE 0x3100 0x312F, RANGE 0x31A0 0x31BF, RANGE 0x31C0 0x31EF, RANGE 0x31F0 0x31FF,
    RANGE 0x3200 0x32FF, RANGE 0x3300 0x33FF, RANGE 0x3400 0x4DBF, RANGE 0x4E00 0x9FFF,
    RANGE 0xA000 0xA48F, RANGE 0xA490 0xA4CF, RANGE 0xF900 0xFAFF, RANGE 0xFE30 0xFE4F,
    RANGE 0x20000 0x2A6DF, RANGE 0x2A700 0x2B739, RANGE 0x2B740 0x2B81D, RANGE 0x2B820 0x2CEA1,
    RANGE 0x2F800 0x2FA1F]"

definition combined_array :: "RANGE list" where
  "combined_array = [
    RANGE 0x0300 0x036F, RANGE 0x1AB0 0x1AFF, RANGE 0x1DC0 0x1DFF, RANGE 0x20D0 0x20FF,
    RANGE 0xFE20 0xFE2F]"

definition fullwidth :: "RANGE list" where
  "fullwidth = [
    RANGE 0x2614 0x2614, RANGE 0x2615 0x2615, RANGE 0x2648 0x2653, RANGE 0x267F 0x267F,
    RANGE 0x2693 0x2693, RANGE 0x26A1 0x26A1, RANGE 0x26AA 0x26AB, RANGE 0x26BD 0x26BE,
    RANGE 0x26C4 0x26C5, RANGE 0x26CE 0x26CE, RANGE 0x26D4 0x26D4, RANGE 0x26EA 0x26EA,
    RANGE 0x26F2 0x26F2, RANGE 0x26F3 0x26F3, RANGE 0x26F5 0x26F5, RANGE 0x26FA 0x26FA,
    RANGE 0x26FD 0x26FD, RANGE 0x2705 0x2705, RANGE 0x274C 0x274C, RANGE 0x274E 0x274E,
    RANGE 0x2795 0x2797, RANGE 0xFF01 0xFF5E, RANGE 0xFF5F 0xFF60, RANGE 0xFFE0 0xFFE6,
    RANGE 0x1F300 0x1F30C, RANGE 0x1F30D 0x1F310, RANGE 0x1F311 0x1F320, RANGE 0x1F32D 0x1F32F,
    RANGE 0x1F330 0x1F335, RANGE 0x1F337 0x1F344, RANGE 0x1F345 0x1F353, RANGE 0x1F354 0x1F374,
    RANGE 0x1F375 0x1F37C, RANGE 0x1F37E 0x1F37F, RANGE 0x1F380 0x1F393, RANGE 0x1F3A0 0x1F3AD,
    RANGE 0x1F3AE 0x1F3B0, RANGE 0x1F3B2 0x1F3B4, RANGE 0x1F3B5 0x1F3BC, RANGE 0x1F3BD 0x1F3CA,
    RANGE 0x1F3CF 0x1F3D3, RANGE 0x1F3E0 0x1F3F0, RANGE 0x1F3F4 0x1F3F4, RANGE 0x1F3F8 0x1F3F9,
    RANGE 0x1F3FA 0x1F3FA, RANGE 0x1F400 0x1F42C, RANGE 0x1F42D 0x1F43D, RANGE 0x1F43E 0x1F43E,
    RANGE 0x1F440 0x1F440, RANGE 0x1F442 0x1F445, RANGE 0x1F446 0x1F450, RANGE 0x1F451 0x1F463,
    RANGE 0x1F464 0x1F477, RANGE 0x1F478 0x1F480, RANGE 0x1F481 0x1F483, RANGE 0x1F484 0x1F488,
    RANGE 0x1F489 0x1F48A, RANGE 0x1F48B 0x1F492, RANGE 0x1F493 0x1F49F, RANGE 0x1F4A0 0x1F4AD,
    RANGE 0x1F4AE 0x1F4AF, RANGE 0x1F4B0 0x1F4B9, RANGE 0x1F4BA 0x1F4DC, RANGE 0x1F4DD 0x1F4F6,
    RANGE 0x1F4F7 0x1F4FC, RANGE 0x1F4FF 0x1F4FF, RANGE 0x1F500 0x1F518, RANGE 0x1F519 0x1F51D,
    RANGE 0x1F51E 0x1F51F, RANGE 0x1F520 0x1F524, RANGE 0x1F525 0x1F52E, RANGE 0x1F52F 0x1F531,
    RANGE 0x1F532 0x1F539, RANGE 0x1F53A 0x1F53D, RANGE 0x1F54B 0x1F54E, RANGE 0x1F550 0x1F567,
    RANGE 0x1F57A 0x1F57A, RANGE 0x1F595 0x1F595, RANGE 0x1F596 0x1F596, RANGE 0x1F5A4 0x1F5A4,
    RANGE 0x1F5FB 0x1F5FF, RANGE 0x1F600 0x1F64F, RANGE 0x1F680 0x1F6A4, RANGE 0x1F6A5 0x1F6A8,
    RANGE 0x1F6A9 0x1F6C5, RANGE 0x1F6CC 0x1F6CC, RANGE 0x1F6D0 0x1F6D2, RANGE 0x1F6D5 0x1F6D7,
    RANGE 0x1F6DD 0x1F6DF, RANGE 0x1F6EB 0x1F6EB, RANGE 0x1F6EC 0x1F6EC, RANGE 0x1F6F4 0x1F6FC,
    RANGE 0x1F90C 0x1F90C, RANGE 0x1F90D 0x1F90E, RANGE 0x1F90F 0x1F90F, RANGE 0x1F910 0x1F917,
    RANGE 0x1F918 0x1F91F, RANGE 0x1F920 0x1F92F, RANGE 0x1F930 0x1F937, RANGE 0x1F938 0x1F93A,
    RANGE 0x1F93C 0x1F93F, RANGE 0x1F940 0x1F945, RANGE 0x1F947 0x1F94F, RANGE 0x1F950 0x1F96F,
    RANGE 0x1F970 0x1F97A, RANGE 0x1F97B 0x1F97F, RANGE 0x1F980 0x1F9AD, RANGE 0x1F9AE 0x1F9AF,
    RANGE 0x1F9B4 0x1F9B7, RANGE 0x1F9B8 0x1F9B9, RANGE 0x1F9BA 0x1F9BF, RANGE 0x1F9C0 0x1F9CB,
    RANGE 0x1F9CC 0x1F9CC, RANGE 0x1F9CD 0x1F9CF, RANGE 0x1F9D0 0x1F9D8, RANGE 0x1F9D9 0x1F9DF,
    RANGE 0x1F9E0 0x1F9E6, RANGE 0x1F9E7 0x1F9E9, RANGE 0x1F9EA 0x1F9FF]"

section \<open>Searching the tables\<close>

text \<open>The loop over the ranges from a start entry, and the same loop between two entries.\<close>

fun scan_ranges :: "RANGE list \<Rightarrow> int \<Rightarrow> bool" where
  "scan_ranges [] wc = False"
| "scan_ranges (rp # rps) wc = (if wc \<ge> start rp \<and> wc \<le> stop rp then True else scan_ranges rps wc)"

definition is_cjk :: "int \<Rightarrow> bool" where
  "is_cjk wc =
     (let mid = length cjk_array div 2 in
      if wc < start (cjk_array ! 0) \<or> wc > stop (cjk_array ! (length cjk_array - 1)) then False
      else scan_ranges (drop (if wc < start (cjk_array ! mid) then 0 else mid) cjk_array) wc)"

definition is_combined :: "int \<Rightarrow> bool" where
  "is_combined wc = scan_ranges combined_array wc"

definition xwcwidth :: "int \<Rightarrow> int \<Rightarrow> int" where
  "xwcwidth wc fwlen =
     (let mid = length fullwidth div 2 in
      if wc \<ge> 0x20 \<and> wc \<le> 0xFF then 1
      else if wc < 0x20 \<or> is_combined wc then 0
      else if wc < start (fullwidth ! 0) \<or> wc > stop (fullwidth ! (length fullwidth - 1))
        then (if is_cjk wc then fwlen else 1)
      else (let begin_ix = (if wc < start (fullwidth ! mid) then 0 else mid);
                end_ix = (if wc < start (fullwidth ! mid) then mid else length fullwidth)
            in if scan_ranges (take (end_ix - begin_ix) (drop begin_ix fullwidth)) wc then fwlen
               else (if is_cjk wc then fwlen else 1)))"

text \<open>\<^verbatim>\<open>unsigned int width\<close> accumulates modulo $2^{32}$ and is returned as an \<^verbatim>\<open>int\<close>.\<close>

fun xwcswidth_loop :: "int list \<Rightarrow> int \<Rightarrow> 32 word \<Rightarrow> 32 word" where
  "xwcswidth_loop [] fwlen width = width"
| "xwcswidth_loop (c # cs) fwlen width = xwcswidth_loop cs fwlen (width + word_of_int (xwcwidth c fwlen))"

definition xwcswidth :: "int list \<Rightarrow> int \<Rightarrow> int" where
  "xwcswidth str fwlen = sint (xwcswidth_loop str fwlen 0)"

text \<open>
  The tables are well formed: every range is non-empty and they ascend without overlap.  Then
  starting in the middle loses no match.
\<close>

fun ascending :: "RANGE list \<Rightarrow> bool" where
  "ascending [] = True"
| "ascending [r] = (start r \<le> stop r)"
| "ascending (r # s # rs) = (start r \<le> stop r \<and> stop r < start s \<and> ascending (s # rs))"

lemma scan_ranges_iff: "scan_ranges rs wc \<longleftrightarrow> (\<exists>r\<in>set rs. in_range wc r)"
  by (induction rs) (auto simp: in_range_def)

lemma ascending_head_le: "\<lbrakk>ascending (r # rs); s \<in> set rs\<rbrakk> \<Longrightarrow> stop r < start s"
proof (induction rs arbitrary: r)
  case (Cons a rs)
  then show ?case
    by (cases rs) (auto dest: Cons.IH)
qed simp

lemma ascending_append:
  "ascending (xs @ ys) \<longleftrightarrow> ascending xs \<and> ascending ys \<and> (\<forall>x\<in>set xs. \<forall>y\<in>set ys. stop x < start y)"
proof (induction xs rule: ascending.induct)
  case (2 r)
  then show ?case
  proof (cases ys)
    case (Cons y ys')
    have "ascending (y # ys') \<Longrightarrow> start y \<le> start z" if "z \<in> set (y # ys')" for z
      using that ascending_head_le [of y ys'] by (cases ys') force+
    then show ?thesis using Cons by force
  qed auto
next
  case (3 r s rs)
  have "start s \<le> stop s" if "ascending (s # rs)" using that by (cases rs) auto
  then show ?case using 3 by fastforce
qed auto

lemma ascending_split:
  assumes "ascending rs" "m < length rs"
  shows "x \<in> set (take m rs) \<Longrightarrow> stop x < start (rs ! m)"
    and "y \<in> set (drop m rs) \<Longrightarrow> start (rs ! m) \<le> start y"
proof -
  have eq: "rs = take m rs @ rs ! m # drop (Suc m) rs"
    using assms(2) by (rule id_take_nth_drop)
  have asc: "ascending (rs ! m # drop (Suc m) rs)"
    and all: "\<forall>x\<in>set (take m rs). \<forall>y\<in>set (rs ! m # drop (Suc m) rs). stop x < start y"
    using assms(1) eq ascending_append [of "take m rs" "rs ! m # drop (Suc m) rs"] by metis+
  show "x \<in> set (take m rs) \<Longrightarrow> stop x < start (rs ! m)"
    using all by simp
  show "y \<in> set (drop m rs) \<Longrightarrow> start (rs ! m) \<le> start y"
  proof -
    assume "y \<in> set (drop m rs)"
    then have "y = rs ! m \<or> y \<in> set (drop (Suc m) rs)"
      using assms(2) by (simp add: Cons_nth_drop_Suc [symmetric])
    moreover have "start (rs ! m) \<le> stop (rs ! m)"
      using asc by (cases "drop (Suc m) rs") auto
    ultimately show ?thesis using ascending_head_le [OF asc] by force
  qed
qed

lemma scan_from_mid:
  assumes "ascending rs" "m < length rs" "\<not> wc < start (rs ! m)"
  shows "scan_ranges (drop m rs) wc = scan_ranges rs wc"
proof -
  have "\<not> in_range wc x" if "x \<in> set (take m rs)" for x
    using ascending_split(1) [OF assms(1,2) that] assms(3) by (auto simp: in_range_def)
  moreover have "set rs = set (take m rs) \<union> set (drop m rs)"
    by (metis append_take_drop_id set_append)
  ultimately show ?thesis by (auto simp: scan_ranges_iff)
qed

lemma scan_upto_mid:
  assumes "ascending rs" "m < length rs" "wc < start (rs ! m)"
  shows "scan_ranges (take m rs) wc = scan_ranges rs wc"
proof -
  have "\<not> in_range wc y" if "y \<in> set (drop m rs)" for y
    using ascending_split(2) [OF assms(1,2) that] assms(3) by (auto simp: in_range_def)
  moreover have "set rs = set (take m rs) \<union> set (drop m rs)"
    by (metis append_take_drop_id set_append)
  ultimately show ?thesis by (auto simp: scan_ranges_iff)
qed

lemma scan_outside:
  assumes "ascending rs" "rs \<noteq> []" "wc < start (rs ! 0) \<or> wc > stop (rs ! (length rs - 1))"
  shows "\<not> scan_ranges rs wc"
proof -
  have lo: "start (rs ! 0) \<le> start y" if "y \<in> set rs" for y
    using ascending_split(2) [OF assms(1), of 0 y] that assms(2) by simp
  have hi: "stop y \<le> stop (rs ! (length rs - 1))" if y: "y \<in> set rs" for y
  proof -
    have eq: "rs = take (length rs - 1) rs @ [rs ! (length rs - 1)]"
      using assms(2) by (metis append_butlast_last_id butlast_conv_take last_conv_nth)
    then have "y \<in> set (take (length rs - 1) rs) \<or> y = rs ! (length rs - 1)"
      using y by (metis Un_iff empty_iff empty_set list.set_intros(1) set_ConsD set_append)
    moreover have "start (rs ! (length rs - 1)) \<le> stop (rs ! (length rs - 1))"
      using assms(1) eq ascending_append ascending.simps(2) by metis
    ultimately show ?thesis
      using ascending_split(1) [OF assms(1), of "length rs - 1" y] assms(2) by force
  qed
  show ?thesis using lo hi assms(3) by (fastforce simp: scan_ranges_iff in_range_def)
qed

lemma ascending_tables: "ascending cjk_array" "ascending combined_array" "ascending fullwidth"
  by code_simp+

lemma tables_length: "length cjk_array = 21" "length fullwidth = 119"
  by code_simp+

lemma is_cjk_eq_scan: "is_cjk wc = scan_ranges cjk_array wc"
proof -
  have ne: "cjk_array \<noteq> []" using tables_length by force
  have m: "length cjk_array div 2 < length cjk_array" by (simp add: tables_length)
  show ?thesis
    using scan_outside [OF ascending_tables(1) ne, of wc]
      scan_from_mid [OF ascending_tables(1) m, of wc]
    by (auto simp: is_cjk_def Let_def)
qed

text \<open>The width by plain membership in the tables.\<close>

definition width_spec :: "int \<Rightarrow> int \<Rightarrow> int" where
  "width_spec wc fwlen =
     (if 0x20 \<le> wc \<and> wc \<le> 0xFF then 1
      else if wc < 0x20 \<or> (\<exists>r\<in>set combined_array. in_range wc r) then 0
      else if \<exists>r\<in>set (fullwidth @ cjk_array). in_range wc r then fwlen
      else 1)"

lemma xwcwidth_eq_spec: "xwcwidth wc fwlen = width_spec wc fwlen"
proof -
  have ne: "fullwidth \<noteq> []" using tables_length by force
  have m: "length fullwidth div 2 < length fullwidth" by (simp add: tables_length)
  note facts = scan_outside [OF ascending_tables(3) ne, of wc]
    scan_from_mid [OF ascending_tables(3) m, of wc]
    scan_upto_mid [OF ascending_tables(3) m, of wc]
  have full: "(\<exists>r\<in>set fullwidth. in_range wc r) = scan_ranges fullwidth wc"
    and cjk: "(\<exists>r\<in>set cjk_array. in_range wc r) = is_cjk wc"
    and comb: "(\<exists>r\<in>set combined_array. in_range wc r) = is_combined wc"
    by (simp_all add: scan_ranges_iff is_cjk_eq_scan is_combined_def)
  show ?thesis
    using facts unfolding xwcwidth_def width_spec_def Let_def set_append bex_Un full cjk comb
    by (auto simp: linorder_not_less)
qed

section \<open>Predicates on strings\<close>

definition filename_len_max :: nat where "filename_len_max = 80"
definition hostname_len_max :: nat where "hostname_len_max = 255"
definition nickname_len_max :: nat where "nickname_len_max = 45"
definition real_name_len_max :: nat where "real_name_len_max = 60"
definition username_len_max :: nat where "username_len_max = 100"

lemmas len_max_defs = filename_len_max_def hostname_len_max_def nickname_len_max_def
  real_name_len_max_def username_len_max_def

text \<open>The loop that all predicates share: every character up to the terminator passes the test.\<close>

fun all_chars :: "(char \<Rightarrow> bool) \<Rightarrow> string \<Rightarrow> bool" where
  "all_chars ok [] = True"
| "all_chars ok (c # cs) = (if \<not> ok c then False else all_chars ok cs)"

lemma all_chars_iff [simp]: "all_chars ok s \<longleftrightarrow> (\<forall>c\<in>set s. ok c)"
  by (induction s) auto

definition is_alphabetic :: "string option \<Rightarrow> bool" where
  "is_alphabetic str = (case str of None \<Rightarrow> False | Some s \<Rightarrow>
     if s = [] then False else all_chars (\<lambda>c. sw_isalpha (schar c)) s)"

definition is_irc_channel :: "string option \<Rightarrow> bool" where
  "is_irc_channel name = (case name of None \<Rightarrow> False | Some s \<Rightarrow>
     (case s of [] \<Rightarrow> False
      | c # _ \<Rightarrow> c = CHR ''&'' \<or> c = CHR ''#'' \<or> c = CHR ''+'' \<or> c = CHR ''!''))"

definition is_numeric :: "string option \<Rightarrow> bool" where
  "is_numeric str = (case str of None \<Rightarrow> False | Some s \<Rightarrow>
     if s = [] then False else all_chars (\<lambda>c. sw_isdigit (schar c)) s)"

definition is_printable :: "string option \<Rightarrow> bool" where
  "is_printable str = (case str of None \<Rightarrow> False | Some s \<Rightarrow>
     if s = [] then False else all_chars (\<lambda>c. sw_isprint (schar c)) s)"

definition is_whitespace :: "string option \<Rightarrow> bool" where
  "is_whitespace str = (case str of None \<Rightarrow> False | Some s \<Rightarrow>
     if s = [] then False else all_chars (\<lambda>c. sw_isspace (schar c)) s)"

definition upcase_chars :: string where "upcase_chars = ''ABCDEFGHIJKLMNOPQRSTUVWXYZ''"
definition downcase_chars :: string where "downcase_chars = ''abcdefghijklmnopqrstuvwxyz''"
definition digit_chars :: string where "digit_chars = ''0123456789''"

definition filename_legal_index :: string where
  "filename_legal_index = upcase_chars @ downcase_chars @ digit_chars @ '' ()+-._[]''"

definition host_chars :: string where
  "host_chars = downcase_chars @ ''.'' @ digit_chars @ ''-'' @ upcase_chars @ '':''"

definition nickname_legal_index :: string where
  "nickname_legal_index = upcase_chars @ downcase_chars @ digit_chars
     @ ''-['' @ [CHR 0x5C] @ '']^_'' @ [CHR 0x60] @ ''{|}''"

definition username_legal_index :: string where
  "username_legal_index = upcase_chars @ downcase_chars @ digit_chars
     @ ''$-./['' @ [CHR 0x5C] @ '']^_'' @ [CHR 0x60] @ ''{|}~''"

lemmas legal_index_defs = filename_legal_index_def host_chars_def nickname_legal_index_def
  username_legal_index_def upcase_chars_def downcase_chars_def digit_chars_def

definition is_valid_filename :: "string option \<Rightarrow> bool" where
  "is_valid_filename filename = (case filename of None \<Rightarrow> False | Some s \<Rightarrow>
     if s = [] \<or> xstrnlen filename (filename_len_max + 1) > filename_len_max
        \<or> strstr s ''..'' \<noteq> None then False
     else all_chars (\<lambda>c. strchr filename_legal_index c \<noteq> None) s)"

definition is_valid_hostname :: "string option \<Rightarrow> bool" where
  "is_valid_hostname hostname = (case hostname of None \<Rightarrow> False | Some s \<Rightarrow>
     if s = [] \<or> xstrnlen hostname (hostname_len_max + 1) > hostname_len_max then False
     else all_chars (\<lambda>c. strchr host_chars c \<noteq> None) s)"

definition is_valid_nickname :: "string option \<Rightarrow> bool" where
  "is_valid_nickname nickname = (case nickname of None \<Rightarrow> False | Some s \<Rightarrow>
     if s = [] \<or> xstrnlen nickname (nickname_len_max + 1) > nickname_len_max then False
     else all_chars (\<lambda>c. strchr nickname_legal_index c \<noteq> None) s)"

definition is_valid_real_name :: "string option \<Rightarrow> bool" where
  "is_valid_real_name real_name = (case real_name of None \<Rightarrow> False | Some s \<Rightarrow>
     if s = [] \<or> xstrnlen real_name (real_name_len_max + 1) > real_name_len_max then False
     else all_chars (\<lambda>c. sw_isprint (schar c)) s)"

definition is_valid_username :: "string option \<Rightarrow> bool" where
  "is_valid_username username = (case username of None \<Rightarrow> False | Some s \<Rightarrow>
     if s = [] \<or> xstrnlen username (username_len_max + 1) > username_len_max then False
     else all_chars (\<lambda>c. strchr username_legal_index c \<noteq> None) s)"

text \<open>The bounded length test is a test of the length.\<close>

lemma xstrnlen_gt_iff: "nul \<notin> set s \<Longrightarrow> xstrnlen (Some s) (m + 1) > m \<longleftrightarrow> length s > m"
  by (simp add: xstrnlen_eq)

lemma strchr_not_None [simp]: "(\<exists>n. strchr s c = Some n) \<longleftrightarrow> c \<in> set s"
  using strchr_None_iff [of s c] by (cases "strchr s c") auto

text \<open>
  Characters that would let a value break out of its place in an IRC line (a space, carriage
  return, line feed or NUL) or out of a directory (a slash).
\<close>

definition line_breaking :: "char set" where
  "line_breaking = {CHR '' '', CHR 0x0D, CHR 0x0A, CHR 0x00}"

lemma legal_index_safe:
  "set nickname_legal_index \<inter> line_breaking = {}"
  "set username_legal_index \<inter> line_breaking = {}"
  "set host_chars \<inter> line_breaking = {}"
  "CHR ''/'' \<notin> set filename_legal_index"
  by (simp_all add: legal_index_defs line_breaking_def)

lemma printable_safe: "isprint (code c) \<Longrightarrow> c \<notin> {CHR 0x0D, CHR 0x0A, CHR 0x00}"
  by (auto simp: isprint_def code_def)

text \<open>
  A nickname, user name or host name that the client accepts can be put into an IRC
  protocol line: it is not empty, stays below its length limit and contains no space, carriage
  return, line feed or NUL, so it can neither end the line nor start another parameter.
\<close>

theorem valid_names_fit_protocol_line:
  assumes "nul \<notin> set s"
    and "is_valid_nickname (Some s) \<or> is_valid_username (Some s) \<or> is_valid_hostname (Some s)"
  shows "s \<noteq> [] \<and> length s \<le> 255 \<and> set s \<inter> line_breaking = {}"
  using assms legal_index_safe
  by (auto simp: is_valid_nickname_def is_valid_username_def is_valid_hostname_def
      xstrnlen_eq len_max_defs split: if_splits)

theorem valid_names_fit_protocol_line_witness:
  "is_valid_nickname (Some ''uhlin'') \<and> set ''uhlin'' \<inter> line_breaking = {}"
proof -
  have n: "nul \<notin> set ''uhlin''" by (simp add: nul_def)
  have v: "is_valid_nickname (Some ''uhlin'')" by code_simp
  then show ?thesis using valid_names_fit_protocol_line [of "''uhlin''"] n by simp
qed

text \<open>
  An accepted file name names a file inside the directory it is joined to: it has
  no slash and no two dots in a row, is not empty and has at most 80 characters.  The converse
  holds as well: these conditions with the legal alphabet are exactly what is accepted.
\<close>

theorem valid_filename_iff:
  assumes "nul \<notin> set s"
  shows "is_valid_filename (Some s) \<longleftrightarrow>
    s \<noteq> [] \<and> length s \<le> 80 \<and> \<not> sublist ''..'' s \<and> set s \<subseteq> set filename_legal_index
      \<and> CHR ''/'' \<notin> set s"
proof -
  have "strstr s ''..'' \<noteq> None \<longleftrightarrow> sublist ''..'' s"
    using strstr_Some_iff_sublist [of s "''..''"] by auto
  then show ?thesis
    using assms legal_index_safe(4)
    by (auto simp: is_valid_filename_def xstrnlen_eq len_max_defs subset_iff)
qed

theorem valid_filename_iff_witness:
  "is_valid_filename (Some ''default.theme'') \<and> CHR ''/'' \<notin> set ''default.theme''"
proof -
  have n: "nul \<notin> set ''default.theme''" by (simp add: nul_def)
  have v: "is_valid_filename (Some ''default.theme'')" by code_simp
  then show ?thesis using valid_filename_iff [OF n] by blast
qed

text \<open>
  The column width of a wide character, computed by searching half of the sorted
  full-width table and then the CJK table from its middle, is the width by plain membership in
  all the ranges of the tables; so the search shortcuts lose no character.
\<close>

theorem xwcwidth_correct:
  "xwcwidth wc fwlen = width_spec wc fwlen \<and>
   is_cjk wc = (\<exists>r\<in>set cjk_array. start r \<le> wc \<and> wc \<le> stop r)"
  by (simp add: xwcwidth_eq_spec is_cjk_eq_scan scan_ranges_iff in_range_def)

end
