(* ===== verification/Lib_Utils.thy ===== *)
theory Lib_Utils
  imports Str_Hand
begin

unbundle bit_operations_syntax

text \<open>
  The utility functions of \<^verbatim>\<open>src/src/libUtils.c\<close>: checked integer arithmetic, number and
  boolean parsing, rot13, the two string hashes and the format check of time strings.  A
  function that ends the process (\<^verbatim>\<open>abort\<close>, \<^verbatim>\<open>err_exit\<close>, \<^verbatim>\<open>err_dump\<close>) has the
  result \<^const>\<open>None\<close>.  \<^verbatim>\<open>int\<close> is 32 bits, \<^verbatim>\<open>long\<close> and \<^verbatim>\<open>size_t\<close> are 64 bits.
\<close>

section \<open>Checked integer arithmetic\<close>

definition INT_MAX :: int where "INT_MAX = 2147483647"
definition INT_MIN :: int where "INT_MIN = -2147483648"
definition LONG_MAX :: int where "LONG_MAX = 9223372036854775807"
definition SIZE_MAX :: nat where "SIZE_MAX = 18446744073709551615"

definition is_int :: "int \<Rightarrow> bool" where "is_int x \<longleftrightarrow> INT_MIN \<le> x \<and> x \<le> INT_MAX"

lemmas limits_defs = INT_MAX_def INT_MIN_def LONG_MAX_def SIZE_MAX_def

definition int_diff :: "int \<Rightarrow> int \<Rightarrow> int option" where
  "int_diff a b =
     (if (b > 0 \<and> a < INT_MIN + b) \<or> (b < 0 \<and> a > INT_MAX + b) then None else Some (a - b))"

definition int_sum :: "int \<Rightarrow> int \<Rightarrow> int option" where
  "int_sum a b =
     (if (b > 0 \<and> a > INT_MAX - b) \<or> (b < 0 \<and> a < INT_MIN - b) then None else Some (a + b))"

definition size_to_int :: "nat \<Rightarrow> int option" where
  "size_to_int v = (if int v > INT_MAX then None else Some (int v))"

definition size_product :: "nat \<Rightarrow> nat \<Rightarrow> nat option" where
  "size_product elt_count elt_size =
     (if elt_size \<noteq> 0 \<and> elt_count > SIZE_MAX div elt_size then None
      else Some (elt_count * elt_size mod (SIZE_MAX + 1)))"

text \<open>The guards of \<^verbatim>\<open>xcalloc\<close>: the number of bytes that \<^verbatim>\<open>calloc\<close> is asked for.\<close>

definition xcalloc_bytes :: "nat \<Rightarrow> nat \<Rightarrow> nat option" where
  "xcalloc_bytes elt_count elt_size =
     (if elt_count = 0 then None
      else if elt_size = 0 then None
      else if SIZE_MAX div elt_count < elt_size then None
      else Some (elt_count * elt_size mod (SIZE_MAX + 1)))"

lemma int_diff_range:
  "is_int a \<Longrightarrow> is_int b \<Longrightarrow> int_diff a b = (if is_int (a - b) then Some (a - b) else None)"
  by (auto simp: int_diff_def is_int_def INT_MAX_def INT_MIN_def)

lemma int_sum_range:
  "is_int a \<Longrightarrow> is_int b \<Longrightarrow> int_sum a b = (if is_int (a + b) then Some (a + b) else None)"
  by (auto simp: int_sum_def is_int_def INT_MAX_def INT_MIN_def)

lemma le_div_iff: "0 < n \<Longrightarrow> m \<le> SIZE_MAX div n \<longleftrightarrow> m * n \<le> SIZE_MAX"
  by (simp add: less_eq_div_iff_mult_less_eq)

lemma size_product_range:
  "size_product m n = (if m * n \<le> SIZE_MAX then Some (m * n) else None)"
proof (cases "n = 0")
  case False
  then have "m * n \<le> SIZE_MAX \<longleftrightarrow> \<not> m > SIZE_MAX div n" by (simp add: le_div_iff not_less)
  then show ?thesis by (auto simp: size_product_def False intro: mod_less)
qed (simp add: size_product_def)

lemma xcalloc_range:
  "\<lbrakk>0 < m; 0 < n\<rbrakk> \<Longrightarrow> xcalloc_bytes m n = (if m * n \<le> SIZE_MAX then Some (m * n) else None)"
proof -
  assume "0 < m" "0 < n"
  moreover from this have "m * n \<le> SIZE_MAX \<longleftrightarrow> \<not> SIZE_MAX div m < n"
    by (metis le_div_iff mult.commute not_less)
  ultimately show ?thesis by (auto simp: xcalloc_bytes_def intro: mod_less)
qed

text \<open>
  The checked operations on \<^verbatim>\<open>int\<close> and \<^verbatim>\<open>size_t\<close> return the exact result
  whenever it is representable and end the process otherwise; the guards themselves compute
  without overflow, so nothing ever wraps around.
\<close>

theorem checked_arith_exact:
  assumes "is_int a" "is_int b" "m \<le> SIZE_MAX" "n \<le> SIZE_MAX"
  shows "int_diff a b = (if is_int (a - b) then Some (a - b) else None)
    \<and> int_sum a b = (if is_int (a + b) then Some (a + b) else None)
    \<and> size_product m n = (if m * n \<le> SIZE_MAX then Some (m * n) else None)
    \<and> (0 < m \<and> 0 < n \<longrightarrow> xcalloc_bytes m n = (if m * n \<le> SIZE_MAX then Some (m * n) else None))
    \<and> (0 < b \<longrightarrow> is_int (INT_MIN + b) \<and> is_int (INT_MAX - b))
    \<and> (b < 0 \<longrightarrow> is_int (INT_MAX + b) \<and> is_int (INT_MIN - b))"
  using assms
  by (simp add: int_diff_range int_sum_range size_product_range xcalloc_range)
    (auto simp: is_int_def INT_MAX_def INT_MIN_def)

theorem checked_arith_exact_witness:
  "int_sum 2147483647 1 = None \<and> size_product 3 4 = Some 12"
  using checked_arith_exact [of 2147483647 1 3 4]
  by (simp add: is_int_def limits_defs)

section \<open>Parsing booleans and numbers\<close>

definition bool_false :: "string \<Rightarrow> bool" where
  "bool_false str \<longleftrightarrow> strings_match_ignore_case str ''off'' \<or> strings_match_ignore_case str ''false''
     \<or> strings_match_ignore_case str ''no''"

definition bool_true :: "string \<Rightarrow> bool" where
  "bool_true str \<longleftrightarrow> strings_match_ignore_case str ''on'' \<or> strings_match_ignore_case str ''true''
     \<or> strings_match_ignore_case str ''yes''"

text \<open>\<^verbatim>\<open>strtol(str, NULL, 10)\<close> on a string of digits: the value, or \<^verbatim>\<open>LONG_MAX\<close> with \<^verbatim>\<open>errno\<close> set.\<close>

fun digits_value :: "nat \<Rightarrow> string \<Rightarrow> nat" where
  "digits_value acc [] = acc"
| "digits_value acc (c # cs) = digits_value (10 * acc + (code c - 48)) cs"

definition strtol_digits :: "string \<Rightarrow> int \<times> bool" where
  "strtol_digits s =
     (let v = int (digits_value 0 s) in if v > LONG_MAX then (LONG_MAX, True) else (v, False))"

definition is_numeric_str :: "string \<Rightarrow> bool" where
  "is_numeric_str s \<longleftrightarrow> s \<noteq> [] \<and> (\<forall>c\<in>set s. sw_isdigit (schar c))"

text \<open>Result and the value stored through the \<^verbatim>\<open>val\<close> pointer.\<close>

definition getval_strtol :: "string \<Rightarrow> int \<Rightarrow> int \<Rightarrow> bool \<times> int" where
  "getval_strtol str lo hi =
     (if \<not> is_numeric_str str then (False, 0)
      else (let (val, err) = strtol_digits str
            in if err \<or> (val < lo \<or> val > hi) then (False, 0) else (True, val)))"

section \<open>Time formats\<close>

definition time_format_legal :: string where "time_format_legal = ''aAbBcdHIjmMpSUwWxXyYzZ%''"

text \<open>The loop restarts the search for a percent sign after each format code.\<close>

function format_codes_loop :: "string \<Rightarrow> bool" where
  "format_codes_loop fmt =
     (case strchr fmt CHR ''%'' of
        None \<Rightarrow> True
      | Some p \<Rightarrow>
          (case drop (Suc p) fmt of
             [] \<Rightarrow> False
           | c # rest \<Rightarrow> if strchr time_format_legal c = None then False else format_codes_loop rest))"
  by pat_completeness auto
termination
proof (relation "measure length", simp, simp only: in_measure)
  fix fmt p c rest
  assume "drop (Suc p) fmt = c # rest"
  then have "length (c # rest) \<le> length fmt" by (metis length_drop diff_le_self)
  then show "length rest < length fmt" by simp
qed

declare format_codes_loop.simps [simp del]

definition time_format_ok :: "string \<Rightarrow> bool" where
  "time_format_ok fmt = format_codes_loop fmt"

text \<open>The language of accepted formats, read from the left.\<close>

fun format_spec :: "string \<Rightarrow> bool" where
  "format_spec [] = True"
| "format_spec [c] = (c \<noteq> CHR ''%'')"
| "format_spec (c # d # s) =
     (if c = CHR ''%'' then d \<in> set time_format_legal \<and> format_spec s else format_spec (d # s))"

lemma format_spec_nopercent: "CHR ''%'' \<notin> set s \<Longrightarrow> format_spec s"
  by (induction s rule: format_spec.induct) auto

lemma format_spec_skip: "CHR ''%'' \<notin> set pre \<Longrightarrow> format_spec (pre @ s) = format_spec s"
proof (induction pre)
  case (Cons a pre)
  then show ?case by (cases "pre @ s") (auto simp: format_spec_nopercent)
qed simp

lemma format_codes_loop_eq: "format_codes_loop fmt = format_spec fmt"
proof (induction fmt rule: format_codes_loop.induct)
  case (1 fmt)
  show ?case
  proof (cases "strchr fmt CHR ''%''")
    case None
    then have "format_codes_loop fmt"
      by (subst format_codes_loop.simps) (simp del: strchr_None_iff)
    moreover have "format_spec fmt" using None by (simp add: format_spec_nopercent)
    ultimately show ?thesis by simp
  next
    case (Some p)
    then have p: "p < length fmt" "fmt ! p = CHR ''%''" "CHR ''%'' \<notin> set (take p fmt)"
      by (auto simp: strchr_Some_iff)
    then have "fmt = take p fmt @ CHR ''%'' # drop (Suc p) fmt" by (metis id_take_nth_drop)
    then have spec: "format_spec fmt = format_spec (CHR ''%'' # drop (Suc p) fmt)"
      using format_spec_skip [OF p(3)] by metis
    show ?thesis
    proof (cases "drop (Suc p) fmt")
      case Nil
      with Some spec show ?thesis by (subst format_codes_loop.simps) simp
    next
      case (Cons c rest)
      then show ?thesis
        using Some spec "1.IH" [OF Some Cons]
        by (subst format_codes_loop.simps) (auto split: option.splits)
    qed
  qed
qed

section \<open>rot13\<close>

definition g_alphabet_upcase :: string where "g_alphabet_upcase = ''ABCDEFGHIJKLMNOPQRSTUVWXYZ''"
definition g_alphabet_downcase :: string where "g_alphabet_downcase = ''abcdefghijklmnopqrstuvwxyz''"

definition rot13_byte :: "char \<Rightarrow> char" where
  "rot13_byte b =
     (if schar b \<ge> 65 \<and> schar b \<le> 90 then
        (let x = strcspn g_alphabet_upcase [b] + 13 in g_alphabet_upcase ! (x mod 26))
      else if schar b \<ge> 97 \<and> schar b \<le> 122 then
        (let x = strcspn g_alphabet_downcase [b] + 13 in g_alphabet_downcase ! (x mod 26))
      else b)"

definition rot13_str :: "string \<Rightarrow> string" where
  "rot13_str str = map rot13_byte str"

lemma strcspn_nth: "\<lbrakk>distinct xs; n < length xs\<rbrakk> \<Longrightarrow> strcspn xs [xs ! n] = n"
proof -
  assume d: "distinct xs" and n: "n < length xs"
  have eq: "take n xs @ xs ! n # drop (Suc n) xs = xs"
    using n by (metis id_take_nth_drop)
  have "xs ! n \<notin> set (take n xs)"
    using d eq by (metis distinct_append IntI disjoint_iff list.set_intros(1))
  then have "takeWhile (\<lambda>x. x \<notin> set [xs ! n]) (take n xs @ xs ! n # drop (Suc n) xs) = take n xs"
    by (intro takeWhile_append_stop) auto
  then show ?thesis using n by (simp only: eq strcspn_def) simp
qed

lemma alphabets:
  "length g_alphabet_upcase = 26" "length g_alphabet_downcase = 26"
  "distinct g_alphabet_upcase" "distinct g_alphabet_downcase"
  by (simp_all add: g_alphabet_upcase_def g_alphabet_downcase_def)

lemma alphabet_codes:
  "map code g_alphabet_upcase = [65..<91]" "map code g_alphabet_downcase = [97..<123]"
  by (simp_all add: g_alphabet_upcase_def g_alphabet_downcase_def code_def upt_rec_numeral)

lemma alphabet_code_nth:
  assumes "n < 26"
  shows "code (g_alphabet_upcase ! n) = 65 + n" and "code (g_alphabet_downcase ! n) = 97 + n"
proof -
  note n = assms
  have up: "[65..<91] ! n = 65 + n" and down: "[97..<123] ! n = 97 + n"
    using n by (intro nth_upt; simp)+
  show "code (g_alphabet_upcase ! n) = 65 + n"
    using nth_map [of n g_alphabet_upcase code] n up by (simp only: alphabets alphabet_codes)
  show "code (g_alphabet_downcase ! n) = 97 + n"
    using nth_map [of n g_alphabet_downcase code] n down by (simp only: alphabets alphabet_codes)
qed

text \<open>Every letter is shifted by 13 places inside its own alphabet.\<close>

lemma rot13_nth:
  assumes "n < 26"
  shows "rot13_byte (g_alphabet_upcase ! n) = g_alphabet_upcase ! ((n + 13) mod 26)"
    and "rot13_byte (g_alphabet_downcase ! n) = g_alphabet_downcase ! ((n + 13) mod 26)"
  using assms strcspn_nth [OF alphabets(3), of n] strcspn_nth [OF alphabets(4), of n]
  by (simp_all add: rot13_byte_def schar_def alphabet_code_nth alphabets)

lemma char_in_alphabet:
  assumes "65 \<le> schar b \<and> schar b \<le> 90 \<or> 97 \<le> schar b \<and> schar b \<le> 122"
  obtains n where "n < 26" "b = g_alphabet_upcase ! n \<or> b = g_alphabet_downcase ! n"
proof -
  have range: "65 \<le> code b \<and> code b \<le> 90 \<or> 97 \<le> code b \<and> code b \<le> 122"
    using assms code_less [of b] by (auto simp: schar_def split: if_splits)
  then show thesis
  proof
    assume r: "65 \<le> code b \<and> code b \<le> 90"
    then have lt: "code b - 65 < 26" by linarith
    have "b = g_alphabet_upcase ! (code b - 65)"
      using alphabet_code_nth(1) [OF lt] r by (simp flip: code_eq_iff)
    with lt show thesis using that by blast
  next
    assume r: "97 \<le> code b \<and> code b \<le> 122"
    then have lt: "code b - 97 < 26" by linarith
    have "b = g_alphabet_downcase ! (code b - 97)"
      using alphabet_code_nth(2) [OF lt] r by (simp flip: code_eq_iff)
    with lt show thesis using that by blast
  qed
qed

lemma rot13_byte_involutive: "rot13_byte (rot13_byte b) = b"
proof (cases "65 \<le> schar b \<and> schar b \<le> 90 \<or> 97 \<le> schar b \<and> schar b \<le> 122")
  case True
  then obtain n where n: "n < 26" "b = g_alphabet_upcase ! n \<or> b = g_alphabet_downcase ! n"
    by (rule char_in_alphabet)
  have "((n + 13) mod 26 + 13) mod 26 = n" using n(1) by (simp add: mod_add_left_eq)
  with n show ?thesis by (auto simp: rot13_nth)
next
  case False
  then show ?thesis by (auto simp: rot13_byte_def)
qed

section \<open>Hashes\<close>

text \<open>\<^verbatim>\<open>hashval + c\<close>: the signed \<^verbatim>\<open>char\<close> is converted to \<^verbatim>\<open>unsigned int\<close>.\<close>

definition char_uint :: "char \<Rightarrow> 32 word" where
  "char_uint c = word_of_int (schar c)"

fun djb_loop :: "string \<Rightarrow> 32 word \<Rightarrow> 32 word" where
  "djb_loop [] hashval = hashval"
| "djb_loop (c # cp) hashval = djb_loop cp ((push_bit 5 hashval + hashval) + char_uint c)"

definition hash_djb_g :: "string \<Rightarrow> bool \<Rightarrow> nat \<Rightarrow> nat" where
  "hash_djb_g str lc upper_bound =
     (let str_copy = (if lc then strToLower str else str)
      in unat (djb_loop str_copy 5381) mod upper_bound)"

fun pjw_loop :: "string \<Rightarrow> 32 word \<Rightarrow> 32 word" where
  "pjw_loop [] hashval = hashval"
| "pjw_loop (c # cp) hashval =
     (let h = push_bit 4 hashval + char_uint c;
          tmp = h AND 0xf0000000;
          h' = (if tmp \<noteq> 0 then (h XOR drop_bit 24 tmp) XOR tmp else h)
      in pjw_loop cp h')"

definition hash_pjw_g :: "string \<Rightarrow> bool \<Rightarrow> nat \<Rightarrow> nat" where
  "hash_pjw_g str lc upper_bound =
     (let str_copy = (if lc then strToLower str else str)
      in unat (pjw_loop str_copy 0) mod upper_bound)"

text \<open>
  What a table keyed by a case-insensitive name needs of its hash: an index inside the table,
  the same for all spellings.
\<close>

locale label_hash =
  fixes hash_of :: "string \<Rightarrow> nat" and buckets :: nat
  assumes hash_bound: "hash_of s < buckets"
    and hash_case: "strings_match_ignore_case s t \<Longrightarrow> hash_of s = hash_of t"
begin

lemma different_bucket: "hash_of s \<noteq> hash_of t \<Longrightarrow> \<not> strings_match_ignore_case s t"
  using hash_case by blast

end

lemma hash_djb_bound: "0 < ub \<Longrightarrow> hash_djb_g s lc ub < ub"
  by (simp add: hash_djb_g_def Let_def)

lemma hash_djb_case: "strings_match_ignore_case s t \<Longrightarrow> hash_djb_g s True ub = hash_djb_g t True ub"
  by (simp add: hash_djb_g_def strToLower_smic [THEN iffD2])

interpretation djb800: label_hash "\<lambda>s. hash_djb_g s True 800" 800
  by unfold_locales (auto intro: hash_djb_bound hash_djb_case)

interpretation pjw_table: label_hash "\<lambda>s. hash_pjw_g s True 4500" 4500
  by unfold_locales (auto simp: hash_pjw_g_def Let_def strToLower_smic [THEN iffD2])

section \<open>String building\<close>

text \<open>
  \<^verbatim>\<open>realloc_strcat\<close>: the block grows to the exact size and \<^verbatim>\<open>sw_strcat\<close> appends.
  \<^verbatim>\<open>*dest\<close> is an allocated block; the result is the new block.
\<close>

definition realloc_strcat :: "string \<Rightarrow> string \<Rightarrow> string option" where
  "realloc_strcat dest src =
     (let newsize = length dest + length src + 1;
          block = dest @ nul # replicate (newsize - (length dest + 1)) nul
      in case sw_strcat nul (Some block) (Some (src @ [nul])) newsize of
           Some (OK0, Some b) \<Rightarrow> Some (takeWhile (\<lambda>c. c \<noteq> nul) b)
         | _ \<Rightarrow> None)"

lemma realloc_strcat_eq:
  assumes "nul \<notin> set dest" "nul \<notin> set src"
  shows "realloc_strcat dest src = Some (dest @ src)"
proof -
  have tw: "takeWhile (\<lambda>c. c \<noteq> nul) ((dest @ src) @ nul # rest) = dest @ src" for rest
    using assms by (intro takeWhile_append_stop) auto
  show ?thesis
    using assms sw_strcat_correct [of nul src dest "length dest + length src + 1"
        "replicate (length src) nul" "[]"] tw
    by (simp add: realloc_strcat_def Let_def)
qed

text \<open>\<^verbatim>\<open>write_setting\<close>: one line of a configuration file.\<close>

definition write_setting :: "string \<Rightarrow> string \<Rightarrow> bool \<Rightarrow> int \<Rightarrow> string" where
  "write_setting name val do_padding_using_tabs count =
     (let c = (if do_padding_using_tabs then CHR 0x09 else CHR '' '')
      in name @ replicate (nat count) c @ ''= '' @ [CHR 0x22] @ val @ [CHR 0x22] @ '';'' @ [CHR 0x0A])"

text \<open>
  The checked number parser accepts exactly the strings of decimal digits whose
  value lies between the limits and stores that value; every other input is refused and stores
  zero, also when the value exceeds \<^verbatim>\<open>LONG_MAX\<close>.
\<close>

theorem getval_strtol_correct:
  assumes "lo \<le> hi" "hi \<le> LONG_MAX"
  shows "getval_strtol s lo hi =
    (if s \<noteq> [] \<and> (\<forall>c\<in>set s. isdigit (code c)) \<and> lo \<le> int (digits_value 0 s)
        \<and> int (digits_value 0 s) \<le> hi
     then (True, int (digits_value 0 s)) else (False, 0))"
  using assms
  by (auto simp: getval_strtol_def is_numeric_str_def sw_class_char strtol_digits_def Let_def)

theorem getval_strtol_correct_witness: "getval_strtol ''140'' 10 800 = (True, 140)"
  using getval_strtol_correct [of 10 800 "''140''"]
  by (simp add: LONG_MAX_def code_def isdigit_def)

text \<open>
  rot13 is its own inverse on every string, bytes outside the alphabet included.
\<close>

theorem rot13_str_involutive: "rot13_str (rot13_str s) = s"
  by (simp add: rot13_str_def rot13_byte_involutive o_def)

text \<open>
  A time format is accepted exactly if every percent sign in it starts a format
  code of the whitelist: the loop over the occurrences of the percent sign decides the language
  that is read character by character from the left.
\<close>

theorem time_format_ok_correct: "time_format_ok fmt = format_spec fmt"
  by (simp add: time_format_ok_def format_codes_loop_eq)

text \<open>
  The bucket that the window table uses for a label is inside the table and does
  not depend on the case of the label, so every spelling of a label is searched in one bucket.
\<close>

theorem hash_djb_label:
  "hash_djb_g s True 800 < 800
   \<and> (strings_match_ignore_case s t \<longrightarrow> hash_djb_g s True 800 = hash_djb_g t True 800)"
  using djb800.hash_bound djb800.hash_case by blast

theorem hash_djb_label_witness: "hash_djb_g ''#Swirc'' True 800 = hash_djb_g ''#swirc'' True 800"
proof -
  have "strings_match_ignore_case ''#Swirc'' ''#swirc''" by code_simp
  then show ?thesis using hash_djb_label [of "''#Swirc''" "''#swirc''"] by blast
qed

end
