(* ===== verification/Base64.thy ===== *)
theory Base64
  imports Lib_Utils
begin

text \<open>
  Base64 as the SASL code uses it: \<^verbatim>\<open>src/src/b64_encode.c\<close> and
  \<^verbatim>\<open>src/src/b64_decode.c\<close>.  Octets are \<^typ>\<open>8 word\<close>; the encoded side is text.  The
  target is an array; storing outside it, or reading past the end of the source, gives
  \<^const>\<open>None\<close>, so the memory safety of both routines is a statement about the results below.
  The encoder's loop takes three octets per round (\<^verbatim>\<open>2 < srclength\<close>), the decoder's loop one
  character.
\<close>

section \<open>Encoder\<close>

definition Base64 :: string where
  "Base64 = ''ABCDEFGHIJKLMNOPQRSTUVWXYZabcdefghijklmnopqrstuvwxyz0123456789+/''"

definition Pad64 :: char where "Pad64 = CHR ''=''"

definition b64_char :: "8 word \<Rightarrow> char" where
  "b64_char output = Base64 ! unat output"

text \<open>The four six-bit values of a group.\<close>

definition out0 :: "8 word \<Rightarrow> 8 word" where
  "out0 a = drop_bit 2 a"
definition out1 :: "8 word \<Rightarrow> 8 word \<Rightarrow> 8 word" where
  "out1 a b = push_bit 4 (a AND 0x03) + drop_bit 4 b"
definition out2 :: "8 word \<Rightarrow> 8 word \<Rightarrow> 8 word" where
  "out2 b c = push_bit 2 (b AND 0x0f) + drop_bit 6 c"
definition out3 :: "8 word \<Rightarrow> 8 word" where
  "out3 c = c AND 0x3f"

lemmas out_defs = out0_def out1_def out2_def out3_def

text \<open>Four consecutive stores \<^verbatim>\<open>target[datalength++] = \<dots>\<close>.\<close>

fun put_chars :: "string \<Rightarrow> nat \<Rightarrow> char list \<Rightarrow> string option" where
  "put_chars target i [] = Some target"
| "put_chars target i (c # cs) = do { t \<leftarrow> wr target i c; put_chars t (Suc i) cs }"

text \<open>The value returned with the final array; the error return is $-1$.\<close>

definition encode_end :: "string \<Rightarrow> nat \<Rightarrow> nat \<Rightarrow> (int \<times> string) option" where
  "encode_end target targsize datalength =
     (if datalength \<ge> targsize then Some (-1, target)
      else do {
        t \<leftarrow> wr target datalength nul;
        r \<leftarrow> size_to_int datalength;
        Some (r, t) })"

fun b64_encode_from :: "8 word list \<Rightarrow> string \<Rightarrow> nat \<Rightarrow> nat \<Rightarrow> (int \<times> string) option" where
  "b64_encode_from (a # b # c # src) target targsize datalength =
     (if datalength + 4 > targsize then Some (-1, target)
      else do {
        t \<leftarrow> put_chars target datalength
               [b64_char (out0 a), b64_char (out1 a b), b64_char (out2 b c), b64_char (out3 c)];
        b64_encode_from src t targsize (datalength + 4) })"
| "b64_encode_from [a, b] target targsize datalength =
     (if datalength + 4 > targsize then Some (-1, target)
      else do {
        t \<leftarrow> put_chars target datalength
               [b64_char (out0 a), b64_char (out1 a b), b64_char (out2 b 0), Pad64];
        encode_end t targsize (datalength + 4) })"
| "b64_encode_from [a] target targsize datalength =
     (if datalength + 4 > targsize then Some (-1, target)
      else do {
        t \<leftarrow> put_chars target datalength [b64_char (out0 a), b64_char (out1 a 0), Pad64, Pad64];
        encode_end t targsize (datalength + 4) })"
| "b64_encode_from [] target targsize datalength = encode_end target targsize datalength"

definition b64_encode :: "8 word list \<Rightarrow> string \<Rightarrow> nat \<Rightarrow> (int \<times> string) option" where
  "b64_encode src target targsize = b64_encode_from src target targsize 0"

text \<open>The encoding as a function of the octets alone (RFC 4648, section 4).\<close>

fun encoding :: "8 word list \<Rightarrow> string" where
  "encoding (a # b # c # src) =
     b64_char (out0 a) # b64_char (out1 a b) # b64_char (out2 b c) # b64_char (out3 c) # encoding src"
| "encoding [a, b] = [b64_char (out0 a), b64_char (out1 a b), b64_char (out2 b 0), Pad64]"
| "encoding [a] = [b64_char (out0 a), b64_char (out1 a 0), Pad64, Pad64]"
| "encoding [] = []"

lemma length_encoding: "length (encoding src) = 4 * ((length src + 2) div 3)"
proof (induction src rule: encoding.induct)
  case (1 a b c src)
  have "(length (a # b # c # src) + 2) div 3 = Suc ((length src + 2) div 3)" by simp
  then show ?case using 1 by simp
qed auto

lemma length_encoding_ge: "length src \<le> length (encoding src)"
  unfolding length_encoding by linarith

section \<open>Decoder\<close>

definition b64rmap_special :: "8 word" where "b64rmap_special = 0xf0"
definition b64rmap_end :: "8 word" where "b64rmap_end = 0xfd"
definition b64rmap_space :: "8 word" where "b64rmap_space = 0xfe"
definition b64rmap_invalid :: "8 word" where "b64rmap_invalid = 0xff"

lemmas b64rmap_defs = b64rmap_special_def b64rmap_end_def b64rmap_space_def b64rmap_invalid_def

text \<open>\<^verbatim>\<open>b64_initialize_rmap\<close>: first the class of every byte, then the base64 digits over it.\<close>

definition rmap_class :: "nat \<Rightarrow> 8 word" where
  "rmap_class i =
     (if i = 0 then b64rmap_end
      else if isspace i then b64rmap_space
      else if i = code Pad64 then b64rmap_end
      else b64rmap_invalid)"

fun fill_digits :: "string \<Rightarrow> nat \<Rightarrow> 8 word list \<Rightarrow> 8 word list" where
  "fill_digits [] i m = m"
| "fill_digits (d # ds) i m = fill_digits ds (Suc i) (m[code d := word_of_nat i])"

definition b64rmap :: "8 word list" where
  "b64rmap = fill_digits Base64 0 (map rmap_class [0..<256])"

definition rmap_at :: "char \<Rightarrow> 8 word" where
  "rmap_at ch = b64rmap ! code ch"

text \<open>
  The index \<^verbatim>\<open>tarindex\<close> is an \<^verbatim>\<open>int\<close> that counts up from 0.  Counting past \<^const>\<open>INT_MAX\<close> is
  undefined behaviour: \<^const>\<open>None\<close>.
\<close>

definition int_incr :: "nat \<Rightarrow> nat option" where
  "int_incr i = (if int i < INT_MAX then Some (Suc i) else None)"

lemma int_incr_eq [simp]: "int i < INT_MAX \<Longrightarrow> int_incr i = Some (Suc i)"
  by (simp add: int_incr_def)

lemma int_incr_Some: "int_incr i = Some j \<Longrightarrow> j = Suc i"
  by (simp add: int_incr_def split: if_splits)

text \<open>
  How the decoding loop ends: an error return, or at a terminator or pad character \<^verbatim>\<open>ch\<close> with
  the rest of the source, the array, the index and the state of the automaton.
\<close>

datatype decode_exit = Bad "8 word list" | Ended char string "8 word list" nat nat

fun b64_decode_loop :: "string \<Rightarrow> 8 word list \<Rightarrow> nat \<Rightarrow> nat \<Rightarrow> nat \<Rightarrow> decode_exit option" where
  "b64_decode_loop [] target targsize tarindex state = None"
| "b64_decode_loop (ch # src) target targsize tarindex state =
     (let ofs = rmap_at ch in
      if ofs \<ge> b64rmap_special then
        (if ofs = b64rmap_space then b64_decode_loop src target targsize tarindex state
         else if ofs = b64rmap_end then Some (Ended ch src target tarindex state)
         else Some (Bad target))
      else if state = 0 then
        (if tarindex \<ge> targsize then Some (Bad target)
         else do {
           t \<leftarrow> wr target tarindex (push_bit 2 ofs);
           b64_decode_loop src t targsize tarindex 1 })
      else if state = 1 then
        (if tarindex + 1 \<ge> targsize then Some (Bad target)
         else do {
           old \<leftarrow> rd target tarindex;
           t \<leftarrow> wr target tarindex (old OR drop_bit 4 ofs);
           t' \<leftarrow> wr t (tarindex + 1) (push_bit 4 (ofs AND 0x0f));
           i \<leftarrow> int_incr tarindex;
           b64_decode_loop src t' targsize i 2 })
      else if state = 2 then
        (if tarindex + 1 \<ge> targsize then Some (Bad target)
         else do {
           old \<leftarrow> rd target tarindex;
           t \<leftarrow> wr target tarindex (old OR drop_bit 2 ofs);
           t' \<leftarrow> wr t (tarindex + 1) (push_bit 6 (ofs AND 0x03));
           i \<leftarrow> int_incr tarindex;
           b64_decode_loop src t' targsize i 3 })
      else
        (if tarindex \<ge> targsize then Some (Bad target)
         else do {
           old \<leftarrow> rd target tarindex;
           t \<leftarrow> wr target tarindex (old OR ofs);
           i \<leftarrow> int_incr tarindex;
           b64_decode_loop src t targsize i 0 }))"

text \<open>
  The two loops over trailing white space: the first stops at the first other character, the
  second reports whether there was nothing else up to the terminator.
\<close>

fun skip_spaces :: "char \<Rightarrow> string \<Rightarrow> (char \<times> string) option" where
  "skip_spaces ch src =
     (if ch = nul then Some (ch, src)
      else if rmap_at ch \<noteq> b64rmap_space then Some (ch, src)
      else (case src of [] \<Rightarrow> None | c # cs \<Rightarrow> skip_spaces c cs))"

fun only_spaces :: "char \<Rightarrow> string \<Rightarrow> bool option" where
  "only_spaces ch src =
     (if ch = nul then Some True
      else if rmap_at ch \<noteq> b64rmap_space then Some False
      else (case src of [] \<Rightarrow> None | c # cs \<Rightarrow> only_spaces c cs))"

declare skip_spaces.simps [simp del] only_spaces.simps [simp del]

text \<open>The code after the loop, up to the check of the extra bits: is the ending legal?\<close>

definition ending_ok :: "char \<Rightarrow> string \<Rightarrow> nat \<Rightarrow> bool option" where
  "ending_ok ch src state =
     (if ch = Pad64 then
        (case src of [] \<Rightarrow> None
         | c # cs \<Rightarrow>
             if state = 0 \<or> state = 1 then Some False
             else if state = 2 then do {
               (ch2, src2) \<leftarrow> skip_spaces c cs;
               if ch2 \<noteq> Pad64 then Some False
               else (case src2 of [] \<Rightarrow> None | c3 # cs3 \<Rightarrow> only_spaces c3 cs3) }
             else only_spaces c cs)
      else Some (state = 0))"

definition b64_decode_do :: "string \<Rightarrow> 8 word list \<Rightarrow> nat \<Rightarrow> (int \<times> 8 word list) option" where
  "b64_decode_do src target targsize = do {
     e \<leftarrow> b64_decode_loop src target targsize 0 0;
     (case e of
        Bad t \<Rightarrow> Some (-1, t)
      | Ended ch rest t tarindex state \<Rightarrow> do {
          ok \<leftarrow> ending_ok ch rest state;
          if \<not> ok then Some (-1, t)
          else if ch = Pad64 then do {
            extra \<leftarrow> rd t tarindex;
            if extra \<noteq> 0 then Some (-1, t) else Some (int tarindex, t) }
          else Some (int tarindex, t) }) }"

text \<open>\<^verbatim>\<open>b64_decode_len\<close>: the same automaton without a target.\<close>

fun b64_len_loop :: "string \<Rightarrow> nat \<Rightarrow> nat \<Rightarrow> decode_exit option" where
  "b64_len_loop [] tarindex state = None"
| "b64_len_loop (ch # src) tarindex state =
     (let ofs = rmap_at ch in
      if ofs \<ge> b64rmap_special then
        (if ofs = b64rmap_space then b64_len_loop src tarindex state
         else if ofs = b64rmap_end then Some (Ended ch src [] tarindex state)
         else Some (Bad []))
      else if state = 0 then b64_len_loop src tarindex 1
      else if state = 1 then do { i \<leftarrow> int_incr tarindex; b64_len_loop src i 2 }
      else if state = 2 then do { i \<leftarrow> int_incr tarindex; b64_len_loop src i 3 }
      else do { i \<leftarrow> int_incr tarindex; b64_len_loop src i 0 })"

definition b64_decode_len :: "string \<Rightarrow> int option" where
  "b64_decode_len src = do {
     e \<leftarrow> b64_len_loop src 0 0;
     (case e of
        Bad t \<Rightarrow> Some (-1)
      | Ended ch rest t tarindex state \<Rightarrow> do {
          ok \<leftarrow> ending_ok ch rest state;
          if \<not> ok then Some (-1) else Some (int tarindex) }) }"

text \<open>\<^verbatim>\<open>b64_decode\<close>: with a null target only the length is computed.\<close>

definition b64_decode :: "string \<Rightarrow> 8 word list option \<Rightarrow> nat \<Rightarrow> (int \<times> 8 word list option) option" where
  "b64_decode src target targsize =
     (case target of
        Some t \<Rightarrow> do { (n, t') \<leftarrow> b64_decode_do src t targsize; Some (n, Some t') }
      | None \<Rightarrow> do { n \<leftarrow> b64_decode_len src; Some (n, None) })"


section \<open>The six-bit values\<close>

lemma bound6: "(\<And>n. 6 \<le> n \<Longrightarrow> \<not> bit w n) \<Longrightarrow> unat (w :: 8 word) < 64"
proof -
  assume *: "\<And>n. 6 \<le> n \<Longrightarrow> \<not> bit w n"
  have "take_bit 6 w = w"
    by (rule bit_eqI) (use * linorder_not_less in \<open>auto simp: bit_take_bit_iff\<close>)
  then have "unat w = take_bit 6 (unat w)" by (metis unsigned_take_bit_eq)
  then show ?thesis using take_bit_nat_less_exp [of 6 "unat w"] by simp
qed

lemma masks: "(3::8 word) = mask 2" "(15::8 word) = mask 4" "(63::8 word) = mask 6"
  by (simp_all add: mask_eq_exp_minus_1)

lemmas bits8 = masks bit_simps bit_mask_iff

lemma bit8: "bit (w :: 8 word) n \<Longrightarrow> n < 8"
  using bit_imp_le_length [of w n] by simp

lemma out1_or: "out1 a b = push_bit 4 (a AND 0x03) OR drop_bit 4 b"
  unfolding out1_def by (rule disjunctive_add) (auto simp: bits8 dest: bit8)

lemma out2_or: "out2 b c = push_bit 2 (b AND 0x0f) OR drop_bit 6 c"
  unfolding out2_def by (rule disjunctive_add) (auto simp: bits8 dest: bit8)

lemma out_bounds: "unat (out0 a) < 64" "unat (out1 a b) < 64" "unat (out2 b c) < 64" "unat (out3 c) < 64"
  by (rule bound6; auto simp: out0_def out1_or out2_or out3_def bits8 dest: bit8; fail)+

text \<open>The decoder's shifts put the octets together again.\<close>

lemma regroup:
  shows "push_bit 2 (out0 a) OR drop_bit 4 (out1 a b) = a"
    and "push_bit 4 (out1 a b AND 0x0f) OR drop_bit 2 (out2 b c) = b"
    and "push_bit 6 (out2 b c AND 0x03) OR out3 c = c"
    and "push_bit 4 (out1 a 0 AND 0x0f) = 0"
    and "push_bit 6 (out2 b 0 AND 0x03) = 0"
proof -
  show "push_bit 2 (out0 a) OR drop_bit 4 (out1 a b) = a"
  proof (rule bit_word_eqI)
    fix n :: nat
    have *: "2 \<le> n \<Longrightarrow> Suc (Suc (n - 2)) = n" by simp
    show "bit (push_bit 2 (out0 a) OR drop_bit 4 (out1 a b)) n = bit a n" if "n < LENGTH(8)"
      using that * by (cases "2 \<le> n") (auto simp: out0_def out1_or bits8 dest: bit8)
  qed
  show "push_bit 4 (out1 a b AND 0x0f) OR drop_bit 2 (out2 b c) = b"
  proof (rule bit_word_eqI)
    fix n :: nat
    have *: "4 \<le> n \<Longrightarrow> 4 + (n - 4) = n" by simp
    show "bit (push_bit 4 (out1 a b AND 0x0f) OR drop_bit 2 (out2 b c)) n = bit b n" if "n < LENGTH(8)"
      using that * by (cases "4 \<le> n") (auto simp: out1_or out2_or bits8 dest: bit8)
  qed
  show "push_bit 6 (out2 b c AND 0x03) OR out3 c = c"
    by (rule bit_word_eqI) (auto simp: out2_or out3_def bits8 dest: bit8)
  show "push_bit 4 (out1 a 0 AND 0x0f) = 0"
    by (rule bit_word_eqI) (auto simp: out1_or bits8 dest: bit8)
  show "push_bit 6 (out2 b 0 AND 0x03) = 0"
    by (rule bit_word_eqI) (auto simp: out2_or bits8 dest: bit8)
qed


section \<open>The reverse map\<close>

lemma length_fill_digits [simp]: "length (fill_digits ds i m) = length m"
  by (induction ds i m rule: fill_digits.induct) auto

lemma fill_digits_miss: "c \<notin> set ds \<Longrightarrow> fill_digits ds i m ! code c = m ! code c"
  by (induction ds i m rule: fill_digits.induct) auto

lemma fill_digits_hit:
  "\<lbrakk>distinct ds; j < length ds; 256 \<le> length m\<rbrakk>
   \<Longrightarrow> fill_digits ds i m ! code (ds ! j) = word_of_nat (i + j)"
proof (induction ds i m arbitrary: j rule: fill_digits.induct)
  case (2 d ds i m)
  have "code d < length m" using 2 code_less [of d] by simp
  then show ?case
    using 2 by (cases j) (auto simp: fill_digits_miss)
qed simp

lemma Base64_facts: "distinct Base64" "length Base64 = 64" "nul \<notin> set Base64" "Pad64 \<notin> set Base64"
  by (simp_all add: Base64_def nul_def Pad64_def)

lemma rmap_digit: "j < 64 \<Longrightarrow> rmap_at (Base64 ! j) = word_of_nat j"
  using fill_digits_hit [of Base64 j _ 0] by (simp add: rmap_at_def b64rmap_def Base64_facts)

lemma rmap_other: "c \<notin> set Base64 \<Longrightarrow> rmap_at c = rmap_class (code c)"
  using code_less [of c] by (simp add: rmap_at_def b64rmap_def fill_digits_miss)

lemma digit_small: "j < 64 \<Longrightarrow> (word_of_nat j :: 8 word) < 0xf0"
  by (simp add: word_less_nat_alt unat_of_nat)

lemma rmap_char: "unat w < 64 \<Longrightarrow> rmap_at (b64_char w) = w"
  by (simp add: b64_char_def rmap_digit)

lemma small_word: "unat (w :: 8 word) < 64 \<Longrightarrow> \<not> w \<ge> 0xf0"
  by (simp add: word_le_nat_alt)

lemma code_nul [simp]: "code nul = 0"
  by (simp add: nul_def code_def)

lemma rmap_nul: "rmap_at nul = b64rmap_end"
  by (simp add: rmap_other Base64_facts rmap_class_def)

lemma rmap_pad: "rmap_at Pad64 = b64rmap_end"
  by (simp add: rmap_other Base64_facts rmap_class_def) (simp add: Pad64_def code_def isspace_def)

lemma rmap_end_iff: "rmap_at c = b64rmap_end \<longleftrightarrow> c = nul \<or> c = Pad64"
proof
  assume e: "rmap_at c = b64rmap_end"
  have "c \<notin> set Base64"
  proof
    assume "c \<in> set Base64"
    then obtain j where "j < 64" "c = Base64 ! j" by (metis in_set_conv_nth Base64_facts(2))
    then show False using e rmap_digit digit_small [of j] by (simp add: b64rmap_defs)
  qed
  then have "rmap_class (code c) = b64rmap_end" using e by (simp add: rmap_other)
  then have "code c = 0 \<or> c = Pad64"
    by (auto simp: rmap_class_def b64rmap_defs split: if_splits)
  then show "c = nul \<or> c = Pad64" by (metis code_eq_iff code_nul)
qed (auto simp: rmap_nul rmap_pad)

section \<open>The encoder against its specification\<close>

lemma put_chars_eq:
  "length cs \<le> length post \<Longrightarrow>
   put_chars (pre @ post) (length pre) cs = Some (pre @ cs @ drop (length cs) post)"
proof (induction cs arbitrary: pre post)
  case (Cons c cs)
  then obtain x post' where post: "post = x # post'" by (cases post) auto
  have "put_chars (pre @ post) (length pre) (c # cs) = put_chars ((pre @ [c]) @ post') (length (pre @ [c])) cs"
    by (simp add: post list_update_append)
  also have "\<dots> = Some ((pre @ [c]) @ cs @ drop (length cs) post')"
    using Cons.prems post by (intro Cons.IH) auto
  finally show ?case by (simp add: post)
qed simp

lemma put_chars4:
  "4 \<le> length post \<Longrightarrow>
   put_chars (pre @ post) (length pre) [w, x, y, z] = Some (pre @ [w, x, y, z] @ drop 4 post)"
  using put_chars_eq [of "[w, x, y, z]" post pre] by (simp add: numeral_eq_Suc del: put_chars.simps)

lemma encode_from_ok:
  assumes "length pre + length (encoding src) < targsize" "targsize \<le> length (pre @ post)"
    and "int (length pre + length (encoding src)) \<le> INT_MAX"
  shows "b64_encode_from src (pre @ post) targsize (length pre) =
    Some (int (length pre + length (encoding src)),
          pre @ encoding src @ nul # drop (Suc (length (encoding src))) post)"
  using assms
proof (induction src arbitrary: pre post rule: encoding.induct)
  case (1 a b c src)
  let ?g = "[b64_char (out0 a), b64_char (out1 a b), b64_char (out2 b c), b64_char (out3 c)]"
  have "put_chars (pre @ post) (length pre) ?g = Some (pre @ ?g @ drop 4 post)"
    using put_chars4 "1.prems" by simp
  moreover have "b64_encode_from src ((pre @ ?g) @ drop 4 post) targsize (length (pre @ ?g)) =
    Some (int (length (pre @ ?g) + length (encoding src)),
          (pre @ ?g) @ encoding src @ nul # drop (Suc (length (encoding src))) (drop 4 post))"
    using "1.prems" by (intro "1.IH") auto
  ultimately show ?case using "1.prems" by (simp add: numeral_eq_Suc del: put_chars.simps)
next
  case (2 a b)
  let ?g = "[b64_char (out0 a), b64_char (out1 a b), b64_char (out2 b 0), Pad64]"
  have "put_chars (pre @ post) (length pre) ?g = Some (pre @ ?g @ drop 4 post)"
    using put_chars4 2 by simp
  moreover obtain x xs where "drop 4 post = x # xs" using 2 by (cases "drop 4 post") auto
  moreover from this have "drop 5 post = xs" by (metis drop_Suc eval_nat_numeral(3) list.sel(3) tl_drop)
  ultimately show ?case using 2
    by (simp add: encode_end_def size_to_int_def list_update_append numeral_eq_Suc del: put_chars.simps)
next
  case (3 a)
  let ?g = "[b64_char (out0 a), b64_char (out1 a 0), Pad64, Pad64]"
  have "put_chars (pre @ post) (length pre) ?g = Some (pre @ ?g @ drop 4 post)"
    using put_chars4 3 by simp
  moreover obtain x xs where "drop 4 post = x # xs" using 3 by (cases "drop 4 post") auto
  moreover from this have "drop 5 post = xs" by (metis drop_Suc eval_nat_numeral(3) list.sel(3) tl_drop)
  ultimately show ?case using 3
    by (simp add: encode_end_def size_to_int_def list_update_append numeral_eq_Suc del: put_chars.simps)
next
  case 4
  then obtain x xs where "post = x # xs" by (cases post) auto
  then show ?case using 4 by (simp add: encode_end_def size_to_int_def list_update_append)
qed


section \<open>Memory safety of the decoder\<close>

text \<open>The array keeps its extent and its cells from \<^verbatim>\<open>targsize\<close> on.\<close>

definition same_outside :: "nat \<Rightarrow> 'a list \<Rightarrow> 'a list \<Rightarrow> bool" where
  "same_outside n b b' \<longleftrightarrow> length b' = length b \<and> drop n b' = drop n b"

lemma same_outside_refl [simp]: "same_outside n b b"
  by (simp add: same_outside_def)

lemma same_outside_trans: "\<lbrakk>same_outside n a b; same_outside n b c\<rbrakk> \<Longrightarrow> same_outside n a c"
  by (simp add: same_outside_def)

lemma same_outside_upd: "i < n \<Longrightarrow> same_outside n b (b[i := x])"
  by (simp add: same_outside_def drop_update_cancel)

text \<open>What holds when the loop has ended, in terms of the array it started with.\<close>

fun exit_ok :: "nat \<Rightarrow> 8 word list \<Rightarrow> decode_exit \<Rightarrow> bool" where
  "exit_ok ts target (Bad t) = same_outside ts target t"
| "exit_ok ts target (Ended ch rest t ti st) =
     (same_outside ts target t \<and> rmap_at ch = b64rmap_end \<and> (ch = nul \<or> nul \<in> set rest)
      \<and> ti \<le> ts \<and> st < 4 \<and> (st \<noteq> 0 \<longrightarrow> ti < ts))"

lemma exit_ok_trans: "\<lbrakk>exit_ok ts t e; same_outside ts target t\<rbrakk> \<Longrightarrow> exit_ok ts target e"
  by (cases e) (auto intro: same_outside_trans)

lemma exit_via:
  "\<lbrakk>\<exists>e. f = Some e \<and> exit_ok ts t e; same_outside ts target t\<rbrakk> \<Longrightarrow> \<exists>e. f = Some e \<and> exit_ok ts target e"
  using exit_ok_trans by blast

lemma same_outside_upd2:
  "\<lbrakk>i < n; j < n\<rbrakk> \<Longrightarrow> same_outside n b (b[i := x, j := y])"
  by (rule same_outside_trans [OF same_outside_upd same_outside_upd])

lemma decode_loop_safe:
  assumes "nul \<in> set src" "ts \<le> length target" "ti \<le> ts" "st < 4" "st \<noteq> 0 \<longrightarrow> ti < ts" "int ts \<le> INT_MAX"
  shows "\<exists>e. b64_decode_loop src target ts ti st = Some e \<and> exit_ok ts target e"
  using assms
proof (induction src arbitrary: target ti st)
  case (Cons ch src)
  let ?o = "rmap_at ch"
  have via: "\<exists>e. b64_decode_loop src t ts ti' st' = Some e \<and> exit_ok ts target e"
    if "ch \<noteq> nul" "same_outside ts target t" "ti' \<le> ts" "st' < 4" "st' \<noteq> 0 \<longrightarrow> ti' < ts" for t ti' st'
    using that Cons.prems by (intro exit_via [OF Cons.IH]) (auto simp: same_outside_def)
  have nul: "ch \<noteq> nul" if "?o \<noteq> b64rmap_end"
    using that rmap_nul by blast
  have se: "b64rmap_end \<noteq> b64rmap_space" and es: "b64rmap_special \<le> b64rmap_end"
    by (simp_all add: b64rmap_defs)
  have nn: "ch \<noteq> nul" if "\<not> b64rmap_special \<le> ?o"
    using that es nul by auto
  consider "b64rmap_special \<le> ?o" "?o = b64rmap_end"
    | "b64rmap_special \<le> ?o" "?o = b64rmap_space"
    | "b64rmap_special \<le> ?o" "?o \<noteq> b64rmap_end" "?o \<noteq> b64rmap_space"
    | "\<not> b64rmap_special \<le> ?o" "st = 0" | "\<not> b64rmap_special \<le> ?o" "st = 1"
    | "\<not> b64rmap_special \<le> ?o" "st = 2" | "\<not> b64rmap_special \<le> ?o" "st = 3"
    using Cons.prems(4) by linarith
  then show ?case
  proof cases
    case 1
    then show ?thesis using Cons.prems se by (auto simp: Let_def)
  next
    case 2
    then show ?thesis using via [of target ti st] Cons.prems se nul by (simp add: Let_def)
  next
    case 3
    then show ?thesis by (simp add: Let_def)
  next
    case 4
    then show ?thesis
      using via [of "target[ti := push_bit 2 ?o]" ti "Suc 0"] Cons.prems nn
        same_outside_upd [of ti ts target "push_bit 2 ?o"]
      by (cases "ts \<le> ti") (auto simp: Let_def)
  next
    case 5
    then show ?thesis
      using via [of "target[ti := (target ! ti) OR drop_bit 4 ?o, ti + 1 := push_bit 4 (?o AND 0x0f)]" "ti + 1" 2]
        Cons.prems nn same_outside_upd2 [of ti ts "ti + 1" target
          "(target ! ti) OR drop_bit 4 ?o" "push_bit 4 (?o AND 0x0f)"]
      by (cases "ts \<le> ti + 1") (auto simp: Let_def)
  next
    case 6
    then show ?thesis
      using via [of "target[ti := (target ! ti) OR drop_bit 2 ?o, ti + 1 := push_bit 6 (?o AND 0x03)]" "ti + 1" 3]
        Cons.prems nn same_outside_upd2 [of ti ts "ti + 1" target
          "(target ! ti) OR drop_bit 2 ?o" "push_bit 6 (?o AND 0x03)"]
      by (cases "ts \<le> ti + 1") (auto simp: Let_def)
  next
    case 7
    then show ?thesis
      using via [of "target[ti := (target ! ti) OR ?o]" "ti + 1" 0] Cons.prems nn
        same_outside_upd [of ti ts target "(target ! ti) OR ?o"]
      by (cases "ts \<le> ti") (auto simp: Let_def)
  qed
qed simp

lemma skip_spaces_total:
  "ch = nul \<or> nul \<in> set src \<Longrightarrow>
   \<exists>c s. skip_spaces ch src = Some (c, s) \<and> (c = nul \<or> nul \<in> set s)"
proof (induction src arbitrary: ch)
  case Nil
  then show ?case by (simp add: skip_spaces.simps)
next
  case (Cons a src)
  then show ?case by (subst skip_spaces.simps) (cases "ch = nul"; auto)
qed

lemma only_spaces_total:
  "ch = nul \<or> nul \<in> set src \<Longrightarrow> \<exists>b. only_spaces ch src = Some b"
proof (induction src arbitrary: ch)
  case Nil
  then have "only_spaces ch [] = Some True" by (simp add: only_spaces.simps)
  then show ?case by blast
next
  case (Cons a src)
  have "only_spaces ch (a # src) \<in> {Some True, Some False, only_spaces a src}"
    by (subst only_spaces.simps) simp
  moreover have "ch = nul \<Longrightarrow> only_spaces ch (a # src) = Some True"
    by (simp add: only_spaces.simps)
  moreover have "ch \<noteq> nul \<Longrightarrow> \<exists>b. only_spaces a src = Some b"
    using Cons.prems by (intro Cons.IH) auto
  ultimately show ?case by (cases "ch = nul") auto
qed

lemma ending_ok_total: "ch = nul \<or> nul \<in> set src \<Longrightarrow> \<exists>b. ending_ok ch src st = Some b"
proof -
  assume *: "ch = nul \<or> nul \<in> set src"
  show ?thesis
  proof (cases "ch = Pad64")
    case True
    then have "nul \<in> set src" using * by (auto simp: nul_def Pad64_def)
    then obtain c cs where src: "src = c # cs" "c = nul \<or> nul \<in> set cs" by (cases src) auto
    obtain c2 s2 where sk: "skip_spaces c cs = Some (c2, s2)" "c2 = nul \<or> nul \<in> set s2"
      using skip_spaces_total src(2) by blast
    have two: "\<exists>b. (case s2 of [] \<Rightarrow> None | c3 # cs3 \<Rightarrow> only_spaces c3 cs3) = Some b" if "c2 = Pad64"
      using that sk(2) only_spaces_total by (cases s2) (auto simp: nul_def Pad64_def)
    consider "st = 0 \<or> st = 1" | "st = 2" "c2 = Pad64" | "st = 2" "c2 \<noteq> Pad64" | "st > 2" by linarith
    then show ?thesis
    proof cases
      case 2
      with two True src sk(1) show ?thesis by (simp add: ending_ok_def)
    qed (use True src sk(1) only_spaces_total [of c cs] in \<open>auto simp: ending_ok_def\<close>)
  qed (simp add: ending_ok_def)
qed

text \<open>A legal pad character is only accepted after two or three digits of a group.\<close>

lemma ending_ok_pad: "ending_ok Pad64 src st = Some True \<Longrightarrow> st \<noteq> 0"
  by (cases src; cases "st = 0") (auto simp: ending_ok_def)

lemma b64_decode_do_safe:
  assumes "nul \<in> set src" "ts \<le> length target" "int ts \<le> INT_MAX"
  shows "\<exists>r t. b64_decode_do src target ts = Some (r, t) \<and> same_outside ts target t
    \<and> (r = -1 \<or> 0 \<le> r \<and> r \<le> int ts)"
proof -
  obtain e where e: "b64_decode_loop src target ts 0 0 = Some e" "exit_ok ts target e"
    using decode_loop_safe [of src ts target 0 0] assms by auto
  show ?thesis
  proof (cases e)
    case (Bad t)
    then show ?thesis using e by (simp add: b64_decode_do_def)
  next
    case (Ended ch rest t ti st)
    then have "ch = nul \<or> nul \<in> set rest" using e(2) by simp
    then obtain ok where ok: "ending_ok ch rest st = Some ok"
      using ending_ok_total by blast
    have "length t = length target" "st \<noteq> 0 \<longrightarrow> ti < ts"
      using e(2) Ended by (auto simp: same_outside_def)
    moreover have "ch = Pad64 \<Longrightarrow> ok \<Longrightarrow> st \<noteq> 0" using ok ending_ok_pad by metis
    ultimately have "ch = Pad64 \<Longrightarrow> ok \<Longrightarrow> ti < length t" using assms(2) by linarith
    then show ?thesis
      using e Ended ok by (auto simp: b64_decode_do_def)
  qed
qed

section \<open>Length computation\<close>

lemma len_loop_agrees:
  "b64_decode_loop src target ts ti st = Some (Ended ch rest t ti' st')
   \<Longrightarrow> b64_len_loop src ti st = Some (Ended ch rest [] ti' st')"
proof (induction src arbitrary: target ti st)
  case (Cons c src)
  then show ?case
    by (auto simp: Let_def buf_simps dest: int_incr_Some split: if_splits Option.bind_splits)
qed simp

lemma b64_len_agrees:
  assumes "b64_decode_do src target ts = Some (r, t)" "r \<noteq> -1"
  shows "b64_decode_len src = Some r"
proof -
  obtain e where e: "b64_decode_loop src target ts 0 0 = Some e"
    using assms(1) by (auto simp: b64_decode_do_def split: Option.bind_splits)
  show ?thesis
  proof (cases e)
    case (Ended ch rest t' ti st)
    then show ?thesis
      using assms e len_loop_agrees [of src target ts 0 0 ch rest t' ti st]
      by (auto simp: b64_decode_do_def b64_decode_len_def split: if_splits Option.bind_splits)
  qed (use assms e in \<open>simp add: b64_decode_do_def\<close>)
qed

section \<open>Round trip\<close>

lemma decode_digit:
  "unat w < 64 \<Longrightarrow> rmap_at (b64_char w) = w \<and> \<not> b64rmap_special \<le> w"
  using rmap_char [of w] small_word [of w] by (simp add: b64rmap_special_def)

lemma list_update_here: "(pre @ x # post)[length pre := y] = pre @ y # post"
  by simp

lemma list_update_next: "(pre @ x # y # post)[Suc (length pre) := z] = pre @ x # z # post"
  by (simp add: list_update_append)

lemma decode_group:
  assumes "ts \<le> length (pre @ x # y # z # post)" "length pre + 2 < ts" "int (length pre + 2) < INT_MAX"
  shows "b64_decode_loop (b64_char (out0 a) # b64_char (out1 a b) # b64_char (out2 b c) # b64_char (out3 c) # rest)
      (pre @ x # y # z # post) ts (length pre) 0
    = b64_decode_loop rest ((pre @ [a, b, c]) @ post) ts (length (pre @ [a, b, c])) 0"
proof -
  note digits = decode_digit [OF out_bounds(1), of a] decode_digit [OF out_bounds(2), of a b]
    decode_digit [OF out_bounds(3), of b c] decode_digit [OF out_bounds(4), of c]
  show ?thesis
    using assms digits
    by (simp add: Let_def list_update_append nth_append regroup [simplified])
qed


lemma decode_tail2:
  assumes "ts \<le> length (pre @ x # y # z # post)" "length pre + 2 < ts" "int (length pre + 1) < INT_MAX"
  shows "b64_decode_loop (encoding [a, b] @ nul # rest) (pre @ x # y # z # post) ts (length pre) 0
      = Some (Ended Pad64 (nul # rest) (pre @ a # b # 0 # post) (length pre + 2) 3)"
proof -
  note digits = decode_digit [OF out_bounds(1), of a] decode_digit [OF out_bounds(2), of a b]
    decode_digit [OF out_bounds(3), of b 0]
  have pads: "b64rmap_special \<le> b64rmap_end" "b64rmap_end \<noteq> b64rmap_space"
    by (simp_all add: b64rmap_defs)
  show ?thesis
    using assms digits pads
    by (simp add: Let_def list_update_append nth_append regroup [simplified] rmap_pad)
qed

lemma decode_tail1:
  assumes "ts \<le> length (pre @ x # y # post)" "length pre + 1 < ts" "int (length pre) < INT_MAX"
  shows "b64_decode_loop (encoding [a] @ nul # rest) (pre @ x # y # post) ts (length pre) 0
      = Some (Ended Pad64 (Pad64 # nul # rest) (pre @ a # 0 # post) (length pre + 1) 2)"
proof -
  note digits = decode_digit [OF out_bounds(1), of a] decode_digit [OF out_bounds(2), of a 0]
  have pads: "b64rmap_special \<le> b64rmap_end" "b64rmap_end \<noteq> b64rmap_space"
    by (simp_all add: b64rmap_defs)
  show ?thesis
    using assms digits pads
    by (simp add: Let_def list_update_append nth_append regroup [simplified] rmap_pad)
qed

lemma pad_not_space: "rmap_at Pad64 \<noteq> b64rmap_space" and Pad64_not_nul: "Pad64 \<noteq> nul"
proof -
  show "rmap_at Pad64 \<noteq> b64rmap_space" unfolding rmap_pad by (simp add: b64rmap_defs)
  show "Pad64 \<noteq> nul" by (simp add: Pad64_def nul_def)
qed

lemma ending_pads:
  "ending_ok Pad64 (nul # rest) 3 = Some True"
  "ending_ok Pad64 (Pad64 # nul # rest) 2 = Some True"
  "ending_ok nul rest 0 = Some True"
  using pad_not_space Pad64_not_nul
  by (simp_all add: ending_ok_def skip_spaces.simps only_spaces.simps)

text \<open>What a complete decoding leaves behind.\<close>

fun decoded :: "8 word list \<Rightarrow> decode_exit \<Rightarrow> bool" where
  "decoded x (Bad t) = False"
| "decoded x (Ended ch rest t ti st) =
     (ti = length x \<and> take ti t = x \<and> ti < length t \<and> ending_ok ch rest st = Some True
      \<and> (ch = Pad64 \<longrightarrow> t ! ti = 0))"

lemma decode_encoding:
  assumes "length pre + length x < ts" "ts \<le> length (pre @ post)" "int (length pre + length x) \<le> INT_MAX"
  shows "\<exists>e. b64_decode_loop (encoding x @ nul # rest) (pre @ post) ts (length pre) 0 = Some e
    \<and> decoded (pre @ x) e"
  using assms
proof (induction x arbitrary: pre post rule: encoding.induct)
  case (1 a b c x)
  then obtain p q r post' where post: "post = p # q # r # post'"
    by (cases post rule: remdups_adj.cases; cases "tl (tl post)") auto
  have "\<exists>e. b64_decode_loop (encoding x @ nul # rest) ((pre @ [a, b, c]) @ post') ts
      (length (pre @ [a, b, c])) 0 = Some e \<and> decoded ((pre @ [a, b, c]) @ x) e"
    using "1.prems" post by (intro "1.IH") auto
  then show ?case
    using decode_group [of ts pre p q r post' a b c "encoding x @ nul # rest"] "1.prems" post
    by (simp del: b64_decode_loop.simps)
next
  case (2 a b)
  then obtain p q r post' where "post = p # q # r # post'"
    by (cases post rule: remdups_adj.cases; cases "tl (tl post)") auto
  then show ?case
    using decode_tail2 [of ts pre p q r post' a b rest] 2
    by (simp add: ending_pads nth_append del: b64_decode_loop.simps encoding.simps)
next
  case (3 a)
  then obtain p q post' where "post = p # q # post'"
    by (cases post rule: remdups_adj.cases) auto
  then show ?case
    using decode_tail1 [of ts pre p q post' a rest] 3
    by (simp add: ending_pads nth_append del: b64_decode_loop.simps encoding.simps)
next
  case 4
  have "b64rmap_special \<le> b64rmap_end" "b64rmap_end \<noteq> b64rmap_space"
    by (simp_all add: b64rmap_defs)
  with 4 show ?case
    using Pad64_not_nul by (auto simp: Let_def rmap_nul ending_pads)
qed

lemma decode_do_encoding:
  assumes "length x < ts" "ts \<le> length target" "int (length x) \<le> INT_MAX"
  shows "\<exists>t. b64_decode_do (encoding x @ nul # rest) target ts = Some (int (length x), t)
    \<and> take (length x) t = x"
proof -
  obtain e where e: "b64_decode_loop (encoding x @ nul # rest) target ts 0 0 = Some e" "decoded x e"
    using decode_encoding [of "[]" x ts target rest] assms by auto
  then show ?thesis
    by (cases e) (auto simp: b64_decode_do_def)
qed

text \<open>
  Property C12. Decoding what the encoder produced gives the octets back.  For every octet string
  and every target with room for the text and its terminator, \<^verbatim>\<open>b64_encode\<close> stores exactly
  the RFC 4648 text with its terminator and returns its length; \<^verbatim>\<open>b64_decode\<close> of that text
  into any target one octet longer than the data returns the number of octets and stores them.
\<close>

theorem b64_roundtrip:
  assumes "length (encoding x) < targsize" "targsize \<le> length target"
    and "int (length (encoding x)) \<le> INT_MAX"
    and "length x < targsize2" "targsize2 \<le> length target2"
  shows "b64_encode x target targsize =
      Some (int (length (encoding x)), encoding x @ nul # drop (Suc (length (encoding x))) target)
    \<and> (\<exists>t. b64_decode (encoding x @ nul # drop (Suc (length (encoding x))) target)
          (Some target2) targsize2 = Some (int (length x), Some t) \<and> take (length x) t = x)"
proof -
  have "b64_encode x target targsize =
      Some (int (length (encoding x)), encoding x @ nul # drop (Suc (length (encoding x))) target)"
    using encode_from_ok [of "[]" x targsize target] assms by (simp add: b64_encode_def)
  moreover obtain t where "b64_decode_do (encoding x @ nul # drop (Suc (length (encoding x))) target)
      target2 targsize2 = Some (int (length x), t)" "take (length x) t = x"
    using decode_do_encoding [of x targsize2 target2] assms length_encoding_ge [of x] by fastforce
  ultimately show ?thesis by (auto simp: b64_decode_def)
qed

theorem b64_roundtrip_witness:
  "\<exists>t. b64_decode (encoding [104, 105] @ nul # drop 5 (replicate 9 nul)) (Some [0, 0, 0]) 3
     = Some (2, Some t) \<and> take 2 t = [104, 105]"
proof -
  have len: "length (encoding [104, 105]) = 4" by (simp add: length_encoding)
  show ?thesis
    using b64_roundtrip [of "[104, 105]" 9 "replicate 9 nul" 3 "[0, 0, 0]"]
    by (simp only: len) (simp add: INT_MAX_def numeral_eq_Suc)
qed

text \<open>
  Property C13. The decoder is memory safe on every input: on any terminated source text, however
  malformed, it reads no further than the terminator, stores only below \<^verbatim>\<open>targsize\<close>, and
  returns $-1$ or a number of octets that fits the target.  The size of the target is a number that the
  \<^verbatim>\<open>int\<close> index can reach; then the index does not overflow.
\<close>

theorem b64_decode_safe:
  assumes "nul \<in> set src" "targsize \<le> length target" "int targsize \<le> INT_MAX"
  shows "\<exists>r t. b64_decode src (Some target) targsize = Some (r, Some t)
    \<and> length t = length target \<and> drop targsize t = drop targsize target
    \<and> (r = -1 \<or> 0 \<le> r \<and> r \<le> int targsize)"
  using b64_decode_do_safe [OF assms] by (auto simp: b64_decode_def same_outside_def)

theorem b64_decode_safe_witness:
  "\<exists>r t. b64_decode (''aGk='' @ [nul]) (Some [0, 0, 7]) 2 = Some (r, Some t) \<and> drop 2 t = [7]"
  using b64_decode_safe [of "''aGk='' @ [nul]" 2 "[0, 0, 7]"] by (auto simp: INT_MAX_def)

text \<open>
  The length computation with a null target agrees with decoding: whenever decoding
  into some target succeeds, \<^verbatim>\<open>b64_decode\<close> without a target returns the same number.
\<close>

theorem b64_length_agrees:
  assumes "b64_decode src (Some target) targsize = Some (r, t)" "r \<noteq> -1"
  shows "b64_decode src None n = Some (r, None)"
  using assms b64_len_agrees [of src target targsize r]
  by (auto simp: b64_decode_def split: Option.bind_splits)

theorem b64_length_agrees_witness:
  "b64_decode (encoding [104] @ nul # []) None 0 = Some (1, None)"
proof -
  obtain t where "b64_decode (encoding [104] @ nul # []) (Some [0, 0]) 2 = Some (int 1, Some t)"
    using decode_do_encoding [of "[104]" 2 "[0, 0]" "[]"] by (auto simp: b64_decode_def INT_MAX_def)
  from b64_length_agrees [OF this] show ?thesis by simp
qed

end
