(* ===== verification/Text_Buffer.thy ===== *)
theory Text_Buffer
  imports Str_Hand
begin

text \<open>
  The text buffer, \<^verbatim>\<open>src/src/textBuffer.c\<close> and its header: a doubly linked list of lines.
  The model has an explicit store of list elements indexed by address, so that sharing and
  freed elements are visible; \<^verbatim>\<open>malloc\<close> is a counter that hands out addresses never used
  before.  A null dereference, an access to a freed element or a failed assertion is
  \<^const>\<open>None\<close>.  The abstraction \<^verbatim>\<open>buf_list\<close> relates a buffer to the list of the addresses
  of its elements, and the operations are proved to be the list operations.
\<close>

section \<open>State\<close>

type_synonym addr = nat

record textbuf_elmt =
  el_text :: string
  el_indent :: int
  el_prev :: "addr option"
  el_next :: "addr option"

record textbuf =
  tb_size :: int
  tb_head :: "addr option"
  tb_tail :: "addr option"

record store =
  cells :: "addr \<Rightarrow> textbuf_elmt option"
  fresh :: addr

type_synonym buf_state = "store \<times> textbuf"

section \<open>Operations\<close>

definition textBuf_new :: "textbuf" where
  "textBuf_new = \<lparr>tb_size = 0, tb_head = None, tb_tail = None\<rparr>"

definition check_args :: "textbuf option \<Rightarrow> addr option \<Rightarrow> string option \<Rightarrow> int" where
  "check_args buf element text =
     (case buf of
        None \<Rightarrow> -1
      | Some b \<Rightarrow> if text = None \<or> (element = None \<and> tb_size b \<noteq> 0) then -1 else 0)"

definition get_new_elmt :: "store \<Rightarrow> string \<Rightarrow> int \<Rightarrow> addr \<times> store" where
  "get_new_elmt st text indent =
     (fresh st,
      \<lparr>cells = (cells st)(fresh st \<mapsto>
         \<lparr>el_text = text, el_indent = indent, el_prev = None, el_next = None\<rparr>),
       fresh = Suc (fresh st)\<rparr>)"

definition set_prev :: "addr \<Rightarrow> addr option \<Rightarrow> store \<Rightarrow> store option" where
  "set_prev p v st = (case cells st p of None \<Rightarrow> None
     | Some e \<Rightarrow> Some (st\<lparr>cells := (cells st)(p \<mapsto> e\<lparr>el_prev := v\<rparr>)\<rparr>))"

definition set_next :: "addr \<Rightarrow> addr option \<Rightarrow> store \<Rightarrow> store option" where
  "set_next p v st = (case cells st p of None \<Rightarrow> None
     | Some e \<Rightarrow> Some (st\<lparr>cells := (cells st)(p \<mapsto> e\<lparr>el_next := v\<rparr>)\<rparr>))"

definition init_buf :: "addr \<Rightarrow> buf_state \<Rightarrow> buf_state option" where
  "init_buf new_element sb = (case sb of (st, b) \<Rightarrow> do {
     st1 \<leftarrow> set_prev new_element None st;
     st2 \<leftarrow> set_next new_element None st1;
     Some (st2, b\<lparr>tb_head := Some new_element, tb_tail := Some new_element\<rparr>) })"

text \<open>The result is the error number with the new state; the null buffer stays as it is.\<close>

definition textBuf_ins_next ::
  "store \<Rightarrow> textbuf option \<Rightarrow> addr option \<Rightarrow> string option \<Rightarrow> int \<Rightarrow> (errno \<times> store \<times> textbuf option) option" where
  "textBuf_ins_next st buf element text indent =
     (if check_args buf element text = -1 then Some (EINVAL, st, buf)
      else (let (new, st1) = get_new_elmt st (the text) indent; b = the buf in
        if tb_size b = 0 then do {
          (st2, b2) \<leftarrow> init_buf new (st1, b);
          Some (OK0, st2, Some (b2\<lparr>tb_size := tb_size b2 + 1\<rparr>)) }
        else do {
          e \<leftarrow> element;
          ecell \<leftarrow> cells st1 e;
          st2 \<leftarrow> set_next new (el_next ecell) st1;
          st3 \<leftarrow> set_prev new (Some e) st2;
          (st4, b4) \<leftarrow> (case el_next ecell of
             None \<Rightarrow> Some (st3, b\<lparr>tb_tail := Some new\<rparr>)
           | Some y \<Rightarrow> do { s \<leftarrow> set_prev y (Some new) st3; Some (s, b) });
          st5 \<leftarrow> set_next e (Some new) st4;
          Some (OK0, st5, Some (b4\<lparr>tb_size := tb_size b4 + 1\<rparr>)) }))"

definition textBuf_ins_prev ::
  "store \<Rightarrow> textbuf option \<Rightarrow> addr option \<Rightarrow> string option \<Rightarrow> int \<Rightarrow> (errno \<times> store \<times> textbuf option) option" where
  "textBuf_ins_prev st buf element text indent =
     (if check_args buf element text = -1 then Some (EINVAL, st, buf)
      else (let (new, st1) = get_new_elmt st (the text) indent; b = the buf in
        if tb_size b = 0 then do {
          (st2, b2) \<leftarrow> init_buf new (st1, b);
          Some (OK0, st2, Some (b2\<lparr>tb_size := tb_size b2 + 1\<rparr>)) }
        else do {
          e \<leftarrow> element;
          ecell \<leftarrow> cells st1 e;
          st2 \<leftarrow> set_next new (Some e) st1;
          st3 \<leftarrow> set_prev new (el_prev ecell) st2;
          (st4, b4) \<leftarrow> (case el_prev ecell of
             None \<Rightarrow> Some (st3, b\<lparr>tb_head := Some new\<rparr>)
           | Some y \<Rightarrow> do { s \<leftarrow> set_next y (Some new) st3; Some (s, b) });
          st5 \<leftarrow> set_prev e (Some new) st4;
          Some (OK0, st5, Some (b4\<lparr>tb_size := tb_size b4 + 1\<rparr>)) }))"

text \<open>\<^verbatim>\<open>free(element)\<close>: the address is not in the store any more.\<close>

definition free_elmt :: "addr \<Rightarrow> store \<Rightarrow> store" where
  "free_elmt p st = st\<lparr>cells := (cells st)(p := None)\<rparr>"

definition textBuf_remove ::
  "store \<Rightarrow> textbuf option \<Rightarrow> addr option \<Rightarrow> (errno \<times> store \<times> textbuf option) option" where
  "textBuf_remove st buf element =
     (case (buf, element) of
        (Some b, Some e) \<Rightarrow>
          if tb_size b = 0 then Some (EINVAL, st, buf)
          else do {
            ecell \<leftarrow> cells st e;
            (st2, b2) \<leftarrow>
              (if Some e = tb_head b then
                 (case el_next ecell of
                    None \<Rightarrow> Some (st, b\<lparr>tb_head := None, tb_tail := None\<rparr>)
                  | Some y \<Rightarrow> do { s \<leftarrow> set_prev y None st; Some (s, b\<lparr>tb_head := Some y\<rparr>) })
               else do {
                 p \<leftarrow> el_prev ecell;
                 s \<leftarrow> set_next p (el_next ecell) st;
                 (case el_next ecell of
                    None \<Rightarrow> Some (s, b\<lparr>tb_tail := el_prev ecell\<rparr>)
                  | Some y \<Rightarrow> do { s' \<leftarrow> set_prev y (el_prev ecell) s; Some (s', b) }) });
            Some (OK0, free_elmt e st2, Some (b2\<lparr>tb_size := tb_size b2 - 1\<rparr>)) }
      | _ \<Rightarrow> Some (EINVAL, st, buf))"

text \<open>
  The traversal of \<^verbatim>\<open>textBuf_get_element_by_pos\<close>; the argument counts the rounds that are
  left until \<^verbatim>\<open>i == pos\<close>.
\<close>

fun walk :: "store \<Rightarrow> addr option \<Rightarrow> nat \<Rightarrow> addr option option" where
  "walk st None left = Some None"
| "walk st (Some p) 0 = Some (Some p)"
| "walk st (Some p) (Suc left) = do { e \<leftarrow> cells st p; walk st (el_next e) left }"

definition textBuf_get_element_by_pos :: "store \<Rightarrow> textbuf option \<Rightarrow> int \<Rightarrow> addr option option" where
  "textBuf_get_element_by_pos st buf pos =
     (case buf of
        None \<Rightarrow> Some None
      | Some b \<Rightarrow> if pos < 0 then Some None else walk st (tb_head b) (nat pos))"

text \<open>
  \<^verbatim>\<open>textBuf_destroy\<close> removes the tail while the size is positive; a removal that fails ends
  the process (\<^verbatim>\<open>err_sys\<close>), here \<^const>\<open>None\<close>.
\<close>

lemma remove_size:
  "textBuf_remove st (Some b) e = Some (OK0, st', Some b') \<Longrightarrow> tb_size b' = tb_size b - 1"
  by (auto simp: textBuf_remove_def split: option.splits if_splits Option.bind_splits)

function textBuf_destroy :: "store \<Rightarrow> textbuf \<Rightarrow> store option" where
  "textBuf_destroy st b =
     (if tb_size b > 0 then
        (case textBuf_remove st (Some b) (tb_tail b) of
           Some (OK0, st', Some b') \<Rightarrow> textBuf_destroy st' b'
         | _ \<Rightarrow> None)
      else Some st)"
  by pat_completeness auto
termination
  by (relation "measure (\<lambda>(st, b). nat (tb_size b))") (auto dest: remove_size)

declare textBuf_destroy.simps [simp del]

definition textBuf_emplace_back :: "store \<Rightarrow> textbuf \<Rightarrow> string \<Rightarrow> int \<Rightarrow> buf_state option" where
  "textBuf_emplace_back st b text indent =
     (case (if tb_size b \<noteq> 0 then textBuf_ins_next st (Some b) (tb_tail b) (Some text) indent
            else textBuf_ins_next st (Some b) None (Some text) indent) of
        Some (OK0, st', Some b') \<Rightarrow> Some (st', b')
      | _ \<Rightarrow> None)"

definition textBuf_pop_head :: "store \<Rightarrow> textbuf \<Rightarrow> buf_state option" where
  "textBuf_pop_head st b =
     (case textBuf_remove st (Some b) (tb_head b) of
        Some (OK0, st', Some b') \<Rightarrow> Some (st', b')
      | _ \<Rightarrow> None)"

section \<open>Abstraction\<close>

text \<open>
  A segment of the list: its elements are allocated and linked in both directions; \<^verbatim>\<open>p\<close> is
  what the first element's \<^verbatim>\<open>prev\<close> holds and \<^verbatim>\<open>n\<close> what the last one's \<^verbatim>\<open>next\<close> holds.
\<close>

definition first_or :: "addr list \<Rightarrow> addr option \<Rightarrow> addr option" where
  "first_or xs n = (case xs of [] \<Rightarrow> n | x # _ \<Rightarrow> Some x)"

definition last_or :: "addr option \<Rightarrow> addr list \<Rightarrow> addr option" where
  "last_or p xs = (if xs = [] then p else Some (last xs))"

fun seg :: "(addr \<Rightarrow> textbuf_elmt option) \<Rightarrow> addr option \<Rightarrow> addr list \<Rightarrow> addr option \<Rightarrow> bool" where
  "seg c p [] n = True"
| "seg c p (x # xs) n =
     ((\<exists>e. c x = Some e \<and> el_prev e = p \<and> el_next e = first_or xs n) \<and> seg c (Some x) xs n)"

definition buf_list :: "store \<Rightarrow> textbuf \<Rightarrow> addr list \<Rightarrow> bool" where
  "buf_list st b xs \<longleftrightarrow>
     seg (cells st) None xs None \<and> distinct xs \<and> tb_head b = first_or xs None
     \<and> tb_tail b = last_or None xs \<and> tb_size b = int (length xs)
     \<and> (\<forall>p. cells st p \<noteq> None \<longrightarrow> p < fresh st)"

text \<open>The lines of the buffer.\<close>

definition line_of :: "(addr \<Rightarrow> textbuf_elmt option) \<Rightarrow> addr \<Rightarrow> string \<times> int" where
  "line_of c p = (case c p of None \<Rightarrow> ([], 0) | Some e \<Rightarrow> (el_text e, el_indent e))"

definition lines_in :: "(addr \<Rightarrow> textbuf_elmt option) \<Rightarrow> addr list \<Rightarrow> (string \<times> int) list" where
  "lines_in c xs = map (line_of c) xs"

definition lines_of :: "store \<Rightarrow> addr list \<Rightarrow> (string \<times> int) list" where
  "lines_of st xs = lines_in (cells st) xs"

lemma first_or_simps [simp]: "first_or [] n = n" "first_or (x # xs) n = Some x"
  by (simp_all add: first_or_def)

lemma first_or_append [simp]: "first_or (xs @ ys) n = first_or xs (first_or ys n)"
  by (cases xs) auto

lemma last_or_simps [simp]: "last_or p [] = p" "last_or p (xs @ [x]) = Some x"
  by (simp_all add: last_or_def)

lemma last_or_Cons [simp]: "last_or p (x # xs) = last_or (Some x) xs"
  by (simp add: last_or_def)

lemma last_or_append [simp]: "last_or p (xs @ x # ys) = last_or (Some x) ys"
  by (simp add: last_or_def)

lemma last_or_Some: "\<exists>z. last_or (Some x) ys = Some z"
  by (simp add: last_or_def)

lemma seg_append: "seg c p (xs @ ys) n \<longleftrightarrow> seg c p xs (first_or ys n) \<and> seg c (last_or p xs) ys n"
  by (induction xs arbitrary: p) auto

lemma seg_cong: "(\<And>x. x \<in> set xs \<Longrightarrow> c' x = c x) \<Longrightarrow> seg c' p xs n = seg c p xs n"
  by (induction xs arbitrary: p) auto

lemma seg_frame [simp]: "a \<notin> set xs \<Longrightarrow> seg (c(a := v)) p xs n = seg c p xs n"
  by (rule seg_cong) auto

lemma seg_allocated: "seg c p xs n \<Longrightarrow> x \<in> set xs \<Longrightarrow> c x \<noteq> None"
  by (induction xs arbitrary: p) auto

text \<open>Re-linking the ends of a segment.\<close>

lemma seg_set_next:
  "\<lbrakk>seg c p (xs @ [x]) n; distinct (xs @ [x]); c x = Some e\<rbrakk>
   \<Longrightarrow> seg (c(x \<mapsto> e\<lparr>el_next := m\<rparr>)) p (xs @ [x]) m"
  by (auto simp: seg_append)

lemma seg_set_prev:
  "\<lbrakk>seg c p (x # xs) n; distinct (x # xs); c x = Some e\<rbrakk>
   \<Longrightarrow> seg (c(x \<mapsto> e\<lparr>el_prev := q\<rparr>)) q (x # xs) n"
  by auto


lemma buf_list_fresh: "buf_list st b xs \<Longrightarrow> fresh st \<notin> set xs \<and> cells st (fresh st) = None"
  using seg_allocated by (fastforce simp: buf_list_def)

lemma seg_at:
  "seg c p (as @ x # bs) n \<Longrightarrow>
   \<exists>e. c x = Some e \<and> el_prev e = last_or p as \<and> el_next e = first_or bs n"
  by (auto simp: seg_append)

lemma lines_in_simps [simp]: "lines_in c [] = []" "lines_in c (x # xs) = line_of c x # lines_in c xs"
  "lines_in c (xs @ ys) = lines_in c xs @ lines_in c ys"
  by (simp_all add: lines_in_def)

lemma line_of_upd [simp]: "line_of (c(a \<mapsto> e)) a = (el_text e, el_indent e)"
  "p \<noteq> a \<Longrightarrow> line_of (c(a := v)) p = line_of c p"
  by (simp_all add: line_of_def)

lemma lines_in_frame [simp]: "a \<notin> set xs \<Longrightarrow> lines_in (c(a := v)) xs = lines_in c xs"
  by (auto simp: lines_in_def line_of_def)

lemma line_of_Some: "c p = Some e \<Longrightarrow> line_of c p = (el_text e, el_indent e)"
  by (simp add: line_of_def)

lemmas heap_defs = set_next_def set_prev_def get_new_elmt_def init_buf_def free_elmt_def

text \<open>Inserting behind an element of the list.\<close>

lemma ins_next_list:
  assumes "buf_list st b (as @ x # bs)"
  shows "\<exists>st' b'. textBuf_ins_next st (Some b) (Some x) (Some t) i = Some (OK0, st', Some b')
    \<and> buf_list st' b' (as @ x # fresh st # bs)
    \<and> lines_of st' (as @ x # fresh st # bs) = lines_of st (as @ [x]) @ (t, i) # lines_of st bs"
proof -
  let ?a = "fresh st"
  have a: "?a \<notin> set (as @ x # bs)" "cells st ?a = None"
    using buf_list_fresh [OF assms] by auto
  have inv: "seg (cells st) None (as @ x # bs) None" "distinct (as @ x # bs)"
    and sz: "tb_size b = int (length (as @ x # bs))"
    and ends: "tb_head b = first_or (as @ x # bs) None" "tb_tail b = last_or None (as @ x # bs)"
    and bound: "\<forall>p. cells st p \<noteq> None \<longrightarrow> p < fresh st"
    using assms by (auto simp: buf_list_def)
  obtain e where e: "cells st x = Some e" "el_prev e = last_or None as" "el_next e = first_or bs None"
    using seg_at [OF inv(1)] by blast
  show ?thesis
  proof (cases bs)
    case Nil
    then show ?thesis
      using a inv sz ends bound e
      by (auto simp: textBuf_ins_next_def check_args_def heap_defs buf_list_def seg_append lines_of_def
          line_of_Some less_Suc_eq)
  next
    case (Cons y ys)
    then obtain ey where "cells st y = Some ey" "el_prev ey = Some x" "el_next ey = first_or ys None"
      using inv by (auto simp: seg_append)
    then show ?thesis
      using a inv sz ends bound e Cons
      by (auto simp: textBuf_ins_next_def check_args_def heap_defs buf_list_def seg_append lines_of_def
          line_of_Some less_Suc_eq)
  qed
qed


text \<open>Inserting in front of an element of the list.\<close>

lemma ins_prev_list:
  assumes "buf_list st b (as @ x # bs)"
  shows "\<exists>st' b'. textBuf_ins_prev st (Some b) (Some x) (Some t) i = Some (OK0, st', Some b')
    \<and> buf_list st' b' (as @ fresh st # x # bs)
    \<and> lines_of st' (as @ fresh st # x # bs) = lines_of st as @ (t, i) # lines_of st (x # bs)"
proof -
  let ?a = "fresh st"
  have a: "?a \<notin> set (as @ x # bs)" "cells st ?a = None"
    using buf_list_fresh [OF assms] by auto
  have inv: "seg (cells st) None (as @ x # bs) None" "distinct (as @ x # bs)"
    and sz: "tb_size b = int (length (as @ x # bs))"
    and ends: "tb_head b = first_or (as @ x # bs) None" "tb_tail b = last_or None (as @ x # bs)"
    and bound: "\<forall>p. cells st p \<noteq> None \<longrightarrow> p < fresh st"
    using assms by (auto simp: buf_list_def)
  obtain e where e: "cells st x = Some e" "el_prev e = last_or None as" "el_next e = first_or bs None"
    using seg_at [OF inv(1)] by blast
  show ?thesis
  proof (cases as rule: rev_cases)
    case Nil
    then show ?thesis
      using a inv sz ends bound e
      by (auto simp: textBuf_ins_prev_def check_args_def heap_defs buf_list_def seg_append lines_of_def
          line_of_Some less_Suc_eq)
  next
    case (snoc ys y)
    then obtain ey where "cells st y = Some ey" "el_prev ey = last_or None ys" "el_next ey = Some x"
      using inv by (auto simp: seg_append)
    then show ?thesis
      using a inv sz ends bound e snoc
      by (auto simp: textBuf_ins_prev_def check_args_def heap_defs buf_list_def seg_append lines_of_def
          line_of_Some less_Suc_eq)
  qed
qed

text \<open>Inserting into the empty buffer.\<close>

lemma ins_empty:
  assumes "buf_list st b []"
  shows "\<exists>st' b'. textBuf_ins_next st (Some b) None (Some t) i = Some (OK0, st', Some b')
    \<and> buf_list st' b' [fresh st] \<and> lines_of st' [fresh st] = [(t, i)]"
  using assms
  by (auto simp: textBuf_ins_next_def check_args_def heap_defs buf_list_def lines_of_def line_of_Some less_Suc_eq)

text \<open>Removing an element of the list.\<close>

lemma remove_list:
  assumes "buf_list st b (as @ x # bs)"
  shows "\<exists>st' b'. textBuf_remove st (Some b) (Some x) = Some (OK0, st', Some b')
    \<and> buf_list st' b' (as @ bs) \<and> lines_of st' (as @ bs) = lines_of st as @ lines_of st bs
    \<and> {p. cells st' p \<noteq> None} = {p. cells st p \<noteq> None} - {x}"
proof -
  have inv: "seg (cells st) None (as @ x # bs) None" "distinct (as @ x # bs)"
    and sz: "tb_size b = int (length (as @ x # bs))"
    and ends: "tb_head b = first_or (as @ x # bs) None" "tb_tail b = last_or None (as @ x # bs)"
    and bound: "\<forall>p. cells st p \<noteq> None \<longrightarrow> p < fresh st"
    using assms by (auto simp: buf_list_def)
  obtain e where e: "cells st x = Some e" "el_prev e = last_or None as" "el_next e = first_or bs None"
    using seg_at [OF inv(1)] by blast
  note defs = textBuf_remove_def heap_defs buf_list_def seg_append lines_of_def line_of_Some
  show ?thesis
  proof (cases as rule: rev_cases)
    case as: Nil
    show ?thesis
    proof (cases bs)
      case Nil
      then show ?thesis using as inv sz ends bound e by (auto simp: defs)
    next
      case (Cons y ys)
      then obtain ey where "cells st y = Some ey" "el_prev ey = Some x" "el_next ey = first_or ys None"
        using inv as by (auto simp: seg_append)
      then show ?thesis
        using as Cons inv sz ends bound e by (auto simp: defs)
    qed
  next
    case (snoc zs z)
    then obtain ez where ez: "cells st z = Some ez" "el_prev ez = last_or None zs" "el_next ez = Some x"
      using inv by (auto simp: seg_append)
    have nh: "tb_head b \<noteq> Some x" using ends inv(2) snoc by (cases zs) auto
    show ?thesis
    proof (cases bs)
      case Nil
      then show ?thesis
        using snoc ez nh inv sz ends bound e by (auto simp: defs)
    next
      case (Cons y ys)
      then obtain ey where "cells st y = Some ey" "el_prev ey = Some x" "el_next ey = first_or ys None"
        using inv snoc by (auto simp: seg_append)
      then show ?thesis
        using snoc Cons ez nh inv sz ends bound e by (auto simp: defs)
    qed
  qed
qed

text \<open>Looking an element up by its position.\<close>

lemma walk_list:
  "seg (cells st) p xs None \<Longrightarrow> walk st (first_or xs None) n = Some (if n < length xs then Some (xs ! n) else None)"
proof (induction xs arbitrary: p n)
  case (Cons x xs)
  then show ?case by (cases n) auto
qed simp

lemma by_pos_list:
  "buf_list st b xs \<Longrightarrow> textBuf_get_element_by_pos st (Some b) pos =
     Some (if 0 \<le> pos \<and> pos < int (length xs) then Some (xs ! nat pos) else None)"
  by (auto simp: textBuf_get_element_by_pos_def buf_list_def walk_list)

text \<open>Destroying frees exactly the elements of the list.\<close>

lemma destroy_list:
  "buf_list st b xs \<Longrightarrow> \<exists>st'. textBuf_destroy st b = Some st'
     \<and> {p. cells st' p \<noteq> None} = {p. cells st p \<noteq> None} - set xs"
proof (induction xs arbitrary: st b rule: rev_induct)
  case Nil
  then show ?case by (subst textBuf_destroy.simps) (simp add: buf_list_def)
next
  case (snoc x xs)
  then obtain st' b' where rem: "textBuf_remove st (Some b) (Some x) = Some (OK0, st', Some b')"
    "buf_list st' b' xs" "{p. cells st' p \<noteq> None} = {p. cells st p \<noteq> None} - {x}"
    using remove_list [of st b xs x "[]"] by auto
  obtain st'' where "textBuf_destroy st' b' = Some st''"
    "{p. cells st'' p \<noteq> None} = {p. cells st' p \<noteq> None} - set xs"
    using snoc.IH [OF rem(2)] by blast
  moreover have "tb_size b > 0" "tb_tail b = Some x"
    using snoc.prems by (auto simp: buf_list_def)
  ultimately show ?case
    using rem by (subst textBuf_destroy.simps) auto
qed


section \<open>The contract for clients\<close>

text \<open>
  What the clients of a text buffer rely on: it holds a list of lines, \<^verbatim>\<open>push\<close> appends one,
  \<^verbatim>\<open>pop\<close> drops the oldest, and \<^verbatim>\<open>len\<close> counts them.
\<close>

definition last_n :: "nat \<Rightarrow> 'a list \<Rightarrow> 'a list" where
  "last_n n xs = drop (length xs - n) xs"

lemma last_n_all: "length xs \<le> n \<Longrightarrow> last_n n xs = xs"
  by (simp add: last_n_def)

lemma length_last_n: "length (last_n n xs) = min n (length xs)"
  by (simp add: last_n_def)

lemma last_n_snoc: "last_n n (last_n n xs @ ys) = last_n n (xs @ ys)"
  by (cases "length xs \<le> n") (auto simp: last_n_def add.commute)

locale line_queue =
  fixes push :: "'s \<Rightarrow> string \<times> int \<Rightarrow> 's option"
    and pop :: "'s \<Rightarrow> 's option"
    and len :: "'s \<Rightarrow> int"
    and holds :: "'s \<Rightarrow> (string \<times> int) list \<Rightarrow> bool"
  assumes len: "holds s ls \<Longrightarrow> len s = int (length ls)"
    and push: "holds s ls \<Longrightarrow> \<exists>s'. push s l = Some s' \<and> holds s' (ls @ [l])"
    and pop: "holds s (l # ls) \<Longrightarrow> \<exists>s'. pop s = Some s' \<and> holds s' ls"
begin

definition bounded_push :: "int \<Rightarrow> 's \<Rightarrow> string \<times> int \<Rightarrow> 's option" where
  "bounded_push cap s l = do {
     s1 \<leftarrow> (if len s + 1 > cap then pop s else Some s);
     push s1 l }"

fun push_all :: "int \<Rightarrow> 's \<Rightarrow> (string \<times> int) list \<Rightarrow> 's option" where
  "push_all cap s [] = Some s"
| "push_all cap s (l # ls) = do { s' \<leftarrow> bounded_push cap s l; push_all cap s' ls }"

lemma bounded_push_last:
  assumes "holds s ls" "1 \<le> cap" "int (length ls) \<le> cap"
  shows "\<exists>s'. bounded_push cap s l = Some s' \<and> holds s' (last_n (nat cap) (ls @ [l]))"
proof (cases "len s + 1 > cap")
  case False
  then show ?thesis
    using push [OF assms(1)] assms len [OF assms(1)] by (auto simp: bounded_push_def last_n_all)
next
  case True
  then have full: "int (length ls) = cap" using assms len by force
  then obtain x xs where ls: "ls = x # xs" using assms(2) by (cases ls) auto
  then obtain s1 where s1: "pop s = Some s1" "holds s1 xs" using pop assms(1) by blast
  have "last_n (nat cap) (ls @ [l]) = xs @ [l]"
  proof -
    have "nat cap = Suc (length xs)" using full by (simp add: ls)
    then show ?thesis by (simp add: last_n_def ls)
  qed
  then show ?thesis using push [OF s1(2)] s1 True by (auto simp: bounded_push_def)
qed

lemma push_all_last:
  "\<lbrakk>holds s ls; 1 \<le> cap; int (length ls) \<le> cap\<rbrakk> \<Longrightarrow>
   \<exists>s'. push_all cap s ms = Some s' \<and> holds s' (last_n (nat cap) (ls @ ms))"
proof (induction ms arbitrary: s ls)
  case Nil
  then show ?case by (simp add: last_n_all)
next
  case (Cons m ms)
  obtain s1 where s1: "bounded_push cap s m = Some s1" "holds s1 (last_n (nat cap) (ls @ [m]))"
    using bounded_push_last Cons.prems by blast
  have "int (length (last_n (nat cap) (ls @ [m]))) \<le> cap"
    using Cons.prems by (simp add: length_last_n)
  from Cons.IH [OF s1(2) Cons.prems(2) this] s1(1) show ?case
    using last_n_snoc [of "nat cap" "ls @ [m]" ms] by auto
qed

end

text \<open>The buffer model fulfils the contract.\<close>

definition buf_holds :: "buf_state \<Rightarrow> (string \<times> int) list \<Rightarrow> bool" where
  "buf_holds sb ls \<longleftrightarrow> (\<exists>xs. buf_list (fst sb) (snd sb) xs \<and> lines_of (fst sb) xs = ls)"

definition buf_push :: "buf_state \<Rightarrow> string \<times> int \<Rightarrow> buf_state option" where
  "buf_push sb l = textBuf_emplace_back (fst sb) (snd sb) (fst l) (snd l)"

definition buf_pop :: "buf_state \<Rightarrow> buf_state option" where
  "buf_pop sb = textBuf_pop_head (fst sb) (snd sb)"

lemma buf_push_holds: "buf_holds sb ls \<Longrightarrow> \<exists>sb'. buf_push sb l = Some sb' \<and> buf_holds sb' (ls @ [l])"
proof -
  assume "buf_holds sb ls"
  then obtain xs where xs: "buf_list (fst sb) (snd sb) xs" "lines_of (fst sb) xs = ls"
    by (auto simp: buf_holds_def)
  obtain st b where sb: "sb = (st, b)" by (cases sb)
  obtain t i where l: "l = (t, i)" by (cases l)
  show ?thesis
  proof (cases xs rule: rev_cases)
    case Nil
    then have b: "buf_list st b []" "tb_size b = 0" using xs sb by (auto simp: buf_list_def)
    obtain st' b' where ins: "textBuf_ins_next st (Some b) None (Some t) i = Some (OK0, st', Some b')"
      and new: "buf_list st' b' [fresh st]" "lines_of st' [fresh st] = [(t, i)]"
      using ins_empty [OF b(1)] by blast
    have "buf_push sb l = Some (st', b')"
      by (simp add: buf_push_def textBuf_emplace_back_def sb l b ins)
    moreover have "ls = []" using xs Nil by (simp add: lines_of_def)
    ultimately show ?thesis using new l by (auto simp: buf_holds_def)
  next
    case (snoc ys y)
    then have b: "buf_list st b (ys @ [y])" "tb_size b \<noteq> 0" "tb_tail b = Some y"
      using xs sb by (auto simp: buf_list_def)
    obtain st' b' where ins: "textBuf_ins_next st (Some b) (Some y) (Some t) i = Some (OK0, st', Some b')"
      and new: "buf_list st' b' (ys @ [y, fresh st])"
        "lines_of st' (ys @ [y, fresh st]) = lines_of st (ys @ [y]) @ [(t, i)]"
      using ins_next_list [OF b(1)] by (fastforce simp: lines_of_def)
    have "buf_push sb l = Some (st', b')"
      by (simp add: buf_push_def textBuf_emplace_back_def sb l b ins)
    moreover have "ls = lines_of st (ys @ [y])" using xs snoc sb by simp
    ultimately show ?thesis using new l by (auto simp: buf_holds_def)
  qed
qed

lemma buf_pop_holds: "buf_holds sb (l # ls) \<Longrightarrow> \<exists>sb'. buf_pop sb = Some sb' \<and> buf_holds sb' ls"
proof -
  assume "buf_holds sb (l # ls)"
  then obtain x xs where xs: "buf_list (fst sb) (snd sb) (x # xs)" "lines_of (fst sb) xs = ls"
    by (auto simp: buf_holds_def lines_of_def lines_in_def)
  then have hd: "tb_head (snd sb) = Some x" by (simp add: buf_list_def)
  obtain st' b' where rem: "textBuf_remove (fst sb) (Some (snd sb)) (Some x) = Some (OK0, st', Some b')"
    and new: "buf_list st' b' xs" "lines_of st' xs = lines_of (fst sb) xs"
    using remove_list [of "fst sb" "snd sb" "[]" x xs] xs by (auto simp: lines_of_def)
  have "buf_pop sb = Some (st', b')"
    by (simp add: buf_pop_def textBuf_pop_head_def hd rem)
  with new xs show ?thesis by (auto simp: buf_holds_def)
qed

lemma buf_len_holds: "buf_holds sb ls \<Longrightarrow> tb_size (snd sb) = int (length ls)"
  by (auto simp: buf_holds_def buf_list_def lines_of_def lines_in_def)

interpretation tbuf: line_queue buf_push buf_pop "\<lambda>sb. tb_size (snd sb)" buf_holds
  by unfold_locales (fact buf_len_holds, fact buf_push_holds, fact buf_pop_holds)

section \<open>The scrollback of a window\<close>

text \<open>
  What \<^verbatim>\<open>vprinttext\<close> (\<^verbatim>\<open>src/src/printtext.cpp\<close>) does with the text buffer of its window:
  when the buffer is full it drops the oldest line, then it appends the new one.  The limit is
  the setting \<^verbatim>\<open>textbuffer_size_absolute\<close>.
\<close>

definition vprinttext_store :: "int \<Rightarrow> buf_state \<Rightarrow> string \<times> int \<Rightarrow> buf_state option" where
  "vprinttext_store limit sb line =
     (let tbszp1 = tb_size (snd sb) + 1 in do {
        sb1 \<leftarrow> (if tbszp1 > limit then textBuf_pop_head (fst sb) (snd sb) else Some sb);
        textBuf_emplace_back (fst sb1) (snd sb1) (fst line) (snd line) })"

fun print_lines :: "int \<Rightarrow> buf_state \<Rightarrow> (string \<times> int) list \<Rightarrow> buf_state option" where
  "print_lines limit sb [] = Some sb"
| "print_lines limit sb (l # ls) = do { sb' \<leftarrow> vprinttext_store limit sb l; print_lines limit sb' ls }"

lemma vprinttext_store_eq: "vprinttext_store limit sb l = tbuf.bounded_push limit sb l"
  by (simp add: vprinttext_store_def tbuf.bounded_push_def buf_pop_def buf_push_def)

lemma print_lines_eq: "print_lines limit sb ls = tbuf.push_all limit sb ls"
  by (induction ls arbitrary: sb) (simp_all add: vprinttext_store_eq)

definition empty_buffer :: buf_state where
  "empty_buffer = (\<lparr>cells = (\<lambda>_. None), fresh = 0\<rparr>, textBuf_new)"

lemma empty_buffer_list: "buf_list (fst empty_buffer) (snd empty_buffer) []"
  and empty_buffer_holds: "buf_holds empty_buffer []"
  by (auto simp: empty_buffer_def textBuf_new_def buf_holds_def buf_list_def lines_of_def)

text \<open>
  Property C14. The linked list operations implement list insertion and deletion: on a well-formed
  buffer, inserting behind or in front of an element and removing an element succeed, keep both
  link directions, the ends and the size consistent, and change the sequence of lines in exactly
  that place; a removed element is freed and nothing else is.
\<close>

theorem textbuf_list_ops:
  assumes "buf_list st b (as @ x # bs)"
  shows "(\<exists>st' b'. textBuf_ins_next st (Some b) (Some x) (Some t) i = Some (OK0, st', Some b')
      \<and> buf_list st' b' (as @ x # fresh st # bs)
      \<and> lines_of st' (as @ x # fresh st # bs) = lines_of st (as @ [x]) @ (t, i) # lines_of st bs)
    \<and> (\<exists>st' b'. textBuf_ins_prev st (Some b) (Some x) (Some t) i = Some (OK0, st', Some b')
      \<and> buf_list st' b' (as @ fresh st # x # bs)
      \<and> lines_of st' (as @ fresh st # x # bs) = lines_of st as @ (t, i) # lines_of st (x # bs))
    \<and> (\<exists>st' b'. textBuf_remove st (Some b) (Some x) = Some (OK0, st', Some b')
      \<and> buf_list st' b' (as @ bs) \<and> lines_of st' (as @ bs) = lines_of st as @ lines_of st bs
      \<and> {p. cells st' p \<noteq> None} = {p. cells st p \<noteq> None} - {x})"
  by (intro conjI ins_next_list [OF assms] ins_prev_list [OF assms] remove_list [OF assms])

theorem textbuf_list_ops_witness:
  "\<exists>st b. buf_list st b [0] \<and> (\<exists>st' b'. textBuf_remove st (Some b) (Some 0) = Some (OK0, st', Some b')
     \<and> buf_list st' b' [])"
proof -
  obtain st b where "buf_list st b [0]"
    using ins_empty [OF empty_buffer_list, of "''x''" 0] by (auto simp: empty_buffer_def)
  then show ?thesis
    using textbuf_list_ops [of st b "[]" 0 "[]" "''x''" 0, unfolded append_Nil] by blast
qed


text \<open>
  The element returned for a position is the one the position names, the null
  pointer outside the buffer, and destroying a buffer ends with every element of it freed and
  no other one touched, so nothing leaks and nothing is freed twice.
\<close>

theorem textbuf_lookup_destroy:
  assumes "buf_list st b xs"
  shows "textBuf_get_element_by_pos st (Some b) pos =
      Some (if 0 \<le> pos \<and> pos < int (length xs) then Some (xs ! nat pos) else None)
    \<and> (\<exists>st'. textBuf_destroy st b = Some st'
        \<and> {p. cells st' p \<noteq> None} = {p. cells st p \<noteq> None} - set xs)"
  using by_pos_list [OF assms] destroy_list [OF assms] by blast

theorem textbuf_lookup_destroy_witness:
  "textBuf_get_element_by_pos (fst empty_buffer) (Some (snd empty_buffer)) 0 = Some None"
  using textbuf_lookup_destroy [OF empty_buffer_list] by simp

text \<open>
  Property C15. The scrollback of a window is a bounded queue: whatever lines are printed into a
  window whose buffer is within the limit, every store succeeds and the buffer then holds
  exactly the last \<^verbatim>\<open>limit\<close> lines, in order.
\<close>

theorem scrollback_keeps_last_lines:
  assumes "buf_holds sb ls" "1 \<le> limit" "int (length ls) \<le> limit"
  shows "\<exists>sb'. print_lines limit sb ms = Some sb' \<and> buf_holds sb' (last_n (nat limit) (ls @ ms))"
  using tbuf.push_all_last [OF assms] by (simp add: print_lines_eq)

theorem scrollback_keeps_last_lines_witness:
  "\<exists>sb'. print_lines 2 empty_buffer [(''a'', 0), (''b'', 0), (''c'', 0)] = Some sb'
     \<and> buf_holds sb' [(''b'', 0), (''c'', 0)]"
  using scrollback_keeps_last_lines [OF empty_buffer_holds, of 2 "[(''a'', 0), (''b'', 0), (''c'', 0)]"]
  by (simp add: last_n_def)

end
