(* ===== verification/Message_Tags.thy ===== *)
theory Message_Tags
  imports Lib_Utils
begin

text \<open>
  IRCv3 message tags: \<^verbatim>\<open>src/src/messagetags.c\<close> and the message components of
  \<^verbatim>\<open>src/src/irc.h\<close>.

  A null pointer is \<^const>\<open>None\<close>.  \<^verbatim>\<open>msgtags_process\<close> reports through a boolean whether it
  printed the server time error; \<^verbatim>\<open>msgtags_handle_batch\<close> returns the batch and the message it
  hands to \<^verbatim>\<open>event_batch_add_irc_msgs\<close>.
\<close>

section \<open>Data\<close>

record irc_message_compo =
  account :: "string option"
  year :: int
  month :: int
  day :: int
  hour :: int
  minute :: int
  second :: int
  precision :: int
  prefix' :: "string option"
  command :: "string option"
  params :: "string option"

record messagetags =
  tg_account :: "string option"
  tg_batch :: "string option"
  tg_srv_time :: "string option"

definition tag_list :: "(string \<times> nat) list" where
  "tag_list = [(''account='', 8), (''batch='', 6), (''time='', 5)]"

section \<open>Extraction\<close>

text \<open>\<^const>\<open>None\<close>: the assertion that is not to be reached.\<close>

definition set_var :: "string \<Rightarrow> string \<Rightarrow> messagetags \<Rightarrow> messagetags option" where
  "set_var name val tags =
     (if strings_match name ''account='' then Some (tags\<lparr>tg_account := Some val\<rparr>)
      else if strings_match name ''batch='' then Some (tags\<lparr>tg_batch := Some val\<rparr>)
      else if strings_match name ''time='' then Some (tags\<lparr>tg_srv_time := Some val\<rparr>)
      else None)"

text \<open>The array \<^verbatim>\<open>tmp\<close> has 250 cells, one of them for the terminator.\<close>

definition tmp_size :: nat where "tmp_size = 250"

fun msgtags_loop :: "(string \<times> nat) list \<Rightarrow> string \<Rightarrow> messagetags \<Rightarrow> messagetags option" where
  "msgtags_loop [] str tags = Some tags"
| "msgtags_loop ((name, len) # ptr) str tags =
     (case strstr str name of
        None \<Rightarrow> msgtags_loop ptr str tags
      | Some n \<Rightarrow>
          (let cp = drop (n + len) str; num = strcspn cp '';''
           in if num = 0 \<or> num \<ge> tmp_size then msgtags_loop ptr str tags
              else do { tags' \<leftarrow> set_var name (take num cp) tags; msgtags_loop ptr str tags' }))"

definition no_tags :: messagetags where
  "no_tags = \<lparr>tg_account = None, tg_batch = None, tg_srv_time = None\<rparr>"

definition msgtags_get :: "string \<Rightarrow> messagetags option" where
  "msgtags_get str = msgtags_loop tag_list str no_tags"

section \<open>Batches\<close>

definition msgtags_handle_batch :: "string \<Rightarrow> messagetags \<Rightarrow> (string \<times> string) option" where
  "msgtags_handle_batch pmsg tags =
     (case tg_batch tags of
        None \<Rightarrow> None
      | Some batch \<Rightarrow>
          Some (batch,
            case (tg_account tags, tg_srv_time tags) of
              (Some a, Some t) \<Rightarrow> ''@account='' @ a @ '';time='' @ t @ '' '' @ pmsg
            | (Some a, None) \<Rightarrow> ''@account='' @ a @ '' '' @ pmsg
            | (None, Some t) \<Rightarrow> ''@time='' @ t @ '' '' @ pmsg
            | (None, None) \<Rightarrow> pmsg))"

section \<open>Storing the tags in the message\<close>

definition no_change :: "string option \<Rightarrow> string option \<Rightarrow> bool" where
  "no_change str1 str2 =
     (case (str1, str2) of (Some a, Some b) \<Rightarrow> strcmp a b = 0 | _ \<Rightarrow> False)"

text \<open>
  The conversion \<^verbatim>\<open>%d\<close> of \<^verbatim>\<open>sscanf\<close>: white space, an optional sign, decimal digits.
  A value that \<^verbatim>\<open>int\<close> cannot hold is outside what C defines; here it wraps as with the
  supported C libraries.
\<close>

definition scan_d :: "string \<Rightarrow> (int \<times> string) option" where
  "scan_d s =
     (let t = dropWhile (\<lambda>c. isspace (code c)) s;
          neg = (t \<noteq> [] \<and> hd t = CHR ''-'');
          u = (if t \<noteq> [] \<and> (hd t = CHR ''-'' \<or> hd t = CHR ''+'') then tl t else t);
          ds = takeWhile (\<lambda>c. isdigit (code c)) u;
          v = int (digits_value 0 ds)
      in if ds = [] then None
         else Some (sint (word_of_int (if neg then - v else v) :: 32 word), drop (length ds) u))"

text \<open>
  A format of conversions \<^verbatim>\<open>%d\<close> that are each followed by one literal character; the
  result lists the values that were stored, in order.
\<close>

fun scan_fields :: "string \<Rightarrow> string \<Rightarrow> int list" where
  "scan_fields [] s = []"
| "scan_fields (lit # lits) s =
     (case scan_d s of
        None \<Rightarrow> []
      | Some (v, rest) \<Rightarrow>
          v # (case rest of [] \<Rightarrow> []
               | c # rest' \<Rightarrow> if c = lit then scan_fields lits rest' else []))"

definition time_literals :: string where "time_literals = ''--T::.Z''"

definition nth_or :: "int list \<Rightarrow> nat \<Rightarrow> int \<Rightarrow> int" where
  "nth_or vs i old = (if i < length vs then vs ! i else old)"

definition store_time :: "int list \<Rightarrow> irc_message_compo \<Rightarrow> irc_message_compo" where
  "store_time vs compo = compo\<lparr>
     year := nth_or vs 0 (year compo), month := nth_or vs 1 (month compo), day := nth_or vs 2 (day compo),
     hour := nth_or vs 3 (hour compo), minute := nth_or vs 4 (minute compo),
     second := nth_or vs 5 (second compo), precision := nth_or vs 6 (precision compo)\<rparr>"

definition msgtags_process :: "irc_message_compo \<Rightarrow> messagetags \<Rightarrow> irc_message_compo \<times> bool" where
  "msgtags_process compo tags =
     (let compo1 = (case tg_account tags of
          None \<Rightarrow> compo
        | Some a \<Rightarrow> if \<not> no_change (account compo) (Some a) then compo\<lparr>account := Some a\<rparr> else compo)
      in case tg_srv_time tags of
           None \<Rightarrow> (compo1, False)
         | Some t \<Rightarrow> (let vs = scan_fields time_literals t in (store_time vs compo1, length vs \<noteq> 7)))"

text \<open>\<^verbatim>\<open>has_server_time\<close> of \<^verbatim>\<open>src/src/irc.c\<close>; the argument may be the null pointer.\<close>

definition has_server_time :: "irc_message_compo option \<Rightarrow> bool" where
  "has_server_time compo =
     (case compo of None \<Rightarrow> False
      | Some c \<Rightarrow> year c \<noteq> -1 \<and> month c \<noteq> -1 \<and> day c \<noteq> -1 \<and> hour c \<noteq> -1
                \<and> minute c \<noteq> -1 \<and> second c \<noteq> -1 \<and> precision c \<noteq> -1)"

section \<open>Well-formed tag sections\<close>

text \<open>
  A tag section is a list of items joined by semicolons.  The code looks for a tag by its name
  anywhere in the text; it finds the item of that name when the name occurs in an item only as
  the item's beginning.
\<close>

fun join_tags :: "string list \<Rightarrow> string" where
  "join_tags [] = []"
| "join_tags [x] = x"
| "join_tags (x # y # ys) = x @ CHR '';'' # join_tags (y # ys)"

definition clean_for :: "string \<Rightarrow> string list \<Rightarrow> bool" where
  "clean_for name items \<longleftrightarrow> (\<forall>x\<in>set items. sublist name x \<longrightarrow> prefix name x)"

definition tag_value :: "string \<Rightarrow> string list \<Rightarrow> string option" where
  "tag_value name items =
     (case find (prefix name) items of
        None \<Rightarrow> None
      | Some x \<Rightarrow> let v = drop (length name) x in if v = [] \<or> length v \<ge> 250 then None else Some v)"

lemma strstr_0: "prefix p s \<Longrightarrow> strstr s p = Some 0"
  by (cases s) auto

lemma prefix_before:
  "\<lbrakk>prefix n (x @ c # rest); c \<notin> set n\<rbrakk> \<Longrightarrow> prefix n x"
  by (auto simp: prefix_append prefix_Cons)

lemma strstr_skip:
  "\<lbrakk>\<not> sublist n x; CHR '';'' \<notin> set n; n \<noteq> []\<rbrakk> \<Longrightarrow>
   strstr (x @ CHR '';'' # rest) n = map_option (\<lambda>k. length x + 1 + k) (strstr rest n)"
proof (induction x)
  case Nil
  have "\<not> prefix n (CHR '';'' # rest)" using Nil prefix_before [of n "[]" "CHR '';''" rest] by auto
  then show ?case by simp
next
  case (Cons a x)
  have "\<not> prefix n (a # x @ CHR '';'' # rest)"
    using Cons.prems prefix_before [of n "a # x" "CHR '';''" rest] prefix_imp_sublist by auto
  moreover have "\<not> sublist n x" using Cons.prems(1) by (simp add: sublist_Cons_right)
  ultimately show ?case
    using Cons.IH Cons.prems by (simp add: option.map_comp comp_def)
qed

lemma strstr_join:
  assumes "\<forall>x\<in>set items. CHR '';'' \<notin> set x" "CHR '';'' \<notin> set n" "n \<noteq> []" "clean_for n items"
  shows "map_option (\<lambda>k. takeWhile (\<lambda>c. c \<noteq> CHR '';'') (drop (k + length n) (join_tags items)))
      (strstr (join_tags items) n) = map_option (drop (length n)) (find (prefix n) items)"
  using assms
proof (induction items rule: join_tags.induct)
  case 1
  then show ?case by simp
next
  case (2 x)
  show ?case
  proof (cases "prefix n x")
    case True
    have "\<forall>c\<in>set (drop (length n) x). c \<noteq> CHR '';''" using 2 by (auto dest: in_set_dropD)
    then have "takeWhile (\<lambda>c. c \<noteq> CHR '';'') (drop (length n) x) = drop (length n) x"
      by (rule takeWhile_eq_self)
    then show ?thesis using True by (simp add: strstr_0)
  next
    case False
    then have "strstr x n = None"
      using 2(4) strstr_Some_iff_sublist [of x n] by (cases "strstr x n") (auto simp: clean_for_def)
    then show ?thesis using False by simp
  qed
next
  case (3 x y ys)
  show ?case
  proof (cases "prefix n x")
    case True
    then have "drop (length n) (x @ CHR '';'' # join_tags (y # ys))
        = drop (length n) x @ CHR '';'' # join_tags (y # ys)" by (auto dest: prefix_length_le)
    moreover have "\<forall>c\<in>set (drop (length n) x). c \<noteq> CHR '';''" using 3 by (auto dest: in_set_dropD)
    ultimately have "takeWhile (\<lambda>c. c \<noteq> CHR '';'') (drop (length n) (join_tags (x # y # ys))) = drop (length n) x"
      using takeWhile_append_stop [of "drop (length n) x" "\<lambda>c. c \<noteq> CHR '';''" "CHR '';''"] by simp
    moreover have "strstr (join_tags (x # y # ys)) n = Some 0" using True by (intro strstr_0) simp
    ultimately show ?thesis using True by simp
  next
    case False
    then have "\<not> sublist n x" using 3(5) by (auto simp: clean_for_def)
    then have skip: "strstr (join_tags (x # y # ys)) n
        = map_option (\<lambda>k. length x + 1 + k) (strstr (join_tags (y # ys)) n)"
      using strstr_skip [of n x "join_tags (y # ys)"] 3 by simp
    have "clean_for n (y # ys)" using 3(5) by (simp add: clean_for_def)
    then have IH: "map_option (\<lambda>k. takeWhile (\<lambda>c. c \<noteq> CHR '';'') (drop (k + length n) (join_tags (y # ys))))
      (strstr (join_tags (y # ys)) n) = map_option (drop (length n)) (find (prefix n) (y # ys))"
      using 3 by simp
    have "drop (length x + 1 + k + length n) (join_tags (x # y # ys)) = drop (k + length n) (join_tags (y # ys))" for k
      by simp
    then show ?thesis using False IH by (simp only: skip option.map_comp comp_def find.simps if_False)
  qed
qed

definition with_tag :: "string option \<Rightarrow> string option \<Rightarrow> string option" where
  "with_tag found old = (case found of None \<Rightarrow> old | Some v \<Rightarrow> Some v)"

lemma take_strcspn_semi: "take (strcspn s '';'') s = takeWhile (\<lambda>c. c \<noteq> CHR '';'') s"
  and strcspn_semi: "strcspn s '';'' = length (takeWhile (\<lambda>c. c \<noteq> CHR '';'') s)"
  by (simp add: take_strcspn) (simp add: strcspn_def)

lemma strstr_at: "\<lbrakk>n \<noteq> []; hd n \<noteq> CHR ''@''\<rbrakk> \<Longrightarrow> strstr (CHR ''@'' # s) n = map_option Suc (strstr s n)"
  by (cases n) auto

text \<open>One round of the loop on a clean tag section.\<close>

lemma msgtags_round:
  assumes "\<forall>x\<in>set items. CHR '';'' \<notin> set x" "CHR '';'' \<notin> set n" "n \<noteq> []" "clean_for n items"
    and "hd n \<noteq> CHR ''@''"
  shows "msgtags_loop ((n, length n) # ptr) (CHR ''@'' # join_tags items) tags =
    (case tag_value n items of None \<Rightarrow> msgtags_loop ptr (CHR ''@'' # join_tags items) tags
     | Some v \<Rightarrow> do { tags' \<leftarrow> set_var n v tags; msgtags_loop ptr (CHR ''@'' # join_tags items) tags' })"
proof (cases "strstr (join_tags items) n")
  case None
  then have "find (prefix n) items = None" using strstr_join [OF assms(1-4)] by simp
  with None show ?thesis using strstr_at [OF assms(3,5)] by (simp add: tag_value_def)
next
  case (Some k)
  let ?tw = "takeWhile (\<lambda>c. c \<noteq> CHR '';'') (drop (k + length n) (join_tags items))"
  obtain x where x: "find (prefix n) items = Some x" "?tw = drop (length n) x"
    using strstr_join [OF assms(1-4)] Some by (cases "find (prefix n) items") auto
  have "take (strcspn (drop (k + length n) (join_tags items)) '';'') (drop (k + length n) (join_tags items))
      = drop (length n) x"
    and "strcspn (drop (k + length n) (join_tags items)) '';'' = length (drop (length n) x)"
    using x(2) by (simp only: take_strcspn_semi, simp only: strcspn_semi)
  with Some x(1) show ?thesis
    using strstr_at [OF assms(3,5)] by (auto simp: tag_value_def Let_def tmp_size_def)
qed

lemma msgtags_get_items:
  assumes "\<forall>x\<in>set items. CHR '';'' \<notin> set x"
    and "clean_for ''account='' items" "clean_for ''batch='' items" "clean_for ''time='' items"
  shows "msgtags_get (CHR ''@'' # join_tags items) =
    Some \<lparr>tg_account = tag_value ''account='' items, tg_batch = tag_value ''batch='' items,
          tg_srv_time = tag_value ''time='' items\<rparr>"
proof -
  let ?s = "CHR ''@'' # join_tags items"
  have "msgtags_loop ((''account='', 8) # ptr) ?s tags = (case tag_value ''account='' items of
      None \<Rightarrow> msgtags_loop ptr ?s tags | Some v \<Rightarrow> do { tags' \<leftarrow> set_var ''account='' v tags; msgtags_loop ptr ?s tags' })"
    "msgtags_loop ((''batch='', 6) # ptr) ?s tags = (case tag_value ''batch='' items of
      None \<Rightarrow> msgtags_loop ptr ?s tags | Some v \<Rightarrow> do { tags' \<leftarrow> set_var ''batch='' v tags; msgtags_loop ptr ?s tags' })"
    "msgtags_loop ((''time='', 5) # ptr) ?s tags = (case tag_value ''time='' items of
      None \<Rightarrow> msgtags_loop ptr ?s tags | Some v \<Rightarrow> do { tags' \<leftarrow> set_var ''time='' v tags; msgtags_loop ptr ?s tags' })"
    for ptr tags
    using msgtags_round [OF assms(1) _ _ assms(2), of ptr tags] msgtags_round [OF assms(1) _ _ assms(3), of ptr tags]
      msgtags_round [OF assms(1) _ _ assms(4), of ptr tags]
    by (simp_all add: eval_nat_numeral del: msgtags_loop.simps)
  then show ?thesis
    by (simp add: msgtags_get_def tag_list_def set_var_def no_tags_def del: msgtags_loop.simps(2) split: option.splits)
qed

text \<open>The assertion in \<^verbatim>\<open>set_var\<close> is never reached.\<close>

lemma msgtags_get_total: "\<exists>tags. msgtags_get str = Some tags"
  by (auto simp: msgtags_get_def tag_list_def set_var_def Let_def split: option.splits)

section \<open>Server times\<close>

definition digits :: "string \<Rightarrow> bool" where
  "digits ds \<longleftrightarrow> ds \<noteq> [] \<and> (\<forall>c\<in>set ds. isdigit (code c)) \<and> digits_value 0 ds < 2 ^ 31"

lemma digit_not_space: "isdigit n \<Longrightarrow> \<not> isspace n"
  by (auto simp: isdigit_def isspace_def)

lemma sint32_id: "\<lbrakk>0 \<le> v; v < 2 ^ 31\<rbrakk> \<Longrightarrow> sint (word_of_int v :: 32 word) = v"
  by (simp add: int_word_sint)

lemma scan_d_digits:
  assumes "digits ds" "rest = [] \<or> \<not> isdigit (code (hd rest))"
  shows "scan_d (ds @ rest) = Some (int (digits_value 0 ds), rest)"
proof -
  obtain d ds' where d: "ds = d # ds'" and dd: "isdigit (code d)"
    using assms(1) by (cases ds) (auto simp: digits_def)
  have tw: "takeWhile (\<lambda>c. isdigit (code c)) (ds @ rest) = ds"
  proof (cases rest)
    case Nil
    then show ?thesis using assms(1) by (simp add: digits_def takeWhile_eq_self)
  next
    case (Cons r rs)
    then show ?thesis using assms takeWhile_append_stop [of ds "\<lambda>c. isdigit (code c)" r rs]
      by (simp add: digits_def)
  qed
  have sp: "dropWhile (\<lambda>c. isspace (code c)) (ds @ rest) = ds @ rest"
    using d dd digit_not_space by simp
  have sign: "d \<noteq> CHR ''-''" "d \<noteq> CHR ''+''" using dd by (auto simp: isdigit_def code_def)
  have "sint (word_of_int (int (digits_value 0 ds)) :: 32 word) = int (digits_value 0 ds)"
    using assms(1) by (intro sint32_id) (auto simp: digits_def)
  then show ?thesis
    using tw sp sign d by (simp add: scan_d_def Let_def)
qed

lemma scan_fields_step:
  assumes "digits ds" "\<not> isdigit (code lit)"
  shows "scan_fields (lit # lits) (ds @ lit # rest) = int (digits_value 0 ds) # scan_fields lits rest"
  using scan_d_digits [OF assms(1), of "lit # rest"] assms(2) by simp

text \<open>
  Property C11. A tag section (behind its @ sign) whose known names occur only as the beginning of an item gives
  exactly the values of the account, batch and time items, absent when the item is missing, has
  no value or a value of 250 or more characters.
\<close>

theorem msgtags_get_wellformed:
  assumes "\<forall>x\<in>set items. CHR '';'' \<notin> set x"
    and "clean_for ''account='' items" "clean_for ''batch='' items" "clean_for ''time='' items"
  shows "msgtags_get (CHR ''@'' # join_tags items) =
    Some \<lparr>tg_account = tag_value ''account='' items, tg_batch = tag_value ''batch='' items,
          tg_srv_time = tag_value ''time='' items\<rparr>"
  by (rule msgtags_get_items [OF assms])

theorem msgtags_get_wellformed_witness:
  "msgtags_get ''@label=7;account=joe;time=x'' =
     Some \<lparr>tg_account = Some ''joe'', tg_batch = None, tg_srv_time = Some ''x''\<rparr>"
proof -
  have "clean_for n [''label=7'', ''account=joe'', ''time=x'']"
    if "n \<in> {''account='', ''batch='', ''time=''}" for n
    using that by (auto simp: clean_for_def sublist_Cons_right)
  then show ?thesis
    using msgtags_get_wellformed [of "[''label=7'', ''account=joe'', ''time=x'']"]
    by (simp add: tag_value_def Let_def)
qed

text \<open>
  The search does not respect item boundaries: a tag that merely ends in a known
  name, such as a client-only tag of a vendor, is taken for the known tag.
\<close>

theorem msgtags_name_by_substring:
  "msgtags_get ''@+vendor/account=mallory'' =
     Some \<lparr>tg_account = Some ''mallory'', tg_batch = None, tg_srv_time = None\<rparr>"
  by code_simp

text \<open>
  A server time in the format of the IRCv3 specification sets every component of
  the message to the number written there, no error is printed, and the message counts as having
  a server time.
\<close>

theorem server_time_stored:
  assumes "tg_srv_time tags = Some (y @ ''-'' @ mo @ ''-'' @ d @ ''T'' @ h @ '':'' @ mi @ '':'' @ s @ ''.'' @ ms @ ''Z'')"
    and "digits y" "digits mo" "digits d" "digits h" "digits mi" "digits s" "digits ms"
  shows "\<exists>c. msgtags_process compo tags = (c, False)
    \<and> year c = int (digits_value 0 y) \<and> month c = int (digits_value 0 mo) \<and> day c = int (digits_value 0 d)
    \<and> hour c = int (digits_value 0 h) \<and> minute c = int (digits_value 0 mi) \<and> second c = int (digits_value 0 s)
    \<and> precision c = int (digits_value 0 ms) \<and> has_server_time (Some c)"
proof -
  have nd: "\<not> isdigit (code CHR ''-'')" "\<not> isdigit (code CHR ''T'')" "\<not> isdigit (code CHR '':'')"
    "\<not> isdigit (code CHR ''.'')" "\<not> isdigit (code CHR ''Z'')"
    by (simp_all add: isdigit_def code_def)
  have "scan_fields time_literals (y @ ''-'' @ mo @ ''-'' @ d @ ''T'' @ h @ '':'' @ mi @ '':'' @ s @ ''.'' @ ms @ ''Z'')
      = map (int \<circ> digits_value 0) [y, mo, d, h, mi, s, ms]"
    using assms(2-) nd by (simp add: time_literals_def scan_fields_step del: scan_fields.simps(2))
  then show ?thesis
    using assms(1)
    by (simp add: msgtags_process_def store_time_def nth_or_def has_server_time_def Let_def split: option.split)
qed

theorem server_time_stored_witness:
  "year (fst (msgtags_process
      \<lparr>account = None, year = -1, month = -1, day = -1, hour = -1, minute = -1, second = -1,
       precision = -1, prefix' = None, command = None, params = None\<rparr>
      \<lparr>tg_account = None, tg_batch = None, tg_srv_time = Some ''2023-05-08T19:02:07.250Z''\<rparr>)) = 2023"
  using server_time_stored [of "\<lparr>tg_account = None, tg_batch = None, tg_srv_time = Some ''2023-05-08T19:02:07.250Z''\<rparr>"
      "''2023''" "''05''" "''08''" "''19''" "''02''" "''07''" "''250''"
      "\<lparr>account = None, year = -1, month = -1, day = -1, hour = -1, minute = -1, second = -1,
       precision = -1, prefix' = None, command = None, params = None\<rparr>"]
  by (auto simp: digits_def isdigit_def code_def)

end
