(* ===== verification/Irc_Tables.thy ===== *)
theory Irc_Tables
  imports Message_Tags
begin

text \<open>
  The event tables of \<^verbatim>\<open>src/src/irc.c\<close> and the library searches on them.
\<close>

section \<open>The event tables\<close>

datatype to_window = STATUS_WINDOW | ACTIVE_WINDOW | NO_WINDOW

record numeric_events_tag =
  numeric_event :: string
  official_name :: string
  ne_window :: to_window
  ext_bits :: nat
  event_handler :: "string option"

abbreviation NE :: "string \<Rightarrow> string \<Rightarrow> to_window \<Rightarrow> nat \<Rightarrow> string option \<Rightarrow> numeric_events_tag" where
  "NE k name w bits h \<equiv>
     \<lparr>numeric_event = k, official_name = name, ne_window = w, ext_bits = bits, event_handler = h\<rparr>"

text \<open>A handler is given by the name of its C function; no handler is the null pointer.\<close>

definition normal_events :: "(string \<times> string) list" where
  "normal_events = [
     (''ACCOUNT'', ''event_account''),
     (''AUTHENTICATE'', ''event_authenticate''),
     (''AWAY'', ''event_away''),
     (''BATCH'', ''event_batch''),
     (''CAP'', ''event_cap''),
     (''CHGHOST'', ''event_chghost''),
     (''ERROR'', ''event_error''),
     (''INVITE'', ''event_invite''),
     (''JOIN'', ''event_join''),
     (''KICK'', ''event_kick''),
     (''MODE'', ''event_mode''),
     (''NICK'', ''event_nick''),
     (''NOTICE'', ''event_notice''),
     (''PART'', ''event_part''),
     (''PING'', ''event_ping''),
     (''PONG'', ''event_pong''),
     (''PRIVMSG'', ''event_privmsg''),
     (''QUIT'', ''event_quit''),
     (''SQUIT'', ''event_noop''),
     (''TOPIC'', ''event_topic_chg''),
     (''WALLOPS'', ''event_wallops'')]"

definition numeric_events :: "numeric_events_tag list" where
  "numeric_events = [
     NE ''001'' ''RPL_WELCOME'' NO_WINDOW 0 (Some ''event_welcome''),
     NE ''002'' ''RPL_YOURHOST'' STATUS_WINDOW 1 None,
     NE ''003'' ''RPL_CREATED'' STATUS_WINDOW 1 None,
     NE ''004'' ''RPL_MYINFO'' STATUS_WINDOW 1 None,
     NE ''005'' ''RPL_ISUPPORT'' NO_WINDOW 0 (Some ''event_serverFeatures''),
     NE ''020'' [] STATUS_WINDOW 1 None,
     NE ''042'' [] NO_WINDOW 0 (Some ''event_allaround_extract_remove_colon''),
     NE ''211'' ''RPL_STATSLINKINFO'' ACTIVE_WINDOW 1 None,
     NE ''212'' ''RPL_STATSCOMMANDS'' ACTIVE_WINDOW 1 None,
     NE ''216'' ''RPL_STATSKLINE'' NO_WINDOW 0 (Some ''event_statskline''),
     NE ''219'' ''RPL_ENDOFSTATS'' ACTIVE_WINDOW 2 None,
     NE ''221'' ''RPL_UMODEIS'' NO_WINDOW 0 (Some ''event_userModeIs''),
     NE ''232'' [] ACTIVE_WINDOW 1 None,
     NE ''234'' ''RPL_SERVLIST'' NO_WINDOW 0 (Some ''event_servlist''),
     NE ''235'' ''RPL_SERVLISTEND'' NO_WINDOW 0 (Some ''event_servlistEnd''),
     NE ''242'' ''RPL_STATSUPTIME'' ACTIVE_WINDOW 1 None,
     NE ''249'' ''RPL_STATSDEBUG'' ACTIVE_WINDOW 2 None,
     NE ''250'' [] STATUS_WINDOW 1 None,
     NE ''251'' ''RPL_LUSERCLIENT'' STATUS_WINDOW 1 None,
     NE ''252'' ''RPL_LUSEROP'' NO_WINDOW 0 (Some ''event_allaround_extract_remove_colon''),
     NE ''253'' ''RPL_LUSERUNKNOWN'' NO_WINDOW 0 (Some ''event_allaround_extract_remove_colon''),
     NE ''254'' ''RPL_LUSERCHANNELS'' NO_WINDOW 0 (Some ''event_allaround_extract_remove_colon''),
     NE ''255'' ''RPL_LUSERME'' STATUS_WINDOW 1 None,
     NE ''256'' ''RPL_ADMINME'' ACTIVE_WINDOW 2 None,
     NE ''257'' ''RPL_ADMINLOC1'' ACTIVE_WINDOW 1 None,
     NE ''258'' ''RPL_ADMINLOC2'' ACTIVE_WINDOW 1 None,
     NE ''259'' ''RPL_ADMINEMAIL'' ACTIVE_WINDOW 1 None,
     NE ''263'' ''RPL_TRYAGAIN'' ACTIVE_WINDOW 2 None,
     NE ''265'' [] NO_WINDOW 0 (Some ''event_local_and_global_users''),
     NE ''266'' [] NO_WINDOW 0 (Some ''event_local_and_global_users''),
     NE ''275'' [] NO_WINDOW 0 (Some ''event_whois_ssl''),
     NE ''276'' [] NO_WINDOW 0 (Some ''event_whois_cert''),
     NE ''301'' ''RPL_AWAY'' NO_WINDOW 0 (Some ''event_whois_away''),
     NE ''302'' ''RPL_USERHOST'' NO_WINDOW 0 (Some ''event_userhost''),
     NE ''303'' ''RPL_ISON'' ACTIVE_WINDOW 1 None,
     NE ''305'' ''RPL_UNAWAY'' NO_WINDOW 0 (Some ''event_unaway''),
     NE ''306'' ''RPL_NOWAWAY'' NO_WINDOW 0 (Some ''event_nowAway''),
     NE ''307'' [] NO_WINDOW 0 (Some ''event_whois_service''),
     NE ''308'' [] ACTIVE_WINDOW 1 None,
     NE ''309'' [] ACTIVE_WINDOW 1 None,
     NE ''310'' [] NO_WINDOW 0 (Some ''event_whois_modes''),
     NE ''311'' ''RPL_WHOISUSER'' NO_WINDOW 0 (Some ''event_whois_user''),
     NE ''312'' ''RPL_WHOISSERVER'' NO_WINDOW 0 (Some ''event_whois_server''),
     NE ''313'' ''RPL_WHOISOPERATOR'' NO_WINDOW 0 (Some ''event_whois_ircOp''),
     NE ''314'' ''RPL_WHOWASUSER'' NO_WINDOW 0 (Some ''event_whois_user''),
     NE ''315'' ''RPL_ENDOFWHO'' STATUS_WINDOW 2 None,
     NE ''317'' ''RPL_WHOISIDLE'' NO_WINDOW 0 (Some ''event_whois_idle''),
     NE ''318'' ''RPL_ENDOFWHOIS'' ACTIVE_WINDOW 2 None,
     NE ''319'' ''RPL_WHOISCHANNELS'' NO_WINDOW 0 (Some ''event_whois_channels''),
     NE ''320'' [] NO_WINDOW 0 (Some ''event_whois_ssl''),
     NE ''321'' ''RPL_LISTSTART'' NO_WINDOW 0 (Some ''event_liststart''),
     NE ''322'' ''RPL_LIST'' NO_WINDOW 0 (Some ''event_list''),
     NE ''323'' ''RPL_LISTEND'' STATUS_WINDOW 1 None,
     NE ''324'' ''RPL_CHANNELMODEIS'' NO_WINDOW 0 (Some ''event_channelModeIs''),
     NE ''328'' [] NO_WINDOW 0 (Some ''event_chan_hp''),
     NE ''329'' [] NO_WINDOW 0 (Some ''event_channelCreatedWhen''),
     NE ''330'' [] NO_WINDOW 0 (Some ''event_whois_acc''),
     NE ''331'' ''RPL_NOTOPIC'' ACTIVE_WINDOW 2 None,
     NE ''332'' ''RPL_TOPIC'' NO_WINDOW 0 (Some ''event_topic''),
     NE ''333'' [] NO_WINDOW 0 (Some ''event_topic_creator''),
     NE ''334'' [] STATUS_WINDOW 1 None,
     NE ''335'' ''RPL_WHOISBOT'' NO_WINDOW 0 (Some ''event_whois_bot''),
     NE ''338'' [] NO_WINDOW 0 (Some ''event_whois_host''),
     NE ''341'' ''RPL_INVITING'' NO_WINDOW 0 (Some ''event_inviting''),
     NE ''346'' ''RPL_INVITELIST'' NO_WINDOW 0 (Some ''event_inviteList''),
     NE ''347'' ''RPL_ENDOFINVITELIST'' NO_WINDOW 0 (Some ''event_eof_inviteList''),
     NE ''348'' ''RPL_EXCEPTLIST'' NO_WINDOW 0 (Some ''event_exceptList''),
     NE ''349'' ''RPL_ENDOFEXCEPTLIST'' NO_WINDOW 0 (Some ''event_eof_exceptList''),
     NE ''352'' ''RPL_WHOREPLY'' NO_WINDOW 0 (Some ''event_whoReply''),
     NE ''353'' ''RPL_NAMREPLY'' NO_WINDOW 0 (Some ''event_names''),
     NE ''366'' ''RPL_ENDOFNAMES'' NO_WINDOW 0 (Some ''event_eof_names''),
     NE ''367'' ''RPL_BANLIST'' NO_WINDOW 0 (Some ''event_banlist''),
     NE ''368'' ''RPL_ENDOFBANLIST'' NO_WINDOW 0 (Some ''event_eof_banlist''),
     NE ''369'' ''RPL_ENDOFWHOWAS'' ACTIVE_WINDOW 2 None,
     NE ''371'' ''RPL_INFO'' ACTIVE_WINDOW 1 None,
     NE ''372'' ''RPL_MOTD'' NO_WINDOW 0 (Some ''event_motd''),
     NE ''374'' ''RPL_ENDOFINFO'' ACTIVE_WINDOW 1 None,
     NE ''375'' ''RPL_MOTDSTART'' NO_WINDOW 0 (Some ''event_motd''),
     NE ''376'' ''RPL_ENDOFMOTD'' NO_WINDOW 0 (Some ''event_motd''),
     NE ''378'' [] NO_WINDOW 0 (Some ''event_whois_conn''),
     NE ''379'' [] NO_WINDOW 0 (Some ''event_whois_modes''),
     NE ''381'' ''RPL_YOUREOPER'' NO_WINDOW 0 (Some ''event_youAreOper''),
     NE ''396'' [] NO_WINDOW 0 (Some ''event_allaround_extract_remove_colon''),
     NE ''401'' ''ERR_NOSUCHNICK'' ACTIVE_WINDOW 2 None,
     NE ''402'' ''ERR_NOSUCHSERVER'' ACTIVE_WINDOW 2 None,
     NE ''403'' ''ERR_NOSUCHCHANNEL'' ACTIVE_WINDOW 2 None,
     NE ''404'' ''ERR_CANNOTSENDTOCHAN'' ACTIVE_WINDOW 2 None,
     NE ''405'' ''ERR_TOOMANYCHANNELS'' ACTIVE_WINDOW 2 None,
     NE ''406'' ''ERR_WASNOSUCHNICK'' ACTIVE_WINDOW 2 None,
     NE ''407'' ''ERR_TOOMANYTARGETS'' ACTIVE_WINDOW 2 None,
     NE ''408'' ''ERR_NOSUCHSERVICE'' ACTIVE_WINDOW 2 None,
     NE ''412'' ''ERR_NOTEXTTOSEND'' ACTIVE_WINDOW 1 None,
     NE ''413'' ''ERR_NOTOPLEVEL'' ACTIVE_WINDOW 2 None,
     NE ''414'' ''ERR_WILDTOPLEVEL'' ACTIVE_WINDOW 2 None,
     NE ''415'' ''ERR_BADMASK'' ACTIVE_WINDOW 2 None,
     NE ''416'' ''ERR_'' ACTIVE_WINDOW 2 None,
     NE ''421'' ''ERR_UNKNOWNCOMMAND'' ACTIVE_WINDOW 2 None,
     NE ''422'' ''ERR_NOMOTD'' STATUS_WINDOW 1 None,
     NE ''432'' ''ERR_ERRONEUSNICKNAME'' ACTIVE_WINDOW 2 None,
     NE ''433'' ''ERR_NICKNAMEINUSE'' NO_WINDOW 0 (Some ''event_nicknameInUse''),
     NE ''435'' ''ERR_'' ACTIVE_WINDOW 3 None,
     NE ''437'' ''ERR_UNAVAILRESOURCE'' ACTIVE_WINDOW 2 None,
     NE ''439'' [] STATUS_WINDOW 1 None,
     NE ''441'' ''ERR_USERNOTINCHANNEL'' ACTIVE_WINDOW 3 None,
     NE ''442'' ''ERR_NOTONCHANNEL'' ACTIVE_WINDOW 2 None,
     NE ''443'' ''ERR_USERONCHANNEL'' ACTIVE_WINDOW 3 None,
     NE ''444'' ''ERR_NOLOGIN'' NO_WINDOW 0 (Some ''event_allaround_extract_find_colon''),
     NE ''447'' [] ACTIVE_WINDOW 1 None,
     NE ''451'' ''ERR_NOTREGISTERED'' STATUS_WINDOW 1 None,
     NE ''461'' ''ERR_NEEDMOREPARAMS'' ACTIVE_WINDOW 2 None,
     NE ''462'' ''ERR_ALREADYREGISTRED'' ACTIVE_WINDOW 1 None,
     NE ''464'' ''ERR_PASSWDMISMATCH'' ACTIVE_WINDOW 1 None,
     NE ''465'' ''ERR_YOUREBANNEDCREEP'' STATUS_WINDOW 1 None,
     NE ''466'' ''ERR_YOUWILLBEBANNED'' NO_WINDOW 0 (Some ''event_allaround_extract_find_colon''),
     NE ''467'' ''ERR_KEYSET'' ACTIVE_WINDOW 2 None,
     NE ''468'' ''ERR_INVALIDUSERNAME'' NO_WINDOW 0 (Some ''event_invalidUsername''),
     NE ''470'' [] NO_WINDOW 0 (Some ''event_channel_forward''),
     NE ''471'' ''ERR_CHANNELISFULL'' ACTIVE_WINDOW 2 None,
     NE ''472'' ''ERR_UNKNOWNMODE'' ACTIVE_WINDOW 2 None,
     NE ''473'' ''ERR_INVITEONLYCHAN'' ACTIVE_WINDOW 2 None,
     NE ''474'' ''ERR_BANNEDFROMCHAN'' ACTIVE_WINDOW 2 None,
     NE ''475'' ''ERR_BADCHANNELKEY'' ACTIVE_WINDOW 2 None,
     NE ''477'' ''ERR_NOCHANMODES'' ACTIVE_WINDOW 2 None,
     NE ''479'' ''ERR_'' ACTIVE_WINDOW 2 None,
     NE ''481'' ''ERR_NOPRIVILEGES'' ACTIVE_WINDOW 1 None,
     NE ''482'' ''ERR_CHANOPRIVSNEEDED'' ACTIVE_WINDOW 2 None,
     NE ''484'' ''ERR_RESTRICTED'' NO_WINDOW 0 (Some ''event_allaround_extract_find_colon''),
     NE ''486'' ''ERR_'' ACTIVE_WINDOW 2 None,
     NE ''487'' ''ERR_'' ACTIVE_WINDOW 1 None,
     NE ''491'' ''ERR_NOOPERHOST'' ACTIVE_WINDOW 1 None,
     NE ''492'' ''ERR_NOSERVICEHOST'' ACTIVE_WINDOW 2 None,
     NE ''493'' ''ERR_'' ACTIVE_WINDOW 1 None,
     NE ''500'' ''ERR_'' ACTIVE_WINDOW 1 None,
     NE ''501'' ''ERR_UMODEUNKNOWNFLAG'' ACTIVE_WINDOW 1 None,
     NE ''502'' ''ERR_USERSDONTMATCH'' ACTIVE_WINDOW 1 None,
     NE ''520'' [] ACTIVE_WINDOW 2 None,
     NE ''531'' ''ERR_'' ACTIVE_WINDOW 2 None,
     NE ''615'' [] NO_WINDOW 0 (Some ''event_whois_modes''),
     NE ''616'' [] NO_WINDOW 0 (Some ''event_whois_host''),
     NE ''671'' [] NO_WINDOW 0 (Some ''event_whois_ssl''),
     NE ''696'' ''ERR_'' ACTIVE_WINDOW 4 None,
     NE ''698'' ''ERR_'' ACTIVE_WINDOW 4 None,
     NE ''716'' ''ERR_'' ACTIVE_WINDOW 2 None,
     NE ''717'' ''ERR_'' ACTIVE_WINDOW 2 None,
     NE ''728'' [] NO_WINDOW 0 (Some ''event_quietlist''),
     NE ''729'' [] NO_WINDOW 0 (Some ''event_eof_quietlist''),
     NE ''742'' ''ERR_'' ACTIVE_WINDOW 4 None,
     NE ''900'' ''RPL_LOGGEDIN'' STATUS_WINDOW 3 None,
     NE ''901'' ''RPL_LOGGEDOUT'' STATUS_WINDOW 2 None,
     NE ''902'' ''ERR_NICKLOCKED'' NO_WINDOW 0 (Some ''handle_sasl_auth_fail''),
     NE ''903'' ''RPL_SASLSUCCESS'' NO_WINDOW 0 (Some ''sasl_auth_success''),
     NE ''904'' ''ERR_SASLFAIL'' NO_WINDOW 0 (Some ''handle_sasl_auth_fail''),
     NE ''905'' ''ERR_SASLTOOLONG'' NO_WINDOW 0 (Some ''handle_sasl_auth_fail''),
     NE ''906'' ''ERR_SASLABORTED'' STATUS_WINDOW 1 None,
     NE ''907'' ''ERR_SASLALREADY'' NO_WINDOW 0 (Some ''handle_sasl_auth_fail''),
     NE ''908'' ''RPL_SASLMECHS'' NO_WINDOW 0 (Some ''handle_sasl_auth_fail'')]"

section \<open>Searching the numeric events\<close>

definition cmp_fn :: "numeric_events_tag \<Rightarrow> numeric_events_tag \<Rightarrow> int" where
  "cmp_fn evt1 evt2 = strcmp (numeric_event evt1) (numeric_event evt2)"

text \<open>
  The library functions: \<^verbatim>\<open>qsort\<close> returns the table in the order of the comparison (the keys
  are distinct, so there is only one such order), \<^verbatim>\<open>bsearch\<close> halves the interval
  \<^verbatim>\<open>[l, u)\<close>.
\<close>

fun insert_by :: "('a \<Rightarrow> 'a \<Rightarrow> int) \<Rightarrow> 'a \<Rightarrow> 'a list \<Rightarrow> 'a list" where
  "insert_by cmp x [] = [x]"
| "insert_by cmp x (y # ys) = (if cmp x y \<le> 0 then x # y # ys else y # insert_by cmp x ys)"

definition qsort :: "('a \<Rightarrow> 'a \<Rightarrow> int) \<Rightarrow> 'a list \<Rightarrow> 'a list" where
  "qsort cmp xs = foldr (insert_by cmp) xs []"

function bsearch :: "('a \<Rightarrow> int) \<Rightarrow> 'a list \<Rightarrow> nat \<Rightarrow> nat \<Rightarrow> 'a option" where
  "bsearch keycmp base l u =
     (if l < u \<and> u \<le> length base then
        (let idx = (l + u) div 2; c = keycmp (base ! idx)
         in if c < 0 then bsearch keycmp base l idx
            else if c > 0 then bsearch keycmp base (Suc idx) u
            else Some (base ! idx))
      else None)"
  by pat_completeness auto
termination by (relation "measure (\<lambda>(_, _, l, u). u - l)") auto

declare bsearch.simps [simp del]

text \<open>The table as \<^verbatim>\<open>irc_init\<close> leaves it.\<close>

definition numeric_events_sorted :: "numeric_events_tag list" where
  "numeric_events_sorted = qsort cmp_fn numeric_events"

section \<open>Lemmas: the tables\<close>

lemma bsearch_sound:
  assumes "sorted_wrt (\<lambda>a b. strcmp (f a) (f b) < 0) base" "u \<le> length base"
  shows "(case bsearch (\<lambda>e. strcmp key (f e)) base l u of
            Some e \<Rightarrow> e \<in> set base \<and> f e = key
          | None \<Rightarrow> \<forall>i. l \<le> i \<and> i < u \<longrightarrow> f (base ! i) \<noteq> key)"
  using assms
proof (induction "\<lambda>e. strcmp key (f e)" base l u rule: bsearch.induct)
  case (1 base l u)
  show ?case
  proof (cases "l < u")
    case False
    then show ?thesis by (subst bsearch.simps) auto
  next
    case True
    let ?m = "(l + u) div 2"
    have m: "l \<le> ?m" "?m < u" "?m < length base" using True 1 by auto
    have less: "strcmp (f (base ! i)) (f (base ! j)) < 0" if "i < j" "j < length base" for i j
      using 1(3) that by (simp add: sorted_wrt_iff_nth_less)
    consider "strcmp key (f (base ! ?m)) < 0" | "strcmp key (f (base ! ?m)) > 0" | "strcmp key (f (base ! ?m)) = 0"
      by linarith
    then show ?thesis
    proof cases
      case 1
      have "f (base ! i) \<noteq> key" if "?m \<le> i" "i < u" for i
      proof (cases "i = ?m")
        case True
        then show ?thesis using 1 by auto
      next
        case False
        then have "strcmp key (f (base ! i)) < 0"
          using that less [of ?m i] 1 strcmp_trans \<open>u \<le> length base\<close> by fastforce
        then show ?thesis by auto
      qed
      moreover have "bsearch (\<lambda>e. strcmp key (f e)) base l u = bsearch (\<lambda>e. strcmp key (f e)) base l ?m"
        using 1 True "1.prems" by (subst bsearch.simps) (simp add: Let_def)
      moreover have "case bsearch (\<lambda>e. strcmp key (f e)) base l ?m of Some e \<Rightarrow> e \<in> set base \<and> f e = key
          | None \<Rightarrow> \<forall>i. l \<le> i \<and> i < ?m \<longrightarrow> f (base ! i) \<noteq> key"
        using "1.hyps"(1) [OF _ refl refl 1 "1.prems"(1)] True "1.prems" m by simp
      ultimately show ?thesis by (auto split: option.splits) (metis not_le)
    next
      case 2
      then have gt: "strcmp (f (base ! ?m)) key < 0" by (simp add: strcmp_antisym)
      have "f (base ! i) \<noteq> key" if "l \<le> i" "i \<le> ?m" for i
      proof (cases "i = ?m")
        case True
        then show ?thesis using 2 by auto
      next
        case False
        then have "strcmp (f (base ! i)) key < 0"
          using that less [of i ?m] gt strcmp_trans m by fastforce
        then show ?thesis by auto
      qed
      moreover have "bsearch (\<lambda>e. strcmp key (f e)) base l u = bsearch (\<lambda>e. strcmp key (f e)) base (Suc ?m) u"
        using 2 True "1.prems" by (subst bsearch.simps) (simp add: Let_def)
      moreover have "case bsearch (\<lambda>e. strcmp key (f e)) base (Suc ?m) u of Some e \<Rightarrow> e \<in> set base \<and> f e = key
          | None \<Rightarrow> \<forall>i. Suc ?m \<le> i \<and> i < u \<longrightarrow> f (base ! i) \<noteq> key"
        using "1.hyps"(2) [OF _ refl refl _ 2 "1.prems"(1)] 2 True "1.prems" m by simp
      ultimately show ?thesis by (auto split: option.splits) (metis not_less_eq_eq)
    next
      case 3
      then show ?thesis using True "1.prems" m by (subst bsearch.simps) (simp add: strcmp_0_iff)
    qed
  qed
qed

fun ascending_by :: "('a \<Rightarrow> string) \<Rightarrow> 'a list \<Rightarrow> bool" where
  "ascending_by f (a # b # xs) = (strcmp (f a) (f b) < 0 \<and> ascending_by f (b # xs))"
| "ascending_by f _ = True"

lemma ascending_by_sorted: "ascending_by f xs \<Longrightarrow> sorted_wrt (\<lambda>a b. strcmp (f a) (f b) < 0) xs"
proof (induction f xs rule: ascending_by.induct)
  case (1 f a b xs)
  then show ?case using strcmp_trans by fastforce
qed auto

lemma sorted_key_unique:
  "\<lbrakk>sorted_wrt (\<lambda>a b. strcmp (f a) (f b) < 0) xs; e \<in> set xs; e' \<in> set xs; f e = f e'\<rbrakk> \<Longrightarrow> e = e'"
proof (induction xs)
  case (Cons a xs)
  then show ?case by (metis less_irrefl set_ConsD sorted_wrt.simps(2) strcmp_refl)
qed simp

lemma qsort_sorted:
  "ascending_by f xs \<Longrightarrow> qsort (\<lambda>a b. strcmp (f a) (f b)) xs = xs"
proof (induction f xs rule: ascending_by.induct)
  case (1 f a b xs)
  then show ?case by (simp add: qsort_def)
qed (auto simp: qsort_def)

lemma numeric_events_ascending: "ascending_by numeric_event numeric_events"
  by code_simp

lemma numeric_events_sorted_eq [code]: "numeric_events_sorted = numeric_events"
  using qsort_sorted [OF numeric_events_ascending]
  by (simp add: numeric_events_sorted_def cmp_fn_def [abs_def])

text \<open>An entry without a handler prints into a window, and no entry that prints is without words.\<close>

lemma numeric_events_windows:
  "\<forall>e\<in>set numeric_events. event_handler e = None \<longrightarrow> ne_window e \<noteq> NO_WINDOW \<and> 0 < ext_bits e"
  by code_simp

definition lookup_numeric :: "string \<Rightarrow> numeric_events_tag option" where
  "lookup_numeric key = find (\<lambda>e. numeric_event e = key) numeric_events"

lemma bsearch_numeric:
  "bsearch (\<lambda>evt. cmp_fn (NE key [] NO_WINDOW 0 None) evt) numeric_events_sorted 0 (length numeric_events_sorted)
     = lookup_numeric key"
proof -
  let ?b = "bsearch (\<lambda>e. strcmp key (numeric_event e)) numeric_events 0 (length numeric_events)"
  have sorted: "sorted_wrt (\<lambda>a b. strcmp (numeric_event a) (numeric_event b) < 0) numeric_events"
    by (rule ascending_by_sorted [OF numeric_events_ascending])
  note uniq = sorted_key_unique [OF sorted]
  have b: "(case ?b of Some e \<Rightarrow> e \<in> set numeric_events \<and> numeric_event e = key
      | None \<Rightarrow> \<forall>i. 0 \<le> i \<and> i < length numeric_events \<longrightarrow> numeric_event (numeric_events ! i) \<noteq> key)"
    by (rule bsearch_sound [OF sorted order_refl])
  have "?b = lookup_numeric key"
  proof (cases ?b)
    case None
    then have "\<forall>e\<in>set numeric_events. numeric_event e \<noteq> key" using b by (auto simp: in_set_conv_nth)
    then have "lookup_numeric key = None" by (simp add: lookup_numeric_def find_None_iff)
    with None show ?thesis by simp
  next
    case (Some e)
    then have e: "e \<in> set numeric_events" "numeric_event e = key" using b by auto
    then have "lookup_numeric key \<noteq> None" by (auto simp: lookup_numeric_def find_None_iff)
    then obtain e' where e': "lookup_numeric key = Some e'" by auto
    then have "e' \<in> set numeric_events" "numeric_event e' = key"
      by (auto simp: lookup_numeric_def find_Some_iff)
    then show ?thesis using uniq e e' Some by metis
  qed
  then show ?thesis by (simp add: numeric_events_sorted_eq cmp_fn_def)
qed

text \<open>Every entry is the one found by its own number.\<close>

lemma lookup_numeric_self:
  assumes "e \<in> set numeric_events"
  shows "lookup_numeric (numeric_event e) = Some e"
proof (cases "lookup_numeric (numeric_event e)")
  case None
  then show ?thesis using assms by (auto simp: lookup_numeric_def find_None_iff)
next
  case (Some e')
  then have "e' \<in> set numeric_events" "numeric_event e' = numeric_event e"
    by (auto simp: lookup_numeric_def find_Some_iff)
  then show ?thesis
    using sorted_key_unique [OF ascending_by_sorted [OF numeric_events_ascending]] assms Some by metis
qed

end
