(* ===== verification/Irc.thy ===== *)
theory Irc
  imports Irc_Tables Data_Classify
begin

text \<open>
  The IRC core: \<^verbatim>\<open>src/src/irc.c\<close>.  Received chunks are cut into protocol messages
  (\<^verbatim>\<open>irc_handle_interpret_events\<close>), each message is sorted into its components
  (\<^verbatim>\<open>SortMsgCompo\<close>) and routed to the handler of its command
  (\<^verbatim>\<open>irc_search_and_route_event\<close>).

  What a message makes the client do is a list of actions in the order in which they happen: a
  call of the handler function that the tables name (the handlers live in \<^verbatim>\<open>src/src/events\<close>
  and \<^verbatim>\<open>src/src/commands\<close>), a line printed to a window, a diagnostic, or a message stored in
  a batch.  An assertion that fails is the action \<^verbatim>\<open>Assert_not_reached\<close>.
\<close>

section \<open>Actions\<close>

datatype action =
    Event_handler string irc_message_compo
  | Print_msg to_window bool string
  | Feed_error nat
  | Unknown_normal irc_message_compo
  | Unknown_numeric irc_message_compo
  | Erroneous_event string
  | Tag_count_error
  | Unsupported_extension
  | Server_time_error
  | Batch_add string string
  | Feed_mismatch string
  | Request_disconnect
  | Assert_not_reached

section \<open>Printing the text of a message\<close>

text \<open>
  \<^verbatim>\<open>irc_extract_msg\<close>: the first \<^verbatim>\<open>ext_bits\<close> words of the parameters are dropped, a colon
  before the rest is removed.  The loop counts the tokens in \<^verbatim>\<open>i\<close>.
\<close>

function extract_loop :: "string \<Rightarrow> nat \<Rightarrow> nat \<Rightarrow> string option" where
  "extract_loop s i bits =
     (case strtok_r [CHR 0x0A] s of
        None \<Rightarrow> None
      | Some (token, rest) \<Rightarrow>
          if i = bits then
            (let token = (if token \<noteq> [] \<and> hd token = CHR '':'' then tl token else token)
             in if token \<noteq> [] then Some token else extract_loop rest (Suc i) bits)
          else extract_loop rest (Suc i) bits)"
  by pat_completeness auto
termination by (relation "measure (\<lambda>(s, _). length s)") (auto simp: strtok_r_shorter)

declare extract_loop.simps [simp del]

definition irc_extract_msg :: "irc_message_compo \<Rightarrow> to_window \<Rightarrow> nat \<Rightarrow> bool \<Rightarrow> action list" where
  "irc_extract_msg compo window bits is_error =
     (let (feeds, text) = (case params compo of None \<Rightarrow> (0, []) | Some p \<Rightarrow> strFeed p (int bits))
      in if feeds \<noteq> bits then [Feed_error bits]
         else (case extract_loop text 0 bits of
                 None \<Rightarrow> []
               | Some token \<Rightarrow> [Print_msg window is_error token]))"

section \<open>Sorting a message into its components\<close>

definition min_bytes :: nat where "min_bytes = 1"
definition max_bytes :: nat where "max_bytes = 900"

text \<open>The result: the actions, and unless the message ends here the components and \<^verbatim>\<open>bytes\<close>.\<close>

definition handle_extension :: "string \<Rightarrow> irc_message_compo \<Rightarrow> action list \<times> (irc_message_compo \<times> nat) option" where
  "handle_extension protocol_message compo =
     (let bytes = strcspn protocol_message '' ''
      in if bytes < min_bytes \<or> bytes > max_bytes then ([Tag_count_error], None)
         else case msgtags_get (take bytes protocol_message) of
           None \<Rightarrow> ([Assert_not_reached], None)
         | Some tags \<Rightarrow>
             if tg_account tags = None \<and> tg_batch tags = None \<and> tg_srv_time tags = None
             then ([Unsupported_extension], None)
             else if tg_batch tags \<noteq> None
             then (case msgtags_handle_batch (drop bytes protocol_message) tags of
                     None \<Rightarrow> ([], None)
                   | Some (batch, msg) \<Rightarrow> ([Batch_add batch msg], None))
             else (let (compo', time_error) = msgtags_process compo tags
                   in (if time_error then [Server_time_error] else [], Some (compo', bytes))))"

definition compo_init :: irc_message_compo where
  "compo_init = \<lparr>account = None, year = -1, month = -1, day = -1, hour = -1, minute = -1,
     second = -1, precision = -1, prefix' = None, command = None, params = None\<rparr>"

function compo_tokenize_loop :: "string \<Rightarrow> bool \<Rightarrow> nat \<Rightarrow> irc_message_compo \<Rightarrow> irc_message_compo option" where
  "compo_tokenize_loop str message_has_prefix loop_run compo =
     (case strtok_r [CHR 0x0A] str of
        None \<Rightarrow> Some compo
      | Some (token, rest) \<Rightarrow>
          if loop_run > 2 then None
          else (let compo' =
                  (if loop_run = 0 then
                     (if message_has_prefix then compo\<lparr>prefix' := Some token\<rparr>
                      else compo\<lparr>command := Some token\<rparr>)
                   else if loop_run = 1 then
                     (if message_has_prefix then compo\<lparr>command := Some token\<rparr>
                      else compo\<lparr>params := Some token\<rparr>)
                   else compo\<lparr>params := Some token\<rparr>)
                in if command compo' \<noteq> None \<and> params compo' \<noteq> None then Some compo'
                   else compo_tokenize_loop rest message_has_prefix (Suc loop_run) compo'))"
  by pat_completeness auto
termination by (relation "measure (\<lambda>(s, _). length s)") (auto simp: strtok_r_shorter)

declare compo_tokenize_loop.simps [simp del]

definition compo_tokenize :: "string \<Rightarrow> bool \<Rightarrow> irc_message_compo \<Rightarrow> irc_message_compo option" where
  "compo_tokenize str message_has_prefix compo = compo_tokenize_loop str message_has_prefix 0 compo"

text \<open>The part of \<^verbatim>\<open>SortMsgCompo\<close> behind the tags; the blanks before \<^verbatim>\<open>cp\<close> are skipped.\<close>

definition sort_rest :: "action list \<Rightarrow> irc_message_compo \<Rightarrow> string \<Rightarrow> action list \<times> irc_message_compo option" where
  "sort_rest acts compo cp =
     (let message_has_prefix = (cp \<noteq> [] \<and> hd cp = CHR '':'');
          requested_feeds = (if message_has_prefix then 2 else 1);
          (feeds, remaining_data) = strFeed cp (int requested_feeds)
      in if feeds \<noteq> requested_feeds \<and> strstr remaining_data (CHR 0x0A # ''AWAY'') = None
         then (acts @ [Feed_mismatch remaining_data], None)
         else (case compo_tokenize remaining_data message_has_prefix compo of
                 None \<Rightarrow> (acts @ [Assert_not_reached], None)
               | Some compo' \<Rightarrow>
                   if command compo' = None \<or> (params compo' = None \<and> command compo' \<noteq> Some ''AWAY'')
                   then (acts, None) else (acts, Some compo')))"

definition SortMsgCompo :: "string \<Rightarrow> action list \<times> irc_message_compo option" where
  "SortMsgCompo protocol_message =
     (let (acts, ext) = (if protocol_message \<noteq> [] \<and> hd protocol_message = CHR ''@''
                         then handle_extension protocol_message compo_init
                         else ([], Some (compo_init, 0)))
      in case ext of
           None \<Rightarrow> (acts, None)
         | Some (compo, bytes) \<Rightarrow>
             sort_rest acts compo (dropWhile (\<lambda>c. c = CHR '' '') (drop bytes protocol_message)))"

section \<open>Routing\<close>

text \<open>
  A command that is the null pointer cannot occur here (\<^verbatim>\<open>SortMsgCompo\<close> returns none); it
  would be the empty string.  The result is the action when the event is known.
\<close>

definition cmd :: "irc_message_compo \<Rightarrow> string" where
  "cmd compo = (case command compo of None \<Rightarrow> [] | Some c \<Rightarrow> c)"

fun normal_loop :: "(string \<times> string) list \<Rightarrow> irc_message_compo \<Rightarrow> action list option" where
  "normal_loop [] compo = None"
| "normal_loop ((ev, handler) # sp) compo =
     (if strings_match ev (cmd compo) then Some [Event_handler handler compo] else normal_loop sp compo)"

definition handle_normal_event :: "irc_message_compo \<Rightarrow> action list option" where
  "handle_normal_event compo = normal_loop normal_events compo"

definition handle_numeric_event :: "irc_message_compo \<Rightarrow> action list option" where
  "handle_numeric_event compo =
     (case bsearch (\<lambda>evt. cmp_fn (NE (cmd compo) [] NO_WINDOW 0 None) evt) numeric_events_sorted
             0 (length numeric_events_sorted) of
        None \<Rightarrow> None
      | Some evt \<Rightarrow>
          Some (case event_handler evt of
                  Some h \<Rightarrow> [Event_handler h compo]
                | None \<Rightarrow>
                    if ne_window evt = STATUS_WINDOW then
                      irc_extract_msg compo STATUS_WINDOW (ext_bits evt) (strncmp_eq (official_name evt) ''ERR_'' 4)
                    else if ne_window evt = ACTIVE_WINDOW then
                      irc_extract_msg compo ACTIVE_WINDOW (ext_bits evt) (strncmp_eq (official_name evt) ''ERR_'' 4)
                    else [Assert_not_reached]))"

definition irc_search_and_route_event :: "irc_message_compo \<Rightarrow> action list" where
  "irc_search_and_route_event compo =
     (if is_alphabetic (command compo) then
        (case handle_normal_event compo of Some acts \<Rightarrow> acts | None \<Rightarrow> [Unknown_normal compo])
      else if is_numeric (command compo) \<and> length (cmd compo) = 3 then
        (case handle_numeric_event compo of Some acts \<Rightarrow> acts | None \<Rightarrow> [Unknown_numeric compo])
      else [Erroneous_event (cmd compo)])"

definition ProcessProtoMsg :: "string \<Rightarrow> action list" where
  "ProcessProtoMsg token =
     (let (acts, compo) = SortMsgCompo token
      in case compo of None \<Rightarrow> acts | Some c \<Rightarrow> acts @ irc_search_and_route_event c)"

definition irc_process_proto_msg :: "string \<Rightarrow> action list" where
  "irc_process_proto_msg msg = ProcessProtoMsg msg"

section \<open>From received chunks to messages\<close>

datatype message_concat_state = CONCAT_BUFFER_IS_EMPTY | CONCAT_BUFFER_CONTAIN_DATA

record concat_buffer =
  message_concat :: "string option"
  concat_state :: message_concat_state

definition get_last_token :: "string \<Rightarrow> string option" where
  "get_last_token buffer =
     (case strrchr buffer CHR 0x0A of None \<Rightarrow> None | Some n \<Rightarrow> Some (drop (Suc n) buffer))"

definition is_terminated_recvchunk :: "char \<Rightarrow> bool" where
  "is_terminated_recvchunk c \<longleftrightarrow> c = CHR 0x0D \<or> c = CHR 0x0A"

definition separators :: string where "separators = [CHR 0x0D, CHR 0x0A]"

text \<open>
  The loop over the tokens.  The result is \<^const>\<open>None\<close> if the code would pass the null pointer
  to \<^verbatim>\<open>realloc_strcat\<close>; otherwise the messages that were processed, in order, and the state.
\<close>

function interpret_loop :: "string \<Rightarrow> nat \<Rightarrow> string option \<Rightarrow> concat_buffer \<Rightarrow> (string list \<times> concat_buffer) option" where
  "interpret_loop cp loop_count last_token st =
     (case strtok_r separators cp of
        None \<Rightarrow> Some ([], st)
      | Some (token, rest) \<Rightarrow>
          if last_token \<noteq> None \<and> concat_state st = CONCAT_BUFFER_IS_EMPTY \<and> Some token = last_token
          then Some ([], \<lparr>message_concat = last_token, concat_state = CONCAT_BUFFER_CONTAIN_DATA\<rparr>)
          else if loop_count = 0 \<and> concat_state st = CONCAT_BUFFER_CONTAIN_DATA then
            do { dest \<leftarrow> message_concat st;
                 tok \<leftarrow> realloc_strcat dest token;
                 (msgs, st') \<leftarrow> interpret_loop rest (Suc loop_count) last_token
                    \<lparr>message_concat = Some tok, concat_state = CONCAT_BUFFER_IS_EMPTY\<rparr>;
                 Some (tok # msgs, st') }
          else do { (msgs, st') \<leftarrow> interpret_loop rest (Suc loop_count) last_token st;
                    Some (token # msgs, st') })"
  by pat_completeness auto
termination by (relation "measure (\<lambda>(s, _). length s)") (auto simp: strtok_r_shorter)

declare interpret_loop.simps [simp del]

text \<open>
  One received chunk: the messages handed to \<^verbatim>\<open>ProcessProtoMsg\<close>, whether a disconnect was
  requested, and the new state.
\<close>

definition interpret_chunk :: "string \<Rightarrow> concat_buffer \<Rightarrow> (string list \<times> bool \<times> concat_buffer) option" where
  "interpret_chunk recvbuffer st =
     (if strings_match recvbuffer [] \<or> strpbrk recvbuffer separators = None then Some ([], False, st)
      else do {
        (msgs0, st0) \<leftarrow>
          (if concat_state st = CONCAT_BUFFER_CONTAIN_DATA \<and> take 2 recvbuffer = [CHR 0x0D, CHR 0x0A]
           then do { m \<leftarrow> message_concat st;
                     Some ([m], \<lparr>message_concat = None, concat_state = CONCAT_BUFFER_IS_EMPTY\<rparr>) }
           else Some ([], st));
        let terminated = is_terminated_recvchunk (last recvbuffer);
            last_token = (if terminated then None else get_last_token recvbuffer)
        in if \<not> terminated \<and> last_token = None then Some (msgs0, True, st0)
           else do { (msgs, st') \<leftarrow> interpret_loop recvbuffer 0 last_token st0;
                     Some (msgs0 @ msgs, False, st') } })"

definition irc_handle_interpret_events :: "string \<Rightarrow> concat_buffer \<Rightarrow> (action list \<times> concat_buffer) option" where
  "irc_handle_interpret_events recvbuffer st = do {
     (msgs, disconnect, st') \<leftarrow> interpret_chunk recvbuffer st;
     Some (concat (map ProcessProtoMsg msgs) @ (if disconnect then [Request_disconnect] else []), st') }"

section \<open>Start and end of the module\<close>

record irc_globals =
  g_alt_nick_tested :: bool
  g_am_irc_op :: bool
  g_is_away :: bool
  g_received_welcome :: bool
  g_my_nickname :: "string option"
  g_server_hostname :: "string option"
  g_user_modes :: string

text \<open>\<^const>\<open>None\<close>: the program ends with an error.\<close>

definition irc_set_my_nickname :: "string option \<Rightarrow> irc_globals \<Rightarrow> irc_globals option" where
  "irc_set_my_nickname nick g =
     (case nick of None \<Rightarrow> None
      | Some n \<Rightarrow> if strings_match n [] then None else Some (g\<lparr>g_my_nickname := Some n\<rparr>))"

definition irc_set_server_hostname :: "string option \<Rightarrow> irc_globals \<Rightarrow> irc_globals option" where
  "irc_set_server_hostname srv_host g =
     (case srv_host of None \<Rightarrow> None
      | Some h \<Rightarrow> if strings_match h [] then None else Some (g\<lparr>g_server_hostname := Some h\<rparr>))"

definition irc_init :: "string option \<Rightarrow> string option \<Rightarrow> string option \<Rightarrow> irc_globals \<Rightarrow> irc_globals option" where
  "irc_init cmdline_nick config_nick g_user g =
     (if cmdline_nick \<noteq> None then irc_set_my_nickname cmdline_nick g
      else if config_nick \<noteq> None \<and> config_nick \<noteq> Some [] then irc_set_my_nickname config_nick g
      else if g_user \<noteq> None \<and> g_user \<noteq> Some [] then irc_set_my_nickname g_user g
      else None)"

definition irc_deinit :: "irc_globals \<Rightarrow> irc_globals" where
  "irc_deinit g = \<lparr>g_alt_nick_tested = False, g_am_irc_op = False, g_is_away = False,
     g_received_welcome = False, g_my_nickname = None, g_server_hostname = None, g_user_modes = []\<rparr>"

section \<open>Lemmas: dispatch\<close>

lemma handle_numeric_event_eq:
  "handle_numeric_event compo =
     (case lookup_numeric (cmd compo) of
        None \<Rightarrow> None
      | Some evt \<Rightarrow> Some (case event_handler evt of
          Some h \<Rightarrow> [Event_handler h compo]
        | None \<Rightarrow> irc_extract_msg compo (ne_window evt) (ext_bits evt) (strncmp_eq (official_name evt) ''ERR_'' 4)))"
proof (cases "lookup_numeric (cmd compo)")
  case None
  then show ?thesis by (simp add: handle_numeric_event_def bsearch_numeric)
next
  case (Some evt)
  then have "evt \<in> set numeric_events" by (auto simp: lookup_numeric_def find_Some_iff)
  then have "event_handler evt = None \<Longrightarrow> ne_window evt = STATUS_WINDOW \<or> ne_window evt = ACTIVE_WINDOW"
    using numeric_events_windows by (cases "ne_window evt") auto
  with Some show ?thesis
    by (auto simp: handle_numeric_event_def bsearch_numeric split: option.splits)
qed

lemma normal_loop_eq:
  "normal_loop tbl compo = map_option (\<lambda>h. [Event_handler h compo]) (map_of tbl (cmd compo))"
  by (induction tbl) auto

section \<open>Lemmas: sorting\<close>

abbreviation lf :: char where "lf \<equiv> CHR 0x0A"

definition wordy :: "string \<Rightarrow> bool" where
  "wordy w \<longleftrightarrow> w \<noteq> [] \<and> CHR '' '' \<notin> set w \<and> lf \<notin> set w"

text \<open>A message line as the protocol writes it.\<close>

definition message_line :: "string option \<Rightarrow> string \<Rightarrow> string \<Rightarrow> string" where
  "message_line pfx c p = (case pfx of None \<Rightarrow> [] | Some x \<Rightarrow> CHR '':'' # x @ '' '') @ c @ '' '' @ p"

lemma lf_words: "wordy w \<Longrightarrow> set w \<inter> set [lf] = {}"
  by (auto simp: wordy_def)

lemma feed_message:
  assumes "CHR '' '' \<notin> set c"
  shows "strFeed (c @ CHR '' '' # p) 1 = (1, c @ lf # p)"
    and "CHR '' '' \<notin> set x \<Longrightarrow> strFeed (x @ CHR '' '' # c @ CHR '' '' # p) 2 = (2, x @ lf # c @ lf # p)"
  using assms
  by (simp_all add: strFeed_eq count_list_append count_list_0_iff feed_spec_prefix feed_char_def eval_nat_numeral)

lemma tokenize_message:
  assumes "wordy c" "p \<noteq> []" "lf \<notin> set p" "command compo = None" "params compo = None"
  shows "compo_tokenize (c @ lf # p) False compo = Some (compo\<lparr>command := Some c, params := Some p\<rparr>)"
    and "wordy x \<Longrightarrow> compo_tokenize (x @ lf # c @ lf # p) True compo
      = Some (compo\<lparr>prefix' := Some x, command := Some c, params := Some p\<rparr>)"
proof -
  have c: "strtok_r [lf] (c @ lf # p) = Some (c, p)" and p: "strtok_r [lf] p = Some (p, [])"
    using strtok_r_word [of c "[lf]"] strtok_r_word [of p "[lf]"] assms lf_words by (auto simp: wordy_def)
  have 1: "compo_tokenize_loop p b (Suc n) cc = Some (cc\<lparr>params := Some p\<rparr>)"
    if "n = 1 \<or> n = 0 \<and> \<not> b" "command cc \<noteq> None" for b n cc
    using that p by (subst compo_tokenize_loop.simps) auto
  show "compo_tokenize (c @ lf # p) False compo = Some (compo\<lparr>command := Some c, params := Some p\<rparr>)"
    using c assms 1 [of 0 False] by (simp add: compo_tokenize_def) (subst compo_tokenize_loop.simps, simp)
  show "compo_tokenize (x @ lf # c @ lf # p) True compo
      = Some (compo\<lparr>prefix' := Some x, command := Some c, params := Some p\<rparr>)" if "wordy x"
  proof -
    have x: "strtok_r [lf] (x @ lf # c @ lf # p) = Some (x, c @ lf # p)"
      using strtok_r_word [of x "[lf]"] that lf_words by (auto simp: wordy_def)
    have "compo_tokenize_loop (c @ lf # p) True (Suc 0) cc = Some (cc\<lparr>command := Some c, params := Some p\<rparr>)"
      if "params cc = None" for cc
      using that c 1 [of 1 True] by (subst compo_tokenize_loop.simps) simp
    then show ?thesis
      using x assms by (simp add: compo_tokenize_def) (subst compo_tokenize_loop.simps, simp)
  qed
qed

definition message_parts :: "string option \<Rightarrow> string \<Rightarrow> string \<Rightarrow> bool" where
  "message_parts pfx c p \<longleftrightarrow>
     (case pfx of None \<Rightarrow> hd c \<noteq> CHR '':'' \<and> hd c \<noteq> CHR ''@'' | Some x \<Rightarrow> CHR '' '' \<notin> set x \<and> lf \<notin> set x)
     \<and> wordy c \<and> p \<noteq> [] \<and> lf \<notin> set p"

lemma sort_rest_line:
  assumes "message_parts pfx c p" "command compo = None" "params compo = None" "prefix' compo = None"
  shows "sort_rest acts compo (message_line pfx c p) =
    (acts, Some (compo\<lparr>prefix' := map_option (\<lambda>x. CHR '':'' # x) pfx, command := Some c, params := Some p\<rparr>))"
proof (cases pfx)
  case None
  then show ?thesis
    using assms feed_message(1) [of c p] tokenize_message(1) [of c p compo]
    by (auto simp: sort_rest_def message_line_def message_parts_def wordy_def Let_def)
next
  case (Some x)
  have "wordy (CHR '':'' # x)" using assms Some by (auto simp: wordy_def message_parts_def)
  then show ?thesis
    using Some assms feed_message(2) [of c "CHR '':'' # x" p] tokenize_message(2) [of c p compo "CHR '':'' # x"]
    by (auto simp: sort_rest_def message_line_def message_parts_def wordy_def Let_def)
qed

lemma line_start:
  "message_parts pfx c p \<Longrightarrow> dropWhile (\<lambda>c. c = CHR '' '') (message_line pfx c p) = message_line pfx c p"
  by (cases pfx; cases c) (auto simp: message_parts_def message_line_def wordy_def)

lemma line_hd:
  "message_parts pfx c p \<Longrightarrow> message_line pfx c p \<noteq> [] \<and> hd (message_line pfx c p) \<noteq> CHR ''@''"
  by (cases pfx; cases c) (auto simp: message_parts_def message_line_def wordy_def)

lemma SortMsgCompo_line:
  assumes "message_parts pfx c p"
  shows "SortMsgCompo (message_line pfx c p) =
    ([], Some (compo_init\<lparr>prefix' := map_option (\<lambda>x. CHR '':'' # x) pfx, command := Some c, params := Some p\<rparr>))"
  using sort_rest_line [OF assms, of compo_init "[]"] line_start [OF assms] line_hd [OF assms]
  by (simp add: SortMsgCompo_def compo_init_def)

lemma SortMsgCompo_tagged:
  assumes "message_parts pfx c p" "CHR '' '' \<notin> set tags" "length tags < 900"
    and "msgtags_get (CHR ''@'' # tags) = Some t" "tg_batch t = None"
    and "tg_account t \<noteq> None \<or> tg_srv_time t \<noteq> None"
  shows "SortMsgCompo (CHR ''@'' # tags @ '' '' @ replicate n CHR '' '' @ message_line pfx c p) =
    (if snd (msgtags_process compo_init t) then [Server_time_error] else [],
     Some ((fst (msgtags_process compo_init t))
       \<lparr>prefix' := map_option (\<lambda>x. CHR '':'' # x) pfx, command := Some c, params := Some p\<rparr>))"
proof -
  let ?rest = "replicate n CHR '' '' @ message_line pfx c p"
  have "takeWhile (\<lambda>x. x \<noteq> CHR '' '') (tags @ CHR '' '' # ?rest) = tags"
    by (rule takeWhile_append_stop) (use assms(2) in auto)
  then have span: "strcspn (CHR ''@'' # tags @ CHR '' '' # ?rest) '' '' = Suc (length tags)"
    by (simp add: strcspn_def)
  obtain compo' e where pr: "msgtags_process compo_init t = (compo', e)" by (cases "msgtags_process compo_init t")
  have keep: "command compo' = None" "params compo' = None" "prefix' compo' = None"
    using pr by (auto simp: msgtags_process_def compo_init_def store_time_def Let_def split: option.splits if_splits)
  have ext: "handle_extension (CHR ''@'' # tags @ CHR '' '' # ?rest) compo_init
      = (if e then [Server_time_error] else [], Some (compo', Suc (length tags)))"
    using assms pr by (auto simp: handle_extension_def span min_bytes_def max_bytes_def Let_def)
  have "dropWhile (\<lambda>c. c = CHR '' '') (drop (Suc (length tags)) (CHR ''@'' # tags @ CHR '' '' # ?rest)) = message_line pfx c p"
    using line_start [OF assms(1)] by simp
  then show ?thesis
    using sort_rest_line [OF assms(1) keep, of "if e then [Server_time_error] else []"]
    by (simp add: SortMsgCompo_def ext pr)
qed

section \<open>Lemmas: assertions and null pointers\<close>

lemma tokenize_no_assert: "compo_tokenize str b compo \<noteq> None"
proof -
  have 2: "\<exists>y. compo_tokenize_loop s b (Suc (Suc 0)) cc = Some y" if "command cc \<noteq> None" for s cc
    using that by (subst compo_tokenize_loop.simps) (auto simp: Let_def split: option.splits)
  have 1: "\<exists>y. compo_tokenize_loop s b (Suc 0) cc = Some y" if "\<not> b \<longrightarrow> command cc \<noteq> None" for s cc
    using that 2 by (subst compo_tokenize_loop.simps) (auto simp: Let_def split: option.split)
  have "\<exists>y. compo_tokenize_loop str b 0 compo = Some y"
    using 1 by (subst compo_tokenize_loop.simps) (auto simp: Let_def split: option.split)
  then show ?thesis by (simp add: compo_tokenize_def)
qed

lemma extract_no_assert: "Assert_not_reached \<notin> set (irc_extract_msg compo w n e)"
  by (auto simp: irc_extract_msg_def Let_def split: prod.splits option.splits)

lemma handle_extension_no_assert: "Assert_not_reached \<notin> set (fst (handle_extension msg compo))"
  using msgtags_get_total [of "take (strcspn msg '' '') msg"]
  by (auto simp: handle_extension_def Let_def split: prod.splits option.splits)

lemma SortMsgCompo_parts:
  "SortMsgCompo msg = (acts, Some c) \<Longrightarrow> command c \<noteq> None \<and> (params c \<noteq> None \<or> command c = Some ''AWAY'')"
  by (auto simp: SortMsgCompo_def sort_rest_def Let_def split: prod.splits option.splits if_splits)

lemma sort_rest_acts:
  "fst (sort_rest acts compo cp) = acts \<or> (\<exists>d. fst (sort_rest acts compo cp) = acts @ [Feed_mismatch d])"
proof -
  define has where "has = (cp \<noteq> [] \<and> hd cp = CHR '':'')"
  define req :: nat where "req = (if has then 2 else 1)"
  obtain feeds data where f: "strFeed cp (int req) = (feeds, data)" by fastforce
  obtain c where t: "compo_tokenize data has compo = Some c" using tokenize_no_assert by blast
  show ?thesis
    unfolding sort_rest_def Let_def has_def [symmetric] req_def [symmetric] f prod.case t option.case
    by simp
qed

lemma SortMsgCompo_acts:
  "set (fst (SortMsgCompo msg)) \<subseteq> {Tag_count_error, Unsupported_extension, Server_time_error, Assert_not_reached}
     \<union> {a. \<exists>b m. a = Batch_add b m} \<union> {a. \<exists>d. a = Feed_mismatch d}"
proof -
  let ?S = "{Tag_count_error, Unsupported_extension, Server_time_error, Assert_not_reached}
     \<union> {a. \<exists>b m. a = Batch_add b m} \<union> {a. \<exists>d. a = Feed_mismatch d}"
  obtain acts ext where e: "(if msg \<noteq> [] \<and> hd msg = CHR ''@''
      then handle_extension msg compo_init else ([], Some (compo_init, 0))) = (acts, ext)" by fastforce
  then have acts: "set acts \<subseteq> ?S"
    by (auto simp: handle_extension_def Let_def split: if_splits prod.splits option.splits)
  then have "set (fst (sort_rest acts compo cp)) \<subseteq> ?S" for compo cp
    using sort_rest_acts [of acts compo cp] by auto
  with acts show ?thesis
    unfolding SortMsgCompo_def e by (auto split: option.split)
qed

lemma extract_acts: "Unknown_normal d \<notin> set (irc_extract_msg c w n e)" "Unknown_numeric d \<notin> set (irc_extract_msg c w n e)"
  by (auto simp: irc_extract_msg_def Let_def split: prod.splits option.splits)

lemma SortMsgCompo_no_assert: "Assert_not_reached \<notin> set (fst (SortMsgCompo msg))"
proof -
  obtain acts ext where e: "(if msg \<noteq> [] \<and> hd msg = CHR ''@''
      then handle_extension msg compo_init else ([], Some (compo_init, 0))) = (acts, ext)" by fastforce
  then have "Assert_not_reached \<notin> set acts"
    using handle_extension_no_assert [of msg compo_init] by (auto split: if_splits)
  then have "Assert_not_reached \<notin> set (fst (sort_rest acts compo cp))" for compo cp
    using sort_rest_acts [of acts compo cp] by auto
  with \<open>Assert_not_reached \<notin> set acts\<close> show ?thesis
    unfolding SortMsgCompo_def e by (auto split: option.split)
qed

lemma route_no_assert: "Assert_not_reached \<notin> set (irc_search_and_route_event c)"
  using extract_no_assert
  by (auto simp: irc_search_and_route_event_def handle_normal_event_def normal_loop_eq handle_numeric_event_eq
      split: option.splits)

lemma route_unknown:
  assumes "Unknown_normal d \<in> set (irc_search_and_route_event c) \<or> Unknown_numeric d \<in> set (irc_search_and_route_event c)"
  shows "d = c \<and> command c \<noteq> Some ''AWAY''"
proof (cases "command c = Some ''AWAY''")
  case True
  have "is_alphabetic (Some ''AWAY'')" "map_of normal_events ''AWAY'' = Some ''event_away''" by code_simp+
  with True assms show ?thesis
    by (simp add: irc_search_and_route_event_def handle_normal_event_def normal_loop_eq cmd_def)
next
  case False
  then show ?thesis
    using assms extract_acts
    by (auto simp: irc_search_and_route_event_def handle_normal_event_def normal_loop_eq handle_numeric_event_eq
        split: option.splits if_splits)
qed

section \<open>Lemmas: the stream\<close>

text \<open>The loop depends on the remaining text only through its tokens.\<close>

fun token_loop :: "string list \<Rightarrow> nat \<Rightarrow> string option \<Rightarrow> concat_buffer \<Rightarrow> (string list \<times> concat_buffer) option" where
  "token_loop [] k last_token st = Some ([], st)"
| "token_loop (token # ts) k last_token st =
     (if last_token \<noteq> None \<and> concat_state st = CONCAT_BUFFER_IS_EMPTY \<and> Some token = last_token
      then Some ([], \<lparr>message_concat = last_token, concat_state = CONCAT_BUFFER_CONTAIN_DATA\<rparr>)
      else if k = 0 \<and> concat_state st = CONCAT_BUFFER_CONTAIN_DATA then
        do { dest \<leftarrow> message_concat st; tok \<leftarrow> realloc_strcat dest token;
             (msgs, st') \<leftarrow> token_loop ts (Suc k) last_token
               \<lparr>message_concat = Some tok, concat_state = CONCAT_BUFFER_IS_EMPTY\<rparr>;
             Some (tok # msgs, st') }
      else do { (msgs, st') \<leftarrow> token_loop ts (Suc k) last_token st; Some (token # msgs, st') })"

lemma interpret_loop_tokens: "interpret_loop cp k lt st = token_loop (strtoks separators cp) k lt st"
proof (induction cp k lt st rule: interpret_loop.induct)
  case (1 cp k lt st)
  show ?case
  proof (cases "strtok_r separators cp")
    case None
    then show ?thesis by (subst interpret_loop.simps, subst strtoks.simps) simp
  next
    case (Some tr)
    then obtain tok rest where tr: "strtok_r separators cp = Some (tok, rest)" by (cases tr) auto
    note IH = 1(1) [OF tr refl] 1(2) [OF tr refl]
    show ?thesis
    proof (cases "concat_state st = CONCAT_BUFFER_IS_EMPTY")
      case True
      then show ?thesis
        using IH by (subst interpret_loop.simps, subst strtoks.simps) (auto simp: tr)
    next
      case False
      then show ?thesis
        using IH by (subst interpret_loop.simps, subst strtoks.simps)
          (auto simp: tr cong: Option.bind_cong)
    qed
  qed
qed

lemma token_loop_all: "concat_state st = CONCAT_BUFFER_IS_EMPTY \<Longrightarrow> token_loop ts k None st = Some (ts, st)"
  by (induction ts arbitrary: k) auto

lemma token_loop_last:
  "\<lbrakk>concat_state st = CONCAT_BUFFER_IS_EMPTY; t \<notin> set ts\<rbrakk> \<Longrightarrow>
   token_loop (ts @ [t]) k (Some t) st
     = Some (ts, \<lparr>message_concat = Some t, concat_state = CONCAT_BUFFER_CONTAIN_DATA\<rparr>)"
  by (induction ts arbitrary: k) auto

text \<open>What a stream contains: the messages that are complete and the text behind the last separator.\<close>

definition unterminated :: "string \<Rightarrow> string" where
  "unterminated s = rev (takeWhile (\<lambda>c. c \<notin> set separators) (rev s))"

definition complete_messages :: "string \<Rightarrow> string list" where
  "complete_messages s = strtoks separators (take (length s - length (unterminated s)) s)"

definition holds_pending :: "concat_buffer \<Rightarrow> string \<Rightarrow> bool" where
  "holds_pending st p \<longleftrightarrow> nul \<notin> set p \<and> set p \<inter> set separators = {} \<and>
     (if p = [] then concat_state st = CONCAT_BUFFER_IS_EMPTY
      else concat_state st = CONCAT_BUFFER_CONTAIN_DATA \<and> message_concat st = Some p)"

text \<open>
  What a chunk has to satisfy, given the pending text: it contains a line feed or ends a line; if
  text is pending it continues that text or starts with the two separators; and the text behind
  its last separator is not equal to one of the complete messages in it.
\<close>

definition good_chunk :: "string \<Rightarrow> string \<Rightarrow> bool" where
  "good_chunk p c \<longleftrightarrow> nul \<notin> set c \<and>
     (\<exists>body sep t. c = body @ sep # t \<and> sep \<in> set separators \<and> set t \<inter> set separators = {}
        \<and> (t = [] \<or> sep = lf)
        \<and> t \<notin> set (if p = [] \<or> hd c \<in> set separators then strtoks separators body
                   else tl (strtoks separators body)))
     \<and> (p = [] \<or> hd c \<notin> set separators \<or> take 2 c = separators)"

lemma unterminated_split:
  assumes "sep \<in> set separators" "set t \<inter> set separators = {}"
  shows "unterminated (a @ sep # t) = t" "complete_messages (a @ sep # t) = strtoks separators a"
proof -
  have "takeWhile (\<lambda>c. c \<notin> set separators) (rev t @ sep # rev a) = rev t"
    by (rule takeWhile_append_stop) (use assms in auto)
  then show u: "unterminated (a @ sep # t) = t" by (simp add: unterminated_def)
  show "complete_messages (a @ sep # t) = strtoks separators a"
    using strtoks_append [OF assms(1), of a "[]"] by (simp add: complete_messages_def u)
qed


text \<open>The last token of an unterminated chunk.\<close>

lemma chunk_last_token:
  assumes "sep \<in> set separators" "set t \<inter> set separators = {}" "t = [] \<or> sep = lf"
  shows "is_terminated_recvchunk (last (body @ sep # t)) \<longleftrightarrow> t = []"
    and "t \<noteq> [] \<Longrightarrow> get_last_token (body @ sep # t) = Some t"
proof -
  have "last t \<notin> set separators" if "t \<noteq> []" using that assms(2) last_in_set by blast
  then show "is_terminated_recvchunk (last (body @ sep # t)) \<longleftrightarrow> t = []"
    using assms(1) by (auto simp: is_terminated_recvchunk_def separators_def)
  show "get_last_token (body @ sep # t) = Some t" if "t \<noteq> []"
  proof -
    have "lf \<notin> set t" using assms(2) by (auto simp: separators_def)
    then show ?thesis
      using that assms(3) strrchr_append_last [of lf t body] by (simp add: get_last_token_def)
  qed
qed

lemma interpret_rest:
  assumes "concat_state st = CONCAT_BUFFER_IS_EMPTY" "sep \<in> set separators" "set t \<inter> set separators = {}"
    and "t \<notin> set (strtoks separators body)" "nul \<notin> set t"
  shows "\<exists>st'. interpret_loop (body @ sep # t) k (if t = [] then None else Some t) st
      = Some (strtoks separators body, st') \<and> holds_pending st' t"
proof (cases "t = []")
  case True
  then show ?thesis
    using assms strtoks_append [OF assms(2), of body "[]"]
    by (simp add: interpret_loop_tokens token_loop_all holds_pending_def)
next
  case False
  then have "strtoks separators (body @ sep # t) = strtoks separators body @ [t]"
    using assms strtoks_append [OF assms(2)] strtoks_word(1) by simp
  then show ?thesis
    using False assms by (simp add: interpret_loop_tokens token_loop_last holds_pending_def)
qed

text \<open>
  The receive loop of \<^verbatim>\<open>src/src/network.cpp\<close>: each chunk that arrives is given to the
  handler with the state the previous one left.
\<close>

fun receive_chunks :: "string list \<Rightarrow> concat_buffer \<Rightarrow> (action list \<times> concat_buffer) option" where
  "receive_chunks [] st = Some ([], st)"
| "receive_chunks (c # cs) st = do {
     (acts, st') \<leftarrow> irc_handle_interpret_events c st;
     (acts', st'') \<leftarrow> receive_chunks cs st';
     Some (acts @ acts', st'') }"

fun good_chunks :: "string \<Rightarrow> string list \<Rightarrow> bool" where
  "good_chunks p [] = True"
| "good_chunks p (c # cs) = (good_chunk p c \<and> good_chunks (unterminated c) cs)"

definition empty_concat :: concat_buffer where
  "empty_concat = \<lparr>message_concat = None, concat_state = CONCAT_BUFFER_IS_EMPTY\<rparr>"

lemma empty_holds: "holds_pending empty_concat []"
  by (simp add: holds_pending_def empty_concat_def)

lemma strtoks_seps: "\<forall>c\<in>set s. c \<in> set seps \<Longrightarrow> strtoks seps s = []"
  by (induction s) (auto simp: strtoks_sep)

lemma strtoks_continue:
  assumes "body \<noteq> []" "hd body \<notin> set seps" "set p \<inter> set seps = {}"
  shows "\<exists>w ts. strtoks seps body = w # ts \<and> strtoks seps (p @ body) = (p @ w) # ts \<and> set w \<subseteq> set body"
proof -
  let ?w = "takeWhile (\<lambda>c. c \<notin> set seps) body" and ?r = "dropWhile (\<lambda>c. c \<notin> set seps) body"
  have body: "body = ?w @ ?r" by simp
  have w: "?w \<noteq> []" "set ?w \<inter> set seps = {}" "set ?w \<subseteq> set body"
    using assms(1,2) by (cases body, auto dest: set_takeWhileD)+
  then have pw: "p @ ?w \<noteq> []" "set (p @ ?w) \<inter> set seps = {}" using assms(3) by auto
  show ?thesis
  proof (cases ?r)
    case Nil
    then have "body = ?w" using body by (metis append_Nil2)
    then have "strtoks seps body = [?w]" "strtoks seps (p @ body) = [p @ ?w]"
      using strtoks_word(1) [OF w(1,2)] strtoks_word(1) [OF pw] by metis+
    then show ?thesis using w(3) by blast
  next
    case (Cons c r)
    then have "c \<in> set seps" by (metis dropWhile_eq_Cons_conv)
    then have "strtoks seps (?w @ c # r) = ?w # strtoks seps r"
      "strtoks seps ((p @ ?w) @ c # r) = (p @ ?w) # strtoks seps r"
      using strtoks_word(2) [OF w(1,2)] strtoks_word(2) [OF pw] by blast+
    then have "strtoks seps body = ?w # strtoks seps r" "strtoks seps (p @ body) = (p @ ?w) # strtoks seps r"
      using body Cons by (metis append.assoc)+
    then show ?thesis using w(3) by blast
  qed
qed

lemma good_chunkI:
  assumes "c = body @ sep # t" "sep \<in> set separators" "set t \<inter> set separators = {}" "t = [] \<or> sep = lf"
    "t \<notin> set (if p = [] \<or> hd c \<in> set separators then strtoks separators body else tl (strtoks separators body))"
    "nul \<notin> set c" "p = [] \<or> hd c \<notin> set separators \<or> take 2 c = separators"
  shows "good_chunk p c"
  using assms unfolding good_chunk_def by blast

text \<open>One chunk.\<close>

lemma interpret_chunk_good:
  assumes "holds_pending st p" "good_chunk p c"
  shows "\<exists>st'. interpret_chunk c st = Some (complete_messages (p @ c), False, st')
    \<and> holds_pending st' (unterminated c)"
proof -
  obtain body sep t where c: "c = body @ sep # t" and sep: "sep \<in> set separators"
    and t: "set t \<inter> set separators = {}" "t = [] \<or> sep = lf"
    and tfresh: "t \<notin> set (if p = [] \<or> hd c \<in> set separators then strtoks separators body
                   else tl (strtoks separators body))"
    and nul: "nul \<notin> set c" and start: "p = [] \<or> hd c \<notin> set separators \<or> take 2 c = separators"
    using assms(2) unfolding good_chunk_def by blast
  let ?lt = "if t = [] then None else Some t"
  have lt: "(if is_terminated_recvchunk (last c) then None else get_last_token c) = ?lt"
    using chunk_last_token [OF sep t] by (auto simp: c)
  have ends: "is_terminated_recvchunk (last c) \<longleftrightarrow> t = []" using chunk_last_token [OF sep t] by (simp add: c)
  have "length (takeWhile (\<lambda>x. x \<notin> set separators) c) < length c"
    using sep by (subst length_takeWhile_less_iff) (auto simp: c)
  then have ne: "c \<noteq> []" "strpbrk c separators \<noteq> None"
    by (auto simp: strpbrk_def strcspn_def)
  have u: "unterminated c = t" "complete_messages (p @ c) = strtoks separators (p @ body)"
    using unterminated_split(1) [OF sep t(1), of body] unterminated_split(2) [OF sep t(1), of "p @ body"]
    by (simp_all add: c)
  have nt: "nul \<notin> set t" using nul by (simp add: c)
  have chunk: "interpret_chunk c st = do { (msgs, st') \<leftarrow> interpret_loop c 0 ?lt st; Some (msgs, False, st') }"
    if "\<not> (concat_state st = CONCAT_BUFFER_CONTAIN_DATA \<and> take 2 c = separators)"
    using that ne ends lt by (auto simp: interpret_chunk_def separators_def Let_def split: option.splits)
  consider (none) "p = []" | (crlf) "p \<noteq> []" "hd c \<in> set separators" | (more) "p \<noteq> []" "hd c \<notin> set separators"
    by blast
  then show ?thesis
  proof cases
    case none
    then have st: "concat_state st = CONCAT_BUFFER_IS_EMPTY" using assms(1) by (simp add: holds_pending_def)
    have "t \<notin> set (strtoks separators body)" using none tfresh by simp
    then obtain st' where st': "interpret_loop c 0 ?lt st = Some (strtoks separators body, st')" "holds_pending st' t"
      using interpret_rest [OF st sep t(1) _ nt, of body 0] c by auto
    have "complete_messages (p @ c) = strtoks separators body" using u(2) none by simp
    then show ?thesis using st st' u(1) by (simp add: chunk)
  next
    case crlf
    then have c2: "take 2 c = separators" and st: "concat_state st = CONCAT_BUFFER_CONTAIN_DATA" "message_concat st = Some p"
      using start assms(1) by (auto simp: holds_pending_def)
    let ?st0 = "\<lparr>message_concat = None, concat_state = CONCAT_BUFFER_IS_EMPTY\<rparr>"
    have "t \<notin> set (strtoks separators body)" using crlf tfresh by simp
    then obtain st' where st': "interpret_loop c 0 ?lt ?st0 = Some (strtoks separators body, st')" "holds_pending st' t"
      using interpret_rest [of ?st0 sep t body 0] sep t nt c by auto
    have "interpret_chunk c st = do { (msgs, st') \<leftarrow> interpret_loop c 0 ?lt ?st0; Some (p # msgs, False, st') }"
      using ne ends lt st c2 by (auto simp: interpret_chunk_def separators_def Let_def split: option.splits)
    moreover have "body \<noteq> []" "hd body \<in> set separators"
      using c2 t crlf by (cases body; auto simp: c separators_def)+
    then obtain s b where "body = s # b" "s \<in> set separators" by (cases body) auto
    then have "strtoks separators (p @ body) = p # strtoks separators body"
      using assms(1) crlf strtoks_word(2) [of p separators s b] by (simp add: holds_pending_def strtoks_sep)
    ultimately show ?thesis using st' by (simp add: u)
  next
    case more
    have st: "concat_state st = CONCAT_BUFFER_CONTAIN_DATA" "message_concat st = Some p" "nul \<notin> set p"
      "set p \<inter> set separators = {}"
      using assms(1) more by (auto simp: holds_pending_def)
    have "hd c = hd body" "body \<noteq> []"
      using more sep by (cases body; auto simp: c)+
    then have hd: "hd body \<notin> set separators" "body \<noteq> []" using more by simp_all
    obtain w ts where w: "strtoks separators body = w # ts" "strtoks separators (p @ body) = (p @ w) # ts"
      "set w \<subseteq> set body"
      using strtoks_continue [OF hd(2,1) st(4)] by blast
    have cat: "realloc_strcat p w = Some (p @ w)"
      using realloc_strcat_eq [of p w] st(3) w(3) nul by (auto simp: c)
    let ?st0 = "\<lparr>message_concat = Some (p @ w), concat_state = CONCAT_BUFFER_IS_EMPTY\<rparr>"
    have toks: "strtoks separators c = w # ts @ (if t = [] then [] else [t])"
      using w(1) strtoks_append [OF sep, of body t] strtoks_word(1) [OF _ t(1)] by (simp add: c)
    have "t \<notin> set ts" using tfresh more w(1) by simp
    then have "\<exists>st'. token_loop (ts @ (if t = [] then [] else [t])) 1 ?lt ?st0 = Some (ts, st') \<and> holds_pending st' t"
      using nt t(1) by (simp add: token_loop_all token_loop_last holds_pending_def)
    moreover have "take 2 c \<noteq> separators"
      using more(2) ne(1) by (cases c) (auto simp: separators_def)
    ultimately show ?thesis
      using st cat by (auto simp: chunk u interpret_loop_tokens toks w(2))
  qed
qed

text \<open>A sequence of chunks.\<close>

lemma unterminated_none:
  assumes "set s \<inter> set separators = {}"
  shows "unterminated s = s \<and> complete_messages s = []"
proof -
  have tw: "takeWhile (\<lambda>c. c \<notin> set separators) (rev s) = rev s"
    by (rule takeWhile_eq_self) (use assms in auto)
  have u: "unterminated s = s" by (simp only: unterminated_def tw rev_rev_ident)
  then show ?thesis by (simp add: complete_messages_def)
qed

lemma complete_messages_append:
  assumes "sep \<in> set separators" "set t \<inter> set separators = {}"
  shows "complete_messages (a @ sep # t @ rest) = strtoks separators a @ complete_messages (t @ rest)
    \<and> unterminated (a @ sep # t @ rest) = unterminated (t @ rest)"
proof (cases "\<exists>x\<in>set rest. x \<in> set separators")
  case True
  obtain b s r where rest: "rest = b @ s # r" and s: "s \<in> set separators" and "\<forall>y\<in>set r. y \<notin> set separators"
    using split_list_last_prop [OF True] by blast
  then have r: "set r \<inter> set separators = {}" by auto
  show ?thesis
    using unterminated_split [OF s r, of "a @ sep # t @ b"] unterminated_split [OF s r, of "t @ b"]
      strtoks_append [OF assms(1), of a "t @ b"] by (simp add: rest)
next
  case False
  then have r: "set (t @ rest) \<inter> set separators = {}" using assms(2) by auto
  show ?thesis using unterminated_split [OF assms(1) r, of a] unterminated_none [OF r] by simp
qed

lemma receive_good:
  "\<lbrakk>holds_pending st p; good_chunks p cs\<rbrakk> \<Longrightarrow>
   \<exists>st'. receive_chunks cs st = Some (concat (map ProcessProtoMsg (complete_messages (p @ concat cs))), st')
     \<and> holds_pending st' (unterminated (p @ concat cs))"
proof (induction cs arbitrary: st p)
  case Nil
  then have "set p \<inter> set separators = {}" by (simp add: holds_pending_def)
  with Nil show ?case by (simp add: unterminated_none)
next
  case (Cons c cs)
  then have g: "good_chunk p c" "good_chunks (unterminated c) cs" by simp_all
  then obtain body sep t where c: "c = body @ sep # t" "sep \<in> set separators" "set t \<inter> set separators = {}"
    by (auto simp: good_chunk_def)
  have t: "unterminated c = t" using unterminated_split [OF c(2,3)] c(1) by simp
  have pc: "complete_messages (p @ c) = strtoks separators (p @ body)"
    using unterminated_split [OF c(2,3), of "p @ body"] c(1) by simp
  have split: "complete_messages (p @ c @ concat cs) = strtoks separators (p @ body) @ complete_messages (t @ concat cs)"
    "unterminated (p @ c @ concat cs) = unterminated (t @ concat cs)"
    using complete_messages_append [OF c(2,3), of "p @ body" "concat cs"] c(1) by simp_all
  obtain st1 where st1: "interpret_chunk c st = Some (strtoks separators (p @ body), False, st1)" "holds_pending st1 t"
    using interpret_chunk_good [OF Cons.prems(1) g(1)] pc t by auto
  obtain st' where "receive_chunks cs st1 = Some (concat (map ProcessProtoMsg (complete_messages (t @ concat cs))), st')"
    "holds_pending st' (unterminated (t @ concat cs))"
    using Cons.IH [OF st1(2)] g(2) t by auto
  then show ?case using st1 by (simp add: irc_handle_interpret_events_def split)
qed

section \<open>Lemmas: batches\<close>

text \<open>The tags that stay when a message is stored in a batch.\<close>

definition kept_items :: "string option \<Rightarrow> string option \<Rightarrow> string list" where
  "kept_items a t = (case a of None \<Rightarrow> [] | Some v \<Rightarrow> [''account='' @ v])
     @ (case t of None \<Rightarrow> [] | Some v \<Rightarrow> [''time='' @ v])"

lemma SortMsgCompo_batch:
  assumes "CHR '' '' \<notin> set tags" "length tags < 900"
    and "msgtags_get (CHR ''@'' # tags) = Some \<lparr>tg_account = a, tg_batch = Some b, tg_srv_time = t\<rparr>"
  shows "SortMsgCompo (CHR ''@'' # tags @ '' '' @ rest) = ([Batch_add b
    (if kept_items a t = [] then '' '' @ rest else CHR ''@'' # join_tags (kept_items a t) @ ''  '' @ rest)], None)"
proof -
  have "takeWhile (\<lambda>x. x \<noteq> CHR '' '') (tags @ CHR '' '' # rest) = tags"
    by (rule takeWhile_append_stop) (use assms(1) in auto)
  then have span: "strcspn (CHR ''@'' # tags @ CHR '' '' # rest) '' '' = Suc (length tags)"
    by (simp add: strcspn_def)
  have "handle_extension (CHR ''@'' # tags @ CHR '' '' # rest) compo_init = ([Batch_add b
    (if kept_items a t = [] then '' '' @ rest else CHR ''@'' # join_tags (kept_items a t) @ ''  '' @ rest)], None)"
    using assms by (auto simp: handle_extension_def span min_bytes_def max_bytes_def Let_def
        msgtags_handle_batch_def kept_items_def split: option.splits)
  then show ?thesis by (simp add: SortMsgCompo_def)
qed

lemma tag_value_item:
  "tag_value n items = Some v \<Longrightarrow> n @ v \<in> set items \<and> v \<noteq> [] \<and> length v < 250"
  by (auto simp: tag_value_def Let_def find_Some_iff prefix_def split: option.splits if_splits)
    (metis nth_mem)

lemma in_join_tags: "x \<in> set items \<Longrightarrow> set x \<subseteq> set (join_tags items)"
  by (induction items rule: join_tags.induct) auto

lemma kept_items_get:
  assumes "CHR '' '' \<notin> set (join_tags items)" "\<forall>x\<in>set items. CHR '';'' \<notin> set x"
    and "clean_for ''account='' items" "clean_for ''batch='' items" "clean_for ''time='' items"
  defines "a \<equiv> tag_value ''account='' items" and "t \<equiv> tag_value ''time='' items"
  shows "CHR '' '' \<notin> set (join_tags (kept_items a t))" "length (join_tags (kept_items a t)) < 900"
    and "msgtags_get (CHR ''@'' # join_tags (kept_items a t))
      = Some \<lparr>tg_account = a, tg_batch = None, tg_srv_time = t\<rparr>"
    and "kept_items a t \<noteq> [] \<Longrightarrow> a \<noteq> None \<or> t \<noteq> None"
proof -
  have av: "''account='' @ v \<in> set items \<and> v \<noteq> [] \<and> length v < 250 \<and> CHR '' '' \<notin> set v" if "a = Some v" for v
    using tag_value_item [of "''account=''" items v] that in_join_tags assms(1) by (fastforce simp: a_def)
  have tv: "''time='' @ v \<in> set items \<and> v \<noteq> [] \<and> length v < 250 \<and> CHR '' '' \<notin> set v" if "t = Some v" for v
    using tag_value_item [of "''time=''" items v] that in_join_tags assms(1) by (fastforce simp: t_def)
  have sub: "set (kept_items a t) \<subseteq> set items"
    using av tv by (auto simp: kept_items_def split: option.splits)
  then have clean: "clean_for ''account='' (kept_items a t)" "clean_for ''batch='' (kept_items a t)"
    "clean_for ''time='' (kept_items a t)" "\<forall>x\<in>set (kept_items a t). CHR '';'' \<notin> set x"
    using assms(2-5) by (auto simp: clean_for_def)
  show "CHR '' '' \<notin> set (join_tags (kept_items a t))" "length (join_tags (kept_items a t)) < 900"
    using av tv by (cases a; cases t; fastforce simp: kept_items_def)+
  have "tag_value ''account='' (kept_items a t) = a" "tag_value ''time='' (kept_items a t) = t"
    "tag_value ''batch='' (kept_items a t) = None"
    using av tv by (cases a; cases t; fastforce simp: kept_items_def tag_value_def Let_def)+
  then show "msgtags_get (CHR ''@'' # join_tags (kept_items a t))
      = Some \<lparr>tg_account = a, tg_batch = None, tg_srv_time = t\<rparr>"
    using msgtags_get_items [OF clean(4,1-3)] by simp
  show "kept_items a t \<noteq> [] \<Longrightarrow> a \<noteq> None \<or> t \<noteq> None" by (cases a; cases t; simp add: kept_items_def)
qed

section \<open>Properties\<close>

text \<open>
  Property C1. When every chunk is a good one, the
  client processes exactly the complete messages of the stream, each once and in order, and
  keeps exactly the text behind the last separator for the next chunk.  A good chunk contains a line feed
  or ends a line; it does not start with only one of the two separators while text is pending; and
  its unfinished last message is not equal to a complete message in it.  Under these conditions it does
  not matter where the stream is cut; without them the statement is false (\<open>stream_faults\<close>).
\<close>

theorem stream_reassembly:
  assumes "good_chunks [] cs"
  shows "\<exists>st'. receive_chunks cs empty_concat
      = Some (concat (map ProcessProtoMsg (complete_messages (concat cs))), st')
    \<and> holds_pending st' (unterminated (concat cs))"
  using receive_good [OF empty_holds assms] by simp

theorem stream_reassembly_witness:
  "\<exists>st'. receive_chunks [''PI'' @ ''NG :a'' @ [CHR 0x0D, lf] @ ''PO'', ''NG :b'' @ [CHR 0x0D, lf]] empty_concat
     = Some ([Event_handler ''event_ping'' (compo_init\<lparr>command := Some ''PING'', params := Some '':a''\<rparr>),
              Event_handler ''event_pong'' (compo_init\<lparr>command := Some ''PONG'', params := Some '':b''\<rparr>)], st')"
proof -
  let ?a = "''PI'' @ ''NG :a'' @ [CHR 0x0D, lf] @ ''PO''" and ?b = "''NG :b'' @ [CHR 0x0D, lf]"
  have "good_chunk [] ?a"
    by (rule good_chunkI [of _ "''PING :a'' @ [CHR 0x0D]" lf "''PO''"]) code_simp+
  moreover have "unterminated ?a = ''PO''" by code_simp
  moreover have "good_chunk ''PO'' ?b"
    by (rule good_chunkI [of _ "''NG :b'' @ [CHR 0x0D]" lf "[]"]) code_simp+
  ultimately have "good_chunks [] [?a, ?b]" by (simp only: good_chunks.simps simp_thms)
  from stream_reassembly [OF this]
  obtain st' where "receive_chunks [?a, ?b] empty_concat
      = Some (concat (map ProcessProtoMsg (complete_messages (concat [?a, ?b]))), st')" by blast
  moreover have "concat (map ProcessProtoMsg (complete_messages (concat [?a, ?b])))
     = [Event_handler ''event_ping'' (compo_init\<lparr>command := Some ''PING'', params := Some '':a''\<rparr>),
        Event_handler ''event_pong'' (compo_init\<lparr>command := Some ''PONG'', params := Some '':b''\<rparr>)]"
    by code_simp
  ultimately show ?thesis by simp
qed

text \<open>
  Property C2. Parsing inverts the protocol's line format: a message written from an optional
  prefix, a command and parameters is sorted into exactly these components, with nothing
  reported; with a tag section in front (known tags, fewer than 900 octets, no batch) the
  components also carry the account and the server time of the tags.
\<close>

theorem message_line_parsed:
  assumes "message_parts pfx c p" "CHR '' '' \<notin> set tags" "length tags < 900"
    and "msgtags_get (CHR ''@'' # tags) = Some t" "tg_batch t = None"
    and "tg_account t \<noteq> None \<or> tg_srv_time t \<noteq> None"
  shows "SortMsgCompo (message_line pfx c p) = ([], Some (compo_init
      \<lparr>prefix' := map_option (\<lambda>x. CHR '':'' # x) pfx, command := Some c, params := Some p\<rparr>))
    \<and> SortMsgCompo (CHR ''@'' # tags @ '' '' @ message_line pfx c p) =
      (if snd (msgtags_process compo_init t) then [Server_time_error] else [],
       Some ((fst (msgtags_process compo_init t))
         \<lparr>prefix' := map_option (\<lambda>x. CHR '':'' # x) pfx, command := Some c, params := Some p\<rparr>))"
  using SortMsgCompo_line [OF assms(1)] SortMsgCompo_tagged [OF assms, of 0] by simp

theorem message_line_parsed_witness:
  "SortMsgCompo ''@account=joe :joe!j@h PRIVMSG #c :hi'' = ([], Some (compo_init
     \<lparr>account := Some ''joe'', prefix' := Some '':joe!j@h'', command := Some ''PRIVMSG'', params := Some ''#c :hi''\<rparr>))"
proof -
  have "message_parts (Some ''joe!j@h'') ''PRIVMSG'' ''#c :hi''" by code_simp
  moreover have "msgtags_get (CHR ''@'' # ''account=joe'')
      = Some \<lparr>tg_account = Some ''joe'', tg_batch = None, tg_srv_time = None\<rparr>" by code_simp
  ultimately show ?thesis
    using message_line_parsed [of "Some ''joe!j@h''" "''PRIVMSG''" "''#c :hi''" "''account=joe''"]
    by (simp add: message_line_def msgtags_process_def no_change_def compo_init_def)
qed

text \<open>
  Property C3. Every message with a known numeric command reaches the entry of the table with that
  number, found by binary search in the sorted table: the handler of the entry is called with the
  message, or the text is printed into the window the entry names; every other numeric command is
  reported as unknown.
\<close>

theorem numeric_event_dispatch:
  assumes "is_numeric (command compo)" "length (cmd compo) = 3"
  shows "irc_search_and_route_event compo =
     (case find (\<lambda>e. numeric_event e = cmd compo) numeric_events of
        None \<Rightarrow> [Unknown_numeric compo]
      | Some evt \<Rightarrow> (case event_handler evt of
          Some h \<Rightarrow> [Event_handler h compo]
        | None \<Rightarrow> irc_extract_msg compo (ne_window evt) (ext_bits evt) (strncmp_eq (official_name evt) ''ERR_'' 4)))
    \<and> (\<forall>e\<in>set numeric_events. find (\<lambda>e'. numeric_event e' = numeric_event e) numeric_events = Some e)"
proof -
  have "\<not> is_alphabetic (command compo)"
    using assms by (cases "cmd compo")
      (auto simp: is_alphabetic_def is_numeric_def cmd_def all_chars_iff sw_class_char isdigit_def
        isalpha_def isupper_def islower_def split: option.splits)
  then have "irc_search_and_route_event compo =
     (case lookup_numeric (cmd compo) of None \<Rightarrow> [Unknown_numeric compo]
      | Some evt \<Rightarrow> (case event_handler evt of Some h \<Rightarrow> [Event_handler h compo]
        | None \<Rightarrow> irc_extract_msg compo (ne_window evt) (ext_bits evt) (strncmp_eq (official_name evt) ''ERR_'' 4)))"
    using assms by (simp add: irc_search_and_route_event_def handle_numeric_event_eq split: option.split)
  then show ?thesis using lookup_numeric_self by (simp add: lookup_numeric_def)
qed

theorem numeric_event_dispatch_witness:
  "irc_search_and_route_event (compo_init\<lparr>command := Some ''376'', params := Some ''me :End of MOTD''\<rparr>)
     = [Event_handler ''event_motd'' (compo_init\<lparr>command := Some ''376'', params := Some ''me :End of MOTD''\<rparr>)]"
proof -
  have "is_numeric (Some ''376'')" by code_simp
  moreover have "find (\<lambda>e. numeric_event e = ''376'') numeric_events
      = Some (NE ''376'' ''RPL_ENDOFMOTD'' NO_WINDOW 0 (Some ''event_motd''))" by code_simp
  ultimately show ?thesis
    using numeric_event_dispatch [of "compo_init\<lparr>command := Some ''376'', params := Some ''me :End of MOTD''\<rparr>"]
    by (simp add: cmd_def)
qed

text \<open>
  Property C4. Whatever a server sends, no assertion of the parser or the dispatcher fails, and a
  message whose parameters are the null pointer (an AWAY without text) is never one of those
  whose parameters the dispatcher prints as unknown.
\<close>

theorem irc_no_assertion_no_null:
  "Assert_not_reached \<notin> set (ProcessProtoMsg msg)
   \<and> \<not> (\<exists>c. params c = None \<and> (Unknown_normal c \<in> set (ProcessProtoMsg msg) \<or> Unknown_numeric c \<in> set (ProcessProtoMsg msg)))"
proof (cases "SortMsgCompo msg")
  case (Pair acts compo)
  have a: "Assert_not_reached \<notin> set acts" "Unknown_normal c \<notin> set acts" "Unknown_numeric c \<notin> set acts" for c
    using SortMsgCompo_no_assert [of msg] SortMsgCompo_acts [of msg] Pair by auto
  show ?thesis
  proof (cases compo)
    case None
    then show ?thesis using Pair a by (simp add: ProcessProtoMsg_def)
  next
    case (Some c)
    then have c: "params c \<noteq> None \<or> command c = Some ''AWAY''" using SortMsgCompo_parts Pair by blast
    have "params d \<noteq> None"
      if "Unknown_normal d \<in> set (irc_search_and_route_event c) \<or> Unknown_numeric d \<in> set (irc_search_and_route_event c)" for d
      using route_unknown [OF that] c by auto
    then show ?thesis using Pair Some a route_no_assert by (auto simp: ProcessProtoMsg_def)
  qed
qed

text \<open>
  Property C5. A message of a batch is stored so that its replay is faithful: the stored text
  parses to the components the message itself has, with the account and the server time of its
  tags and without the batch.
\<close>

theorem batch_replay_faithful:
  assumes "message_parts pfx c p" "CHR '' '' \<notin> set (join_tags items)" "length (join_tags items) < 900"
    and "\<forall>x\<in>set items. CHR '';'' \<notin> set x"
    and "clean_for ''account='' items" "clean_for ''batch='' items" "clean_for ''time='' items"
    and "tag_value ''batch='' items = Some b"
  shows "\<exists>stored. SortMsgCompo (CHR ''@'' # join_tags items @ '' '' @ message_line pfx c p)
      = ([Batch_add b stored], None)
    \<and> snd (SortMsgCompo stored) = Some ((fst (msgtags_process compo_init
        \<lparr>tg_account = tag_value ''account='' items, tg_batch = None, tg_srv_time = tag_value ''time='' items\<rparr>))
      \<lparr>prefix' := map_option (\<lambda>x. CHR '':'' # x) pfx, command := Some c, params := Some p\<rparr>)"
proof -
  let ?a = "tag_value ''account='' items" and ?t = "tag_value ''time='' items"
  let ?keep = "kept_items ?a ?t"
  define stored where "stored = (if ?keep = [] then '' '' @ message_line pfx c p
     else CHR ''@'' # join_tags ?keep @ '' '' @ replicate 1 CHR '' '' @ message_line pfx c p)"
  have get: "msgtags_get (CHR ''@'' # join_tags items)
      = Some \<lparr>tg_account = ?a, tg_batch = Some b, tg_srv_time = ?t\<rparr>"
    using msgtags_get_items [OF assms(4-7)] assms(8) by simp
  have "SortMsgCompo (CHR ''@'' # join_tags items @ '' '' @ message_line pfx c p) = ([Batch_add b stored], None)"
    using SortMsgCompo_batch [OF assms(2,3) get] by (auto simp: stored_def kept_items_def split: option.splits)
  moreover have "snd (SortMsgCompo stored) = Some ((fst (msgtags_process compo_init
        \<lparr>tg_account = ?a, tg_batch = None, tg_srv_time = ?t\<rparr>))
      \<lparr>prefix' := map_option (\<lambda>x. CHR '':'' # x) pfx, command := Some c, params := Some p\<rparr>)"
  proof (cases "?keep = []")
    case True
    then have none: "?a = None" "?t = None" by (auto simp: kept_items_def split: option.splits)
    have "SortMsgCompo ('' '' @ message_line pfx c p) = SortMsgCompo (message_line pfx c p)"
      using line_start [OF assms(1)] line_hd [OF assms(1)] by (simp add: SortMsgCompo_def)
    then show ?thesis
      using True SortMsgCompo_line [OF assms(1)] none by (simp add: stored_def msgtags_process_def)
  next
    case False
    note kept = kept_items_get [OF assms(2,4-7)]
    show ?thesis
      using SortMsgCompo_tagged [OF assms(1) kept(1,2,3), of 1] False kept(4)
      by (simp add: stored_def)
  qed
  ultimately show ?thesis by blast
qed

theorem batch_replay_faithful_witness:
  "\<exists>stored. SortMsgCompo ''@batch=7;account=joe :joe QUIT :x'' = ([Batch_add ''7'' stored], None)
    \<and> snd (SortMsgCompo stored) = Some (compo_init\<lparr>account := Some ''joe'',
       prefix' := Some '':joe'', command := Some ''QUIT'', params := Some '':x''\<rparr>)"
proof -
  have "message_parts (Some ''joe'') ''QUIT'' '':x''" by code_simp
  moreover have "clean_for n [''batch=7'', ''account=joe'']" if "n \<in> {''account='', ''batch='', ''time=''}" for n
    using that by (auto simp: clean_for_def sublist_Cons_right)
  ultimately show ?thesis
    using batch_replay_faithful [of "Some ''joe''" "''QUIT''" "'':x''" "[''batch=7'', ''account=joe'']" "''7''"]
    by (simp add: message_line_def tag_value_def msgtags_process_def no_change_def compo_init_def)
qed










end
