(* ===== verification/Icb.thy ===== *)
theory Icb
  imports Irc
begin

text \<open>
  The ICB client: \<^verbatim>\<open>src/src/icb.c\<close>.  A packet of the server is translated to IRC events
  that are given to the IRC core, to lines printed, or to packets sent; commands of the user are
  sent as packets of at most 252 characters.

  The state holds the static variables of the file.  The arrays are strings, empty after
  \<^verbatim>\<open>BZERO\<close>.  What a handler looks up elsewhere is an environment: the names table of a
  channel (\<^verbatim>\<open>event_names_htbl_lookup\<close>), the windows (\<^verbatim>\<open>window_by_label\<close>, with the flag
  \<^verbatim>\<open>received_names\<close>), the own nickname and the function that removes text decoration.
  Within the handling of one packet no lookup follows an event that changes what is looked up.
  A result \<^const>\<open>None\<close> is an access outside an array.
\<close>

section \<open>State and actions\<close>

definition field_sep :: char where "field_sep = CHR 0x01"
definition icb_field_sep :: string where "icb_field_sep = [field_sep]"
definition ICB_MESSAGE_MAX :: nat where "ICB_MESSAGE_MAX = 253"
definition ICB_PACKET_MAX :: nat where "ICB_PACKET_MAX = 255"

record idle_mod =
  idle_nick :: string
  idle_group :: string

record icb_state =
  icb_protolevel :: string
  icb_hostid :: string
  icb_serverid :: string
  icb_group :: "string option"
  idle :: idle_mod
  g_icb_processing_names :: bool

record icb_env =
  my_nickname :: string
  names_lookup :: "string \<Rightarrow> string \<Rightarrow> (string \<times> bool) option"
  window_names :: "string \<Rightarrow> bool option"
  squeeze_deco :: "string \<Rightarrow> string"

datatype icb_action =
    Event string
  | Print_to_group string
  | Print_status string
  | Print_active string
  | Diagnostic string
  | Log_error string
  | Send string
  | Want_disconnect
  | Print_unknown_packet char int string
  | Icb_assert_not_reached

text \<open>A null pointer given to a \<^verbatim>\<open>%s\<close> conversion prints as the supported libraries print it.\<close>

definition pct_s :: "string option \<Rightarrow> string" where
  "pct_s s = (case s of None \<Rightarrow> ''(null)'' | Some x \<Rightarrow> x)"

abbreviation crlf :: string where "crlf \<equiv> [CHR 0x0D, CHR 0x0A]"

definition get_label :: "icb_state \<Rightarrow> string" where
  "get_label st =
     (case icb_group st of
        None \<Rightarrow> []
      | Some g \<Rightarrow> let label = CHR ''#'' # g in if length label \<ge> ICB_PACKET_MAX then [] else label)"

text \<open>\<^verbatim>\<open>process_event\<close> gives the event to the IRC core with an empty concatenation buffer.\<close>

definition process_event :: "string \<Rightarrow> (action list \<times> concat_buffer) option" where
  "process_event event = irc_handle_interpret_events event empty_concat"

section \<open>Sending\<close>

text \<open>
  \<^verbatim>\<open>sendpacket\<close> formats into an array of \<^const>\<open>ICB_MESSAGE_MAX\<close> cells; the result is the
  packet behind its length octet and whether it was truncated.
\<close>

definition sendpacket :: "string \<Rightarrow> string \<times> bool" where
  "sendpacket formatted = (take (ICB_MESSAGE_MAX - 1) formatted, length formatted \<ge> ICB_MESSAGE_MAX)"

definition send1 :: "string \<Rightarrow> icb_action list" where
  "send1 formatted = [Send (fst (sendpacket formatted))]"

text \<open>The octets that go to the socket.\<close>

definition net_send_packet :: "string \<Rightarrow> string" where
  "net_send_packet msg = char_of (length msg) # msg"

definition icb_send_beep :: "string \<Rightarrow> icb_action list" where
  "icb_send_beep arg = send1 (''hbeep'' @ icb_field_sep @ arg)"
definition icb_send_boot :: "string \<Rightarrow> icb_action list" where
  "icb_send_boot victim = send1 (''hboot'' @ icb_field_sep @ victim)"
definition icb_send_group :: "string \<Rightarrow> icb_action list" where
  "icb_send_group grp = send1 (''hg'' @ icb_field_sep @ grp)"
definition icb_send_name :: "string \<Rightarrow> icb_action list" where
  "icb_send_name new_nick = send1 (''hname'' @ icb_field_sep @ new_nick)"
definition icb_send_noop :: "icb_action list" where
  "icb_send_noop = send1 ''n''"
definition icb_send_topic :: "string \<Rightarrow> icb_action list" where
  "icb_send_topic new_topic = send1 (''htopic'' @ icb_field_sep @ new_topic)"
definition icb_send_who :: "string \<Rightarrow> icb_action list" where
  "icb_send_who arg = send1 (''hw'' @ icb_field_sep @ arg)"
definition icb_send_pass_mod :: "string option \<Rightarrow> icb_action list" where
  "icb_send_pass_mod to_who =
     (case to_who of None \<Rightarrow> []
      | Some w \<Rightarrow> if strings_match w [] then [] else send1 (''hpass'' @ icb_field_sep @ w))"
definition icb_send_ping :: "string option \<Rightarrow> icb_action list" where
  "icb_send_ping arg =
     (case arg of None \<Rightarrow> send1 ''l''
      | Some a \<Rightarrow> if strings_match a [] then send1 ''l'' else send1 (''l'' @ a))"
definition icb_send_pong :: "string option \<Rightarrow> icb_action list" where
  "icb_send_pong arg =
     (case arg of None \<Rightarrow> send1 ''m''
      | Some a \<Rightarrow> if strings_match a [] then send1 ''m'' else send1 (''m'' @ a))"

text \<open>
  The loops that split a long text.  The offset is a \<^verbatim>\<open>size_t\<close>; the text must not be read
  behind its terminator.
\<close>

partial_function (option) open_msg_loop :: "string \<Rightarrow> nat \<Rightarrow> icb_action list option" where
  "open_msg_loop text offset =
     (if offset > length text then None
      else (let (msg, was_truncated) = sendpacket (''b'' @ drop offset text)
            in if was_truncated then
                 do { acts \<leftarrow> open_msg_loop text (offset + ICB_MESSAGE_MAX - 1); Some (Send msg # acts) }
               else Some [Send msg]))"

definition icb_send_open_msg :: "string \<Rightarrow> icb_action list option" where
  "icb_send_open_msg text = open_msg_loop text 0"

definition minimum_msgsize :: "64 word" where "minimum_msgsize = 30"

definition mod_offset :: "64 word \<Rightarrow> string \<Rightarrow> 64 word \<times> bool" where
  "mod_offset offset to_who =
     (let off = offset + of_nat ICB_MESSAGE_MAX - 2 - of_nat (length icb_field_sep) - of_nat (length to_who) - 1
      in (off, \<not> off < minimum_msgsize))"

partial_function (option) pm_loop :: "string \<Rightarrow> string \<Rightarrow> 64 word \<Rightarrow> icb_action list option" where
  "pm_loop to_who text offset =
     (if unat offset > length text then None
      else (let (msg, was_truncated) = sendpacket (''hm'' @ icb_field_sep @ to_who @ '' '' @ drop (unat offset) text);
                (offset', ok) = mod_offset offset to_who
            in if was_truncated \<and> \<not> ok then
                 Some [Send msg, Print_active ''icb_send_pm: too long receiver: did not complete transfer'',
                       Log_error ''icb_send_pm: too long receiver'']
               else if was_truncated then
                 do { acts \<leftarrow> pm_loop to_who text offset'; Some (Send msg # acts) }
               else Some [Send msg]))"

definition icb_send_pm :: "string \<Rightarrow> string \<Rightarrow> icb_action list option" where
  "icb_send_pm to_who text = pm_loop to_who text 0"

section \<open>Packets of the server\<close>

type_synonym icb_result = "(icb_action list \<times> icb_state) option"

definition finish :: "icb_action list \<Rightarrow> icb_state \<Rightarrow> icb_result" where
  "finish acts st = Some (acts, st)"

definition contains :: "string \<Rightarrow> string \<Rightarrow> bool" where
  "contains s sub \<longleftrightarrow> strstr s sub \<noteq> None"

definition first_word :: "string \<Rightarrow> string" where
  "first_word data = take (strcspn data '' '') data"

definition notice :: "icb_env \<Rightarrow> icb_state \<Rightarrow> string \<Rightarrow> icb_action" where
  "notice env st data = Event ('':'' @ icb_hostid st @ '' NOTICE '' @ my_nickname env @ '' :'' @ data @ crlf)"

definition login_ok :: "icb_env \<Rightarrow> icb_state \<Rightarrow> icb_result" where
  "login_ok env st =
     (if strings_match (icb_protolevel st) [] \<or> strings_match (icb_hostid st) [] \<or> strings_match (icb_serverid st) []
      then finish [Diagnostic ''login_ok: empty protocol level, host id or server id'', Want_disconnect] st
      else (let h = icb_hostid st; n = my_nickname env;
                motd = (\<lambda>text. '':'' @ h @ '' 372 '' @ n @ '' :'' @ text @ crlf)
            in finish
              [Event ('':'' @ h @ '' 001 '' @ n @ '' :Welcome to ICB, '' @ n @ ''!'' @ crlf),
               Event ('':'' @ h @ '' 002 '' @ n @ '' :Your host is '' @ icb_serverid st
                      @ '', running version '' @ icb_protolevel st @ crlf),
               Event ('':'' @ h @ '' 375 '' @ n @ '' :- '' @ icb_serverid st @ '' Message Of The Day -'' @ crlf),
               Event (motd ''-----------------------------'' @ motd ''   Internet Citizen's Band   ''
                      @ motd ''-----------------------------''),
               Event ('':'' @ h @ '' 376 '' @ n @ '' :End of MOTD'' @ crlf)] st))"

text \<open>Two tokens of the packet data.\<close>

definition two_tokens :: "string \<Rightarrow> (string \<times> string) option" where
  "two_tokens pktdata = do {
     (a, rest) \<leftarrow> strtok_r icb_field_sep pktdata;
     (b, rest') \<leftarrow> strtok_r icb_field_sep rest;
     Some (a, b) }"

definition handle_open_msg_packet :: "icb_env \<Rightarrow> string \<Rightarrow> icb_state \<Rightarrow> icb_result" where
  "handle_open_msg_packet env pktdata st =
     (case two_tokens pktdata of
        None \<Rightarrow> finish [Diagnostic ''handle_open_msg_packet: too few tokens''] st
      | Some (nickname, message) \<Rightarrow>
          (case icb_group st of
             None \<Rightarrow> finish [Diagnostic ''handle_open_msg_packet: not in a group''] st
           | Some g \<Rightarrow> finish [Event ('':'' @ nickname @ '' PRIVMSG #'' @ g @ '' :'' @ message @ crlf)] st))"

definition handle_personal_msg_packet :: "icb_env \<Rightarrow> string \<Rightarrow> icb_state \<Rightarrow> icb_result" where
  "handle_personal_msg_packet env pktdata st =
     (case two_tokens pktdata of
        None \<Rightarrow> finish [Diagnostic ''handle_personal_msg_packet: too few tokens''] st
      | Some (nickname, message) \<Rightarrow>
          finish [Event ('':'' @ nickname @ '' PRIVMSG '' @ my_nickname env @ '' :'' @ message @ crlf)] st)"

definition piano :: string where "piano = ''A piano suddenly falls on ''"
definition dislodging :: string where "dislodging = '', dislodging moderatorship of ''"

definition parsing_ok_idle_mod :: "string \<Rightarrow> string \<Rightarrow> string \<Rightarrow> bool" where
  "parsing_ok_idle_mod nick grp data = strings_match (piano @ nick @ dislodging @ grp @ ''.'') data"

text \<open>An error clears the stored moderator.  \<^verbatim>\<open>stored\<close> is the state at the time of the error.\<close>

definition idle_mod_err :: "icb_state \<Rightarrow> string \<Rightarrow> icb_result" where
  "idle_mod_err st reason =
     finish [Log_error (''deal_with_category_idle_mod: '' @ reason)] (st\<lparr>idle := \<lparr>idle_nick = [], idle_group = []\<rparr>\<rparr>)"

definition deal_with_category_idle_mod :: "icb_env \<Rightarrow> string \<Rightarrow> icb_state \<Rightarrow> icb_result" where
  "deal_with_category_idle_mod env data st =
     (if \<not> strncmp_eq data piano 26 then idle_mod_err st ''unexpected leading string''
      else (let dataptr = drop 26 data in
        case strstr dataptr dislodging of
          None \<Rightarrow> idle_mod_err st ''cannot locate substring''
        | Some cp \<Rightarrow>
            (let nick = take cp dataptr; dataptr2 = drop (length nick) dataptr in
             if \<not> strncmp_eq dataptr2 dislodging 30 then idle_mod_err st ''string mismatch''
             else (let group0 = CHR ''#'' # drop 30 dataptr2;
                       grp = (if last group0 = CHR ''.'' then butlast group0 else group0) in
                if \<not> strings_match_ignore_case grp (get_label st) then idle_mod_err st ''group mismatch''
                else if length nick \<ge> ICB_MESSAGE_MAX then idle_mod_err st ''cannot store nickname''
                else if length grp \<ge> ICB_MESSAGE_MAX then idle_mod_err st ''cannot store group''
                else if \<not> parsing_ok_idle_mod nick (drop 1 grp) data then idle_mod_err st ''parsing not ok!''
                else finish [notice env st data] (st\<lparr>idle := \<lparr>idle_nick = nick, idle_group = grp\<rparr>\<rparr>)))))"

definition changed_nick :: string where "changed_nick = '' changed nickname to ''"

text \<open>
  The pointer into the data skips the old nickname and the phrase; the phrase begins with the
  blank that ends the nickname or later, so the pointer stays inside the data.
\<close>

definition deal_with_category_name :: "string \<Rightarrow> icb_state \<Rightarrow> icb_result" where
  "deal_with_category_name data st =
     (if contains data changed_nick then
        (let old_nick = first_word data; p = length old_nick + length changed_nick
         in if p > length data then None
            else finish [Event ('':'' @ old_nick @ '' NICK :'' @ drop p data @ crlf)] st)
      else finish [] st)"

definition passed1 :: string where "passed1 = '' has passed moderation to ''"
definition passed2 :: string where "passed2 = '' just passed you moderation of group ''"
definition passed3 :: string where "passed3 = '' just passed you moderation of ''"

definition modpass :: "string \<Rightarrow> bool" where
  "modpass data \<longleftrightarrow> contains data passed1 \<or> contains data passed2 \<or> contains data passed3"

definition mode_event :: "icb_env \<Rightarrow> icb_state \<Rightarrow> bool \<Rightarrow> string \<Rightarrow> string \<Rightarrow> icb_action" where
  "mode_event env st by_server nick new_mod =
     (if by_server
      then Event ('':'' @ icb_hostid st @ '' MODE #'' @ pct_s (icb_group st) @ '' +o '' @ new_mod @ crlf)
      else Event ('':'' @ nick @ '' MODE #'' @ pct_s (icb_group st) @ '' -o+o '' @ nick @ '' '' @ new_mod @ crlf))"

definition deal_with_category_pass :: "icb_env \<Rightarrow> string \<Rightarrow> string \<Rightarrow> icb_state \<Rightarrow> icb_result" where
  "deal_with_category_pass env window_label data st =
     (if \<not> modpass data then finish [] st
      else (let nick = first_word data; known = (names_lookup env nick window_label \<noteq> None);
                by_server = (\<not> known) in
        if \<not> known \<and> \<not> strings_match nick ''server'' then finish [] st
        else if contains data passed1 then
          (let p = length nick + length passed1; new_mod = drop p data in
           if p > length data then None
           else if names_lookup env new_mod window_label = None then finish [] st
           else finish [mode_event env st by_server nick new_mod] st)
        else if contains data passed2 \<or> contains data passed3 then
          finish [mode_event env st by_server nick (my_nickname env)] st
        else finish [Icb_assert_not_reached] st))"

definition now_mod :: string where "now_mod = '' is now mod.''"

definition parsing_ok_timeout :: "string \<Rightarrow> string \<Rightarrow> bool" where
  "parsing_ok_timeout new_mod data = strings_match (new_mod @ now_mod) data"

definition deal_with_category_timeout :: "icb_env \<Rightarrow> string \<Rightarrow> icb_state \<Rightarrow> icb_result" where
  "deal_with_category_timeout env data st =
     (let err = (\<lambda>reason. finish [Log_error (''deal_with_category_timeout: '' @ reason)] st) in
      case strstr data now_mod of
        None \<Rightarrow> err ''cannot locate substring''
      | Some cp \<Rightarrow>
          (let new_mod = take cp data; im = idle st in
           if strings_match (idle_nick im) [] \<or> strings_match (idle_group im) [] then err ''idle mod: empty nick/group''
           else case names_lookup env (idle_nick im) (idle_group im) of
             None \<Rightarrow> err ''no such mod''
           | Some (nick, is_op) \<Rightarrow>
               if \<not> is_op then err ''mod not mod''
               else if names_lookup env new_mod (idle_group im) = None then err ''new mod non-existent''
               else if \<not> parsing_ok_timeout new_mod data then err ''parsing not ok!''
               else finish [notice env st data,
                 Event ('':'' @ icb_hostid st @ '' MODE '' @ idle_group im @ '' -o+o '' @ idle_nick im @ '' '' @ new_mod @ crlf)] st))"

definition changed_topic :: string where "changed_topic = '' changed the topic to '' @ [CHR 0x22]"

text \<open>
  The last test on the new topic reads the character before the end; for an empty rest that is
  the character before the array.
\<close>

definition deal_with_category_topic :: "icb_env \<Rightarrow> string \<Rightarrow> string \<Rightarrow> icb_state \<Rightarrow> icb_result" where
  "deal_with_category_topic env window_label data st =
     (if window_names env window_label = None then finish [] st
      else if strings_match data ''The topic is not set.'' then finish [Print_to_group data] st
      else if strncmp_eq data ''The topic is: '' 14 then
        finish [Event ('':'' @ icb_hostid st @ '' 332 '' @ my_nickname env @ '' #'' @ pct_s (icb_group st)
                     @ '' :'' @ drop 14 data @ crlf)] st
      else if contains data changed_topic then
        (case names_lookup env (first_word data) window_label of
           None \<Rightarrow> finish [] st
         | Some (nick, is_op) \<Rightarrow>
             (let concat = nick @ changed_topic in
              if length nick \<ge> ICB_PACKET_MAX \<or> length concat \<ge> ICB_PACKET_MAX
                 \<or> \<not> strncmp_eq data concat (length concat) then finish [] st
              else (let cp = drop (length concat) data in
                if cp = [] then None
                else (let cp' = (if last cp = CHR 0x22 then butlast cp else cp)
                      in finish [Event ('':'' @ nick @ '' TOPIC #'' @ pct_s (icb_group st) @ '' :'' @ cp' @ crlf)] st))))
      else finish [] st)"

definition deal_with_category_status :: "icb_env \<Rightarrow> string \<Rightarrow> icb_state \<Rightarrow> icb_result" where
  "deal_with_category_status env data st =
     (if strncmp_eq data ''You are now in group '' 21 then
        (let part = (case icb_group st of None \<Rightarrow> []
                     | Some g \<Rightarrow> [Event ('':'' @ my_nickname env @ '' PART #'' @ g @ crlf)]);
             g0 = drop 21 data;
             g = (case strstr g0 '' as moderator'' of None \<Rightarrow> g0 | Some cp \<Rightarrow> take cp g0)
         in finish (part @ [Event ('':'' @ my_nickname env @ '' JOIN :#'' @ g @ crlf)] @ icb_send_who g)
              (st\<lparr>icb_group := Some g\<rparr>))
      else finish [] st)"

text \<open>Sign-on and sign-off: nickname, user and host, separated by blanks, parentheses and the at sign.\<close>

definition user_sep :: string where "user_sep = '' (@)''"

definition user_tokens :: "string \<Rightarrow> (string \<times> string \<times> string) option" where
  "user_tokens str =
     (case strtok_r user_sep str of
        None \<Rightarrow> None
      | Some (nick, r1) \<Rightarrow>
          (case strtok_r user_sep r1 of
             None \<Rightarrow> Some (nick, ''<no user>'', ''<no host>'')
           | Some (user, r2) \<Rightarrow>
               (case strtok_r user_sep r2 of
                  None \<Rightarrow> Some (nick, user, ''<no host>'')
                | Some (host, r3) \<Rightarrow> Some (nick, user, host))))"

definition sign_on_arrive :: "string \<Rightarrow> icb_state \<Rightarrow> icb_result" where
  "sign_on_arrive str st =
     (case user_tokens str of
        None \<Rightarrow> finish [Log_error ''sign_on_arrive: no nickname''] st
      | Some (nick, user, host) \<Rightarrow>
          finish [Event ('':'' @ nick @ ''!'' @ user @ ''@'' @ host @ '' JOIN #'' @ pct_s (icb_group st) @ crlf)] st)"

definition sign_off_depart :: "string \<Rightarrow> icb_state \<Rightarrow> icb_result" where
  "sign_off_depart str st =
     (if strncmp_eq str ''Your group moderator'' 20 then finish [] st
      else case user_tokens str of
        None \<Rightarrow> finish [Log_error ''sign_off_depart: no nickname''] st
      | Some (nick, user, host) \<Rightarrow>
          finish [Event ('':'' @ nick @ ''!'' @ user @ ''@'' @ host @ '' PART #'' @ pct_s (icb_group st) @ crlf)] st)"

definition stat_msg :: "string \<Rightarrow> string" where "stat_msg x = x @ icb_field_sep"

definition is_cat :: "string \<Rightarrow> string \<Rightarrow> bool" where
  "is_cat pktdata x = strncmp_eq pktdata (stat_msg x) (length (stat_msg x))"

definition cat_data :: "string \<Rightarrow> string \<Rightarrow> string" where
  "cat_data pktdata x = drop (length (stat_msg x)) pktdata"

text \<open>The replacement of the separators in text that is shown.\<close>

definition show_seps :: "string \<Rightarrow> string" where
  "show_seps s = map (\<lambda>c. if c = field_sep then CHR ''X'' else c) s"

definition and_then :: "icb_result \<Rightarrow> (icb_state \<Rightarrow> icb_result) \<Rightarrow> icb_result" where
  "and_then r f = do { (acts, st) \<leftarrow> r; (acts', st') \<leftarrow> f st; Some (acts @ acts', st') }"

definition handle_status_msg_packet :: "icb_env \<Rightarrow> string \<Rightarrow> icb_state \<Rightarrow> icb_result" where
  "handle_status_msg_packet env pktdata st =
     (if is_cat pktdata ''Boot'' then
        finish (if window_names env (get_label st) \<noteq> None
              then [Print_to_group (''*** '' @ cat_data pktdata ''Boot'')] else []) st
      else if is_cat pktdata ''Idle-Mod'' then deal_with_category_idle_mod env (cat_data pktdata ''Idle-Mod'') st
      else if is_cat pktdata ''Name'' then deal_with_category_name (cat_data pktdata ''Name'') st
      else if is_cat pktdata ''No-Pass'' then finish [Print_status (cat_data pktdata ''No-Pass'')] st
      else if is_cat pktdata ''Notify'' then
        and_then (finish [notice env st (cat_data pktdata ''Notify'')] st)
          (\<lambda>st. if icb_group st \<noteq> None
                then deal_with_category_pass env (get_label st) (cat_data pktdata ''Notify'') st
                else finish [] st)
      else if is_cat pktdata ''Pass'' then deal_with_category_pass env (get_label st) (cat_data pktdata ''Pass'') st
      else if is_cat pktdata ''Sign-on'' then sign_on_arrive (cat_data pktdata ''Sign-on'') st
      else if is_cat pktdata ''Arrive'' then sign_on_arrive (cat_data pktdata ''Arrive'') st
      else if is_cat pktdata ''Sign-off'' then sign_off_depart (cat_data pktdata ''Sign-off'') st
      else if is_cat pktdata ''Depart'' then sign_off_depart (cat_data pktdata ''Depart'') st
      else if is_cat pktdata ''Status'' then deal_with_category_status env (cat_data pktdata ''Status'') st
      else if is_cat pktdata ''Timeout'' then deal_with_category_timeout env (cat_data pktdata ''Timeout'') st
      else if is_cat pktdata ''Topic'' then deal_with_category_topic env (get_label st) (cat_data pktdata ''Topic'') st
      else finish [Print_status ''handle_status_msg_packet: unknown status message category'',
                 Print_status (''packet data: '' @ show_seps pktdata)] st)"

definition bold :: string where "bold = [CHR 0x02]"

definition handle_error_msg_packet :: "string \<Rightarrow> icb_state \<Rightarrow> icb_result" where
  "handle_error_msg_packet pktdata st = finish [Print_active pktdata] st"

definition handle_important_msg_packet :: "icb_env \<Rightarrow> string \<Rightarrow> icb_state \<Rightarrow> icb_result" where
  "handle_important_msg_packet env pktdata st =
     (case two_tokens pktdata of
        None \<Rightarrow> finish [Diagnostic ''handle_important_msg_packet: too few tokens''] st
      | Some (category, msgtext) \<Rightarrow> finish [notice env st (bold @ squeeze_deco env msgtext @ bold)] st)"

definition handle_exit_packet :: "icb_state \<Rightarrow> icb_result" where
  "handle_exit_packet st = finish [Event (''ERROR :Closing Link: Received exit packet'' @ crlf)] st"

definition who_listing :: "icb_env \<Rightarrow> string \<Rightarrow> icb_state \<Rightarrow> icb_result" where
  "who_listing env cp st =
     (if window_names env (get_label st) = Some True then finish [] st
      else case two_tokens cp of
        None \<Rightarrow> finish [Log_error ''who_listing''] st
      | Some (initial_token, nickname) \<Rightarrow>
          (let is_moderator = (\<not> strings_match initial_token '' '')
           in finish [Event ('':'' @ icb_hostid st @ '' 353 '' @ my_nickname env @ '' = #'' @ pct_s (icb_group st)
                @ '' :'' @ (if is_moderator then ''@'' else []) @ nickname @ crlf)] st))"

definition handle_cmd_output_packet :: "icb_env \<Rightarrow> string \<Rightarrow> icb_state \<Rightarrow> icb_result" where
  "handle_cmd_output_packet env pktdata st =
     (if strncmp_eq pktdata ''co'' 2 then
        (let text = squeeze pktdata icb_field_sep; str = ''Group: '' @ pct_s (icb_group st) in
         if length text < 2 then None
         else if window_names env (get_label st) = Some False then
           (if length str \<ge> ICB_PACKET_MAX
            then finish [Print_status (drop 2 text), Log_error ''generic command output''] st
            else finish [Print_status (drop 2 text)]
                   (if strncmp_eq (drop 2 text) str (length str) then st\<lparr>g_icb_processing_names := True\<rparr> else st))
         else finish [Print_status (drop 2 text)] st)
      else if strncmp_eq pktdata ''wh'' 2 then finish [] st
      else if strncmp_eq pktdata ''wl'' 2 then who_listing env (drop 2 pktdata) st
      else finish [Print_status ''handle_cmd_output_packet: unknown output type'',
                 Print_status (''data: '' @ show_seps pktdata)] st)"

definition handle_proto_packet :: "string \<Rightarrow> icb_state \<Rightarrow> icb_result" where
  "handle_proto_packet pktdata st =
     (let err = finish [] (st\<lparr>icb_protolevel := [], icb_hostid := [], icb_serverid := []\<rparr>);
          fits = (\<lambda>s. length s < ICB_PACKET_MAX) in
      case strtok_r icb_field_sep pktdata of
        None \<Rightarrow> err
      | Some (level, r1) \<Rightarrow>
          if \<not> fits level then err else
          (case strtok_r icb_field_sep r1 of
             None \<Rightarrow> err
           | Some (host, r2) \<Rightarrow>
               if \<not> fits host then err else
               (case strtok_r icb_field_sep r2 of
                  None \<Rightarrow> err
                | Some (server, r3) \<Rightarrow>
                    if \<not> fits server then err
                    else finish [] (st\<lparr>icb_protolevel := level, icb_hostid := host, icb_serverid := server\<rparr>))))"

definition handle_beep_packet :: "string option \<Rightarrow> icb_state \<Rightarrow> icb_result" where
  "handle_beep_packet pktdata st =
     (case pktdata of None \<Rightarrow> finish [] st
      | Some p \<Rightarrow> if strings_match p [] then finish [] st
                  else finish [Print_active (''You were beeped by '' @ bold @ p @ bold)] st)"

definition handle_ping_packet :: "string \<Rightarrow> icb_state \<Rightarrow> icb_result" where
  "handle_ping_packet pktdata st = finish (icb_send_pong (Some pktdata)) st"

definition unknown_packet_type :: "int \<Rightarrow> char \<Rightarrow> string \<Rightarrow> icb_state \<Rightarrow> icb_result" where
  "unknown_packet_type len type pktdata st = finish [Print_unknown_packet type len pktdata] st"

definition icb_irc_proxy :: "icb_env \<Rightarrow> int \<Rightarrow> char \<Rightarrow> string \<Rightarrow> icb_state \<Rightarrow> icb_result" where
  "icb_irc_proxy env len type pktdata st =
     (if type = CHR ''a'' then login_ok env st
      else if type = CHR ''b'' then handle_open_msg_packet env pktdata st
      else if type = CHR ''c'' then handle_personal_msg_packet env pktdata st
      else if type = CHR ''d'' then handle_status_msg_packet env pktdata st
      else if type = CHR ''e'' then handle_error_msg_packet pktdata st
      else if type = CHR ''f'' then handle_important_msg_packet env pktdata st
      else if type = CHR ''g'' then handle_exit_packet st
      else if type = CHR ''i'' then handle_cmd_output_packet env pktdata st
      else if type = CHR ''j'' then handle_proto_packet pktdata st
      else if type = CHR ''k'' then handle_beep_packet (Some pktdata) st
      else if type = CHR ''l'' then handle_ping_packet pktdata st
      else unknown_packet_type len type pktdata st)"

definition icb_process_event_eof_names :: "icb_env \<Rightarrow> icb_state \<Rightarrow> icb_result" where
  "icb_process_event_eof_names env st =
     finish [Event ('':'' @ icb_hostid st @ '' 366 '' @ my_nickname env @ '' #'' @ pct_s (icb_group st)
                  @ '' :End of names'' @ crlf)]
          (st\<lparr>g_icb_processing_names := False\<rparr>)"

section \<open>Lemmas: splitting\<close>

text \<open>
  The payloads of the packets of a long text: every full step of the text gives one packet that
  carries one character less.
\<close>

function pieces :: "nat \<Rightarrow> string \<Rightarrow> string list" where
  "pieces step text =
     (if step = 0 \<or> length text < step then [text]
      else take (step - 1) text # pieces step (drop step text))"
  by pat_completeness auto
termination by (relation "measure (\<lambda>(_, text). length text)") auto

declare pieces.simps [simp del]

lemma pieces_short: "length text < step \<Longrightarrow> pieces step text = [text]"
  by (subst pieces.simps) simp

lemma pieces_long:
  "\<lbrakk>0 < step; step \<le> length text\<rbrakk> \<Longrightarrow> pieces step text = take (step - 1) text # pieces step (drop step text)"
  by (subst pieces.simps) simp

lemma pieces_bound: "\<lbrakk>0 < step; p \<in> set (pieces step xs)\<rbrakk> \<Longrightarrow> length p < step"
proof (induction step xs rule: pieces.induct)
  case (1 step xs)
  then show ?case
    by (cases "length xs < step") (auto simp: pieces_short pieces_long not_less)
qed

lemma pieces_length:
  "0 < step \<Longrightarrow> length (concat (pieces step xs)) + length xs div step = length xs"
proof (induction step xs rule: pieces.induct)
  case (1 step xs)
  show ?case
  proof (cases "length xs < step")
    case True
    then show ?thesis by (simp add: pieces_short)
  next
    case False
    then have "length xs div step = Suc (length (drop step xs) div step)"
      using 1 by (simp add: le_div_geq)
    then show ?thesis using 1 False by (simp add: pieces_long not_less)
  qed
qed

lemma pieces_loss:
  assumes "0 < step"
  shows "length (concat (pieces step xs)) = length xs - length xs div step
    \<and> (concat (pieces step xs) = xs \<longleftrightarrow> length xs < step)"
proof -
  have len: "length (concat (pieces step xs)) + length xs div step = length xs"
    by (rule pieces_length [OF assms])
  have "length xs < step" if "concat (pieces step xs) = xs"
    using that len assms by (simp add: div_eq_0_iff)
  moreover have "concat (pieces step xs) = xs" if "length xs < step"
    using that by (simp add: pieces_short)
  ultimately show ?thesis using len by auto
qed

lemma sendpacket_short: "length s \<le> 252 \<Longrightarrow> sendpacket s = (s, False)"
  and sendpacket_long: "252 < length s \<Longrightarrow> sendpacket s = (take 252 s, True)"
  by (simp_all add: sendpacket_def ICB_MESSAGE_MAX_def)

lemma open_msg_loop_eq:
  "offset \<le> length text \<Longrightarrow>
   open_msg_loop text offset = Some (map (\<lambda>p. Send (CHR ''b'' # p)) (pieces 252 (drop offset text)))"
proof (induction "length text - offset" arbitrary: offset rule: less_induct)
  case less
  show ?case
  proof (cases "length text - offset < 252")
    case True
    then show ?thesis
      using less.prems by (subst open_msg_loop.simps) (simp add: sendpacket_short pieces_short)
  next
    case False
    then have "open_msg_loop text (offset + 252)
        = Some (map (\<lambda>p. Send (CHR ''b'' # p)) (pieces 252 (drop (offset + 252) text)))"
      using less by auto
    then show ?thesis
      using less.prems False
      by (subst open_msg_loop.simps) (simp add: sendpacket_long pieces_long ICB_MESSAGE_MAX_def add.commute)
  qed
qed

definition pm_header :: "string \<Rightarrow> string" where
  "pm_header to_who = ''hm'' @ icb_field_sep @ to_who @ '' ''"

lemma length_pm_header [simp]: "length (pm_header to_who) = 4 + length to_who"
  by (simp add: pm_header_def icb_field_sep_def)

lemma pm_loop_unfold:
  "pm_loop to_who msg offset =
     (if unat offset > length msg then None
      else case sendpacket (pm_header to_who @ drop (unat offset) msg) of (m, was_truncated) \<Rightarrow>
        (case mod_offset offset to_who of (offset', ok) \<Rightarrow>
           if was_truncated \<and> \<not> ok then
             Some [Send m, Print_active ''icb_send_pm: too long receiver: did not complete transfer'',
                   Log_error ''icb_send_pm: too long receiver'']
           else if was_truncated then
             do { acts \<leftarrow> pm_loop to_who msg offset'; Some (Send m # acts) }
           else Some [Send m]))"
  by (subst pm_loop.simps) (simp only: pm_header_def append_assoc Let_def split_def)

lemma mod_offset_ok:
  assumes "length to_who \<le> 219" "off < 2 ^ 63"
  shows "mod_offset (of_nat off) to_who = (of_nat (off + (249 - length to_who)), True)"
proof -
  have e: "(of_nat off :: 64 word) + of_nat 253 - 2 - of_nat 1 - of_nat (length to_who) - 1
      = of_nat (off + (249 - length to_who))"
    using assms(1) by (simp add: of_nat_diff)
  define m where "m = off + (249 - length to_who)"
  have m: "30 \<le> m" "m < 2 ^ 64" using assms by (auto simp: m_def)
  then have "unat (of_nat m :: 64 word) = m" by (simp add: unat_of_nat)
  then have "\<not> (of_nat m :: 64 word) < 30" using m(1) by (simp add: word_less_nat_alt)
  then show ?thesis
    using e by (simp add: m_def [symmetric] mod_offset_def minimum_msgsize_def icb_field_sep_def ICB_MESSAGE_MAX_def Let_def)
qed

lemma pm_loop_eq:
  assumes "length to_who \<le> 219" "length msg < 2 ^ 62"
  shows "off \<le> length msg \<Longrightarrow> pm_loop to_who msg (of_nat off)
    = Some (map (\<lambda>p. Send (pm_header to_who @ p)) (pieces (249 - length to_who) (drop off msg)))"
proof (induction "length msg - off" arbitrary: off rule: less_induct)
  case less
  let ?step = "249 - length to_who" and ?rest = "drop off msg"
  have off: "unat (of_nat off :: 64 word) = off" using less.prems assms(2) by (simp add: unat_of_nat)
  have modo: "mod_offset (of_nat off) to_who = (of_nat (off + ?step), True)"
    using mod_offset_ok [OF assms(1), of off] less.prems assms(2) by simp
  show ?case
  proof (cases "length ?rest < ?step")
    case True
    then have "length (pm_header to_who @ ?rest) \<le> 252" by simp
    then show ?thesis
      using less.prems True
      by (subst pm_loop_unfold) (simp add: off sendpacket_short pieces_short modo del: of_nat_add length_drop)
  next
    case False
    then have long: "252 < length (pm_header to_who @ ?rest)" using assms(1) by simp
    have "take 252 (pm_header to_who @ ?rest) = pm_header to_who @ take (?step - 1) ?rest"
      using assms(1) by simp
    then have sp: "sendpacket (pm_header to_who @ ?rest) = (pm_header to_who @ take (?step - 1) ?rest, True)"
      using sendpacket_long [OF long] by simp
    have IH: "pm_loop to_who msg (of_nat (off + ?step))
        = Some (map (\<lambda>p. Send (pm_header to_who @ p)) (pieces ?step (drop (off + ?step) msg)))"
      using less.hyps [of "off + ?step"] False assms(1) by simp
    have "pieces ?step ?rest = take (?step - 1) ?rest # pieces ?step (drop (off + ?step) msg)"
      using pieces_long [of ?step ?rest] False assms(1) by (simp add: add.commute)
    then show ?thesis
      using less.prems IH
      by (subst pm_loop_unfold) (simp add: off sp modo del: of_nat_add)
  qed
qed

lemma pm_long_receiver:
  assumes "219 < length to_who" "length to_who \<le> 249"
  shows "pm_loop to_who msg 0 =
    (if length to_who + length msg < 249 then Some [Send (pm_header to_who @ msg)]
     else Some [Send (take 252 (pm_header to_who @ msg)),
                Print_active ''icb_send_pm: too long receiver: did not complete transfer'',
                Log_error ''icb_send_pm: too long receiver''])"
proof -
  define m where "m = 249 - length to_who"
  have "(253 - 2 - 1 - of_nat (length to_who) - 1 :: 64 word) = of_nat m"
    using assms(2) by (simp add: m_def of_nat_diff)
  moreover have m: "m < 30" using assms by (simp add: m_def)
  moreover have "(of_nat m :: 64 word) < 30"
    using m by (simp add: word_less_nat_alt unat_of_nat)
  ultimately have "mod_offset 0 to_who = (of_nat m, False)"
    by (simp add: mod_offset_def minimum_msgsize_def icb_field_sep_def ICB_MESSAGE_MAX_def Let_def)
  then show ?thesis
    by (subst pm_loop_unfold) (simp add: sendpacket_def ICB_MESSAGE_MAX_def)
qed

lemma pm_receiver_wraps:
  assumes "249 < length to_who" "length to_who < 2 ^ 62" "length msg < 2 ^ 62"
  shows "pm_loop to_who msg 0 = None"
proof -
  define k where "k = length to_who - 249"
  have k: "0 < k" "k < 2 ^ 62" using assms by (simp_all add: k_def)
  define m :: nat where "m = 2 ^ 64 - k"
  define w :: "64 word" where "w = of_nat m"
  have m: "m < 2 ^ 64" "m + k = 2 ^ 64" using k by (simp_all add: m_def)
  have "w + of_nat k = of_nat (2 ^ 64)" using m(2) by (metis of_nat_add w_def)
  then have "w = - of_nat k" by (simp add: eq_neg_iff_add_eq_0)
  then have "(253 - 2 - 1 - of_nat (length to_who) - 1 :: 64 word) = w"
    using assms(1) by (simp add: k_def of_nat_diff)
  moreover have u: "unat w = 2 ^ 64 - k"
    using m k by (simp add: w_def unat_of_nat)
  moreover have "\<not> w < 30" using u k by (simp add: word_less_nat_alt)
  ultimately have m: "mod_offset 0 to_who = (w, True)"
    by (simp add: mod_offset_def minimum_msgsize_def icb_field_sep_def ICB_MESSAGE_MAX_def Let_def)
  have "length msg < unat w" unfolding u using k assms(3) by simp
  then have "pm_loop to_who msg w = None" by (subst pm_loop_unfold) simp
  moreover have "252 < length (pm_header to_who @ msg)" using assms(1) by simp
  ultimately show ?thesis
    by (subst pm_loop_unfold) (simp add: m sendpacket_long del: length_append)
qed

section \<open>Lemmas: events\<close>

definition plain :: "string \<Rightarrow> bool" where
  "plain s \<longleftrightarrow> set s \<inter> {nul, CHR 0x0D, lf} = {}"

lemma plain_simps [simp]:
  "plain (a @ b) \<longleftrightarrow> plain a \<and> plain b" "plain (c # a) \<longleftrightarrow> c \<notin> {nul, CHR 0x0D, lf} \<and> plain a" "plain []"
  by (auto simp: plain_def)

lemma process_event_line:
  assumes "plain s" "s \<noteq> []"
  shows "\<exists>buf. process_event (s @ crlf) = Some (ProcessProtoMsg s, buf)"
proof -
  have "good_chunk [] (s @ crlf)"
    using assms by (intro good_chunkI [of _ "s @ [CHR 0x0D]" lf "[]"])
      (auto simp: plain_def separators_def nul_def dest: strtoks_tokens)
  then obtain st' where ev: "interpret_chunk (s @ crlf) empty_concat
      = Some (complete_messages ([] @ s @ crlf), False, st')"
    using interpret_chunk_good [OF empty_holds] by blast
  have "complete_messages (s @ crlf) = strtoks separators (s @ [CHR 0x0D])"
    using unterminated_split(2) [of lf "[]" "s @ [CHR 0x0D]"] by (simp add: separators_def)
  also have "\<dots> = [s]"
    using strtoks_word(2) [of s separators "CHR 0x0D" "[]"] assms by (auto simp: plain_def separators_def)
  finally show ?thesis
    using ev by (simp add: process_event_def irc_handle_interpret_events_def)
qed

lemma ProcessProtoMsg_line:
  assumes "message_parts pfx c p" "map_of normal_events c = Some h" "is_alphabetic (Some c)"
  shows "ProcessProtoMsg (message_line pfx c p) = [Event_handler h
    (compo_init\<lparr>prefix' := map_option (\<lambda>x. CHR '':'' # x) pfx, command := Some c, params := Some p\<rparr>)]"
  using SortMsgCompo_line [OF assms(1)] assms(2,3)
  by (simp add: ProcessProtoMsg_def irc_search_and_route_event_def handle_normal_event_def normal_loop_eq cmd_def)

lemma two_tokens_fields:
  assumes "a \<noteq> []" "b \<noteq> []" "field_sep \<notin> set a" "field_sep \<notin> set b"
  shows "two_tokens (a @ field_sep # b) = Some (a, b)"
  using strtok_r_word(1) [of a icb_field_sep field_sep b] strtok_r_word(2) [of b icb_field_sep] assms
  by (simp add: two_tokens_def icb_field_sep_def)

section \<open>Lemmas: staying inside the packet\<close>

lemma first_word_before:
  assumes "strstr data p = Some n" "p \<noteq> []" "hd p = CHR '' ''"
  shows "length (first_word data) + length p \<le> length data"
proof -
  have n: "prefix p (drop n data)" using strstr_Some [OF assms(1)] by blast
  then have len: "n + length p \<le> length data"
    using assms(2) strstr_Some [OF assms(1)] prefix_length_le by fastforce
  have "n < length data" using len assms(2) by (cases p) auto
  moreover have "data ! n = CHR '' ''"
    using n assms(2,3) \<open>n < length data\<close> by (cases p; auto simp: prefix_def Cons_nth_drop_Suc [symmetric])
  ultimately have "strcspn data '' '' \<le> n"
    unfolding strcspn_def by (metis (mono_tags, lifting) length_takeWhile_le list.set_intros(1) nth_mem not_le
        nth_length_takeWhile set_takeWhileD takeWhile_nth)
  then have "length (first_word data) \<le> n" by (simp add: first_word_def)
  then show ?thesis using len by linarith
qed

lemma name_in_bounds: "deal_with_category_name data st \<noteq> None"
proof -
  have "length (first_word data) + length changed_nick \<le> length data" if "contains data changed_nick"
    using that first_word_before [of data changed_nick] by (auto simp: contains_def changed_nick_def)
  then show ?thesis by (auto simp: deal_with_category_name_def finish_def Let_def)
qed

lemma pass_in_bounds:
  "\<exists>acts st'. deal_with_category_pass env label data st = Some (acts, st') \<and> Icb_assert_not_reached \<notin> set acts \<and> st' = st"
proof -
  have "length (first_word data) + length passed1 \<le> length data" if "contains data passed1"
    using that first_word_before [of data passed1] by (auto simp: contains_def passed1_def)
  then show ?thesis
    by (auto simp: deal_with_category_pass_def finish_def modpass_def mode_event_def Let_def)
qed

lemma topic_in_bounds:
  "deal_with_category_topic env label data st = None \<Longrightarrow> \<exists>nick. data = nick @ changed_topic"
proof -
  assume n: "deal_with_category_topic env label data st = None"
  then obtain nick where "strncmp_eq data (nick @ changed_topic) (length (nick @ changed_topic))"
    "drop (length (nick @ changed_topic)) data = []"
    by (auto simp: deal_with_category_topic_def finish_def Let_def split: if_splits option.splits)
  then have "data = nick @ changed_topic"
    unfolding strncmp_eq_def by (metis append_Nil2 append_take_drop_id take_all order_refl)
  then show ?thesis by blast
qed

lemma squeeze_co: "strncmp_eq s ''co'' 2 \<Longrightarrow> 2 \<le> length (squeeze s icb_field_sep)"
proof -
  assume "strncmp_eq s ''co'' 2"
  then obtain r where "s = ''co'' @ r"
    unfolding strncmp_eq_def by (metis append_take_drop_id length_Cons list.size(3) numeral_2_eq_2 order_refl take_all)
  then show ?thesis by (simp add: squeeze_eq icb_field_sep_def field_sep_def)
qed

lemmas icb_handlers = login_ok_def handle_open_msg_packet_def handle_personal_msg_packet_def
  handle_error_msg_packet_def handle_important_msg_packet_def handle_exit_packet_def
  handle_beep_packet_def handle_ping_packet_def unknown_packet_type_def
  deal_with_category_idle_mod_def idle_mod_err_def deal_with_category_timeout_def
  deal_with_category_status_def sign_on_arrive_def sign_off_depart_def who_listing_def notice_def
  icb_send_pong_def icb_send_who_def send1_def finish_def

definition acceptable :: "icb_state \<Rightarrow> bool" where
  "acceptable st \<longleftrightarrow> length (icb_protolevel st) < ICB_PACKET_MAX \<and> length (icb_hostid st) < ICB_PACKET_MAX
     \<and> length (icb_serverid st) < ICB_PACKET_MAX
     \<and> length (idle_nick (idle st)) < ICB_MESSAGE_MAX \<and> length (idle_group (idle st)) < ICB_MESSAGE_MAX"

text \<open>What the handling of a packet keeps: the arrays hold their strings and no assertion fails.\<close>

definition packet_ok :: "icb_result \<Rightarrow> bool" where
  "packet_ok r \<longleftrightarrow> (case r of None \<Rightarrow> False | Some (acts, st) \<Rightarrow> acceptable st \<and> Icb_assert_not_reached \<notin> set acts)"

lemma packet_ok_finish [simp]:
  "packet_ok (finish acts st) \<longleftrightarrow> acceptable st \<and> Icb_assert_not_reached \<notin> set acts"
  by (simp add: packet_ok_def finish_def)

lemma packet_ok_if: "\<lbrakk>b \<Longrightarrow> packet_ok x; \<not> b \<Longrightarrow> packet_ok y\<rbrakk> \<Longrightarrow> packet_ok (if b then x else y)"
  by simp

lemma acceptable_upd [simp]:
  "acceptable (st\<lparr>icb_group := g\<rparr>) = acceptable st"
  "acceptable (st\<lparr>g_icb_processing_names := b\<rparr>) = acceptable st"
  by (simp_all add: acceptable_def)

lemma name_ok: "acceptable st \<Longrightarrow> packet_ok (deal_with_category_name data st)"
  using name_in_bounds [of data st] by (auto simp: deal_with_category_name_def Let_def finish_def packet_ok_def)

lemma pass_ok: "acceptable st \<Longrightarrow> packet_ok (deal_with_category_pass env label data st)"
  using pass_in_bounds [of env label data st] by (auto simp: packet_ok_def)

lemma topic_ok:
  "\<lbrakk>acceptable st; \<nexists>nick. data = nick @ changed_topic\<rbrakk> \<Longrightarrow> packet_ok (deal_with_category_topic env label data st)"
  using topic_in_bounds [of env label data st]
  by (auto simp: deal_with_category_topic_def Let_def split: option.splits)

lemma idle_mod_ok: "acceptable st \<Longrightarrow> packet_ok (deal_with_category_idle_mod env data st)"
  by (auto simp: deal_with_category_idle_mod_def idle_mod_err_def Let_def notice_def acceptable_def
      ICB_MESSAGE_MAX_def split: option.splits)

lemma category_ok:
  assumes "acceptable st"
  shows "packet_ok (deal_with_category_timeout env data st)" "packet_ok (deal_with_category_status env data st)"
    "packet_ok (sign_on_arrive str st)" "packet_ok (sign_off_depart str st)" "packet_ok (who_listing env cp st)"
  using assms
  by (auto simp: deal_with_category_timeout_def deal_with_category_status_def sign_on_arrive_def
      sign_off_depart_def who_listing_def notice_def icb_send_who_def send1_def Let_def split: option.splits)

lemma status_ok:
  assumes "acceptable st" "\<not> (is_cat pktdata ''Topic'' \<and> (\<exists>nick. cat_data pktdata ''Topic'' = nick @ changed_topic))"
  shows "packet_ok (handle_status_msg_packet env pktdata st)"
proof -
  have notify: "packet_ok (and_then (finish [notice env st d] st)
      (\<lambda>st. if icb_group st \<noteq> None then deal_with_category_pass env (get_label st) d st else finish [] st))" for d
    using assms(1) pass_in_bounds [of env "get_label st" d st]
    by (auto simp: and_then_def finish_def packet_ok_def notice_def)
  show ?thesis
    unfolding handle_status_msg_packet_def
    by (intro packet_ok_if notify idle_mod_ok name_ok pass_ok topic_ok category_ok assms(1))
      (use assms in auto)
qed

lemma cmd_output_ok: "acceptable st \<Longrightarrow> packet_ok (handle_cmd_output_packet env pktdata st)"
  using squeeze_co [of pktdata] category_ok(5)
  by (auto simp: handle_cmd_output_packet_def Let_def)

lemma proto_ok: "acceptable st \<Longrightarrow> packet_ok (handle_proto_packet pktdata st)"
  by (auto simp: handle_proto_packet_def Let_def acceptable_def ICB_PACKET_MAX_def split: option.splits)

lemma proxy_ok:
  assumes "acceptable st"
    and "\<not> (type = CHR ''d'' \<and> is_cat data ''Topic'' \<and> (\<exists>nick. cat_data data ''Topic'' = nick @ changed_topic))"
  shows "packet_ok (icb_irc_proxy env len type data st)"
proof -
  have "packet_ok (login_ok env st)" "packet_ok (handle_open_msg_packet env data st)"
    "packet_ok (handle_personal_msg_packet env data st)" "packet_ok (handle_error_msg_packet data st)"
    "packet_ok (handle_important_msg_packet env data st)" "packet_ok (handle_exit_packet st)"
    "packet_ok (handle_beep_packet (Some data) st)" "packet_ok (handle_ping_packet data st)"
    "packet_ok (unknown_packet_type len type data st)"
    using assms(1)
    by (auto simp: login_ok_def handle_open_msg_packet_def handle_personal_msg_packet_def
        handle_error_msg_packet_def handle_important_msg_packet_def handle_exit_packet_def
        handle_beep_packet_def handle_ping_packet_def unknown_packet_type_def notice_def
        icb_send_pong_def send1_def Let_def split: option.splits)
  then show ?thesis
    using assms status_ok cmd_output_ok proto_ok by (simp add: icb_irc_proxy_def)
qed

section \<open>Properties\<close>

text \<open>
  Property C7. An open or personal message of the server arrives as the IRC event it stands for:
  for a nickname, group and text without separators and line ends the translated event makes the
  IRC core call exactly the PRIVMSG handler, with the sender as prefix and the group or the own
  nickname and the text as parameters.
\<close>

theorem icb_message_translated:
  assumes "nick \<noteq> []" "CHR '' '' \<notin> set nick" "msg \<noteq> []" "field_sep \<notin> set nick" "field_sep \<notin> set msg"
    and "plain nick" "plain msg" "plain g" "plain (my_nickname env)"
    and "icb_group st = Some g"
  shows "(\<exists>e buf. icb_irc_proxy env len CHR ''b'' (nick @ field_sep # msg) st = Some ([Event e], st)
      \<and> process_event e = Some ([Event_handler ''event_privmsg'' (compo_init
          \<lparr>prefix' := Some (CHR '':'' # nick), command := Some ''PRIVMSG'', params := Some (''#'' @ g @ '' :'' @ msg)\<rparr>)], buf))
    \<and> (\<exists>e buf. icb_irc_proxy env len CHR ''c'' (nick @ field_sep # msg) st = Some ([Event e], st)
      \<and> process_event e = Some ([Event_handler ''event_privmsg'' (compo_init
          \<lparr>prefix' := Some (CHR '':'' # nick), command := Some ''PRIVMSG'', params := Some (my_nickname env @ '' :'' @ msg)\<rparr>)], buf))"
proof -
  have privmsg: "map_of normal_events ''PRIVMSG'' = Some ''event_privmsg''" "is_alphabetic (Some ''PRIVMSG'')"
    "wordy ''PRIVMSG''" by code_simp+
  have ev: "\<exists>buf. process_event (message_line (Some nick) ''PRIVMSG'' p @ crlf) = Some ([Event_handler ''event_privmsg''
      (compo_init\<lparr>prefix' := Some (CHR '':'' # nick), command := Some ''PRIVMSG'', params := Some p\<rparr>)], buf)"
    if "plain p" "p \<noteq> []" for p
  proof -
    have "message_parts (Some nick) ''PRIVMSG'' p"
      using assms that privmsg(3) by (auto simp: message_parts_def plain_def)
    moreover have "plain (message_line (Some nick) ''PRIVMSG'' p)" "message_line (Some nick) ''PRIVMSG'' p \<noteq> []"
      using assms that by (auto simp: message_line_def nul_def)
    ultimately show ?thesis
      using process_event_line ProcessProtoMsg_line [OF _ privmsg(1,2)] by fastforce
  qed
  have tok: "two_tokens (nick @ field_sep # msg) = Some (nick, msg)"
    using two_tokens_fields assms by blast
  have "plain (''#'' @ g @ '' :'' @ msg)" "plain (my_nickname env @ '' :'' @ msg)"
    using assms by (auto simp: nul_def)
  then show ?thesis
    using ev [of "''#'' @ g @ '' :'' @ msg"] ev [of "my_nickname env @ '' :'' @ msg"] assms(10)
    by (auto simp: icb_irc_proxy_def handle_open_msg_packet_def handle_personal_msg_packet_def tok finish_def
        message_line_def)
qed

definition test_env :: icb_env where
  "test_env = \<lparr>my_nickname = ''me'', names_lookup = (\<lambda>nick label. if nick = ''joe'' then Some (''joe'', True) else None),
     window_names = (\<lambda>label. Some False), squeeze_deco = (\<lambda>s. s)\<rparr>"

definition test_state :: icb_state where
  "test_state = \<lparr>icb_protolevel = ''1'', icb_hostid = ''icb.net'', icb_serverid = ''srv'', icb_group = Some ''grp'',
     idle = \<lparr>idle_nick = [], idle_group = []\<rparr>, g_icb_processing_names = False\<rparr>"

theorem icb_message_translated_witness:
  "\<exists>e buf. icb_irc_proxy test_env 7 CHR ''b'' (''joe'' @ field_sep # ''hi'') test_state = Some ([Event e], test_state)
    \<and> process_event e = Some ([Event_handler ''event_privmsg'' (compo_init
        \<lparr>prefix' := Some '':joe'', command := Some ''PRIVMSG'', params := Some ''#grp :hi''\<rparr>)], buf)"
  using icb_message_translated [of "''joe''" "''hi''" "''grp''" test_env test_state 7]
  by (simp add: field_sep_def nul_def test_env_def test_state_def)

text \<open>
  Property C8. Whatever the server sends, the handling of a packet stays inside the packet and
  inside the fixed arrays, keeps the stored strings within the arrays, and no assertion fails;
  the one exception is a topic change with nothing behind the opening quote, where the character
  before the array is read.
\<close>

theorem icb_packet_safe:
  assumes "acceptable st"
    and "\<not> (type = CHR ''d'' \<and> is_cat data ''Topic'' \<and> (\<exists>nick. cat_data data ''Topic'' = nick @ changed_topic))"
  shows "\<exists>acts st'. icb_irc_proxy env len type data st = Some (acts, st') \<and> acceptable st'
    \<and> Icb_assert_not_reached \<notin> set acts"
  using proxy_ok [OF assms, of env len] by (auto simp: packet_ok_def split: option.splits)

theorem icb_packet_safe_witness:
  "\<exists>acts st'. icb_irc_proxy test_env 20 CHR ''d'' (stat_msg ''Sign-on'' @ ''ann (a@b)'') test_state = Some (acts, st')
    \<and> acceptable st' \<and> Icb_assert_not_reached \<notin> set acts"
proof -
  have "acceptable test_state" "\<not> is_cat (stat_msg ''Sign-on'' @ ''ann (a@b)'') ''Topic''" by code_simp+
  then show ?thesis using icb_packet_safe [of test_state "CHR ''d''" _ test_env 20] by blast
qed





text \<open>
  Property C9. Long texts are sent as a sequence of packets of at most 252 characters: an open message in steps of 252
  characters, and the sending ends; a personal message in steps
  of 249 less the length of the receiver, as long as the receiver has at most 219 characters.
  With a receiver of up to 249 characters a text that does not fit is reported and not completed.  With a longer
  receiver the offset wraps around below zero, passes the check for a minimum and the text is read outside of
  its bounds, whatever the text is.
\<close>

theorem icb_messages_split:
  assumes "length msg < 2 ^ 62" "length to_who < 2 ^ 62"
  shows "icb_send_open_msg msg = Some (map (\<lambda>p. Send (CHR ''b'' # p)) (pieces 252 msg))
    \<and> icb_send_pm to_who msg =
      (if length to_who \<le> 219
       then Some (map (\<lambda>p. Send (pm_header to_who @ p)) (pieces (249 - length to_who) msg))
       else if 249 < length to_who then None
       else if length to_who + length msg < 249 then Some [Send (pm_header to_who @ msg)]
       else Some [Send (take 252 (pm_header to_who @ msg)),
                  Print_active ''icb_send_pm: too long receiver: did not complete transfer'',
                  Log_error ''icb_send_pm: too long receiver''])
    \<and> (\<forall>p\<in>set (pieces 252 msg). length (CHR ''b'' # p) \<le> 252)
    \<and> (\<forall>p\<in>set (pieces (249 - length to_who) msg). length to_who \<le> 219 \<longrightarrow> length (pm_header to_who @ p) \<le> 252)"
proof -
  have "icb_send_open_msg msg = Some (map (\<lambda>p. Send (CHR ''b'' # p)) (pieces 252 msg))"
    using open_msg_loop_eq [of 0 msg] by (simp add: icb_send_open_msg_def)
  moreover have "icb_send_pm to_who msg = Some (map (\<lambda>p. Send (pm_header to_who @ p)) (pieces (249 - length to_who) msg))"
    if "length to_who \<le> 219"
    using pm_loop_eq [OF that assms(1), of 0] by (simp add: icb_send_pm_def)
  moreover have "icb_send_pm to_who msg =
      (if length to_who + length msg < 249 then Some [Send (pm_header to_who @ msg)]
       else Some [Send (take 252 (pm_header to_who @ msg)),
                  Print_active ''icb_send_pm: too long receiver: did not complete transfer'',
                  Log_error ''icb_send_pm: too long receiver''])"
    if "219 < length to_who" "length to_who \<le> 249"
    using pm_long_receiver [OF that, of msg] by (simp add: icb_send_pm_def)
  moreover have "icb_send_pm to_who msg = None" if "249 < length to_who"
    using pm_receiver_wraps [OF that assms(2,1)] by (simp add: icb_send_pm_def)
  moreover have "\<forall>p\<in>set (pieces 252 msg). length (CHR ''b'' # p) \<le> 252"
    using pieces_bound [of 252 _ msg] by fastforce
  moreover have "\<forall>p\<in>set (pieces (249 - length to_who) msg). length to_who \<le> 219 \<longrightarrow> length (pm_header to_who @ p) \<le> 252"
    using pieces_bound [of "249 - length to_who" _ msg] by fastforce
  ultimately show ?thesis by simp
qed

theorem icb_messages_split_witness:
  "icb_send_pm ''joe'' ''hi'' = Some [Send (''hm'' @ icb_field_sep @ ''joe hi'')]"
  using icb_messages_split [of "''hi''" "''joe''"] by (simp add: pieces_short pm_header_def)

text \<open>
  The splitting loses text: each packet but the last carries one character less than
  the offset advances, so of a text of n characters sent in steps of s characters (252, or 249
  less the receiver's length) exactly the quotient n / s are never sent; only a text that fits into one packet arrives whole.
\<close>

theorem icb_split_loses_characters:
  assumes "length to_who \<le> 219" "length msg < 2 ^ 62"
  shows "(\<exists>ps. icb_send_open_msg msg = Some (map (\<lambda>p. Send (CHR ''b'' # p)) ps)
      \<and> length (concat ps) = length msg - length msg div 252
      \<and> (concat ps = msg \<longleftrightarrow> length msg < 252))
    \<and> (\<exists>ps. icb_send_pm to_who msg = Some (map (\<lambda>p. Send (pm_header to_who @ p)) ps)
      \<and> length (concat ps) = length msg - length msg div (249 - length to_who)
      \<and> (concat ps = msg \<longleftrightarrow> length msg < 249 - length to_who))"
proof -
  have "icb_send_open_msg msg = Some (map (\<lambda>p. Send (CHR ''b'' # p)) (pieces 252 msg))"
    using open_msg_loop_eq [of 0 msg] by (simp add: icb_send_open_msg_def)
  moreover have "icb_send_pm to_who msg = Some (map (\<lambda>p. Send (pm_header to_who @ p)) (pieces (249 - length to_who) msg))"
    using pm_loop_eq [OF assms, of 0] by (simp add: icb_send_pm_def)
  ultimately show ?thesis
    using pieces_loss [of 252 msg] pieces_loss [of "249 - length to_who" msg] assms(1) by auto
qed

theorem icb_split_loses_characters_witness:
  "\<exists>ps. icb_send_open_msg (replicate 251 CHR ''a'' @ ''XY'') = Some (map (\<lambda>p. Send (CHR ''b'' # p)) ps)
     \<and> length (concat ps) = 252"
  using icb_split_loses_characters [of "''joe''" "replicate 251 CHR ''a'' @ ''XY''"] by auto

text \<open>
  After a protocol packet with three fields that fit and the login packet the IRC
  core sees the registration of an IRC server: the welcome, the host, and the message of the day
  from its start to its end, in this order; without the fields the client disconnects.
\<close>

theorem icb_login_sequence:
  assumes "level \<noteq> []" "host \<noteq> []" "server \<noteq> []"
    and "field_sep \<notin> set level" "field_sep \<notin> set host" "field_sep \<notin> set server"
    and "length level < 255" "length host < 255" "length server < 255"
  shows "\<exists>st'. icb_irc_proxy env len CHR ''j'' (level @ field_sep # host @ field_sep # server) st = Some ([], st')
    \<and> st' = st\<lparr>icb_protolevel := level, icb_hostid := host, icb_serverid := server\<rparr>
    \<and> (\<exists>e1 e2 e3 e4 e5. icb_irc_proxy env len' CHR ''a'' data st' = Some (map Event [e1, e2, e3, e4, e5], st')
        \<and> prefix ('':'' @ host @ '' 001 '' @ my_nickname env) e1 \<and> prefix ('':'' @ host @ '' 002 '' @ my_nickname env) e2
        \<and> prefix ('':'' @ host @ '' 375 '' @ my_nickname env) e3 \<and> prefix ('':'' @ host @ '' 372 '' @ my_nickname env) e4
        \<and> prefix ('':'' @ host @ '' 376 '' @ my_nickname env) e5)
    \<and> icb_irc_proxy env len' CHR ''a'' data (st\<lparr>icb_hostid := []\<rparr>)
      = Some ([Diagnostic ''login_ok: empty protocol level, host id or server id'', Want_disconnect], st\<lparr>icb_hostid := []\<rparr>)"
proof -
  have tok: "strtok_r icb_field_sep (level @ field_sep # host @ field_sep # server) = Some (level, host @ field_sep # server)"
    "strtok_r icb_field_sep (host @ field_sep # server) = Some (host, server)"
    "strtok_r icb_field_sep server = Some (server, [])"
    using assms strtok_r_word(1) [of level icb_field_sep field_sep] strtok_r_word(1) [of host icb_field_sep field_sep]
      strtok_r_word(2) [of server icb_field_sep] by (simp_all add: icb_field_sep_def)
  have "handle_proto_packet (level @ field_sep # host @ field_sep # server) st
      = Some ([], st\<lparr>icb_protolevel := level, icb_hostid := host, icb_serverid := server\<rparr>)"
    using assms by (simp add: handle_proto_packet_def tok finish_def Let_def ICB_PACKET_MAX_def)
  then show ?thesis
    using assms(1-3) by (simp add: icb_irc_proxy_def login_ok_def finish_def Let_def)
qed

theorem icb_login_sequence_witness:
  "\<exists>st'. icb_irc_proxy test_env 9 CHR ''j'' (''1'' @ field_sep # ''h'' @ field_sep # ''s'') test_state = Some ([], st')
    \<and> icb_serverid st' = ''s''"
proof -
  have "field_sep \<notin> set ''1''" "field_sep \<notin> set ''h''" "field_sep \<notin> set ''s''" by code_simp+
  then show ?thesis using icb_login_sequence [of "''1''" "''h''" "''s''" test_env 9 test_state] by auto
qed

end
