(* ===== verification/Name_Chains.thy ===== *)
theory Name_Chains
  imports Lib_Utils
begin

text \<open>
  Hash tables with chains, keyed by a name that is unique up to case: the laws of looking up,
  inserting, removing and updating an entry and of counting entries, for any hash that does not
  distinguish spellings.  Each table of the program interprets the locale.
\<close>

section \<open>Chains of entries with unique names\<close>

text \<open>A generic part: \<open>key\<close> is the name of an entry, \<open>T\<close> the table.\<close>

definition chain_find :: "(string \<Rightarrow> nat) \<Rightarrow> ('a \<Rightarrow> string) \<Rightarrow> (nat \<Rightarrow> 'a list) \<Rightarrow> string \<Rightarrow> 'a option" where
  "chain_find h key T s = find (\<lambda>x. strings_match_ignore_case s (key x)) (T (h s))"

definition chain_wf :: "(string \<Rightarrow> nat) \<Rightarrow> ('a \<Rightarrow> string) \<Rightarrow> (nat \<Rightarrow> 'a list) \<Rightarrow> bool" where
  "chain_wf h key T \<longleftrightarrow>
     (\<forall>i. (\<forall>x\<in>set (T i). h (key x) = i) \<and> distinct (map (\<lambda>x. fold_case (key x)) (T i)))"

definition chain_count :: "nat \<Rightarrow> ('a \<Rightarrow> bool) \<Rightarrow> (nat \<Rightarrow> 'a list) \<Rightarrow> int" where
  "chain_count k P T = (\<Sum>i<k. int (length (filter P (T i))))"

fun upd_first :: "('a \<Rightarrow> bool) \<Rightarrow> ('a \<Rightarrow> 'a) \<Rightarrow> 'a list \<Rightarrow> 'a list" where
  "upd_first P f [] = []"
| "upd_first P f (x # xs) = (if P x then f x # xs else x # upd_first P f xs)"

lemma find_name:
  assumes "distinct (map (\<lambda>x. fold_case (key x)) xs)"
  shows "find (\<lambda>x. strings_match_ignore_case s (key x)) xs = Some y \<longleftrightarrow>
    y \<in> set xs \<and> strings_match_ignore_case s (key y)"
  using assms by (induction xs) (auto simp: smic_fold image_iff dest: sym)

lemma upd_first_map:
  assumes "distinct (map (\<lambda>x. fold_case (key x)) xs)"
  shows "upd_first (\<lambda>x. strings_match_ignore_case s (key x)) f xs =
    map (\<lambda>x. if strings_match_ignore_case s (key x) then f x else x) xs"
  using assms
proof (induction xs)
  case (Cons x xs)
  have "map (\<lambda>x. if strings_match_ignore_case s (key x) then f x else x) xs = xs"
    if "strings_match_ignore_case s (key x)"
    using Cons.prems that by (intro map_idI) (auto simp: smic_fold image_iff)
  then show ?case using Cons by auto
qed simp

lemma remove1_name:
  assumes "distinct (map (\<lambda>x. fold_case (key x)) xs)" "y \<in> set xs"
  shows "remove1 y xs = filter (\<lambda>x. \<not> strings_match_ignore_case (key y) (key x)) xs"
  using assms
proof (induction xs)
  case (Cons x xs)
  show ?case
  proof (cases "x = y")
    case True
    have "filter (\<lambda>x. \<not> strings_match_ignore_case (key y) (key x)) xs = xs"
      using Cons.prems True by (intro filter_True) (auto simp: smic_fold image_iff)
    then show ?thesis using True by simp
  next
    case False
    then have "fold_case (key y) \<in> (\<lambda>x. fold_case (key x)) ` set xs" using Cons.prems(2) by auto
    then have "fold_case (key y) \<noteq> fold_case (key x)" using Cons.prems(1) by auto
    then show ?thesis using Cons False by (simp add: smic_fold)
  qed
qed simp

lemma chain_count_upd:
  assumes "i < k"
  shows "chain_count k P (T(i := xs)) =
    chain_count k P T - int (length (filter P (T i))) + int (length (filter P xs))"
proof -
  have "{..<k} = insert i ({..<k} - {i})" using assms by auto
  then have s: "chain_count k P U = int (length (filter P (U i))) + (\<Sum>j\<in>{..<k} - {i}. int (length (filter P (U j))))"
    for U :: "nat \<Rightarrow> 'a list"
    unfolding chain_count_def by (subst sum.remove [of "{..<k}" i]) (use assms in auto)
  have "(\<Sum>j\<in>{..<k} - {i}. int (length (filter P ((T(i := xs)) j)))) =
      (\<Sum>j\<in>{..<k} - {i}. int (length (filter P (T j))))"
    by (rule sum.cong) auto
  then show ?thesis using s [of T] s [of "T(i := xs)"] by simp
qed

text \<open>The laws of a table for a hash that does not distinguish spellings.\<close>

locale name_chains = label_hash +
  fixes key :: "'a \<Rightarrow> string"
begin

lemma find_iff:
  assumes "chain_wf hash_of key T"
  shows "chain_find hash_of key T s = Some y \<longleftrightarrow>
    y \<in> set (T (hash_of s)) \<and> strings_match_ignore_case s (key y)"
  using assms by (simp add: chain_find_def chain_wf_def find_name)

lemma find_spelling:
  "strings_match_ignore_case s t \<Longrightarrow> chain_find hash_of key T s = chain_find hash_of key T t"
  using hash_case [of s t] by (simp add: chain_find_def smic_fold)

lemma insert_wf:
  assumes "chain_wf hash_of key T" "chain_find hash_of key T (key x) = None" "i = hash_of (key x)"
  shows "chain_wf hash_of key (T(i := x # T i))"
  using assms by (auto simp: chain_wf_def chain_find_def find_None_iff smic_fold image_iff)

lemma insert_find:
  assumes "i = hash_of (key x)"
  shows "chain_find hash_of key (T(i := x # T i)) s =
    (if strings_match_ignore_case s (key x) then Some x else chain_find hash_of key T s)"
  using assms hash_case [of s "key x"] by (auto simp: chain_find_def)

lemma insert_count:
  assumes "i = hash_of (key x)"
  shows "chain_count buckets P (T(i := x # T i)) = chain_count buckets P T + (if P x then 1 else 0)"
  using hash_bound [of "key x"] assms by (simp add: chain_count_upd)

lemma found:
  assumes "chain_wf hash_of key T" "chain_find hash_of key T s = Some y"
  shows "y \<in> set (T (hash_of (key y)))" "hash_of (key y) = hash_of s" "strings_match_ignore_case s (key y)"
  using assms hash_case [of s "key y"] by (simp_all add: find_iff)

lemma remove_wf:
  assumes "chain_wf hash_of key T"
  shows "chain_wf hash_of key (T(i := remove1 y (T i)))"
proof -
  have "distinct (map g (remove1 y xs))" if "distinct (map g xs)" for g :: "'a \<Rightarrow> string" and xs
    using that by (metis distinct_map distinct_remove1 inj_on_subset set_remove1_subset)
  then show ?thesis using assms set_remove1_subset [of y "T i"] unfolding chain_wf_def by auto
qed

lemma remove_find:
  assumes "chain_wf hash_of key T" "y \<in> set (T i)" "i = hash_of (key y)"
  shows "chain_find hash_of key (T(i := remove1 y (T i))) s =
    (if strings_match_ignore_case s (key y) then None else chain_find hash_of key T s)"
proof -
  have r: "remove1 y (T i) = filter (\<lambda>x. \<not> strings_match_ignore_case (key y) (key x)) (T i)"
    using assms(1,2) by (intro remove1_name) (auto simp: chain_wf_def)
  show ?thesis
  proof (cases "strings_match_ignore_case s (key y)")
    case True
    have "\<not> strings_match_ignore_case s (key x)" if "\<not> strings_match_ignore_case (key y) (key x)" for x
      using True that by (simp add: smic_fold)
    then have "find (\<lambda>x. strings_match_ignore_case s (key x)) (remove1 y (T i)) = None"
      unfolding r find_None_iff by auto
    then show ?thesis
      using True hash_case [OF True] unfolding chain_find_def assms(3) by (simp only: fun_upd_same if_True)
  next
    case False
    have "find (\<lambda>x. strings_match_ignore_case s (key x)) (filter (\<lambda>x. \<not> strings_match_ignore_case (key y) (key x)) xs) =
        find (\<lambda>x. strings_match_ignore_case s (key x)) xs" for xs
      using False by (induction xs) (auto simp: smic_fold)
    then show ?thesis using False unfolding chain_find_def r by simp
  qed
qed

lemma remove_count:
  assumes "y \<in> set (T i)" "i = hash_of (key y)"
  shows "chain_count buckets P (T(i := remove1 y (T i))) = chain_count buckets P T - (if P y then 1 else 0)"
proof -
  have "int (length (filter P (remove1 y xs))) = int (length (filter P xs)) - (if P y then 1 else 0)"
    if "y \<in> set xs" for xs
    using that by (induction xs) auto
  then show ?thesis using assms hash_bound [of "key y"] by (simp add: chain_count_upd)
qed

lemma update_wf:
  assumes "chain_wf hash_of key T" "\<And>x. key (f x) = key x"
  shows "chain_wf hash_of key (T(i := upd_first (\<lambda>x. strings_match_ignore_case s (key x)) f (T i)))"
proof -
  have "upd_first (\<lambda>x. strings_match_ignore_case s (key x)) f (T i) =
      map (\<lambda>x. if strings_match_ignore_case s (key x) then f x else x) (T i)"
    using assms(1) by (intro upd_first_map) (auto simp: chain_wf_def)
  moreover have "(\<lambda>x. fold_case (key (if strings_match_ignore_case s (key x) then f x else x))) = (\<lambda>x. fold_case (key x))"
    using assms(2) by auto
  ultimately show ?thesis using assms unfolding chain_wf_def by (auto simp: o_def)
qed

lemma update_find:
  assumes "chain_wf hash_of key T" "\<And>x. key (f x) = key x" "i = hash_of s"
  shows "chain_find hash_of key (T(i := upd_first (\<lambda>x. strings_match_ignore_case s (key x)) f (T i))) t =
    (if strings_match_ignore_case s t then map_option f (chain_find hash_of key T t) else chain_find hash_of key T t)"
proof -
  have *: "find (\<lambda>x. strings_match_ignore_case t (key x)) (upd_first (\<lambda>x. strings_match_ignore_case s (key x)) f xs) =
      (if strings_match_ignore_case s t then map_option f (find (\<lambda>x. strings_match_ignore_case t (key x)) xs)
       else find (\<lambda>x. strings_match_ignore_case t (key x)) xs)" for xs
    by (induction xs) (auto simp: assms(2) smic_fold)
  show ?thesis
    using hash_case [of s t] assms(3) by (auto simp: chain_find_def *)
qed

lemma update_count:
  assumes "chain_wf hash_of key T" "chain_find hash_of key T s = Some y" "i = hash_of s"
  shows "chain_count buckets P (T(i := upd_first (\<lambda>x. strings_match_ignore_case s (key x)) f (T i))) =
    chain_count buckets P T - (if P y then 1 else 0) + (if P (f y) then 1 else 0)"
proof -
  have *: "int (length (filter P (upd_first Q f xs))) =
      int (length (filter P xs)) - (if P y then 1 else 0) + (if P (f y) then 1 else 0)"
    if "find Q xs = Some y" for Q xs
    using that by (induction xs) (auto split: if_splits)
  show ?thesis
    using * [of "\<lambda>x. strings_match_ignore_case s (key x)" "T i"] assms(2,3) hash_bound [of s]
    by (simp add: chain_count_upd chain_find_def)
qed

end

end
