(* ===== verification/Names_Table.thy ===== *)
theory Names_Table
  imports Name_Chains Data_Classify
begin

text \<open>
  The names of one channel window: the parts of \<^verbatim>\<open>src/src/events/names.cpp\<close> and
  \<^verbatim>\<open>src/src/events/names-htbl-modify.cpp\<close> that work on the hash table of a window, and the
  structures of \<^verbatim>\<open>src/src/window.h\<close> they work on.

  The table is a function from the index of a chain to the chain; a pointer to an entry is the
  entry itself, which is found again in its chain because its name is unique up to case.
\<close>

section \<open>Structures\<close>

record names =
  m_nick :: string
  m_account :: "string option"
  m_rl_name :: "string option"
  is_owner :: bool
  is_superop :: bool
  is_op :: bool
  is_halfop :: bool
  is_voice :: bool

record chan_names =
  names_hash :: "nat \<Rightarrow> names list"
  num_owners :: int
  num_superops :: int
  num_ops :: int
  num_halfops :: int
  num_voices :: int
  num_normal :: int
  num_total :: int

definition NAMES_HASH_TABLE_SIZE :: nat where "NAMES_HASH_TABLE_SIZE = 4500"

definition hash_nick :: "string \<Rightarrow> nat" where
  "hash_nick str = hash_djb_g str True NAMES_HASH_TABLE_SIZE"

definition no_names :: chan_names where
  "no_names = \<lparr>names_hash = (\<lambda>_. []), num_owners = 0, num_superops = 0, num_ops = 0, num_halfops = 0,
     num_voices = 0, num_normal = 0, num_total = 0\<rparr>"

text \<open>The constructor of \<^verbatim>\<open>struct hInstall_context\<close> with a string of privileges.\<close>

definition with_privs :: "string \<Rightarrow> string \<Rightarrow> names" where
  "with_privs nick privs =
     fold (\<lambda>c m. if c = CHR ''~'' then m\<lparr>is_owner := True\<rparr>
                 else if c = CHR ''&'' then m\<lparr>is_superop := True\<rparr>
                 else if c = CHR ''@'' then m\<lparr>is_op := True\<rparr>
                 else if c = CHR ''%'' then m\<lparr>is_halfop := True\<rparr>
                 else if c = CHR ''+'' then m\<lparr>is_voice := True\<rparr>
                 else m) privs
       \<lparr>m_nick = nick, m_account = None, m_rl_name = None, is_owner = False, is_superop = False,
        is_op = False, is_halfop = False, is_voice = False\<rparr>"

section \<open>Inserting and removing\<close>

definition already_is_in_names_hash :: "string \<Rightarrow> chan_names \<Rightarrow> bool" where
  "already_is_in_names_hash nick window =
     (find (\<lambda>m. strings_match_ignore_case nick (m_nick m)) (names_hash window (hash_nick nick)) \<noteq> None)"

definition name_chars :: string where
  "name_chars = ''!#$'' @ CHR 0x27 # ''()*,-./0123456789:;<=>?ABCDEFGHIJKLMNOPQRSTUVWXYZ['' @ CHR 0x5C #
     '']^_`abcdefghijklmnopqrstuvwxyz{|}''"

definition name_chars_ok :: "string \<Rightarrow> bool" where
  "name_chars_ok name = list_all (\<lambda>c. strchr name_chars c \<noteq> None) name"

definition name_len_ok :: "string \<Rightarrow> bool" where
  "name_len_ok name = (xstrnlen (Some name) 46 \<le> 45)"

text \<open>\<^verbatim>\<open>hInstall\<close> behind its checks: linking the entry and counting it.\<close>

definition link_names :: "names \<Rightarrow> chan_names \<Rightarrow> chan_names" where
  "link_names m window =
     (let hashval = hash_nick (m_nick m);
          w = window\<lparr>names_hash := (names_hash window)(hashval := m # names_hash window hashval)\<rparr>;
          w = (if is_owner m then w\<lparr>num_owners := num_owners w + 1\<rparr>
               else if is_superop m then w\<lparr>num_superops := num_superops w + 1\<rparr>
               else if is_op m then w\<lparr>num_ops := num_ops w + 1\<rparr>
               else if is_halfop m then w\<lparr>num_halfops := num_halfops w + 1\<rparr>
               else if is_voice m then w\<lparr>num_voices := num_voices w + 1\<rparr>
               else w\<lparr>num_normal := num_normal w + 1\<rparr>)
      in w\<lparr>num_total := num_total w + 1\<rparr>)"

definition hUndef :: "chan_names \<Rightarrow> names \<Rightarrow> chan_names" where
  "hUndef window entry =
     (if strings_match (m_nick entry) [] then window
      else let hashval = hash_nick (m_nick entry);
          w = window\<lparr>names_hash := (names_hash window)(hashval := remove1 entry (names_hash window hashval))\<rparr>;
          w = (if is_owner entry then w\<lparr>num_owners := num_owners w - 1\<rparr>
               else if is_superop entry then w\<lparr>num_superops := num_superops w - 1\<rparr>
               else if is_op entry then w\<lparr>num_ops := num_ops w - 1\<rparr>
               else if is_halfop entry then w\<lparr>num_halfops := num_halfops w - 1\<rparr>
               else if is_voice entry then w\<lparr>num_voices := num_voices w - 1\<rparr>
               else w\<lparr>num_normal := num_normal w - 1\<rparr>)
      in w\<lparr>num_total := num_total w - 1\<rparr>)"

definition reset_counters :: "chan_names \<Rightarrow> chan_names" where
  "reset_counters window = window\<lparr>num_owners := 0, num_superops := 0, num_ops := 0, num_halfops := 0,
     num_voices := 0, num_normal := 0, num_total := 0\<rparr>"

text \<open>The loops of \<^verbatim>\<open>event_names_htbl_remove_all\<close>; each chain is read before its entries are removed.\<close>

definition remove_chains :: "chan_names \<Rightarrow> chan_names" where
  "remove_chains window =
     reset_counters (fold (\<lambda>i w. fold (\<lambda>p w. hUndef w p) (names_hash w i) w) [0..<NAMES_HASH_TABLE_SIZE] window)"

section \<open>Looking up\<close>

definition names_lookup :: "chan_names \<Rightarrow> string \<Rightarrow> names option" where
  "names_lookup window nick =
     find (\<lambda>m. strings_match_ignore_case nick (m_nick m)) (names_hash window (hash_nick nick))"

definition all_names :: "chan_names \<Rightarrow> names list" where
  "all_names window = concat (map (names_hash window) [0..<NAMES_HASH_TABLE_SIZE])"

definition matching_names :: "chan_names \<Rightarrow> string \<Rightarrow> string list" where
  "matching_names window search_var =
     map m_nick (filter (\<lambda>m. strncmp_eq search_var (m_nick m) (length search_var)) (all_names window))"

definition set_names :: "string \<Rightarrow> (names \<Rightarrow> names) \<Rightarrow> chan_names \<Rightarrow> chan_names" where
  "set_names nick f window = window\<lparr>names_hash := (names_hash window)(hash_nick nick :=
     upd_first (\<lambda>m. strings_match_ignore_case nick (m_nick m)) f (names_hash window (hash_nick nick)))\<rparr>"

section \<open>Changing privileges\<close>

text \<open>
  The loops of \<^verbatim>\<open>names-htbl-modify.cpp\<close>; \<^const>\<open>None\<close> if the name is not in the table.
  \<^verbatim>\<open>names\<close> is the entry after the assignment.
\<close>

definition modify_owner :: "string \<Rightarrow> bool \<Rightarrow> chan_names \<Rightarrow> chan_names option" where
  "modify_owner nick flag window =
     (case names_lookup window nick of None \<Rightarrow> None
      | Some m \<Rightarrow>
          if is_owner m \<and> flag then Some window
          else let w = set_names nick (\<lambda>m. m\<lparr>is_owner := flag\<rparr>) window in
            Some (if \<not> flag then
                (let w = w\<lparr>num_owners := num_owners w - 1\<rparr> in
                 if is_superop m then w\<lparr>num_superops := num_superops w + 1\<rparr>
                 else if is_op m then w\<lparr>num_ops := num_ops w + 1\<rparr>
                 else if is_halfop m then w\<lparr>num_halfops := num_halfops w + 1\<rparr>
                 else if is_voice m then w\<lparr>num_voices := num_voices w + 1\<rparr>
                 else w\<lparr>num_normal := num_normal w + 1\<rparr>)
              else
                (let w = w\<lparr>num_owners := num_owners w + 1\<rparr> in
                 if is_superop m then w\<lparr>num_superops := num_superops w - 1\<rparr>
                 else if is_op m then w\<lparr>num_ops := num_ops w - 1\<rparr>
                 else if is_halfop m then w\<lparr>num_halfops := num_halfops w - 1\<rparr>
                 else if is_voice m then w\<lparr>num_voices := num_voices w - 1\<rparr>
                 else w\<lparr>num_normal := num_normal w - 1\<rparr>)))"

definition modify_superop :: "string \<Rightarrow> bool \<Rightarrow> chan_names \<Rightarrow> chan_names option" where
  "modify_superop nick flag window =
     (case names_lookup window nick of None \<Rightarrow> None
      | Some m \<Rightarrow>
          if is_superop m \<and> flag then Some window
          else let w = set_names nick (\<lambda>m. m\<lparr>is_superop := flag\<rparr>) window in
            Some (if is_owner m then w
              else if \<not> flag then
                (let w = w\<lparr>num_superops := num_superops w - 1\<rparr> in
                 if is_op m then w\<lparr>num_ops := num_ops w + 1\<rparr>
                 else if is_halfop m then w\<lparr>num_halfops := num_halfops w + 1\<rparr>
                 else if is_voice m then w\<lparr>num_voices := num_voices w + 1\<rparr>
                 else w\<lparr>num_normal := num_normal w + 1\<rparr>)
              else
                (let w = w\<lparr>num_superops := num_superops w + 1\<rparr> in
                 if is_op m then w\<lparr>num_ops := num_ops w - 1\<rparr>
                 else if is_halfop m then w\<lparr>num_halfops := num_halfops w - 1\<rparr>
                 else if is_voice m then w\<lparr>num_voices := num_voices w - 1\<rparr>
                 else w\<lparr>num_normal := num_normal w - 1\<rparr>)))"

definition modify_op :: "string \<Rightarrow> bool \<Rightarrow> chan_names \<Rightarrow> chan_names option" where
  "modify_op nick flag window =
     (case names_lookup window nick of None \<Rightarrow> None
      | Some m \<Rightarrow>
          if is_op m \<and> flag then Some window
          else let w = set_names nick (\<lambda>m. m\<lparr>is_op := flag\<rparr>) window in
            Some (if is_owner m \<or> is_superop m then w
              else if \<not> flag then
                (let w = w\<lparr>num_ops := num_ops w - 1\<rparr> in
                 if is_halfop m then w\<lparr>num_halfops := num_halfops w + 1\<rparr>
                 else if is_voice m then w\<lparr>num_voices := num_voices w + 1\<rparr>
                 else w\<lparr>num_normal := num_normal w + 1\<rparr>)
              else
                (let w = w\<lparr>num_ops := num_ops w + 1\<rparr> in
                 if is_halfop m then w\<lparr>num_halfops := num_halfops w - 1\<rparr>
                 else if is_voice m then w\<lparr>num_voices := num_voices w - 1\<rparr>
                 else w\<lparr>num_normal := num_normal w - 1\<rparr>)))"

definition modify_halfop :: "string \<Rightarrow> bool \<Rightarrow> chan_names \<Rightarrow> chan_names option" where
  "modify_halfop nick flag window =
     (case names_lookup window nick of None \<Rightarrow> None
      | Some m \<Rightarrow>
          if is_halfop m \<and> flag then Some window
          else let w = set_names nick (\<lambda>m. m\<lparr>is_halfop := flag\<rparr>) window in
            Some (if is_owner m \<or> is_superop m \<or> is_op m then w
              else if \<not> flag then
                (let w = w\<lparr>num_halfops := num_halfops w - 1\<rparr> in
                 if is_voice m then w\<lparr>num_voices := num_voices w + 1\<rparr>
                 else w\<lparr>num_normal := num_normal w + 1\<rparr>)
              else
                (let w = w\<lparr>num_halfops := num_halfops w + 1\<rparr> in
                 if is_voice m then w\<lparr>num_voices := num_voices w - 1\<rparr>
                 else w\<lparr>num_normal := num_normal w - 1\<rparr>)))"

definition modify_voice :: "string \<Rightarrow> bool \<Rightarrow> chan_names \<Rightarrow> chan_names option" where
  "modify_voice nick flag window =
     (case names_lookup window nick of None \<Rightarrow> None
      | Some m \<Rightarrow>
          if is_voice m \<and> flag then Some window
          else let w = set_names nick (\<lambda>m. m\<lparr>is_voice := flag\<rparr>) window in
            Some (if is_owner m \<or> is_superop m \<or> is_op m \<or> is_halfop m then w
              else if \<not> flag then w\<lparr>num_voices := num_voices w - 1, num_normal := num_normal w + 1\<rparr>
              else w\<lparr>num_voices := num_voices w + 1, num_normal := num_normal w - 1\<rparr>))"

section \<open>The invariant\<close>

datatype privilege = PrivOwner | PrivSuperop | PrivOp | PrivHalfop | PrivVoice | PrivNormal

text \<open>The highest privilege of a member, and the counter it is counted by.\<close>

definition rank :: "names \<Rightarrow> privilege" where
  "rank m = (if is_owner m then PrivOwner else if is_superop m then PrivSuperop else if is_op m then PrivOp
     else if is_halfop m then PrivHalfop else if is_voice m then PrivVoice else PrivNormal)"

fun counter :: "privilege \<Rightarrow> chan_names \<Rightarrow> int" where
  "counter PrivOwner w = num_owners w"
| "counter PrivSuperop w = num_superops w"
| "counter PrivOp w = num_ops w"
| "counter PrivHalfop w = num_halfops w"
| "counter PrivVoice w = num_voices w"
| "counter PrivNormal w = num_normal w"

definition nick_ok :: "string \<Rightarrow> bool" where
  "nick_ok nick \<longleftrightarrow> nick \<noteq> [] \<and> name_len_ok nick \<and> name_chars_ok nick"

definition counts_ok :: "chan_names \<Rightarrow> bool" where
  "counts_ok w \<longleftrightarrow>
     (\<forall>r. counter r w = chain_count NAMES_HASH_TABLE_SIZE (\<lambda>m. rank m = r) (names_hash w))
     \<and> num_total w = chain_count NAMES_HASH_TABLE_SIZE (\<lambda>_. True) (names_hash w)"

definition table_ok :: "chan_names \<Rightarrow> bool" where
  "table_ok w \<longleftrightarrow> chain_wf hash_nick m_nick (names_hash w) \<and> (\<forall>i. \<forall>m\<in>set (names_hash w i). nick_ok (m_nick m))"

definition names_ok :: "chan_names \<Rightarrow> bool" where
  "names_ok w \<longleftrightarrow> table_ok w \<and> counts_ok w"

interpretation nc: name_chains hash_nick NAMES_HASH_TABLE_SIZE m_nick
  by unfold_locales (auto simp: hash_nick_def NAMES_HASH_TABLE_SIZE_def intro: hash_djb_bound hash_djb_case)

lemma lookup_chain: "names_lookup w nick = chain_find hash_nick m_nick (names_hash w) nick"
  by (simp add: names_lookup_def chain_find_def)

lemma already_iff: "already_is_in_names_hash nick w \<longleftrightarrow> names_lookup w nick \<noteq> None"
  by (simp add: already_is_in_names_hash_def names_lookup_def)

lemma lookup_spelling: "strings_match_ignore_case s t \<Longrightarrow> names_lookup w s = names_lookup w t"
  by (simp only: lookup_chain nc.find_spelling)

lemma no_names_ok: "names_ok no_names" "names_lookup no_names nick = None"
proof -
  have "counter r no_names = 0" for r by (cases r) (simp_all add: no_names_def)
  then show "names_ok no_names" "names_lookup no_names nick = None"
    by (auto simp: names_ok_def table_ok_def counts_ok_def chain_wf_def chain_count_def names_lookup_def)
      (auto simp: no_names_def)
qed

lemma with_privs_nick [simp]: "m_nick (with_privs nick privs) = nick"
proof -
  have "m_nick (fold (\<lambda>c m. if c = CHR ''~'' then m\<lparr>is_owner := True\<rparr>
                 else if c = CHR ''&'' then m\<lparr>is_superop := True\<rparr>
                 else if c = CHR ''@'' then m\<lparr>is_op := True\<rparr>
                 else if c = CHR ''%'' then m\<lparr>is_halfop := True\<rparr>
                 else if c = CHR ''+'' then m\<lparr>is_voice := True\<rparr>
                 else m) privs m) = m_nick m" for m :: names
    by (induction privs arbitrary: m) auto
  then show ?thesis by (simp add: with_privs_def)
qed

section \<open>Each operation keeps the invariant\<close>

lemma link_hash: "names_hash (link_names m w) = (names_hash w)(hash_nick (m_nick m) := m # names_hash w (hash_nick (m_nick m)))"
  by (simp add: link_names_def Let_def)

lemma link_counters:
  "counter r (link_names m w) = counter r w + (if rank m = r then 1 else 0)"
  "num_total (link_names m w) = num_total w + 1"
  by (cases r; simp add: link_names_def Let_def rank_def)+

lemma link_ok:
  assumes "names_ok w" "names_lookup w (m_nick m) = None" "nick_ok (m_nick m)"
  shows "names_ok (link_names m w)"
  using assms nc.insert_wf [of "names_hash w" m]
  by (auto simp: names_ok_def table_ok_def counts_ok_def link_hash link_counters nc.insert_count lookup_chain)

lemma link_lookup:
  "names_lookup (link_names m w) s = (if strings_match_ignore_case s (m_nick m) then Some m else names_lookup w s)"
  by (simp add: lookup_chain link_hash nc.insert_find)

lemma undef_hash:
  "m_nick m \<noteq> [] \<Longrightarrow> names_hash (hUndef w m) =
    (names_hash w)(hash_nick (m_nick m) := remove1 m (names_hash w (hash_nick (m_nick m))))"
  by (simp add: hUndef_def Let_def)

lemma undef_counters:
  assumes "m_nick m \<noteq> []"
  shows "counter r (hUndef w m) = counter r w - (if rank m = r then 1 else 0)"
    "num_total (hUndef w m) = num_total w - 1"
  using assms by (cases r; simp add: hUndef_def Let_def rank_def)+

lemma found_ok:
  assumes "table_ok w" "names_lookup w s = Some m"
  shows "nick_ok (m_nick m)" "m_nick m \<noteq> []" "m \<in> set (names_hash w (hash_nick (m_nick m)))"
    "strings_match_ignore_case s (m_nick m)"
  using assms nc.found [of "names_hash w" s m] by (auto simp: table_ok_def lookup_chain nick_ok_def)

lemma undef_table_ok:
  assumes "table_ok w" "m \<in> set (names_hash w (hash_nick (m_nick m)))"
  shows "table_ok (hUndef w m)"
    "names_lookup (hUndef w m) s = (if strings_match_ignore_case s (m_nick m) then None else names_lookup w s)"
proof -
  have n: "m_nick m \<noteq> []" using assms by (auto simp: table_ok_def nick_ok_def)
  show "table_ok (hUndef w m)"
    using assms nc.remove_wf [of "names_hash w" "hash_nick (m_nick m)" m]
      set_remove1_subset [of m "names_hash w (hash_nick (m_nick m))"] n
    by (auto simp: table_ok_def undef_hash)
  show "names_lookup (hUndef w m) s = (if strings_match_ignore_case s (m_nick m) then None else names_lookup w s)"
    using assms nc.remove_find [of "names_hash w" m "hash_nick (m_nick m)" s] n
    by (simp add: table_ok_def lookup_chain undef_hash)
qed

lemma names_undef_ok:
  assumes "names_ok w" "m \<in> set (names_hash w (hash_nick (m_nick m)))"
  shows "names_ok (hUndef w m)"
proof -
  have "m_nick m \<noteq> []" using assms by (auto simp: names_ok_def table_ok_def nick_ok_def)
  then show ?thesis
    using assms undef_table_ok(1) [of w m]
    by (auto simp: names_ok_def counts_ok_def undef_hash undef_counters nc.remove_count)
qed

text \<open>A channel with the given members.\<close>

definition channel_of :: "names list \<Rightarrow> chan_names" where
  "channel_of ms = foldr link_names ms no_names"

lemma channel_of_ok:
  assumes "distinct (map (\<lambda>m. fold_case (m_nick m)) ms)" "\<forall>m\<in>set ms. nick_ok (m_nick m)"
  shows "names_ok (channel_of ms) \<and> num_total (channel_of ms) = int (length ms)
    \<and> (\<forall>s. names_lookup (channel_of ms) s = find (\<lambda>m. strings_match_ignore_case s (m_nick m)) ms)"
  using assms
proof (induction ms)
  case Nil
  then show ?case by (simp add: channel_of_def no_names_ok) (simp add: no_names_def)
next
  case (Cons m ms)
  let ?w = "channel_of ms"
  have IH: "names_ok ?w" "num_total ?w = int (length ms)"
    "\<And>s. names_lookup ?w s = find (\<lambda>m. strings_match_ignore_case s (m_nick m)) ms"
    using Cons by auto
  have "names_lookup ?w (m_nick m) = None"
    using Cons.prems(1) unfolding IH(3) find_None_iff by (auto simp: smic_fold image_iff)
  then have "names_ok (link_names m ?w)" using link_ok [OF IH(1)] Cons.prems(2) by simp
  then show ?case using IH(2,3) by (simp add: channel_of_def link_counters link_lookup)
qed

text \<open>Changing the entry of a name.\<close>

lemma set_lookup:
  assumes "table_ok w" "\<And>m. m_nick (f m) = m_nick m"
  shows "table_ok (set_names nick f w)"
    "names_lookup (set_names nick f w) s =
      (if strings_match_ignore_case nick s then map_option f (names_lookup w s) else names_lookup w s)"
proof -
  have k: "\<exists>m\<in>set xs. m_nick m' = m_nick m" if "m' \<in> set (upd_first P f xs)" for m' P and xs :: "names list"
    using that assms(2) by (induction xs) (auto split: if_splits)
  show "table_ok (set_names nick f w)"
    using assms(1) nc.update_wf [of "names_hash w" f "hash_nick nick" nick] assms(2)
    by (fastforce simp: table_ok_def set_names_def dest!: k)
  show "names_lookup (set_names nick f w) s =
      (if strings_match_ignore_case nick s then map_option f (names_lookup w s) else names_lookup w s)"
    using nc.update_find [of "names_hash w" f "hash_nick nick" nick s] assms
    by (simp add: lookup_chain set_names_def table_ok_def)
qed

lemma set_counts:
  assumes "names_ok w" "names_lookup w nick = Some m" "names_hash w' = names_hash (set_names nick f w)"
    and "\<And>r. counter r w' = counter r w - (if rank m = r then 1 else 0) + (if rank (f m) = r then 1 else 0)"
    and "num_total w' = num_total w"
  shows "counts_ok w'"
  using assms nc.update_count [of "names_hash w" nick m "hash_nick nick" _ f]
  by (simp add: names_ok_def table_ok_def counts_ok_def set_names_def lookup_chain)

text \<open>What changing the entry \<open>m\<close> of a name into \<open>m'\<close> must come to.\<close>

definition changed :: "string \<Rightarrow> names \<Rightarrow> chan_names \<Rightarrow> chan_names \<Rightarrow> bool" where
  "changed nick m' w w' \<longleftrightarrow> names_ok w' \<and>
     (\<forall>s. names_lookup w' s = (if strings_match_ignore_case nick s then Some m' else names_lookup w s))"

lemma changed_id:
  assumes "names_ok w" "names_lookup w nick = Some m"
  shows "changed nick m w w"
  using assms lookup_spelling [of nick] by (auto simp: changed_def)

lemma changed_set:
  assumes "names_ok w" "names_lookup w nick = Some m" "\<And>m. m_nick (f m) = m_nick m"
    and "names_hash w' = names_hash (set_names nick f w)" "num_total w' = num_total w"
    and "\<And>r. counter r w' = counter r w - (if rank m = r then 1 else 0) + (if rank (f m) = r then 1 else 0)"
  shows "changed nick (f m) w w'"
proof -
  have t: "table_ok w" using assms(1) by (simp add: names_ok_def)
  have "names_lookup w' s = names_lookup (set_names nick f w) s" for s
    using assms(4) by (simp add: names_lookup_def)
  then have "names_lookup w' s = (if strings_match_ignore_case nick s then Some (f m) else names_lookup w s)" for s
    using set_lookup(2) [OF t, of f nick s] assms(2,3) lookup_spelling [of nick s w, symmetric] by simp
  moreover have "table_ok w'"
    using set_lookup(1) [OF t, of f nick] assms(3,4) by (simp add: table_ok_def)
  ultimately show ?thesis
    using set_counts [OF assms(1,2,4,6,5)] by (simp add: changed_def names_ok_def)
qed

lemma set_names_counters [simp]:
  "num_owners (set_names nick f w) = num_owners w" "num_superops (set_names nick f w) = num_superops w"
  "num_ops (set_names nick f w) = num_ops w" "num_halfops (set_names nick f w) = num_halfops w"
  "num_voices (set_names nick f w) = num_voices w" "num_normal (set_names nick f w) = num_normal w"
  "num_total (set_names nick f w) = num_total w"
  by (simp_all add: set_names_def)

text \<open>A change is effective if a privilege is set, or taken from a member who has it.\<close>

lemma owner_ok:
  assumes "names_ok w" "names_lookup w nick = Some m" "flag \<or> is_owner m"
  shows "\<exists>w'. modify_owner nick flag w = Some w' \<and> changed nick (m\<lparr>is_owner := flag\<rparr>) w w'"
proof (cases "flag \<and> is_owner m")
  case True
  then have e: "m\<lparr>is_owner := flag\<rparr> = m" by (cases m) simp
  show ?thesis unfolding e using changed_id [OF assms(1,2)] True assms(2) by (simp add: modify_owner_def)
next
  case False
  have "modify_owner nick flag w \<noteq> None" using assms(2) by (simp add: modify_owner_def Let_def)
  then obtain w' where w': "modify_owner nick flag w = Some w'" by blast
  have "changed nick (m\<lparr>is_owner := flag\<rparr>) w w'"
  proof (rule changed_set [OF assms(1,2), where f = "\<lambda>m. m\<lparr>is_owner := flag\<rparr>"])
    show "names_hash w' = names_hash (set_names nick (\<lambda>m. m\<lparr>is_owner := flag\<rparr>) w)" "num_total w' = num_total w"
      using w' assms(2) False by (auto simp: modify_owner_def Let_def split: if_splits)
    show "counter r w' = counter r w - (if rank m = r then 1 else 0) + (if rank (m\<lparr>is_owner := flag\<rparr>) = r then 1 else 0)" for r
      using w' assms(2,3) False by (cases r; auto simp: modify_owner_def Let_def rank_def split: if_splits)
  qed simp
  then show ?thesis using w' by blast
qed

lemma superop_ok:
  assumes "names_ok w" "names_lookup w nick = Some m" "flag \<or> is_superop m"
  shows "\<exists>w'. modify_superop nick flag w = Some w' \<and> changed nick (m\<lparr>is_superop := flag\<rparr>) w w'"
proof (cases "flag \<and> is_superop m")
  case True
  then have e: "m\<lparr>is_superop := flag\<rparr> = m" by (cases m) simp
  show ?thesis unfolding e using changed_id [OF assms(1,2)] True assms(2) by (simp add: modify_superop_def)
next
  case False
  have "modify_superop nick flag w \<noteq> None" using assms(2) by (simp add: modify_superop_def Let_def)
  then obtain w' where w': "modify_superop nick flag w = Some w'" by blast
  have "changed nick (m\<lparr>is_superop := flag\<rparr>) w w'"
  proof (rule changed_set [OF assms(1,2), where f = "\<lambda>m. m\<lparr>is_superop := flag\<rparr>"])
    show "names_hash w' = names_hash (set_names nick (\<lambda>m. m\<lparr>is_superop := flag\<rparr>) w)" "num_total w' = num_total w"
      using w' assms(2) False by (auto simp: modify_superop_def Let_def split: if_splits)
    show "counter r w' = counter r w - (if rank m = r then 1 else 0) + (if rank (m\<lparr>is_superop := flag\<rparr>) = r then 1 else 0)" for r
      using w' assms(2,3) False by (cases r; auto simp: modify_superop_def Let_def rank_def split: if_splits)
  qed simp
  then show ?thesis using w' by blast
qed

lemma op_ok:
  assumes "names_ok w" "names_lookup w nick = Some m" "flag \<or> is_op m"
  shows "\<exists>w'. modify_op nick flag w = Some w' \<and> changed nick (m\<lparr>is_op := flag\<rparr>) w w'"
proof (cases "flag \<and> is_op m")
  case True
  then have e: "m\<lparr>is_op := flag\<rparr> = m" by (cases m) simp
  show ?thesis unfolding e using changed_id [OF assms(1,2)] True assms(2) by (simp add: modify_op_def)
next
  case False
  have "modify_op nick flag w \<noteq> None" using assms(2) by (simp add: modify_op_def Let_def)
  then obtain w' where w': "modify_op nick flag w = Some w'" by blast
  have "changed nick (m\<lparr>is_op := flag\<rparr>) w w'"
  proof (rule changed_set [OF assms(1,2), where f = "\<lambda>m. m\<lparr>is_op := flag\<rparr>"])
    show "names_hash w' = names_hash (set_names nick (\<lambda>m. m\<lparr>is_op := flag\<rparr>) w)" "num_total w' = num_total w"
      using w' assms(2) False by (auto simp: modify_op_def Let_def split: if_splits)
    show "counter r w' = counter r w - (if rank m = r then 1 else 0) + (if rank (m\<lparr>is_op := flag\<rparr>) = r then 1 else 0)" for r
      using w' assms(2,3) False by (cases r; auto simp: modify_op_def Let_def rank_def split: if_splits)
  qed simp
  then show ?thesis using w' by blast
qed

lemma halfop_ok:
  assumes "names_ok w" "names_lookup w nick = Some m" "flag \<or> is_halfop m"
  shows "\<exists>w'. modify_halfop nick flag w = Some w' \<and> changed nick (m\<lparr>is_halfop := flag\<rparr>) w w'"
proof (cases "flag \<and> is_halfop m")
  case True
  then have e: "m\<lparr>is_halfop := flag\<rparr> = m" by (cases m) simp
  show ?thesis unfolding e using changed_id [OF assms(1,2)] True assms(2) by (simp add: modify_halfop_def)
next
  case False
  have "modify_halfop nick flag w \<noteq> None" using assms(2) by (simp add: modify_halfop_def Let_def)
  then obtain w' where w': "modify_halfop nick flag w = Some w'" by blast
  have "changed nick (m\<lparr>is_halfop := flag\<rparr>) w w'"
  proof (rule changed_set [OF assms(1,2), where f = "\<lambda>m. m\<lparr>is_halfop := flag\<rparr>"])
    show "names_hash w' = names_hash (set_names nick (\<lambda>m. m\<lparr>is_halfop := flag\<rparr>) w)" "num_total w' = num_total w"
      using w' assms(2) False by (auto simp: modify_halfop_def Let_def split: if_splits)
    show "counter r w' = counter r w - (if rank m = r then 1 else 0) + (if rank (m\<lparr>is_halfop := flag\<rparr>) = r then 1 else 0)" for r
      using w' assms(2,3) False by (cases r; auto simp: modify_halfop_def Let_def rank_def split: if_splits)
  qed simp
  then show ?thesis using w' by blast
qed

lemma voice_ok:
  assumes "names_ok w" "names_lookup w nick = Some m" "flag \<or> is_voice m"
  shows "\<exists>w'. modify_voice nick flag w = Some w' \<and> changed nick (m\<lparr>is_voice := flag\<rparr>) w w'"
proof (cases "flag \<and> is_voice m")
  case True
  then have e: "m\<lparr>is_voice := flag\<rparr> = m" by (cases m) simp
  show ?thesis unfolding e using changed_id [OF assms(1,2)] True assms(2) by (simp add: modify_voice_def)
next
  case False
  have "modify_voice nick flag w \<noteq> None" using assms(2) by (simp add: modify_voice_def Let_def)
  then obtain w' where w': "modify_voice nick flag w = Some w'" by blast
  have "changed nick (m\<lparr>is_voice := flag\<rparr>) w w'"
  proof (rule changed_set [OF assms(1,2), where f = "\<lambda>m. m\<lparr>is_voice := flag\<rparr>"])
    show "names_hash w' = names_hash (set_names nick (\<lambda>m. m\<lparr>is_voice := flag\<rparr>) w)" "num_total w' = num_total w"
      using w' assms(2) False by (auto simp: modify_voice_def Let_def split: if_splits)
    show "counter r w' = counter r w - (if rank m = r then 1 else 0) + (if rank (m\<lparr>is_voice := flag\<rparr>) = r then 1 else 0)" for r
      using w' assms(2,3) False by (cases r; auto simp: modify_voice_def Let_def rank_def split: if_splits)
  qed simp
  then show ?thesis using w' by blast
qed

section \<open>What the handlers need of an invariant of the names\<close>

text \<open>
  Two invariants are kept by the operations.  \<open>names_ok\<close> has all counters right, and is
  kept as long as a privilege is taken only from a member who has it (\<open>exact\<close>).  \<open>roll_ok\<close>
  is what is left without this condition: the chains are well formed and the total is right.
\<close>

locale names_invariant =
  fixes names_inv :: "chan_names \<Rightarrow> bool" and exact :: bool
  assumes inv_table: "names_inv w \<Longrightarrow> table_ok w"
    and inv_none: "names_inv no_names"
    and inv_link: "\<lbrakk>names_inv w; names_lookup w (m_nick m) = None; nick_ok (m_nick m)\<rbrakk> \<Longrightarrow> names_inv (link_names m w)"
    and inv_undef: "\<lbrakk>names_inv w; m \<in> set (names_hash w (hash_nick (m_nick m)))\<rbrakk> \<Longrightarrow> names_inv (hUndef w m)"
    and inv_same: "\<lbrakk>names_inv w; names_lookup w nick = Some m; \<And>m. m_nick (f m) = m_nick m; \<And>m. rank (f m) = rank m\<rbrakk>
      \<Longrightarrow> names_inv (set_names nick f w)"
    and inv_owner: "\<lbrakk>names_inv w; names_lookup w nick = Some m; exact \<Longrightarrow> flag \<or> is_owner m\<rbrakk>
      \<Longrightarrow> \<exists>w'. modify_owner nick flag w = Some w' \<and> names_inv w'"
    and inv_superop: "\<lbrakk>names_inv w; names_lookup w nick = Some m; exact \<Longrightarrow> flag \<or> is_superop m\<rbrakk>
      \<Longrightarrow> \<exists>w'. modify_superop nick flag w = Some w' \<and> names_inv w'"
    and inv_op: "\<lbrakk>names_inv w; names_lookup w nick = Some m; exact \<Longrightarrow> flag \<or> is_op m\<rbrakk>
      \<Longrightarrow> \<exists>w'. modify_op nick flag w = Some w' \<and> names_inv w'"
    and inv_halfop: "\<lbrakk>names_inv w; names_lookup w nick = Some m; exact \<Longrightarrow> flag \<or> is_halfop m\<rbrakk>
      \<Longrightarrow> \<exists>w'. modify_halfop nick flag w = Some w' \<and> names_inv w'"
    and inv_voice: "\<lbrakk>names_inv w; names_lookup w nick = Some m; exact \<Longrightarrow> flag \<or> is_voice m\<rbrakk>
      \<Longrightarrow> \<exists>w'. modify_voice nick flag w = Some w' \<and> names_inv w'"

interpretation counted: names_invariant names_ok True
proof
  fix w nick m and f :: "names \<Rightarrow> names"
  assume "names_ok w" "names_lookup w nick = Some m" "\<And>m. m_nick (f m) = m_nick m" "\<And>m. rank (f m) = rank m"
  moreover have "counter r (set_names nick f w) = counter r w" for r by (cases r) simp_all
  ultimately show "names_ok (set_names nick f w)"
    using changed_set [of w nick m f "set_names nick f w"] by (simp add: changed_def)
next
  fix w nick m flag
  assume a: "names_ok w" "names_lookup w nick = Some m"
  show "\<exists>w'. modify_owner nick flag w = Some w' \<and> names_ok w'" if "True \<Longrightarrow> flag \<or> is_owner m"
    using owner_ok [OF a, of flag] that by (auto simp: changed_def)
  show "\<exists>w'. modify_superop nick flag w = Some w' \<and> names_ok w'" if "True \<Longrightarrow> flag \<or> is_superop m"
    using superop_ok [OF a, of flag] that by (auto simp: changed_def)
  show "\<exists>w'. modify_op nick flag w = Some w' \<and> names_ok w'" if "True \<Longrightarrow> flag \<or> is_op m"
    using op_ok [OF a, of flag] that by (auto simp: changed_def)
  show "\<exists>w'. modify_halfop nick flag w = Some w' \<and> names_ok w'" if "True \<Longrightarrow> flag \<or> is_halfop m"
    using halfop_ok [OF a, of flag] that by (auto simp: changed_def)
  show "\<exists>w'. modify_voice nick flag w = Some w' \<and> names_ok w'" if "True \<Longrightarrow> flag \<or> is_voice m"
    using voice_ok [OF a, of flag] that by (auto simp: changed_def)
qed (simp_all add: no_names_ok(1) link_ok names_undef_ok, simp add: names_ok_def)

definition roll_ok :: "chan_names \<Rightarrow> bool" where
  "roll_ok w \<longleftrightarrow> table_ok w \<and> num_total w = chain_count NAMES_HASH_TABLE_SIZE (\<lambda>_. True) (names_hash w)"

lemma names_roll_ok: "names_ok w \<Longrightarrow> roll_ok w"
  by (simp add: names_ok_def roll_ok_def counts_ok_def)

lemma roll_set:
  assumes "roll_ok w" "names_lookup w nick = Some m" "\<And>m. m_nick (f m) = m_nick m"
    and "names_hash w' = names_hash (set_names nick f w)" "num_total w' = num_total w"
  shows "roll_ok w'"
proof -
  have "table_ok w'"
    using set_lookup(1) [of w f nick] assms by (simp add: table_ok_def roll_ok_def)
  moreover have "chain_count NAMES_HASH_TABLE_SIZE (\<lambda>_. True) (names_hash w') = num_total w'"
    using assms nc.update_count [of "names_hash w" nick m "hash_nick nick" "\<lambda>_. True" f]
    by (simp add: roll_ok_def table_ok_def set_names_def lookup_chain)
  ultimately show ?thesis by (simp add: roll_ok_def)
qed

lemma modify_sets:
  assumes "names_lookup w nick = Some m"
  shows "\<exists>w'. modify_owner nick flag w = Some w' \<and> (w' = w \<or> num_total w' = num_total w
      \<and> names_hash w' = names_hash (set_names nick (\<lambda>m. m\<lparr>is_owner := flag\<rparr>) w))"
    "\<exists>w'. modify_superop nick flag w = Some w' \<and> (w' = w \<or> num_total w' = num_total w
      \<and> names_hash w' = names_hash (set_names nick (\<lambda>m. m\<lparr>is_superop := flag\<rparr>) w))"
    "\<exists>w'. modify_op nick flag w = Some w' \<and> (w' = w \<or> num_total w' = num_total w
      \<and> names_hash w' = names_hash (set_names nick (\<lambda>m. m\<lparr>is_op := flag\<rparr>) w))"
    "\<exists>w'. modify_halfop nick flag w = Some w' \<and> (w' = w \<or> num_total w' = num_total w
      \<and> names_hash w' = names_hash (set_names nick (\<lambda>m. m\<lparr>is_halfop := flag\<rparr>) w))"
    "\<exists>w'. modify_voice nick flag w = Some w' \<and> (w' = w \<or> num_total w' = num_total w
      \<and> names_hash w' = names_hash (set_names nick (\<lambda>m. m\<lparr>is_voice := flag\<rparr>) w))"
  using assms
  by (auto simp: modify_owner_def modify_superop_def modify_op_def modify_halfop_def modify_voice_def Let_def)

interpretation roll: names_invariant roll_ok False
proof
  fix w nick m flag
  assume a: "roll_ok w" "names_lookup w nick = Some m"
  have s: "roll_ok w'" if "w' = w \<or> num_total w' = num_total w \<and> names_hash w' = names_hash (set_names nick f w)"
    "\<And>m. m_nick (f m) = m_nick m" for f w'
    using that a roll_set [OF a, of f w'] by auto
  show "\<exists>w'. modify_owner nick flag w = Some w' \<and> roll_ok w'"
    using modify_sets(1) [OF a(2), of flag] s [of _ "\<lambda>m. m\<lparr>is_owner := flag\<rparr>"] by auto
  show "\<exists>w'. modify_superop nick flag w = Some w' \<and> roll_ok w'"
    using modify_sets(2) [OF a(2), of flag] s [of _ "\<lambda>m. m\<lparr>is_superop := flag\<rparr>"] by auto
  show "\<exists>w'. modify_op nick flag w = Some w' \<and> roll_ok w'"
    using modify_sets(3) [OF a(2), of flag] s [of _ "\<lambda>m. m\<lparr>is_op := flag\<rparr>"] by auto
  show "\<exists>w'. modify_halfop nick flag w = Some w' \<and> roll_ok w'"
    using modify_sets(4) [OF a(2), of flag] s [of _ "\<lambda>m. m\<lparr>is_halfop := flag\<rparr>"] by auto
  show "\<exists>w'. modify_voice nick flag w = Some w' \<and> roll_ok w'"
    using modify_sets(5) [OF a(2), of flag] s [of _ "\<lambda>m. m\<lparr>is_voice := flag\<rparr>"] by auto
next
  fix w nick m and f :: "names \<Rightarrow> names"
  assume "roll_ok w" "names_lookup w nick = Some m" "\<And>m. m_nick (f m) = m_nick m"
  then show "roll_ok (set_names nick f w)" by (rule roll_set) simp_all
next
  fix w and m :: names assume a: "roll_ok w" "names_lookup w (m_nick m) = None" "nick_ok (m_nick m)"
  then show "roll_ok (link_names m w)" using nc.insert_wf [of "names_hash w" m]
    by (auto simp: roll_ok_def table_ok_def link_hash link_counters nc.insert_count lookup_chain)
next
  fix w and m :: names assume a: "roll_ok w" "m \<in> set (names_hash w (hash_nick (m_nick m)))"
  then have "m_nick m \<noteq> []" by (auto simp: roll_ok_def table_ok_def nick_ok_def)
  then show "roll_ok (hUndef w m)" using a undef_table_ok(1) [of w m]
    by (auto simp: roll_ok_def undef_hash undef_counters nc.remove_count)
qed (use names_roll_ok no_names_ok(1) in \<open>auto simp: roll_ok_def\<close>)

section \<open>Removing all names\<close>

lemma undef_chain:
  assumes "table_ok w" "names_hash w i = xs"
  shows "table_ok (fold (\<lambda>p w. hUndef w p) xs w)
    \<and> names_hash (fold (\<lambda>p w. hUndef w p) xs w) = (names_hash w)(i := [])"
  using assms
proof (induction xs arbitrary: w)
  case (Cons x xs)
  have in_chain: "x \<in> set (names_hash w i)" using Cons.prems(2) by simp
  then have x: "x \<in> set (names_hash w i)" "hash_nick (m_nick x) = i" "m_nick x \<noteq> []"
    using Cons.prems(1) unfolding table_ok_def chain_wf_def nick_ok_def by blast+
  have h: "names_hash (hUndef w x) = (names_hash w)(i := xs)"
    using x Cons.prems(2) by (simp add: undef_hash)
  have t: "table_ok (hUndef w x)" using undef_table_ok(1) [of w x] Cons.prems(1) x by simp
  show ?case using Cons.IH [OF t] h by (auto simp: fun_eq_iff)
next
  case Nil
  then show ?case by auto
qed

lemma undef_chains:
  assumes "table_ok w"
  shows "table_ok (fold (\<lambda>i w. fold (\<lambda>p w. hUndef w p) (names_hash w i) w) is w)
    \<and> names_hash (fold (\<lambda>i w. fold (\<lambda>p w. hUndef w p) (names_hash w i) w) is w) =
      (\<lambda>j. if j \<in> set is then [] else names_hash w j)"
  using assms
proof (induction "is" arbitrary: w)
  case (Cons i "is")
  show ?case using Cons.IH [of "fold (\<lambda>p w. hUndef w p) (names_hash w i) w"] undef_chain [OF Cons.prems refl, of i]
    by (auto simp: fun_eq_iff)
qed simp

lemma remove_chains_empty:
  assumes "table_ok w"
  shows "remove_chains w = no_names"
proof -
  let ?w = "fold (\<lambda>i w. fold (\<lambda>p w. hUndef w p) (names_hash w i) w) [0..<NAMES_HASH_TABLE_SIZE] w"
  have "names_hash w j = []" if "j \<ge> NAMES_HASH_TABLE_SIZE" for j
    using assms that nc.hash_bound
    by (metis table_ok_def chain_wf_def leD list.set_intros(1) list.exhaust)
  then have "names_hash ?w = (\<lambda>_. [])" using undef_chains [OF assms] by (auto simp: fun_eq_iff)
  then show ?thesis by (simp add: remove_chains_def reset_counters_def no_names_def)
qed

section \<open>A privilege that is taken from a member who does not have it\<close>

lemma op_taken_twice:
  assumes "names_ok w" "names_lookup w nick = Some m" "rank m = PrivNormal"
  shows "\<exists>w'. modify_op nick False w = Some w' \<and> num_ops w' = num_ops w - 1 \<and> num_normal w' = num_normal w + 1
    \<and> (\<forall>s. names_lookup w' s = names_lookup w s)"
proof -
  have m: "\<not> is_owner m" "\<not> is_superop m" "\<not> is_op m" "\<not> is_halfop m" "\<not> is_voice m"
    using assms(3) by (auto simp: rank_def split: if_splits)
  have e: "m\<lparr>is_op := False\<rparr> = m" using m by (cases m) simp
  have l: "names_lookup (set_names nick (\<lambda>m. m\<lparr>is_op := False\<rparr>) w) s = names_lookup w s" for s
  proof (cases "strings_match_ignore_case nick s")
    case True
    then have "names_lookup w s = Some m" using assms(2) lookup_spelling [of nick s w] by simp
    then show ?thesis
      using set_lookup(2) [of w "\<lambda>m. m\<lparr>is_op := False\<rparr>" nick s] True assms(1) e by (simp add: names_ok_def)
  next
    case False
    then show ?thesis using set_lookup(2) [of w "\<lambda>m. m\<lparr>is_op := False\<rparr>" nick s] assms(1) by (simp add: names_ok_def)
  qed
  have "names_lookup (w'\<lparr>num_ops := a, num_normal := b\<rparr>) s = names_lookup w' s" for w' a b s
    by (simp add: names_lookup_def)
  then show ?thesis using m assms(2) l by (simp add: modify_op_def Let_def names_lookup_def)
qed

end
