(* ===== verification/Window.thy ===== *)
theory Window
  imports Names_Table
begin

text \<open>
  The window system: \<^verbatim>\<open>src/src/window.c\<close> and \<^verbatim>\<open>src/src/window.h\<close>.

  The hash table is a list of 800 chains; a window is a record, its address the field
  \<^verbatim>\<open>w_ptr\<close>, so that the pointers \<^verbatim>\<open>g_active_window\<close> and \<^verbatim>\<open>g_status_window\<close> can be
  compared, and can dangle, as in the code.  The text buffer of a window is represented by the
  number of rows that each of its lines takes on the screen (what \<^verbatim>\<open>printtext_puts\<close> stores in
  \<^verbatim>\<open>rep_count\<close>), oldest line first.  The names of a channel and their counters are the record \<^verbatim>\<open>w_names\<close>.
  Panels and the nick list belong to other components; whether a panel can be raised is part of the environment.
\<close>

section \<open>State\<close>

record irc_window =
  w_ptr :: nat
  w_rows :: "int list"
  is_logwin :: bool
  logging :: bool
  received_chancreated :: bool
  received_chanmodes :: bool
  received_names :: bool
  scroll_mode :: bool
  chanmodes :: string
  label :: string
  title :: "string option"
  w_names :: chan_names
  refnum :: int
  saved_size :: int
  scroll_count :: int

record win_state =
  hash_table :: "irc_window list list"
  g_active_window :: "nat option"
  g_status_window :: "nat option"
  g_ntotal_windows :: int
  next_ptr :: nat

text \<open>
  The environment: the setting \<^verbatim>\<open>max_chat_windows\<close> (at most 800), the screen lines, the
  connection flags, the log window symbol, and which windows' panels can be raised.
\<close>

record win_env =
  max_chat_windows :: int
  LINES :: int
  g_on_air :: bool
  g_icb_mode :: bool
  extended_join :: bool
  g_ircv3_extensions :: bool
  g_sym_logwin :: char
  panel_ok :: "nat \<Rightarrow> bool"

definition HASH_SIZE :: nat where "HASH_SIZE = 800"

definition hash :: "string \<Rightarrow> nat" where
  "hash str = hash_djb_g str True HASH_SIZE"

definition g_status_window_label :: string where "g_status_window_label = ''(status)''"
definition g_scroll_amount :: int where "g_scroll_amount = 6"

text \<open>The windows in the order of the two nested loops over the table.\<close>

definition windows :: "win_state \<Rightarrow> irc_window list" where
  "windows st = concat (hash_table st)"

definition window_at :: "win_state \<Rightarrow> nat \<Rightarrow> irc_window option" where
  "window_at st p = find (\<lambda>w. w_ptr w = p) (windows st)"

text \<open>Assignment to the fields of the window with the given address.\<close>

definition upd_window :: "nat \<Rightarrow> (irc_window \<Rightarrow> irc_window) \<Rightarrow> win_state \<Rightarrow> win_state" where
  "upd_window p f st = st\<lparr>hash_table := map (map (\<lambda>w. if w_ptr w = p then f w else w)) (hash_table st)\<rparr>"

section \<open>Lookup\<close>

definition window_by_label :: "win_state \<Rightarrow> string option \<Rightarrow> irc_window option" where
  "window_by_label st lbl =
     (case lbl of None \<Rightarrow> None
      | Some l \<Rightarrow>
          if strings_match l [] then None
          else find (\<lambda>w. strings_match_ignore_case l (label w)) (hash_table st ! hash l))"

definition window_by_refnum :: "win_state \<Rightarrow> int \<Rightarrow> irc_window option" where
  "window_by_refnum st n =
     (if n < 1 \<or> n > g_ntotal_windows st then None
      else find (\<lambda>w. n = refnum w) (windows st))"

definition is_the_active_window :: "win_state \<Rightarrow> nat \<Rightarrow> bool" where
  "is_the_active_window st which \<longleftrightarrow> g_active_window st = Some which"

section \<open>Changing the window\<close>

definition change_window :: "win_env \<Rightarrow> irc_window option \<Rightarrow> win_state \<Rightarrow> errno \<times> win_state" where
  "change_window env window st =
     (case window of None \<Rightarrow> (ENOENT, st)
      | Some w \<Rightarrow>
          if is_the_active_window st (w_ptr w) then (OK0, st)
          else if \<not> panel_ok env (w_ptr w) then (EPERM, st)
          else (OK0, st\<lparr>g_active_window := Some (w_ptr w)\<rparr>))"

definition change_window_by_label :: "win_env \<Rightarrow> string option \<Rightarrow> win_state \<Rightarrow> errno \<times> win_state" where
  "change_window_by_label env lbl st = change_window env (window_by_label st lbl) st"

definition change_window_by_refnum :: "win_env \<Rightarrow> int \<Rightarrow> win_state \<Rightarrow> errno \<times> win_state" where
  "change_window_by_refnum env n st = change_window env (window_by_refnum st n) st"

section \<open>Installing and removing\<close>

definition hInstall :: "string \<Rightarrow> string option \<Rightarrow> int \<Rightarrow> win_state \<Rightarrow> irc_window \<times> win_state" where
  "hInstall lbl ttl n st =
     (let entry = \<lparr>w_ptr = next_ptr st, w_rows = [], is_logwin = False, logging = False,
            received_chancreated = False, received_chanmodes = False, received_names = False,
            scroll_mode = False, chanmodes = [], label = lbl,
            title = (if ttl = None \<or> ttl = Some [] then None else ttl),
            w_names = no_names, refnum = n, saved_size = 0, scroll_count = 0\<rparr>;
          hashval = hash lbl
      in (entry, st\<lparr>hash_table := (hash_table st)[hashval := entry # hash_table st ! hashval],
                    g_ntotal_windows := g_ntotal_windows st + 1, next_ptr := Suc (next_ptr st)\<rparr>))"

text \<open>
  Unlinking runs along the chain until it meets the entry; \<^const>\<open>None\<close> if the chain ends first.
\<close>

fun unlink :: "nat \<Rightarrow> irc_window list \<Rightarrow> irc_window list option" where
  "unlink p [] = None"
| "unlink p (w # ws) = (if w_ptr w = p then Some ws else map_option ((#) w) (unlink p ws))"

definition hUndef :: "irc_window \<Rightarrow> win_state \<Rightarrow> win_state option" where
  "hUndef entry st = do {
     chain \<leftarrow> unlink (w_ptr entry) (hash_table st ! hash (label entry));
     Some (st\<lparr>hash_table := (hash_table st)[hash (label entry) := chain],
              g_ntotal_windows := g_ntotal_windows st - 1\<rparr>) }"

fun renumber_chain :: "irc_window list \<Rightarrow> int \<Rightarrow> irc_window list \<times> int" where
  "renumber_chain [] ref_count = ([], ref_count)"
| "renumber_chain (w # ws) ref_count =
     (if \<not> strings_match_ignore_case (label w) g_status_window_label
      then (let (ws', n) = renumber_chain ws (ref_count + 1) in (w\<lparr>refnum := ref_count + 1\<rparr> # ws', n))
      else (let (ws', n) = renumber_chain ws ref_count in (w # ws', n)))"

fun renumber :: "irc_window list list \<Rightarrow> int \<Rightarrow> irc_window list list \<times> int" where
  "renumber [] ref_count = ([], ref_count)"
| "renumber (c # cs) ref_count =
     (let (c', n) = renumber_chain c ref_count; (cs', m) = renumber cs n in (c' # cs', m))"

text \<open>\<^const>\<open>None\<close>: one of the two assertions fails.\<close>

definition reassign_window_refnums :: "win_state \<Rightarrow> win_state option" where
  "reassign_window_refnums st =
     (let (table, ref_count) = renumber (hash_table st) 1;
          st' = st\<lparr>hash_table := table\<rparr>
      in do { p \<leftarrow> g_status_window st'; w \<leftarrow> window_at st' p;
              if refnum w = 1 \<and> ref_count = g_ntotal_windows st' then Some st' else None })"

definition destroy_chat_window :: "win_env \<Rightarrow> string option \<Rightarrow> win_state \<Rightarrow> (errno \<times> win_state) option" where
  "destroy_chat_window env lbl st =
     (if lbl = None \<or> lbl = Some [] \<or> strings_match_ignore_case (the lbl) g_status_window_label
      then Some (EINVAL, st)
      else case window_by_label st lbl of
        None \<Rightarrow> Some (ENOENT, st)
      | Some window \<Rightarrow> do {
          st1 \<leftarrow> hUndef window st;
          st2 \<leftarrow> reassign_window_refnums st1;
          (case change_window_by_refnum env (g_ntotal_windows st2) st2 of
             (OK0, st3) \<Rightarrow> Some (OK0, st3)
           | _ \<Rightarrow> None) })"

text \<open>The result also lists the labels for which a WHOIS is sent.\<close>

definition spawn_chat_window ::
    "win_env \<Rightarrow> string option \<Rightarrow> string option \<Rightarrow> win_state \<Rightarrow> (errno \<times> win_state \<times> string list) option" where
  "spawn_chat_window env lbl ttl st =
     (let ntotalp1 = g_ntotal_windows st + 1 in
      case lbl of None \<Rightarrow> Some (EINVAL, st, [])
      | Some l \<Rightarrow>
          if strings_match l [] then Some (EINVAL, st, [])
          else if window_by_label st lbl \<noteq> None then Some (OK0, st, [])
          else if ntotalp1 > max_chat_windows env then Some (ENOSPC, st, [])
          else (let (entry, st1) = hInstall l ttl (g_ntotal_windows st + 1) st in
            case change_window_by_label env (Some (label entry)) st1 of
              (OK0, st2) \<Rightarrow>
                Some (OK0, st2,
                  if g_on_air env \<and> \<not> is_irc_channel (Some l) \<and> \<not> g_icb_mode env
                     \<and> hd l \<noteq> g_sym_logwin env \<and> \<not> is_logwin entry then [l] else [])
            | _ \<Rightarrow> None))"

definition empty_table :: "irc_window list list" where
  "empty_table = replicate HASH_SIZE []"

definition windowSystem_init :: "win_env \<Rightarrow> nat \<Rightarrow> win_state option" where
  "windowSystem_init env fresh =
     (let st0 = \<lparr>hash_table = empty_table, g_active_window = None, g_status_window = None,
                 g_ntotal_windows = 0, next_ptr = fresh\<rparr>
      in case spawn_chat_window env (Some g_status_window_label) (Some []) st0 of
           Some (OK0, st1, _) \<Rightarrow>
             (case window_by_label st1 (Some g_status_window_label) of
                None \<Rightarrow> None
              | Some w \<Rightarrow> Some (st1\<lparr>g_status_window := Some (w_ptr w)\<rparr>))
         | _ \<Rightarrow> None)"

fun undef_all :: "irc_window list \<Rightarrow> win_state \<Rightarrow> win_state option" where
  "undef_all [] st = Some st"
| "undef_all (w # ws) st = do { st' \<leftarrow> hUndef w st; undef_all ws st' }"

definition windowSystem_deinit :: "win_state \<Rightarrow> win_state option" where
  "windowSystem_deinit st = undef_all (windows st) st"

section \<open>Titles\<close>

definition new_window_title :: "string option \<Rightarrow> string option \<Rightarrow> win_state \<Rightarrow> win_state" where
  "new_window_title lbl ttl st =
     (case window_by_label st lbl of None \<Rightarrow> st
      | Some w \<Rightarrow> if ttl = None \<or> ttl = Some [] then st
                  else upd_window (w_ptr w) (\<lambda>w. w\<lparr>title := ttl\<rparr>) st)"

definition title_size :: nat where "title_size = 400"

definition set_nick_as_title :: "string \<Rightarrow> string" where
  "set_nick_as_title nick = (if length nick \<ge> title_size then [] else nick)"

text \<open>
  The argument \<^verbatim>\<open>names\<close> is the lookup in the names of a channel: account and real name, when
  both are known, of the nickname.
\<close>

fun title_loop :: "irc_window list \<Rightarrow> (string \<Rightarrow> string \<Rightarrow> (string option \<times> string option) option) \<Rightarrow> string \<Rightarrow> string" where
  "title_loop [] names nick = set_nick_as_title nick"
| "title_loop (w # ws) names nick =
     (if \<not> is_irc_channel (Some (label w)) then title_loop ws names nick
      else case names nick (label w) of
        Some (Some account, Some rl_name) \<Rightarrow>
          take (title_size - 1) (nick @ '' ('' @ account @ ''): '' @ rl_name)
      | _ \<Rightarrow> title_loop ws names nick)"

definition make_window_title ::
    "win_env \<Rightarrow> (string \<Rightarrow> string \<Rightarrow> (string option \<times> string option) option) \<Rightarrow> win_state \<Rightarrow> string \<Rightarrow> string" where
  "make_window_title env names st nick =
     (if \<not> g_on_air env \<or> \<not> extended_join env \<or> \<not> g_ircv3_extensions env \<or> g_icb_mode env
      then set_nick_as_title nick else title_loop (windows st) names nick)"

section \<open>Loops over all windows\<close>

definition get_list_of_matching_channels :: "win_state \<Rightarrow> string \<Rightarrow> string list option" where
  "get_list_of_matching_channels st search_var =
     (let matches = map label (filter (\<lambda>w. is_irc_channel (Some (label w))
            \<and> strncasecmp_eq search_var (label w) (length search_var)) (windows st))
      in if matches = [] then None else Some matches)"

definition get_list_of_matching_queries :: "win_state \<Rightarrow> string \<Rightarrow> string list option" where
  "get_list_of_matching_queries st search_var =
     (let matches = map label (filter (\<lambda>w. \<not> is_irc_channel (Some (label w))
            \<and> Some (w_ptr w) \<noteq> g_status_window st
            \<and> strncasecmp_eq search_var (label w) (length search_var)) (windows st))
      in if matches = [] then None else Some matches)"

text \<open>The labels are collected into an array of 800 pointers first.\<close>

definition priv_conv :: "win_state \<Rightarrow> string list" where
  "priv_conv st = take 800 (map label (filter (\<lambda>w. \<not> (Some (w_ptr w) = g_status_window st
     \<or> is_irc_channel (Some (label w)) \<or> is_logwin w)) (windows st)))"

fun destroy_each :: "win_env \<Rightarrow> string list \<Rightarrow> win_state \<Rightarrow> win_state option" where
  "destroy_each env [] st = Some st"
| "destroy_each env (l # ls) st = do { (_, st') \<leftarrow> destroy_chat_window env (Some l) st; destroy_each env ls st' }"

definition window_close_all_priv_conv :: "win_env \<Rightarrow> win_state \<Rightarrow> win_state option" where
  "window_close_all_priv_conv env st = destroy_each env (priv_conv st) st"

text \<open>\<^verbatim>\<open>event_names_htbl_remove_all\<close> of \<^verbatim>\<open>names.cpp\<close>.\<close>

definition event_names_htbl_remove_all :: "irc_window \<Rightarrow> irc_window" where
  "event_names_htbl_remove_all window =
     (if \<not> is_irc_channel (Some (label window)) then window
      else window\<lparr>w_names := remove_chains (w_names window), received_names := False\<rparr>)"

lemma remove_all_fields [simp]:
  "w_ptr (event_names_htbl_remove_all w) = w_ptr w" "label (event_names_htbl_remove_all w) = label w"
  "refnum (event_names_htbl_remove_all w) = refnum w"
  by (simp_all add: event_names_htbl_remove_all_def)

definition window_foreach_destroy_names :: "win_state \<Rightarrow> win_state" where
  "window_foreach_destroy_names st = st\<lparr>hash_table := map (map (\<lambda>w.
     if is_irc_channel (Some (label w))
     then (event_names_htbl_remove_all w)\<lparr>chanmodes := [], received_chanmodes := False,
       received_chancreated := False\<rparr>
     else w)) (hash_table st)\<rparr>"

definition window_foreach_rejoin_all_channels :: "win_state \<Rightarrow> string list" where
  "window_foreach_rejoin_all_channels st =
     map (\<lambda>w. ''JOIN '' @ label w) (filter (\<lambda>w. is_irc_channel (Some (label w))) (windows st))"

definition window_select_next :: "win_env \<Rightarrow> win_state \<Rightarrow> win_state" where
  "window_select_next env st =
     (case g_active_window st of None \<Rightarrow> st
      | Some p \<Rightarrow> (case window_at st p of None \<Rightarrow> st
        | Some a \<Rightarrow> (let n = refnum a + 1 in
            if window_by_refnum st n \<noteq> None then snd (change_window_by_refnum env n st) else st)))"

definition window_select_prev :: "win_env \<Rightarrow> win_state \<Rightarrow> win_state" where
  "window_select_prev env st =
     (case g_active_window st of None \<Rightarrow> st
      | Some p \<Rightarrow> (case window_at st p of None \<Rightarrow> st
        | Some a \<Rightarrow> (let n = refnum a - 1 in
            if window_by_refnum st n \<noteq> None then snd (change_window_by_refnum env n st) else st)))"

text \<open>\<^verbatim>\<open>windows_list_all\<close> asks for the numbers from 1 on until one is missing.\<close>

function list_from :: "win_state \<Rightarrow> int \<Rightarrow> irc_window list" where
  "list_from st i = (case window_by_refnum st i of None \<Rightarrow> [] | Some w \<Rightarrow> w # list_from st (i + 1))"
  by pat_completeness auto
termination
  by (relation "measure (\<lambda>(st, i). nat (g_ntotal_windows st + 1 - i))")
    (auto simp: window_by_refnum_def split: if_splits)

declare list_from.simps [simp del]

definition windows_list_all :: "win_state \<Rightarrow> (int \<times> string \<times> bool) list" where
  "windows_list_all st = map (\<lambda>w. (refnum w, label w, logging w)) (list_from st 1)"

section \<open>The invariant\<close>

text \<open>
  The table: every window is in the chain of its label's hash, no two labels are equal up to
  case, addresses are unique and were handed out before.
\<close>

definition list_ok :: "irc_window list \<Rightarrow> nat \<Rightarrow> bool" where
  "list_ok ws np \<longleftrightarrow> (\<forall>w\<in>set ws. label w \<noteq> [] \<and> w_ptr w < np)
     \<and> distinct (map w_ptr ws) \<and> distinct (map (\<lambda>w. fold_case (label w)) ws)"

definition chains_ok :: "irc_window list list \<Rightarrow> bool" where
  "chains_ok t \<longleftrightarrow> length t = HASH_SIZE \<and> (\<forall>i<HASH_SIZE. \<forall>w\<in>set (t ! i). hash (label w) = i)"

definition table_ok :: "irc_window list list \<Rightarrow> nat \<Rightarrow> bool" where
  "table_ok t np \<longleftrightarrow> chains_ok t \<and> list_ok (concat t) np"

definition is_status :: "irc_window \<Rightarrow> bool" where
  "is_status w \<longleftrightarrow> strings_match_ignore_case (label w) g_status_window_label"

text \<open>The reference numbers are 1, ..., n, each once, and the status window has number 1.\<close>

definition refnums_ok :: "irc_window list \<Rightarrow> int \<Rightarrow> bool" where
  "refnums_ok ws n \<longleftrightarrow> n = int (length ws) \<and> distinct (map refnum ws) \<and> refnum ` set ws = {1..n}"

definition status_ok :: "win_state \<Rightarrow> bool" where
  "status_ok st \<longleftrightarrow> (\<exists>s\<in>set (windows st). g_status_window st = Some (w_ptr s) \<and> is_status s \<and> refnum s = 1)"

definition registry_ok :: "win_state \<Rightarrow> bool" where
  "registry_ok st \<longleftrightarrow> table_ok (hash_table st) (next_ptr st)
     \<and> refnums_ok (windows st) (g_ntotal_windows st) \<and> status_ok st"

definition active_ok :: "win_state \<Rightarrow> bool" where
  "active_ok st \<longleftrightarrow> (\<exists>a\<in>set (windows st). g_active_window st = Some (w_ptr a))"

definition windows_ok :: "win_state \<Rightarrow> bool" where
  "windows_ok st \<longleftrightarrow> registry_ok st \<and> active_ok st"

section \<open>Lemmas: the table\<close>

lemma hash_less: "hash l < HASH_SIZE"
  using djb800.hash_bound [of l] by (simp add: hash_def HASH_SIZE_def)

lemma hash_case: "strings_match_ignore_case s t \<Longrightarrow> hash s = hash t"
  using djb800.hash_case by (simp add: hash_def HASH_SIZE_def)

lemma concat_split:
  assumes "i < length t"
  obtains A B where "concat t = A @ t ! i @ B" "\<And>c. concat (t[i := c]) = A @ c @ B"
proof
  have "t = take i t @ t ! i # drop (Suc i) t" using assms by (simp add: id_take_nth_drop)
  then show "concat t = concat (take i t) @ t ! i @ concat (drop (Suc i) t)"
    by (metis concat.simps(2) concat_append)
  show "concat (t[i := c]) = concat (take i t) @ c @ concat (drop (Suc i) t)" for c
    using assms by (simp add: upd_conv_take_nth_drop)
qed

lemma in_chain:
  assumes "chains_ok t" "w \<in> set (concat t)"
  shows "w \<in> set (t ! hash (label w))"
proof -
  obtain c where "c \<in> set t" "w \<in> set c" using assms(2) by auto
  then obtain i where "i < length t" "w \<in> set (t ! i)" by (metis in_set_conv_nth)
  then show ?thesis using assms(1) by (auto simp: chains_ok_def)
qed

lemma chain_subset: "chains_ok t \<Longrightarrow> w \<in> set (t ! hash l) \<Longrightarrow> w \<in> set (concat t)"
  using hash_less [of l] nth_mem [of "hash l" t] by (auto simp: chains_ok_def)

lemma label_unique:
  assumes "list_ok ws np" "v \<in> set ws" "w \<in> set ws" "strings_match_ignore_case l (label v)"
    "strings_match_ignore_case l (label w)"
  shows "v = w"
proof -
  have "fold_case (label v) = fold_case (label w)" using assms(4,5) by (simp add: smic_fold)
  then show ?thesis using assms(1-3) by (auto simp: list_ok_def distinct_map inj_on_def)
qed

lemma window_by_label_iff:
  assumes "table_ok (hash_table st) np" "l \<noteq> []"
  shows "window_by_label st (Some l) = Some w \<longleftrightarrow> w \<in> set (windows st) \<and> strings_match_ignore_case l (label w)"
proof -
  let ?chain = "hash_table st ! hash l"
  have c: "chains_ok (hash_table st)" and ok: "list_ok (windows st) np"
    using assms(1) by (simp_all add: table_ok_def windows_def)
  show ?thesis
  proof
    assume "window_by_label st (Some l) = Some w"
    then have "w \<in> set ?chain" "strings_match_ignore_case l (label w)"
      using assms(2) by (auto simp: window_by_label_def find_Some_iff)
    then show "w \<in> set (windows st) \<and> strings_match_ignore_case l (label w)"
      using chain_subset [OF c] unfolding windows_def by blast
  next
    assume w: "w \<in> set (windows st) \<and> strings_match_ignore_case l (label w)"
    then have "w \<in> set ?chain"
      using in_chain [OF c, of w] hash_case [of l "label w"] by (simp add: windows_def)
    then obtain v where v: "find (\<lambda>w. strings_match_ignore_case l (label w)) ?chain = Some v"
      using w by (cases "find (\<lambda>w. strings_match_ignore_case l (label w)) ?chain") (auto simp: find_None_iff)
    then have "v \<in> set ?chain" "strings_match_ignore_case l (label v)" by (auto simp: find_Some_iff)
    moreover have "v \<in> set (windows st)"
      using chain_subset [OF c] calculation(1) unfolding windows_def by blast
    ultimately have "v = w" using label_unique [OF ok] w by blast
    then show "window_by_label st (Some l) = Some w"
      using v assms(2) by (simp add: window_by_label_def)
  qed
qed

lemma window_by_label_None:
  assumes "table_ok (hash_table st) np" "l \<noteq> []"
  shows "window_by_label st (Some l) = None \<longleftrightarrow> (\<forall>w\<in>set (windows st). \<not> strings_match_ignore_case l (label w))"
  using window_by_label_iff [OF assms] by (cases "window_by_label st (Some l)") auto

lemma window_by_refnum_iff:
  assumes "refnums_ok (windows st) (g_ntotal_windows st)"
  shows "window_by_refnum st n = Some w \<longleftrightarrow> w \<in> set (windows st) \<and> refnum w = n"
proof -
  have d: "distinct (map refnum (windows st))" and r: "refnum ` set (windows st) = {1..g_ntotal_windows st}"
    using assms by (auto simp: refnums_ok_def)
  show ?thesis
  proof
    assume "window_by_refnum st n = Some w"
    then show "w \<in> set (windows st) \<and> refnum w = n"
      by (auto simp: window_by_refnum_def find_Some_iff split: if_splits)
  next
    assume w: "w \<in> set (windows st) \<and> refnum w = n"
    then have n: "1 \<le> n" "n \<le> g_ntotal_windows st" using r by auto
    obtain v where v: "find (\<lambda>w. n = refnum w) (windows st) = Some v"
      using w by (cases "find (\<lambda>w. n = refnum w) (windows st)") (auto simp: find_None_iff)
    then have "v \<in> set (windows st)" "refnum v = n" by (auto simp: find_Some_iff)
    then have "v = w" using d w by (auto simp: distinct_map inj_on_def)
    then show "window_by_refnum st n = Some w" using v n by (simp add: window_by_refnum_def)
  qed
qed

text \<open>Installing and unlinking.\<close>

lemma unlink_split:
  "\<lbrakk>distinct (map w_ptr ws); w \<in> set ws\<rbrakk> \<Longrightarrow> \<exists>C D. ws = C @ w # D \<and> unlink (w_ptr w) ws = Some (C @ D)"
proof (induction ws)
  case (Cons v ws)
  show ?case
  proof (cases "v = w")
    case True
    then show ?thesis by (intro exI [of _ "[]"] exI [of _ ws]) simp
  next
    case False
    then have "w \<in> set ws" "w_ptr v \<noteq> w_ptr w" using Cons.prems by auto
    then obtain C D where "ws = C @ w # D" "unlink (w_ptr w) ws = Some (C @ D)" using Cons by auto
    then show ?thesis using \<open>w_ptr v \<noteq> w_ptr w\<close> by (intro exI [of _ "v # C"] exI [of _ D]) simp
  qed
qed simp

lemma chains_ok_update:
  assumes "chains_ok t" "set chain \<subseteq> set (t ! i)" "i < length t"
  shows "chains_ok (t[i := chain])"
proof -
  have "hash (label v) = j" if "j < HASH_SIZE" "v \<in> set (t[i := chain] ! j)" for j v
  proof (cases "j = i")
    case True
    then have "v \<in> set (t ! i)" using that(2) assms(2,3) by auto
    then show ?thesis using assms(1) that(1) True unfolding chains_ok_def by blast
  next
    case False
    then show ?thesis using assms(1) that unfolding chains_ok_def by simp
  qed
  then show ?thesis using assms(1) unfolding chains_ok_def by simp
qed

lemma hUndef_windows:
  assumes "table_ok (hash_table st) (next_ptr st)" "w \<in> set (windows st)"
  shows "\<exists>st' A B. hUndef w st = Some st' \<and> windows st = A @ w # B \<and> windows st' = A @ B
    \<and> st' = st\<lparr>hash_table := hash_table st', g_ntotal_windows := g_ntotal_windows st - 1\<rparr>
    \<and> table_ok (hash_table st') (next_ptr st)"
proof -
  let ?t = "hash_table st" and ?i = "hash (label w)"
  have c: "chains_ok ?t" and ok: "list_ok (concat ?t) (next_ptr st)" using assms(1) by (simp_all add: table_ok_def)
  have i: "?i < length ?t" using c hash_less by (simp add: chains_ok_def)
  obtain A B where AB: "concat ?t = A @ ?t ! ?i @ B" "\<And>c. concat (?t[?i := c]) = A @ c @ B"
    using concat_split [OF i] by blast
  have w: "w \<in> set (?t ! ?i)" using in_chain [OF c] assms(2) unfolding windows_def by blast
  have "distinct (map w_ptr (?t ! ?i))" using ok AB(1) by (simp add: list_ok_def)
  from unlink_split [OF this w] obtain C D
    where CD: "?t ! ?i = C @ w # D" "unlink (w_ptr w) (?t ! ?i) = Some (C @ D)" by blast
  let ?t' = "?t[?i := C @ D]"
  have "set (C @ D) \<subseteq> set (?t ! ?i)" using CD(1) by auto
  then have "chains_ok ?t'" by (rule chains_ok_update [OF c]) (rule i)
  moreover have "list_ok (concat ?t') (next_ptr st)"
    using ok unfolding AB CD(1) by (auto simp: list_ok_def)
  ultimately have "table_ok ?t' (next_ptr st)" by (simp add: table_ok_def)
  then show ?thesis
    using AB CD by (intro exI [of _ "st\<lparr>hash_table := ?t', g_ntotal_windows := g_ntotal_windows st - 1\<rparr>"]
        exI [of _ "A @ C"] exI [of _ "D @ B"]) (simp add: hUndef_def windows_def)
qed

lemma hInstall_windows:
  assumes "table_ok (hash_table st) (next_ptr st)" "l \<noteq> []"
    "\<forall>w\<in>set (windows st). \<not> strings_match_ignore_case l (label w)"
  shows "\<exists>e st' A B. hInstall l ttl n st = (e, st') \<and> windows st = A @ B \<and> windows st' = A @ e # B
    \<and> label e = l \<and> refnum e = n \<and> w_ptr e = next_ptr st \<and> \<not> is_logwin e
    \<and> st' = st\<lparr>hash_table := hash_table st', g_ntotal_windows := g_ntotal_windows st + 1, next_ptr := Suc (next_ptr st)\<rparr>
    \<and> table_ok (hash_table st') (next_ptr st')"
proof -
  let ?t = "hash_table st" and ?i = "hash l"
  obtain e st' where h: "hInstall l ttl n st = (e, st')" by fastforce
  have e: "label e = l" "refnum e = n" "w_ptr e = next_ptr st" "\<not> is_logwin e"
    and st': "st' = st\<lparr>hash_table := ?t[?i := e # ?t ! ?i], g_ntotal_windows := g_ntotal_windows st + 1,
      next_ptr := Suc (next_ptr st)\<rparr>"
    using h by (auto simp: hInstall_def Let_def)
  have c: "chains_ok ?t" and ok: "list_ok (concat ?t) (next_ptr st)" using assms(1) by (simp_all add: table_ok_def)
  have i: "?i < length ?t" using c hash_less by (simp add: chains_ok_def)
  obtain A B where AB: "concat ?t = A @ ?t ! ?i @ B" "\<And>c. concat (?t[?i := c]) = A @ c @ B"
    using concat_split [OF i] by blast
  let ?t' = "?t[?i := e # ?t ! ?i]"
  have "chains_ok ?t'"
    using c e i by (auto simp: chains_ok_def nth_list_update)
  moreover have "list_ok (concat ?t') (Suc (next_ptr st))"
  proof -
    have "\<forall>w\<in>set (concat ?t). \<not> strings_match_ignore_case l (label w)" using assms(3) by (simp add: windows_def)
    then show ?thesis
      using ok assms(2) e unfolding AB by (auto simp: list_ok_def smic_fold less_Suc_eq)
  qed
  ultimately have "table_ok ?t' (Suc (next_ptr st))" by (simp add: table_ok_def)
  then show ?thesis
    using h e AB by (intro exI [of _ e] exI [of _ st'] exI [of _ A] exI [of _ "?t ! ?i @ B"]) (simp add: st' windows_def)
qed

section \<open>Lemmas: reference numbers\<close>

text \<open>A list of windows in which only the reference numbers differ.\<close>

definition same_but_refnum :: "irc_window list \<Rightarrow> irc_window list \<Rightarrow> bool" where
  "same_but_refnum ws vs \<longleftrightarrow> map (\<lambda>w. w\<lparr>refnum := 0\<rparr>) ws = map (\<lambda>w. w\<lparr>refnum := 0\<rparr>) vs"

lemma same_fields:
  assumes "same_but_refnum ws vs"
  shows "map w_ptr ws = map w_ptr vs" "map label ws = map label vs" "length ws = length vs"
    "map (\<lambda>w. fold_case (label w)) ws = map (\<lambda>w. fold_case (label w)) vs"
proof -
  have m: "map f ws = map f vs" if "\<And>w. f (w\<lparr>refnum := 0\<rparr>) = f w" for f :: "irc_window \<Rightarrow> 'b"
  proof -
    have "map f ws = map f (map (\<lambda>w. w\<lparr>refnum := 0\<rparr>) ws)" using that by simp
    also have "\<dots> = map f vs" using assms that by (simp only: same_but_refnum_def) simp
    finally show ?thesis .
  qed
  show "map w_ptr ws = map w_ptr vs" "map label ws = map label vs"
    "map (\<lambda>w. fold_case (label w)) ws = map (\<lambda>w. fold_case (label w)) vs" by (rule m, simp)+
  show "length ws = length vs" using assms unfolding same_but_refnum_def by (metis length_map)
qed

lemma renumber_chain_append:
  "renumber_chain (xs @ ys) n =
     (let (xs', m) = renumber_chain xs n; (ys', k) = renumber_chain ys m in (xs' @ ys', k))"
  by (induction xs arbitrary: n) (auto simp: split_def Let_def)

lemma renumber_concat:
  "renumber cs n = (cs', m) \<Longrightarrow> renumber_chain (concat cs) n = (concat cs', m) \<and> length cs' = length cs
     \<and> (\<forall>i<length cs. \<exists>a b. renumber_chain (cs ! i) a = (cs' ! i, b))"
proof (induction cs arbitrary: n cs' m)
  case Nil
  then show ?case by simp
next
  case (Cons c cs)
  obtain c1 k where c1: "renumber_chain c n = (c1, k)" by fastforce
  obtain cs1 l where cs1: "renumber cs k = (cs1, l)" by fastforce
  have cs': "cs' = c1 # cs1" "m = l" using Cons.prems by (simp_all add: c1 cs1)
  have "\<exists>a b. renumber_chain ((c # cs) ! i) a = (cs' ! i, b)" if "i < length (c # cs)" for i
    using that Cons.IH [OF cs1] c1 cs' by (cases i) auto
  then show ?case
    using Cons.IH [OF cs1] cs' by (auto simp: renumber_chain_append c1)
qed

lemma renumber_chain_same: "renumber_chain ws n = (vs, m) \<Longrightarrow> same_but_refnum ws vs"
  by (induction ws arbitrary: n vs m) (auto simp: same_but_refnum_def split: prod.splits if_splits)

lemma renumber_chain_others:
  "\<forall>w\<in>set ws. \<not> is_status w \<Longrightarrow> renumber_chain ws n =
     (map (\<lambda>(w, k). w\<lparr>refnum := n + 1 + int k\<rparr>) (zip ws [0..<length ws]), n + int (length ws))"
proof (induction ws arbitrary: n)
  case (Cons w ws)
  have "zip (w # ws) [0..<length (w # ws)] = (w, 0) # map (\<lambda>(w, k). (w, Suc k)) (zip ws [0..<length ws])"
    by (simp add: upt_conv_Cons map_Suc_upt [symmetric] zip_map2 del: upt_Suc)
  then show ?case
    using Cons by (simp add: is_status_def comp_def split_def algebra_simps del: upt_Suc)
qed simp

lemma refnum_zip: "map refnum (map (\<lambda>(w, k). w\<lparr>refnum := n + 1 + int k\<rparr>) (zip ws [0..<length ws]))
    = map (\<lambda>k. n + 1 + int k) [0..<length ws]"
  by (rule nth_equalityI) auto

lemma image_shift: "(\<lambda>k. n + 1 + int k) ` {0..<l} = {n + 1..n + int l}"
proof
  show "{n + 1..n + int l} \<subseteq> (\<lambda>k. n + 1 + int k) ` {0..<l}"
  proof
    fix x assume "x \<in> {n + 1..n + int l}"
    then have "x = n + 1 + int (nat (x - n - 1)) \<and> nat (x - n - 1) < l" by auto
    then show "x \<in> (\<lambda>k. n + 1 + int k) ` {0..<l}" by (metis atLeastLessThan_iff image_eqI le0)
  qed
qed auto

text \<open>Renumbering a list with exactly one status window, of number 1.\<close>

lemma renumber_refnums:
  assumes "ws = P @ s # Q" "is_status s" "refnum s = 1" "\<forall>w\<in>set (P @ Q). \<not> is_status w"
    "renumber_chain ws 1 = (vs, m)"
  shows "m = int (length ws) \<and> refnums_ok vs m \<and> s \<in> set vs"
proof -
  let ?P = "map (\<lambda>(w, k). w\<lparr>refnum := 1 + 1 + int k\<rparr>) (zip P [0..<length P])"
  let ?n = "1 + int (length P)"
  let ?Q = "map (\<lambda>(w, k). w\<lparr>refnum := ?n + 1 + int k\<rparr>) (zip Q [0..<length Q])"
  have s: "renumber_chain (s # Q) ?n = (s # ?Q, ?n + int (length Q))"
    using assms(2,4) renumber_chain_others [of Q ?n] by (simp add: is_status_def)
  have "renumber_chain ws 1 = (?P @ s # ?Q, ?n + int (length Q))"
    using assms(1,4) renumber_chain_others [of P 1] s by (simp add: renumber_chain_append)
  then have vs: "vs = ?P @ s # ?Q" "m = ?n + int (length Q)" using assms(5) by simp_all
  have rp: "map refnum ?P = map (\<lambda>k. 1 + 1 + int k) [0..<length P]"
    and rq: "map refnum ?Q = map (\<lambda>k. ?n + 1 + int k) [0..<length Q]" by (rule refnum_zip)+
  have sp: "refnum ` set ?P = {1 + 1..1 + int (length P)}"
    using arg_cong [OF rp, of set] image_shift [of 1 "length P"] by (simp only: set_map set_upt)
  have sq: "refnum ` set ?Q = {?n + 1..?n + int (length Q)}"
    using arg_cong [OF rq, of set] image_shift [of ?n "length Q"] by (simp only: set_map set_upt)
  have dp: "distinct (map refnum ?P)" "distinct (map refnum ?Q)"
    unfolding rp rq by (simp_all add: distinct_map inj_on_def)
  have sets: "refnum ` set vs = {1 + 1..1 + int (length P)} \<union> {1} \<union> {?n + 1..?n + int (length Q)}"
    unfolding vs(1) set_append image_Un sp list.set image_insert sq assms(3) by auto
  have "distinct (A @ 1 # B)" if "distinct A" "distinct B" "set A = {1 + 1..1 + int (length P)}"
    "set B = {?n + 1..?n + int (length Q)}" for A B :: "int list"
    using that by auto
  from this [OF dp] sp sq have "distinct (map refnum ?P @ 1 # map refnum ?Q)" by (simp only: set_map)
  then have "distinct (map refnum vs)" by (simp only: vs(1) map_append list.map assms(3))
  moreover have "refnum ` set vs = {1..m}" unfolding sets vs(2) by auto
  moreover have "m = int (length vs)" by (simp add: vs)
  moreover have "length vs = length ws" by (simp add: vs assms(1))
  ultimately show ?thesis by (simp add: refnums_ok_def vs(1))
qed

section \<open>Lemmas: the operations keep the invariant\<close>

lemma one_status:
  assumes "list_ok ws np" "ws = P @ s # Q" "is_status s"
  shows "\<forall>w\<in>set (P @ Q). \<not> is_status w"
proof -
  have "fold_case (label s) \<notin> (\<lambda>w. fold_case (label w)) ` set (P @ Q)"
    using assms(1,2) by (auto simp: list_ok_def)
  then show ?thesis using assms(3) unfolding is_status_def smic_fold by (metis imageI)
qed

lemma list_ok_same: "\<lbrakk>list_ok ws np; same_but_refnum ws vs\<rbrakk> \<Longrightarrow> list_ok vs np"
proof -
  assume ok: "list_ok ws np" and same: "same_but_refnum ws vs"
  note f = same_fields [OF same]
  have "\<forall>v\<in>set vs. label v \<noteq> [] \<and> w_ptr v < np"
  proof
    fix v assume "v \<in> set vs"
    then have "label v \<in> set (map label ws)" "w_ptr v \<in> set (map w_ptr ws)" using f(1,2) by simp_all
    then show "label v \<noteq> [] \<and> w_ptr v < np" using ok by (auto simp: list_ok_def)
  qed
  then show "list_ok vs np" using ok f by (simp add: list_ok_def)
qed

lemma chains_ok_renumber:
  assumes "chains_ok t" "renumber t n = (t', m)"
  shows "chains_ok t'"
proof -
  note r = renumber_concat [OF assms(2)]
  have "hash (label v) = i" if i: "i < HASH_SIZE" and v: "v \<in> set (t' ! i)" for i v
  proof -
    have "i < length t" using i assms(1) by (simp add: chains_ok_def)
    then obtain a b where "renumber_chain (t ! i) a = (t' ! i, b)" using r by blast
    then have "map label (t ! i) = map label (t' ! i)" using renumber_chain_same same_fields(2) by blast
    then have "label v \<in> label ` set (t ! i)" using v by (metis imageI set_map)
    then show ?thesis using assms(1) i by (auto simp: chains_ok_def)
  qed
  then show ?thesis using r assms(1) by (simp add: chains_ok_def)
qed

lemma reassign_ok:
  assumes "table_ok (hash_table st) np" "s \<in> set (windows st)" "g_status_window st = Some (w_ptr s)"
    "is_status s" "refnum s = 1" "g_ntotal_windows st = int (length (windows st))"
  shows "\<exists>st'. reassign_window_refnums st = Some st' \<and> table_ok (hash_table st') np
    \<and> refnums_ok (windows st') (g_ntotal_windows st') \<and> status_ok st'
    \<and> same_but_refnum (windows st) (windows st') \<and> st' = st\<lparr>hash_table := hash_table st'\<rparr>"
proof -
  obtain t' m where t': "renumber (hash_table st) 1 = (t', m)" by fastforce
  let ?st' = "st\<lparr>hash_table := t'\<rparr>"
  have r: "renumber_chain (windows st) 1 = (windows ?st', m)"
    using renumber_concat [OF t'] by (simp add: windows_def)
  have ok: "list_ok (windows st) np" using assms(1) by (simp add: table_ok_def windows_def)
  obtain P Q where PQ: "windows st = P @ s # Q" using assms(2) by (meson split_list)
  note nums = renumber_refnums [OF PQ assms(4,5) one_status [OF ok PQ assms(4)] r]
  have same: "same_but_refnum (windows st) (windows ?st')" by (rule renumber_chain_same [OF r])
  have ok': "list_ok (windows ?st') np" by (rule list_ok_same [OF ok same])
  have "window_at ?st' (w_ptr s) = Some s"
  proof -
    obtain v where v: "find (\<lambda>w. w_ptr w = w_ptr s) (windows ?st') = Some v"
      using nums by (cases "find (\<lambda>w. w_ptr w = w_ptr s) (windows ?st')") (auto simp: find_None_iff)
    then have "v \<in> set (windows ?st')" "w_ptr v = w_ptr s" by (auto simp: find_Some_iff)
    then have "v = s" using ok' nums by (auto simp: list_ok_def distinct_map inj_on_def)
    then show ?thesis using v by (simp add: window_at_def)
  qed
  then have "reassign_window_refnums st = Some ?st'"
    using assms(3,5,6) t' nums by (simp add: reassign_window_refnums_def)
  moreover have "table_ok t' np"
    using chains_ok_renumber [OF _ t'] assms(1) ok' by (simp add: table_ok_def windows_def)
  moreover have "status_ok ?st'"
    using nums assms(3,4,5) by (auto simp: status_ok_def)
  moreover have "m = g_ntotal_windows ?st'" using nums assms(6) by simp
  then have "refnums_ok (windows ?st') (g_ntotal_windows ?st')" using nums by blast
  ultimately show ?thesis using same by (intro exI [of _ ?st']) simp
qed

lemma change_window_ok:
  assumes "registry_ok st" "\<forall>p. panel_ok env p" "w \<in> set (windows st)"
  shows "\<exists>st'. change_window env (Some w) st = (OK0, st') \<and> windows_ok st' \<and> g_active_window st' = Some (w_ptr w)
    \<and> st' = st\<lparr>g_active_window := Some (w_ptr w)\<rparr>"
  using assms
  by (auto simp: change_window_def is_the_active_window_def windows_ok_def active_ok_def registry_ok_def
      status_ok_def windows_def)

lemma refnum_exists:
  assumes "refnums_ok (windows st) (g_ntotal_windows st)" "1 \<le> n" "n \<le> g_ntotal_windows st"
  shows "\<exists>w. window_by_refnum st n = Some w \<and> w \<in> set (windows st) \<and> refnum w = n"
proof -
  have "n \<in> refnum ` set (windows st)" using assms by (simp add: refnums_ok_def)
  then obtain w where "w \<in> set (windows st)" "refnum w = n" by auto
  then show ?thesis using window_by_refnum_iff [OF assms(1)] by blast
qed

lemma status_unique:
  assumes "registry_ok st" "w \<in> set (windows st)" "is_status w"
  shows "refnum w = 1 \<and> g_status_window st = Some (w_ptr w)"
proof -
  obtain s where s: "s \<in> set (windows st)" "g_status_window st = Some (w_ptr s)" "is_status s" "refnum s = 1"
    using assms(1) by (auto simp: registry_ok_def status_ok_def)
  have "list_ok (windows st) (next_ptr st)" using assms(1) by (simp add: registry_ok_def table_ok_def windows_def)
  then have "w = s"
    using label_unique [of "windows st" _ w s g_status_window_label] assms s smic_sym by (auto simp: is_status_def)
  then show ?thesis using s by simp
qed

lemma destroy_ok:
  assumes "windows_ok st" "\<forall>p. panel_ok env p" "w \<in> set (windows st)" "\<not> is_status w"
    "strings_match_ignore_case l (label w)"
  shows "\<exists>st' A B. destroy_chat_window env (Some l) st = Some (OK0, st') \<and> windows_ok st'
    \<and> windows st = A @ w # B \<and> same_but_refnum (A @ B) (windows st')
    \<and> (\<exists>a\<in>set (windows st'). g_active_window st' = Some (w_ptr a) \<and> refnum a = g_ntotal_windows st')
    \<and> g_status_window st' = g_status_window st"
proof -
  have reg: "registry_ok st" and tab: "table_ok (hash_table st) (next_ptr st)"
    using assms(1) by (simp_all add: windows_ok_def registry_ok_def)
  have ne: "l \<noteq> []"
    using assms(3,5) tab by (auto simp: table_ok_def list_ok_def windows_def smic_fold fold_case_def)
  have ns: "\<not> strings_match_ignore_case l g_status_window_label"
    using assms(4,5) by (simp add: is_status_def smic_fold)
  obtain s where s: "s \<in> set (windows st)" "g_status_window st = Some (w_ptr s)" "is_status s" "refnum s = 1"
    using reg by (auto simp: registry_ok_def status_ok_def)
  have look: "window_by_label st (Some l) = Some w"
    using window_by_label_iff [OF tab ne] assms(3,5) by blast
  obtain st1 A B where u: "hUndef w st = Some st1" "windows st = A @ w # B" "windows st1 = A @ B"
    and st1: "st1 = st\<lparr>hash_table := hash_table st1, g_ntotal_windows := g_ntotal_windows st - 1\<rparr>"
    and tab1: "table_ok (hash_table st1) (next_ptr st)"
    using hUndef_windows [OF tab assms(3)] by blast
  have s1: "s \<in> set (windows st1)" using s(1,3) u(2,3) assms(4) by auto
  have n1: "g_ntotal_windows st1 = int (length (windows st1))"
    using arg_cong [OF st1, of g_ntotal_windows] u(2,3) reg by (simp add: registry_ok_def refnums_ok_def)
  have g1: "g_status_window st1 = Some (w_ptr s)" "next_ptr st1 = next_ptr st"
    using arg_cong [OF st1, of g_status_window] arg_cong [OF st1, of next_ptr] s(2) by simp_all
  obtain st2 where r: "reassign_window_refnums st1 = Some st2" "table_ok (hash_table st2) (next_ptr st)"
      "refnums_ok (windows st2) (g_ntotal_windows st2)" "status_ok st2" "same_but_refnum (windows st1) (windows st2)"
    and st2: "st2 = st1\<lparr>hash_table := hash_table st2\<rparr>"
    using reassign_ok [OF tab1 s1 g1(1) s(3,4) n1] by blast
  have reg2: "registry_ok st2" using r g1(2) arg_cong [OF st2, of next_ptr] by (simp add: registry_ok_def)
  have "1 \<le> g_ntotal_windows st2"
    using r(3,4) by (cases "windows st2") (auto simp: refnums_ok_def status_ok_def)
  then obtain v where v: "window_by_refnum st2 (g_ntotal_windows st2) = Some v" "v \<in> set (windows st2)"
    "refnum v = g_ntotal_windows st2" using refnum_exists [OF r(3)] by blast
  obtain st3 where st3: "change_window env (Some v) st2 = (OK0, st3)" "windows_ok st3"
    "g_active_window st3 = Some (w_ptr v)" "st3 = st2\<lparr>g_active_window := Some (w_ptr v)\<rparr>"
    using change_window_ok [OF reg2 assms(2) v(2)] by blast
  have "destroy_chat_window env (Some l) st = Some (OK0, st3)"
    using ne ns look u(1) r(1) st3(1) v(1)
    by (simp add: destroy_chat_window_def change_window_by_refnum_def)
  moreover have "windows st3 = windows st2" "g_ntotal_windows st3 = g_ntotal_windows st2"
    "g_status_window st3 = g_status_window st2" using st3(4) by (simp_all add: windows_def)
  moreover have "g_status_window st2 = g_status_window st" using arg_cong [OF st1, of g_status_window] arg_cong [OF st2, of g_status_window] by simp
  ultimately show ?thesis using st3 u(2,3) r(5) v by auto
qed

lemma spawn_ok:
  assumes "windows_ok st" "\<forall>p. panel_ok env p" "l \<noteq> []"
    "\<forall>w\<in>set (windows st). \<not> strings_match_ignore_case l (label w)"
    "g_ntotal_windows st + 1 \<le> max_chat_windows env"
  shows "\<exists>st' e A B who. spawn_chat_window env (Some l) ttl st = Some (OK0, st', who) \<and> windows_ok st'
    \<and> windows st = A @ B \<and> windows st' = A @ e # B \<and> label e = l \<and> refnum e = g_ntotal_windows st'
    \<and> g_active_window st' = Some (w_ptr e) \<and> g_status_window st' = g_status_window st
    \<and> g_ntotal_windows st' = g_ntotal_windows st + 1"
proof -
  have tab: "table_ok (hash_table st) (next_ptr st)" and refs: "refnums_ok (windows st) (g_ntotal_windows st)"
    and stat: "status_ok st" using assms(1) by (simp_all add: windows_ok_def registry_ok_def)
  have none: "window_by_label st (Some l) = None"
    using window_by_label_None [OF tab assms(3)] assms(4) by blast
  obtain e st1 A B where i: "hInstall l ttl (g_ntotal_windows st + 1) st = (e, st1)"
    "windows st = A @ B" "windows st1 = A @ e # B" "label e = l" "refnum e = g_ntotal_windows st + 1"
    and st1: "st1 = st\<lparr>hash_table := hash_table st1, g_ntotal_windows := g_ntotal_windows st + 1, next_ptr := Suc (next_ptr st)\<rparr>"
    and tab1: "table_ok (hash_table st1) (next_ptr st1)"
    using hInstall_windows [OF tab assms(3,4), of ttl "g_ntotal_windows st + 1"]
    by (elim exE conjE) (rule that; assumption)
  have n1: "g_ntotal_windows st1 = g_ntotal_windows st + 1" "g_status_window st1 = g_status_window st"
    using arg_cong [OF st1, of g_ntotal_windows] arg_cong [OF st1, of g_status_window] by simp_all
  have "{1..g_ntotal_windows st + 1} = insert (g_ntotal_windows st + 1) {1..g_ntotal_windows st}"
    using refs by (auto simp: refnums_ok_def)
  moreover have "refnum ` set (A @ B) = {1..g_ntotal_windows st}" "distinct (map refnum (A @ B))"
    "g_ntotal_windows st = int (length (A @ B))" using refs i(2) by (simp_all add: refnums_ok_def)
  moreover from calculation(2) have "g_ntotal_windows st + 1 \<notin> refnum ` set A" "g_ntotal_windows st + 1 \<notin> refnum ` set B"
    by (metis UnCI atLeastAtMost_iff image_Un set_append zle_add1_eq_le less_irrefl)+
  ultimately have "refnums_ok (A @ e # B) (g_ntotal_windows st + 1)"
    using i(5) by (simp add: refnums_ok_def image_Un)
  then have refs1: "refnums_ok (windows st1) (g_ntotal_windows st1)" using i(3) n1 by simp
  have reg1: "registry_ok st1"
    using tab1 refs1 stat n1 i(2,3) by (auto simp: registry_ok_def status_ok_def)
  have look: "window_by_label st1 (Some (label e)) = Some e"
    using window_by_label_iff [OF tab1, of l e] assms(3) i(3,4) by simp
  obtain st2 where st2: "change_window env (Some e) st1 = (OK0, st2)" "windows_ok st2"
    "g_active_window st2 = Some (w_ptr e)" "st2 = st1\<lparr>g_active_window := Some (w_ptr e)\<rparr>"
    using change_window_ok [OF reg1 assms(2), of e] i(3) by auto
  have w2: "windows st2 = windows st1" "g_ntotal_windows st2 = g_ntotal_windows st1"
    "g_status_window st2 = g_status_window st1" using st2(4) by (simp_all add: windows_def)
  obtain who where sp: "spawn_chat_window env (Some l) ttl st = Some (OK0, st2, who)"
    using assms(3,5) none i(1) look st2(1)
    by (simp add: spawn_chat_window_def change_window_by_label_def)
  show ?thesis
    by (rule exI [of _ st2], rule exI [of _ e], rule exI [of _ A], rule exI [of _ B], rule exI [of _ who])
      (use sp st2 w2 n1 i in simp)
qed

lemma init_ok:
  assumes "\<forall>p. panel_ok env p" "1 \<le> max_chat_windows env"
  shows "\<exists>st w. windowSystem_init env fresh = Some st \<and> windows_ok st \<and> windows st = [w] \<and> is_status w
    \<and> g_status_window st = Some (w_ptr w)"
proof -
  let ?st0 = "\<lparr>hash_table = empty_table, g_active_window = None, g_status_window = None,
     g_ntotal_windows = 0, next_ptr = fresh\<rparr>"
  let ?l = g_status_window_label
  have l: "?l \<noteq> []" by (simp add: g_status_window_label_def)
  have w0: "windows ?st0 = []" by (simp add: windows_def empty_table_def)
  have tab: "table_ok (hash_table ?st0) (next_ptr ?st0)"
    by (simp add: table_ok_def chains_ok_def list_ok_def empty_table_def)
  obtain e st1 A B where i: "hInstall ?l (Some []) 1 ?st0 = (e, st1)"
    "windows ?st0 = A @ B" "windows st1 = A @ e # B" "label e = ?l" "refnum e = 1"
    and st1: "st1 = ?st0\<lparr>hash_table := hash_table st1, g_ntotal_windows := g_ntotal_windows ?st0 + 1, next_ptr := Suc (next_ptr ?st0)\<rparr>"
    and tab1: "table_ok (hash_table st1) (next_ptr st1)"
    using hInstall_windows [OF tab l, of "Some []" 1] w0 by auto
  have w1: "windows st1 = [e]" using i(2,3) w0 by simp
  have n1: "g_ntotal_windows st1 = 1" "g_active_window st1 = None"
    using arg_cong [OF st1, of g_ntotal_windows] arg_cong [OF st1, of g_active_window] by simp_all
  have none: "window_by_label ?st0 (Some ?l) = None" using window_by_label_None [OF tab l] w0 by simp
  have look: "window_by_label st1 (Some (label e)) = Some e"
    using window_by_label_iff [OF tab1, of ?l e] l w1 i(4) by simp
  let ?st2 = "st1\<lparr>g_active_window := Some (w_ptr e)\<rparr>"
  have "change_window env (Some e) st1 = (OK0, ?st2)"
    using assms(1) n1 by (simp add: change_window_def is_the_active_window_def)
  then have spawn: "\<exists>who. spawn_chat_window env (Some ?l) (Some []) ?st0 = Some (OK0, ?st2, who)"
    using l none i(1) look assms(2) by (simp add: spawn_chat_window_def change_window_by_label_def)
  have tab2: "table_ok (hash_table ?st2) (next_ptr ?st2)" using tab1 by simp
  have w2: "windows ?st2 = [e]" using w1 by (simp add: windows_def)
  have look2: "window_by_label ?st2 (Some ?l) = Some e"
    using window_by_label_iff [OF tab2 l, of e] w2 i(4) by simp
  let ?st3 = "?st2\<lparr>g_status_window := Some (w_ptr e)\<rparr>"
  have "windowSystem_init env fresh = Some ?st3"
    using spawn look2 by (auto simp: windowSystem_init_def)
  moreover have w3: "windows ?st3 = [e]" using w1 by (simp add: windows_def)
  moreover have "windows_ok ?st3"
    using tab1 n1 i(4,5) w3
    by (simp add: windows_ok_def registry_ok_def active_ok_def status_ok_def refnums_ok_def is_status_def smic_fold)
  ultimately show ?thesis using i(4) by (auto simp: is_status_def smic_fold)
qed

lemma same_filter:
  assumes "same_but_refnum ws vs" "\<And>w. P (w\<lparr>refnum := 0\<rparr>) = P w"
  shows "same_but_refnum (filter P ws) (filter P vs)"
proof -
  have f: "map (\<lambda>w. w\<lparr>refnum := 0\<rparr>) (filter P us) = filter P (map (\<lambda>w. w\<lparr>refnum := 0\<rparr>) us)" for us
    by (induction us) (simp_all add: assms(2))
  then show ?thesis using assms(1) by (simp add: same_but_refnum_def)
qed

lemma same_trans: "\<lbrakk>same_but_refnum us vs; same_but_refnum vs ws\<rbrakk> \<Longrightarrow> same_but_refnum us ws"
  by (simp add: same_but_refnum_def)

lemma destroy_each_ok:
  assumes "\<forall>p. panel_ok env p"
  shows "\<lbrakk>windows_ok st; distinct ls; \<forall>l\<in>set ls. \<exists>w\<in>set (windows st). label w = l \<and> \<not> is_status w\<rbrakk> \<Longrightarrow>
    \<exists>st'. destroy_each env ls st = Some st' \<and> windows_ok st' \<and> g_status_window st' = g_status_window st
      \<and> same_but_refnum (filter (\<lambda>w. label w \<notin> set ls) (windows st)) (windows st')"
proof (induction ls arbitrary: st)
  case Nil
  then show ?case by (simp add: same_but_refnum_def)
next
  case (Cons l ls)
  then obtain w where w: "w \<in> set (windows st)" "label w = l" "\<not> is_status w" by auto
  obtain st1 A B where d: "destroy_chat_window env (Some l) st = Some (OK0, st1)" "windows_ok st1"
    "windows st = A @ w # B" "same_but_refnum (A @ B) (windows st1)" "g_status_window st1 = g_status_window st"
    using destroy_ok [OF Cons.prems(1) assms w(1,3), of l] w(2) by (auto simp: smic_fold)
  have ok: "list_ok (windows st) (next_ptr st)"
    using Cons.prems(1) by (simp add: windows_ok_def registry_ok_def table_ok_def windows_def)
  have "fold_case (label w) \<notin> (\<lambda>w. fold_case (label w)) ` set (A @ B)"
    using ok d(3) by (auto simp: list_ok_def)
  then have AB: "label v \<noteq> l" if "v \<in> set (A @ B)" for v
    using w(2) that by (metis imageI)
  have f: "filter (\<lambda>v. label v \<notin> set (l # ls)) (windows st) = filter (\<lambda>v. label v \<notin> set ls) (A @ B)"
  proof -
    have "filter (\<lambda>v. label v \<notin> set (l # ls)) us = filter (\<lambda>v. label v \<notin> set ls) us"
      if "set us \<subseteq> set (A @ B)" for us
      by (rule filter_cong) (use AB that in auto)
    from this [of A] this [of B] show ?thesis unfolding d(3) using w(2) by simp
  qed
  have "\<exists>v\<in>set (windows st1). label v = k \<and> \<not> is_status v" if k: "k \<in> set ls" for k
  proof -
    obtain v where v: "v \<in> set (windows st)" "label v = k" "\<not> is_status v" using Cons.prems(3) k by auto
    then have "v \<in> set (A @ B)" using d(3) w(2) Cons.prems(2) k by auto
    then have "k \<in> set (map label (windows st1))" using same_fields(2) [OF d(4)] v(2) by (metis image_eqI set_map)
    then show ?thesis using v(2,3) by (auto simp: is_status_def)
  qed
  then obtain st' where "destroy_each env ls st1 = Some st'" "windows_ok st'" "g_status_window st' = g_status_window st1"
    and s: "same_but_refnum (filter (\<lambda>w. label w \<notin> set ls) (windows st1)) (windows st')"
    using Cons.IH [OF d(2)] Cons.prems(2) by auto
  moreover have "same_but_refnum (filter (\<lambda>w. label w \<notin> set ls) (A @ B)) (filter (\<lambda>w. label w \<notin> set ls) (windows st1))"
    by (rule same_filter [OF d(4)]) simp
  ultimately show ?case using d(1,5) same_trans f by (simp del: filter_append)
qed

lemma close_all_ok:
  assumes "windows_ok st" "\<forall>p. panel_ok env p" "g_ntotal_windows st \<le> 800"
  shows "\<exists>st'. window_close_all_priv_conv env st = Some st' \<and> windows_ok st'
    \<and> same_but_refnum (filter (\<lambda>w. Some (w_ptr w) = g_status_window st \<or> is_irc_channel (Some (label w)) \<or> is_logwin w)
        (windows st)) (windows st')"
proof -
  let ?keep = "\<lambda>w. Some (w_ptr w) = g_status_window st \<or> is_irc_channel (Some (label w)) \<or> is_logwin w"
  have reg: "registry_ok st" and ok: "list_ok (windows st) (next_ptr st)"
    using assms(1) by (simp_all add: windows_ok_def registry_ok_def table_ok_def windows_def)
  have "length (windows st) \<le> 800" using reg assms(3) by (simp add: registry_ok_def refnums_ok_def)
  then have ls: "priv_conv st = map label (filter (\<lambda>w. \<not> ?keep w) (windows st))"
    using order_trans [OF length_filter_le [of "\<lambda>w. \<not> ?keep w" "windows st"]]
    unfolding priv_conv_def by (intro take_all) (simp only: length_map)
  have inj: "inj_on label (set (windows st))" "distinct (windows st)"
    using ok by (auto simp: list_ok_def distinct_map inj_on_def)
  have "distinct (priv_conv st)"
    unfolding ls distinct_map using inj by (auto intro: inj_on_subset)
  moreover have "\<forall>l\<in>set (priv_conv st). \<exists>w\<in>set (windows st). label w = l \<and> \<not> is_status w"
    unfolding ls using status_unique [OF reg] by fastforce
  ultimately obtain st' where "destroy_each env (priv_conv st) st = Some st'" "windows_ok st'"
    and s: "same_but_refnum (filter (\<lambda>w. label w \<notin> set (priv_conv st)) (windows st)) (windows st')"
    using destroy_each_ok [OF assms(2,1)] by blast
  moreover have "filter (\<lambda>w. label w \<notin> set (priv_conv st)) (windows st) = filter ?keep (windows st)"
    unfolding ls using inj(1) by (intro filter_cong) (auto simp: inj_on_def)
  ultimately show ?thesis by (simp add: window_close_all_priv_conv_def)
qed

text \<open>Assignments to the other fields of windows.\<close>

lemma update_fields_ok:
  assumes "windows_ok st" "\<And>w. w_ptr (f w) = w_ptr w" "\<And>w. label (f w) = label w" "\<And>w. refnum (f w) = refnum w"
  shows "windows_ok (st\<lparr>hash_table := map (map f) (hash_table st)\<rparr>)"
proof -
  let ?st = "st\<lparr>hash_table := map (map f) (hash_table st)\<rparr>"
  have w: "windows ?st = map f (windows st)" by (simp add: windows_def map_concat)
  have reg: "registry_ok st" and act: "active_ok st" using assms(1) by (simp_all add: windows_ok_def)
  have "chains_ok (map (map f) (hash_table st))"
    using reg assms(3) by (auto simp: registry_ok_def table_ok_def chains_ok_def)
  moreover have "list_ok (map f (windows st)) (next_ptr st)"
    using reg assms(2,3) by (simp add: registry_ok_def table_ok_def list_ok_def windows_def comp_def)
  moreover have "refnums_ok (map f (windows st)) (g_ntotal_windows st)"
    using reg assms(4) by (simp add: registry_ok_def refnums_ok_def comp_def image_image)
  moreover have "status_ok ?st"
    using reg assms(2-4) w by (fastforce simp: registry_ok_def status_ok_def is_status_def)
  moreover have "active_ok ?st" using act assms(2) w by (fastforce simp: active_ok_def)
  ultimately show ?thesis using w by (simp add: windows_ok_def registry_ok_def table_ok_def windows_def)
qed

lemma new_window_title_ok:
  "windows_ok st \<Longrightarrow> windows_ok (new_window_title l t st)"
  unfolding new_window_title_def upd_window_def
  by (auto split: option.split intro!: update_fields_ok)

lemma destroy_names_ok: "windows_ok st \<Longrightarrow> windows_ok (window_foreach_destroy_names st)"
  unfolding window_foreach_destroy_names_def by (rule update_fields_ok) auto

text \<open>Changing the window, in all its forms.\<close>

lemma windows_active [simp]: "windows (st\<lparr>g_active_window := p\<rparr>) = windows st"
  by (simp add: windows_def)

lemma change_window_found:
  "windows_ok st \<Longrightarrow> w \<in> set (windows st) \<Longrightarrow> windows_ok (snd (change_window env (Some w) st))"
  by (auto simp: change_window_def windows_ok_def active_ok_def registry_ok_def status_ok_def)

lemma change_by_refnum_ok: "windows_ok st \<Longrightarrow> windows_ok (snd (change_window_by_refnum env n st))"
proof (cases "window_by_refnum st n")
  case None
  then show "windows_ok st \<Longrightarrow> ?thesis" by (simp add: change_window_by_refnum_def change_window_def)
next
  case (Some w)
  then show "windows_ok st \<Longrightarrow> ?thesis"
    using window_by_refnum_iff [of st n w] change_window_found [of st w env]
    by (simp add: change_window_by_refnum_def windows_ok_def registry_ok_def)
qed

lemma change_by_label_ok: "windows_ok st \<Longrightarrow> windows_ok (snd (change_window_by_label env l st))"
proof -
  assume ok: "windows_ok st"
  show ?thesis
  proof (cases "window_by_label st l")
    case None
    then show ?thesis using ok by (simp add: change_window_by_label_def change_window_def)
  next
    case (Some w)
    then obtain k where "l = Some k" "k \<noteq> []" by (auto simp: window_by_label_def split: option.splits if_splits)
    then have "w \<in> set (windows st)"
      using Some ok window_by_label_iff [of st "next_ptr st" k w] by (simp add: windows_ok_def registry_ok_def)
    then show ?thesis using Some change_window_found [OF ok] by (simp add: change_window_by_label_def)
  qed
qed

lemma select_next_ok: "windows_ok st \<Longrightarrow> windows_ok (window_select_next env st)"
  by (auto simp: window_select_next_def Let_def change_by_refnum_ok split: option.split)

lemma select_prev_ok: "windows_ok st \<Longrightarrow> windows_ok (window_select_prev env st)"
  by (auto simp: window_select_prev_def Let_def change_by_refnum_ok split: option.split)

lemma change_ntotal:
  "g_ntotal_windows (snd (change_window env w st)) = g_ntotal_windows st"
  "g_ntotal_windows (snd (change_window_by_refnum env n st)) = g_ntotal_windows st"
  "g_ntotal_windows (snd (change_window_by_label env l st)) = g_ntotal_windows st"
  "g_ntotal_windows (window_select_next env st) = g_ntotal_windows st"
  "g_ntotal_windows (window_select_prev env st) = g_ntotal_windows st"
  "g_ntotal_windows (new_window_title l t st) = g_ntotal_windows st"
  "g_ntotal_windows (window_foreach_destroy_names st) = g_ntotal_windows st"
  by (auto simp: change_window_def change_window_by_refnum_def change_window_by_label_def window_select_next_def
      window_select_prev_def new_window_title_def upd_window_def window_foreach_destroy_names_def Let_def
      split: option.split)

lemma ntotal_length: "windows_ok st \<Longrightarrow> g_ntotal_windows st = int (length (windows st))"
  by (simp add: windows_ok_def registry_ok_def refnums_ok_def)

text \<open>Spawning and destroying, on every branch.\<close>

lemma spawn_branches:
  assumes "windows_ok st" "\<forall>p. panel_ok env p" "g_ntotal_windows st \<le> max_chat_windows env"
  shows "\<exists>e st' who. spawn_chat_window env l t st = Some (e, st', who) \<and> windows_ok st'
    \<and> g_ntotal_windows st' \<le> max_chat_windows env"
proof (cases "l = None \<or> l = Some [] \<or> window_by_label st l \<noteq> None
    \<or> g_ntotal_windows st + 1 > max_chat_windows env")
  case True
  then show ?thesis using assms by (auto simp: spawn_chat_window_def Let_def split: option.splits)
next
  case False
  then obtain k where k: "l = Some k" "k \<noteq> []" by (cases l) auto
  then have "\<forall>w\<in>set (windows st). \<not> strings_match_ignore_case k (label w)"
    using False assms(1) window_by_label_None [of st "next_ptr st" k] by (simp add: windows_ok_def registry_ok_def)
  then show ?thesis using spawn_ok [OF assms(1,2) k(2), of t] False k(1) by auto
qed

lemma destroy_branches:
  assumes "windows_ok st" "\<forall>p. panel_ok env p"
  shows "\<exists>e st'. destroy_chat_window env l st = Some (e, st') \<and> windows_ok st'
    \<and> g_ntotal_windows st' \<le> g_ntotal_windows st"
proof (cases "l = None \<or> l = Some [] \<or> strings_match_ignore_case (the l) g_status_window_label
    \<or> window_by_label st l = None")
  case True
  then show ?thesis using assms by (auto simp: destroy_chat_window_def)
next
  case False
  then obtain k w where k: "l = Some k" "k \<noteq> []" and w: "window_by_label st l = Some w" by (cases l) auto
  then have m: "w \<in> set (windows st)" "strings_match_ignore_case k (label w)"
    using assms(1) window_by_label_iff [of st "next_ptr st" k w] by (auto simp: windows_ok_def registry_ok_def)
  have "\<not> is_status w" using False k(1) m(2) by (simp add: is_status_def smic_fold)
  then obtain st' A B where "destroy_chat_window env (Some k) st = Some (OK0, st')" "windows_ok st'"
    "windows st = A @ w # B" "same_but_refnum (A @ B) (windows st')"
    using destroy_ok [OF assms m(1) _ m(2)] by blast
  then show ?thesis using same_fields(3) [of "A @ B" "windows st'"] ntotal_length assms(1) k(1) by auto
qed

text \<open>
  The operations of the user interface and of the protocol handlers as steps, and the states that
  they reach from the start of the program.
\<close>

inductive reachable :: "win_env \<Rightarrow> win_state \<Rightarrow> bool" for env where
  start: "windowSystem_init env fresh = Some st \<Longrightarrow> reachable env st"
| spawn: "\<lbrakk>reachable env st; spawn_chat_window env l t st = Some (e, st', who)\<rbrakk> \<Longrightarrow> reachable env st'"
| destroy: "\<lbrakk>reachable env st; destroy_chat_window env l st = Some (e, st')\<rbrakk> \<Longrightarrow> reachable env st'"
| close_all: "\<lbrakk>reachable env st; window_close_all_priv_conv env st = Some st'\<rbrakk> \<Longrightarrow> reachable env st'"
| by_label: "reachable env st \<Longrightarrow> reachable env (snd (change_window_by_label env l st))"
| by_refnum: "reachable env st \<Longrightarrow> reachable env (snd (change_window_by_refnum env n st))"
| select_next: "reachable env st \<Longrightarrow> reachable env (window_select_next env st)"
| select_prev: "reachable env st \<Longrightarrow> reachable env (window_select_prev env st)"
| set_title: "reachable env st \<Longrightarrow> reachable env (new_window_title l t st)"
| no_names: "reachable env st \<Longrightarrow> reachable env (window_foreach_destroy_names st)"

lemma reachable_ok:
  assumes "reachable env st" "\<forall>p. panel_ok env p" "1 \<le> max_chat_windows env" "max_chat_windows env \<le> 800"
  shows "windows_ok st \<and> g_ntotal_windows st \<le> max_chat_windows env"
  using assms(1)
proof induction
  case (start fresh st)
  obtain st1 w where "windowSystem_init env fresh = Some st1" "windows_ok st1" "windows st1 = [w]"
    using init_ok [OF assms(2,3)] by blast
  then show ?case using start assms(3) ntotal_length [of st1] by simp
next
  case (spawn st l t e st' who)
  then show ?case using spawn_branches [of st env l t] assms(2) by auto
next
  case (destroy st l e st')
  then show ?case using destroy_branches [of st env l] assms(2) by auto
next
  case (close_all st st')
  then obtain st1 where s: "window_close_all_priv_conv env st = Some st1" "windows_ok st1"
    and same: "same_but_refnum (filter (\<lambda>w. Some (w_ptr w) = g_status_window st
        \<or> is_irc_channel (Some (label w)) \<or> is_logwin w) (windows st)) (windows st1)"
    using close_all_ok [of st env] assms(2,4) by auto
  have "length (windows st1) \<le> length (windows st)"
    using same_fields(3) [OF same] by (metis length_filter_le)
  then show ?case using s close_all ntotal_length by auto
qed (auto simp: change_ntotal change_by_label_ok change_by_refnum_ok select_next_ok select_prev_ok
    new_window_title_ok destroy_names_ok)

lemma list_from_all:
  assumes "refnums_ok (windows st) (g_ntotal_windows st)" "1 \<le> i" "i \<le> g_ntotal_windows st + 1"
  shows "map refnum (list_from st i) = [i..g_ntotal_windows st]
    \<and> set (list_from st i) = {w \<in> set (windows st). i \<le> refnum w}"
  using assms
proof (induction st i rule: list_from.induct)
  case (1 st i)
  note refs = 1(2)
  have r: "refnum ` set (windows st) = {1..g_ntotal_windows st}" using refs by (simp add: refnums_ok_def)
  show ?case
  proof (cases "i \<le> g_ntotal_windows st")
    case True
    then obtain w where w: "window_by_refnum st i = Some w" "w \<in> set (windows st)" "refnum w = i"
      using refnum_exists [OF refs 1(3)] by blast
    have "{v \<in> set (windows st). i \<le> refnum v} = insert w {v \<in> set (windows st). i + 1 \<le> refnum v}"
      using refs w by (fastforce simp: refnums_ok_def distinct_map inj_on_def)
    then show ?thesis
      using 1(1) [OF w(1) refs] 1(3) True w by (subst (1 2) list_from.simps) (simp add: upto_rec1)
  next
    case False
    then have "window_by_refnum st i = None" by (simp add: window_by_refnum_def)
    moreover have "\<not> i \<le> refnum v" if "v \<in> set (windows st)" for v
    proof -
      have "refnum v \<in> {1..g_ntotal_windows st}" using that r by (metis imageI)
      then show ?thesis using False by simp
    qed
    ultimately show ?thesis using False by (subst (1 2) list_from.simps) simp
  qed
qed

text \<open>A concrete system: the state after the start of the program.\<close>

definition example_env :: win_env where
  "example_env = \<lparr>max_chat_windows = 140, LINES = 25, g_on_air = False, g_icb_mode = False,
     extended_join = False, g_ircv3_extensions = False, g_sym_logwin = CHR ''^'', panel_ok = (\<lambda>_. True)\<rparr>"

definition start_state :: win_state where
  "start_state = the (windowSystem_init example_env 0)"

lemma example_env: "\<forall>p. panel_ok example_env p" "max_chat_windows example_env = 140"
  by (simp_all add: example_env_def)

lemma start_state:
  "windowSystem_init example_env 0 = Some start_state" "windows_ok start_state"
  "reachable example_env start_state"
  "\<exists>w. windows start_state = [w] \<and> is_status w \<and> refnum w = 1 \<and> g_status_window start_state = Some (w_ptr w)"
proof -
  obtain st w where st: "windowSystem_init example_env 0 = Some st" "windows_ok st" "windows st = [w]" "is_status w"
    "g_status_window st = Some (w_ptr w)"
    using init_ok [of example_env 0] example_env by auto
  then have s: "start_state = st" by (simp add: start_state_def)
  have "refnum w = 1" using st(2,3) by (auto simp: windows_ok_def registry_ok_def refnums_ok_def)
  then show "windowSystem_init example_env 0 = Some start_state" "windows_ok start_state"
    "reachable example_env start_state"
    "\<exists>w. windows start_state = [w] \<and> is_status w \<and> refnum w = 1 \<and> g_status_window start_state = Some (w_ptr w)"
    using st reachable.start [OF st(1)] unfolding s by auto
qed

lemma start_ntotal: "g_ntotal_windows start_state = 1"
  using ntotal_length [OF start_state(2)] start_state(4) by auto

lemma start_other:
  "\<not> strings_match_ignore_case l g_status_window_label \<Longrightarrow>
     \<forall>w\<in>set (windows start_state). \<not> strings_match_ignore_case l (label w)"
  using start_state(4) by (auto simp: is_status_def smic_fold)

section \<open>Properties\<close>

text \<open>
  Property C16. Whatever windows are opened, closed, selected, renamed or emptied, in any order,
  the window table stays consistent: every window is in the chain of its label, labels are unique
  up to case, the reference numbers are 1 to the number of windows, the status window exists and
  has number 1, the active window exists, and no assertion of the operations can fail.
\<close>

theorem window_system_invariant:
  assumes "reachable env st" "\<forall>p. panel_ok env p" "1 \<le> max_chat_windows env" "max_chat_windows env \<le> 800"
  shows "windows_ok st \<and> g_ntotal_windows st = int (length (windows st))
    \<and> g_ntotal_windows st \<le> max_chat_windows env
    \<and> spawn_chat_window env l t st \<noteq> None \<and> destroy_chat_window env l st \<noteq> None
    \<and> window_close_all_priv_conv env st \<noteq> None"
proof -
  have ok: "windows_ok st" and n: "g_ntotal_windows st \<le> max_chat_windows env"
    using reachable_ok [OF assms] by simp_all
  then show ?thesis
    using ntotal_length [OF ok] spawn_branches [OF ok assms(2) n, of l t] destroy_branches [OF ok assms(2), of l]
      close_all_ok [OF ok assms(2)] assms(4) by auto
qed

theorem window_system_invariant_witness:
  "windows_ok start_state \<and> destroy_chat_window example_env (Some ''#none'') start_state \<noteq> None"
  using window_system_invariant [OF start_state(3)] example_env by simp

text \<open>
  Lookup by label ignores case and finds the window of that label if there is one,
  lookup by number finds exactly the window of that number, and the listing of \<^verbatim>\<open>/windows\<close> shows
  every window once, in the order of the numbers.
\<close>

theorem window_lookup:
  assumes "windows_ok st" "l \<noteq> []"
  shows "(window_by_label st (Some l) = Some w \<longleftrightarrow>
        w \<in> set (windows st) \<and> strings_match_ignore_case l (label w))
    \<and> (window_by_refnum st n = Some w \<longleftrightarrow> w \<in> set (windows st) \<and> refnum w = n)
    \<and> map fst (windows_list_all st) = [1..g_ntotal_windows st]
    \<and> set (map (\<lambda>(n, l, g). l) (windows_list_all st)) = set (map label (windows st))"
proof -
  have tab: "table_ok (hash_table st) (next_ptr st)" and refs: "refnums_ok (windows st) (g_ntotal_windows st)"
    using assms(1) by (simp_all add: windows_ok_def registry_ok_def)
  have n: "1 \<le> g_ntotal_windows st + 1" using ntotal_length [OF assms(1)] by simp
  have "{w \<in> set (windows st). 1 \<le> refnum w} = set (windows st)" using refs by (fastforce simp: refnums_ok_def)
  then show ?thesis
    using window_by_label_iff [OF tab assms(2)] window_by_refnum_iff [OF refs] list_from_all [OF refs _ n]
    by (auto simp: windows_list_all_def comp_def)
qed

theorem window_lookup_witness:
  "(\<exists>w. window_by_label start_state (Some ''(STATUS)'') = Some w) \<and> map fst (windows_list_all start_state) = [1]"
proof -
  obtain w where w: "windows start_state = [w]" "is_status w" using start_state(4) by blast
  have "strings_match_ignore_case ''(STATUS)'' (label w)"
    using w(2) by (simp add: is_status_def smic_fold g_status_window_label_def) code_simp
  then show ?thesis
    using window_lookup [OF start_state(2), of "''(STATUS)''" w 1] w start_ntotal by (auto simp: upto_rec1)
qed

text \<open>
  Property C18. Spawning a window: without a label it is refused, an existing window is reused, a
  full table is reported; otherwise exactly one window is added, with the next number, and it
  becomes the active one.
\<close>

theorem spawn_window_correct:
  assumes "windows_ok st" "\<forall>p. panel_ok env p"
  shows "spawn_chat_window env None t st = Some (EINVAL, st, [])
    \<and> spawn_chat_window env (Some []) t st = Some (EINVAL, st, [])
    \<and> (l \<noteq> [] \<longrightarrow>
        (if \<exists>w\<in>set (windows st). strings_match_ignore_case l (label w)
         then spawn_chat_window env (Some l) t st = Some (OK0, st, [])
         else if max_chat_windows env \<le> g_ntotal_windows st
         then spawn_chat_window env (Some l) t st = Some (ENOSPC, st, [])
         else (\<exists>st' e A B who. spawn_chat_window env (Some l) t st = Some (OK0, st', who) \<and> windows_ok st'
            \<and> windows st = A @ B \<and> windows st' = A @ e # B \<and> label e = l \<and> refnum e = g_ntotal_windows st'
            \<and> g_active_window st' = Some (w_ptr e) \<and> g_ntotal_windows st' = g_ntotal_windows st + 1)))"
proof -
  have tab: "table_ok (hash_table st) (next_ptr st)" using assms(1) by (simp add: windows_ok_def registry_ok_def)
  show ?thesis
  proof (intro conjI impI)
    assume l: "l \<noteq> []"
    note none = window_by_label_None [OF tab l]
    show "if \<exists>w\<in>set (windows st). strings_match_ignore_case l (label w)
         then spawn_chat_window env (Some l) t st = Some (OK0, st, [])
         else if max_chat_windows env \<le> g_ntotal_windows st
         then spawn_chat_window env (Some l) t st = Some (ENOSPC, st, [])
         else (\<exists>st' e A B who. spawn_chat_window env (Some l) t st = Some (OK0, st', who) \<and> windows_ok st'
            \<and> windows st = A @ B \<and> windows st' = A @ e # B \<and> label e = l \<and> refnum e = g_ntotal_windows st'
            \<and> g_active_window st' = Some (w_ptr e) \<and> g_ntotal_windows st' = g_ntotal_windows st + 1)"
      (is "if ?there then ?reuse else if ?full then ?nospc else ?added")
    proof -
      have ?reuse if ?there using that none l by (auto simp: spawn_chat_window_def Let_def)
      moreover have ?nospc if "\<not> ?there" ?full using that none l by (auto simp: spawn_chat_window_def Let_def)
      moreover have ?added if "\<not> ?there" "\<not> ?full" using that spawn_ok [OF assms l, of t] by fastforce
      ultimately show ?thesis by simp
    qed
  qed (simp_all add: spawn_chat_window_def)
qed

theorem spawn_window_correct_witness:
  "\<exists>st' who. spawn_chat_window example_env (Some ''#isabelle'') None start_state = Some (OK0, st', who)
     \<and> windows_ok st' \<and> g_ntotal_windows st' = 2"
proof -
  have "\<not> strings_match_ignore_case ''#isabelle'' g_status_window_label" by code_simp
  from start_other [OF this] show ?thesis
    using spawn_window_correct [OF start_state(2) example_env(1), of None "''#isabelle''"] start_ntotal example_env(2)
    by auto
qed

text \<open>
  Property C17. Destroying a window: the status window and missing labels are refused, an unknown
  label is reported; otherwise exactly that window is removed, the others keep everything but
  their number, and the last window in the new numbering becomes the active one.
\<close>

theorem destroy_window_correct:
  assumes "windows_ok st" "\<forall>p. panel_ok env p"
  shows "destroy_chat_window env None st = Some (EINVAL, st)
    \<and> destroy_chat_window env (Some []) st = Some (EINVAL, st)
    \<and> (strings_match_ignore_case l g_status_window_label \<longrightarrow> destroy_chat_window env (Some l) st = Some (EINVAL, st))
    \<and> (l \<noteq> [] \<and> \<not> strings_match_ignore_case l g_status_window_label
        \<and> (\<forall>w\<in>set (windows st). \<not> strings_match_ignore_case l (label w)) \<longrightarrow>
          destroy_chat_window env (Some l) st = Some (ENOENT, st))
    \<and> (w \<in> set (windows st) \<and> strings_match_ignore_case l (label w) \<and> \<not> is_status w \<longrightarrow>
        (\<exists>st' A B. destroy_chat_window env (Some l) st = Some (OK0, st') \<and> windows_ok st'
          \<and> windows st = A @ w # B \<and> same_but_refnum (A @ B) (windows st')
          \<and> (\<exists>a\<in>set (windows st'). g_active_window st' = Some (w_ptr a) \<and> refnum a = g_ntotal_windows st')))"
proof -
  have tab: "table_ok (hash_table st) (next_ptr st)" using assms(1) by (simp add: windows_ok_def registry_ok_def)
  have "w \<in> set (windows st) \<and> strings_match_ignore_case l (label w) \<and> \<not> is_status w \<longrightarrow>
        (\<exists>st' A B. destroy_chat_window env (Some l) st = Some (OK0, st') \<and> windows_ok st'
          \<and> windows st = A @ w # B \<and> same_but_refnum (A @ B) (windows st')
          \<and> (\<exists>a\<in>set (windows st'). g_active_window st' = Some (w_ptr a) \<and> refnum a = g_ntotal_windows st'))"
    using destroy_ok [OF assms, of w l] by blast
  then show ?thesis
    using window_by_label_None [OF tab, of l] by (auto simp: destroy_chat_window_def)
qed

theorem destroy_window_correct_witness:
  "destroy_chat_window example_env (Some ''(status)'') start_state = Some (EINVAL, start_state)
   \<and> destroy_chat_window example_env (Some ''#none'') start_state = Some (ENOENT, start_state)"
proof -
  have n: "\<not> strings_match_ignore_case ''#none'' g_status_window_label" by code_simp
  have y: "strings_match_ignore_case ''(status)'' g_status_window_label" by code_simp
  show ?thesis
    using destroy_window_correct [OF start_state(2) example_env(1), of "''(status)''"] y
      destroy_window_correct [OF start_state(2) example_env(1), of "''#none''"] n start_other [OF n] by simp
qed

text \<open>
  Closing all private conversations removes exactly the windows that are neither the
  status window, nor a channel, nor a log window; the others keep everything but their number.
\<close>

theorem close_all_priv_conv_correct:
  assumes "windows_ok st" "\<forall>p. panel_ok env p" "g_ntotal_windows st \<le> 800"
  shows "\<exists>st'. window_close_all_priv_conv env st = Some st' \<and> windows_ok st'
    \<and> same_but_refnum (filter (\<lambda>w. Some (w_ptr w) = g_status_window st \<or> is_irc_channel (Some (label w)) \<or> is_logwin w)
        (windows st)) (windows st')"
  by (rule close_all_ok [OF assms])

theorem close_all_priv_conv_correct_witness:
  "\<exists>st'. window_close_all_priv_conv example_env start_state = Some st' \<and> windows_ok st' \<and> length (windows st') = 1"
proof -
  obtain w where w: "windows start_state = [w]" "g_status_window start_state = Some (w_ptr w)"
    using start_state(4) by blast
  obtain st' where st': "window_close_all_priv_conv example_env start_state = Some st'" "windows_ok st'"
    "same_but_refnum [w] (windows st')"
    using close_all_priv_conv_correct [OF start_state(2) example_env(1)] start_ntotal w by auto
  then show ?thesis using same_fields(3) [OF st'(3)] by auto
qed

end
