(* ===== verification/Scrolling.thy ===== *)
theory Scrolling
  imports Window
begin

text \<open>
  Scrolling and redrawing a window: the second half of \<^verbatim>\<open>src/src/window.c\<close>
  (\<^verbatim>\<open>first_page_up\<close>, \<^verbatim>\<open>get_dynamic_scroll_amount\<close>, \<^verbatim>\<open>window_redraw\<close>, \<^verbatim>\<open>window_recreate\<close>,
  \<^verbatim>\<open>window_scroll_up\<close>, \<^verbatim>\<open>window_scroll_down\<close>).

  The lines of the text buffer are numbered from 0, the oldest first; \<^verbatim>\<open>w_rows\<close> holds for each
  the rows that it takes on the screen, which is what \<^verbatim>\<open>printtext_puts\<close> stores in \<^verbatim>\<open>rep_count\<close>
  when it is given no limit, and of which it writes at most \<^verbatim>\<open>max_lines\<close> otherwise.  A redraw is
  the list of the numbers of the lines that it writes.
\<close>

section \<open>Measuring and drawing\<close>

text \<open>The loop that runs over lines until \<^verbatim>\<open>goal\<close> rows are filled: the lines passed and the rows.\<close>

fun fill_rows :: "int list \<Rightarrow> int \<Rightarrow> int \<Rightarrow> int \<Rightarrow> int \<times> int" where
  "fill_rows [] goal amount i = (amount, i)"
| "fill_rows (r # rs) goal amount i =
     (if i < goal then fill_rows rs goal (amount + 1) (i + r) else (amount, i))"

definition first_page_up :: "win_env \<Rightarrow> irc_window \<Rightarrow> int" where
  "first_page_up env w = fst (fill_rows (rev (w_rows w)) (LINES env - 3) 0 0)"

datatype plus_minus = PLUS | MINUS

definition lines_from :: "plus_minus \<Rightarrow> nat \<Rightarrow> int list \<Rightarrow> int list" where
  "lines_from pm pos rows = (case pm of PLUS \<Rightarrow> rev (take (Suc pos) rows) | MINUS \<Rightarrow> drop pos rows)"

text \<open>\<^const>\<open>None\<close>: the subtraction is not representable and the program stops.\<close>

definition get_dynamic_scroll_amount :: "win_env \<Rightarrow> irc_window \<Rightarrow> plus_minus \<Rightarrow> int option" where
  "get_dynamic_scroll_amount env w pm =
     (let goal = LINES env - 3 - 3 in do {
        pos \<leftarrow> int_diff (saved_size w) (scroll_count w);
        Some (if pos < 0 \<or> int (length (w_rows w)) \<le> pos then g_scroll_amount
              else (let (amount, i) = fill_rows (lines_from pm (nat pos) (w_rows w)) goal 0 0
                    in if i > goal \<and> amount > 1 then amount - 1 else amount)) })"

fun draw_limited :: "int list \<Rightarrow> nat \<Rightarrow> int \<Rightarrow> int \<Rightarrow> nat list" where
  "draw_limited [] pos rows i = []"
| "draw_limited (r # rs) pos rows i =
     (if i < rows then pos # draw_limited rs (Suc pos) rows (i + min r (rows - i)) else [])"

fun draw_all :: "int list \<Rightarrow> nat \<Rightarrow> int \<Rightarrow> int \<Rightarrow> nat list" where
  "draw_all [] pos rows i = []"
| "draw_all (r # rs) pos rows i = (if i < rows then pos # draw_all rs (Suc pos) rows (i + 1) else [])"

definition window_redraw :: "irc_window \<Rightarrow> int \<Rightarrow> int \<Rightarrow> bool \<Rightarrow> nat list" where
  "window_redraw w rows pos limit_output =
     (let p = nat (if pos < 0 then 0 else pos) in
      if length (w_rows w) \<le> p then []
      else if limit_output then draw_limited (drop p (w_rows w)) p rows 0
      else draw_all (drop p (w_rows w)) p rows 0)"

section \<open>Scrolling\<close>

datatype scroll_out = Beep | Drawn "nat list"

definition buf_size :: "irc_window \<Rightarrow> int" where
  "buf_size w = int (length (w_rows w))"

definition IS_AT_TOP :: "irc_window \<Rightarrow> bool" where
  "IS_AT_TOP w \<longleftrightarrow> saved_size w > 0 \<and> saved_size w = scroll_count w"

definition leave_scroll_mode :: "irc_window \<Rightarrow> irc_window" where
  "leave_scroll_mode w = w\<lparr>saved_size := 0, scroll_count := 0, scroll_mode := False\<rparr>"

definition window_scroll_down ::
    "win_env \<Rightarrow> irc_window option \<Rightarrow> int \<Rightarrow> (irc_window option \<times> scroll_out) option" where
  "window_scroll_down env win amount =
     (let HEIGHT = LINES env - 3 in
      case win of None \<Rightarrow> Some (None, Beep)
      | Some w \<Rightarrow>
          if \<not> scroll_mode w then Some (Some w, Beep)
          else do {
            n \<leftarrow> (if amount \<le> 0 then get_dynamic_scroll_amount env w MINUS else Some amount);
            (let w1 = w\<lparr>scroll_count := scroll_count w - n\<rparr> in
             if \<not> scroll_count w1 > HEIGHT
             then (let w2 = leave_scroll_mode w1
                   in Some (Some w2, Drawn (window_redraw w2 HEIGHT (buf_size w2 - HEIGHT) False)))
             else Some (Some w1, Drawn (window_redraw w1 HEIGHT (saved_size w1 - scroll_count w1) True))) })"

definition scroll_further :: "win_env \<Rightarrow> irc_window \<Rightarrow> int \<Rightarrow> irc_window option" where
  "scroll_further env w amount =
     (if scroll_count w > saved_size w then Some (w\<lparr>scroll_count := saved_size w\<rparr>)
      else (let w1 = (if scroll_count w = 0 then w\<lparr>scroll_count := scroll_count w + first_page_up env w\<rparr> else w)
            in do {
              n \<leftarrow> (if amount \<le> 0 then get_dynamic_scroll_amount env w1 PLUS else Some amount);
              (let w2 = w1\<lparr>scroll_count := scroll_count w1 + n\<rparr>
               in Some (if scroll_count w2 > saved_size w2 then w2\<lparr>scroll_count := saved_size w2\<rparr> else w2)) }))"

definition window_scroll_up ::
    "win_env \<Rightarrow> irc_window option \<Rightarrow> int \<Rightarrow> (irc_window option \<times> scroll_out) option" where
  "window_scroll_up env win amount =
     (let MIN_SIZE = LINES env - 3 in
      case win of None \<Rightarrow> Some (None, Beep)
      | Some w \<Rightarrow>
          if MIN_SIZE < 0 \<or> \<not> buf_size w > MIN_SIZE \<or> IS_AT_TOP w then Some (Some w, Beep)
          else do {
            w2 \<leftarrow> scroll_further env
                   (if \<not> scroll_mode w then w\<lparr>saved_size := buf_size w, scroll_mode := True\<rparr> else w) amount;
            Some (Some w2, Drawn (
              if IS_AT_TOP w2 then window_redraw w2 MIN_SIZE 0 True
              else window_redraw w2 MIN_SIZE (saved_size w2 - scroll_count w2) True)) })"

section \<open>Recreating a window after a change of the screen size\<close>

record term_window_size =
  rows :: int
  cols :: int
  start_row :: int
  start_col :: int

text \<open>
  The sizes of the panels: of the window, and of the nick list when it is a channel, whose width
  \<^verbatim>\<open>nicklist_get_width\<close> computes.
\<close>

definition panel_sizes :: "irc_window \<Rightarrow> int \<Rightarrow> int \<Rightarrow> int \<Rightarrow> term_window_size \<times> term_window_size option" where
  "panel_sizes w nrows ncols width =
     (if \<not> is_irc_channel (Some (label w))
      then (\<lparr>rows = nrows - 2, cols = ncols, start_row = 1, start_col = 0\<rparr>, None)
      else (\<lparr>rows = nrows - 2, cols = max ncols width - min ncols width, start_row = 1, start_col = 0\<rparr>,
            Some \<lparr>rows = nrows - 2, cols = width, start_row = 1, start_col = ncols - width\<rparr>))"

definition window_recreate ::
    "irc_window \<Rightarrow> int \<Rightarrow> int \<Rightarrow> int \<Rightarrow> irc_window \<times> (term_window_size \<times> term_window_size option) \<times> nat list" where
  "window_recreate w nrows ncols width =
     (let HEIGHT = nrows - 3;
          panels = panel_sizes w nrows ncols width
      in if scroll_mode w
         then if \<not> scroll_count w > HEIGHT
              then (let w1 = leave_scroll_mode w
                    in (w1, panels, window_redraw w1 HEIGHT (buf_size w1 - HEIGHT) False))
              else (w, panels, window_redraw w HEIGHT (saved_size w - scroll_count w) True)
         else (w, panels, window_redraw w HEIGHT (buf_size w - HEIGHT) False))"

text \<open>\<^verbatim>\<open>windows_recreate_all\<close>: every window, in the order of the table.\<close>

definition windows_recreate_all :: "(irc_window \<Rightarrow> int) \<Rightarrow> int \<Rightarrow> int \<Rightarrow> win_state \<Rightarrow> win_state" where
  "windows_recreate_all width nrows ncols st =
     st\<lparr>hash_table := map (map (\<lambda>w. fst (window_recreate w nrows ncols (width w)))) (hash_table st)\<rparr>"

section \<open>The invariant of the scroll state\<close>

text \<open>
  Out of scroll mode both counters are zero; in scroll mode the saved size is that of a buffer
  that has only grown since, and the offset lies within it.  Every line takes at least one row.
\<close>

definition scroll_ok :: "irc_window \<Rightarrow> bool" where
  "scroll_ok w \<longleftrightarrow> (\<forall>r\<in>set (w_rows w). 1 \<le> r) \<and> buf_size w \<le> INT_MAX \<and> saved_size w \<le> buf_size w \<and>
     (if scroll_mode w then 0 < scroll_count w \<and> scroll_count w \<le> saved_size w
      else saved_size w = 0 \<and> scroll_count w = 0)"

text \<open>Measuring a part of the lines: at least one line is passed, and no more than there are.\<close>

lemma fill_rows_bounds:
  "fill_rows rs goal a i = (a', i') \<Longrightarrow> a \<le> a' \<and> a' \<le> a + int (length rs)
     \<and> (rs \<noteq> [] \<and> i < goal \<longrightarrow> a + 1 \<le> a')"
  by (induction rs goal a i arbitrary: a' i' rule: fill_rows.induct) (fastforce split: if_splits)+

lemma lines_from_length:
  "pos < length rs \<Longrightarrow> length (lines_from pm pos rs) = (case pm of PLUS \<Rightarrow> Suc pos | MINUS \<Rightarrow> length rs - pos)"
  by (simp add: lines_from_def split: plus_minus.split)

lemma first_page_up_bounds: "0 \<le> first_page_up env w \<and> first_page_up env w \<le> buf_size w"
proof -
  obtain a i where "fill_rows (rev (w_rows w)) (LINES env - 3) 0 0 = (a, i)" by fastforce
  from fill_rows_bounds [OF this] this show ?thesis by (simp add: first_page_up_def buf_size_def)
qed

lemma dynamic_bounds:
  assumes "int_diff (saved_size w) (scroll_count w) = Some pos" "0 \<le> pos" "pos < buf_size w"
  shows "\<exists>n. get_dynamic_scroll_amount env w pm = Some n \<and> 0 \<le> n
    \<and> n \<le> (case pm of PLUS \<Rightarrow> pos + 1 | MINUS \<Rightarrow> buf_size w - pos) \<and> (6 < LINES env \<longrightarrow> 1 \<le> n)"
proof -
  let ?rs = "lines_from pm (nat pos) (w_rows w)"
  obtain a i where f: "fill_rows ?rs (LINES env - 3 - 3) 0 0 = (a, i)" by fastforce
  have len: "int (length ?rs) = (case pm of PLUS \<Rightarrow> pos + 1 | MINUS \<Rightarrow> buf_size w - pos)"
    using assms(2,3) lines_from_length [of "nat pos" "w_rows w" pm]
    by (auto simp: buf_size_def nat_less_iff split: plus_minus.split)
  have "?rs \<noteq> []" using assms(2,3) len by (cases pm) (auto simp: buf_size_def)
  then show ?thesis
    using fill_rows_bounds [OF f] len assms f
    by (auto simp: get_dynamic_scroll_amount_def buf_size_def)
qed

lemma scroll_diff:
  "\<lbrakk>saved_size w \<le> INT_MAX; 0 \<le> scroll_count w; scroll_count w \<le> saved_size w\<rbrakk>
    \<Longrightarrow> int_diff (saved_size w) (scroll_count w) = Some (saved_size w - scroll_count w)"
  by (auto simp: int_diff_def INT_MIN_def INT_MAX_def)

lemma scroll_amount_up:
  assumes "saved_size w \<le> buf_size w" "buf_size w \<le> INT_MAX" "0 \<le> scroll_count w"
    "scroll_count w \<le> saved_size w"
  shows "\<exists>n. get_dynamic_scroll_amount env w PLUS = Some n \<and> 0 \<le> n
    \<and> (6 < LINES env \<or> scroll_count w = 0 \<and> saved_size w = buf_size w \<longrightarrow> 1 \<le> n)"
proof -
  have d: "int_diff (saved_size w) (scroll_count w) = Some (saved_size w - scroll_count w)"
    using assms by (simp add: scroll_diff)
  show ?thesis
  proof (cases "scroll_count w = 0 \<and> saved_size w = buf_size w")
    case True
    then show ?thesis using d by (simp add: get_dynamic_scroll_amount_def buf_size_def g_scroll_amount_def)
  next
    case False
    then show ?thesis using dynamic_bounds [OF d, of env PLUS] assms by auto
  qed
qed

text \<open>One step away from the bottom: the offset grows, up to the saved size.\<close>

lemma scroll_further_ok:
  assumes "saved_size w \<le> buf_size w" "buf_size w \<le> INT_MAX" "0 \<le> scroll_count w"
    "scroll_count w < saved_size w" "scroll_count w = 0 \<Longrightarrow> saved_size w = buf_size w"
  shows "\<exists>c. scroll_further env w amount = Some (w\<lparr>scroll_count := c\<rparr>) \<and> 0 < c
    \<and> scroll_count w \<le> c \<and> c \<le> saved_size w \<and> (0 < amount \<or> 6 < LINES env \<longrightarrow> scroll_count w < c)"
proof -
  define c1 where "c1 = (if scroll_count w = 0 then first_page_up env w else scroll_count w)"
  let ?w1 = "w\<lparr>scroll_count := c1\<rparr>"
  have c1: "0 \<le> c1" "c1 \<le> saved_size w" "scroll_count w \<le> c1"
    using assms first_page_up_bounds [of env w] by (auto simp: c1_def)
  have sc: "saved_size ?w1 = saved_size w" "buf_size ?w1 = buf_size w" by (simp_all add: buf_size_def)
  obtain n where n: "get_dynamic_scroll_amount env ?w1 PLUS = Some n" "0 \<le> n"
    "6 < LINES env \<or> c1 = 0 \<and> saved_size w = buf_size w \<Longrightarrow> 1 \<le> n"
    using scroll_amount_up [of ?w1 env] assms c1 sc by auto
  define m where "m = (if amount \<le> 0 then n else amount)"
  have "scroll_further env w amount = Some (w\<lparr>scroll_count := min (c1 + m) (saved_size w)\<rparr>)"
  proof -
    have e: "(if scroll_count w = 0 then w\<lparr>scroll_count := scroll_count w + first_page_up env w\<rparr> else w) = ?w1"
      by (simp add: c1_def)
    show ?thesis using assms(4) n(1) unfolding scroll_further_def e by (simp add: m_def min_def)
  qed
  moreover have m: "0 \<le> m" "6 < LINES env \<or> 0 < amount \<or> c1 = 0 \<longrightarrow> 1 \<le> m"
    using n(2,3) c1(3) assms(3,5) by (auto simp: m_def)
  then have "0 < c1 + m" using c1(1) by (cases "c1 = 0") auto
  moreover have "scroll_count w \<le> c1 + m" "0 < amount \<or> 6 < LINES env \<longrightarrow> scroll_count w < c1 + m"
    using m c1(3) by auto
  ultimately show ?thesis using assms(3,4) by (intro exI [of _ "min (c1 + m) (saved_size w)"]) auto
qed

lemma scroll_up_step:
  assumes "scroll_ok w"
  shows "\<exists>w' out. window_scroll_up env (Some w) amount = Some (Some w', out) \<and> scroll_ok w'
    \<and> w_rows w' = w_rows w \<and> scroll_count w \<le> scroll_count w'
    \<and> (3 \<le> LINES env \<and> LINES env - 3 < buf_size w \<and> \<not> IS_AT_TOP w \<longrightarrow>
        scroll_mode w' \<and> saved_size w' = (if scroll_mode w then saved_size w else buf_size w)
        \<and> (0 < amount \<or> 6 < LINES env \<longrightarrow> scroll_count w < scroll_count w'))"
proof (cases "LINES env - 3 < 0 \<or> \<not> buf_size w > LINES env - 3 \<or> IS_AT_TOP w")
  case True
  then show ?thesis using assms by (auto simp: window_scroll_up_def)
next
  case False
  define w1 where "w1 = (if \<not> scroll_mode w then w\<lparr>saved_size := buf_size w, scroll_mode := True\<rparr> else w)"
  have w: "saved_size w \<le> buf_size w" "buf_size w \<le> INT_MAX" "0 \<le> scroll_count w"
    "scroll_mode w \<Longrightarrow> 0 < scroll_count w \<and> scroll_count w < saved_size w"
    "\<not> scroll_mode w \<Longrightarrow> saved_size w = 0 \<and> scroll_count w = 0"
    using assms False by (auto simp: scroll_ok_def IS_AT_TOP_def split: if_splits)
  have w1: "buf_size w1 = buf_size w" "scroll_count w1 = scroll_count w" "w_rows w1 = w_rows w" "scroll_mode w1"
    "saved_size w1 = (if scroll_mode w then saved_size w else buf_size w)"
    by (simp_all add: w1_def buf_size_def)
  have "0 < buf_size w" using False by simp
  then have "saved_size w1 \<le> buf_size w1" "scroll_count w1 < saved_size w1"
    "scroll_count w1 = 0 \<Longrightarrow> saved_size w1 = buf_size w1" using w unfolding w1 by (auto split: if_splits)
  then obtain c where c: "scroll_further env w1 amount = Some (w1\<lparr>scroll_count := c\<rparr>)" "0 < c"
    "scroll_count w \<le> c" "c \<le> saved_size w1" "0 < amount \<or> 6 < LINES env \<longrightarrow> scroll_count w < c"
    using scroll_further_ok [of w1 env amount] w(2,3) w1(1,2) by auto
  have "scroll_ok (w1\<lparr>scroll_count := c\<rparr>)"
    using assms c(2,4) w(1) w1 by (auto simp: scroll_ok_def buf_size_def split: if_splits)
  moreover obtain out where "window_scroll_up env (Some w) amount = Some (Some (w1\<lparr>scroll_count := c\<rparr>), out)"
    using False c(1) by (simp add: window_scroll_up_def w1_def [symmetric] Let_def)
  ultimately show ?thesis
    using c w1 by (intro exI [of _ "w1\<lparr>scroll_count := c\<rparr>"] exI [of _ out]) simp
qed

lemma scroll_down_step:
  assumes "scroll_ok w" "3 \<le> LINES env"
  shows "\<exists>w' out. window_scroll_down env (Some w) amount = Some (Some w', out) \<and> scroll_ok w'
    \<and> w_rows w' = w_rows w \<and> scroll_count w' \<le> scroll_count w \<and> (scroll_mode w' \<longrightarrow> scroll_mode w)
    \<and> (scroll_mode w \<and> (0 < amount \<or> 6 < LINES env) \<longrightarrow> scroll_count w' < scroll_count w)"
proof (cases "scroll_mode w")
  case False
  then show ?thesis using assms by (auto simp: window_scroll_down_def)
next
  case True
  have w: "saved_size w \<le> buf_size w" "buf_size w \<le> INT_MAX" "0 < scroll_count w" "scroll_count w \<le> saved_size w"
    using assms True by (auto simp: scroll_ok_def)
  have d: "int_diff (saved_size w) (scroll_count w) = Some (saved_size w - scroll_count w)"
    using w by (simp add: scroll_diff)
  obtain n where n: "get_dynamic_scroll_amount env w MINUS = Some n" "0 \<le> n" "6 < LINES env \<longrightarrow> 1 \<le> n"
    using dynamic_bounds [OF d, of env MINUS] w by auto
  define m where "m = (if amount \<le> 0 then n else amount)"
  let ?w1 = "w\<lparr>scroll_count := scroll_count w - m\<rparr>"
  have m: "0 \<le> m" "0 < amount \<or> 6 < LINES env \<Longrightarrow> 1 \<le> m" using n by (auto simp: m_def)
  have ok: "scroll_ok ?w1" if "LINES env - 3 < scroll_count w - m"
    using that assms True m(1) by (auto simp: scroll_ok_def buf_size_def)
  have ok2: "scroll_ok (leave_scroll_mode ?w1)"
    using assms by (auto simp: scroll_ok_def leave_scroll_mode_def buf_size_def)
  have e: "window_scroll_down env (Some w) amount =
     (if \<not> scroll_count ?w1 > LINES env - 3
      then Some (Some (leave_scroll_mode ?w1), Drawn (window_redraw (leave_scroll_mode ?w1) (LINES env - 3)
             (buf_size (leave_scroll_mode ?w1) - (LINES env - 3)) False))
      else Some (Some ?w1, Drawn (window_redraw ?w1 (LINES env - 3) (saved_size ?w1 - scroll_count ?w1) True)))"
    using True n(1) by (simp add: window_scroll_down_def m_def Let_def)
  show ?thesis
    unfolding e using ok ok2 m w True by (auto simp: leave_scroll_mode_def)
qed

text \<open>What a redraw writes: consecutive lines, as many as fill the rows.\<close>

lemma draw_limited_fill:
  "\<exists>k \<le> length rs. draw_limited rs p n i = [p..<p + k]
     \<and> (k < length rs \<longrightarrow> n \<le> i + sum_list (take k rs)) \<and> (0 < k \<longrightarrow> i + sum_list (take (k - 1) rs) < n)"
proof (induction rs arbitrary: p i)
  case (Cons r rs)
  show ?case
  proof (cases "i < n")
    case False
    then show ?thesis by (intro exI [of _ 0]) simp
  next
    case True
    show ?thesis
    proof (cases "i + r < n")
      case lt: True
      obtain k where "k \<le> length rs" "draw_limited rs (Suc p) n (i + r) = [Suc p..<Suc p + k]"
        "k < length rs \<longrightarrow> n \<le> i + r + sum_list (take k rs)" "0 < k \<longrightarrow> i + r + sum_list (take (k - 1) rs) < n"
        using Cons.IH by blast
      then show ?thesis using True lt
        by (intro exI [of _ "Suc k"]) (cases k; auto simp: upt_conv_Cons min_def simp del: upt_Suc)
    next
      case False
      then have "draw_limited rs (Suc p) n (i + min r (n - i)) = []" by (cases rs) (simp_all add: min_def)
      then show ?thesis using True False by (intro exI [of _ 1]) simp
    qed
  qed
qed simp

lemma draw_all_fill: "draw_all rs p n i = [p..<p + min (length rs) (nat (n - i))]"
proof (induction rs arbitrary: p i)
  case (Cons r rs)
  show ?case
  proof (cases "i < n")
    case True
    then have "nat (n - i) = Suc (nat (n - (i + 1)))" by simp
    then show ?thesis using True Cons.IH [of "Suc p" "i + 1"] by (simp add: upt_conv_Cons del: upt_Suc)
  qed simp
qed simp

lemma window_redraw_fill:
  "\<exists>k. window_redraw w n pos limit = [nat (max 0 pos)..<nat (max 0 pos) + k]
     \<and> nat (max 0 pos) + k \<le> max (nat (max 0 pos)) (length (w_rows w))
     \<and> (if limit then (nat (max 0 pos) + k < length (w_rows w) \<longrightarrow> n \<le> sum_list (take k (drop (nat (max 0 pos)) (w_rows w))))
            \<and> (0 < k \<longrightarrow> sum_list (take (k - 1) (drop (nat (max 0 pos)) (w_rows w))) < n)
         else k = min (length (w_rows w) - nat (max 0 pos)) (nat n))"
proof -
  define p where "p = nat (max 0 pos)"
  have p: "nat (if pos < 0 then 0 else pos) = p" by (simp add: p_def max_def)
  show ?thesis
  proof (cases "length (w_rows w) \<le> p")
    case True
    then show ?thesis unfolding p_def [symmetric] window_redraw_def p Let_def
      by (intro exI [of _ 0]) auto
  next
    case False
    then show ?thesis
      using draw_limited_fill [of "drop p (w_rows w)" p n 0] draw_all_fill [of "drop p (w_rows w)" p n 0]
      unfolding p_def [symmetric] window_redraw_def p Let_def by (cases limit) auto
  qed
qed

text \<open>Pressing a page key once; the state after a failure would be the old one.\<close>

definition page_up :: "win_env \<Rightarrow> irc_window \<Rightarrow> irc_window" where
  "page_up env w = (case window_scroll_up env (Some w) (-1) of Some (Some w', _) \<Rightarrow> w' | _ \<Rightarrow> w)"

definition page_down :: "win_env \<Rightarrow> irc_window \<Rightarrow> irc_window" where
  "page_down env w = (case window_scroll_down env (Some w) (-1) of Some (Some w', _) \<Rightarrow> w' | _ \<Rightarrow> w)"

lemma page_up_step:
  assumes "scroll_ok w"
  shows "scroll_ok (page_up env w) \<and> w_rows (page_up env w) = w_rows w \<and>
    (6 < LINES env \<and> LINES env - 3 < buf_size w \<and> \<not> IS_AT_TOP w \<longrightarrow> scroll_count w < scroll_count (page_up env w))"
  using scroll_up_step [OF assms, of env "-1"] by (auto simp: page_up_def)

lemma page_down_step:
  assumes "scroll_ok w" "6 < LINES env" "scroll_mode w"
  shows "scroll_ok (page_down env w) \<and> scroll_count (page_down env w) < scroll_count w"
  using scroll_down_step [OF assms(1), of env "-1"] assms(2,3) by (auto simp: page_down_def)

lemma page_up_reaches_top:
  "\<lbrakk>scroll_ok w; 6 < LINES env; LINES env - 3 < buf_size w; buf_size w - scroll_count w \<le> int m\<rbrakk>
    \<Longrightarrow> \<exists>n\<le>m. IS_AT_TOP ((page_up env ^^ n) w)"
proof (induction m arbitrary: w)
  case 0
  then have "0 < buf_size w" by simp
  then have "IS_AT_TOP w" using 0 by (auto simp: scroll_ok_def IS_AT_TOP_def split: if_splits)
  then show ?case by (intro exI [of _ 0]) simp
next
  case (Suc m)
  show ?case
  proof (cases "IS_AT_TOP w")
    case False
    then obtain n where "n \<le> m" "IS_AT_TOP ((page_up env ^^ n) (page_up env w))"
      using Suc.IH [of "page_up env w"] page_up_step [OF Suc.prems(1), of env] Suc.prems
      by (auto simp: buf_size_def)
    then show ?thesis by (intro exI [of _ "Suc n"]) (simp add: funpow_swap1)
  qed (intro exI [of _ 0], simp)
qed

lemma page_down_reaches_bottom:
  "\<lbrakk>scroll_ok w; 6 < LINES env; scroll_count w \<le> int m\<rbrakk> \<Longrightarrow> \<exists>n\<le>m. \<not> scroll_mode ((page_down env ^^ n) w)"
proof (induction m arbitrary: w)
  case 0
  then show ?case by (intro exI [of _ 0]) (auto simp: scroll_ok_def split: if_splits)
next
  case (Suc m)
  show ?case
  proof (cases "scroll_mode w")
    case True
    then obtain n where "n \<le> m" "\<not> scroll_mode ((page_down env ^^ n) (page_down env w))"
      using Suc.IH [of "page_down env w"] page_down_step [OF Suc.prems(1,2)] Suc.prems by auto
    then show ?thesis by (intro exI [of _ "Suc n"]) (simp add: funpow_swap1)
  qed (intro exI [of _ 0], simp)
qed

lemma recreate_ok:
  assumes "scroll_ok w" "3 \<le> nrows"
  shows "scroll_ok (fst (window_recreate w nrows ncols width))"
  using assms by (auto simp: window_recreate_def Let_def leave_scroll_mode_def scroll_ok_def buf_size_def split: if_splits)

section \<open>Properties\<close>

text \<open>
  Scrolling and resizing keep the scroll position inside the buffer: out of scroll
  mode the counters are zero, in it the offset is between 1 and the saved size; the page and line
  keys never fail, and a redraw writes consecutive lines from the requested one on, until the rows
  of the screen are filled or the lines are used up.
\<close>

theorem scroll_position_invariant:
  assumes "scroll_ok w" "3 \<le> LINES env" "3 \<le> nrows"
  shows "(\<exists>w' out. window_scroll_up env (Some w) amount = Some (Some w', out) \<and> scroll_ok w'
        \<and> scroll_count w \<le> scroll_count w' \<and> w_rows w' = w_rows w)
    \<and> (\<exists>w' out. window_scroll_down env (Some w) amount = Some (Some w', out) \<and> scroll_ok w'
        \<and> scroll_count w' \<le> scroll_count w \<and> w_rows w' = w_rows w)
    \<and> scroll_ok (fst (window_recreate w nrows ncols width))
    \<and> (\<exists>k. window_redraw w n (int p) True = [p..<p + k]
        \<and> (p + k < length (w_rows w) \<longrightarrow> n \<le> sum_list (take k (drop p (w_rows w))))
        \<and> (0 < k \<longrightarrow> sum_list (take (k - 1) (drop p (w_rows w))) < n))"
  using scroll_up_step [OF assms(1), of env amount] scroll_down_step [OF assms(1,2), of amount]
    recreate_ok [OF assms(1,3), of ncols width] window_redraw_fill [of w n "int p" True]
  by auto

definition example_window :: irc_window where
  "example_window = \<lparr>w_ptr = 0, w_rows = replicate 40 1, is_logwin = False, logging = False,
     received_chancreated = False, received_chanmodes = False, received_names = False,
     scroll_mode = False, chanmodes = [], label = ''#isabelle'', title = None, w_names = no_names, refnum = 2,
     saved_size = 0, scroll_count = 0\<rparr>"

lemma example_window: "scroll_ok example_window" "buf_size example_window = 40"
  by (simp_all add: scroll_ok_def example_window_def buf_size_def INT_MAX_def)

theorem scroll_position_invariant_witness:
  "scroll_ok (fst (window_recreate example_window 30 90 20))
   \<and> (\<exists>k. window_redraw example_window 22 5 True = [5..<5 + k])"
proof -
  have "3 \<le> LINES example_env" by (simp add: example_env_def)
  then show ?thesis
    using scroll_position_invariant [OF example_window(1), of example_env 30 1 90 20 22 5] by auto
qed

text \<open>
  Property C19. The page keys always make progress: on a screen of at least seven lines (the terminal code asks for ten), pressing
  page-up often enough reaches the oldest line of a buffer that does not fit the screen, and
  pressing page-down often enough leaves the scroll mode; one press per buffer line is enough.
\<close>

theorem scrolling_reaches_both_ends:
  assumes "scroll_ok w" "6 < LINES env" "LINES env - 3 < buf_size w"
  shows "(\<exists>n \<le> length (w_rows w). IS_AT_TOP ((page_up env ^^ n) w))
    \<and> (\<exists>n \<le> length (w_rows w). \<not> scroll_mode ((page_down env ^^ n) w))"
proof -
  have "0 \<le> scroll_count w" "scroll_count w \<le> buf_size w"
    using assms(1) by (auto simp: scroll_ok_def buf_size_def split: if_splits)
  then show ?thesis
    using page_up_reaches_top [OF assms, of "length (w_rows w)"]
      page_down_reaches_bottom [OF assms(1,2), of "length (w_rows w)"] by (simp add: buf_size_def)
qed

theorem scrolling_reaches_both_ends_witness:
  "\<exists>n \<le> 40. IS_AT_TOP ((page_up example_env ^^ n) example_window)"
proof -
  have "6 < LINES example_env" "LINES example_env - 3 < buf_size example_window"
    by (simp_all add: example_env_def example_window)
  from scrolling_reaches_both_ends [OF example_window(1) this] show ?thesis
    by (simp add: example_window_def)
qed

end
