(* ===== verification/Text_Deco.thy ===== *)
theory Text_Deco
  imports Char_Class
begin

text \<open>
  Text decoration: the codes of \<^verbatim>\<open>src/src/printtext.h\<close> and their removal in
  \<^verbatim>\<open>src/src/squeeze_text_deco.cpp\<close>.

  The text is edited in place.  A buffer is the list of the octets of its object, the terminating
  NUL and what is behind it included; \<open>i\<close> is the position that is read and \<open>j\<close> the one that is
  written.  The results are \<^const>\<open>None\<close> when the code reads or writes outside the object or an
  assertion fails.  What a colour code is, and what should be left of a text, is stated
  separately (\<open>strip_deco\<close>).
\<close>

section \<open>Codes\<close>

definition BLINK :: int where "BLINK = 0x1D"
definition BOLD :: int where "BOLD = 0x02"
definition COLOR :: int where "COLOR = 0x03"
definition NORMAL :: int where "NORMAL = 0x0F"
definition REVERSE :: int where "REVERSE = 0x16"
definition UNDERLINE :: int where "UNDERLINE = 0x1F"

lemmas deco_defs = BLINK_def BOLD_def COLOR_def NORMAL_def REVERSE_def UNDERLINE_def

definition reject :: string where
  "reject = map (\<lambda>c. char_of (nat c)) [BLINK, BOLD, NORMAL, REVERSE, UNDERLINE]"

section \<open>The removal\<close>

datatype cc_check = STOP_INTERPRETING | GO_ON

type_synonym deco_state = "string \<times> nat \<times> nat"

definition handle_foo_situation :: "string \<Rightarrow> nat \<Rightarrow> nat \<Rightarrow> deco_state option" where
  "handle_foo_situation buffer i j = do {
     c \<leftarrow> rd buffer i;
     if c = nul then Some (buffer, i, j)
     else if schar c = COLOR then Some (buffer, i - 1, j)
     else if strchr reject c = None then do { b \<leftarrow> wr buffer j c; Some (b, i, j + 1) }
     else Some (buffer, i, j) }"

definition stop_with :: "deco_state option \<Rightarrow> (cc_check \<times> deco_state) option" where
  "stop_with r = map_option (Pair STOP_INTERPRETING) r"

definition check1 :: "string \<Rightarrow> nat \<Rightarrow> nat \<Rightarrow> (cc_check \<times> deco_state) option" where
  "check1 buffer i j = do {
     c \<leftarrow> rd buffer (i + 1);
     if \<not> sw_isdigit (schar c) then stop_with (handle_foo_situation buffer (i + 1) j)
     else Some (GO_ON, buffer, i + 1, j) }"

definition check2 :: "string \<Rightarrow> nat \<Rightarrow> nat \<Rightarrow> (cc_check \<times> deco_state) option" where
  "check2 buffer i j = do {
     c \<leftarrow> rd buffer (i + 1);
     if \<not> sw_isdigit (schar c) \<and> c \<noteq> CHR '','' then stop_with (handle_foo_situation buffer (i + 1) j)
     else Some (GO_ON, buffer, i + 1, j) }"

definition check3 :: "string \<Rightarrow> nat \<Rightarrow> nat \<Rightarrow> bool \<Rightarrow> (cc_check \<times> deco_state \<times> bool) option" where
  "check3 buffer i j has_comma = do {
     c \<leftarrow> rd buffer i;
     if \<not> has_comma \<and> c = CHR '','' then Some (GO_ON, (buffer, i, j), True)
     else if has_comma \<and> sw_isdigit (schar c) then Some (GO_ON, (buffer, i, j), has_comma)
     else if has_comma \<and> \<not> sw_isdigit (schar c) then
       map_option (\<lambda>st. (STOP_INTERPRETING, st, has_comma)) (handle_foo_situation buffer (i - 1) j)
     else map_option (\<lambda>st. (STOP_INTERPRETING, st, has_comma)) (handle_foo_situation buffer i j) }"

definition check4 :: "string \<Rightarrow> nat \<Rightarrow> nat \<Rightarrow> (cc_check \<times> deco_state) option" where
  "check4 buffer i j = do {
     c \<leftarrow> rd buffer i;
     if c = CHR '','' then do {
       d \<leftarrow> rd buffer (i + 1);
       if \<not> sw_isdigit (schar d) then stop_with (handle_foo_situation buffer i j)
       else Some (GO_ON, buffer, i + 1, j) }
     else if \<not> sw_isdigit (schar c) then None
     else do {
       d \<leftarrow> rd buffer (i + 1);
       if sw_isdigit (schar d) then Some (STOP_INTERPRETING, buffer, i + 1, j)
       else stop_with (handle_foo_situation buffer (i + 1) j) } }"

definition check5 :: "string \<Rightarrow> nat \<Rightarrow> nat \<Rightarrow> (cc_check \<times> deco_state) option" where
  "check5 buffer i j = do {
     c \<leftarrow> rd buffer (i + 1);
     if \<not> sw_isdigit (schar c) then stop_with (handle_foo_situation buffer (i + 1) j)
     else Some (GO_ON, buffer, i + 1, j) }"

text \<open>The function \<^verbatim>\<open>color\<close>, from the assignment of \<^verbatim>\<open>has_comma\<close> on and as a whole.\<close>

definition color_comma :: "string \<Rightarrow> nat \<Rightarrow> nat \<Rightarrow> deco_state option" where
  "color_comma buffer i j = do {
     c \<leftarrow> rd buffer i;
     (r, (b, i, j), has_comma) \<leftarrow> check3 buffer (i + 1) j (c = CHR '','');
     if r \<noteq> GO_ON then Some (b, i, j)
     else if \<not> has_comma then None
     else do {
     (r, b, i, j) \<leftarrow> check4 b i j;
     if r \<noteq> GO_ON then Some (b, i, j) else map_option snd (check5 b i j) } }"

definition color :: "string \<Rightarrow> nat \<Rightarrow> nat \<Rightarrow> deco_state option" where
  "color buffer i j = do {
     (r, b, i, j) \<leftarrow> check1 buffer i j;
     if r \<noteq> GO_ON then Some (b, i, j) else do {
     (r, b, i, j) \<leftarrow> check2 b i j;
     if r \<noteq> GO_ON then Some (b, i, j) else color_comma b i j } }"

text \<open>The loop goes forward, whatever is in the buffer, until it leaves it or finds a NUL.\<close>

lemma foo_mono:
  "handle_foo_situation b i j = Some (b', i', j') \<Longrightarrow> length b' = length b \<and> i \<le> i' + 1 \<and> i' \<le> i"
  unfolding handle_foo_situation_def
  by (auto simp: rd_Some_iff wr_Some_iff bind_eq_Some_conv split: if_splits)

lemma stop_Some_iff: "stop_with r = Some x \<longleftrightarrow> (\<exists>st. x = (STOP_INTERPRETING, st) \<and> r = Some st)"
  by (cases r) (auto simp: stop_with_def)

lemma check12_mono:
  "check1 b i j = Some (r, b', i', j') \<Longrightarrow> length b' = length b \<and> i \<le> i' \<and> (r = GO_ON \<longrightarrow> i' = i + 1)"
  "check2 b i j = Some (r, b', i', j') \<Longrightarrow> length b' = length b \<and> i \<le> i'"
  "check5 b i j = Some (r, b', i', j') \<Longrightarrow> length b' = length b \<and> i \<le> i'"
  unfolding check1_def check2_def check5_def
  by (auto simp: bind_eq_Some_conv stop_Some_iff dest!: foo_mono split: if_splits)

lemma check3_mono:
  "check3 b i j h = Some (r, (b', i', j'), h') \<Longrightarrow> length b' = length b \<and> i \<le> i' + 2 \<and> (r = GO_ON \<longrightarrow> i' = i)"
  unfolding check3_def by (auto simp: bind_eq_Some_conv dest!: foo_mono split: if_splits)

lemma check4_mono: "check4 b i j = Some (r, b', i', j') \<Longrightarrow> length b' = length b \<and> i \<le> i' + 1"
  unfolding check4_def by (auto simp: bind_eq_Some_conv stop_Some_iff dest!: foo_mono split: if_splits)

lemma color_comma_mono:
  assumes "color_comma b i j = Some (b', i', j')" shows "length b' = length b \<and> i \<le> i' + 1"
proof -
  obtain c r b1 i1 j1 h where 3: "check3 b (i + 1) j (c = CHR '','') = Some (r, (b1, i1, j1), h)"
    and *: "(if r \<noteq> GO_ON then Some (b1, i1, j1) else if \<not> h then None
       else do { (r, b, i, j) \<leftarrow> check4 b1 i1 j1;
                 if r \<noteq> GO_ON then Some (b, i, j) else map_option snd (check5 b i j) }) = Some (b', i', j')"
    using assms unfolding color_comma_def by (auto simp: bind_eq_Some_conv)
  note m3 = check3_mono [OF 3]
  show ?thesis
  proof (cases "r = GO_ON")
    case True
    then obtain r b2 i2 j2 where 4: "check4 b1 i1 j1 = Some (r, b2, i2, j2)"
      and **: "(if r \<noteq> GO_ON then Some (b2, i2, j2) else map_option snd (check5 b2 i2 j2)) = Some (b', i', j')"
      using * by (auto simp: bind_eq_Some_conv split: if_splits)
    show ?thesis using m3 True check4_mono [OF 4] ** by (auto dest!: check12_mono split: if_splits)
  qed (use * m3 in auto)
qed

text \<open>Here the comma is what lets the position go back.\<close>

lemma color_mono:
  assumes "color b i j = Some (b', i', j')" shows "length b' = length b \<and> i \<le> i'"
proof -
  obtain r b1 i1 j1 where 1: "check1 b i j = Some (r, b1, i1, j1)"
    and *: "(if r \<noteq> GO_ON then Some (b1, i1, j1) else do { (r, b, i, j) \<leftarrow> check2 b1 i1 j1;
        if r \<noteq> GO_ON then Some (b, i, j) else color_comma b i j }) = Some (b', i', j')"
    using assms unfolding color_def by (auto simp: bind_eq_Some_conv)
  show ?thesis
    using * check12_mono(1) [OF 1]
    by (auto simp: bind_eq_Some_conv dest!: check12_mono(2) color_comma_mono split: if_splits)
qed

function squeeze_loop :: "string \<Rightarrow> nat \<Rightarrow> nat \<Rightarrow> (string \<times> nat) option" where
  "squeeze_loop buffer i j = do {
     c \<leftarrow> rd buffer i;
     if c = nul then Some (buffer, j)
     else if schar c \<noteq> COLOR then
       (if strchr reject c = None then do { b \<leftarrow> wr buffer j c; squeeze_loop b (i + 1) (j + 1) }
        else squeeze_loop buffer (i + 1) j)
     else do { (b, i', j') \<leftarrow> color buffer i j; squeeze_loop b (i' + 1) j' } }"
  by pat_completeness auto
termination
  by (relation "measure (\<lambda>(b, i, j). length b - i)")
    (auto simp: rd_Some_iff wr_Some_iff dest!: color_mono)

declare squeeze_loop.simps [simp del]

definition squeeze_text_deco :: "string option \<Rightarrow> string option" where
  "squeeze_text_deco buffer =
     (case buffer of None \<Rightarrow> None
      | Some b \<Rightarrow> do {
          c \<leftarrow> rd b 0;
          if c = nul then Some b
          else do { (b', j) \<leftarrow> squeeze_loop b 0 0; wr b' j nul } })"

section \<open>What should be left\<close>

definition digit :: "char \<Rightarrow> bool" where
  "digit c \<longleftrightarrow> isdigit (code c)"

text \<open>A colour code has one or two digits, and again one or two behind a comma.\<close>

definition drop_digits :: "string \<Rightarrow> string" where
  "drop_digits s = (case s of c # d # t \<Rightarrow> if \<not> digit c then s else if digit d then t else d # t
     | [c] \<Rightarrow> if digit c then [] else s | [] \<Rightarrow> [])"

fun comma_digit :: "string \<Rightarrow> bool" where
  "comma_digit (c # d # s) \<longleftrightarrow> c = CHR '','' \<and> digit d"
| "comma_digit _ \<longleftrightarrow> False"

definition skip_color :: "string \<Rightarrow> string" where
  "skip_color s = (let r = drop_digits s in if r \<noteq> s \<and> comma_digit r then drop_digits (tl r) else r)"

definition decoration :: "char \<Rightarrow> bool" where
  "decoration c \<longleftrightarrow> schar c \<in> {BLINK, BOLD, NORMAL, REVERSE, UNDERLINE}"

lemma skip_color_shorter: "length (skip_color s) \<le> length s"
  by (auto simp: skip_color_def drop_digits_def Let_def split: list.splits)

function strip_deco :: "string \<Rightarrow> string" where
  "strip_deco [] = []"
| "strip_deco (c # s) =
     (if schar c = COLOR then strip_deco (skip_color s)
      else if decoration c then strip_deco s else c # strip_deco s)"
  by pat_completeness auto
termination by (relation "measure length") (auto simp: skip_color_shorter le_imp_less_Suc)

text \<open>
  A text is cut when it ends inside a colour code: nothing follows a code that does not have two
  digits behind the comma.
\<close>

definition code_cut :: "string \<Rightarrow> bool" where
  "code_cut s \<longleftrightarrow> (let r = drop_digits s in
     if r \<noteq> s \<and> comma_digit r then length r = 2 else r = [])"

function color_cut :: "string \<Rightarrow> bool" where
  "color_cut [] \<longleftrightarrow> False"
| "color_cut (c # s) \<longleftrightarrow>
     (if schar c = COLOR then code_cut s \<or> color_cut (skip_color s) else color_cut s)"
  by pat_completeness auto
termination by (relation "measure length") (auto simp: skip_color_shorter le_imp_less_Suc)

section \<open>Positions in the buffer\<close>

text \<open>\<open>w\<close> has been written, \<open>s\<close> is still to be read, \<open>rest\<close> is behind the text.\<close>

definition deco_pos :: "string \<Rightarrow> nat \<Rightarrow> nat \<Rightarrow> string \<Rightarrow> string \<Rightarrow> string \<Rightarrow> bool" where
  "deco_pos b i j w s rest \<longleftrightarrow> (\<exists>x. b = w @ x @ s @ nul # rest \<and> j = length w \<and> i = length w + length x)"

lemma pos_rd: "\<lbrakk>deco_pos b i j w s rest; k \<le> length s\<rbrakk> \<Longrightarrow> rd b (i + k) = Some ((s @ [nul]) ! k)"
  by (auto simp: deco_pos_def rd_def nth_append)

lemma pos_drop: "deco_pos b i j w (u @ s) rest \<Longrightarrow> deco_pos b (i + length u) j w s rest"
  unfolding deco_pos_def by (auto intro: exI [where x = "x @ u" for x])

lemma pos_Cons: "deco_pos b i j w (c # s) rest \<Longrightarrow> deco_pos b (Suc i) j w s rest"
  using pos_drop [of b i j w "[c]" s rest] by simp

lemma pos_put:
  assumes "deco_pos b i j w (c # s) rest"
  shows "\<exists>b'. wr b j c = Some b' \<and> deco_pos b' (Suc i) (Suc j) (w @ [c]) s rest"
proof -
  obtain x where x: "b = w @ x @ (c # s) @ nul # rest" "j = length w" "i = length w + length x"
    using assms unfolding deco_pos_def by blast
  have "(x @ c # s @ nul # rest)[0 := c] = c # tl (x @ [c]) @ s @ nul # rest"
    by (cases x) auto
  then have "wr b j c = Some ((w @ [c]) @ tl (x @ [c]) @ s @ nul # rest)"
    using x by (simp add: wr_def list_update_append)
  moreover have "deco_pos ((w @ [c]) @ tl (x @ [c]) @ s @ nul # rest) (Suc i) (Suc j) (w @ [c]) s rest"
    using x by (auto simp: deco_pos_def intro!: exI [where x = "tl (x @ [c])"])
  ultimately show ?thesis by blast
qed

lemma schar_eq: "\<lbrakk>0 \<le> n; n < 128\<rbrakk> \<Longrightarrow> schar c = n \<longleftrightarrow> c = char_of (nat n)"
proof
  assume n: "0 \<le> n" "n < 128" "schar c = n"
  then have "code c = nat n" using code_less [of c] by (auto simp: schar_def split: if_splits)
  then show "c = char_of (nat n)" by (metis char_of_char code_def)
next
  assume n: "0 \<le> n" "n < 128" "c = char_of (nat n)"
  then have "code c = nat n" by simp
  with n show "schar c = n" by (simp add: schar_def)
qed

lemma in_reject [simp]: "c \<in> set reject \<longleftrightarrow> decoration c"
  by (simp add: reject_def decoration_def deco_defs schar_eq)

definition advances :: "string \<Rightarrow> string \<Rightarrow> string \<Rightarrow> deco_state option \<Rightarrow> bool" where
  "advances w s rest r \<longleftrightarrow> (\<exists>b i j w' s'. r = Some (b, i, j) \<and> deco_pos b (Suc i) j w' s' rest \<and>
     w' @ strip_deco s' = w @ strip_deco s \<and> color_cut s' = color_cut s \<and> length s' \<le> length s \<and> set s' \<subseteq> set s)"

lemma advancesI:
  "\<lbrakk>r = Some (b, i, j); deco_pos b (Suc i) j w' s' rest; w' @ strip_deco s' = w @ strip_deco s;
    color_cut s' = color_cut s; length s' \<le> length s; set s' \<subseteq> set s\<rbrakk> \<Longrightarrow> advances w s rest r"
  unfolding advances_def by blast

lemma foo_advances:
  assumes p: "deco_pos b i j w (y # s) rest" and "y \<noteq> nul" "0 < i"
  shows "advances w (y # s) rest (handle_foo_situation b i j)"
proof -
  have r: "rd b i = Some y" using pos_rd [OF p, of 0] by simp
  consider "schar y = COLOR" | "schar y \<noteq> COLOR" "decoration y" | "schar y \<noteq> COLOR" "\<not> decoration y" by blast
  then show ?thesis
  proof cases
    case 1
    then show ?thesis
      by (intro advancesI [where w' = w and s' = "y # s" and b = b and i = "i - 1" and j = j])
        (use r assms in \<open>simp_all add: handle_foo_situation_def\<close>)
  next
    case 2
    then show ?thesis
      by (intro advancesI [where w' = w and s' = s and b = b and i = i and j = j])
        (use r assms pos_Cons [OF p] in \<open>auto simp: handle_foo_situation_def\<close>)
  next
    case 3
    obtain b' where b': "wr b j y = Some b'" "deco_pos b' (Suc i) (Suc j) (w @ [y]) s rest"
      using pos_put [OF p] by blast
    show ?thesis
      by (intro advancesI [OF _ b'(2)]) (use r 3 b'(1) assms in \<open>auto simp: handle_foo_situation_def\<close>)
  qed
qed

lemma foo_end: "deco_pos b i j w [] rest \<Longrightarrow> handle_foo_situation b i j = Some (b, i, j)"
  using pos_rd [of b i j w "[]" rest 0] by (simp add: handle_foo_situation_def)


text \<open>One colour code: the position comes to the end of the text, or the rest is as it should be.\<close>

lemma digit_iff: "sw_isdigit (schar c) = digit c"
  by (simp add: digit_def sw_class_char)

lemma not_digit [simp]: "\<not> digit nul" "\<not> digit (CHR '','')"
  by (simp_all add: digit_def nul_def code_def isdigit_def)

lemma drop_digits_simps [simp]:
  "drop_digits [] = []" "\<not> digit c \<Longrightarrow> drop_digits (c # s) = c # s"
  "digit c \<Longrightarrow> \<not> digit d \<Longrightarrow> drop_digits (c # d # s) = d # s"
  "digit c \<Longrightarrow> digit d \<Longrightarrow> drop_digits (c # d # s) = s"
  "digit c \<Longrightarrow> drop_digits [c] = []"
  by (auto simp: drop_digits_def split: list.splits)

definition color_step :: "string \<Rightarrow> string \<Rightarrow> string \<Rightarrow> deco_state option \<Rightarrow> bool" where
  "color_step w s rest r \<longleftrightarrow>
     (if code_cut s then \<exists>b i j. r = Some (b, i, j) \<and> deco_pos b i j w [] rest
      else advances w (skip_color s) rest r)"

lemmas check_defs = check1_def check2_def check3_def check4_def check5_def stop_with_def digit_iff

lemma comma_nul [simp]: "CHR '','' \<noteq> nul" "nul \<noteq> CHR '',''"
  by (simp_all add: nul_def)

lemma pos_at: "deco_pos b i j w (c # s) rest \<Longrightarrow> rd b i = Some c" "deco_pos b i j w [] rest \<Longrightarrow> rd b i = Some nul"
  using pos_rd [of b i j w "c # s" rest 0] pos_rd [of b i j w "[]" rest 0] by simp_all

lemma snd_stop [simp]: "map_option snd (map_option (Pair c) r) = r"
  by (cases r) auto

lemma bind_stop [simp]:
  "map_option (\<lambda>st. (STOP_INTERPRETING, st, h)) r \<bind>
     (\<lambda>(r, (b, i, j), h). if r \<noteq> GO_ON then Some (b, i, j) else f r b i j h) = r"
  "map_option (Pair STOP_INTERPRETING) r \<bind> (\<lambda>(r, b, i, j). if r \<noteq> GO_ON then Some (b, i, j) else g r b i j) = r"
  by (cases r; auto)+

text \<open>Behind the comma of a code.\<close>

lemma color_comma_ok:
  assumes p: "deco_pos b i j w (CHR '','' # s) rest" and n: "nul \<notin> set s" "0 < i" "digit c"
  shows "color_step w (c # CHR '','' # s) rest (color_comma b i j)"
proof -
  note p1 = pos_Cons [OF p]
  consider "s = []" | d t where "s = d # t" "\<not> digit d" | d where "s = [d]" "digit d"
    | d e t where "s = d # e # t" "digit d" "digit e" | d e t where "s = d # e # t" "digit d" "\<not> digit e"
    by (metis list.exhaust)
  then show ?thesis
  proof cases
    case 1
    then have "color_comma b i j = handle_foo_situation b i j"
      using pos_at(1) [OF p] pos_at(2) [of b "Suc i" j w rest] p1 by (simp add: color_comma_def check_defs)
    then show ?thesis using foo_advances [OF p] n 1
      by (auto simp: color_step_def code_cut_def skip_color_def)
  next
    case 2
    then have "color_comma b i j = handle_foo_situation b i j"
      using pos_at(1) [OF p] pos_at(1) [of b "Suc i" j w d t rest] p1 by (simp add: color_comma_def check_defs)
    then show ?thesis using foo_advances [OF p] n 2
      by (auto simp: color_step_def code_cut_def skip_color_def)
  next
    case 3
    note p1 = p1 [unfolded 3] note p2 = pos_Cons [OF p1]
    have "color_comma b i j = Some (b, Suc (Suc i), j)"
      using pos_at(1) [OF p] pos_at(1) [OF p1] pos_at(2) [OF p2] foo_end [OF p2] 3 n
      by (auto simp: color_comma_def check_defs)
    then show ?thesis using p2 n 3 by (simp add: color_step_def code_cut_def skip_color_def)
  next
    case 4
    note p1 = p1 [unfolded 4] note p2 = pos_Cons [OF p1]
    have "color_comma b i j = Some (b, Suc (Suc i), j)"
      using pos_at(1) [OF p] pos_at(1) [OF p1] pos_at(1) [OF p2] 4 n
      by (auto simp: color_comma_def check_defs)
    then show ?thesis using pos_Cons [OF p2] n 4
      by (auto simp: color_step_def code_cut_def skip_color_def intro!: advancesI)
  next
    case 5
    note p1 = p1 [unfolded 5] note p2 = pos_Cons [OF p1]
    have "color_comma b i j = handle_foo_situation b (Suc (Suc i)) j"
      using pos_at(1) [OF p] pos_at(1) [OF p1] pos_at(1) [OF p2] 5 n
      by (auto simp: color_comma_def check_defs)
    then show ?thesis using foo_advances [OF p2] n 5
      by (auto simp: color_step_def code_cut_def skip_color_def)
  qed
qed

lemma color_digit_ok:
  assumes p: "deco_pos b i j w (z # s) rest" and n: "nul \<notin> set s" "0 < i" "digit c" "digit z"
  shows "color_step w (c # z # s) rest (color_comma b i j)"
proof -
  note p1 = pos_Cons [OF p]
  have z: "z \<noteq> CHR '',''" using n by auto
  consider "s = []" | q t where "s = q # t" "q \<noteq> CHR '',''" | "s = [CHR '','']"
    | d t where "s = CHR '','' # d # t" "\<not> digit d" | d where "s = [CHR '','', d]" "digit d"
    | d e t where "s = CHR '','' # d # e # t" "digit d" "digit e"
    | d e t where "s = CHR '','' # d # e # t" "digit d" "\<not> digit e"
    by (metis list.exhaust)
  then show ?thesis
  proof cases
    case 1
    note p1 = p1 [unfolded 1]
    show ?thesis using pos_at(1) [OF p] pos_at(2) [OF p1] foo_end [OF p1] p1 n z 1
      by (simp add: color_comma_def check_defs color_step_def code_cut_def)
  next
    case 2
    note p1 = p1 [unfolded 2(1)]
    have "color_comma b i j = handle_foo_situation b (Suc i) j"
      using pos_at(1) [OF p] pos_at(1) [OF p1] 2 z by (simp add: color_comma_def check_defs)
    moreover have "\<not> comma_digit s" using 2 by (cases t) auto
    ultimately show ?thesis using foo_advances [OF p1] n 2
      by (auto simp: color_step_def code_cut_def skip_color_def)
  next
    case 3
    note p1 = p1 [unfolded 3] note p2 = pos_Cons [OF p1]
    have "color_comma b i j = handle_foo_situation b (Suc i) j"
      using pos_at(1) [OF p] pos_at(1) [OF p1] pos_at(2) [OF p2] z by (simp add: color_comma_def check_defs)
    then show ?thesis using foo_advances [OF p1] n 3
      by (auto simp: color_step_def code_cut_def skip_color_def)
  next
    case 4
    note p1 = p1 [unfolded 4(1)] note p2 = pos_Cons [OF p1]
    have "color_comma b i j = handle_foo_situation b (Suc i) j"
      using pos_at(1) [OF p] pos_at(1) [OF p1] pos_at(1) [OF p2] z 4 by (simp add: color_comma_def check_defs)
    then show ?thesis using foo_advances [OF p1] n 4
      by (auto simp: color_step_def code_cut_def skip_color_def)
  next
    case 5
    note p1 = p1 [unfolded 5(1)] note p2 = pos_Cons [OF p1] note p3 = pos_Cons [OF p2]
    have "color_comma b i j = Some (b, Suc (Suc (Suc i)), j)"
      using pos_at(1) [OF p] pos_at(1) [OF p1] pos_at(1) [OF p2] pos_at(2) [OF p3] foo_end [OF p3] z 5
      by (simp add: color_comma_def check_defs)
    then show ?thesis using p3 n 5 by (simp add: color_step_def code_cut_def skip_color_def)
  next
    case 6
    note p1 = p1 [unfolded 6(1)] note p2 = pos_Cons [OF p1] note p3 = pos_Cons [OF p2]
    have "color_comma b i j = Some (b, Suc (Suc (Suc i)), j)"
      using pos_at(1) [OF p] pos_at(1) [OF p1] pos_at(1) [OF p2] pos_at(1) [OF p3] z 6
      by (simp add: color_comma_def check_defs)
    then show ?thesis using pos_Cons [OF p3] n 6
      by (auto simp: color_step_def code_cut_def skip_color_def intro!: advancesI)
  next
    case 7
    note p1 = p1 [unfolded 7(1)] note p2 = pos_Cons [OF p1] note p3 = pos_Cons [OF p2]
    have "color_comma b i j = handle_foo_situation b (Suc (Suc (Suc i))) j"
      using pos_at(1) [OF p] pos_at(1) [OF p1] pos_at(1) [OF p2] pos_at(1) [OF p3] z 7
      by (simp add: color_comma_def check_defs)
    then show ?thesis using foo_advances [OF p3] n 7
      by (auto simp: color_step_def code_cut_def skip_color_def)
  qed
qed

lemma color_ok:
  assumes p: "deco_pos b i j w (k # s) rest" and n: "nul \<notin> set s"
  shows "color_step w s rest (color b i j)"
proof -
  note p1 = pos_Cons [OF p]
  consider "s = []" | c t where "s = c # t" "\<not> digit c" | c where "s = [c]" "digit c"
    | c z t where "s = c # z # t" "digit c" "\<not> digit z" "z \<noteq> CHR '',''"
    | c t where "s = c # CHR '','' # t" "digit c" | c z t where "s = c # z # t" "digit c" "digit z"
    by (metis list.exhaust)
  then show ?thesis
  proof cases
    case 1
    note p1 = p1 [unfolded 1]
    show ?thesis using pos_at(2) [OF p1] foo_end [OF p1] p1 1
      by (simp add: color_def check_defs color_step_def code_cut_def)
  next
    case 2
    note p1 = p1 [unfolded 2(1)]
    have "color b i j = handle_foo_situation b (Suc i) j"
      using pos_at(1) [OF p1] 2 by (simp add: color_def check_defs)
    then show ?thesis using foo_advances [OF p1] n 2
      by (auto simp: color_step_def code_cut_def skip_color_def)
  next
    case 3
    note p1 = p1 [unfolded 3(1)] note p2 = pos_Cons [OF p1]
    have "color b i j = Some (b, Suc (Suc i), j)"
      using pos_at(1) [OF p1] pos_at(2) [OF p2] foo_end [OF p2] 3 by (simp add: color_def check_defs)
    then show ?thesis using p2 3 by (simp add: color_step_def code_cut_def)
  next
    case 4
    note p1 = p1 [unfolded 4(1)] note p2 = pos_Cons [OF p1]
    have "color b i j = handle_foo_situation b (Suc (Suc i)) j"
      using pos_at(1) [OF p1] pos_at(1) [OF p2] 4 by (simp add: color_def check_defs)
    moreover have "\<not> comma_digit (z # t)" using 4 by (cases t) auto
    ultimately show ?thesis using foo_advances [OF p2] n 4
      by (auto simp: color_step_def code_cut_def skip_color_def)
  next
    case 5
    note p1 = p1 [unfolded 5(1)] note p2 = pos_Cons [OF p1]
    have "color b i j = color_comma b (Suc (Suc i)) j"
      using pos_at(1) [OF p1] pos_at(1) [OF p2] 5 by (simp add: color_def check_defs)
    then show ?thesis using color_comma_ok [OF p2] n 5 by simp
  next
    case 6
    note p1 = p1 [unfolded 6(1)] note p2 = pos_Cons [OF p1]
    have "color b i j = color_comma b (Suc (Suc i)) j"
      using pos_at(1) [OF p1] pos_at(1) [OF p2] 6 by (simp add: color_def check_defs)
    then show ?thesis using color_digit_ok [OF p2] n 6 by simp
  qed
qed

section \<open>The loop\<close>

lemma comma_digitE: "comma_digit r \<Longrightarrow> \<exists>d t. r = CHR '','' # d # t \<and> digit d"
  by (cases r rule: comma_digit.cases) auto

lemma code_cut_skip: "code_cut s \<Longrightarrow> skip_color s = []"
  by (auto simp: code_cut_def skip_color_def Let_def length_Suc_conv dest!: comma_digitE split: if_splits)

lemma set_drop_digits: "set (drop_digits s) \<subseteq> set s"
  by (cases s rule: comma_digit.cases) (auto simp: drop_digits_def)

lemma set_skip_color: "set (skip_color s) \<subseteq> set s"
proof -
  have "set (tl r) \<subseteq> set r" for r :: string by (cases r) auto
  then show ?thesis
    using set_drop_digits [of s] set_drop_digits [of "tl (drop_digits s)"]
    by (simp add: skip_color_def Let_def) blast
qed

lemma pos_length: "deco_pos b i j w s rest \<Longrightarrow> j = length w"
  by (auto simp: deco_pos_def)

lemma squeeze_loop_at_nul: "deco_pos b i j w [] rest \<Longrightarrow> squeeze_loop b i j = Some (b, j)"
  by (subst squeeze_loop.simps) (simp add: pos_at)

text \<open>One character behind the end of a cut text the loop goes on in what is behind the text.\<close>

lemma squeeze_loop_ok:
  assumes "deco_pos b i j w s rest" "nul \<notin> set s"
  shows "\<exists>b' i' w'. squeeze_loop b i j = (if color_cut s then squeeze_loop b' (Suc i') (length w') else Some (b', length w'))
    \<and> deco_pos b' i' (length w') w' [] rest \<and> w' = w @ strip_deco s"
  using assms
proof (induction "length s" arbitrary: b i j w s rule: less_induct)
  case less
  note p = less.prems(1)
  show ?case
  proof (cases s)
    case Nil
    then show ?thesis using squeeze_loop_at_nul [of b i j w rest] p by (auto simp: deco_pos_def)
  next
    case (Cons c t)
    note pc = p [unfolded Cons]
    have r: "rd b i = Some c" "c \<noteq> nul" using pos_at(1) [OF pc] less.prems Cons by auto
    consider "schar c = COLOR" "code_cut t" | "schar c = COLOR" "\<not> code_cut t"
      | "schar c \<noteq> COLOR" "decoration c" | "schar c \<noteq> COLOR" "\<not> decoration c" by blast
    then show ?thesis
    proof cases
      case 1
      then obtain b' i' where "color b i j = Some (b', i', length w)" "deco_pos b' i' (length w) w [] rest"
        using color_ok [OF pc] less.prems Cons 1 unfolding color_step_def by (auto dest: pos_length)
      moreover from this have "squeeze_loop b i j = squeeze_loop b' (Suc i') (length w)"
        using r 1 by (subst squeeze_loop.simps) simp
      ultimately show ?thesis using 1 Cons code_cut_skip [of t] pos_length [OF p] by auto
    next
      case 2
      then have "advances w (skip_color t) rest (color b i j)"
        using color_ok [OF pc] less.prems Cons by (simp add: color_step_def)
      then obtain b' i' j' w' s' where a: "color b i j = Some (b', i', j')" "deco_pos b' (Suc i') j' w' s' rest"
        "w' @ strip_deco s' = w @ strip_deco s" "color_cut s' = color_cut s" "length s' < length s" "nul \<notin> set s'"
        using 2 Cons less.prems skip_color_shorter [of t] set_skip_color [of t] unfolding advances_def by fastforce
      then have "squeeze_loop b i j = squeeze_loop b' (Suc i') j'"
        using r 2 by (subst squeeze_loop.simps) simp
      then show ?thesis using less.hyps [OF a(5) a(2) a(6)] a by simp
    next
      case 3
      then have "squeeze_loop b i j = squeeze_loop b (Suc i) j"
        using r by (subst squeeze_loop.simps) simp
      then show ?thesis using less.hyps [OF _ pos_Cons [OF pc]] less.prems Cons 3 by simp
    next
      case 4
      obtain b' where b': "wr b j c = Some b'" "deco_pos b' (Suc i) (Suc j) (w @ [c]) t rest"
        using pos_put [OF pc] by blast
      then have "squeeze_loop b i j = squeeze_loop b' (Suc i) (Suc j)"
        using r 4 by (subst squeeze_loop.simps) simp
      then show ?thesis using less.hyps [OF _ b'(2)] less.prems Cons 4 by simp
    qed
  qed
qed

lemma squeeze_behind:
  assumes "deco_pos b i (length w) w [] rest"
  shows "rest = [] \<Longrightarrow> squeeze_loop b (Suc i) (length w) = None"
    and "rest = nul # r \<Longrightarrow> squeeze_loop b (Suc i) (length w) = Some (b, length w)"
proof -
  obtain x where "b = (w @ x @ [nul]) @ rest" "Suc i = length (w @ x @ [nul])"
    using assms by (auto simp: deco_pos_def)
  then have "rd b (Suc i) = rd rest 0" using rd_append_right [of "w @ x @ [nul]" rest 0] by simp
  then show "rest = [] \<Longrightarrow> squeeze_loop b (Suc i) (length w) = None"
    "rest = nul # r \<Longrightarrow> squeeze_loop b (Suc i) (length w) = Some (b, length w)"
    by (subst squeeze_loop.simps; simp add: rd_def)+
qed

section \<open>Wide characters\<close>

text \<open>
  The conversions of the C library are parameters; they get the largest number of octets or of
  characters that may be written.  The buffers of the function are zeroed.
\<close>

record wcs_env =
  wcstombs :: "int list \<Rightarrow> nat \<Rightarrow> string option"
  mbstowcs :: "string \<Rightarrow> nat \<Rightarrow> int list option"

definition MBS_SIZE :: nat where "MBS_SIZE = 6144"
definition TMP_SIZE :: nat where "TMP_SIZE = 4096"

definition store_mbs :: "wcs_env \<Rightarrow> int list \<Rightarrow> string option" where
  "store_mbs env wcs =
     (let MAXBYTES = MBS_SIZE - 1 in case wcstombs env wcs MAXBYTES of
        None \<Rightarrow> None
      | Some bytes \<Rightarrow> Some ((bytes @ replicate (MBS_SIZE - length bytes) nul)[MAXBYTES := nul]))"

definition store_tmp :: "wcs_env \<Rightarrow> string \<Rightarrow> int list option" where
  "store_tmp env mbs = map_option (take (TMP_SIZE - 1)) (mbstowcs env mbs (TMP_SIZE - 1))"

definition c_str :: "string \<Rightarrow> string" where
  "c_str b = takeWhile (\<lambda>c. c \<noteq> nul) b"

definition squeeze_text_deco_wide :: "wcs_env \<Rightarrow> int list option \<Rightarrow> int list option" where
  "squeeze_text_deco_wide env buffer =
     (case buffer of None \<Rightarrow> None
      | Some buf \<Rightarrow>
          if buf = [] then Some buf
          else case store_mbs env buf of
            None \<Rightarrow> Some buf
          | Some mbs \<Rightarrow> do {
              mbs \<leftarrow> squeeze_text_deco (Some mbs);
              (case store_tmp env (c_str mbs) of
                 None \<Rightarrow> Some buf
               | Some tmp \<Rightarrow> Some (take (if length tmp < length buf then length tmp else length buf) tmp)) })"

lemma set_strip_deco: "set (strip_deco s) \<subseteq> set s"
  by (induction s rule: strip_deco.induct) (auto split: if_splits dest: subsetD [OF set_skip_color])

lemma text_deco_squeezed:
  assumes "nul \<notin> set s" "\<not> color_cut s \<or> (\<exists>r. rest = nul # r)"
  shows "\<exists>t. squeeze_text_deco (Some (s @ nul # rest)) = Some (strip_deco s @ nul # t)"
proof (cases "s = []")
  case False
  have p: "deco_pos (s @ nul # rest) 0 0 [] s rest" by (simp add: deco_pos_def)
  obtain b' i' where "squeeze_loop (s @ nul # rest) 0 0 =
      (if color_cut s then squeeze_loop b' (Suc i') (length (strip_deco s)) else Some (b', length (strip_deco s)))"
    and b': "deco_pos b' i' (length (strip_deco s)) (strip_deco s) [] rest"
    using squeeze_loop_ok [OF p assms(1)] by auto
  then have "squeeze_loop (s @ nul # rest) 0 0 = Some (b', length (strip_deco s))"
    using squeeze_behind(2) [OF b'] assms(2) by auto
  moreover obtain x where "b' = strip_deco s @ x @ nul # rest" using b' by (auto simp: deco_pos_def)
  ultimately show ?thesis using False assms(1)
    by (cases s; cases x) (auto simp: squeeze_text_deco_def rd_def wr_def list_update_append)
qed (simp add: squeeze_text_deco_def)
text \<open>
  With room for a NUL behind the octets the wide version never leaves its buffers, also for a
  text that ends inside a colour code.
\<close>

lemma squeeze_text_deco_wide_correct:
  assumes c: "wcstombs env wcs 6143 = Some bytes" "nul \<notin> set bytes" "length bytes < 6143" "wcs \<noteq> []"
    and m: "mbstowcs env (strip_deco bytes) 4095 = Some w" "length w \<le> length wcs" "length w \<le> 4095"
  shows "squeeze_text_deco_wide env (Some wcs) = Some w"
proof -
  let ?b = "bytes @ replicate (6144 - length bytes) nul"
  obtain n where n: "6144 - length bytes = Suc (Suc n)"
    using c(3) by (intro that [of "6142 - length bytes"]) simp
  have "?b[6143 := nul] = ?b"
    using c(3) by (subst list_update_same_conv) (auto simp: nth_append)
  then have 1: "store_mbs env wcs = Some (bytes @ nul # nul # replicate n nul)"
    using c(1) n by (simp add: store_mbs_def MBS_SIZE_def)
  obtain t where t: "squeeze_text_deco (Some (bytes @ nul # nul # replicate n nul)) = Some (strip_deco bytes @ nul # t)"
    using text_deco_squeezed [OF c(2), of "nul # replicate n nul"] by auto
  have "nul \<notin> set (strip_deco bytes)" using set_strip_deco [of bytes] c(2) by blast
  then have "c_str (strip_deco bytes @ nul # t) = strip_deco bytes"
    unfolding c_str_def by (intro takeWhile_append_stop) auto
  then show ?thesis using 1 t m c(4)
    by (simp add: squeeze_text_deco_wide_def store_tmp_def TMP_SIZE_def)
qed

text \<open>
  Property C28.  Text decoration is removed from a text exactly: the decoration characters go, a
  colour code goes with its one or two digits and, behind a comma, its second one or two digits,
  and nothing else does.  The exception is a text that ends inside a colour code: there the
  loop steps over the terminating NUL and goes on in the memory behind the text.  When the text
  fills its object this is an access outside of it; when another NUL follows, as in the zeroed
  buffer that \<^verbatim>\<open>squeeze_text_deco_wide\<close> uses, the result is right.
\<close>

theorem text_deco_removed:
  assumes "nul \<notin> set s"
  shows "(squeeze_text_deco (Some (s @ [nul])) = None \<longleftrightarrow> color_cut s) \<and>
    (\<not> color_cut s \<or> (\<exists>r. rest = nul # r) \<longrightarrow>
      (\<exists>t. squeeze_text_deco (Some (s @ nul # rest)) = Some (strip_deco s @ nul # t))) \<and>
    (\<forall>c\<in>set (strip_deco s). schar c \<noteq> COLOR \<and> \<not> decoration c)"
proof -
  have p: "deco_pos (s @ nul # rest) 0 0 [] s rest" for rest by (simp add: deco_pos_def)
  have none: "squeeze_text_deco (Some (s @ [nul])) = None \<longleftrightarrow> color_cut s"
  proof (cases "s = []")
    case False
    then have "squeeze_text_deco (Some (s @ [nul])) =
        do { (b', j) \<leftarrow> squeeze_loop (s @ [nul]) 0 0; wr b' j nul }"
      using assms by (cases s) (auto simp: squeeze_text_deco_def rd_def)
    moreover obtain b' i' where "squeeze_loop (s @ [nul]) 0 0 =
        (if color_cut s then squeeze_loop b' (Suc i') (length (strip_deco s)) else Some (b', length (strip_deco s)))"
      and b': "deco_pos b' i' (length (strip_deco s)) (strip_deco s) [] []"
      using squeeze_loop_ok [OF p [of "[]"] assms] by auto
    moreover have "length (strip_deco s) < length b'" using b' by (auto simp: deco_pos_def)
    ultimately show ?thesis using squeeze_behind(1) [OF b'] by simp
  qed (simp add: squeeze_text_deco_def)
  have "schar c \<noteq> COLOR \<and> \<not> decoration c" if "c \<in> set (strip_deco s)" for c
    using that by (induction s rule: strip_deco.induct) (auto split: if_splits)
  with none text_deco_squeezed [OF assms] show ?thesis by blast
qed

theorem text_deco_removed_witness:
  "(let s = [CHR 0x02] @ ''a'' @ [CHR 0x03] @ ''04,12b'' @ [CHR 0x03] @ ''5,c''
    in squeeze_text_deco (Some (s @ [nul])) \<noteq> None \<and> strip_deco s = ''ab,c'') \<and>
   squeeze_text_deco (Some (''bye'' @ [CHR 0x03] @ ''1'' @ [nul])) = None"
proof -
  let ?s = "[CHR 0x02] @ ''a'' @ [CHR 0x03] @ ''04,12b'' @ [CHR 0x03] @ ''5,c''"
  let ?u = "''bye'' @ [CHR 0x03] @ ''1''"
  have s: "nul \<notin> set ?s" "nul \<notin> set ?u" by (simp_all add: nul_def)
  have e: "\<not> color_cut ?s" "strip_deco ?s = ''ab,c''" "color_cut ?u"
    by (simp_all add: skip_color_def drop_digits_def code_cut_def decoration_def
      digit_def isdigit_def schar_def code_def deco_defs)
  have "squeeze_text_deco (Some (?s @ [nul])) \<noteq> None" "squeeze_text_deco (Some (?u @ [nul])) = None"
    using text_deco_removed [OF s(1), of "[]"] text_deco_removed [OF s(2), of "[]"] e by blast+
  then show ?thesis using e(2) unfolding Let_def append_assoc by blast
qed

end
