(* ===== verification/Readline.thy ===== *)
theory Readline
  imports Lib_Utils Data_Classify Text_Deco
begin

text \<open>
  The line editor: \<^verbatim>\<open>src/src/readline.c\<close> and \<^verbatim>\<open>src/src/readlineAPI.c\<close>.

  A session is a buffer of 2001 wide characters, two positions in it, two flags and the column of
  the cursor on the active panel.  What the panels show is not modelled, only where the cursor is
  and which calls of the curses library fail: these are the parameters of an environment.  A
  failing call prints a message and leaves the session by \<^verbatim>\<open>longjmp\<close> (\<^verbatim>\<open>Restart\<close>); an access
  outside the buffer is \<^verbatim>\<open>Bad_access\<close>.  The keys and the loop over them are in the theory
  Readline_Loop.
\<close>

section \<open>Results\<close>

datatype rl_error = Restart | Bad_access | Abort

type_synonym 'a rl = "rl_error + 'a"

definition rl_then :: "'a rl \<Rightarrow> ('a \<Rightarrow> 'b rl) \<Rightarrow> 'b rl" where
  "rl_then m f = (case m of Inl e \<Rightarrow> Inl e | Inr x \<Rightarrow> f x)"

definition mem :: "'a option \<Rightarrow> 'a rl" where
  "mem r = (case r of None \<Rightarrow> Inl Bad_access | Some x \<Rightarrow> Inr x)"

lemma rl_then_simps [simp]: "rl_then (Inr x) f = f x" "rl_then (Inl e) f = Inl e"
  by (simp_all add: rl_then_def)

lemma mem_simps [simp]: "mem (Some x) = Inr x" "mem None = Inl Bad_access"
  by (simp_all add: mem_def)

section \<open>State\<close>

text \<open>The kinds of completion, the members of \<^verbatim>\<open>isInCirculationModeFor\<close>.\<close>

datatype tab_mode = ChanUsers | Cmds | Connect | Cs | Dcc | Deop | Devoice | Ftp | Help | Kick
  | Kickban | Log | Mode | Msg | Notice | Ns | Op | Query | Sasl | Settings | Squery | Theme | Time
  | Version | Voice | Whois | ZncCmds

text \<open>The list of matches, and the position in it of the element that was used last.\<close>

record tab_completion =
  search_var :: string
  isInCirculationModeFor :: "tab_mode \<Rightarrow> bool"
  matches :: "string list option"
  elmt :: nat

datatype rl_active_panel = PANEL1_ACTIVE | PANEL2_ACTIVE

record rl_session =
  tc :: tab_completion
  insert_mode :: bool
  no_bufspc :: bool
  bufpos :: int
  numins :: int
  prompt_size :: int
  vispos :: int
  buffer :: "int list"
  panel_state :: rl_active_panel
  curx :: int
  g_suggs_mode :: bool

text \<open>
  The environment: the width of the screen; the column behind the prompt; whether the cursor can
  be moved to a column, a character added or inserted at a column; the columns that an added
  character takes; whether a character has a multibyte representation.
\<close>

record rl_env =
  COLS :: int
  prompt_cols :: int
  wmove_ok :: "int \<Rightarrow> bool"
  add_ok :: "int \<Rightarrow> int \<Rightarrow> bool"
  ins_ok :: "int \<Rightarrow> int \<Rightarrow> bool"
  cell_width :: "int \<Rightarrow> int"
  conv_ok :: "int \<Rightarrow> bool"

definition FWLEN :: int where "FWLEN = 2"
definition g_readline_bufsize :: int where "g_readline_bufsize = 2000"

section \<open>Characters\<close>

definition is_text_decoration :: "int \<Rightarrow> bool" where
  "is_text_decoration wc \<longleftrightarrow> wc = BLINK \<or> wc = BOLD \<or> wc = COLOR \<or> wc = NORMAL \<or> wc = REVERSE \<or> wc = UNDERLINE"

definition readline_wcwidth :: "int \<Rightarrow> int \<Rightarrow> int" where
  "readline_wcwidth wc fwlen = (if is_text_decoration wc then 1 else xwcwidth wc fwlen)"

text \<open>\<^verbatim>\<open>unsigned int width\<close> is returned as an \<^verbatim>\<open>int\<close>.\<close>

fun wcswidth_loop :: "int list \<Rightarrow> int \<Rightarrow> 32 word \<Rightarrow> 32 word" where
  "wcswidth_loop [] fwlen width = width"
| "wcswidth_loop (c # cs) fwlen width = wcswidth_loop cs fwlen (width + word_of_int (readline_wcwidth c fwlen))"

definition readline_wcswidth :: "int list \<Rightarrow> int \<Rightarrow> int" where
  "readline_wcswidth str fwlen = sint (wcswidth_loop str fwlen 0)"

section \<open>Memory\<close>

definition rdi :: "int list \<Rightarrow> int \<Rightarrow> int option" where
  "rdi b i = (if 0 \<le> i then rd b (nat i) else None)"

definition wri :: "int list \<Rightarrow> int \<Rightarrow> int \<Rightarrow> int list option" where
  "wri b i c = (if 0 \<le> i then wr b (nat i) c else None)"

text \<open>The string at a position: it must end inside the buffer.\<close>

definition wcs_at :: "int list \<Rightarrow> int \<Rightarrow> int list option" where
  "wcs_at b i = (if 0 \<le> i \<and> 0 \<in> set (drop (nat i) b) then Some (takeWhile (\<lambda>c. c \<noteq> 0) (drop (nat i) b)) else None)"

definition wmemmove :: "int list \<Rightarrow> int \<Rightarrow> int \<Rightarrow> nat \<Rightarrow> int list option" where
  "wmemmove b dst src n =
     (if 0 \<le> dst \<and> 0 \<le> src \<and> nat dst + n \<le> length b \<and> nat src + n \<le> length b
      then Some (take (nat dst) b @ take n (drop (nat src) b) @ drop (nat dst + n) b) else None)"

section \<open>The panels\<close>

definition readline_waddch :: "rl_env \<Rightarrow> int \<Rightarrow> rl_session \<Rightarrow> rl_session rl" where
  "readline_waddch env wc s =
     (if \<not> conv_ok env wc then Inl Restart
      else if \<not> is_text_decoration wc then
        (if add_ok env (curx s) wc then Inr (s\<lparr>curx := curx s + cell_width env wc\<rparr>) else Inl Restart)
      else Inr (if add_ok env (curx s) wc then s\<lparr>curx := curx s + 1\<rparr> else s))"

fun waddch_all :: "rl_env \<Rightarrow> int list \<Rightarrow> rl_session \<Rightarrow> rl_session rl" where
  "waddch_all env [] s = Inr s"
| "waddch_all env (c # cs) s = rl_then (readline_waddch env c s) (waddch_all env cs)"

definition readline_waddnstr :: "rl_env \<Rightarrow> int list \<Rightarrow> int \<Rightarrow> rl_session \<Rightarrow> rl_session rl" where
  "readline_waddnstr env str n s =
     (let i = (if n \<le> 0 \<or> n > int (length str) then int (length str) else n)
      in waddch_all env (take (nat i) str) s)"

definition readline_winsch :: "rl_env \<Rightarrow> int \<Rightarrow> rl_session \<Rightarrow> rl_session rl" where
  "readline_winsch env wc s =
     (if \<not> conv_ok env wc then Inl Restart
      else if \<not> is_text_decoration wc then (if ins_ok env (curx s) wc then Inr s else Inl Restart)
      else Inr s)"

fun winsch_all :: "rl_env \<Rightarrow> int list \<Rightarrow> rl_session \<Rightarrow> rl_session rl" where
  "winsch_all env [] s = Inr s"
| "winsch_all env (c # cs) s = rl_then (readline_winsch env c s) (winsch_all env cs)"

definition readline_winsnstr :: "rl_env \<Rightarrow> int list \<Rightarrow> int \<Rightarrow> rl_session \<Rightarrow> rl_session rl" where
  "readline_winsnstr env str n s =
     (let i = (if n \<le> 0 \<or> n > int (length str) then int (length str) else n)
      in winsch_all env (rev (take (nat i) str)) s)"

definition wmove_to :: "rl_env \<Rightarrow> int \<Rightarrow> rl_session \<Rightarrow> rl_session rl" where
  "wmove_to env x s = (if wmove_ok env x then Inr (s\<lparr>curx := x\<rparr>) else Inl Restart)"

definition loLim_isset :: "rl_session \<Rightarrow> bool" where
  "loLim_isset s \<longleftrightarrow> curx s \<le> prompt_size s"

definition hiLim_isset :: "rl_env \<Rightarrow> rl_session \<Rightarrow> bool" where
  "hiLim_isset env s \<longleftrightarrow> curx s \<ge> COLS env - 1"

definition write_cmdprompt :: "rl_env \<Rightarrow> rl_session \<Rightarrow> rl_session" where
  "write_cmdprompt env s = s\<lparr>curx := prompt_cols env\<rparr>"

text \<open>The characters are those before the cursor, from the cursor backwards.\<close>

fun subtrahend_loop :: "int list \<Rightarrow> int \<Rightarrow> int \<Rightarrow> int \<Rightarrow> int" where
  "subtrahend_loop [] diff i j = j"
| "subtrahend_loop (c # cs) diff i j =
     (if i < diff then subtrahend_loop cs diff (i + readline_wcwidth c FWLEN) (j + 1) else j)"

definition get_subtrahend :: "rl_session \<Rightarrow> int \<Rightarrow> int" where
  "get_subtrahend s diff = subtrahend_loop (rev (take (nat (bufpos s)) (buffer s))) diff 0 0"

definition new_entry_index :: "rl_env \<Rightarrow> bool \<Rightarrow> rl_session \<Rightarrow> int rl" where
  "new_entry_index env fwd s =
     (if fwd then
        (case int_diff (bufpos s) (get_subtrahend s (COLS env div 2)) of
           None \<Rightarrow> Inl Abort
         | Some bufindex \<Rightarrow> if bufindex < 0 then Inl Restart else Inr bufindex)
      else
        (case int_diff (COLS env div 2) (prompt_size s) of
           None \<Rightarrow> Inl Abort
         | Some diff \<Rightarrow>
             (case int_diff (bufpos s) (get_subtrahend s diff) of
                None \<Rightarrow> Inl Abort
              | Some bufindex \<Rightarrow> Inr (if bufindex < 0 then 0 else bufindex))))"

definition compute_new_window_entry :: "rl_env \<Rightarrow> bool \<Rightarrow> rl_session \<Rightarrow> rl_session rl" where
  "compute_new_window_entry env fwd s =
     rl_then (new_entry_index env fwd s) (\<lambda>bufindex.
     rl_then (mem (wcs_at (buffer s) bufindex)) (\<lambda>str1.
     rl_then (mem (wcs_at (buffer s) (bufpos s))) (\<lambda>str2.
       if insert_mode s
       then rl_then (if bufpos s > 0 then readline_waddnstr env str1 (bufpos s - bufindex) s else Inr s)
              (readline_winsnstr env str2 (-1))
       else readline_waddnstr env str1 (-1) s)))"

definition magic_swap_panels :: "rl_env \<Rightarrow> bool \<Rightarrow> rl_session \<Rightarrow> rl_session rl" where
  "magic_swap_panels env fwd s =
     compute_new_window_entry env fwd (write_cmdprompt env
       (s\<lparr>panel_state := (if panel_state s = PANEL1_ACTIVE then PANEL2_ACTIVE else PANEL1_ACTIVE)\<rparr>))"

section \<open>The editing keys\<close>

definition case_key_backspace :: "rl_env \<Rightarrow> rl_session \<Rightarrow> rl_session rl" where
  "case_key_backspace env s =
     (if bufpos s = 0 then Inr s
      else rl_then (if loLim_isset s then magic_swap_panels env False s else Inr s) (\<lambda>s.
        let x = curx s in
        rl_then (mem (rdi (buffer s) (bufpos s - 1))) (\<lambda>c.
        let width = readline_wcwidth c FWLEN in
        if insert_mode s then
          rl_then (mem (wcs_at (buffer s) (bufpos s))) (\<lambda>rest.
          rl_then (mem (wmemmove (buffer s) (bufpos s - 1) (bufpos s) (length rest))) (\<lambda>b.
          rl_then (mem (wri b (numins s - 1) 0)) (\<lambda>b.
          let s1 = s\<lparr>buffer := b, bufpos := bufpos s - 1, numins := numins s - 1\<rparr> in
          if width > 0 then
            rl_then (wmove_to env (x - width) (s1\<lparr>vispos := vispos s1 - width\<rparr>)) (\<lambda>s2.
            rl_then (mem (wcs_at (buffer s2) (bufpos s2))) (\<lambda>str. readline_winsnstr env str (-1) s2))
          else Inr s1)))
        else
          rl_then (mem (wri (buffer s) (bufpos s - 1) 0)) (\<lambda>b.
          let s1 = s\<lparr>buffer := b, bufpos := bufpos s - 1, numins := numins s - 1\<rparr> in
          if width > 0 then wmove_to env (x - width) (s1\<lparr>vispos := vispos s1 - width\<rparr>) else Inr s1))))"

definition case_key_dc :: "rl_env \<Rightarrow> rl_session \<Rightarrow> rl_session rl" where
  "case_key_dc env s =
     (if \<not> insert_mode s then Inr s
      else (let i = bufpos s + 1 in
        rl_then (mem (wcs_at (buffer s) i)) (\<lambda>rest.
        rl_then (mem (wmemmove (buffer s) (i - 1) i (length rest))) (\<lambda>b.
        rl_then (mem (wri b (numins s - 1) 0)) (\<lambda>b.
        let s1 = s\<lparr>buffer := b, numins := numins s - 1\<rparr> in
        rl_then (mem (wcs_at (buffer s1) (bufpos s1))) (\<lambda>str. readline_winsnstr env str (-1) s1))))))"

definition case_key_left :: "rl_env \<Rightarrow> rl_session \<Rightarrow> rl_session rl" where
  "case_key_left env s =
     (if bufpos s = 0 then Inr s
      else rl_then (if loLim_isset s then magic_swap_panels env False s else Inr s) (\<lambda>s.
        rl_then (mem (rdi (buffer s) (bufpos s - 1))) (\<lambda>c.
        let width = readline_wcwidth c FWLEN; s1 = s\<lparr>bufpos := bufpos s - 1\<rparr> in
        if width > 0 then wmove_to env (curx s1 - width) (s1\<lparr>vispos := vispos s1 - width\<rparr>) else Inr s1)))"

definition case_key_right :: "rl_env \<Rightarrow> rl_session \<Rightarrow> rl_session rl" where
  "case_key_right env s =
     (if \<not> insert_mode s then Inr s
      else rl_then (if hiLim_isset env s then magic_swap_panels env True s else Inr s) (\<lambda>s.
        rl_then (mem (rdi (buffer s) (bufpos s))) (\<lambda>c.
        let width = readline_wcwidth c FWLEN; s1 = s\<lparr>bufpos := bufpos s + 1\<rparr> in
        if width > 0 then wmove_to env (curx s1 + width) (s1\<lparr>vispos := vispos s1 + width\<rparr>) else Inr s1)))"

definition all_tab_modes :: "tab_mode list" where
  "all_tab_modes = [ChanUsers, Cmds, Connect, Cs, Dcc, Deop, Devoice, Ftp, Help, Kick, Kickban, Log,
     Mode, Msg, Notice, Ns, Op, Query, Sasl, Settings, Squery, Theme, Time, Version, Voice, Whois, ZncCmds]"

definition isInCirculationMode :: "tab_completion \<Rightarrow> bool" where
  "isInCirculationMode t \<longleftrightarrow> list_ex (isInCirculationModeFor t) all_tab_modes"

definition readline_tab_comp_ctx_new :: tab_completion where
  "readline_tab_comp_ctx_new =
     \<lparr>search_var = [], isInCirculationModeFor = (\<lambda>_. False), matches = None, elmt = 0\<rparr>"

definition readline_tab_comp_ctx_reset :: "tab_completion \<Rightarrow> tab_completion" where
  "readline_tab_comp_ctx_reset t =
     t\<lparr>search_var := [], isInCirculationModeFor := (\<lambda>_. False), matches := None, elmt := 0\<rparr>"

text \<open>What follows an editing key: circulation through matches ends.\<close>

definition end_circulation :: "rl_session \<Rightarrow> rl_session" where
  "end_circulation s = (if isInCirculationMode (tc s) then s\<lparr>tc := readline_tab_comp_ctx_reset (tc s)\<rparr> else s)\<lparr>g_suggs_mode := False\<rparr>"

definition handle_key :: "rl_env \<Rightarrow> int \<Rightarrow> bool \<Rightarrow> rl_session \<Rightarrow> rl_session rl" where
  "handle_key env wc check_reset s =
     (if no_bufspc s then Inr s
      else rl_then (if hiLim_isset env s then magic_swap_panels env True s else Inr s) (\<lambda>s.
        let width = readline_wcwidth wc FWLEN in
        rl_then
          (if insert_mode s then
             rl_then (mem (wcs_at (buffer s) (bufpos s))) (\<lambda>rest.
             rl_then (mem (wmemmove (buffer s) (bufpos s + 1) (bufpos s) (length rest))) (\<lambda>b.
             rl_then (mem (wri b (bufpos s) wc)) (\<lambda>b.
             rl_then (readline_winsch env wc (s\<lparr>buffer := b, bufpos := bufpos s + 1, numins := numins s + 1,
                 vispos := vispos s + width\<rparr>)) (\<lambda>s1.
             if width > 0 then wmove_to env (curx s1 + width) s1 else Inr s1))))
           else
             rl_then (mem (wri (buffer s) (bufpos s) wc)) (\<lambda>b.
             readline_waddch env wc (s\<lparr>buffer := b, bufpos := bufpos s + 1, numins := numins s + 1,
               vispos := vispos s + width\<rparr>)))
          (\<lambda>s. Inr (if check_reset then end_circulation s else s))))"

section \<open>A session\<close>

definition new_session :: "int \<Rightarrow> rl_session" where
  "new_session psize =
     \<lparr>tc = readline_tab_comp_ctx_new, insert_mode = False, no_bufspc = False, bufpos = 0, numins = 0,
      prompt_size = psize, vispos = 0, buffer = replicate (nat g_readline_bufsize + 1) 0,
      panel_state = PANEL1_ACTIVE, curx = 0, g_suggs_mode = False\<rparr>"

text \<open>The flags that the loop computes before it reads a key.\<close>

definition set_mode :: "rl_session \<Rightarrow> rl_session" where
  "set_mode s = s\<lparr>insert_mode := (bufpos s \<noteq> numins s)\<rparr>"

definition set_flags :: "rl_session \<Rightarrow> rl_session" where
  "set_flags s = (set_mode s)\<lparr>no_bufspc := (numins s + 1 \<ge> g_readline_bufsize)\<rparr>"

end
