(* ===== verification/Line_Editor.thy ===== *)
theory Line_Editor
  imports Prelude
begin

text \<open>
  The abstract line editor: a line is the text before and the text behind the cursor; the keys are
  functions on it.  The locale is the contract that the readline component fulfils: each key, on
  an acceptable state, does to the line what the specification says and keeps the state
  acceptable.  Sequences of keys are treated once, inside the locale.
\<close>

type_synonym 'c line = "'c list \<times> 'c list"

datatype 'c edit = Type 'c | Backspace | Delete | Left | Right | Home | End

fun edit_line :: "nat \<Rightarrow> 'c edit \<Rightarrow> 'c line \<Rightarrow> 'c line" where
  "edit_line cap (Type c) (l, r) = (if length l + length r < cap then (l @ [c], r) else (l, r))"
| "edit_line cap Backspace (l, r) = (butlast l, r)"
| "edit_line cap Delete (l, r) = (l, tl r)"
| "edit_line cap Left (l, r) = (if l = [] then (l, r) else (butlast l, last l # r))"
| "edit_line cap Right (l, r) = (case r of [] \<Rightarrow> (l, r) | c # r' \<Rightarrow> (l @ [c], r'))"
| "edit_line cap Home (l, r) = ([], l @ r)"
| "edit_line cap End (l, r) = (l @ r, [])"

definition edit_lines :: "nat \<Rightarrow> 'c edit list \<Rightarrow> 'c line \<Rightarrow> 'c line" where
  "edit_lines cap es ln = fold (edit_line cap) es ln"

fun edit_chars :: "'c edit \<Rightarrow> 'c set" where
  "edit_chars (Type c) = {c}"
| "edit_chars _ = {}"

definition line_text :: "'c line \<Rightarrow> 'c list" where
  "line_text ln = fst ln @ snd ln"

text \<open>The keys move characters, they invent none, and the line never exceeds its capacity.\<close>

lemma in_set_tl: "x \<in> set (tl xs) \<Longrightarrow> x \<in> set xs"
  by (cases xs) auto

lemma edit_line_set: "set (line_text (edit_line cap e ln)) \<subseteq> set (line_text ln) \<union> edit_chars e"
  by (cases "(cap, e, ln)" rule: edit_line.cases)
    (auto simp: line_text_def dest: in_set_butlastD in_set_tl split: list.splits)

lemma Suc_length_pred: "l \<noteq> [] \<Longrightarrow> Suc (length l - Suc 0 + n) = length l + n"
  by (cases l) simp_all

lemma edit_line_length: "length (line_text ln) \<le> cap \<Longrightarrow> length (line_text (edit_line cap e ln)) \<le> cap"
  by (cases "(cap, e, ln)" rule: edit_line.cases) (auto simp: line_text_def Suc_length_pred split: list.splits)

lemma edit_lines_type:
  "length l + length cs + length r \<le> cap \<Longrightarrow> edit_lines cap (map Type cs) (l, r) = (l @ cs, r)"
  by (induction cs arbitrary: l) (simp_all add: edit_lines_def)

lemma edit_lines_append: "edit_lines cap (es @ fs) ln = edit_lines cap fs (edit_lines cap es ln)"
  by (simp add: edit_lines_def)

section \<open>The contract\<close>

text \<open>A sequence of keys on an implementation whose keys can fail.\<close>

fun run_edits :: "('c edit \<Rightarrow> 's \<Rightarrow> 's option) \<Rightarrow> 'c edit list \<Rightarrow> 's \<Rightarrow> 's option" where
  "run_edits step [] s = Some s"
| "run_edits step (e # es) s = do { s' \<leftarrow> step e s; run_edits step es s' }"

locale line_editor =
  fixes ok :: "'s \<Rightarrow> bool" and view :: "'s \<Rightarrow> 'c line" and accepted :: "'c \<Rightarrow> bool" and cap :: nat
    and step :: "'c edit \<Rightarrow> 's \<Rightarrow> 's option"
  assumes step_refines:
    "\<lbrakk>ok s; \<forall>c\<in>edit_chars e. accepted c\<rbrakk> \<Longrightarrow> \<exists>s'. step e s = Some s' \<and> ok s' \<and> view s' = edit_line cap e (view s)"
begin

lemma run_refines:
  "\<lbrakk>ok s; \<forall>e\<in>set es. \<forall>c\<in>edit_chars e. accepted c\<rbrakk> \<Longrightarrow>
     \<exists>s'. run_edits step es s = Some s' \<and> ok s' \<and> view s' = edit_lines cap es (view s)"
proof (induction es arbitrary: s)
  case (Cons e es)
  then obtain s1 where s1: "step e s = Some s1" "ok s1" "view s1 = edit_line cap e (view s)"
    using step_refines [of s e] by auto
  then show ?case using Cons.IH [of s1] Cons.prems by (auto simp: edit_lines_def)
qed (simp add: edit_lines_def)

text \<open>Typing a text that fits puts it before the cursor.\<close>

lemma run_typing:
  assumes "ok s" "view s = (l, r)" "\<forall>c\<in>set cs. accepted c" "length l + length cs + length r \<le> cap"
  shows "\<exists>s'. run_edits step (map Type cs) s = Some s' \<and> ok s' \<and> view s' = (l @ cs, r)"
  using run_refines [OF assms(1), of "map Type cs"] assms edit_lines_type [OF assms(4)] by auto

end

end
