(* ===== verification/Readline_Edit.thy ===== *)
theory Readline_Edit
  imports Readline Line_Editor
begin

text \<open>
  The line editor of \<^verbatim>\<open>src/src/readline.c\<close> implements the abstract line editor: the loops behind
  CTRL+A and CTRL+E, the representation of a line in the buffer, the position of the cursor on
  the panel, and the interpretation of the contract.
\<close>

section \<open>The loops behind CTRL+A and CTRL+E\<close>

lemma rl_then_cong [fundef_cong]:
  "\<lbrakk>m = n; \<And>x. n = Inr x \<Longrightarrow> f x = g x\<rbrakk> \<Longrightarrow> rl_then m f = rl_then n g"
  by (auto simp: rl_then_def split: sum.split)

lemma rl_then_Inr: "rl_then m f = Inr y \<longleftrightarrow> (\<exists>x. m = Inr x \<and> f x = Inr y)"
  by (cases m) auto

lemma mem_Inr: "mem r = Inr x \<longleftrightarrow> r = Some x"
  by (cases r) auto

text \<open>Drawing changes nothing but the cursor column.\<close>

definition drawn :: "rl_session \<Rightarrow> rl_session \<Rightarrow> bool" where
  "drawn s s' \<longleftrightarrow> s'\<lparr>curx := 0, panel_state := PANEL1_ACTIVE\<rparr> = s\<lparr>curx := 0, panel_state := PANEL1_ACTIVE\<rparr>"

lemma drawn_refl: "drawn s s"
  by (simp add: drawn_def)

lemma drawn_trans: "\<lbrakk>drawn s t; drawn t u\<rbrakk> \<Longrightarrow> drawn s u"
  by (simp add: drawn_def)

lemma drawn_curx: "drawn s (s\<lparr>curx := x\<rparr>)"
  by (simp add: drawn_def)

lemma drawn_fields:
  assumes "drawn s s'"
  shows "buffer s' = buffer s" "bufpos s' = bufpos s" "numins s' = numins s" "insert_mode s' = insert_mode s"
    "no_bufspc s' = no_bufspc s" "prompt_size s' = prompt_size s" "vispos s' = vispos s" "tc s' = tc s"
proof -
  note eq = assms [unfolded drawn_def]
  show "buffer s' = buffer s" "bufpos s' = bufpos s" "numins s' = numins s" "insert_mode s' = insert_mode s"
    "no_bufspc s' = no_bufspc s" "prompt_size s' = prompt_size s" "vispos s' = vispos s" "tc s' = tc s"
    using arg_cong [OF eq, of buffer] arg_cong [OF eq, of bufpos] arg_cong [OF eq, of numins]
      arg_cong [OF eq, of insert_mode] arg_cong [OF eq, of no_bufspc] arg_cong [OF eq, of prompt_size]
      arg_cong [OF eq, of vispos] arg_cong [OF eq, of tc] by simp_all
qed

lemma waddch_drawn: "waddch_all env cs s = Inr s' \<Longrightarrow> drawn s s'"
proof (induction cs arbitrary: s)
  case (Cons c cs)
  then obtain s1 where s1: "readline_waddch env c s = Inr s1" "waddch_all env cs s1 = Inr s'"
    by (auto simp: rl_then_Inr)
  have "drawn s s1" using s1(1) drawn_curx drawn_refl by (auto simp: readline_waddch_def split: if_splits)
  then show ?case using Cons.IH [OF s1(2)] drawn_trans by blast
qed (simp add: drawn_refl)

lemma winsch_same: "winsch_all env cs s = Inr s' \<Longrightarrow> s' = s"
  by (induction cs arbitrary: s) (auto simp: rl_then_Inr readline_winsch_def split: if_splits)

lemma swap_drawn: "magic_swap_panels env fwd s = Inr s' \<Longrightarrow> drawn s s'"
proof -
  let ?p = "if panel_state s = PANEL1_ACTIVE then PANEL2_ACTIVE else PANEL1_ACTIVE"
  let ?s = "write_cmdprompt env (s\<lparr>panel_state := ?p\<rparr>)"
  assume m: "magic_swap_panels env fwd s = Inr s'"
  have "drawn s ?s" by (simp add: drawn_def write_cmdprompt_def)
  moreover have "drawn ?s s'"
    using m waddch_drawn winsch_same drawn_refl
    by (fastforce simp: magic_swap_panels_def compute_new_window_entry_def rl_then_Inr
        readline_waddnstr_def readline_winsnstr_def Let_def split: if_splits)
  ultimately show ?thesis by (rule drawn_trans)
qed

lemma rdi_Some: "rdi b i = Some c \<longleftrightarrow> 0 \<le> i \<and> i < int (length b) \<and> c = b ! nat i"
  by (auto simp: rdi_def rd_def nat_less_iff)

lemma left_fields:
  assumes "case_key_left env s = Inr s'" "bufpos s \<noteq> 0"
  shows "0 < bufpos s \<and> bufpos s' = bufpos s - 1"
proof -
  obtain s1 c where s1: "(if loLim_isset s then magic_swap_panels env False s else Inr s) = Inr s1"
    and c: "rdi (buffer s1) (bufpos s1 - 1) = Some c" and s': "bufpos s' = bufpos s1 - 1"
    using assms by (auto simp: case_key_left_def rl_then_Inr mem_Inr wmove_to_def Let_def split: if_splits)
  have "drawn s s1" using s1 swap_drawn drawn_refl by (auto split: if_splits)
  then show ?thesis using c s' by (simp add: drawn_fields rdi_Some)
qed

lemma right_fields:
  assumes "case_key_right env s = Inr s'" "insert_mode s"
  shows "0 \<le> bufpos s \<and> bufpos s < int (length (buffer s)) \<and> bufpos s' = bufpos s + 1
    \<and> length (buffer s') = length (buffer s)"
proof -
  obtain s1 c where s1: "(if hiLim_isset env s then magic_swap_panels env True s else Inr s) = Inr s1"
    and c: "rdi (buffer s1) (bufpos s1) = Some c" and s': "bufpos s' = bufpos s1 + 1" "buffer s' = buffer s1"
    using assms by (auto simp: case_key_right_def rl_then_Inr mem_Inr wmove_to_def Let_def split: if_splits)
  have "drawn s s1" using s1 swap_drawn drawn_refl by (auto split: if_splits)
  then show ?thesis using c s' by (simp add: drawn_fields rdi_Some)
qed

function ctrl_a :: "rl_env \<Rightarrow> rl_session \<Rightarrow> rl_session rl" where
  "ctrl_a env s = (if bufpos s = 0 then Inr s
     else rl_then (case_key_left env s) (\<lambda>s'. ctrl_a env (set_mode s')))"
  by pat_completeness auto
termination
  by (relation "measure (\<lambda>(env, s). nat (bufpos s))") (auto simp: set_mode_def dest: left_fields)

function ctrl_e :: "rl_env \<Rightarrow> rl_session \<Rightarrow> rl_session rl" where
  "ctrl_e env s = (if \<not> insert_mode s then Inr s
     else rl_then (case_key_right env s) (\<lambda>s'. ctrl_e env (set_mode s')))"
  by pat_completeness auto
termination
  by (relation "measure (\<lambda>(env, s). nat (int (length (buffer s)) - bufpos s))")
    (auto simp: set_mode_def dest: right_fields)

declare ctrl_a.simps [simp del] ctrl_e.simps [simp del]

section \<open>The line in the buffer\<close>

definition bufcells :: nat where "bufcells = 2001"

text \<open>The text before the cursor, the text behind it, and zeros up to the end of the buffer.\<close>

definition rep :: "rl_session \<Rightarrow> int list \<Rightarrow> int list \<Rightarrow> bool" where
  "rep s l r \<longleftrightarrow> buffer s = l @ r @ replicate (bufcells - length l - length r) 0
     \<and> length l + length r < bufcells \<and> 0 \<notin> set l \<and> 0 \<notin> set r
     \<and> bufpos s = int (length l) \<and> numins s = int (length l + length r)"

definition widths :: "int list \<Rightarrow> int" where
  "widths cs = (\<Sum>c\<leftarrow>cs. readline_wcwidth c FWLEN)"

lemma widths_simps [simp]:
  "widths [] = 0" "widths (c # cs) = readline_wcwidth c FWLEN + widths cs" "widths (cs @ ds) = widths cs + widths ds"
  by (simp_all add: widths_def)

lemma xwcwidth_ge: "0 \<le> f \<Longrightarrow> 0 \<le> xwcwidth c f"
  by (simp add: xwcwidth_def Let_def)

lemma wcwidth_ge: "0 \<le> readline_wcwidth c FWLEN"
  using xwcwidth_ge [of FWLEN c] by (simp add: readline_wcwidth_def FWLEN_def)

lemma widths_ge: "0 \<le> widths cs"
  by (induction cs) (simp_all add: wcwidth_ge)

lemma take_zeros: "takeWhile (\<lambda>c. c \<noteq> 0) (cs @ replicate n 0) = cs" if "0 \<notin> set cs"
proof (cases n)
  case 0
  then show ?thesis using that by (auto intro: takeWhile_eq_self)
next
  case (Suc m)
  have "\<forall>x\<in>set cs. x \<noteq> 0" using that by metis
  from takeWhile_append_stop [OF this, of 0 "replicate m 0"] show ?thesis using Suc by simp
qed

lemma wcs_at_rep:
  assumes "rep s l r" "k \<le> length l"
  shows "wcs_at (buffer s) (int k) = Some (drop k l @ r)"
proof -
  let ?n = "bufcells - length l - length r"
  have d: "drop k (buffer s) = (drop k l @ r) @ replicate ?n 0" using assms by (simp add: rep_def)
  have "0 < ?n" using assms(1) by (simp add: rep_def)
  then have "0 \<in> set (drop k (buffer s))" unfolding d by simp
  moreover have "0 \<notin> set (drop k l @ r)" using assms(1) by (auto simp: rep_def dest: in_set_dropD)
  then have "takeWhile (\<lambda>c. c \<noteq> 0) (drop k (buffer s)) = drop k l @ r" unfolding d by (rule take_zeros)
  ultimately show ?thesis by (simp add: wcs_at_def)
qed

lemma wcs_at_cursor: "rep s l r \<Longrightarrow> wcs_at (buffer s) (bufpos s) = Some r"
  using wcs_at_rep [of s l r "length l"] by (simp add: rep_def)

lemma rep_before: "rep s (l @ [c]) r \<Longrightarrow> rdi (buffer s) (bufpos s - 1) = Some c"
  by (auto simp: rep_def rdi_Some nth_append)

lemma rep_at: "rep s l (c # r) \<Longrightarrow> rdi (buffer s) (bufpos s) = Some c"
  by (auto simp: rep_def rdi_Some nth_append)

lemma rep_drawn: "drawn s s' \<Longrightarrow> rep s' l r = rep s l r"
  by (simp add: rep_def drawn_fields)

section \<open>The cursor on the panel\<close>

text \<open>
  What the editor needs of the curses library: the cursor moves to every column of the screen, a
  character can be added where it leaves a column free, and inserting does not fail.
\<close>

definition curses_ok :: "rl_env \<Rightarrow> bool" where
  "curses_ok env \<longleftrightarrow> (\<forall>x. 0 \<le> x \<and> x < COLS env \<longrightarrow> wmove_ok env x)
     \<and> (\<forall>x c. 0 \<le> x \<and> x + readline_wcwidth c FWLEN < COLS env \<longrightarrow> add_ok env x c) \<and> (\<forall>x c. ins_ok env x c)"

text \<open>A character of at most one column that can be converted and drawn.\<close>

definition narrow :: "rl_env \<Rightarrow> int \<Rightarrow> bool" where
  "narrow env c \<longleftrightarrow> c \<noteq> 0 \<and> conv_ok env c \<and> readline_wcwidth c FWLEN \<le> 1 \<and> cell_width env c = readline_wcwidth c FWLEN"

definition env_ok :: "rl_env \<Rightarrow> int \<Rightarrow> bool" where
  "env_ok env psize \<longleftrightarrow> curses_ok env \<and> prompt_cols env = psize \<and> 0 \<le> psize \<and> psize + 2 \<le> COLS env div 2
     \<and> COLS env \<le> INT_MAX"

text \<open>The cursor is behind the prompt and behind a part of the text in front of it, on the screen.\<close>

definition disp :: "rl_env \<Rightarrow> rl_session \<Rightarrow> int list \<Rightarrow> bool" where
  "disp env s l \<longleftrightarrow> (\<exists>k\<le>length l. curx s = prompt_size s + widths (drop k l)) \<and> curx s \<le> COLS env - 1"

lemma deco_width: "is_text_decoration c \<Longrightarrow> readline_wcwidth c FWLEN = 1"
  by (simp add: readline_wcwidth_def)

lemma waddch_ok:
  assumes "curses_ok env" "narrow env c" "0 \<le> curx s" "curx s + readline_wcwidth c FWLEN < COLS env"
  shows "readline_waddch env c s = Inr (s\<lparr>curx := curx s + readline_wcwidth c FWLEN\<rparr>)"
  using assms deco_width [of c] by (auto simp: readline_waddch_def curses_ok_def narrow_def)

lemma waddch_all_ok:
  "\<lbrakk>curses_ok env; \<forall>c\<in>set cs. narrow env c; 0 \<le> curx s; curx s + widths cs < COLS env\<rbrakk> \<Longrightarrow>
     waddch_all env cs s = Inr (s\<lparr>curx := curx s + widths cs\<rparr>)"
proof (induction cs arbitrary: s)
  case (Cons c cs)
  let ?s = "s\<lparr>curx := curx s + readline_wcwidth c FWLEN\<rparr>"
  have "curx s + readline_wcwidth c FWLEN < COLS env" using Cons.prems(4) widths_ge [of cs] by simp
  then have "readline_waddch env c s = Inr ?s" using waddch_ok Cons.prems by simp
  moreover have "waddch_all env cs ?s = Inr (?s\<lparr>curx := curx ?s + widths cs\<rparr>)"
    using Cons.prems wcwidth_ge [of c] by (intro Cons.IH) (auto simp: add.assoc)
  ultimately show ?case by (simp add: add.assoc)
qed simp

lemma winsch_all_ok: "\<lbrakk>curses_ok env; \<forall>c\<in>set cs. narrow env c\<rbrakk> \<Longrightarrow> winsch_all env cs s = Inr s"
  by (induction cs) (auto simp: readline_winsch_def curses_ok_def narrow_def)

lemma winsnstr_ok: "\<lbrakk>curses_ok env; \<forall>c\<in>set cs. narrow env c\<rbrakk> \<Longrightarrow> readline_winsnstr env cs n s = Inr s"
  unfolding readline_winsnstr_def Let_def by (rule winsch_all_ok) (use in_set_takeD in fastforce)+

text \<open>The number of characters that fill \<^verbatim>\<open>diff\<close> columns.\<close>

lemma subtrahend_ok:
  "\<lbrakk>\<forall>c\<in>set cs. readline_wcwidth c FWLEN \<le> 1; i \<le> diff\<rbrakk> \<Longrightarrow>
     \<exists>m\<le>length cs. subtrahend_loop cs diff i j = j + int m \<and> i + widths (take m cs) \<le> diff
       \<and> (cs \<noteq> [] \<and> i < diff \<longrightarrow> 0 < m)"
proof (induction cs diff i j rule: subtrahend_loop.induct)
  case (1 diff i j)
  then show ?case by simp
next
  case (2 c cs diff i j)
  show ?case
  proof (cases "i < diff")
    case True
    then obtain m where "m \<le> length cs"
      "subtrahend_loop cs diff (i + readline_wcwidth c FWLEN) (j + 1) = j + 1 + int m"
      "i + readline_wcwidth c FWLEN + widths (take m cs) \<le> diff"
      using 2 by fastforce
    then show ?thesis using True by (intro exI [of _ "Suc m"]) (simp add: add.assoc)
  next
    case False
    then show ?thesis using 2 by (intro exI [of _ 0]) simp
  qed
qed

lemma widths_rev: "widths (rev cs) = widths cs"
  by (induction cs) simp_all

lemma get_subtrahend_ok:
  assumes "rep s l r" "\<forall>c\<in>set l. narrow env c" "0 \<le> diff"
  shows "\<exists>k\<le>length l. bufpos s - get_subtrahend s diff = int k \<and> widths (drop k l) \<le> diff
    \<and> (l \<noteq> [] \<and> 0 < diff \<longrightarrow> k < length l)"
proof -
  have t: "rev (take (nat (bufpos s)) (buffer s)) = rev l" using assms(1) by (simp add: rep_def)
  have "\<forall>c\<in>set (rev l). readline_wcwidth c FWLEN \<le> 1" using assms(2) by (simp add: narrow_def)
  then obtain m where m: "m \<le> length (rev l)" "get_subtrahend s diff = 0 + int m"
    "0 + widths (take m (rev l)) \<le> diff" "rev l \<noteq> [] \<and> 0 < diff \<longrightarrow> 0 < m"
    using subtrahend_ok [of "rev l" 0 diff 0] assms(3) unfolding get_subtrahend_def t by blast
  have "widths (drop (length l - m) l) = widths (take m (rev l))" by (simp add: take_rev widths_rev)
  then show ?thesis using m assms(1) by (intro exI [of _ "length l - m"]) (auto simp: rep_def)
qed

text \<open>
  A swap of the panels redraws the end of the text before the cursor, at most half a screen of it
  and at least one character if there is one.
\<close>

lemma new_entry_ok:
  assumes "rep s l r" "\<forall>c\<in>set l. narrow env c" "env_ok env (prompt_size s)"
  shows "\<exists>k\<le>length l. new_entry_index env fwd s = Inr (int k) \<and> widths (drop k l) \<le> COLS env div 2
    \<and> (l \<noteq> [] \<longrightarrow> k < length l)"
proof -
  let ?half = "COLS env div 2"
  have e: "0 \<le> prompt_size s" "prompt_size s + 2 \<le> ?half" "COLS env \<le> INT_MAX"
    using assms(3) by (simp_all add: env_ok_def)
  have p: "bufpos s = int (length l)" "length l \<le> 2000" using assms(1) by (simp_all add: rep_def bufcells_def)
  have d: "int_diff (bufpos s) (bufpos s - int k) = Some (int k)" if "k \<le> length l" for k
    using that p by (auto simp: int_diff_def limits_defs)
  have h: "0 \<le> ?half" "0 < ?half" using e(1,2) by linarith+
  show ?thesis
  proof (cases fwd)
    case True
    obtain k where k: "k \<le> length l" "bufpos s - get_subtrahend s ?half = int k" "widths (drop k l) \<le> ?half"
      "l \<noteq> [] \<and> 0 < ?half \<longrightarrow> k < length l"
      using get_subtrahend_ok [OF assms(1,2) h(1)] by blast
    then have g: "get_subtrahend s ?half = bufpos s - int k" by simp
    then show ?thesis using k(1,3,4) h d [OF k(1)] True
      by (intro exI [of _ k]) (simp add: new_entry_index_def g)
  next
    case False
    let ?diff = "?half - prompt_size s"
    obtain k where k: "k \<le> length l" "bufpos s - get_subtrahend s ?diff = int k" "widths (drop k l) \<le> ?diff"
      "l \<noteq> [] \<and> 0 < ?diff \<longrightarrow> k < length l"
      using get_subtrahend_ok [OF assms(1,2), of ?diff] e by auto
    then have g: "get_subtrahend s ?diff = bufpos s - int k" by simp
    have "int_diff ?half (prompt_size s) = Some ?diff" using e by (auto simp: int_diff_def limits_defs)
    then show ?thesis using k e d [OF k(1)] False g by (intro exI [of _ k]) (simp add: new_entry_index_def)
  qed
qed

lemma swap_ok:
  assumes "rep s l r" "\<forall>c\<in>set (l @ r). narrow env c" "env_ok env (prompt_size s)" "insert_mode s = (r \<noteq> [])"
  shows "\<exists>s'. magic_swap_panels env fwd s = Inr s' \<and> drawn s s' \<and> disp env s' l \<and> curx s' \<le> COLS env - 2
    \<and> (l \<noteq> [] \<longrightarrow> (\<exists>k<length l. curx s' = prompt_size s + widths (drop k l)))"
proof -
  define t where "t = write_cmdprompt env (s\<lparr>panel_state :=
    (if panel_state s = PANEL1_ACTIVE then PANEL2_ACTIVE else PANEL1_ACTIVE)\<rparr>)"
  have swap: "magic_swap_panels env fwd s = compute_new_window_entry env fwd t"
    by (simp add: magic_swap_panels_def t_def)
  have dr: "drawn s t" by (simp add: drawn_def write_cmdprompt_def t_def)
  have e: "curses_ok env" "curx t = prompt_size s" "0 \<le> prompt_size s" "prompt_size s + 2 \<le> COLS env div 2"
    using assms(3) by (simp_all add: env_ok_def write_cmdprompt_def t_def)
  note f = drawn_fields [OF dr]
  have rep: "rep t l r" and env: "env_ok env (prompt_size t)"
    using rep_drawn [OF dr] assms(1,3) drawn_fields(6) [OF dr] by simp_all
  obtain k where k: "k \<le> length l" "new_entry_index env fwd t = Inr (int k)" "widths (drop k l) \<le> COLS env div 2"
    "l \<noteq> [] \<longrightarrow> k < length l"
    using new_entry_ok [OF rep _ env, of fwd] assms(2) by auto
  let ?w = "widths (drop k l)"
  let ?t' = "t\<lparr>curx := prompt_size s + ?w\<rparr>"
  have fits: "prompt_size s + ?w \<le> COLS env - 2" using k(3) e(4) by linarith
  have nk: "\<forall>c\<in>set (drop k l). narrow env c" using assms(2) by (auto dest: in_set_dropD)
  have add: "waddch_all env (drop k l) t = Inr ?t'"
    using waddch_all_ok [OF e(1) nk, of t] e(2,3) fits by simp
  have "magic_swap_panels env fwd s = Inr ?t'"
  proof (cases "r = []")
    case True
    then have "readline_waddnstr env (drop k l @ r) (-1) t = Inr ?t'" using add by (simp add: readline_waddnstr_def)
    then show ?thesis
      using True k(2) wcs_at_rep [OF rep k(1)] wcs_at_cursor [OF rep] assms(4) f(4)
      by (simp add: swap compute_new_window_entry_def)
  next
    case False
    have ins: "readline_winsnstr env r (-1) u = Inr u" for u using winsnstr_ok [OF e(1)] assms(2) by simp
    have b: "bufpos t = int (length l)" using rep by (simp add: rep_def)
    have m: "(if bufpos t > 0 then readline_waddnstr env (drop k l @ r) (bufpos t - int k) t else Inr t) = Inr ?t'"
    proof (cases "l = []")
      case True
      then show ?thesis using b add k(1) by simp
    next
      case False
      then have "nat (bufpos t - int k) = length (drop k l)" "0 < bufpos t - int k" using b k(4) by auto
      then show ?thesis using add by (simp add: readline_waddnstr_def)
    qed
    then show ?thesis
      using False k(2) wcs_at_rep [OF rep k(1)] wcs_at_cursor [OF rep] assms(4) f(4) ins
      by (simp add: swap compute_new_window_entry_def split del: if_split)
  qed
  moreover have "drawn s ?t'" using dr drawn_curx drawn_trans by blast
  moreover have "disp env ?t' l" using k(1) fits drawn_fields(6) [OF dr] by (auto simp: disp_def)
  ultimately show ?thesis using k(4) fits by auto
qed

section \<open>The editing keys\<close>

definition ok_state :: "rl_env \<Rightarrow> rl_session \<Rightarrow> int list \<Rightarrow> int list \<Rightarrow> bool" where
  "ok_state env s l r \<longleftrightarrow> rep s l r \<and> disp env s l \<and> (\<forall>c\<in>set (l @ r). narrow env c)
     \<and> env_ok env (prompt_size s) \<and> insert_mode s = (r \<noteq> [])"

lemma ok_stateD:
  assumes "ok_state env s l r"
  shows "rep s l r" "disp env s l" "\<forall>c\<in>set (l @ r). narrow env c" "env_ok env (prompt_size s)"
    "insert_mode s = (r \<noteq> [])" "bufpos s = int (length l)" "numins s = int (length l + length r)"
  using assms by (simp_all add: ok_state_def rep_def)

lemma drawn_ok: "\<lbrakk>ok_state env s l r; drawn s s'; disp env s' l\<rbrakk> \<Longrightarrow> ok_state env s' l r"
  by (simp add: ok_state_def rep_drawn drawn_fields)

text \<open>Before a key that moves left: the panel shows the character before the cursor.\<close>

lemma before_left:
  assumes "ok_state env s (l @ [c]) r"
  shows "\<exists>s' k. (if loLim_isset s then magic_swap_panels env False s else Inr s) = Inr s'
    \<and> ok_state env s' (l @ [c]) r \<and> drawn s s'
    \<and> k \<le> length l \<and> curx s' = prompt_size s + widths (drop k l) + readline_wcwidth c FWLEN"
proof (cases "loLim_isset s")
  case True
  note f = ok_stateD [OF assms]
  obtain s' k where s': "magic_swap_panels env False s = Inr s'" "drawn s s'" "disp env s' (l @ [c])"
    "k < length (l @ [c])" "curx s' = prompt_size s + widths (drop k (l @ [c]))"
    using swap_ok [OF f(1,3-5), of False] by auto
  then show ?thesis using True drawn_ok [OF assms s'(2,3)] by (intro exI [of _ s'] exI [of _ k]) simp
next
  case False
  obtain k where k: "k \<le> length (l @ [c])" "curx s = prompt_size s + widths (drop k (l @ [c]))"
    using ok_stateD(2) [OF assms] by (auto simp: disp_def)
  then have "k \<noteq> length (l @ [c])" using False by (auto simp: loLim_isset_def)
  then show ?thesis using False k assms drawn_refl by (intro exI [of _ s] exI [of _ k]) simp
qed

lemma before_right:
  assumes "ok_state env s l r"
  shows "\<exists>s'. (if hiLim_isset env s then magic_swap_panels env True s else Inr s) = Inr s'
    \<and> ok_state env s' l r \<and> drawn s s' \<and> curx s' \<le> COLS env - 2"
proof (cases "hiLim_isset env s")
  case True
  note f = ok_stateD [OF assms]
  obtain s' where s': "magic_swap_panels env True s = Inr s'" "drawn s s'" "disp env s' l" "curx s' \<le> COLS env - 2"
    using swap_ok [OF f(1,3-5), of True] by auto
  then show ?thesis using True drawn_ok [OF assms s'(2,3)] by (intro exI [of _ s']) simp
next
  case False
  then show ?thesis using assms drawn_refl by (intro exI [of _ s]) (auto simp: hiLim_isset_def)
qed

lemma wmove_ok_to:
  "\<lbrakk>env_ok env p; 0 \<le> x; x < COLS env\<rbrakk> \<Longrightarrow> wmove_to env x s = Inr (s\<lparr>curx := x\<rparr>)"
  by (simp add: wmove_to_def env_ok_def curses_ok_def)

lemma key_left_ok:
  assumes "ok_state env s (l @ [c]) r"
  shows "\<exists>s'. case_key_left env s = Inr s' \<and> ok_state env (set_mode s') l (c # r)"
proof -
  obtain s1 k where s1: "(if loLim_isset s then magic_swap_panels env False s else Inr s) = Inr s1"
    "ok_state env s1 (l @ [c]) r" "drawn s s1" "k \<le> length l"
    "curx s1 = prompt_size s + widths (drop k l) + readline_wcwidth c FWLEN"
    using before_left [OF assms] by blast
  note f = ok_stateD [OF s1(2)]
  let ?w = "readline_wcwidth c FWLEN"
  define s' where "s' = (if ?w > 0 then s1\<lparr>bufpos := bufpos s1 - 1, vispos := vispos s1 - ?w, curx := curx s1 - ?w\<rparr>
    else s1\<lparr>bufpos := bufpos s1 - 1\<rparr>)"
  have x: "0 \<le> curx s1 - ?w" "curx s1 - ?w < COLS env"
    using s1(5) f(2,4) widths_ge [of "drop k l"] wcwidth_ge [of c] drawn_fields(6) [OF s1(3)]
    by (auto simp: disp_def env_ok_def)
  have "bufpos s \<noteq> 0" using ok_stateD(6) [OF assms] by simp
  then have "case_key_left env s = Inr s'"
    using s1(1) rep_before [OF f(1)] wmove_ok_to [OF f(4) x]
    by (simp add: case_key_left_def s'_def Let_def split del: if_split) simp
  moreover have "buffer s' = buffer s1" "bufpos s' = bufpos s1 - 1" "numins s' = numins s1" "prompt_size s' = prompt_size s1"
    "curx s' = curx s1 - ?w"
    using wcwidth_ge [of c] by (auto simp: s'_def)
  moreover have "disp env (set_mode s') l"
    using s1(4,5) calculation f(2) wcwidth_ge [of c] drawn_fields(6) [OF s1(3)]
    by (auto simp: disp_def set_mode_def intro!: exI [of _ k])
  ultimately show ?thesis
    using f by (auto simp: ok_state_def rep_def set_mode_def intro!: exI [of _ s'])
qed

lemma key_right_ok:
  assumes "ok_state env s l (c # r)"
  shows "\<exists>s'. case_key_right env s = Inr s' \<and> ok_state env (set_mode s') (l @ [c]) r"
proof -
  obtain s1 where s1: "(if hiLim_isset env s then magic_swap_panels env True s else Inr s) = Inr s1"
    "ok_state env s1 l (c # r)" "drawn s s1" "curx s1 \<le> COLS env - 2"
    using before_right [OF assms] by blast
  note f = ok_stateD [OF s1(2)]
  let ?w = "readline_wcwidth c FWLEN"
  define s' where "s' = (if ?w > 0 then s1\<lparr>bufpos := bufpos s1 + 1, vispos := vispos s1 + ?w, curx := curx s1 + ?w\<rparr>
    else s1\<lparr>bufpos := bufpos s1 + 1\<rparr>)"
  obtain k where k: "k \<le> length l" "curx s1 = prompt_size s1 + widths (drop k l)"
    using f(2) by (auto simp: disp_def)
  have w: "?w \<le> 1" using f(3) by (simp add: narrow_def)
  have x: "0 \<le> curx s1 + ?w" "curx s1 + ?w < COLS env"
    using k(2) s1(4) w f(4) widths_ge [of "drop k l"] wcwidth_ge [of c] by (auto simp: env_ok_def)
  have "case_key_right env s = Inr s'"
    using s1(1) rep_at [OF f(1)] wmove_ok_to [OF f(4) x] ok_stateD(5) [OF assms]
    by (simp add: case_key_right_def s'_def Let_def split del: if_split) simp
  moreover have g: "buffer s' = buffer s1" "bufpos s' = bufpos s1 + 1" "numins s' = numins s1"
    "prompt_size s' = prompt_size s1" "curx s' = curx s1 + ?w"
    using wcwidth_ge [of c] by (auto simp: s'_def)
  moreover have "disp env (set_mode s') (l @ [c])"
    using k x g by (auto simp: disp_def set_mode_def intro!: exI [of _ k])
  ultimately show ?thesis
    using f by (auto simp: ok_state_def rep_def set_mode_def intro!: exI [of _ s'])
qed

text \<open>The buffer after an insertion and after a deletion.\<close>

lemma wmemmove_left:
  "wmemmove (A @ c # B @ C) (int (length A)) (int (length A) + 1) (length B) = Some (A @ B @ drop (length B) (c # B @ C))"
  by (simp add: wmemmove_def nat_add_distrib)

lemma drop_shift: "C \<noteq> [] \<Longrightarrow> drop (length B) (c # B @ C) = (if B = [] then c else last B) # C"
  by (cases B rule: rev_cases) simp_all

lemma wmemmove_right:
  "wmemmove (A @ B @ z # C) (int (length A) + 1) (int (length A)) (length B) =
     Some (A @ (if B = [] then z else hd B) # B @ C)"
  by (cases B) (simp_all add: wmemmove_def nat_add_distrib)

lemma delete_cell:
  assumes "b = l @ c # r @ replicate n 0" "0 < n"
  shows "\<exists>b1. wmemmove b (int (length l)) (int (length l) + 1) (length r) = Some b1
    \<and> wri b1 (int (length l) + int (length r)) 0 = Some (l @ r @ replicate (Suc n) 0)"
proof -
  let ?x = "if r = [] then c else last r"
  have "wmemmove b (int (length l)) (int (length l) + 1) (length r) = Some (l @ r @ ?x # replicate n 0)"
    unfolding assms(1) wmemmove_left using assms(2) by (subst drop_shift) simp_all
  moreover have "wri (l @ r @ ?x # replicate n 0) (int (length l) + int (length r)) 0 = Some (l @ r @ replicate (Suc n) 0)"
    by (simp add: wri_def nat_add_distrib list_update_append)
  ultimately show ?thesis by blast
qed

lemma insert_cell:
  assumes "b = l @ r @ replicate (Suc n) 0"
  shows "\<exists>b1. wmemmove b (int (length l) + 1) (int (length l)) (length r) = Some b1
    \<and> wri b1 (int (length l)) c = Some (l @ c # r @ replicate n 0)"
  using wmemmove_right [of l r 0 "replicate n 0"] assms by (simp add: wri_def list_update_append)

lemma rep_cells: "rep s l r \<Longrightarrow> \<exists>n. buffer s = l @ r @ replicate (Suc n) 0 \<and> length l + length r + Suc n = bufcells"
  by (intro exI [of _ "bufcells - length l - length r - 1"]) (auto simp: rep_def simp flip: replicate_Suc)

lemma repI:
  assumes "buffer s = l @ r @ replicate n 0" "length l + length r + n = bufcells" "0 < n" "0 \<notin> set l" "0 \<notin> set r"
    "bufpos s = int (length l)" "numins s = int (length l + length r)"
  shows "rep s l r"
proof -
  have "n = bufcells - length l - length r" using assms(2) by simp
  then show ?thesis using assms by (simp add: rep_def)
qed

lemma rep_nonzero: "rep s l r \<Longrightarrow> 0 \<notin> set l \<and> 0 \<notin> set r"
  by (simp add: rep_def)

lemma key_backspace_ok:
  assumes "ok_state env s (l @ [c]) r"
  shows "\<exists>s'. case_key_backspace env s = Inr s' \<and> ok_state env s' l r \<and> no_bufspc s' = no_bufspc s"
proof -
  obtain s1 k where s1: "(if loLim_isset s then magic_swap_panels env False s else Inr s) = Inr s1"
    "ok_state env s1 (l @ [c]) r" "drawn s s1" "k \<le> length l"
    "curx s1 = prompt_size s + widths (drop k l) + readline_wcwidth c FWLEN"
    using before_left [OF assms] by blast
  note f = ok_stateD [OF s1(2)] and g = drawn_fields [OF s1(3)]
  let ?w = "readline_wcwidth c FWLEN"
  obtain n where n: "buffer s1 = l @ c # r @ replicate (Suc n) 0" "length l + length r + Suc (Suc n) = bufcells"
    using rep_cells [OF f(1)] by auto
  let ?b = "l @ r @ replicate (Suc (Suc n)) 0"
  define s0 where "s0 = s1\<lparr>buffer := ?b, bufpos := int (length l), numins := int (length l) + int (length r)\<rparr>"
  define s' where "s' = (if ?w > 0 then s0\<lparr>vispos := vispos s0 - ?w, curx := curx s1 - ?w\<rparr> else s0)"
  have x: "0 \<le> curx s1 - ?w" "curx s1 - ?w < COLS env"
    using s1(5) f(2,4) g(6) widths_ge [of "drop k l"] wcwidth_ge [of c] by (auto simp: disp_def env_ok_def)
  have p: "bufpos s1 = int (length l) + 1" "numins s1 = int (length l) + int (length r) + 1" using f(6,7) by simp_all
  have fields: "buffer s' = ?b" "bufpos s' = int (length l)" "numins s' = int (length l) + int (length r)"
    "prompt_size s' = prompt_size s1" "curx s' = curx s1 - ?w" "insert_mode s' = insert_mode s1" "no_bufspc s' = no_bufspc s1"
    using wcwidth_ge [of c] by (auto simp: s'_def s0_def)
  have rep: "rep s' l r"
    using fields n(2) rep_nonzero [OF f(1)] by (intro repI [of s' l r "Suc (Suc n)"]) auto
  have "case_key_backspace env s = Inr s'"
  proof (cases "r = []")
    case True
    have "wri (buffer s1) (bufpos s1 - 1) 0 = Some ?b" using True n(1) p by (simp add: wri_def)
    then show ?thesis
      using s1(1) rep_before [OF f(1)] wmove_ok_to [OF f(4) x] f(5) True p ok_stateD(6) [OF assms]
      by (simp add: case_key_backspace_def s'_def s0_def Let_def split del: if_split) (simp add: s0_def)
  next
    case False
    obtain b1 where b1: "wmemmove (buffer s1) (int (length l)) (int (length l) + 1) (length r) = Some b1"
      "wri b1 (int (length l) + int (length r)) 0 = Some ?b"
      using delete_cell [OF n(1)] by auto
    have "wcs_at (buffer s') (bufpos s') = Some r" by (rule wcs_at_cursor [OF rep])
    then have str: "wcs_at ?b (int (length l)) = Some r" unfolding fields .
    have ins: "readline_winsnstr env r (-1) u = Inr u" for u
      using winsnstr_ok f(3,4) by (auto simp: env_ok_def)
    show ?thesis
      using s1(1) rep_before [OF f(1)] wcs_at_cursor [OF f(1)] wmove_ok_to [OF f(4) x] f(5) False p b1 str ins
        ok_stateD(6) [OF assms]
      by (simp add: case_key_backspace_def s'_def s0_def Let_def split del: if_split) (simp add: s0_def)
  qed
  moreover have "disp env s' l"
    using s1(4,5) fields f(2) g(6) wcwidth_ge [of c] by (auto simp: disp_def intro!: exI [of _ k])
  ultimately show ?thesis using f rep fields g(5) by (auto simp: ok_state_def)
qed

lemma key_dc_ok:
  assumes "ok_state env s l (c # r)"
  shows "\<exists>s'. case_key_dc env s = Inr s' \<and> ok_state env (set_mode s') l r"
proof -
  note f = ok_stateD [OF assms]
  obtain n where n: "buffer s = l @ c # r @ replicate (Suc n) 0" "length l + length r + Suc (Suc n) = bufcells"
    using rep_cells [OF f(1)] by auto
  let ?b = "l @ r @ replicate (Suc (Suc n)) 0"
  define s' where "s' = s\<lparr>buffer := ?b, numins := int (length l) + int (length r)\<rparr>"
  have p: "bufpos s = int (length l)" "numins s = int (length l) + int (length r) + 1" using f(6,7) by simp_all
  have rep: "rep s' l r"
    using p n(2) rep_nonzero [OF f(1)] by (intro repI [of s' l r "Suc (Suc n)"]) (auto simp: s'_def)
  have "rep (s\<lparr>bufpos := bufpos s + 1\<rparr>) (l @ [c]) r" using f(1) by (auto simp: rep_def)
  then have rest: "wcs_at (buffer s) (int (length l) + 1) = Some r" using wcs_at_cursor p by fastforce
  have str: "wcs_at ?b (int (length l)) = Some r" using wcs_at_cursor [OF rep] p by (simp add: s'_def)
  obtain b1 where b1: "wmemmove (buffer s) (int (length l)) (int (length l) + 1) (length r) = Some b1"
    "wri b1 (int (length l) + int (length r)) 0 = Some ?b"
    using delete_cell [OF n(1)] by auto
  have ins: "readline_winsnstr env r (-1) u = Inr u" for u using winsnstr_ok f(3,4) by (auto simp: env_ok_def)
  have "case_key_dc env s = Inr s'"
    using f(5) p rest b1 str ins by (simp add: case_key_dc_def s'_def Let_def)
  moreover have "disp env (set_mode s') l" using f(2) by (simp add: disp_def s'_def set_mode_def)
  ultimately show ?thesis
    using f(3,4) rep p by (auto simp: ok_state_def set_mode_def s'_def rep_def)
qed

lemma end_circulation_ok:
  "ok_state env (end_circulation s) l r = ok_state env s l r" "no_bufspc (end_circulation s) = no_bufspc s"
  by (simp_all add: end_circulation_def ok_state_def rep_def disp_def)

lemma handle_key_ok:
  assumes "ok_state env s l r" "narrow env c" "\<not> no_bufspc s" "length l + length r < 2000"
  shows "\<exists>s'. handle_key env c check s = Inr s' \<and> ok_state env s' (l @ [c]) r \<and> no_bufspc s' = no_bufspc s"
proof -
  obtain s1 where s1: "(if hiLim_isset env s then magic_swap_panels env True s else Inr s) = Inr s1"
    "ok_state env s1 l r" "drawn s s1" "curx s1 \<le> COLS env - 2"
    using before_right [OF assms(1)] by blast
  note f = ok_stateD [OF s1(2)] and g = drawn_fields [OF s1(3)]
  let ?w = "readline_wcwidth c FWLEN"
  obtain n where n: "buffer s1 = l @ r @ replicate (Suc n) 0" "length l + length r + Suc n = bufcells"
    using rep_cells [OF f(1)] by auto
  let ?b = "l @ c # r @ replicate n 0"
  define s0 where "s0 = s1\<lparr>buffer := ?b, bufpos := bufpos s1 + 1, numins := numins s1 + 1, vispos := vispos s1 + ?w\<rparr>"
  let ?s' = "s0\<lparr>curx := curx s1 + ?w\<rparr>"
  obtain k where k: "k \<le> length l" "curx s1 = prompt_size s1 + widths (drop k l)"
    using f(2) by (auto simp: disp_def)
  have x: "0 \<le> curx s1" "0 \<le> curx s1 + ?w" "curx s1 + ?w < COLS env"
    using k(2) s1(4) assms(2) f(4) widths_ge [of "drop k l"] wcwidth_ge [of c] by (auto simp: env_ok_def narrow_def)
  have cur: "curses_ok env" using f(4) by (simp add: env_ok_def)
  have hk: "handle_key env c check s = Inr (if check then end_circulation ?s' else ?s')"
  proof (cases "r = []")
    case True
    have "wri (buffer s1) (bufpos s1) c = Some ?b" using True n(1) f(6) by (simp add: wri_def list_update_append)
    moreover have "readline_waddch env c s0 = Inr ?s'" using waddch_ok [OF cur assms(2), of s0] x by (simp add: s0_def)
    ultimately show ?thesis
      using s1(1) assms(3) f(5) True by (simp add: handle_key_def s0_def Let_def split del: if_split) (simp add: s0_def)
  next
    case False
    obtain b1 where b1: "wmemmove (buffer s1) (int (length l) + 1) (int (length l)) (length r) = Some b1"
      "wri b1 (int (length l)) c = Some ?b" using insert_cell [OF n(1)] by blast
    have ins: "readline_winsch env c s0 = Inr s0" using cur assms(2) by (simp add: readline_winsch_def curses_ok_def narrow_def)
    have cx: "curx s0 = curx s1" by (simp add: s0_def)
    have s0: "s1\<lparr>buffer := ?b, bufpos := int (length l) + 1, numins := numins s1 + 1, vispos := vispos s1 + ?w\<rparr> = s0"
      using f(6) by (simp add: s0_def)
    have step: "handle_key env c check s =
      rl_then (if ?w > 0 then wmove_to env (curx s0 + ?w) s0 else Inr s0) (\<lambda>s. Inr (if check then end_circulation s else s))"
      using s1(1) assms(3) f(5,6) False b1 ins wcs_at_cursor [OF f(1)]
      by (simp add: handle_key_def Let_def s0 split del: if_split)
    show ?thesis
    proof (cases "?w > 0")
      case True
      then show ?thesis unfolding step cx using wmove_ok_to [OF f(4) x(2,3)] by simp
    next
      case False
      then have "?w = 0" using wcwidth_ge [of c] by simp
      moreover have "s0\<lparr>curx := curx s1\<rparr> = s0" unfolding cx [symmetric] by simp
      ultimately show ?thesis unfolding step by simp
    qed
  qed
  have "rep ?s' (l @ [c]) r"
    using f(6,7) n(2) assms(2,4) rep_nonzero [OF f(1)]
    by (intro repI [of _ _ _ n]) (auto simp: s0_def narrow_def bufcells_def)
  moreover have "disp env ?s' (l @ [c])"
    using k x(3) by (auto simp: disp_def s0_def intro!: exI [of _ k])
  ultimately have "ok_state env ?s' (l @ [c]) r"
    using f assms(2) by (auto simp: ok_state_def s0_def)
  moreover have "no_bufspc ?s' = no_bufspc s" using g(5) by (simp add: s0_def)
  ultimately show ?thesis using hk by (cases check) (auto simp: end_circulation_ok)
qed

section \<open>The loops\<close>

lemma ctrl_a_ok:
  "ok_state env s l r \<Longrightarrow> \<exists>s'. ctrl_a env s = Inr s' \<and> ok_state env s' [] (l @ r)"
proof (induction l arbitrary: s r rule: rev_induct)
  case Nil
  then show ?case using ok_stateD(6) [OF Nil] by (subst ctrl_a.simps) simp
next
  case (snoc c l)
  obtain s1 where s1: "case_key_left env s = Inr s1" "ok_state env (set_mode s1) l (c # r)"
    using key_left_ok [OF snoc.prems] by blast
  then show ?case using snoc.IH [OF s1(2)] ok_stateD(6) [OF snoc.prems] by (subst ctrl_a.simps) simp
qed

lemma ctrl_e_ok:
  "ok_state env s l r \<Longrightarrow> \<exists>s'. ctrl_e env s = Inr s' \<and> ok_state env s' (l @ r) []"
proof (induction r arbitrary: s l)
  case Nil
  then show ?case using ok_stateD(5) [OF Nil] by (subst ctrl_e.simps) simp
next
  case (Cons c r)
  obtain s1 where s1: "case_key_right env s = Inr s1" "ok_state env (set_mode s1) (l @ [c]) r"
    using key_right_ok [OF Cons.prems] by blast
  then show ?case using Cons.IH [OF s1(2)] ok_stateD(5) [OF Cons.prems] by (subst ctrl_e.simps) simp
qed

section \<open>The contract of the line editor\<close>

text \<open>A key as the loop of \<^verbatim>\<open>process\<close> handles it: the flags are computed first.\<close>

definition edit_key :: "rl_env \<Rightarrow> int edit \<Rightarrow> rl_session \<Rightarrow> rl_session rl" where
  "edit_key env e s0 =
     (let s = set_flags s0; finish = (\<lambda>r. rl_then r (\<lambda>s. Inr (end_circulation s)))
      in case e of
        Type c \<Rightarrow> handle_key env c True s
      | Backspace \<Rightarrow> finish (case_key_backspace env s)
      | Delete \<Rightarrow> finish (case_key_dc env s)
      | edit.Left \<Rightarrow> finish (case_key_left env s)
      | edit.Right \<Rightarrow> finish (case_key_right env s)
      | Home \<Rightarrow> finish (ctrl_a env s)
      | End \<Rightarrow> finish (ctrl_e env s))"

definition session_view :: "rl_session \<Rightarrow> int line" where
  "session_view s = (take (nat (bufpos s)) (buffer s), drop (nat (bufpos s)) (take (nat (numins s)) (buffer s)))"

definition session_ok :: "rl_env \<Rightarrow> rl_session \<Rightarrow> bool" where
  "session_ok env s \<longleftrightarrow> (\<exists>l r. ok_state env (set_flags s) l r)"

definition line_cap :: nat where "line_cap = 1999"

lemma view_rep: "rep s l r \<Longrightarrow> session_view s = (l, r)"
  by (simp add: rep_def session_view_def nat_add_distrib)

lemma flags_ok: "ok_state env (set_flags s) l r = ok_state env (set_mode s) l r"
  by (simp add: set_flags_def ok_state_def rep_def disp_def)

lemma ok_set_flags: "ok_state env s l r \<Longrightarrow> ok_state env (set_flags s) l r"
  by (auto simp: set_flags_def set_mode_def ok_state_def rep_def disp_def)

lemma view_flags: "session_view (set_flags s) = session_view s" "session_view (set_mode s) = session_view s"
  "session_view (end_circulation s) = session_view s"
  by (simp_all add: session_view_def set_flags_def set_mode_def end_circulation_def)

lemma ok_end_mode: "ok_state env (set_mode (end_circulation s)) l r = ok_state env (set_mode s) l r"
  by (simp add: end_circulation_def ok_state_def rep_def disp_def set_mode_def)

lemma session_okI: "ok_state env (set_mode s) l r \<Longrightarrow> session_ok env s \<and> session_view s = (l, r)"
  using view_rep [OF ok_stateD(1), of env "set_mode s" l r] by (auto simp: session_ok_def flags_ok view_flags)

lemma ok_mode: "ok_state env s l r \<Longrightarrow> ok_state env (set_mode s) l r"
  using ok_set_flags flags_ok by blast

lemma no_bufspc_flags: "ok_state env (set_flags s) l r \<Longrightarrow> no_bufspc (set_flags s) = (line_cap \<le> length l + length r)"
  using ok_stateD(7) [of env "set_flags s" l r] by (auto simp: set_flags_def set_mode_def g_readline_bufsize_def line_cap_def)

definition refined :: "rl_env \<Rightarrow> int edit \<Rightarrow> rl_session \<Rightarrow> bool" where
  "refined env e s \<longleftrightarrow> (\<exists>s'. edit_key env e s = Inr s' \<and> session_ok env s'
     \<and> session_view s' = edit_line line_cap e (session_view s))"

lemma refinedI:
  assumes "edit_key env e s = Inr (end_circulation s')" "ok_state env (set_mode s') l r"
    "edit_line line_cap e (session_view s) = (l, r)"
  shows "refined env e s"
  using session_okI [of env "end_circulation s'" l r] assms by (simp add: refined_def ok_end_mode)

lemma refined_type:
  assumes "ok_state env (set_flags s) l r" "session_view s = (l, r)" "narrow env c"
  shows "refined env (Type c) s"
proof (cases "line_cap \<le> length l + length r")
  case True
  then have "edit_key env (Type c) s = Inr (set_flags s)"
    using no_bufspc_flags [OF assms(1)] by (simp add: edit_key_def handle_key_def)
  then show ?thesis using session_okI [OF ok_mode [OF assms(1)]] True assms(2) by (simp add: refined_def)
next
  case False
  then obtain s' where "handle_key env c True (set_flags s) = Inr s'" "ok_state env s' (l @ [c]) r"
    using handle_key_ok [OF assms(1,3), of True] no_bufspc_flags [OF assms(1)] by (auto simp: line_cap_def)
  then show ?thesis using False assms(2) session_okI [OF ok_mode] by (simp add: refined_def edit_key_def)
qed

lemma refined_left:
  assumes "ok_state env (set_flags s) l r" "session_view s = (l, r)"
  shows "refined env Backspace s" "refined env edit.Left s"
proof -
  have "refined env Backspace s \<and> refined env edit.Left s"
  proof (cases l rule: rev_cases)
    case Nil
    then have "edit_key env Backspace s = Inr (end_circulation (set_flags s))"
      "edit_key env edit.Left s = Inr (end_circulation (set_flags s))"
      using ok_stateD(6) [OF assms(1)] by (simp_all add: edit_key_def case_key_backspace_def case_key_left_def)
    then show ?thesis using refinedI [OF _ ok_mode [OF assms(1)]] assms(2) Nil by simp
  next
    case (snoc l' c)
    obtain s1 where "case_key_backspace env (set_flags s) = Inr s1" "ok_state env (set_mode s1) l' r"
      using key_backspace_ok [of env "set_flags s" l' c r] assms(1) snoc ok_mode by blast
    moreover obtain s2 where "case_key_left env (set_flags s) = Inr s2" "ok_state env (set_mode s2) l' (c # r)"
      using key_left_ok [of env "set_flags s" l' c r] assms(1) snoc by blast
    ultimately show ?thesis using refinedI assms(2) snoc by (simp add: edit_key_def)
  qed
  then show "refined env Backspace s" "refined env edit.Left s" by simp_all
qed

lemma refined_right:
  assumes "ok_state env (set_flags s) l r" "session_view s = (l, r)"
  shows "refined env Delete s" "refined env edit.Right s"
proof -
  have "refined env Delete s \<and> refined env edit.Right s"
  proof (cases r)
    case Nil
    then have "edit_key env Delete s = Inr (end_circulation (set_flags s))"
      "edit_key env edit.Right s = Inr (end_circulation (set_flags s))"
      using ok_stateD(5) [OF assms(1)] by (simp_all add: edit_key_def case_key_dc_def case_key_right_def)
    then show ?thesis using refinedI [OF _ ok_mode [OF assms(1)]] assms(2) Nil by simp
  next
    case (Cons c r')
    obtain s1 where "case_key_dc env (set_flags s) = Inr s1" "ok_state env (set_mode s1) l r'"
      using key_dc_ok [of env "set_flags s" l c r'] assms(1) Cons by blast
    moreover obtain s2 where "case_key_right env (set_flags s) = Inr s2" "ok_state env (set_mode s2) (l @ [c]) r'"
      using key_right_ok [of env "set_flags s" l c r'] assms(1) Cons by blast
    ultimately show ?thesis using refinedI assms(2) Cons by (simp add: edit_key_def)
  qed
  then show "refined env Delete s" "refined env edit.Right s" by simp_all
qed

lemma refined_ends:
  assumes "ok_state env (set_flags s) l r" "session_view s = (l, r)"
  shows "refined env Home s" "refined env End s"
proof -
  obtain s1 s2 where "ctrl_a env (set_flags s) = Inr s1" "ok_state env s1 [] (l @ r)"
    "ctrl_e env (set_flags s) = Inr s2" "ok_state env s2 (l @ r) []"
    using ctrl_a_ok [OF assms(1)] ctrl_e_ok [OF assms(1)] by blast
  then show "refined env Home s" "refined env End s"
    using refinedI [OF _ ok_mode] assms(2) by (simp_all add: edit_key_def)
qed

lemma edit_key_refines:
  assumes "session_ok env s" "\<forall>c\<in>edit_chars e. narrow env c"
  shows "refined env e s"
proof -
  obtain l r where ok: "ok_state env (set_flags s) l r" using assms(1) by (auto simp: session_ok_def)
  have v: "session_view s = (l, r)" using view_rep [OF ok_stateD(1) [OF ok]] by (simp add: view_flags)
  show ?thesis
    using refined_type [OF ok v] refined_left [OF ok v] refined_right [OF ok v] refined_ends [OF ok v] assms(2)
    by (cases e) simp_all
qed

definition edit_step :: "rl_env \<Rightarrow> int edit \<Rightarrow> rl_session \<Rightarrow> rl_session option" where
  "edit_step env e s = (case edit_key env e s of Inl _ \<Rightarrow> None | Inr s' \<Rightarrow> Some s')"

interpretation rl: line_editor "session_ok env" session_view "narrow env" line_cap "edit_step env" for env
proof
  show "\<exists>s'. edit_step env e s = Some s' \<and> session_ok env s' \<and> session_view s' = edit_line line_cap e (session_view s)"
    if "session_ok env s" "\<forall>c\<in>edit_chars e. narrow env c" for s e
    using edit_key_refines [OF that] by (auto simp: refined_def edit_step_def)
qed

lemma new_session_ok:
  assumes "env_ok env psize"
  shows "session_ok env (write_cmdprompt env (new_session psize))" "session_view (new_session psize) = ([], [])"
proof -
  have "ok_state env (set_flags (write_cmdprompt env (new_session psize))) [] []"
    using assms by (auto simp: ok_state_def rep_def disp_def env_ok_def set_flags_def set_mode_def write_cmdprompt_def
        new_session_def bufcells_def g_readline_bufsize_def eval_nat_numeral)
  then show "session_ok env (write_cmdprompt env (new_session psize))" by (auto simp: session_ok_def)
qed (simp add: session_view_def new_session_def)

section \<open>Properties\<close>

text \<open>A terminal of eighty columns, on which every character takes what the width tables say.\<close>

definition example_rl_env :: rl_env where
  "example_rl_env = \<lparr>COLS = 80, prompt_cols = 10, wmove_ok = (\<lambda>x. 0 \<le> x \<and> x < 80),
     add_ok = (\<lambda>x c. x + readline_wcwidth c FWLEN < 80), ins_ok = (\<lambda>_ _. True),
     cell_width = (\<lambda>c. readline_wcwidth c FWLEN), conv_ok = (\<lambda>c. 0 \<le> c)\<rparr>"

lemma example_rl_env: "env_ok example_rl_env 10"
  by (simp add: env_ok_def curses_ok_def example_rl_env_def limits_defs)

lemma ascii_narrow: "0x20 \<le> c \<Longrightarrow> c \<le> 0xFF \<Longrightarrow> narrow example_rl_env c"
  by (simp add: narrow_def example_rl_env_def readline_wcwidth_def xwcwidth_def)

definition example_session :: rl_session where
  "example_session = write_cmdprompt example_rl_env (new_session 10)"

text \<open>
  Property C21. The line editor implements the abstract line editor: whatever is typed, deleted and
  moved over, on a terminal whose half width leaves two columns beside the prompt and with
  characters of at most one column, no access leaves the buffer, no curses call fails, and the
  line and the cursor are those of the specification, in which a line has at most 1999 characters.
\<close>

theorem line_editor_refines:
  assumes "env_ok env psize" "\<forall>e\<in>set es. \<forall>c\<in>edit_chars e. narrow env c"
  shows "\<exists>s. run_edits (edit_step env) es (write_cmdprompt env (new_session psize)) = Some s
    \<and> session_ok env s \<and> session_view s = edit_lines line_cap es ([], [])"
proof -
  have "session_view (write_cmdprompt env (new_session psize)) = ([], [])"
    using new_session_ok(2) [OF assms(1)] by (simp add: session_view_def write_cmdprompt_def)
  then show ?thesis using rl.run_refines [OF new_session_ok(1) [OF assms(1)] assms(2)] by simp
qed

theorem line_editor_refines_witness:
  "\<exists>s. run_edits (edit_step example_rl_env) [Type 0x61, Type 0x63, edit.Left, Type 0x62] example_session = Some s
     \<and> session_view s = ([0x61, 0x62], [0x63])"
proof -
  have "\<forall>e\<in>set [Type 0x61, Type 0x63, edit.Left, Type 0x62]. \<forall>c\<in>edit_chars e. narrow example_rl_env c"
    by (simp add: ascii_narrow)
  from line_editor_refines [OF example_rl_env this] show ?thesis
    by (auto simp: example_session_def edit_lines_def line_cap_def)
qed

text \<open>
  A full-width character is not always taken: when the cursor stands two columns
  before the end of the panel and the line goes on behind it, the move of the cursor over the
  inserted character leaves the screen, the session is abandoned and the line is lost.
\<close>

theorem wide_character_loses_line:
  assumes "rep s l r" "r \<noteq> []" "insert_mode s" "\<not> no_bufspc s" "curx s = COLS env - 2"
    "readline_wcwidth c FWLEN = 2" "conv_ok env c" "ins_ok env (curx s) c" "\<not> wmove_ok env (COLS env)"
  shows "handle_key env c check s = Inl Restart"
proof -
  obtain n where n: "buffer s = l @ r @ replicate (Suc n) 0" using rep_cells [OF assms(1)] by blast
  obtain b1 where b1: "wmemmove (buffer s) (int (length l) + 1) (int (length l)) (length r) = Some b1"
    "wri b1 (int (length l)) c = Some (l @ c # r @ replicate n 0)" using insert_cell [OF n] by blast
  have p: "bufpos s = int (length l)" using assms(1) by (simp add: rep_def)
  have "\<not> is_text_decoration c" using assms(6) deco_width [of c] by auto
  then show ?thesis
    using assms(3-9) wcs_at_cursor [OF assms(1)] b1 p
    by (simp add: handle_key_def hiLim_isset_def readline_winsch_def wmove_to_def Let_def)
qed

theorem wide_character_loses_line_witness:
  "\<exists>s. session_view s = ([0x61], [0x62]) \<and> handle_key example_rl_env 0x4E00 True s = Inl Restart"
proof -
  let ?s = "(new_session 10)\<lparr>buffer := 0x61 # 0x62 # replicate 1999 0, bufpos := 1, numins := 2,
    insert_mode := True, curx := 78\<rparr>"
  have rep: "rep ?s [0x61] [0x62]" by (simp add: rep_def bufcells_def)
  have w: "readline_wcwidth 0x4E00 FWLEN = 2" by code_simp
  have "handle_key example_rl_env 0x4E00 True ?s = Inl Restart"
    by (rule wide_character_loses_line [OF rep]) (simp_all add: example_rl_env_def new_session_def w)
  then show ?thesis using view_rep [OF rep] by blast
qed

end
