(* ===== verification/Tab_Completion.thy ===== *)
theory Tab_Completion
  imports Readline_Edit Window
begin

text \<open>
  Completion with the TAB key: \<^verbatim>\<open>src/src/readlineTabCompletion.c\<close>.

  The first TAB stores the line, finds the kind of completion by its prefix, asks for the list of
  matches and shows the first; each further TAB shows the next.  The lists of commands, settings
  and channel members come from other components and are parameters; channels and queries come
  from the window system.  Messages for the user are listed in the result.  The result \<^const>\<open>None\<close>
  of the loop that empties the line means that it runs forever.
\<close>

section \<open>Environment\<close>

record tab_env =
  ACTWINLABEL :: string
  tab_windows :: win_state
  channel_users :: "string \<Rightarrow> string \<Rightarrow> string list option"
  matching_cmds :: "tab_mode \<Rightarrow> string \<Rightarrow> string list option"
  wcstombs :: "int list \<Rightarrow> string option"
  btowc :: "char \<Rightarrow> int"

definition MB_LEN_MAX :: nat where "MB_LEN_MAX = 16"

definition finalize_out_string :: "tab_env \<Rightarrow> int list \<Rightarrow> string" where
  "finalize_out_string tenv buf =
     (let sz = (length buf + 1) * MB_LEN_MAX in
      case wcstombs tenv buf of None \<Rightarrow> [] | Some out \<Rightarrow> take (sz - 1) out)"

section \<open>Replacing the line\<close>

partial_function (option) clear_line :: "rl_env \<Rightarrow> rl_session \<Rightarrow> rl_session rl option" where
  "clear_line env s = (if numins s = 0 then Some (Inr s)
     else case case_key_backspace env s of Inl e \<Rightarrow> Some (Inl e) | Inr s' \<Rightarrow> clear_line env s')"

fun keys :: "rl_env \<Rightarrow> int list \<Rightarrow> rl_session \<Rightarrow> rl_session rl" where
  "keys env [] s = Inr s"
| "keys env (c # cs) s = rl_then (handle_key env c False s) (keys env cs)"

definition do_work :: "rl_env \<Rightarrow> tab_env \<Rightarrow> int list \<Rightarrow> string \<Rightarrow> rl_session \<Rightarrow> rl_session rl option" where
  "do_work env tenv cmd str s =
     map_option (\<lambda>r. rl_then (rl_then r (keys env cmd)) (keys env (map (btowc tenv) str))) (clear_line env s)"

definition wide :: "string \<Rightarrow> int list" where
  "wide str = map (\<lambda>c. int (of_char c)) str"

text \<open>The functions \<^verbatim>\<open>auto_complete_*\<close>, one for each kind.\<close>

definition auto_complete_connect :: "rl_env \<Rightarrow> tab_env \<Rightarrow> string \<Rightarrow> rl_session \<Rightarrow> rl_session rl option" where
  "auto_complete_connect env tenv str s = do_work env tenv (wide ''/connect '') str s"

definition auto_complete_cs :: "rl_env \<Rightarrow> tab_env \<Rightarrow> string \<Rightarrow> rl_session \<Rightarrow> rl_session rl option" where
  "auto_complete_cs env tenv str s = do_work env tenv (wide ''/cs '') str s"

definition auto_complete_dcc :: "rl_env \<Rightarrow> tab_env \<Rightarrow> string \<Rightarrow> rl_session \<Rightarrow> rl_session rl option" where
  "auto_complete_dcc env tenv str s = do_work env tenv (wide ''/dcc '') str s"

definition auto_complete_deop :: "rl_env \<Rightarrow> tab_env \<Rightarrow> string \<Rightarrow> rl_session \<Rightarrow> rl_session rl option" where
  "auto_complete_deop env tenv str s = do_work env tenv (wide ''/deop '') str s"

definition auto_complete_devoice :: "rl_env \<Rightarrow> tab_env \<Rightarrow> string \<Rightarrow> rl_session \<Rightarrow> rl_session rl option" where
  "auto_complete_devoice env tenv str s = do_work env tenv (wide ''/devoice '') str s"

definition auto_complete_ftp :: "rl_env \<Rightarrow> tab_env \<Rightarrow> string \<Rightarrow> rl_session \<Rightarrow> rl_session rl option" where
  "auto_complete_ftp env tenv str s = do_work env tenv (wide ''/ftp '') str s"

definition auto_complete_help :: "rl_env \<Rightarrow> tab_env \<Rightarrow> string \<Rightarrow> rl_session \<Rightarrow> rl_session rl option" where
  "auto_complete_help env tenv str s = do_work env tenv (wide ''/help '') str s"

definition auto_complete_kick :: "rl_env \<Rightarrow> tab_env \<Rightarrow> string \<Rightarrow> rl_session \<Rightarrow> rl_session rl option" where
  "auto_complete_kick env tenv str s = do_work env tenv (wide ''/kick '') str s"

definition auto_complete_kickban :: "rl_env \<Rightarrow> tab_env \<Rightarrow> string \<Rightarrow> rl_session \<Rightarrow> rl_session rl option" where
  "auto_complete_kickban env tenv str s = do_work env tenv (wide ''/kickban '') str s"

definition auto_complete_log :: "rl_env \<Rightarrow> tab_env \<Rightarrow> string \<Rightarrow> rl_session \<Rightarrow> rl_session rl option" where
  "auto_complete_log env tenv str s = do_work env tenv (wide ''/log '') str s"

definition auto_complete_mode :: "rl_env \<Rightarrow> tab_env \<Rightarrow> string \<Rightarrow> rl_session \<Rightarrow> rl_session rl option" where
  "auto_complete_mode env tenv str s = do_work env tenv (wide ''/mode '') str s"

definition auto_complete_msg :: "rl_env \<Rightarrow> tab_env \<Rightarrow> string \<Rightarrow> rl_session \<Rightarrow> rl_session rl option" where
  "auto_complete_msg env tenv str s = do_work env tenv (wide ''/msg '') str s"

definition auto_complete_notice :: "rl_env \<Rightarrow> tab_env \<Rightarrow> string \<Rightarrow> rl_session \<Rightarrow> rl_session rl option" where
  "auto_complete_notice env tenv str s = do_work env tenv (wide ''/notice '') str s"

definition auto_complete_ns :: "rl_env \<Rightarrow> tab_env \<Rightarrow> string \<Rightarrow> rl_session \<Rightarrow> rl_session rl option" where
  "auto_complete_ns env tenv str s = do_work env tenv (wide ''/ns '') str s"

definition auto_complete_op :: "rl_env \<Rightarrow> tab_env \<Rightarrow> string \<Rightarrow> rl_session \<Rightarrow> rl_session rl option" where
  "auto_complete_op env tenv str s = do_work env tenv (wide ''/op '') str s"

definition auto_complete_query :: "rl_env \<Rightarrow> tab_env \<Rightarrow> string \<Rightarrow> rl_session \<Rightarrow> rl_session rl option" where
  "auto_complete_query env tenv str s = do_work env tenv (wide ''/query '') str s"

definition auto_complete_sasl :: "rl_env \<Rightarrow> tab_env \<Rightarrow> string \<Rightarrow> rl_session \<Rightarrow> rl_session rl option" where
  "auto_complete_sasl env tenv str s = do_work env tenv (wide ''/sasl '') str s"

definition auto_complete_setting :: "rl_env \<Rightarrow> tab_env \<Rightarrow> string \<Rightarrow> rl_session \<Rightarrow> rl_session rl option" where
  "auto_complete_setting env tenv str s = do_work env tenv (wide ''/set '') str s"

definition auto_complete_squery :: "rl_env \<Rightarrow> tab_env \<Rightarrow> string \<Rightarrow> rl_session \<Rightarrow> rl_session rl option" where
  "auto_complete_squery env tenv str s = do_work env tenv (wide ''/squery '') str s"

definition auto_complete_theme :: "rl_env \<Rightarrow> tab_env \<Rightarrow> string \<Rightarrow> rl_session \<Rightarrow> rl_session rl option" where
  "auto_complete_theme env tenv str s = do_work env tenv (wide ''/theme '') str s"

definition auto_complete_time :: "rl_env \<Rightarrow> tab_env \<Rightarrow> string \<Rightarrow> rl_session \<Rightarrow> rl_session rl option" where
  "auto_complete_time env tenv str s = do_work env tenv (wide ''/time '') str s"

definition auto_complete_version :: "rl_env \<Rightarrow> tab_env \<Rightarrow> string \<Rightarrow> rl_session \<Rightarrow> rl_session rl option" where
  "auto_complete_version env tenv str s = do_work env tenv (wide ''/version '') str s"

definition auto_complete_voice :: "rl_env \<Rightarrow> tab_env \<Rightarrow> string \<Rightarrow> rl_session \<Rightarrow> rl_session rl option" where
  "auto_complete_voice env tenv str s = do_work env tenv (wide ''/voice '') str s"

definition auto_complete_whois :: "rl_env \<Rightarrow> tab_env \<Rightarrow> string \<Rightarrow> rl_session \<Rightarrow> rl_session rl option" where
  "auto_complete_whois env tenv str s = do_work env tenv (wide ''/whois '') str s"

definition auto_complete_znc_cmd :: "rl_env \<Rightarrow> tab_env \<Rightarrow> string \<Rightarrow> rl_session \<Rightarrow> rl_session rl option" where
  "auto_complete_znc_cmd env tenv str s = do_work env tenv (wide ''/znc '') str s"

definition auto_complete_command :: "rl_env \<Rightarrow> tab_env \<Rightarrow> string \<Rightarrow> rl_session \<Rightarrow> rl_session rl option" where
  "auto_complete_command env tenv str s =
     map_option (\<lambda>r. rl_then (rl_then r (handle_key env 0x2F False)) (keys env (map (btowc tenv) str))) (clear_line env s)"

definition auto_complete_channel_user :: "rl_env \<Rightarrow> tab_env \<Rightarrow> string \<Rightarrow> rl_session \<Rightarrow> rl_session rl option" where
  "auto_complete_channel_user env tenv str s =
     map_option (\<lambda>r. rl_then (rl_then (rl_then r (keys env (map (btowc tenv) str))) (handle_key env 0x3A False))
       (handle_key env 0x20 False)) (clear_line env s)"

text \<open>The function that is passed to \<^verbatim>\<open>ac_doit\<close> for each kind.\<close>

fun auto_complete :: "rl_env \<Rightarrow> tab_env \<Rightarrow> tab_mode \<Rightarrow> string \<Rightarrow> rl_session \<Rightarrow> rl_session rl option" where
  "auto_complete env tenv Connect str s = auto_complete_connect env tenv str s"
| "auto_complete env tenv Cs str s = auto_complete_cs env tenv str s"
| "auto_complete env tenv Dcc str s = auto_complete_dcc env tenv str s"
| "auto_complete env tenv Deop str s = auto_complete_deop env tenv str s"
| "auto_complete env tenv Devoice str s = auto_complete_devoice env tenv str s"
| "auto_complete env tenv Ftp str s = auto_complete_ftp env tenv str s"
| "auto_complete env tenv Help str s = auto_complete_help env tenv str s"
| "auto_complete env tenv Kick str s = auto_complete_kick env tenv str s"
| "auto_complete env tenv Kickban str s = auto_complete_kickban env tenv str s"
| "auto_complete env tenv Log str s = auto_complete_log env tenv str s"
| "auto_complete env tenv Mode str s = auto_complete_mode env tenv str s"
| "auto_complete env tenv Msg str s = auto_complete_msg env tenv str s"
| "auto_complete env tenv Notice str s = auto_complete_notice env tenv str s"
| "auto_complete env tenv Ns str s = auto_complete_ns env tenv str s"
| "auto_complete env tenv Op str s = auto_complete_op env tenv str s"
| "auto_complete env tenv Query str s = auto_complete_query env tenv str s"
| "auto_complete env tenv Sasl str s = auto_complete_sasl env tenv str s"
| "auto_complete env tenv Settings str s = auto_complete_setting env tenv str s"
| "auto_complete env tenv Squery str s = auto_complete_squery env tenv str s"
| "auto_complete env tenv Theme str s = auto_complete_theme env tenv str s"
| "auto_complete env tenv Time str s = auto_complete_time env tenv str s"
| "auto_complete env tenv Version str s = auto_complete_version env tenv str s"
| "auto_complete env tenv Voice str s = auto_complete_voice env tenv str s"
| "auto_complete env tenv Whois str s = auto_complete_whois env tenv str s"
| "auto_complete env tenv ZncCmds str s = auto_complete_znc_cmd env tenv str s"
| "auto_complete env tenv Cmds str s = auto_complete_command env tenv str s"
| "auto_complete env tenv ChanUsers str s = auto_complete_channel_user env tenv str s"

section \<open>Finding the matches\<close>

definition get_matches_common :: "tab_env \<Rightarrow> string \<Rightarrow> string list option" where
  "get_matches_common tenv srch =
     (if \<not> is_irc_channel (Some (ACTWINLABEL tenv)) then
        (if \<not> is_irc_channel (Some srch) then get_list_of_matching_queries (tab_windows tenv) srch
         else get_list_of_matching_channels (tab_windows tenv) srch)
      else if is_irc_channel (Some srch) then get_list_of_matching_channels (tab_windows tenv) srch
      else channel_users tenv (ACTWINLABEL tenv) srch)"

definition service_hosts :: "string list" where
  "service_hosts =
     [''chanserv_host services.'', ''chanserv_host services.alphachat.net'',
      ''chanserv_host services.anonops.com'', ''chanserv_host services.irc.ircnow.org'',
      ''chanserv_host services.oftc.net'',
      ''nickserv_host services.'', ''nickserv_host services.alphachat.net'',
      ''nickserv_host services.anonops.com'', ''nickserv_host services.irc.ircnow.org'',
      ''nickserv_host services.oftc.net'']"

definition get_service_hosts :: "string \<Rightarrow> string list option" where
  "get_service_hosts sv =
     (let ms = filter (\<lambda>h. strncmp_eq sv h (length sv)) service_hosts in if ms = [] then None else Some ms)"

definition set_matches :: "tab_env \<Rightarrow> string \<Rightarrow> string list option" where
  "set_matches tenv cp =
     (if strncmp_eq cp ''chanserv_host '' 14 \<or> strncmp_eq cp ''nickserv_host '' 14
      then get_service_hosts cp else matching_cmds tenv Settings cp)"

section \<open>Starting a completion\<close>

type_synonym tab_result = "(rl_session \<times> string list) rl option"

definition with_msgs :: "string list \<Rightarrow> rl_session rl option \<Rightarrow> tab_result" where
  "with_msgs msgs r = map_option (\<lambda>r. rl_then r (\<lambda>s. Inr (s, msgs))) r"

definition output_error :: "string \<Rightarrow> rl_session \<Rightarrow> tab_result" where
  "output_error msg s = Some (Inr (s, [msg]))"

definition circulate :: "tab_mode \<Rightarrow> tab_completion \<Rightarrow> tab_completion" where
  "circulate mode t = t\<lparr>isInCirculationModeFor := (isInCirculationModeFor t)(mode := True)\<rparr>"

text \<open>
  The part that the functions \<^verbatim>\<open>init_mode_for_*\<close> share: the matches are stored, the first is
  shown, and the kind is noted.
\<close>

definition show_first :: "rl_env \<Rightarrow> tab_env \<Rightarrow> tab_mode \<Rightarrow> string list option \<Rightarrow> rl_session \<Rightarrow> tab_result" where
  "show_first env tenv mode found s =
     (case found of
        None \<Rightarrow> output_error ''no magic'' (s\<lparr>tc := (tc s)\<lparr>matches := None\<rparr>\<rparr>)
      | Some [] \<Rightarrow> Some (Inl Bad_access)
      | Some (m # ms) \<Rightarrow>
          with_msgs [] (map_option
            (\<lambda>r. rl_then r (\<lambda>s. Inr (s\<lparr>tc := circulate mode (tc s)\<rparr>)))
            (auto_complete env tenv mode m (s\<lparr>tc := (tc s)\<lparr>matches := Some (m # ms), elmt := 0\<rparr>\<rparr>))))"

definition show_member :: "rl_env \<Rightarrow> tab_env \<Rightarrow> tab_mode \<Rightarrow> nat \<Rightarrow> rl_session \<Rightarrow> tab_result" where
  "show_member env tenv mode off s =
     (if \<not> is_irc_channel (Some (ACTWINLABEL tenv)) then output_error ''not in irc channel'' s
      else show_first env tenv mode (channel_users tenv (ACTWINLABEL tenv) (drop off (search_var (tc s)))) s)"

definition init_mode_for_connect :: "rl_env \<Rightarrow> tab_env \<Rightarrow> rl_session \<Rightarrow> tab_result" where
  "init_mode_for_connect env tenv s =
     show_first env tenv Connect (matching_cmds tenv Connect (drop 9 (search_var (tc s)))) s"

definition init_mode_for_cs :: "rl_env \<Rightarrow> tab_env \<Rightarrow> nat \<Rightarrow> rl_session \<Rightarrow> tab_result" where
  "init_mode_for_cs env tenv offset s =
     show_first env tenv Cs (matching_cmds tenv Cs (drop offset (search_var (tc s)))) s"

definition init_mode_for_dcc :: "rl_env \<Rightarrow> tab_env \<Rightarrow> rl_session \<Rightarrow> tab_result" where
  "init_mode_for_dcc env tenv s =
     show_first env tenv Dcc (matching_cmds tenv Dcc (drop 5 (search_var (tc s)))) s"

definition init_mode_for_deop :: "rl_env \<Rightarrow> tab_env \<Rightarrow> rl_session \<Rightarrow> tab_result" where
  "init_mode_for_deop env tenv s =
     show_member env tenv Deop 6 s"

definition init_mode_for_devoice :: "rl_env \<Rightarrow> tab_env \<Rightarrow> rl_session \<Rightarrow> tab_result" where
  "init_mode_for_devoice env tenv s =
     show_member env tenv Devoice 9 s"

definition init_mode_for_ftp :: "rl_env \<Rightarrow> tab_env \<Rightarrow> rl_session \<Rightarrow> tab_result" where
  "init_mode_for_ftp env tenv s =
     show_first env tenv Ftp (matching_cmds tenv Ftp (drop 5 (search_var (tc s)))) s"

definition init_mode_for_help :: "rl_env \<Rightarrow> tab_env \<Rightarrow> rl_session \<Rightarrow> tab_result" where
  "init_mode_for_help env tenv s =
     show_first env tenv Help (matching_cmds tenv Help (drop 6 (search_var (tc s)))) s"

definition init_mode_for_kick :: "rl_env \<Rightarrow> tab_env \<Rightarrow> rl_session \<Rightarrow> tab_result" where
  "init_mode_for_kick env tenv s =
     show_member env tenv Kick 6 s"

definition init_mode_for_kickban :: "rl_env \<Rightarrow> tab_env \<Rightarrow> rl_session \<Rightarrow> tab_result" where
  "init_mode_for_kickban env tenv s =
     show_member env tenv Kickban 9 s"

definition init_mode_for_log :: "rl_env \<Rightarrow> tab_env \<Rightarrow> rl_session \<Rightarrow> tab_result" where
  "init_mode_for_log env tenv s =
     show_first env tenv Log (matching_cmds tenv Log (drop 5 (search_var (tc s)))) s"

definition init_mode_for_mode :: "rl_env \<Rightarrow> tab_env \<Rightarrow> rl_session \<Rightarrow> tab_result" where
  "init_mode_for_mode env tenv s =
     show_first env tenv Mode (get_matches_common tenv (drop 6 (search_var (tc s)))) s"

definition init_mode_for_msg :: "rl_env \<Rightarrow> tab_env \<Rightarrow> rl_session \<Rightarrow> tab_result" where
  "init_mode_for_msg env tenv s =
     show_first env tenv Msg (get_matches_common tenv (drop 5 (search_var (tc s)))) s"

definition init_mode_for_notice :: "rl_env \<Rightarrow> tab_env \<Rightarrow> rl_session \<Rightarrow> tab_result" where
  "init_mode_for_notice env tenv s =
     show_first env tenv Notice (get_matches_common tenv (drop 8 (search_var (tc s)))) s"

definition init_mode_for_ns :: "rl_env \<Rightarrow> tab_env \<Rightarrow> nat \<Rightarrow> rl_session \<Rightarrow> tab_result" where
  "init_mode_for_ns env tenv offset s =
     show_first env tenv Ns (matching_cmds tenv Ns (drop offset (search_var (tc s)))) s"

definition init_mode_for_op :: "rl_env \<Rightarrow> tab_env \<Rightarrow> rl_session \<Rightarrow> tab_result" where
  "init_mode_for_op env tenv s =
     show_member env tenv Op 4 s"

definition init_mode_for_query :: "rl_env \<Rightarrow> tab_env \<Rightarrow> rl_session \<Rightarrow> tab_result" where
  "init_mode_for_query env tenv s =
     show_member env tenv Query 7 s"

definition init_mode_for_sasl :: "rl_env \<Rightarrow> tab_env \<Rightarrow> rl_session \<Rightarrow> tab_result" where
  "init_mode_for_sasl env tenv s =
     show_first env tenv Sasl (matching_cmds tenv Sasl (drop 6 (search_var (tc s)))) s"

definition init_mode_for_set :: "rl_env \<Rightarrow> tab_env \<Rightarrow> rl_session \<Rightarrow> tab_result" where
  "init_mode_for_set env tenv s =
     show_first env tenv Settings (set_matches tenv (drop 5 (search_var (tc s)))) s"

definition init_mode_for_squery :: "rl_env \<Rightarrow> tab_env \<Rightarrow> rl_session \<Rightarrow> tab_result" where
  "init_mode_for_squery env tenv s =
     show_first env tenv Squery (matching_cmds tenv Squery (drop 8 (search_var (tc s)))) s"

definition init_mode_for_theme :: "rl_env \<Rightarrow> tab_env \<Rightarrow> rl_session \<Rightarrow> tab_result" where
  "init_mode_for_theme env tenv s =
     show_first env tenv Theme (matching_cmds tenv Theme (drop 7 (search_var (tc s)))) s"

definition init_mode_for_time :: "rl_env \<Rightarrow> tab_env \<Rightarrow> rl_session \<Rightarrow> tab_result" where
  "init_mode_for_time env tenv s =
     show_first env tenv Time (get_matches_common tenv (drop 6 (search_var (tc s)))) s"

definition init_mode_for_version :: "rl_env \<Rightarrow> tab_env \<Rightarrow> rl_session \<Rightarrow> tab_result" where
  "init_mode_for_version env tenv s =
     show_first env tenv Version (get_matches_common tenv (drop 9 (search_var (tc s)))) s"

definition init_mode_for_voice :: "rl_env \<Rightarrow> tab_env \<Rightarrow> rl_session \<Rightarrow> tab_result" where
  "init_mode_for_voice env tenv s =
     show_member env tenv Voice 7 s"

definition init_mode_for_whois :: "rl_env \<Rightarrow> tab_env \<Rightarrow> rl_session \<Rightarrow> tab_result" where
  "init_mode_for_whois env tenv s =
     show_first env tenv Whois
       (if \<not> is_irc_channel (Some (ACTWINLABEL tenv))
        then get_list_of_matching_queries (tab_windows tenv) (drop 7 (search_var (tc s)))
        else channel_users tenv (ACTWINLABEL tenv) (drop 7 (search_var (tc s)))) s"

definition init_mode_for_znc_cmds :: "rl_env \<Rightarrow> tab_env \<Rightarrow> rl_session \<Rightarrow> tab_result" where
  "init_mode_for_znc_cmds env tenv s =
     show_first env tenv ZncCmds (matching_cmds tenv ZncCmds (drop 5 (search_var (tc s)))) s"

definition init_mode_for_commands :: "rl_env \<Rightarrow> tab_env \<Rightarrow> bool \<Rightarrow> rl_session \<Rightarrow> tab_result" where
  "init_mode_for_commands env tenv numins_greater_than_one s =
     (if \<not> numins_greater_than_one then output_error ''no magic'' s
      else show_first env tenv Cmds (matching_cmds tenv Cmds (drop 1 (search_var (tc s)))) s)"

definition init_mode_for_channel_users :: "rl_env \<Rightarrow> tab_env \<Rightarrow> rl_session \<Rightarrow> tab_result" where
  "init_mode_for_channel_users env tenv s =
     show_first env tenv ChanUsers (channel_users tenv (ACTWINLABEL tenv) (search_var (tc s))) s"

definition var_matches_cs :: "string \<Rightarrow> nat \<times> bool" where
  "var_matches_cs sv =
     ((if strncmp_eq sv ''/chanserv '' 10 then 10 else if strncmp_eq sv ''/cs '' 4 then 4 else 0),
      strncmp_eq sv ''/chanserv '' 10 \<or> strncmp_eq sv ''/cs '' 4)"

definition var_matches_ns :: "string \<Rightarrow> nat \<times> bool" where
  "var_matches_ns sv =
     ((if strncmp_eq sv ''/nickserv '' 10 then 10 else if strncmp_eq sv ''/ns '' 4 then 4 else 0),
      strncmp_eq sv ''/nickserv '' 10 \<or> strncmp_eq sv ''/ns '' 4)"

definition init_mode :: "rl_env \<Rightarrow> tab_env \<Rightarrow> rl_session \<Rightarrow> tab_result" where
  "init_mode env tenv s =
     (let sv = search_var (tc s); (off1, is_cs) = var_matches_cs sv; (off2, is_ns) = var_matches_ns sv in
      if strncmp_eq sv ''/connect '' 9 then init_mode_for_connect env tenv s
      else if is_cs then init_mode_for_cs env tenv off1 s
      else if strncmp_eq sv ''/dcc '' 5 then init_mode_for_dcc env tenv s
      else if strncmp_eq sv ''/deop '' 6 then init_mode_for_deop env tenv s
      else if strncmp_eq sv ''/devoice '' 9 then init_mode_for_devoice env tenv s
      else if strncmp_eq sv ''/ftp '' 5 then init_mode_for_ftp env tenv s
      else if strncmp_eq sv ''/help '' 6 then init_mode_for_help env tenv s
      else if strncmp_eq sv ''/kick '' 6 then init_mode_for_kick env tenv s
      else if strncmp_eq sv ''/kickban '' 9 then init_mode_for_kickban env tenv s
      else if strncmp_eq sv ''/log '' 5 then init_mode_for_log env tenv s
      else if strncmp_eq sv ''/mode '' 6 then init_mode_for_mode env tenv s
      else if strncmp_eq sv ''/msg '' 5 then init_mode_for_msg env tenv s
      else if strncmp_eq sv ''/notice '' 8 then init_mode_for_notice env tenv s
      else if is_ns then init_mode_for_ns env tenv off2 s
      else if strncmp_eq sv ''/op '' 4 then init_mode_for_op env tenv s
      else if strncmp_eq sv ''/query '' 7 then init_mode_for_query env tenv s
      else if strncmp_eq sv ''/sasl '' 6 then init_mode_for_sasl env tenv s
      else if strncmp_eq sv ''/set '' 5 then init_mode_for_set env tenv s
      else if strncmp_eq sv ''/squery '' 8 then init_mode_for_squery env tenv s
      else if strncmp_eq sv ''/theme '' 7 then init_mode_for_theme env tenv s
      else if strncmp_eq sv ''/time '' 6 then init_mode_for_time env tenv s
      else if strncmp_eq sv ''/version '' 9 then init_mode_for_version env tenv s
      else if strncmp_eq sv ''/voice '' 7 then init_mode_for_voice env tenv s
      else if strncmp_eq sv ''/whois '' 7 then init_mode_for_whois env tenv s
      else if strncmp_eq sv ''/znc '' 5 then init_mode_for_znc_cmds env tenv s
      else if sv \<noteq> [] \<and> hd sv = CHR ''/'' then init_mode_for_commands env tenv (numins s > 1) s
      else if is_irc_channel (Some (ACTWINLABEL tenv)) then init_mode_for_channel_users env tenv s
      else Some (Inr (s, [])))"

section \<open>Going through the matches\<close>

definition no_more_matches :: "rl_session \<Rightarrow> tab_result" where
  "no_more_matches s = output_error ''no more matches'' (s\<lparr>tc := readline_tab_comp_ctx_reset (tc s)\<rparr>)"

definition ac_doit :: "rl_env \<Rightarrow> tab_env \<Rightarrow> tab_mode \<Rightarrow> rl_session \<Rightarrow> tab_result" where
  "ac_doit env tenv mode s =
     (case matches (tc s) of
        None \<Rightarrow> Some (Inl Bad_access)
      | Some ms \<Rightarrow>
          if elmt (tc s) = length ms - 1 then no_more_matches s
          else if length ms \<le> elmt (tc s) + 1 then Some (Inl Bad_access)
          else with_msgs [] (auto_complete env tenv mode (ms ! (elmt (tc s) + 1))
                 (s\<lparr>tc := (tc s)\<lparr>elmt := elmt (tc s) + 1\<rparr>\<rparr>)))"

definition circulation_order :: "tab_mode list" where
  "circulation_order = [Connect, Cs, Dcc, Deop, Devoice, Ftp, Help, Kick, Kickban, Log, Mode, Msg, Notice,
     Ns, Op, Query, Sasl, Settings, Squery, Theme, Time, Version, Voice, Whois, ZncCmds, Cmds, ChanUsers]"

definition g_textdeco_chars :: string where
  "g_textdeco_chars = map (\<lambda>c. char_of (nat c)) [BLINK, BOLD, COLOR, NORMAL, REVERSE, UNDERLINE]"

definition buf_contains_disallowed_chars :: "tab_env \<Rightarrow> int list \<Rightarrow> bool" where
  "buf_contains_disallowed_chars tenv buf \<longleftrightarrow> strpbrk (finalize_out_string tenv buf) g_textdeco_chars \<noteq> None"

definition search_var_size :: nat where "search_var_size = 64"

definition store_search_var :: "tab_env \<Rightarrow> int list \<Rightarrow> rl_session \<Rightarrow> rl_session option" where
  "store_search_var tenv buf s =
     (let str = finalize_out_string tenv buf in
      if length str \<ge> search_var_size then None else Some (s\<lparr>tc := (tc s)\<lparr>search_var := str\<rparr>\<rparr>))"

definition readline_handle_tab :: "rl_env \<Rightarrow> tab_env \<Rightarrow> rl_session \<Rightarrow> tab_result" where
  "readline_handle_tab env tenv s =
     (case wcs_at (buffer s) 0 of
        None \<Rightarrow> Some (Inl Bad_access)
      | Some buf \<Rightarrow>
          if numins s = 0 \<or> insert_mode s \<or> buf_contains_disallowed_chars tenv buf
          then output_error ''no magic'' (s\<lparr>tc := readline_tab_comp_ctx_reset (tc s)\<rparr>)
          else case find (isInCirculationModeFor (tc s)) circulation_order of
            Some mode \<Rightarrow> ac_doit env tenv mode s
          | None \<Rightarrow>
              (case store_search_var tenv buf s of
                 None \<Rightarrow> output_error ''cannot store search variable'' s
               | Some s' \<Rightarrow> init_mode env tenv s'))"

section \<open>The tables behind the chains of cases\<close>

text \<open>The command that each kind types, and the kinds that complete members or targets.\<close>

fun completion_cmd :: "tab_mode \<Rightarrow> string" where
  "completion_cmd Connect = ''/connect ''"
| "completion_cmd Cs = ''/cs ''"
| "completion_cmd Dcc = ''/dcc ''"
| "completion_cmd Deop = ''/deop ''"
| "completion_cmd Devoice = ''/devoice ''"
| "completion_cmd Ftp = ''/ftp ''"
| "completion_cmd Help = ''/help ''"
| "completion_cmd Kick = ''/kick ''"
| "completion_cmd Kickban = ''/kickban ''"
| "completion_cmd Log = ''/log ''"
| "completion_cmd Mode = ''/mode ''"
| "completion_cmd Msg = ''/msg ''"
| "completion_cmd Notice = ''/notice ''"
| "completion_cmd Ns = ''/ns ''"
| "completion_cmd Op = ''/op ''"
| "completion_cmd Query = ''/query ''"
| "completion_cmd Sasl = ''/sasl ''"
| "completion_cmd Settings = ''/set ''"
| "completion_cmd Squery = ''/squery ''"
| "completion_cmd Theme = ''/theme ''"
| "completion_cmd Time = ''/time ''"
| "completion_cmd Version = ''/version ''"
| "completion_cmd Voice = ''/voice ''"
| "completion_cmd Whois = ''/whois ''"
| "completion_cmd ZncCmds = ''/znc ''"
| "completion_cmd Cmds = ''/''"
| "completion_cmd ChanUsers = ''''"

definition member_mode :: "tab_mode \<Rightarrow> bool" where
  "member_mode m \<longleftrightarrow> m \<in> {Deop, Devoice, Kick, Kickban, Op, Query, Voice}"

definition common_mode :: "tab_mode \<Rightarrow> bool" where
  "common_mode m \<longleftrightarrow> m \<in> {Mode, Msg, Notice, Time, Version}"

definition mode_matches :: "tab_env \<Rightarrow> tab_mode \<Rightarrow> string \<Rightarrow> string list option" where
  "mode_matches tenv mode cp =
     (if member_mode mode \<or> mode = ChanUsers then channel_users tenv (ACTWINLABEL tenv) cp
      else if common_mode mode then get_matches_common tenv cp
      else if mode = Settings then set_matches tenv cp
      else if mode = Whois then
        (if \<not> is_irc_channel (Some (ACTWINLABEL tenv)) then get_list_of_matching_queries (tab_windows tenv) cp
         else channel_users tenv (ACTWINLABEL tenv) cp)
      else matching_cmds tenv mode cp)"

definition init_mode_for :: "rl_env \<Rightarrow> tab_env \<Rightarrow> tab_mode \<Rightarrow> string \<Rightarrow> rl_session \<Rightarrow> tab_result" where
  "init_mode_for env tenv mode cp s =
     (if member_mode mode \<and> \<not> is_irc_channel (Some (ACTWINLABEL tenv))
      then output_error ''not in irc channel'' s
      else show_first env tenv mode (mode_matches tenv mode cp) s)"

text \<open>The commands in the order of the comparisons; the part behind the prefix is completed.\<close>

definition mode_table :: "(string \<times> tab_mode) list" where
  "mode_table =
     [(''/connect '', Connect), (''/chanserv '', Cs), (''/cs '', Cs), (''/dcc '', Dcc), (''/deop '', Deop),
      (''/devoice '', Devoice), (''/ftp '', Ftp), (''/help '', Help), (''/kick '', Kick),
      (''/kickban '', Kickban), (''/log '', Log), (''/mode '', Mode), (''/msg '', Msg),
      (''/notice '', Notice), (''/nickserv '', Ns), (''/ns '', Ns), (''/op '', Op), (''/query '', Query),
      (''/sasl '', Sasl), (''/set '', Settings), (''/squery '', Squery), (''/theme '', Theme),
      (''/time '', Time), (''/version '', Version), (''/voice '', Voice), (''/whois '', Whois),
      (''/znc '', ZncCmds)]"

lemmas init_mode_defs =
  init_mode_for_connect_def init_mode_for_cs_def init_mode_for_dcc_def init_mode_for_deop_def
  init_mode_for_devoice_def init_mode_for_ftp_def init_mode_for_help_def init_mode_for_kick_def
  init_mode_for_kickban_def init_mode_for_log_def init_mode_for_mode_def init_mode_for_msg_def
  init_mode_for_notice_def init_mode_for_ns_def init_mode_for_op_def init_mode_for_query_def
  init_mode_for_sasl_def init_mode_for_set_def init_mode_for_squery_def init_mode_for_theme_def
  init_mode_for_time_def init_mode_for_version_def init_mode_for_voice_def init_mode_for_whois_def
  init_mode_for_znc_cmds_def
  show_member_def

text \<open>A chain of conditionals over a table takes the first entry that matches.\<close>

primrec case_chain :: "('a \<Rightarrow> bool) \<Rightarrow> ('a \<Rightarrow> 'b) \<Rightarrow> 'a list \<Rightarrow> 'b \<Rightarrow> 'b" where
  "case_chain P f [] d = d"
| "case_chain P f (x # xs) d = (if P x then f x else case_chain P f xs d)"

lemma case_chain_find: "find P xs = Some x \<Longrightarrow> case_chain P f xs d = f x"
  by (induction xs) (auto split: if_splits)

lemma if_either:
  "(if p \<or> q then init_mode_for env tenv m (drop (if p then a else if q then b else 0) v) s else r) =
     (if p then init_mode_for env tenv m (drop a v) s else if q then init_mode_for env tenv m (drop b v) s else r)"
  by simp

lemma mode_lengths:
  "length ''/connect '' = 9"
  "length ''/chanserv '' = 10"
  "length ''/cs '' = 4"
  "length ''/dcc '' = 5"
  "length ''/deop '' = 6"
  "length ''/devoice '' = 9"
  "length ''/ftp '' = 5"
  "length ''/help '' = 6"
  "length ''/kick '' = 6"
  "length ''/kickban '' = 9"
  "length ''/log '' = 5"
  "length ''/mode '' = 6"
  "length ''/msg '' = 5"
  "length ''/notice '' = 8"
  "length ''/nickserv '' = 10"
  "length ''/ns '' = 4"
  "length ''/op '' = 4"
  "length ''/query '' = 7"
  "length ''/sasl '' = 6"
  "length ''/set '' = 5"
  "length ''/squery '' = 8"
  "length ''/theme '' = 7"
  "length ''/time '' = 6"
  "length ''/version '' = 9"
  "length ''/voice '' = 7"
  "length ''/whois '' = 7"
  "length ''/znc '' = 5"
  by simp_all

lemma init_mode_for_cases:
  "init_mode_for_connect env tenv s = init_mode_for env tenv Connect (drop 9 (search_var (tc s))) s"
  "init_mode_for_cs env tenv k s = init_mode_for env tenv Cs (drop k (search_var (tc s))) s"
  "init_mode_for_dcc env tenv s = init_mode_for env tenv Dcc (drop 5 (search_var (tc s))) s"
  "init_mode_for_deop env tenv s = init_mode_for env tenv Deop (drop 6 (search_var (tc s))) s"
  "init_mode_for_devoice env tenv s = init_mode_for env tenv Devoice (drop 9 (search_var (tc s))) s"
  "init_mode_for_ftp env tenv s = init_mode_for env tenv Ftp (drop 5 (search_var (tc s))) s"
  "init_mode_for_help env tenv s = init_mode_for env tenv Help (drop 6 (search_var (tc s))) s"
  "init_mode_for_kick env tenv s = init_mode_for env tenv Kick (drop 6 (search_var (tc s))) s"
  "init_mode_for_kickban env tenv s = init_mode_for env tenv Kickban (drop 9 (search_var (tc s))) s"
  "init_mode_for_log env tenv s = init_mode_for env tenv Log (drop 5 (search_var (tc s))) s"
  "init_mode_for_mode env tenv s = init_mode_for env tenv Mode (drop 6 (search_var (tc s))) s"
  "init_mode_for_msg env tenv s = init_mode_for env tenv Msg (drop 5 (search_var (tc s))) s"
  "init_mode_for_notice env tenv s = init_mode_for env tenv Notice (drop 8 (search_var (tc s))) s"
  "init_mode_for_ns env tenv k s = init_mode_for env tenv Ns (drop k (search_var (tc s))) s"
  "init_mode_for_op env tenv s = init_mode_for env tenv Op (drop 4 (search_var (tc s))) s"
  "init_mode_for_query env tenv s = init_mode_for env tenv Query (drop 7 (search_var (tc s))) s"
  "init_mode_for_sasl env tenv s = init_mode_for env tenv Sasl (drop 6 (search_var (tc s))) s"
  "init_mode_for_set env tenv s = init_mode_for env tenv Settings (drop 5 (search_var (tc s))) s"
  "init_mode_for_squery env tenv s = init_mode_for env tenv Squery (drop 8 (search_var (tc s))) s"
  "init_mode_for_theme env tenv s = init_mode_for env tenv Theme (drop 7 (search_var (tc s))) s"
  "init_mode_for_time env tenv s = init_mode_for env tenv Time (drop 6 (search_var (tc s))) s"
  "init_mode_for_version env tenv s = init_mode_for env tenv Version (drop 9 (search_var (tc s))) s"
  "init_mode_for_voice env tenv s = init_mode_for env tenv Voice (drop 7 (search_var (tc s))) s"
  "init_mode_for_whois env tenv s = init_mode_for env tenv Whois (drop 7 (search_var (tc s))) s"
  "init_mode_for_znc_cmds env tenv s = init_mode_for env tenv ZncCmds (drop 5 (search_var (tc s))) s"
  by (simp_all add: init_mode_for_def mode_matches_def member_mode_def common_mode_def init_mode_defs)

lemma init_mode_chain:
  "\<exists>d. init_mode env tenv s =
     case_chain (\<lambda>(cmd, mode). strncmp_eq (search_var (tc s)) cmd (length cmd))
       (\<lambda>(cmd, mode). init_mode_for env tenv mode (drop (length cmd) (search_var (tc s))) s) mode_table d"
  unfolding init_mode_def Let_def var_matches_cs_def var_matches_ns_def mode_table_def prod.case if_either
    init_mode_for_cases case_chain.simps mode_lengths
  by (rule exI, rule refl)

lemma init_mode_table:
  assumes "find (\<lambda>(cmd, mode). strncmp_eq (search_var (tc s)) cmd (length cmd)) mode_table = Some (cmd, mode)"
  shows "init_mode env tenv s = init_mode_for env tenv mode (drop (length cmd) (search_var (tc s))) s"
  using init_mode_chain [of env tenv s] by (elim exE) (simp only: case_chain_find [OF assms] prod.case)

section \<open>Lemmas: replacing the line\<close>

lemma clear_line_ok:
  "ok_state env s l [] \<Longrightarrow> \<exists>s'. clear_line env s = Some (Inr s') \<and> ok_state env s' [] [] \<and> no_bufspc s' = no_bufspc s"
proof (induction l arbitrary: s rule: rev_induct)
  case Nil
  then show ?case using ok_stateD(7) [OF Nil] by (subst clear_line.simps) simp
next
  case (snoc c l)
  obtain s1 where s1: "case_key_backspace env s = Inr s1" "ok_state env s1 l []" "no_bufspc s1 = no_bufspc s"
    using key_backspace_ok [OF snoc.prems] by blast
  then show ?case using snoc.IH [OF s1(2)] ok_stateD(7) [OF snoc.prems] by (subst clear_line.simps) simp
qed

text \<open>With the cursor at the start of a line that is not empty the loop never ends.\<close>

lemma clear_line_stuck: "\<lbrakk>bufpos s = 0; numins s \<noteq> 0\<rbrakk> \<Longrightarrow> clear_line env s = None"
proof -
  have "\<not> (bufpos s = 0 \<and> numins s \<noteq> 0)" if "clear_line env s = Some r" for r
    by (rule clear_line.raw_induct [where P = "\<lambda>env s r. \<not> (bufpos s = 0 \<and> numins s \<noteq> 0)", OF _ that])
      (auto simp: case_key_backspace_def split: if_splits)
  then show "\<lbrakk>bufpos s = 0; numins s \<noteq> 0\<rbrakk> \<Longrightarrow> clear_line env s = None"
    by (cases "clear_line env s") auto
qed

lemma keys_ok:
  "\<lbrakk>ok_state env s l []; \<forall>c\<in>set cs. narrow env c; \<not> no_bufspc s; length l + length cs \<le> 2000\<rbrakk> \<Longrightarrow>
     \<exists>s'. keys env cs s = Inr s' \<and> ok_state env s' (l @ cs) [] \<and> \<not> no_bufspc s'"
proof (induction cs arbitrary: s l)
  case (Cons c cs)
  obtain s1 where s1: "handle_key env c False s = Inr s1" "ok_state env s1 (l @ [c]) []" "no_bufspc s1 = no_bufspc s"
    using handle_key_ok [OF Cons.prems(1), of c False] Cons.prems by auto
  then show ?case using Cons.IH [OF s1(2)] Cons.prems by auto
qed auto

lemma keys_append: "keys env (cs @ ds) s = rl_then (keys env cs s) (keys env ds)"
proof (induction cs arbitrary: s)
  case (Cons c cs)
  then show ?case by (cases "handle_key env c False s") simp_all
qed simp

text \<open>All completions empty the line and type a text.\<close>

definition completion_text :: "tab_env \<Rightarrow> tab_mode \<Rightarrow> string \<Rightarrow> int list" where
  "completion_text tenv mode str =
     (if mode = ChanUsers then map (btowc tenv) str @ wide '': ''
      else wide (completion_cmd mode) @ map (btowc tenv) str)"

lemmas auto_complete_defs =
  auto_complete_connect_def auto_complete_cs_def auto_complete_dcc_def auto_complete_deop_def
  auto_complete_devoice_def auto_complete_ftp_def auto_complete_help_def auto_complete_kick_def
  auto_complete_kickban_def auto_complete_log_def auto_complete_mode_def auto_complete_msg_def
  auto_complete_notice_def auto_complete_ns_def auto_complete_op_def auto_complete_query_def
  auto_complete_sasl_def auto_complete_setting_def auto_complete_squery_def auto_complete_theme_def
  auto_complete_time_def auto_complete_version_def auto_complete_voice_def auto_complete_whois_def
  auto_complete_znc_cmd_def auto_complete_command_def auto_complete_channel_user_def

lemma auto_complete_keys:
  "auto_complete env tenv mode str s =
     map_option (\<lambda>r. rl_then r (keys env (completion_text tenv mode str))) (clear_line env s)"
proof -
  have "rl_then (rl_then r (keys env cs)) (keys env ds) = rl_then r (keys env (cs @ ds))" for r cs ds
    by (cases r) (simp_all add: keys_append)
  moreover have "handle_key env c False = keys env [c]" for c by (rule ext) (simp add: rl_then_def split: sum.split)
  ultimately show ?thesis
    by (cases mode) (simp_all add: auto_complete_defs do_work_def completion_text_def wide_def)
qed

lemma auto_complete_ok:
  assumes "ok_state env s l []" "\<forall>c\<in>set (completion_text tenv mode str). narrow env c" "\<not> no_bufspc s"
    "length (completion_text tenv mode str) \<le> 2000"
  shows "\<exists>s'. auto_complete env tenv mode str s = Some (Inr s')
    \<and> ok_state env s' (completion_text tenv mode str) [] \<and> \<not> no_bufspc s'"
proof -
  obtain s1 where s1: "clear_line env s = Some (Inr s1)" "ok_state env s1 [] []" "no_bufspc s1 = no_bufspc s"
    using clear_line_ok [OF assms(1)] by blast
  then show ?thesis using keys_ok [OF s1(2) assms(2)] assms(3,4) by (auto simp: auto_complete_keys)
qed

text \<open>Where the typing of a match fails.\<close>

lemma key_inconvertible:
  assumes "ok_state env s l []" "\<not> conv_ok env c" "\<not> no_bufspc s" "length l \<le> 2000"
  shows "handle_key env c False s = Inl Restart"
proof -
  obtain s1 where s1: "(if hiLim_isset env s then magic_swap_panels env True s else Inr s) = Inr s1"
    "ok_state env s1 l []" using before_right [OF assms(1)] by blast
  note f = ok_stateD [OF s1(2)]
  obtain n where n: "buffer s1 = l @ replicate (Suc n) 0" using rep_cells [OF f(1)] by auto
  have "wri (buffer s1) (bufpos s1) c \<noteq> None" using n f(6) by (simp add: wri_def)
  then show ?thesis
    using s1(1) assms(2,3) f(5)
    by (auto simp: handle_key_def readline_waddch_def Let_def split del: if_split)
qed

lemma keys_inconvertible:
  assumes "ok_state env s l []" "\<forall>c\<in>set cs. narrow env c" "\<not> conv_ok env c" "\<not> no_bufspc s"
    "length l + length cs \<le> 2000"
  shows "keys env (cs @ c # ds) s = Inl Restart"
proof -
  obtain s1 where "keys env cs s = Inr s1" "ok_state env s1 (l @ cs) []" "\<not> no_bufspc s1"
    using keys_ok [OF assms(1,2,4,5)] by blast
  then show ?thesis using key_inconvertible [of env s1 "l @ cs" c] assms(3,5) by (simp add: keys_append)
qed

text \<open>The buffer filled to its last cell, without a terminating zero.\<close>

definition full_buffer :: "rl_env \<Rightarrow> rl_session \<Rightarrow> bool" where
  "full_buffer env s \<longleftrightarrow> 0 \<notin> set (buffer s) \<and> length (buffer s) = bufcells \<and> bufpos s = int bufcells
     \<and> \<not> insert_mode s \<and> \<not> no_bufspc s \<and> (\<forall>c\<in>set (buffer s). narrow env c) \<and> env_ok env (prompt_size s)"

lemma key_fill:
  assumes "ok_state env s l []" "narrow env c" "\<not> no_bufspc s" "length l = 2000"
  shows "\<exists>s'. handle_key env c False s = Inr s' \<and> full_buffer env s'"
proof -
  obtain s1 where s1: "(if hiLim_isset env s then magic_swap_panels env True s else Inr s) = Inr s1"
    "ok_state env s1 l []" "drawn s s1" "curx s1 \<le> COLS env - 2" using before_right [OF assms(1)] by blast
  note f = ok_stateD [OF s1(2)]
  let ?w = "readline_wcwidth c FWLEN"
  obtain n where n: "buffer s1 = l @ replicate (Suc n) 0" "length l + Suc n = bufcells" using rep_cells [OF f(1)] by auto
  then have b: "buffer s1 = l @ [0]" using assms(4) by (simp add: bufcells_def)
  define s0 where "s0 = s1\<lparr>buffer := l @ [c], bufpos := bufpos s1 + 1, numins := numins s1 + 1, vispos := vispos s1 + ?w\<rparr>"
  have wr: "wri (buffer s1) (bufpos s1) c = Some (l @ [c])" using b f(6) by (simp add: wri_def list_update_append)
  obtain k where "curx s1 = prompt_size s1 + widths (drop k l)" using f(2) by (auto simp: disp_def)
  then have "0 \<le> curx s0" "curx s0 + ?w < COLS env"
    using s1(4) assms(2) f(4) widths_ge [of "drop k l"] wcwidth_ge [of c] by (auto simp: s0_def narrow_def env_ok_def)
  then have "readline_waddch env c s0 = Inr (s0\<lparr>curx := curx s0 + ?w\<rparr>)"
    using waddch_ok [of env c s0] assms(2) f(4) by (simp add: env_ok_def)
  then have "handle_key env c False s = Inr (s0\<lparr>curx := curx s0 + ?w\<rparr>)"
    using s1(1) assms(3) f(5) wr by (simp add: handle_key_def s0_def Let_def split del: if_split)
  moreover have "full_buffer env (s0\<lparr>curx := curx s0 + ?w\<rparr>)"
    using f assms drawn_fields(5) [OF s1(3)] rep_nonzero [OF f(1)]
    by (auto simp: full_buffer_def s0_def bufcells_def narrow_def)
  ultimately show ?thesis by blast
qed

lemma key_overflow:
  assumes "full_buffer env s"
  shows "handle_key env c False s = Inl Bad_access"
proof (cases "hiLim_isset env s")
  case False
  then show ?thesis using assms by (simp add: handle_key_def full_buffer_def Let_def wri_def wr_def)
next
  case True
  define t where "t = write_cmdprompt env (s\<lparr>panel_state :=
    (if panel_state s = PANEL1_ACTIVE then PANEL2_ACTIVE else PANEL1_ACTIVE)\<rparr>)"
  have t: "buffer t = buffer s" "bufpos t = bufpos s" by (simp_all add: t_def write_cmdprompt_def)
  have w: "\<forall>c\<in>set (rev (take (nat (bufpos t)) (buffer t))). readline_wcwidth c FWLEN \<le> 1"
    using assms t by (auto simp: full_buffer_def narrow_def dest: in_set_takeD)
  have h: "0 \<le> COLS env div 2" using assms by (auto simp: full_buffer_def env_ok_def)
  obtain m where m: "m \<le> bufcells" "get_subtrahend t (COLS env div 2) = int m"
    using subtrahend_ok [OF w h, of 0] assms t by (auto simp: get_subtrahend_def full_buffer_def)
  have "int_diff (int bufcells) (int m) = Some (int bufcells - int m)"
    using m(1) by (auto simp: int_diff_def limits_defs bufcells_def)
  then have "new_entry_index env True t = Inr (int bufcells - int m)"
    using m assms t by (simp add: new_entry_index_def full_buffer_def)
  moreover have "wcs_at (buffer t) i = None" for i
    using assms t by (auto simp: wcs_at_def full_buffer_def dest: in_set_dropD)
  ultimately have "magic_swap_panels env True s = Inl Bad_access"
    by (simp add: magic_swap_panels_def compute_new_window_entry_def t_def)
  then show ?thesis using True assms by (simp add: handle_key_def full_buffer_def)
qed

lemma keys_overflow:
  assumes "ok_state env s [] []" "\<forall>c\<in>set cs. narrow env c" "\<not> no_bufspc s" "2002 \<le> length cs"
  shows "keys env cs s = Inl Bad_access"
proof -
  obtain as c d ds where cs: "cs = as @ c # d # ds" "length as = 2000"
  proof
    show "cs = take 2000 cs @ cs ! 2000 # cs ! 2001 # drop 2002 cs"
      using assms(4) id_take_nth_drop [of 2000 cs] Cons_nth_drop_Suc [of 2001 cs] by simp
    show "length (take 2000 cs) = 2000" using assms(4) by simp
  qed
  obtain s1 where s1: "keys env as s = Inr s1" "ok_state env s1 as []" "\<not> no_bufspc s1"
    using keys_ok [OF assms(1) _ assms(3), of as] assms(2) cs by auto
  obtain s2 where "handle_key env c False s1 = Inr s2" "full_buffer env s2"
    using key_fill [OF s1(2) _ s1(3) cs(2), of c] assms(2) cs(1) by auto
  then show ?thesis using s1(1) cs(1) key_overflow by (simp add: keys_append)
qed

section \<open>Lemmas: circulation\<close>

text \<open>The keys that a completion types leave the completion's own state alone.\<close>

definition keeps :: "tab_completion \<Rightarrow> rl_session rl \<Rightarrow> bool" where
  "keeps t r \<longleftrightarrow> (\<forall>s. r = Inr s \<longrightarrow> tc s = t)"

lemma keepsD: "\<lbrakk>keeps t r; r = Inr s\<rbrakk> \<Longrightarrow> tc s = t"
  by (simp add: keeps_def)

lemma keeps_then:
  assumes "keeps t m" "\<And>s. tc s = t \<Longrightarrow> keeps t (f s)"
  shows "keeps t (rl_then m f)"
  unfolding keeps_def
proof (intro allI impI)
  fix s assume "rl_then m f = Inr s"
  then obtain x where x: "m = Inr x" "f x = Inr s" by (auto simp: rl_then_Inr)
  show "tc s = t" by (rule keepsD [OF assms(2) [OF keepsD [OF assms(1) x(1)]] x(2)])
qed

lemma keeps_mem: "(\<And>x. keeps t (f x)) \<Longrightarrow> keeps t (rl_then (mem r) f)"
  by (auto simp: keeps_def rl_then_Inr)

lemma keeps_Inr: "tc s = t \<Longrightarrow> keeps t (Inr s)"
  by (simp add: keeps_def)

lemma keeps_if: "\<lbrakk>b \<Longrightarrow> keeps t x; \<not> b \<Longrightarrow> keeps t y\<rbrakk> \<Longrightarrow> keeps t (if b then x else y)"
  by simp

lemma keeps_wmove: "tc s = t \<Longrightarrow> keeps t (wmove_to env x s)"
  by (simp add: keeps_def wmove_to_def)

lemma keeps_swap: "tc s = t \<Longrightarrow> keeps t (magic_swap_panels env fwd s)"
  using drawn_fields(8) [OF swap_drawn] by (auto simp: keeps_def)

lemma keeps_winsnstr: "tc s = t \<Longrightarrow> keeps t (readline_winsnstr env cs n s)"
  by (auto simp: keeps_def readline_winsnstr_def Let_def dest: winsch_same)

lemma keeps_draw: "tc s = t \<Longrightarrow> keeps t (readline_winsch env c s)" "tc s = t \<Longrightarrow> keeps t (readline_waddch env c s)"
  by (simp_all add: keeps_def readline_winsch_def readline_waddch_def)

lemmas keeps_intros = keeps_if keeps_mem keeps_then keeps_wmove keeps_swap keeps_winsnstr keeps_draw keeps_Inr

lemma keeps_backspace: "keeps (tc s) (case_key_backspace env s)"
  unfolding case_key_backspace_def Let_def by (intro keeps_intros) simp_all

lemma keeps_handle_key: "keeps (tc s) (handle_key env c False s)"
  unfolding handle_key_def Let_def by (intro keeps_intros) simp_all

lemma keeps_keys: "keeps (tc s) (keys env cs s)"
proof (induction cs arbitrary: s)
  case (Cons c cs)
  have "keeps (tc s) (keys env cs s1)" if "tc s1 = tc s" for s1 using Cons [of s1] that by simp
  then show ?case using keeps_then [OF keeps_handle_key] by simp
qed (simp add: keeps_def)

lemma clear_tc: "clear_line env s = Some r \<Longrightarrow> keeps (tc s) r"
proof (rule clear_line.raw_induct [where P = "\<lambda>env s r. keeps (tc s) r"])
  fix loop env s r
  assume IH: "\<And>env s r. loop env s = Some r \<Longrightarrow> keeps (tc s) r"
    and eq: "(if numins s = 0 then Some (Inr s)
      else case case_key_backspace env s of Inl e \<Rightarrow> Some (Inl e) | Inr s' \<Rightarrow> loop env s') = Some r"
  show "keeps (tc s) r"
  proof (cases "numins s = 0")
    case True
    then have "r = Inr s" using eq by simp
    then show ?thesis by (simp add: keeps_def)
  next
    case False
    show ?thesis
    proof (cases "case_key_backspace env s")
      case (Inl e)
      then have "r = Inl e" using eq False by simp
      then show ?thesis by (simp add: keeps_def)
    next
      case (Inr s')
      then have "loop env s' = Some r" using eq False by simp
      from IH [OF this] show ?thesis using keepsD [OF keeps_backspace Inr] by (simp only:)
    qed
  qed
qed

lemma auto_complete_tc:
  assumes "auto_complete env tenv mode str s = Some (Inr s')"
  shows "tc s' = tc s"
proof -
  obtain r where r: "clear_line env s = Some r" "rl_then r (keys env (completion_text tenv mode str)) = Inr s'"
    using assms by (auto simp: auto_complete_keys)
  then have "keeps (tc s) (rl_then r (keys env (completion_text tenv mode str)))"
    by (intro keeps_then) (use clear_tc keeps_keys in metis)+
  then show ?thesis using r(2) by (rule keepsD)
qed

text \<open>A text that a completion can type and that leaves room for a key.\<close>

definition fits :: "rl_env \<Rightarrow> tab_env \<Rightarrow> tab_mode \<Rightarrow> string \<Rightarrow> bool" where
  "fits env tenv mode str \<longleftrightarrow> (let cs = completion_text tenv mode str in
     cs \<noteq> [] \<and> (\<forall>c\<in>set cs. narrow env c) \<and> length cs \<le> 1998 \<and> \<not> buf_contains_disallowed_chars tenv cs)"

lemma fitsD:
  assumes "fits env tenv mode str"
  shows "completion_text tenv mode str \<noteq> []" "\<forall>c\<in>set (completion_text tenv mode str). narrow env c"
    "length (completion_text tenv mode str) \<le> 1998" "\<not> buf_contains_disallowed_chars tenv (completion_text tenv mode str)"
  using assms by (simp_all add: fits_def Let_def)

lemma tab_buffer: "ok_state env s l [] \<Longrightarrow> wcs_at (buffer s) 0 = Some l"
  using wcs_at_rep [OF ok_stateD(1), of env s l "[]" 0] by simp

lemma complete_ok:
  assumes "ok_state env s l []" "fits env tenv mode str" "\<not> no_bufspc s"
  shows "\<exists>s'. auto_complete env tenv mode str s = Some (Inr s') \<and> ok_state env s' (completion_text tenv mode str) []
    \<and> \<not> no_bufspc s' \<and> tc s' = tc s"
  using auto_complete_ok [OF assms(1) fitsD(2) [OF assms(2)] assms(3)] fitsD(3) [OF assms(2)] auto_complete_tc
  by fastforce

lemma ok_tc: "ok_state env (s\<lparr>tc := t\<rparr>) l r = ok_state env s l r"
  by (simp add: ok_state_def rep_def disp_def)

lemma first_tab:
  assumes "ok_state env s l []" "l \<noteq> []" "\<not> no_bufspc s" "\<not> buf_contains_disallowed_chars tenv l"
    "\<forall>m. \<not> isInCirculationModeFor (tc s) m" "sv = finalize_out_string tenv l" "length sv < search_var_size"
    "find (\<lambda>(cmd, mode). strncmp_eq sv cmd (length cmd)) mode_table = Some (cmd, mode)"
    "member_mode mode \<longrightarrow> is_irc_channel (Some (ACTWINLABEL tenv))"
    "mode_matches tenv mode (drop (length cmd) sv) = Some ms" "ms \<noteq> []" "fits env tenv mode (hd ms)"
  shows "\<exists>s'. readline_handle_tab env tenv s = Some (Inr (s', [])) \<and> ok_state env s' (completion_text tenv mode (hd ms)) []
    \<and> \<not> no_bufspc s' \<and> isInCirculationModeFor (tc s') = (\<lambda>m. m = mode) \<and> matches (tc s') = Some ms \<and> elmt (tc s') = 0"
proof -
  note f = ok_stateD [OF assms(1)]
  obtain m ms' where ms: "ms = m # ms'" using assms(11) by (cases ms) auto
  define t where "t = (tc s)\<lparr>search_var := sv, matches := Some ms, elmt := 0\<rparr>"
  obtain s1 where s1: "auto_complete env tenv mode m (s\<lparr>tc := t\<rparr>) = Some (Inr s1)"
    "ok_state env s1 (completion_text tenv mode m) []" "\<not> no_bufspc s1" "tc s1 = t"
    using complete_ok [of env "s\<lparr>tc := t\<rparr>" l tenv mode m] assms(1,3,12) ms by (auto simp: ok_tc)
  have store: "store_search_var tenv l s = Some (s\<lparr>tc := (tc s)\<lparr>search_var := sv\<rparr>\<rparr>)"
    using assms(6,7) by (simp add: store_search_var_def)
  have "find (isInCirculationModeFor (tc s)) circulation_order = None" using assms(5) by (simp add: find_None_iff)
  then have "readline_handle_tab env tenv s = init_mode env tenv (s\<lparr>tc := (tc s)\<lparr>search_var := sv\<rparr>\<rparr>)"
    using tab_buffer [OF assms(1)] f(5,7) assms(2,4) store by (simp add: readline_handle_tab_def)
  also have "\<dots> = Some (Inr (s1\<lparr>tc := circulate mode t\<rparr>, []))"
    using init_mode_table [of "s\<lparr>tc := (tc s)\<lparr>search_var := sv\<rparr>\<rparr>" cmd mode env tenv] assms(8-10) s1(1,4) unfolding ms
    by (auto simp: init_mode_for_def show_first_def with_msgs_def t_def ms)
  finally show ?thesis
    using s1(2,3) assms(5) ms by (intro exI [of _ "s1\<lparr>tc := circulate mode t\<rparr>"])
      (auto simp: ok_tc circulate_def t_def fun_eq_iff)
qed

lemma next_tab:
  assumes "ok_state env s l []" "l \<noteq> []" "\<not> no_bufspc s" "\<not> buf_contains_disallowed_chars tenv l"
    "isInCirculationModeFor (tc s) = (\<lambda>m. m = mode)" "matches (tc s) = Some ms" "elmt (tc s) = k"
  shows "\<lbrakk>k + 1 < length ms; fits env tenv mode (ms ! (k + 1))\<rbrakk> \<Longrightarrow>
      \<exists>s'. readline_handle_tab env tenv s = Some (Inr (s', []))
        \<and> ok_state env s' (completion_text tenv mode (ms ! (k + 1))) [] \<and> \<not> no_bufspc s' \<and> tc s' = (tc s)\<lparr>elmt := k + 1\<rparr>"
    "k + 1 = length ms \<Longrightarrow> readline_handle_tab env tenv s =
        Some (Inr (s\<lparr>tc := readline_tab_comp_ctx_reset (tc s)\<rparr>, [''no more matches'']))"
proof -
  note f = ok_stateD [OF assms(1)]
  have "find (isInCirculationModeFor (tc s)) circulation_order = Some mode"
    unfolding assms(5) circulation_order_def by (cases mode) simp_all
  then have tab: "readline_handle_tab env tenv s = ac_doit env tenv mode s"
    using tab_buffer [OF assms(1)] f(5,7) assms(2,4) by (simp add: readline_handle_tab_def)
  show "readline_handle_tab env tenv s =
        Some (Inr (s\<lparr>tc := readline_tab_comp_ctx_reset (tc s)\<rparr>, [''no more matches'']))" if "k + 1 = length ms"
    using tab assms(6,7) that [symmetric] by (simp add: ac_doit_def no_more_matches_def output_error_def)
  show "\<exists>s'. readline_handle_tab env tenv s = Some (Inr (s', []))
        \<and> ok_state env s' (completion_text tenv mode (ms ! (k + 1))) [] \<and> \<not> no_bufspc s' \<and> tc s' = (tc s)\<lparr>elmt := k + 1\<rparr>"
    if lt: "k + 1 < length ms" and fit: "fits env tenv mode (ms ! (k + 1))"
  proof -
    let ?s = "s\<lparr>tc := (tc s)\<lparr>elmt := k + 1\<rparr>\<rparr>"
    obtain s1 where "auto_complete env tenv mode (ms ! (k + 1)) ?s = Some (Inr s1)"
      "ok_state env s1 (completion_text tenv mode (ms ! (k + 1))) []" "\<not> no_bufspc s1" "tc s1 = tc ?s"
      using complete_ok [of env ?s l tenv mode] fit assms(1,3) by (auto simp: ok_tc)
    then show ?thesis using tab assms(6,7) lt by (auto simp: ac_doit_def with_msgs_def)
  qed
qed

text \<open>Pressing TAB again and again; the loop computes the flags before each key.\<close>

fun tab_presses :: "rl_env \<Rightarrow> tab_env \<Rightarrow> nat \<Rightarrow> rl_session \<Rightarrow> tab_result" where
  "tab_presses env tenv 0 s = Some (Inr (s, []))"
| "tab_presses env tenv (Suc n) s =
     (case tab_presses env tenv n s of
        Some (Inr (s', _)) \<Rightarrow> readline_handle_tab env tenv (set_flags s')
      | r \<Rightarrow> r)"

definition circulating :: "rl_env \<Rightarrow> tab_env \<Rightarrow> tab_mode \<Rightarrow> string list \<Rightarrow> nat \<Rightarrow> rl_session \<Rightarrow> bool" where
  "circulating env tenv mode ms k s \<longleftrightarrow> ok_state env s (completion_text tenv mode (ms ! k)) []
     \<and> isInCirculationModeFor (tc s) = (\<lambda>m. m = mode) \<and> matches (tc s) = Some ms \<and> elmt (tc s) = k"

lemma flags_space: "ok_state env s l [] \<Longrightarrow> length l \<le> 1998 \<Longrightarrow> ok_state env (set_flags s) l [] \<and> \<not> no_bufspc (set_flags s) \<and> tc (set_flags s) = tc s"
proof (intro conjI)
  assume ok: "ok_state env s l []" and len: "length l \<le> 1998"
  show "ok_state env (set_flags s) l []" by (rule ok_set_flags [OF ok])
  show "\<not> no_bufspc (set_flags s)" "tc (set_flags s) = tc s"
    using ok_stateD(7) [OF ok] len by (simp_all add: set_flags_def set_mode_def g_readline_bufsize_def)
qed

lemma circulating_presses:
  assumes first: "\<exists>s'. readline_handle_tab env tenv (set_flags s) = Some (Inr (s', [])) \<and> circulating env tenv mode ms 0 s'"
    and fit: "\<forall>str\<in>set ms. fits env tenv mode str"
  shows "n < length ms \<Longrightarrow> \<exists>s'. tab_presses env tenv (Suc n) s = Some (Inr (s', [])) \<and> circulating env tenv mode ms n s'"
proof (induction n)
  case 0
  then show ?case using first by simp
next
  case (Suc n)
  then obtain s1 where s1: "tab_presses env tenv (Suc n) s = Some (Inr (s1, []))" "circulating env tenv mode ms n s1"
    by auto
  let ?l = "completion_text tenv mode (ms ! n)"
  have fn: "fits env tenv mode (ms ! n)" "fits env tenv mode (ms ! (n + 1))" using fit Suc.prems by simp_all
  have ok: "ok_state env (set_flags s1) ?l []" "\<not> no_bufspc (set_flags s1)" "tc (set_flags s1) = tc s1"
    using flags_space [of env s1 ?l] s1(2) fitsD(3) [OF fn(1)] by (simp_all add: circulating_def)
  obtain s2 where "readline_handle_tab env tenv (set_flags s1) = Some (Inr (s2, []))"
    "ok_state env s2 (completion_text tenv mode (ms ! (n + 1))) []" "tc s2 = (tc s1)\<lparr>elmt := n + 1\<rparr>"
    using next_tab(1) [OF ok(1) fitsD(1) [OF fn(1)] ok(2) fitsD(4) [OF fn(1)], of mode ms n] fn(2) s1(2) Suc.prems ok(3)
    by (auto simp: circulating_def)
  then show ?case using s1 by (auto simp: circulating_def)
qed

text \<open>A concrete session, of a text typed on the example terminal.\<close>

definition example_tab_env :: tab_env where
  "example_tab_env = \<lparr>ACTWINLABEL = ''(status)'', tab_windows = start_state, channel_users = (\<lambda>_ _. None),
     matching_cmds = (\<lambda>m p. if m = Help then Some [''nick'', ''notice''] else None),
     wcstombs = (\<lambda>ws. Some (map (\<lambda>c. char_of (nat c)) ws)), btowc = (\<lambda>c. if of_char c < (0x80::nat) then int (of_char c) else -1)\<rparr>"

lemma example_tab_env:
  "wcstombs example_tab_env ws = Some (map (\<lambda>c. char_of (nat c)) ws)"
  "btowc example_tab_env c = (if of_char c < (0x80::nat) then int (of_char c) else -1)"
  "matching_cmds example_tab_env = (\<lambda>m p. if m = Help then Some [''nick'', ''notice''] else None)"
  by (simp_all add: example_tab_env_def)

lemma example_disallowed:
  "buf_contains_disallowed_chars example_tab_env ws =
     (strpbrk (take ((length ws + 1) * MB_LEN_MAX - 1) (map (\<lambda>c. char_of (nat c)) ws)) g_textdeco_chars \<noteq> None)"
  by (simp add: buf_contains_disallowed_chars_def finalize_out_string_def example_tab_env Let_def)

definition typed_session :: "string \<Rightarrow> rl_session" where
  "typed_session str = (case keys example_rl_env (wide str) example_session of Inr s \<Rightarrow> s | Inl _ \<Rightarrow> example_session)"

lemma typed_session:
  assumes "\<forall>c\<in>set (wide str). 0x20 \<le> c \<and> c \<le> 0xFF" "length str \<le> 1998"
  shows "ok_state example_rl_env (typed_session str) (wide str) []" "\<not> no_bufspc (typed_session str)"
    "tc (typed_session str) = readline_tab_comp_ctx_new"
proof -
  have ok: "ok_state example_rl_env example_session [] []"
    using example_rl_env by (auto simp: ok_state_def rep_def disp_def env_ok_def write_cmdprompt_def example_session_def
        new_session_def bufcells_def g_readline_bufsize_def eval_nat_numeral)
  have sp: "\<not> no_bufspc example_session" "tc example_session = readline_tab_comp_ctx_new"
    by (simp_all add: example_session_def write_cmdprompt_def new_session_def)
  have "\<forall>c\<in>set (wide str). narrow example_rl_env c" using assms(1) ascii_narrow by blast
  then obtain s where s: "keys example_rl_env (wide str) example_session = Inr s" "ok_state example_rl_env s (wide str) []"
    "\<not> no_bufspc s"
    using keys_ok [OF ok _ sp(1), of "wide str"] assms(2) by (auto simp: wide_def)
  moreover have "tc s = tc example_session" by (rule keepsD [OF keeps_keys s(1)])
  ultimately show "ok_state example_rl_env (typed_session str) (wide str) []" "\<not> no_bufspc (typed_session str)"
    "tc (typed_session str) = readline_tab_comp_ctx_new"
    using sp(2) by (simp_all add: typed_session_def)
qed

section \<open>Properties\<close>

text \<open>
  A completion ends and replaces the whole line: started with the cursor at the end of
  any line, it returns, and the line is the command of its kind followed by the match, for every
  kind, provided the text has at most 2000 characters of one column.  With the cursor at the start
  of a non-empty line the same loop would never end; the TAB handler excludes that case.
\<close>

theorem completion_replaces_line:
  assumes "ok_state env s l []" "\<not> no_bufspc s" "\<forall>c\<in>set (completion_text tenv mode str). narrow env c"
    "length (completion_text tenv mode str) \<le> 2000"
  shows "(\<exists>s'. auto_complete env tenv mode str s = Some (Inr s')
        \<and> session_view s' = (completion_text tenv mode str, []) \<and> tc s' = tc s)
    \<and> (\<forall>t. bufpos t = 0 \<and> numins t \<noteq> 0 \<longrightarrow> auto_complete env tenv mode str t = None
          \<and> (insert_mode t \<longrightarrow> readline_handle_tab env tenv t \<noteq> None))"
proof (intro conjI allI impI)
  show "\<exists>s'. auto_complete env tenv mode str s = Some (Inr s')
        \<and> session_view s' = (completion_text tenv mode str, []) \<and> tc s' = tc s"
    using auto_complete_ok [OF assms(1,3,2,4)] view_rep [OF ok_stateD(1)] auto_complete_tc by blast
next
  fix t :: rl_session assume t: "bufpos t = 0 \<and> numins t \<noteq> 0"
  then show "auto_complete env tenv mode str t = None" using clear_line_stuck by (simp add: auto_complete_keys)
  show "readline_handle_tab env tenv t \<noteq> None" if "insert_mode t"
    using that by (auto simp: readline_handle_tab_def output_error_def split: option.split)
qed

theorem completion_replaces_line_witness:
  "\<exists>s'. auto_complete example_rl_env example_tab_env Help ''nick'' (typed_session ''/help n'') = Some (Inr s')
     \<and> session_view s' = (wide ''/help nick'', [])"
proof -
  have c: "completion_text example_tab_env Help ''nick'' = wide ''/help nick''"
    by (simp add: completion_text_def wide_def example_tab_env)
  have "\<forall>c\<in>set (wide ''/help n''). 0x20 \<le> c \<and> c \<le> 0xFF" by code_simp
  note t = typed_session [OF this]
  have n: "\<forall>c\<in>set (completion_text example_tab_env Help ''nick''). narrow example_rl_env c"
    unfolding c by (simp add: wide_def ascii_narrow)
  have len: "length (wide ''/help nick'') \<le> 2000" "length ''/help n'' \<le> 1998" by (simp_all add: wide_def)
  show ?thesis using completion_replaces_line [OF t(1) [OF len(2)] t(2) [OF len(2)] n] len(1) unfolding c by blast
qed

text \<open>
  Property C23. Pressing TAB goes through the matches in order: the n-th press shows the n-th match
  behind its command, and the press after the last match ends the circulation and leaves the line.
\<close>

theorem tab_shows_matches_in_order:
  assumes "ok_state env (set_flags s) l []" "l \<noteq> []" "length l \<le> 1998" "\<not> buf_contains_disallowed_chars tenv l"
    "\<forall>m. \<not> isInCirculationModeFor (tc s) m" "sv = finalize_out_string tenv l" "length sv < search_var_size"
    "find (\<lambda>(cmd, mode). strncmp_eq sv cmd (length cmd)) mode_table = Some (cmd, mode)"
    "member_mode mode \<longrightarrow> is_irc_channel (Some (ACTWINLABEL tenv))"
    "mode_matches tenv mode (drop (length cmd) sv) = Some ms" "ms \<noteq> []" "\<forall>str\<in>set ms. fits env tenv mode str"
  shows "(\<forall>n<length ms. \<exists>s'. tab_presses env tenv (Suc n) s = Some (Inr (s', []))
        \<and> session_view s' = (completion_text tenv mode (ms ! n), []))
    \<and> (\<exists>s'. tab_presses env tenv (Suc (length ms)) s = Some (Inr (s', [''no more matches'']))
        \<and> session_view s' = (completion_text tenv mode (last ms), []) \<and> \<not> isInCirculationMode (tc s'))"
proof -
  have fl: "\<not> no_bufspc (set_flags s)" "tc (set_flags s) = tc s"
    using no_bufspc_flags [OF assms(1)] assms(3) by (simp_all add: line_cap_def set_flags_def set_mode_def)
  have hd: "fits env tenv mode (hd ms)" "hd ms = ms ! 0" using assms(11,12) by (simp_all add: hd_conv_nth)
  have first: "\<exists>s'. readline_handle_tab env tenv (set_flags s) = Some (Inr (s', [])) \<and> circulating env tenv mode ms 0 s'"
    using first_tab [OF assms(1,2) fl(1) assms(4) _ assms(6-11) hd(1)] assms(5) fl(2) hd(2)
    by (auto simp: circulating_def)
  note presses = circulating_presses [OF first assms(12)]
  have each: "\<exists>s'. tab_presses env tenv (Suc n) s = Some (Inr (s', []))
      \<and> session_view s' = (completion_text tenv mode (ms ! n), [])" if "n < length ms" for n
    using presses [OF that] view_rep [OF ok_stateD(1)] unfolding circulating_def by blast
  let ?k = "length ms - 1"
  have k: "?k < length ms" "Suc ?k = length ms" "?k + 1 = length ms" "ms ! ?k = last ms"
    using assms(11) by (simp_all add: last_conv_nth)
  obtain s1 where s1: "tab_presses env tenv (Suc ?k) s = Some (Inr (s1, []))" "circulating env tenv mode ms ?k s1"
    using presses [OF k(1)] by blast
  let ?l = "completion_text tenv mode (ms ! ?k)"
  have fk: "fits env tenv mode (ms ! ?k)" using assms(12) k(1) by simp
  have ok: "ok_state env (set_flags s1) ?l []" "\<not> no_bufspc (set_flags s1)" "tc (set_flags s1) = tc s1"
    using flags_space [of env s1 ?l] s1(2) fitsD(3) [OF fk] by (simp_all add: circulating_def)
  let ?s = "(set_flags s1)\<lparr>tc := readline_tab_comp_ctx_reset (tc s1)\<rparr>"
  have "readline_handle_tab env tenv (set_flags s1) = Some (Inr (?s, [''no more matches'']))"
    using next_tab(2) [OF ok(1) fitsD(1) [OF fk] ok(2) fitsD(4) [OF fk], of mode ms ?k] s1(2) ok(3) k(3)
    by (simp add: circulating_def)
  moreover have "session_view ?s = (?l, [])" using view_rep [OF ok_stateD(1)] ok(1) ok_tc by blast
  moreover have "\<not> isInCirculationMode (tc ?s)"
    by (simp add: isInCirculationMode_def readline_tab_comp_ctx_reset_def all_tab_modes_def)
  moreover have "tab_presses env tenv (length ms) s = Some (Inr (s1, []))" using s1(1) unfolding k(2) .
  ultimately have "\<exists>s'. tab_presses env tenv (Suc (length ms)) s = Some (Inr (s', [''no more matches'']))
        \<and> session_view s' = (completion_text tenv mode (last ms), []) \<and> \<not> isInCirculationMode (tc s')"
    using k(4) by (intro exI [of _ ?s]) simp
  then show ?thesis using each by blast
qed

theorem tab_shows_matches_in_order_witness:
  "\<exists>s'. tab_presses example_rl_env example_tab_env 2 (typed_session ''/help n'') = Some (Inr (s', []))
     \<and> session_view s' = (wide ''/help notice'', [])"
proof -
  have "\<forall>c\<in>set (wide ''/help n''). 0x20 \<le> c \<and> c \<le> 0xFF" by code_simp
  note t = typed_session [OF this]
  have len: "length (wide ''/help n'') = 7" by (simp add: wide_def)
  have ok: "ok_state example_rl_env (set_flags (typed_session ''/help n'')) (wide ''/help n'') []"
    using ok_set_flags [OF t(1)] by simp
  have sv: "finalize_out_string example_tab_env (wide ''/help n'') = ''/help n''"
    by (simp add: finalize_out_string_def example_tab_env wide_def MB_LEN_MAX_def) code_simp
  have d: "\<not> buf_contains_disallowed_chars example_tab_env (wide ''/help n'')"
    unfolding example_disallowed by code_simp
  have f: "find (\<lambda>(cmd, mode). strncmp_eq ''/help n'' cmd (length cmd)) mode_table = Some (''/help '', Help)" by code_simp
  have c: "completion_text example_tab_env Help ''nick'' = wide ''/help nick''"
    "completion_text example_tab_env Help ''notice'' = wide ''/help notice''"
    by (simp_all add: completion_text_def wide_def example_tab_env)
  have d2: "\<not> buf_contains_disallowed_chars example_tab_env (wide ''/help nick'')"
    "\<not> buf_contains_disallowed_chars example_tab_env (wide ''/help notice'')"
    unfolding example_disallowed by code_simp+
  have fit: "\<forall>str\<in>set [''nick'', ''notice'']. fits example_rl_env example_tab_env Help str"
    using c d2 by (simp add: fits_def Let_def wide_def ascii_narrow)
  have ms: "mode_matches example_tab_env Help (drop (length ''/help '') ''/help n'') = Some [''nick'', ''notice'']"
    by (simp add: mode_matches_def member_mode_def common_mode_def example_tab_env)
  have "\<forall>m. \<not> isInCirculationModeFor (tc (typed_session ''/help n'')) m"
    using t(3) by (simp add: readline_tab_comp_ctx_new_def)
  from tab_shows_matches_in_order [OF ok _ _ d this sv [symmetric] _ f _ ms _ fit]
  have "\<forall>n<2. \<exists>s'. tab_presses example_rl_env example_tab_env (Suc n) (typed_session ''/help n'') = Some (Inr (s', []))
      \<and> session_view s' = (completion_text example_tab_env Help ([''nick'', ''notice''] ! n), [])"
    using len by (simp add: search_var_size_def member_mode_def wide_def)
  from this [rule_format, of 1] show ?thesis using c(2) by (simp add: numeral_2_eq_2)
qed

text \<open>
  Two ways in which a match cannot be typed.  A match with an octet that \<^verbatim>\<open>btowc\<close> has no
  wide character for, any character outside ASCII in a UTF-8 locale, makes the session end and the
  line is lost; and since the free space is computed once per key, a match of 2002 characters or
  more is written past the end of the buffer.
\<close>

theorem completion_faults:
  assumes "ok_state env s l []" "\<not> no_bufspc s" "\<forall>c\<in>set cs. narrow env c"
  shows "(wide (completion_cmd mode) @ map (btowc tenv) pre = cs \<and> mode \<noteq> ChanUsers \<and> length cs \<le> 2000
      \<and> \<not> conv_ok env (btowc tenv c) \<longrightarrow>
        auto_complete env tenv mode (pre @ c # post) s = Some (Inl Restart))
    \<and> (completion_text tenv mode str = cs \<and> 2002 \<le> length cs \<longrightarrow>
        auto_complete env tenv mode str s = Some (Inl Bad_access))"
proof (intro conjI)
  obtain s1 where s1: "clear_line env s = Some (Inr s1)" "ok_state env s1 [] []" "no_bufspc s1 = no_bufspc s"
    using clear_line_ok [OF assms(1)] by blast
  show "wide (completion_cmd mode) @ map (btowc tenv) pre = cs \<and> mode \<noteq> ChanUsers \<and> length cs \<le> 2000
      \<and> \<not> conv_ok env (btowc tenv c) \<longrightarrow> auto_complete env tenv mode (pre @ c # post) s = Some (Inl Restart)"
    using keys_inconvertible [OF s1(2) assms(3), of "btowc tenv c" "map (btowc tenv) post"] s1 assms(2)
    by (auto simp: auto_complete_keys completion_text_def)
  show "completion_text tenv mode str = cs \<and> 2002 \<le> length cs \<longrightarrow>
        auto_complete env tenv mode str s = Some (Inl Bad_access)"
    using keys_overflow [OF s1(2) assms(3)] s1 assms(2) by (simp add: auto_complete_keys)
qed

theorem completion_faults_witness:
  "auto_complete example_rl_env example_tab_env Help (''n'' @ char_of (0xC3::nat) # []) (typed_session ''/help n'') = Some (Inl Restart)"
proof -
  have "\<forall>c\<in>set (wide ''/help n''). 0x20 \<le> c \<and> c \<le> 0xFF" by code_simp
  note t = typed_session [OF this]
  have n: "\<forall>c\<in>set (wide ''/help n''). narrow example_rl_env c" by (simp add: wide_def ascii_narrow)
  have e: "wide (completion_cmd Help) @ map (btowc example_tab_env) ''n'' = wide ''/help n''"
    by (simp add: wide_def example_tab_env)
  have b: "\<not> conv_ok example_rl_env (btowc example_tab_env (char_of (0xC3::nat)))"
    by (simp add: example_rl_env_def example_tab_env)
  have "length (wide ''/help n'') \<le> 2000" by (simp add: wide_def)
  then show ?thesis
    using completion_faults [OF t(1,2) n, of Help example_tab_env "''n''" "char_of (0xC3::nat)" "[]" "[]"] e b by simp
qed

end
