(* ===== verification/Readline_Safe.thy ===== *)
theory Readline_Safe
  imports Readline_Edit
begin

text \<open>
  The line editor whatever the curses library does: for characters of any width, on any screen, and
  if calls of the library fail, a key leaves a line in the buffer or the session by a
  restart; it does not access memory outside the buffer and no difference of integers overflows.
\<close>

section \<open>Results that are not faults\<close>

definition rl_sound :: "('a \<Rightarrow> bool) \<Rightarrow> 'a rl \<Rightarrow> bool" where
  "rl_sound P r \<longleftrightarrow> (case r of Inl e \<Rightarrow> e = Restart | Inr x \<Rightarrow> P x)"

lemma sound_simps [simp]: "rl_sound P (Inr x) = P x" "rl_sound P (Inl e) = (e = Restart)"
  by (simp_all add: rl_sound_def)

lemma sound_then: "\<lbrakk>rl_sound P m; \<And>x. P x \<Longrightarrow> rl_sound Q (f x)\<rbrakk> \<Longrightarrow> rl_sound Q (rl_then m f)"
  by (cases m) simp_all

lemma sound_mono: "\<lbrakk>rl_sound P m; \<And>x. P x \<Longrightarrow> Q x\<rbrakk> \<Longrightarrow> rl_sound Q m"
  by (cases m) simp_all

lemma sound_if: "\<lbrakk>b \<Longrightarrow> rl_sound P x; \<not> b \<Longrightarrow> rl_sound P y\<rbrakk> \<Longrightarrow> rl_sound P (if b then x else y)"
  by simp

section \<open>Drawing\<close>

lemma waddch_sound: "rl_sound (drawn s) (readline_waddch env c s)"
  by (simp add: readline_waddch_def drawn_curx drawn_refl)

lemma waddch_all_sound: "rl_sound (drawn s) (waddch_all env cs s)"
proof (induction cs arbitrary: s)
  case (Cons c cs)
  have "rl_sound (drawn s) (waddch_all env cs x)" if "drawn s x" for x
    using Cons.IH [of x] by (rule sound_mono) (rule drawn_trans [OF that])
  then show ?case unfolding waddch_all.simps by (rule sound_then [OF waddch_sound])
qed (simp add: drawn_refl)

lemma winsch_all_sound: "rl_sound (\<lambda>s'. s' = s) (winsch_all env cs s)"
  by (induction cs) (auto intro!: sound_then [where P = "\<lambda>s'. s' = s"] simp: readline_winsch_def)

lemma wmove_sound: "(\<And>x. P (s\<lparr>curx := x\<rparr>)) \<Longrightarrow> rl_sound P (wmove_to env x s)"
  by (simp add: wmove_to_def)

lemma subtrahend_bounds: "j \<le> subtrahend_loop cs diff i j \<and> subtrahend_loop cs diff i j \<le> j + int (length cs)"
proof (induction cs diff i j rule: subtrahend_loop.induct)
  case (2 c cs diff i j)
  then show ?case by (cases "i < diff") auto
qed simp

text \<open>The screen: only the sizes must be such that the program can compute with them.\<close>

definition screen_ok :: "rl_env \<Rightarrow> int \<Rightarrow> bool" where
  "screen_ok env psize \<longleftrightarrow> 0 \<le> psize \<and> psize \<le> INT_MAX \<and> 0 \<le> COLS env \<and> COLS env \<le> INT_MAX"

lemma env_ok_screen: "env_ok env psize \<Longrightarrow> screen_ok env psize"
  by (auto simp: env_ok_def screen_ok_def)

lemma new_entry_sound:
  assumes "rep s l r" "screen_ok env (prompt_size s)"
  shows "rl_sound (\<lambda>i. \<exists>k\<le>length l. i = int k) (new_entry_index env fwd s)"
proof -
  have p: "bufpos s = int (length l)" "length l \<le> 2000" using assms(1) by (simp_all add: rep_def bufcells_def)
  have "take (nat (bufpos s)) (buffer s) = l" using assms(1) by (simp add: rep_def)
  then have g: "0 \<le> get_subtrahend s d" "get_subtrahend s d \<le> int (length l)" for d
    using subtrahend_bounds [of 0 "rev l" d 0] by (simp_all add: get_subtrahend_def)
  have d: "int_diff (bufpos s) (get_subtrahend s d) = Some (bufpos s - get_subtrahend s d)" for d
    using g [of d] p by (auto simp: int_diff_def limits_defs)
  have k: "\<exists>k\<le>length l. bufpos s - get_subtrahend s d = int k" for d
    using g [of d] p(1) by (intro exI [of _ "nat (bufpos s - get_subtrahend s d)"]) auto
  have pos: "\<not> bufpos s - get_subtrahend s d < 0" for d using g(2) [of d] p(1) by simp
  have "int_diff (COLS env div 2) (prompt_size s) = Some (COLS env div 2 - prompt_size s)"
    using assms(2) by (auto simp: int_diff_def limits_defs screen_ok_def)
  then show ?thesis using k pos by (cases fwd) (simp_all add: new_entry_index_def d)
qed

lemma swap_sound:
  assumes "rep s l r" "screen_ok env (prompt_size s)"
  shows "rl_sound (drawn s) (magic_swap_panels env fwd s)"
proof -
  define t where "t = write_cmdprompt env (s\<lparr>panel_state :=
    (if panel_state s = PANEL1_ACTIVE then PANEL2_ACTIVE else PANEL1_ACTIVE)\<rparr>)"
  have dr: "drawn s t" by (simp add: drawn_def write_cmdprompt_def t_def)
  note f = drawn_fields [OF dr]
  have rep: "rep t l r" and scr: "screen_ok env (prompt_size t)" using rep_drawn [OF dr] assms f(6) by simp_all
  have add: "rl_sound (drawn s) (readline_waddnstr env cs n t)" for cs n
    unfolding readline_waddnstr_def Let_def using waddch_all_sound by (rule sound_mono) (rule drawn_trans [OF dr])
  have ins: "rl_sound (drawn s) (readline_winsnstr env cs n u)" if "drawn s u" for cs n u
    unfolding readline_winsnstr_def Let_def using winsch_all_sound by (rule sound_mono) (use that in simp)
  have "rl_sound (drawn s) (compute_new_window_entry env fwd t)"
    unfolding compute_new_window_entry_def
  proof (rule sound_then [OF new_entry_sound [OF rep scr]])
    fix i assume "\<exists>k\<le>length l. i = int k"
    then obtain str where "wcs_at (buffer t) i = Some str" using wcs_at_rep [OF rep] by blast
    then show "rl_sound (drawn s) (rl_then (mem (wcs_at (buffer t) i)) (\<lambda>str1.
        rl_then (mem (wcs_at (buffer t) (bufpos t))) (\<lambda>str2.
          if insert_mode t
          then rl_then (if bufpos t > 0 then readline_waddnstr env str1 (bufpos t - i) t else Inr t)
                 (readline_winsnstr env str2 (-1))
          else readline_waddnstr env str1 (-1) t)))"
      using wcs_at_cursor [OF rep] add ins dr
      by (auto intro!: sound_if sound_then [where P = "drawn s"])
  qed
  then show ?thesis by (simp add: magic_swap_panels_def t_def)
qed

section \<open>The editing keys\<close>

text \<open>There is a line in the buffer.\<close>

definition held :: "rl_env \<Rightarrow> rl_session \<Rightarrow> bool" where
  "held env s \<longleftrightarrow> (\<exists>l r. rep s l r) \<and> screen_ok env (prompt_size s)"

lemma held_update [simp]:
  "held env (s\<lparr>curx := x\<rparr>) = held env s" "held env (s\<lparr>vispos := v\<rparr>) = held env s"
  "held env (set_mode s) = held env s" "held env (set_flags s) = held env s" "held env (end_circulation s) = held env s"
  by (simp_all add: held_def rep_def set_mode_def set_flags_def end_circulation_def)

lemma heldI: "\<lbrakk>rep s l r; screen_ok env (prompt_size s)\<rbrakk> \<Longrightarrow> held env s"
  by (auto simp: held_def)

text \<open>The panel may be swapped first.\<close>

lemma swapped_sound:
  assumes "rep s l r" "screen_ok env (prompt_size s)"
    and "\<And>s'. drawn s s' \<Longrightarrow> rl_sound P (f s')"
  shows "rl_sound P (rl_then (if b then magic_swap_panels env fwd s else Inr s) f)"
  using swap_sound [OF assms(1,2)] assms(3) drawn_refl by (intro sound_then [where P = "drawn s"]) auto

lemma rep_swapped:
  assumes "rep s l r" "screen_ok env (prompt_size s)" "insert_mode s = (bufpos s \<noteq> numins s)" "drawn s s'"
  shows "rep s' l r" "screen_ok env (prompt_size s')" "insert_mode s' = (r \<noteq> [])" "bufpos s' = int (length l)"
    "numins s' = int (length l) + int (length r)" "no_bufspc s' = no_bufspc s"
  using assms drawn_fields [OF assms(4)] rep_drawn [OF assms(4)] by (auto simp: rep_def)

lemma rep_left: "rep s (l @ [c]) r \<Longrightarrow> rep (s\<lparr>bufpos := bufpos s - 1\<rparr>) l (c # r)"
  by (auto simp: rep_def)

lemma rep_right: "rep s l (c # r) \<Longrightarrow> rep (s\<lparr>bufpos := bufpos s + 1\<rparr>) (l @ [c]) r"
  by (auto simp: rep_def)

lemma left_sound:
  assumes "held env s" "insert_mode s = (bufpos s \<noteq> numins s)"
  shows "rl_sound (held env) (case_key_left env s)"
proof -
  obtain l r where s: "rep s l r" "screen_ok env (prompt_size s)" using assms(1) by (auto simp: held_def)
  show ?thesis
  proof (cases l rule: rev_cases)
    case Nil
    then show ?thesis using s assms(1) by (simp add: case_key_left_def rep_def)
  next
    case (snoc l' c)
    then have p: "bufpos s \<noteq> 0" using s(1) by (simp add: rep_def)
    have body: "rl_sound (held env) (rl_then (mem (rdi (buffer u) (bufpos u - 1))) (\<lambda>c.
        let width = readline_wcwidth c FWLEN; s1 = u\<lparr>bufpos := bufpos u - 1\<rparr> in
        if width > 0 then wmove_to env (curx s1 - width) (s1\<lparr>vispos := vispos s1 - width\<rparr>) else Inr s1))"
      if "drawn s u" for u
    proof -
      note u = rep_swapped [OF s assms(2) that]
      have "held env (u\<lparr>bufpos := bufpos u - 1\<rparr>)" using rep_left u(1,2) snoc by (intro heldI [of _ l' "c # r"]) auto
      then show ?thesis using rep_before [of u l' c r] u(1) snoc
        by (auto simp: Let_def intro!: sound_if wmove_sound)
    qed
    show ?thesis unfolding case_key_left_def if_not_P [OF p] by (rule swapped_sound [OF s body])
  qed
qed

lemma right_sound:
  assumes "held env s" "insert_mode s = (bufpos s \<noteq> numins s)"
  shows "rl_sound (held env) (case_key_right env s)"
proof -
  obtain l r where s: "rep s l r" "screen_ok env (prompt_size s)" using assms(1) by (auto simp: held_def)
  show ?thesis
  proof (cases r)
    case Nil
    then show ?thesis using s assms by (simp add: case_key_right_def rep_def)
  next
    case (Cons c r')
    then have p: "\<not> \<not> insert_mode s" using s(1) assms(2) by (simp add: rep_def)
    have body: "rl_sound (held env) (rl_then (mem (rdi (buffer u) (bufpos u))) (\<lambda>c.
        let width = readline_wcwidth c FWLEN; s1 = u\<lparr>bufpos := bufpos u + 1\<rparr> in
        if width > 0 then wmove_to env (curx s1 + width) (s1\<lparr>vispos := vispos s1 + width\<rparr>) else Inr s1))"
      if "drawn s u" for u
    proof -
      note u = rep_swapped [OF s assms(2) that]
      have "held env (u\<lparr>bufpos := bufpos u + 1\<rparr>)" using rep_right u(1,2) Cons by (intro heldI [of _ "l @ [c]" r']) auto
      then show ?thesis using rep_at [of u l c r'] u(1) Cons
        by (auto simp: Let_def intro!: sound_if wmove_sound)
    qed
    show ?thesis unfolding case_key_right_def if_not_P [OF p] by (rule swapped_sound [OF s body])
  qed
qed

text \<open>A line in a given buffer.\<close>

lemma held_line:
  assumes "screen_ok env (prompt_size s)" "l @ r @ replicate n 0 = buffer s" "length l + length r + n = bufcells" "0 < n"
    "0 \<notin> set l" "0 \<notin> set r" "bufpos s = int (length l)" "numins s = int (length l) + int (length r)"
  shows "held env s"
  using repI [of s l r n] assms by (intro heldI [of s l r]) auto

lemma str_line:
  assumes "0 \<notin> set r" "0 < n"
  shows "wcs_at (l @ r @ replicate n 0) (int (length l)) = Some r"
proof -
  have "0 \<in> set (r @ replicate n 0)" using assms(2) by simp
  then show ?thesis using take_zeros [OF assms(1), of n] by (simp add: wcs_at_def)
qed

lemma ins_sound: "P s \<Longrightarrow> rl_sound P (readline_winsnstr env cs n s)"
  unfolding readline_winsnstr_def Let_def by (rule sound_mono [OF winsch_all_sound]) simp

lemma backspace_sound:
  assumes "held env s" "insert_mode s = (bufpos s \<noteq> numins s)"
  shows "rl_sound (held env) (case_key_backspace env s)"
proof -
  obtain l r where s: "rep s l r" "screen_ok env (prompt_size s)" using assms(1) by (auto simp: held_def)
  show ?thesis
  proof (cases l rule: rev_cases)
    case Nil
    then show ?thesis using s assms(1) by (simp add: case_key_backspace_def rep_def)
  next
    case (snoc l' c)
    then have p: "bufpos s \<noteq> 0" using s(1) by (simp add: rep_def)
    have body: "rl_sound (held env) (let x = curx u in
        rl_then (mem (rdi (buffer u) (bufpos u - 1))) (\<lambda>c.
        let width = readline_wcwidth c FWLEN in
        if insert_mode u then
          rl_then (mem (wcs_at (buffer u) (bufpos u))) (\<lambda>rest.
          rl_then (mem (wmemmove (buffer u) (bufpos u - 1) (bufpos u) (length rest))) (\<lambda>b.
          rl_then (mem (wri b (numins u - 1) 0)) (\<lambda>b.
          let s1 = u\<lparr>buffer := b, bufpos := bufpos u - 1, numins := numins u - 1\<rparr> in
          if width > 0 then
            rl_then (wmove_to env (x - width) (s1\<lparr>vispos := vispos s1 - width\<rparr>)) (\<lambda>s2.
            rl_then (mem (wcs_at (buffer s2) (bufpos s2))) (\<lambda>str. readline_winsnstr env str (-1) s2))
          else Inr s1)))
        else
          rl_then (mem (wri (buffer u) (bufpos u - 1) 0)) (\<lambda>b.
          let s1 = u\<lparr>buffer := b, bufpos := bufpos u - 1, numins := numins u - 1\<rparr> in
          if width > 0 then wmove_to env (x - width) (s1\<lparr>vispos := vispos s1 - width\<rparr>) else Inr s1)))"
      if "drawn s u" for u
    proof -
      note u = rep_swapped [OF s assms(2) that, unfolded snoc]
      obtain n where n: "buffer u = l' @ c # r @ replicate (Suc n) 0" "length l' + length r + Suc (Suc n) = bufcells"
        using rep_cells [OF u(1)] by auto
      let ?b = "l' @ r @ replicate (Suc (Suc n)) 0"
      have z: "0 \<notin> set l'" "0 \<notin> set r" using rep_nonzero [OF u(1)] by simp_all
      have h: "held env (u\<lparr>buffer := ?b, bufpos := int (length l'), numins := int (length l') + int (length r)\<rparr>)"
        by (rule held_line [of _ _ l' r "Suc (Suc n)"]) (use u(2) n(2) z in simp_all)
      have str: "wcs_at ?b (int (length l')) = Some r" by (rule str_line) (use z in simp_all)
      have q: "bufpos u - 1 = int (length l')" "numins u - 1 = int (length l') + int (length r)" "bufpos u = int (length l') + 1"
        using u(4,5) by simp_all
      show ?thesis
      proof (cases "r = []")
        case True
        have "wri (buffer u) (int (length l')) 0 = Some ?b" using True n(1) by (simp add: wri_def)
        then show ?thesis using rep_before [OF u(1)] u(3) True h q(1,2)
          by (auto simp: Let_def intro!: sound_if wmove_sound)
      next
        case False
        obtain b1 where b1: "wmemmove (buffer u) (int (length l')) (int (length l') + 1) (length r) = Some b1"
          "wri b1 (int (length l') + int (length r)) 0 = Some ?b"
          using delete_cell [OF n(1)] by auto
        have "rl_sound (held env) (rl_then (wmove_to env x (u\<lparr>buffer := ?b, bufpos := int (length l'),
            numins := int (length l') + int (length r), vispos := v\<rparr>)) (\<lambda>s2.
            rl_then (mem (wcs_at (buffer s2) (bufpos s2))) (\<lambda>str. readline_winsnstr env str (-1) s2)))" for x v
          using h str by (simp add: wmove_to_def ins_sound held_def rep_def)
        then show ?thesis using rep_before [OF u(1)] wcs_at_cursor [OF u(1)] u(3) False h b1 q
          by (simp add: Let_def)
      qed
    qed
    show ?thesis unfolding case_key_backspace_def if_not_P [OF p] by (rule swapped_sound [OF s body])
  qed
qed

lemma dc_sound:
  assumes "held env s" "insert_mode s = (bufpos s \<noteq> numins s)"
  shows "rl_sound (held env) (case_key_dc env s)"
proof -
  obtain l r where s: "rep s l r" "screen_ok env (prompt_size s)" using assms(1) by (auto simp: held_def)
  show ?thesis
  proof (cases r)
    case Nil
    then show ?thesis using s assms by (simp add: case_key_dc_def rep_def)
  next
    case (Cons c r')
    note u = rep_swapped [OF s assms(2) drawn_refl, unfolded Cons]
    obtain n where n: "buffer s = l @ c # r' @ replicate (Suc n) 0" "length l + length r' + Suc (Suc n) = bufcells"
      using rep_cells [OF u(1)] by auto
    let ?b = "l @ r' @ replicate (Suc (Suc n)) 0"
    have z: "0 \<notin> set l" "0 \<notin> set r'" using rep_nonzero [OF u(1)] by simp_all
    have h: "held env (s\<lparr>buffer := ?b, numins := int (length l) + int (length r')\<rparr>)"
      by (rule held_line [of _ _ l r' "Suc (Suc n)"]) (use u(2,4) n(2) z in simp_all)
    have str: "wcs_at ?b (int (length l)) = Some r'" by (rule str_line) (use z in simp_all)
    have "rep (s\<lparr>bufpos := bufpos s + 1\<rparr>) (l @ [c]) r'" by (rule rep_right [OF u(1)])
    then have rest: "wcs_at (buffer s) (int (length l) + 1) = Some r'" using wcs_at_cursor u(4) by fastforce
    obtain b1 where b1: "wmemmove (buffer s) (int (length l)) (int (length l) + 1) (length r') = Some b1"
      "wri b1 (int (length l) + int (length r')) 0 = Some ?b"
      using delete_cell [OF n(1)] by auto
    show ?thesis using u(3-5) rest b1 str h by (simp add: case_key_dc_def Let_def ins_sound)
  qed
qed

lemma typed_sound:
  assumes "held env s" "insert_mode s = (bufpos s \<noteq> numins s)" "no_bufspc s = (g_readline_bufsize \<le> numins s + 1)" "c \<noteq> 0"
  shows "rl_sound (held env) (handle_key env c check s)"
proof (cases "no_bufspc s")
  case True
  then show ?thesis using assms(1) by (simp add: handle_key_def)
next
  case False
  obtain l r where s: "rep s l r" "screen_ok env (prompt_size s)" using assms(1) by (auto simp: held_def)
  let ?w = "readline_wcwidth c FWLEN"
  have body: "rl_sound (held env) (let width = ?w in
        rl_then
          (if insert_mode u then
             rl_then (mem (wcs_at (buffer u) (bufpos u))) (\<lambda>rest.
             rl_then (mem (wmemmove (buffer u) (bufpos u + 1) (bufpos u) (length rest))) (\<lambda>b.
             rl_then (mem (wri b (bufpos u) c)) (\<lambda>b.
             rl_then (readline_winsch env c (u\<lparr>buffer := b, bufpos := bufpos u + 1, numins := numins u + 1,
                 vispos := vispos u + width\<rparr>)) (\<lambda>s1.
             if width > 0 then wmove_to env (curx s1 + width) s1 else Inr s1))))
           else
             rl_then (mem (wri (buffer u) (bufpos u) c)) (\<lambda>b.
             readline_waddch env c (u\<lparr>buffer := b, bufpos := bufpos u + 1, numins := numins u + 1,
               vispos := vispos u + width\<rparr>)))
          (\<lambda>s. Inr (if check then end_circulation s else s)))"
    if "drawn s u" for u
  proof -
    note u = rep_swapped [OF s assms(2) that]
    obtain n where n: "buffer u = l @ r @ replicate (Suc n) 0" "length l + length r + Suc n = bufcells"
      using rep_cells [OF u(1)] by auto
    let ?b = "l @ c # r @ replicate n 0"
    let ?u = "u\<lparr>buffer := ?b, bufpos := bufpos u + 1, numins := numins u + 1, vispos := vispos u + ?w\<rparr>"
    have "length l + length r + 1 < 2000" using False assms(3) s(1) by (simp add: rep_def g_readline_bufsize_def)
    then have "0 < n" using n(2) by (simp add: bufcells_def)
    then have h: "held env ?u"
      using u(2,4,5) n(2) rep_nonzero [OF u(1)] assms(4) by (intro held_line [of _ _ "l @ [c]" r n]) auto
    have fin: "rl_sound (held env) (rl_then m (\<lambda>s. Inr (if check then end_circulation s else s)))"
      if "rl_sound (held env) m" for m using that by (rule sound_then) simp
    show ?thesis
    proof (cases "r = []")
      case True
      have "wri (buffer u) (bufpos u) c = Some ?b" using True n(1) u(4) by (simp add: wri_def list_update_append)
      moreover have "rl_sound (held env) (readline_waddch env c ?u)"
        using h by (simp add: readline_waddch_def)
      ultimately show ?thesis using True u(3) unfolding Let_def by (intro fin) simp
    next
      case False
      obtain b1 where b1: "wmemmove (buffer u) (int (length l) + 1) (int (length l)) (length r) = Some b1"
        "wri b1 (int (length l)) c = Some ?b" using insert_cell [OF n(1)] by blast
      have "rl_sound (held env) (rl_then (readline_winsch env c ?u) (\<lambda>s1.
          if ?w > 0 then wmove_to env (curx s1 + ?w) s1 else Inr s1))"
        using h by (simp add: readline_winsch_def wmove_to_def)
      then show ?thesis using False u(3,4) b1 wcs_at_cursor [OF u(1)] unfolding Let_def by (intro fin) simp
    qed
  qed
  show ?thesis unfolding handle_key_def if_not_P [OF False] by (rule swapped_sound [OF s body])
qed

section \<open>The loops\<close>

lemma mode_set [simp]: "insert_mode (set_mode s) = (bufpos (set_mode s) \<noteq> numins (set_mode s))"
  by (simp add: set_mode_def)

lemma ctrl_a_sound:
  "\<lbrakk>held env s; insert_mode s = (bufpos s \<noteq> numins s)\<rbrakk> \<Longrightarrow> rl_sound (held env) (ctrl_a env s)"
proof (induction env s rule: ctrl_a.induct)
  case (1 env s)
  show ?case
  proof (cases "bufpos s = 0")
    case False
    have k: "rl_sound (held env) (case_key_left env s)" by (rule left_sound [OF 1(2,3)])
    then show ?thesis
    proof (cases "case_key_left env s")
      case (Inr s')
      then show ?thesis using 1(1) [OF False Inr] k False by (subst ctrl_a.simps) simp
    qed (use False in \<open>subst ctrl_a.simps, simp\<close>)
  qed (use 1(2) in \<open>subst ctrl_a.simps, simp\<close>)
qed

lemma ctrl_e_sound:
  "\<lbrakk>held env s; insert_mode s = (bufpos s \<noteq> numins s)\<rbrakk> \<Longrightarrow> rl_sound (held env) (ctrl_e env s)"
proof (induction env s rule: ctrl_e.induct)
  case (1 env s)
  show ?case
  proof (cases "insert_mode s")
    case True
    have k: "rl_sound (held env) (case_key_right env s)" by (rule right_sound [OF 1(2,3)])
    then show ?thesis
    proof (cases "case_key_right env s")
      case (Inr s')
      then show ?thesis using 1(1) [OF _ Inr] k True by (subst ctrl_e.simps) simp
    qed (use True in \<open>subst ctrl_e.simps, simp\<close>)
  qed (use 1(2) in \<open>subst ctrl_e.simps, simp\<close>)
qed

text \<open>The flags as the loop of \<^verbatim>\<open>process\<close> computes them.\<close>

lemma flags_set:
  "insert_mode (set_flags s) = (bufpos (set_flags s) \<noteq> numins (set_flags s))"
  "no_bufspc (set_flags s) = (g_readline_bufsize \<le> numins (set_flags s) + 1)"
  by (auto simp: set_flags_def set_mode_def)

lemma keys_sound:
  assumes "held env s"
  shows "rl_sound (held env) (case_key_left env (set_flags s))" "rl_sound (held env) (case_key_right env (set_flags s))"
    "rl_sound (held env) (case_key_backspace env (set_flags s))" "rl_sound (held env) (case_key_dc env (set_flags s))"
    "rl_sound (held env) (ctrl_a env (set_flags s))" "rl_sound (held env) (ctrl_e env (set_flags s))"
    "c \<noteq> 0 \<Longrightarrow> rl_sound (held env) (handle_key env c check (set_flags s))"
  using left_sound right_sound backspace_sound dc_sound ctrl_a_sound ctrl_e_sound typed_sound flags_set assms
  by simp_all

end
