(* ===== verification/Readline_Loop.thy ===== *)
theory Readline_Loop
  imports Tab_Completion Readline_Safe
begin

text \<open>
  Reading a line: the loop \<^verbatim>\<open>process\<close> and \<^verbatim>\<open>readline\<close> of \<^verbatim>\<open>src/src/readline.c\<close>.

  A key is what \<^verbatim>\<open>wget_wch\<close> delivers, one \<^verbatim>\<open>wint_t\<close>: the code of a function key of the curses
  library or a wide character.  The loop does not look at whether it got the one or the other,
  so a wide character whose code is that of a function key acts as this key.  The codes are
  parameters, from the header of the library.  Keys that act on other components are actions in
  the result.  The build without Hunspell is modelled; the environment says which characters are
  printable and whether the mouse is enabled.
\<close>

section \<open>Keys and results\<close>

record key_codes =
  KEY_DOWN :: int
  KEY_UP :: int
  KEY_LEFT :: int
  KEY_RIGHT :: int
  KEY_BACKSPACE :: int
  KEY_F :: "nat \<Rightarrow> int"
  KEY_DC :: int
  KEY_MOUSE :: int
  KEY_NPAGE :: int
  KEY_PPAGE :: int
  KEY_ENTER :: int
  KEY_RESIZE :: int

definition MY_KEY_BS :: int where "MY_KEY_BS = 0x08"
definition MY_KEY_EOT :: int where "MY_KEY_EOT = 0x04"
definition MY_KEY_ACK :: int where "MY_KEY_ACK = 0x06"
definition MY_KEY_STX :: int where "MY_KEY_STX = 0x02"
definition MY_KEY_SO :: int where "MY_KEY_SO = 0x0E"
definition MY_KEY_DLE :: int where "MY_KEY_DLE = 0x10"
definition MY_KEY_RESIZE :: int where "MY_KEY_RESIZE = 0x1B"
definition CTRL_A :: int where "CTRL_A = 0x01"
definition CTRL_E :: int where "CTRL_E = 0x05"
definition CTRL_L :: int where "CTRL_L = 0x0C"
definition CTRL_W :: int where "CTRL_W = 0x17"
definition WINDOWS_KEY_ENTER :: int where "WINDOWS_KEY_ENTER = 459"
definition BOLD_ALIAS :: int where "BOLD_ALIAS = 0x15"

lemmas key_defs = MY_KEY_BS_def MY_KEY_EOT_def MY_KEY_ACK_def MY_KEY_STX_def MY_KEY_SO_def MY_KEY_DLE_def
  MY_KEY_RESIZE_def CTRL_A_def CTRL_E_def CTRL_L_def CTRL_W_def WINDOWS_KEY_ENTER_def BOLD_ALIAS_def deco_defs

record loop_env =
  iswprint :: "int \<Rightarrow> bool"
  mouse :: bool
  codes :: key_codes

text \<open>Why the loop is left without a line, and what else a key does.\<close>

datatype rl_exit = Select_prev | Select_next | Hist_next | Hist_prev | Close_window | Close_priv_conv
  | Resize_requested | Bell_key | Empty_line | Restarted

datatype rl_action = Toggle_logging | List_windows | Show_help | No_hunspell | Nicklist_up | Nicklist_down
  | Handle_mouse | Scroll_down int | Scroll_up int | Message string

datatype rl_outcome = Again rl_session "rl_action list" | Exit_with rl_exit | Enter rl_session

section \<open>One key\<close>

definition lift :: "rl_session rl \<Rightarrow> rl_outcome rl option" where
  "lift r = Some (rl_then r (\<lambda>s. Inr (Again s [])))"

text \<open>The keys \<^verbatim>\<open>left\<close>, \<^verbatim>\<open>right\<close>, \<^verbatim>\<open>backspace\<close> and so on end the circulation.\<close>

definition edited :: "rl_session rl \<Rightarrow> rl_outcome rl option" where
  "edited r = lift (rl_then r (\<lambda>s. Inr (end_circulation s)))"

definition act :: "rl_session \<Rightarrow> rl_action \<Rightarrow> rl_outcome rl option" where
  "act s a = Some (Inr (Again s [a]))"

definition leave :: "rl_exit \<Rightarrow> rl_outcome rl option" where
  "leave x = Some (Inr (Exit_with x))"

text \<open>The labels of the switch, in the order of the code.  In C they are distinct.\<close>

definition case_labels :: "loop_env \<Rightarrow> int list" where
  "case_labels lenv =
     (let K = codes lenv in
      [CTRL_A, CTRL_E, CTRL_L, CTRL_W, MY_KEY_DLE, MY_KEY_SO, KEY_DOWN K, KEY_UP K, KEY_LEFT K, MY_KEY_STX,
       KEY_RIGHT K, MY_KEY_ACK, KEY_BACKSPACE K, MY_KEY_BS, KEY_F K 1, KEY_F K 2, KEY_F K 3, KEY_F K 4,
       KEY_F K 5, BLINK, KEY_F K 6, BOLD_ALIAS, KEY_F K 7, COLOR, KEY_F K 8, NORMAL, KEY_F K 9, REVERSE,
       KEY_F K 10, UNDERLINE, KEY_F K 11, KEY_F K 12, KEY_DC K, MY_KEY_EOT, KEY_MOUSE K, KEY_NPAGE K, KEY_PPAGE K,
       0x09, 0x0A, KEY_ENTER K, WINDOWS_KEY_ENTER, KEY_RESIZE K, MY_KEY_RESIZE, 0x07])"

definition process_key :: "rl_env \<Rightarrow> tab_env \<Rightarrow> loop_env \<Rightarrow> int \<Rightarrow> rl_session \<Rightarrow> rl_outcome rl option" where
  "process_key env tenv lenv wc s0 =
     (let s = set_flags s0; K = codes lenv in
      if wc = CTRL_A then edited (ctrl_a env s)
      else if wc = CTRL_E then edited (ctrl_e env s)
      else if wc = CTRL_L then act s Toggle_logging
      else if wc = CTRL_W then act s List_windows
      else if wc = MY_KEY_DLE then leave Select_prev
      else if wc = MY_KEY_SO then leave Select_next
      else if wc = KEY_DOWN K then leave Hist_next
      else if wc = KEY_UP K then leave Hist_prev
      else if wc = KEY_LEFT K \<or> wc = MY_KEY_STX then edited (case_key_left env s)
      else if wc = KEY_RIGHT K \<or> wc = MY_KEY_ACK then edited (case_key_right env s)
      else if wc = KEY_BACKSPACE K \<or> wc = MY_KEY_BS then edited (case_key_backspace env s)
      else if wc = KEY_F K 1 then act s Show_help
      else if wc = KEY_F K 2 then act s No_hunspell
      else if wc = KEY_F K 3 then act s Nicklist_up
      else if wc = KEY_F K 4 then act s Nicklist_down
      else if wc = KEY_F K 5 \<or> wc = BLINK then lift (handle_key env BLINK True s)
      else if wc = KEY_F K 6 \<or> wc = BOLD_ALIAS then lift (handle_key env BOLD True s)
      else if wc = KEY_F K 7 \<or> wc = COLOR then lift (handle_key env COLOR True s)
      else if wc = KEY_F K 8 \<or> wc = NORMAL then lift (handle_key env NORMAL True s)
      else if wc = KEY_F K 9 \<or> wc = REVERSE then lift (handle_key env REVERSE True s)
      else if wc = KEY_F K 10 \<or> wc = UNDERLINE then lift (handle_key env UNDERLINE True s)
      else if wc = KEY_F K 11 then leave Close_window
      else if wc = KEY_F K 12 then leave Close_priv_conv
      else if wc = KEY_DC K \<or> wc = MY_KEY_EOT then edited (case_key_dc env s)
      else if wc = KEY_MOUSE K then (if mouse lenv then act s Handle_mouse else Some (Inr (Again s [])))
      else if wc = KEY_NPAGE K then act s (Scroll_down (-1))
      else if wc = KEY_PPAGE K then act s (Scroll_up (-1))
      else if wc = 0x09 then
        map_option (\<lambda>r. rl_then r (\<lambda>(s, msgs). Inr (Again s (map Message msgs)))) (readline_handle_tab env tenv s)
      else if wc = 0x0A \<or> wc = KEY_ENTER K \<or> wc = WINDOWS_KEY_ENTER then Some (Inr (Enter s))
      else if wc = KEY_RESIZE K \<or> wc = MY_KEY_RESIZE then leave Resize_requested
      else if wc = 0x07 then leave Bell_key
      else if iswprint lenv wc \<and> \<not> is_combined wc then lift (handle_key env wc True s)
      else Some (Inr (Again s [])))"

section \<open>The loop\<close>

datatype rl_result = Line string | No_line rl_exit | Waiting rl_session

text \<open>After the loop: the line is terminated and converted.\<close>

definition finish_line :: "tab_env \<Rightarrow> rl_session \<Rightarrow> rl_result rl" where
  "finish_line tenv s =
     (if numins s > 0 then
        rl_then (mem (wri (buffer s) (numins s) 0)) (\<lambda>b.
        rl_then (mem (wcs_at b 0)) (\<lambda>line. Inr (Line (finalize_out_string tenv line))))
      else Inr (No_line Empty_line))"

fun process :: "rl_env \<Rightarrow> tab_env \<Rightarrow> loop_env \<Rightarrow> int list \<Rightarrow> rl_session \<Rightarrow> (rl_result \<times> rl_action list) rl option" where
  "process env tenv lenv [] s = Some (Inr (Waiting s, []))"
| "process env tenv lenv (k # ks) s =
     (case process_key env tenv lenv k s of
        None \<Rightarrow> None
      | Some (Inl e) \<Rightarrow> Some (Inl e)
      | Some (Inr (Again s' acts)) \<Rightarrow>
          map_option (\<lambda>r. rl_then r (\<lambda>(res, acts'). Inr (res, acts @ acts'))) (process env tenv lenv ks s')
      | Some (Inr (Exit_with x)) \<Rightarrow> Some (Inr (No_line x, []))
      | Some (Inr (Enter s')) \<Rightarrow> Some (rl_then (finish_line tenv s') (\<lambda>res. Inr (res, []))))"

text \<open>A restart by \<^verbatim>\<open>longjmp\<close> makes \<^verbatim>\<open>readline\<close> return no line.\<close>

definition readline :: "rl_env \<Rightarrow> tab_env \<Rightarrow> loop_env \<Rightarrow> int \<Rightarrow> int list \<Rightarrow> (rl_result \<times> rl_action list) rl option" where
  "readline env tenv lenv psize ks =
     (case process env tenv lenv ks (write_cmdprompt env (new_session psize)) of
        Some (Inl Restart) \<Rightarrow> Some (Inr (No_line Restarted, []))
      | r \<Rightarrow> r)"

section \<open>Lemmas\<close>

text \<open>The key for each edit, and the characters that are typed as themselves.\<close>

fun key_for :: "loop_env \<Rightarrow> int edit \<Rightarrow> int" where
  "key_for lenv (Type c) = c"
| "key_for lenv Backspace = KEY_BACKSPACE (codes lenv)"
| "key_for lenv Delete = KEY_DC (codes lenv)"
| "key_for lenv edit.Left = KEY_LEFT (codes lenv)"
| "key_for lenv edit.Right = KEY_RIGHT (codes lenv)"
| "key_for lenv Home = CTRL_A"
| "key_for lenv End = CTRL_E"

definition plain_key :: "loop_env \<Rightarrow> int \<Rightarrow> bool" where
  "plain_key lenv c \<longleftrightarrow> c \<notin> set (case_labels lenv) \<and> iswprint lenv c \<and> \<not> is_combined c"

definition labels_ok :: "loop_env \<Rightarrow> bool" where
  "labels_ok lenv \<longleftrightarrow> distinct (case_labels lenv)"

lemma plain_process:
  assumes "plain_key lenv c"
  shows "process_key env tenv lenv c s = lift (handle_key env c True (set_flags s))"
  using assms by (simp add: process_key_def plain_key_def case_labels_def Let_def)

text \<open>A key that is not one of the labels before it.\<close>

lemma distinct_before: "distinct (xs @ k # ys) \<Longrightarrow> k \<notin> set xs"
  by auto

lemma label_keys:
  assumes "labels_ok lenv"
  shows "process_key env tenv lenv (KEY_LEFT (codes lenv)) s = edited (case_key_left env (set_flags s))"
    "process_key env tenv lenv (KEY_RIGHT (codes lenv)) s = edited (case_key_right env (set_flags s))"
    "process_key env tenv lenv (KEY_BACKSPACE (codes lenv)) s = edited (case_key_backspace env (set_flags s))"
    "process_key env tenv lenv (KEY_DC (codes lenv)) s = edited (case_key_dc env (set_flags s))"
    "process_key env tenv lenv (KEY_ENTER (codes lenv)) s = Some (Inr (Enter (set_flags s)))"
proof -
  define K where "K = codes lenv"
  define L where "L = [CTRL_A, CTRL_E, CTRL_L, CTRL_W, MY_KEY_DLE, MY_KEY_SO, KEY_DOWN K, KEY_UP K]"
  define R where "R = [KEY_F K 1, KEY_F K 2, KEY_F K 3, KEY_F K 4,
       KEY_F K 5, BLINK, KEY_F K 6, BOLD_ALIAS, KEY_F K 7, COLOR, KEY_F K 8, NORMAL, KEY_F K 9, REVERSE,
       KEY_F K 10, UNDERLINE, KEY_F K 11, KEY_F K 12]"
  define T where "T = [MY_KEY_EOT, KEY_MOUSE K, KEY_NPAGE K, KEY_PPAGE K, 0x09, 0x0A]"
  define E where "E = [WINDOWS_KEY_ENTER, KEY_RESIZE K, MY_KEY_RESIZE, 0x07]"
  have labels: "distinct (L @ KEY_LEFT K # [MY_KEY_STX] @ KEY_RIGHT K # [MY_KEY_ACK] @ KEY_BACKSPACE K # [MY_KEY_BS] @ R @
      KEY_DC K # T @ KEY_ENTER K # E)"
    using assms by (simp only: labels_ok_def case_labels_def Let_def K_def L_def R_def T_def E_def append.simps)
  have d: "distinct ((L @ KEY_LEFT K # [MY_KEY_STX]) @ KEY_RIGHT K # [MY_KEY_ACK] @ KEY_BACKSPACE K # [MY_KEY_BS] @ R @
      KEY_DC K # T @ KEY_ENTER K # E)"
    "distinct ((L @ KEY_LEFT K # [MY_KEY_STX] @ KEY_RIGHT K # [MY_KEY_ACK]) @ KEY_BACKSPACE K # [MY_KEY_BS] @ R @
      KEY_DC K # T @ KEY_ENTER K # E)"
    "distinct ((L @ KEY_LEFT K # [MY_KEY_STX] @ KEY_RIGHT K # [MY_KEY_ACK] @ KEY_BACKSPACE K # [MY_KEY_BS] @ R) @
      KEY_DC K # T @ KEY_ENTER K # E)"
    "distinct ((L @ KEY_LEFT K # [MY_KEY_STX] @ KEY_RIGHT K # [MY_KEY_ACK] @ KEY_BACKSPACE K # [MY_KEY_BS] @ R @
      KEY_DC K # T) @ KEY_ENTER K # E)"
    using labels by (simp_all only: append_assoc append.simps)
  note b = distinct_before [OF labels] distinct_before [OF d(1)] distinct_before [OF d(2)] distinct_before [OF d(3)]
    distinct_before [OF d(4)]
  show "process_key env tenv lenv (KEY_LEFT (codes lenv)) s = edited (case_key_left env (set_flags s))"
    using b(1) by (simp add: process_key_def Let_def L_def flip: K_def)
  show "process_key env tenv lenv (KEY_RIGHT (codes lenv)) s = edited (case_key_right env (set_flags s))"
    using b(2) by (simp add: process_key_def Let_def L_def flip: K_def)
  show "process_key env tenv lenv (KEY_BACKSPACE (codes lenv)) s = edited (case_key_backspace env (set_flags s))"
    using b(3) by (simp add: process_key_def Let_def L_def flip: K_def)
  show "process_key env tenv lenv (KEY_DC (codes lenv)) s = edited (case_key_dc env (set_flags s))"
    using b(4) by (simp add: process_key_def Let_def L_def R_def flip: K_def)
  show "process_key env tenv lenv (KEY_ENTER (codes lenv)) s = Some (Inr (Enter (set_flags s)))"
    using b(5) by (simp add: process_key_def Let_def L_def R_def T_def flip: K_def)
qed

lemma process_key_edit:
  assumes "labels_ok lenv" "\<forall>c\<in>edit_chars e. plain_key lenv c"
  shows "process_key env tenv lenv (key_for lenv e) s = Some (rl_then (edit_key env e s) (\<lambda>s. Inr (Again s [])))"
proof (cases e)
  case (Type c)
  then show ?thesis using assms(2) by (simp add: plain_process edit_key_def lift_def Let_def)
next
  case Home
  then show ?thesis by (simp add: process_key_def edit_key_def edited_def lift_def Let_def)
next
  case End
  have "CTRL_E \<noteq> CTRL_A" by (simp add: key_defs)
  then show ?thesis using End by (simp add: process_key_def edit_key_def edited_def lift_def Let_def)
qed (simp_all add: label_keys [OF assms(1)] edit_key_def edited_def lift_def Let_def)

lemma process_edits:
  "\<lbrakk>labels_ok lenv; session_ok env s; \<forall>e\<in>set es. \<forall>c\<in>edit_chars e. narrow env c \<and> plain_key lenv c\<rbrakk> \<Longrightarrow>
     \<exists>s'. session_ok env s' \<and> session_view s' = edit_lines line_cap es (session_view s)
       \<and> process env tenv lenv (map (key_for lenv) es @ ks) s = process env tenv lenv ks s'"
proof (induction es arbitrary: s)
  case Nil
  then show ?case by (auto simp: edit_lines_def)
next
  case (Cons e es)
  obtain s1 where s1: "edit_key env e s = Inr s1" "session_ok env s1" "session_view s1 = edit_line line_cap e (session_view s)"
    using edit_key_refines [OF Cons.prems(2), of e] Cons.prems(3) by (auto simp: refined_def)
  have "process_key env tenv lenv (key_for lenv e) s = Some (Inr (Again s1 []))"
    using process_key_edit [of lenv e env tenv s] Cons.prems(1,3) s1(1) by simp
  moreover have "map_option (\<lambda>r. rl_then r (\<lambda>(res, acts). Inr (res, [] @ acts))) x = x" for x :: "(rl_result \<times> rl_action list) rl option"
  proof (cases x)
    case (Some r)
    then show ?thesis by (cases r) auto
  qed simp
  ultimately have step: "process env tenv lenv (map (key_for lenv) (e # es) @ ks) s = process env tenv lenv (map (key_for lenv) es @ ks) s1"
    by simp
  obtain s2 where "session_ok env s2" "session_view s2 = edit_lines line_cap es (session_view s1)"
    "process env tenv lenv (map (key_for lenv) es @ ks) s1 = process env tenv lenv ks s2"
    using Cons.IH [OF Cons.prems(1) s1(2)] Cons.prems(3) by auto
  then show ?case using step s1(3) by (auto simp: edit_lines_def)
qed

lemma finish_ok:
  assumes "session_ok env s"
  shows "finish_line tenv (set_flags s) =
    (let t = line_text (session_view s) in Inr (if t = [] then No_line Empty_line else Line (finalize_out_string tenv t)))"
proof -
  obtain l r where ok: "ok_state env (set_flags s) l r" using assms by (auto simp: session_ok_def)
  have v: "session_view s = (l, r)" using view_rep [OF ok_stateD(1) [OF ok]] by (simp add: view_flags)
  obtain n where n: "buffer (set_flags s) = l @ r @ replicate (Suc n) 0"
    using rep_cells [OF ok_stateD(1) [OF ok]] by blast
  have "wri (buffer (set_flags s)) (numins (set_flags s)) 0 = Some (buffer (set_flags s))"
    using n ok_stateD(7) [OF ok] by (simp add: wri_def list_update_append nat_add_distrib)
  moreover have "wcs_at (buffer (set_flags s)) 0 = Some (l @ r)"
    using wcs_at_rep [OF ok_stateD(1) [OF ok], of 0] by simp
  moreover have "0 < numins (set_flags s) \<longleftrightarrow> l @ r \<noteq> []" using ok_stateD(7) [OF ok] by (cases l; cases r) auto
  ultimately show ?thesis using v by (simp add: finish_line_def line_text_def Let_def)
qed



















lemma readline_edits:
  assumes "labels_ok lenv" "env_ok env psize" "\<forall>e\<in>set es. \<forall>c\<in>edit_chars e. narrow env c \<and> plain_key lenv c"
  shows "readline env tenv lenv psize (map (key_for lenv) es @ [KEY_ENTER (codes lenv)]) =
    (let text = line_text (edit_lines line_cap es ([], []))
     in Some (Inr (if text = [] then No_line Empty_line else Line (finalize_out_string tenv text), [])))"
proof -
  let ?s = "write_cmdprompt env (new_session psize)" and ?enter = "KEY_ENTER (codes lenv)"
  have v: "session_view ?s = ([], [])"
    using new_session_ok(2) [OF assms(2)] by (simp add: session_view_def write_cmdprompt_def)
  obtain s where s: "session_ok env s" "session_view s = edit_lines line_cap es ([], [])"
    "process env tenv lenv (map (key_for lenv) es @ [?enter]) ?s = process env tenv lenv [?enter] s"
    using process_edits [OF assms(1) new_session_ok(1) [OF assms(2)] assms(3)] v by metis
  have "process env tenv lenv [?enter] s = Some (rl_then (finish_line tenv (set_flags s)) (\<lambda>res. Inr (res, [])))"
    by (simp add: label_keys(5) [OF assms(1)])
  then show ?thesis using s(2,3) finish_ok [OF s(1)] by (simp add: readline_def Let_def)
qed

section \<open>Properties\<close>

text \<open>
  Property C20.  \<^verbatim>\<open>readline\<close> returns what was typed and edited: after any typing, deleting and moving,
  the enter key returns the line of the abstract editor in its multibyte form, or no line when
  it is empty; no access leaves the buffer and the session does not restart.  The characters typed
  are printable, not combining, of at most one column, and none has the code of a key; the
  library must do what a character of one column needs (\<open>env_ok\<close>), and the labels of the
  switch are distinct, without which the program is not C.
\<close>

theorem readline_returns_edited_line:
  assumes "labels_ok lenv" "env_ok env psize" "\<forall>e\<in>set es. \<forall>c\<in>edit_chars e. narrow env c \<and> plain_key lenv c"
  shows "readline env tenv lenv psize (map (key_for lenv) es @ [KEY_ENTER (codes lenv)]) =
    (let text = line_text (edit_lines line_cap es ([], []))
     in Some (Inr (if text = [] then No_line Empty_line else Line (finalize_out_string tenv text), [])))"
  by (rule readline_edits [OF assms])

text \<open>The codes of ncurses.\<close>

definition ncurses_codes :: key_codes where
  "ncurses_codes = \<lparr>KEY_DOWN = 258, KEY_UP = 259, KEY_LEFT = 260, KEY_RIGHT = 261, KEY_BACKSPACE = 263,
     KEY_F = (\<lambda>n. 264 + int n), KEY_DC = 330, KEY_MOUSE = 409, KEY_NPAGE = 338, KEY_PPAGE = 339, KEY_ENTER = 343,
     KEY_RESIZE = 410\<rparr>"

definition example_loop_env :: loop_env where
  "example_loop_env = \<lparr>iswprint = (\<lambda>c. 0x20 \<le> c), mouse = True, codes = ncurses_codes\<rparr>"

lemma example_labels: "labels_ok example_loop_env"
  by (simp add: labels_ok_def case_labels_def example_loop_env_def ncurses_codes_def key_defs Let_def)

lemma example_plain:
  "\<lbrakk>0x20 \<le> c; c < 0x7F\<rbrakk> \<Longrightarrow> plain_key example_loop_env c = (\<not> is_combined c)"
  by (auto simp: plain_key_def case_labels_def example_loop_env_def ncurses_codes_def key_defs Let_def)

theorem readline_returns_edited_line_witness:
  "readline example_rl_env example_tab_env example_loop_env 10
     (map (key_for example_loop_env) [Type 0x68, Type 0x69, Type 0x21, Backspace, Home, Delete, Type 0x48] @ [343])
   = Some (Inr (Line ''Hi'', []))"
proof -
  let ?es = "[Type 0x68, Type 0x69, Type 0x21, Backspace, Home, Delete, Type 0x48]"
  have c: "\<not> is_combined 0x68" "\<not> is_combined 0x69" "\<not> is_combined 0x21" "\<not> is_combined 0x48" by code_simp+
  have "\<forall>e\<in>set ?es. \<forall>c\<in>edit_chars e. narrow example_rl_env c \<and> plain_key example_loop_env c"
    using c by (simp add: ascii_narrow example_plain)
  from readline_returns_edited_line [OF example_labels example_rl_env this, of example_tab_env]
  have "readline example_rl_env example_tab_env example_loop_env 10 (map (key_for example_loop_env) ?es @ [343]) =
      Some (Inr (Line (finalize_out_string example_tab_env [0x48, 0x69]), []))"
    by (simp only: example_loop_env_def ncurses_codes_def loop_env.simps key_codes.simps)
      (simp add: edit_lines_def line_cap_def line_text_def Let_def)
  moreover have "finalize_out_string example_tab_env [0x48, 0x69] = ''Hi''"
    by (simp add: finalize_out_string_def example_tab_env MB_LEN_MAX_def) code_simp
  ultimately show ?thesis by simp
qed



text \<open>
  The letter c with an acute accent, U+0107, has the code of the backspace key of ncurses: typing it
  deletes the character before it.
\<close>

lemma letter_acts_as_key:
  "readline example_rl_env example_tab_env example_loop_env 10 [0x61, 0x62, 0x107, 343] = Some (Inr (Line ''a'', []))"
proof -
  let ?es = "[Type 0x61, Type 0x62, Backspace]"
  have c: "\<not> is_combined 0x61" "\<not> is_combined 0x62" by code_simp+
  have "\<forall>e\<in>set ?es. \<forall>c\<in>edit_chars e. narrow example_rl_env c \<and> plain_key example_loop_env c"
    using c by (simp add: ascii_narrow example_plain)
  from readline_edits [OF example_labels example_rl_env this, of example_tab_env]
  have "readline example_rl_env example_tab_env example_loop_env 10 (map (key_for example_loop_env) ?es @ [343]) =
      Some (Inr (Line (finalize_out_string example_tab_env [0x61]), []))"
    by (simp only: example_loop_env_def ncurses_codes_def loop_env.simps key_codes.simps)
      (simp add: edit_lines_def line_cap_def line_text_def Let_def)
  moreover have "finalize_out_string example_tab_env [0x61] = ''a''"
    by (simp add: finalize_out_string_def example_tab_env MB_LEN_MAX_def) code_simp
  ultimately show ?thesis by (simp add: example_loop_env_def ncurses_codes_def)
qed

end
