(* ===== verification/Interpreter.thy ===== *)
theory Interpreter
  imports Str_Hand Lib_Utils
begin

text \<open>
  The reader of configuration and theme files: \<^verbatim>\<open>src/src/interpreter.cpp\<close>.

  A line is \<^verbatim>\<open>name = "value";\<close> with an optional comment behind it.  The reader gets two functions of
  the component whose file it reads: which names are known, and how a value is stored.  Every
  error ends the program; the model returns it as a value instead.  The state that the storing
  function changes has an arbitrary type.
\<close>

section \<open>Errors\<close>

text \<open>\<open>Truncated\<close> is the call of \<^verbatim>\<open>err_exit\<close>, the others end in \<^verbatim>\<open>abort\<close>.\<close>

datatype interp_error = Truncated | Runtime_error string | Install_error errno

definition and_then :: "'e + 'a \<Rightarrow> ('a \<Rightarrow> 'e + 'b) \<Rightarrow> 'e + 'b" where
  "and_then r f = (case r of Inl e \<Rightarrow> Inl e | Inr x \<Rightarrow> f x)"

lemma and_then_simps [simp]: "and_then (Inl e) f = Inl e" "and_then (Inr x) f = f x"
  by (simp_all add: and_then_def)

section \<open>The parts of a line\<close>

definition ArgBegin :: char where "ArgBegin = CHR 0x22"
definition ArgEnd :: char where "ArgEnd = CHR 0x22"
definition CommentChar :: char where "CommentChar = CHR ''#''"
definition identifier_maxSize :: nat where "identifier_maxSize = 50"
definition argument_maxSize :: nat where "argument_maxSize = 480"

definition adv_while_isspace :: "string \<Rightarrow> string" where
  "adv_while_isspace s = dropWhile (\<lambda>c. sw_isspace (schar c)) s"

fun identifier_loop :: "string \<Rightarrow> nat \<Rightarrow> string \<times> string \<times> nat" where
  "identifier_loop [] count = ([], [], count)"
| "identifier_loop (c # ident) count =
     (if (sw_isalnum (schar c) \<or> c = CHR ''_'') \<and> count > 1
      then (let (dest, rest, n) = identifier_loop ident (count - 1) in (c # dest, rest, n))
      else ([], c # ident, count))"

definition copy_identifier :: "string \<Rightarrow> interp_error + string \<times> string" where
  "copy_identifier ident =
     (let (dest, rest, count) = identifier_loop ident identifier_maxSize
      in if count = 1 then Inl Truncated else Inr (dest, rest))"

text \<open>The result: what was copied, what is left, the count and \<^verbatim>\<open>inside_arg\<close>.\<close>

fun argument_loop :: "string \<Rightarrow> nat \<Rightarrow> string \<times> string \<times> nat \<times> bool" where
  "argument_loop [] count = ([], [], count, True)"
| "argument_loop (c # arg) count =
     (if \<not> count > 1 then ([], c # arg, count, True)
      else if c = ArgEnd then ([], arg, count, False)
      else (let (dest, rest, n, inside) = argument_loop arg (count - 1) in (c # dest, rest, n, inside)))"

definition copy_argument :: "string \<Rightarrow> interp_error + (string \<times> string) option" where
  "copy_argument arg =
     (let (dest, rest, count, inside_arg) = argument_loop arg argument_maxSize
      in if inside_arg \<and> count = 1 then Inl Truncated
         else if inside_arg then Inr None else Inr (Some (dest, rest)))"

text \<open>Reading one character that must be there: \<^verbatim>\<open>*cp++ != c\<close>.\<close>

definition expect :: "char \<Rightarrow> string \<Rightarrow> string \<Rightarrow> interp_error + string" where
  "expect c msg cp = (case cp of d # rest \<Rightarrow> if d = c then Inr rest else Inl (Runtime_error msg)
     | [] \<Rightarrow> Inl (Runtime_error msg))"

section \<open>A line and a file\<close>

definition Interpreter ::
    "(string \<Rightarrow> bool) \<Rightarrow> (string \<Rightarrow> string \<Rightarrow> 's \<Rightarrow> errno \<times> 's) \<Rightarrow> string \<Rightarrow> 's \<Rightarrow> interp_error + 's" where
  "Interpreter validator_func install_func line st =
     (if line = [] \<or> (\<not> sw_isalnum (schar (hd line)) \<and> hd line \<noteq> CHR ''_'')
      then Inl (Runtime_error ''unexpected leading character'')
      else and_then (copy_identifier line) (\<lambda>(ident, cp).
           and_then (expect (CHR ''='') ''expected assignment operator'' (adv_while_isspace cp)) (\<lambda>cp.
           and_then (expect ArgBegin ''expected arg begin'' (adv_while_isspace cp)) (\<lambda>cp.
           and_then (copy_argument cp) (\<lambda>r.
           case r of None \<Rightarrow> Inl (Runtime_error ''unterminated argument'')
           | Some (arg, cp) \<Rightarrow>
               and_then (expect (CHR '';'') ''no line terminator!'' (adv_while_isspace cp)) (\<lambda>cp.
               let cp = adv_while_isspace cp in
               if cp \<noteq> [] \<and> hd cp \<noteq> CommentChar then Inl (Runtime_error ''implicit data after line terminator!'')
               else if \<not> validator_func ident then Inr st
               else (case install_func ident arg st of
                       (OK0, st') \<Rightarrow> Inr st'
                     | (e, _) \<Rightarrow> Inl (Install_error e))))))))"

text \<open>\<^verbatim>\<open>fgets\<close> on the text that is left of a file.\<close>

definition MAXLINE :: nat where "MAXLINE = 3200"

definition fgets :: "nat \<Rightarrow> string \<Rightarrow> (string \<times> string) option" where
  "fgets bufsize fp =
     (if fp = [] then None
      else let n = length (takeWhile (\<lambda>c. c \<noteq> CHR 0x0A) fp) + 1;
               k = (if n < bufsize - 1 then n else bufsize - 1)
           in Some (take k fp, drop k fp))"

lemma fgets_shorter: "\<lbrakk>fgets n fp = Some (buf, rest); n > 1\<rbrakk> \<Longrightarrow> length rest < length fp"
  by (cases fp) (auto simp: fgets_def Let_def split: if_splits)

function Interpreter_processAllLines ::
    "(string \<Rightarrow> bool) \<Rightarrow> (string \<Rightarrow> string \<Rightarrow> 's \<Rightarrow> errno \<times> 's) \<Rightarrow> string \<Rightarrow> nat \<Rightarrow> 's \<Rightarrow> (nat \<times> interp_error) + 's" where
  "Interpreter_processAllLines func1 func2 fp line_num st =
     (case fgets MAXLINE fp of None \<Rightarrow> Inr st
      | Some (chunk, rest) \<Rightarrow>
          let buf = takeWhile (\<lambda>c. c \<noteq> nul) chunk; cp = adv_while_isspace buf in
          if strings_match cp [] \<or> hd cp = CommentChar
          then Interpreter_processAllLines func1 func2 rest (line_num + 1) st
          else (case Interpreter func1 func2 (trim cp) st of
                  Inl e \<Rightarrow> Inl (line_num + 1, e)
                | Inr st' \<Rightarrow> Interpreter_processAllLines func1 func2 rest (line_num + 1) st'))"
  by pat_completeness auto
termination
  by (relation "measure (\<lambda>(_, _, fp, _). length fp)") (auto simp: MAXLINE_def intro: fgets_shorter)

declare Interpreter_processAllLines.simps [simp del]

section \<open>Lines that are well-formed\<close>

definition ident_char :: "char \<Rightarrow> bool" where
  "ident_char c \<longleftrightarrow> isalnum (code c) \<or> c = CHR ''_''"

lemma identifier_loop_eq:
  assumes "\<forall>c\<in>set name. ident_char c" "length name < count" "rest = [] \<or> \<not> ident_char (hd rest)"
  shows "identifier_loop (name @ rest) count = (name, rest, count - length name)"
  using assms
proof (induction name arbitrary: count)
  case Nil
  then show ?case by (cases rest) (auto simp: ident_char_def sw_class_char)
qed (auto simp: ident_char_def sw_class_char)

lemma argument_loop_eq:
  assumes "ArgEnd \<notin> set arg" "length arg + 1 < count"
  shows "argument_loop (arg @ ArgEnd # rest) count = (arg, rest, count - length arg, False)"
  using assms by (induction arg arbitrary: count) auto

lemma argument_loop_long:
  assumes "ArgEnd \<notin> set (take (count - 1) arg)" "0 < count" "count - 1 \<le> length arg"
  shows "argument_loop arg count = (take (count - 1) arg, drop (count - 1) arg, 1, True)"
  using assms
proof (induction arg arbitrary: count)
  case (Cons c arg)
  then show ?case by (cases "count - 1") (auto simp: Let_def)
qed auto

text \<open>The line that \<^verbatim>\<open>write_setting\<close> writes, without its newline.\<close>

definition setting_line :: "string \<Rightarrow> string \<Rightarrow> string \<Rightarrow> string" where
  "setting_line name spaces val = name @ spaces @ ''= '' @ ArgBegin # val @ ArgEnd # '';''"

definition ident_name :: "string \<Rightarrow> bool" where
  "ident_name name \<longleftrightarrow> name \<noteq> [] \<and> (\<forall>c\<in>set name. ident_char c) \<and> length name < 49"

definition blank :: "char \<Rightarrow> bool" where
  "blank c \<longleftrightarrow> c = CHR 0x09 \<or> c = CHR '' ''"

lemma blank_space [simp]: "blank c \<Longrightarrow> isspace (code c)" "blank c \<Longrightarrow> \<not> ident_char c"
  by (auto simp: blank_def isspace_def code_def ident_char_def isalnum_def isalpha_def isupper_def islower_def isdigit_def)

lemma write_setting_line:
  "write_setting name val tabs count =
     setting_line name (replicate (nat count) (if tabs then CHR 0x09 else CHR '' '')) val @ [CHR 0x0A]"
  by (simp add: write_setting_def setting_line_def ArgBegin_def ArgEnd_def)

lemma adv_spaces:
  "\<forall>c\<in>set sp. isspace (code c) \<Longrightarrow> adv_while_isspace (sp @ s) = adv_while_isspace s"
  by (induction sp) (auto simp: adv_while_isspace_def sw_class_char)

lemma adv_stop: "s = [] \<or> \<not> isspace (code (hd s)) \<Longrightarrow> adv_while_isspace s = s"
  by (cases s) (auto simp: adv_while_isspace_def sw_class_char)

lemma equals_not_ident [simp]: "\<not> ident_char (CHR ''='')"
  by (simp add: ident_char_def ctype_defs code_def)

lemma punct_not_space [simp]:
  "\<not> isspace (code (CHR ''=''))" "\<not> isspace (code ArgBegin)" "\<not> isspace (code (CHR '';''))"
  "isspace (code (CHR '' ''))"
  by (simp_all add: isspace_def code_def ArgBegin_def)

text \<open>Up to the argument every line of this shape is read the same way.\<close>

lemma Interpreter_setting:
  assumes "ident_name name" "\<forall>c\<in>set spaces. blank c"
  shows "Interpreter v f (name @ spaces @ ''= '' @ ArgBegin # cp) st =
    and_then (copy_argument cp) (\<lambda>r.
      case r of None \<Rightarrow> Inl (Runtime_error ''unterminated argument'')
      | Some (arg, cp) \<Rightarrow>
          and_then (expect (CHR '';'') ''no line terminator!'' (adv_while_isspace cp)) (\<lambda>cp.
          let cp = adv_while_isspace cp in
          if cp \<noteq> [] \<and> hd cp \<noteq> CommentChar then Inl (Runtime_error ''implicit data after line terminator!'')
          else if \<not> v name then Inr st
          else (case f name arg st of (OK0, st') \<Rightarrow> Inr st' | (e, _) \<Rightarrow> Inl (Install_error e))))"
proof -
  let ?rest = "spaces @ ''= '' @ ArgBegin # cp"
  have n: "name \<noteq> []" "\<forall>c\<in>set name. ident_char c" "length name < 49" using assms by (auto simp: ident_name_def)
  have "\<not> ident_char (hd ?rest)"
    using assms(2) by (cases spaces) auto
  then have "identifier_loop (name @ ?rest) 50 = (name, ?rest, 50 - length name)"
    using n by (intro identifier_loop_eq) auto
  then have 1: "copy_identifier (name @ ?rest) = Inr (name, ?rest)"
    using n by (simp add: copy_identifier_def identifier_maxSize_def)
  have 2: "adv_while_isspace ?rest = ''= '' @ ArgBegin # cp"
    using assms(2) by (subst adv_spaces) (auto simp: adv_stop)
  have 3: "adv_while_isspace ('' '' @ ArgBegin # cp) = ArgBegin # cp"
    by (subst adv_spaces) (auto simp: adv_stop)
  have "ident_char (hd name)" using n by (cases name) auto
  then have 4: "\<not> (name @ ?rest = [] \<or> (\<not> sw_isalnum (schar (hd (name @ ?rest))) \<and> hd (name @ ?rest) \<noteq> CHR ''_''))"
    using n by (auto simp: ident_char_def sw_class_char)
  have 5: "expect (CHR ''='') m (''= '' @ ArgBegin # cp) = Inr ('' '' @ ArgBegin # cp)"
    "expect ArgBegin m (ArgBegin # cp) = Inr cp" for m
    by (simp_all add: expect_def)
  show ?thesis unfolding Interpreter_def if_not_P [OF 4] 1 and_then_simps prod.case 2 5 3 ..
qed

lemma Interpreter_setting_line:
  assumes "ident_name name" "\<forall>c\<in>set spaces. blank c" "ArgEnd \<notin> set val" "length val \<le> 478" "v name"
  shows "Interpreter v f (setting_line name spaces val) st =
    (case f name val st of (OK0, st') \<Rightarrow> Inr st' | (e, _) \<Rightarrow> Inl (Install_error e))"
proof -
  have "copy_argument (val @ ArgEnd # '';'') = Inr (Some (val, '';''))"
    using assms argument_loop_eq [of val 480 "'';''"] by (simp add: copy_argument_def argument_maxSize_def)
  then show ?thesis
    unfolding setting_line_def Interpreter_setting [OF assms(1,2)] using assms(5)
    by (simp add: adv_stop expect_def)
qed

text \<open>One line of a file.\<close>

lemma fgets_line:
  "\<lbrakk>CHR 0x0A \<notin> set line; length line < 3198\<rbrakk> \<Longrightarrow>
     fgets MAXLINE (line @ CHR 0x0A # rest) = Some (line @ [CHR 0x0A], rest)"
proof -
  assume l: "CHR 0x0A \<notin> set line" "length line < 3198"
  then have "takeWhile (\<lambda>c. c \<noteq> CHR 0x0A) (line @ CHR 0x0A # rest) = line"
    by (intro takeWhile_append_stop) auto
  then show ?thesis using l by (simp add: fgets_def MAXLINE_def)
qed

lemma process_line:
  assumes "CHR 0x0A \<notin> set line" "nul \<notin> set line" "length line < 3198"
    and "\<not> isspace (code (hd line))" "\<not> isspace (code (last line))" "line \<noteq> []" "hd line \<noteq> CommentChar"
  shows "Interpreter_processAllLines v f (line @ CHR 0x0A # rest) n st =
    (case Interpreter v f line st of Inl e \<Rightarrow> Inl (n + 1, e)
     | Inr st' \<Rightarrow> Interpreter_processAllLines v f rest (n + 1) st')"
proof -
  have 1: "takeWhile (\<lambda>c. c \<noteq> nul) (line @ [CHR 0x0A]) = line @ [CHR 0x0A]"
    using assms(2) by (auto simp: nul_def intro: takeWhile_eq_self)
  have 2: "adv_while_isspace (line @ [CHR 0x0A]) = line @ [CHR 0x0A]"
    using assms by (intro adv_stop) auto
  have 3: "trim (line @ [CHR 0x0A]) = line"
  proof -
    have "dropWhile (\<lambda>c. isspace (code c)) (rev line) = rev line"
      using assms by (cases "rev line") (auto simp: hd_rev [symmetric])
    moreover have "isspace (code (CHR 0x0A))" by (simp add: isspace_def code_def)
    ultimately show ?thesis by (simp add: trim_eq)
  qed
  show ?thesis
    using assms by (subst Interpreter_processAllLines.simps) (simp add: fgets_line 1 2 3)
qed

lemma process_comment:
  assumes "CHR 0x0A \<notin> set line" "length line < 3198" "line = [] \<or> hd line = CommentChar"
  shows "Interpreter_processAllLines v f (line @ CHR 0x0A # rest) n st =
    Interpreter_processAllLines v f rest (n + 1) st"
proof -
  let ?b = "takeWhile (\<lambda>c. c \<noteq> nul) (line @ [CHR 0x0A])"
  have "adv_while_isspace ?b = [] \<or> hd (adv_while_isspace ?b) = CommentChar"
    using assms(3) by (cases line)
      (auto simp: adv_while_isspace_def CommentChar_def nul_def sw_class_char isspace_def code_def)
  then show ?thesis
    using assms by (subst Interpreter_processAllLines.simps) (auto simp: fgets_line Let_def)
qed

lemma process_end [simp]: "Interpreter_processAllLines v f [] n st = Inr st"
  by (subst Interpreter_processAllLines.simps) (simp add: fgets_def)

end
