(* ===== verification/Settings.thy ===== *)
theory Settings
  imports Interpreter
begin

text \<open>
  What \<^verbatim>\<open>src/src/config.cpp\<close> and \<^verbatim>\<open>src/src/theme.c\<close> have in common: a table of 300 chains, addressed by
  the hash of the name, and a file of lines \<^verbatim>\<open>name = "value";\<close> that is read into it.  The interface
  between such a component and the reader of files is a locale; that a file with one line per name
  fills an empty table with exactly its values is proved in it once.
\<close>

datatype setting_type = TYPE_BOOLEAN | TYPE_INTEGER | TYPE_STRING

type_synonym entry = "string \<times> string"

section \<open>Tables\<close>

definition hash :: "string \<Rightarrow> nat" where
  "hash str = hash_pjw_g str False 300"

definition table_ok :: "entry list list \<Rightarrow> bool" where
  "table_ok t \<longleftrightarrow> length t = 300 \<and>
     (\<forall>i < 300. (\<forall>e\<in>set (t ! i). hash (fst e) = i) \<and> distinct (map fst (t ! i)))"

definition table_lookup :: "entry list list \<Rightarrow> string \<Rightarrow> string option" where
  "table_lookup t name = map_of (t ! hash name) name"

lemma setting_hash_less [simp]: "hash s < 300"
  by (simp add: hash_def hash_pjw_g_def Let_def)

lemma find_entry:
  "find (\<lambda>e. strings_match name (fst e)) es = map_option (Pair name) (map_of es name)"
  by (induction es) auto

lemma table_ok_empty: "table_ok (replicate 300 [])"
  by (simp add: table_ok_def)

lemma table_lookup_empty: "table_lookup (replicate 300 []) name = None"
  by (simp add: table_lookup_def)

lemma table_install:
  fixes v :: string
  assumes "table_ok t" "table_lookup t name = None"
  defines "t' \<equiv> t[hash name := (name, v) # t ! hash name]"
  shows "table_ok t'" "table_lookup t' = (table_lookup t)(name \<mapsto> v)"
proof -
  have "name \<notin> fst ` set (t ! hash name)"
    using assms(2) by (simp add: table_lookup_def map_of_eq_None_iff)
  then show "table_ok t'"
    using assms(1) by (auto simp: t'_def table_ok_def nth_list_update)
  show "table_lookup t' = (table_lookup t)(name \<mapsto> v)"
  proof
    fix n
    show "table_lookup t' n = ((table_lookup t)(name \<mapsto> v)) n"
      using assms(1) by (cases "hash n = hash name") (auto simp: t'_def table_lookup_def table_ok_def)
  qed
qed

lemma map_of_remove1:
  "\<lbrakk>distinct (map fst es); (k, v) \<in> set es\<rbrakk> \<Longrightarrow> map_of (remove1 (k, v) es) = (map_of es)(k := None)"
proof (induction es)
  case (Cons e es)
  show ?case
  proof (cases "e = (k, v)")
    case True
    then have "map_of es k = None" using Cons.prems by (auto simp: map_of_eq_None_iff)
    then show ?thesis using True by (auto simp: fun_eq_iff)
  next
    case False
    then have "fst e \<noteq> k" using Cons.prems by (cases e) (auto simp: image_iff)
    then show ?thesis using False Cons by (auto simp: fun_eq_iff)
  qed
qed simp

lemma table_undef:
  assumes "table_ok t" "table_lookup t name = Some v"
  defines "t' \<equiv> t[hash name := remove1 (name, v) (t ! hash name)]"
  shows "table_ok t'" "table_lookup t' = (table_lookup t)(name := None)"
proof -
  have d: "distinct (map fst (t ! hash name))" "(name, v) \<in> set (t ! hash name)" "length t = 300"
    using assms(1,2) by (auto simp: table_ok_def table_lookup_def dest: map_of_SomeD)
  then have "distinct (map fst (remove1 (name, v) (t ! hash name)))"
    by (simp add: distinct_map inj_on_def distinct_remove1)
  moreover have "\<forall>e\<in>set (remove1 (name, v) (t ! hash name)). hash (fst e) = hash name"
  proof -
    have "\<forall>e\<in>set (t ! hash name). hash (fst e) = hash name"
      using assms(1) setting_hash_less unfolding table_ok_def by blast
    then show ?thesis using set_remove1_subset [of "(name, v)" "t ! hash name"] by blast
  qed
  ultimately show "table_ok t'"
    using assms(1) unfolding t'_def table_ok_def by (auto simp: nth_list_update)
  show "table_lookup t' = (table_lookup t)(name := None)"
  proof
    fix n
    show "table_lookup t' n = ((table_lookup t)(name := None)) n"
      using map_of_remove1 [OF d(1,2)] d(3)
      by (cases "hash n = hash name") (auto simp: t'_def table_lookup_def)
  qed
qed

section \<open>Reading a file into a table\<close>

text \<open>A line that can be read back.\<close>

definition readable :: "string \<times> string \<times> string \<Rightarrow> bool" where
  "readable l = (case l of (name, spaces, v) \<Rightarrow>
     ident_name name \<and> (\<forall>c\<in>set spaces. blank c) \<and> length spaces < 100 \<and> ArgEnd \<notin> set v \<and>
     CHR 0x0A \<notin> set v \<and> nul \<notin> set v \<and> length v \<le> 478)"

definition storable :: "string \<Rightarrow> bool" where
  "storable v \<longleftrightarrow> ArgEnd \<notin> set v \<and> CHR 0x0A \<notin> set v \<and> nul \<notin> set v \<and> length v \<le> 478"

definition file_of :: "(string \<times> string \<times> string) list \<Rightarrow> string" where
  "file_of ls = concat (map (\<lambda>(name, spaces, v). setting_line name spaces v @ [CHR 0x0A]) ls)"

lemma ident_char_plain: "ident_char c \<Longrightarrow> c \<noteq> CHR 0x0A \<and> c \<noteq> nul \<and> c \<noteq> CommentChar \<and> \<not> isspace (code c)"
  by (auto simp: ident_char_def ctype_defs code_def nul_def CommentChar_def)

lemma process_setting_line:
  assumes r: "ident_name name" "\<forall>c\<in>set spaces. blank c" "length spaces < 100"
    "CHR 0x0A \<notin> set v" "nul \<notin> set v" and "length v \<le> 3000"
  shows "Interpreter_processAllLines known f (setting_line name spaces v @ CHR 0x0A # rest) n t =
    (case Interpreter known f (setting_line name spaces v) t of Inl e \<Rightarrow> Inl (n + 1, e)
     | Inr t' \<Rightarrow> Interpreter_processAllLines known f rest (n + 1) t')"
proof (rule process_line)
  have n: "name \<noteq> []" "\<forall>c\<in>set name. ident_char c" "length name < 49" using r(1) by (auto simp: ident_name_def)
  have b: "CHR 0x0A \<notin> set spaces" "nul \<notin> set spaces" using r(2) by (auto simp: blank_def nul_def)
  show "CHR 0x0A \<notin> set (setting_line name spaces v)" "nul \<notin> set (setting_line name spaces v)"
    using n(2) b r(4,5) ident_char_plain by (auto simp: setting_line_def ArgBegin_def ArgEnd_def nul_def)
  show "length (setting_line name spaces v) < 3198" using n(3) assms by (simp add: setting_line_def)
  have "ident_char (hd name)" using n by (cases name) auto
  then show "\<not> isspace (code (hd (setting_line name spaces v)))" "hd (setting_line name spaces v) \<noteq> CommentChar"
    using n(1) ident_char_plain [of "hd name"] by (simp_all add: setting_line_def)
  show "\<not> isspace (code (last (setting_line name spaces v)))" "setting_line name spaces v \<noteq> []"
    by (simp_all add: setting_line_def)
qed

text \<open>Two values that cannot be read back: one with a quote inside, and one that is too long.\<close>

lemma process_quote:
  assumes r: "ident_name name" "\<forall>c\<in>set spaces. blank c" "length spaces < 100" "CHR 0x0A \<notin> set v" "nul \<notin> set v"
    and v: "v = a @ ArgEnd # b" "ArgEnd \<notin> set a" "length a \<le> 478" "length v \<le> 3000"
    and b: "hd (adv_while_isspace (b @ [ArgEnd])) \<noteq> CHR '';''"
  shows "Interpreter_processAllLines known f (setting_line name spaces v @ CHR 0x0A # rest) n t =
    Inl (n + 1, Runtime_error ''no line terminator!'')"
proof -
  have c: "copy_argument (v @ ArgEnd # '';'') = Inr (Some (a, b @ ArgEnd # '';''))"
    using v(2,3) argument_loop_eq [of a 480 "b @ ArgEnd # '';''"]
    by (simp add: v(1) copy_argument_def argument_maxSize_def)
  have "\<not> isspace (code ArgEnd)" by (simp add: ArgEnd_def isspace_def code_def)
  then have "adv_while_isspace (b @ ArgEnd # '';'') = adv_while_isspace (b @ [ArgEnd]) @ '';''"
    "adv_while_isspace (b @ [ArgEnd]) \<noteq> []"
    by (induction b) (auto simp: adv_while_isspace_def sw_class_char)
  then have "expect (CHR '';'') m (adv_while_isspace (b @ ArgEnd # '';'')) = Inl (Runtime_error m)" for m
    using b by (cases "adv_while_isspace (b @ [ArgEnd])") (auto simp: expect_def)
  then have "Interpreter known f (setting_line name spaces v) t = Inl (Runtime_error ''no line terminator!'')"
    unfolding setting_line_def Interpreter_setting [OF r(1,2)] c by simp
  then show ?thesis using process_setting_line [OF r v(4), of known f rest n t] by simp
qed

lemma process_long:
  assumes r: "ident_name name" "\<forall>c\<in>set spaces. blank c" "length spaces < 100" "CHR 0x0A \<notin> set v" "nul \<notin> set v"
    and v: "ArgEnd \<notin> set v" "479 \<le> length v" "length v \<le> 3000"
  shows "Interpreter_processAllLines known f (setting_line name spaces v @ CHR 0x0A # rest) n t =
    Inl (n + 1, Truncated)"
proof -
  have "ArgEnd \<notin> set (take 479 v)" using v(1) in_set_takeD by fast
  then have "copy_argument (v @ ArgEnd # '';'') = Inl Truncated"
    using v argument_loop_long [of 480 "v @ ArgEnd # '';''"] by (simp add: copy_argument_def argument_maxSize_def)
  then have "Interpreter known f (setting_line name spaces v) t = Inl Truncated"
    unfolding setting_line_def Interpreter_setting [OF r(1,2)] by simp
  then show ?thesis using process_setting_line [OF r v(3), of known f rest n t] by simp
qed

text \<open>The five lines in front of the settings of a file.\<close>

lemma skip_header:
  assumes "CHR 0x0A \<notin> set ver" "CHR 0x0A \<notin> set time" "CHR 0x0A \<notin> set what"
    and "length ver < 1000" "length time < 1000" "length what < 100"
  shows "Interpreter_processAllLines v f (''# -*- mode: conf; -*-'' @ CHR 0x0A # ''#'' @ CHR 0x0A # ''# Swirc '' @ ver @
      ''  --  default '' @ what @ CHR 0x0A # ''# Automatically generated at '' @ time @ CHR 0x0A # CHR 0x0A # rest) n st =
    Interpreter_processAllLines v f rest (n + 5) st"
proof -
  let ?l1 = "''# -*- mode: conf; -*-''" let ?l3 = "''# Swirc '' @ ver @ ''  --  default '' @ what"
  let ?l4 = "''# Automatically generated at '' @ time"
  have w: "''# -*- mode: conf; -*-'' @ CHR 0x0A # ''#'' @ CHR 0x0A # ''# Swirc '' @ ver @
      ''  --  default '' @ what @ CHR 0x0A # ''# Automatically generated at '' @ time @ CHR 0x0A # CHR 0x0A # rest =
      ?l1 @ CHR 0x0A # ''#'' @ CHR 0x0A # ?l3 @ CHR 0x0A # ?l4 @ CHR 0x0A # [] @ CHR 0x0A # rest"
    by simp
  have h: "CHR 0x0A \<notin> set ?l1" "CHR 0x0A \<notin> set ''#''" "CHR 0x0A \<notin> set ?l3" "CHR 0x0A \<notin> set ?l4"
    "length ?l1 < 3198" "length ''#'' < 3198" "length ?l3 < 3198" "length ?l4 < 3198"
    "hd ?l1 = CommentChar" "hd ''#'' = CommentChar" "hd ?l3 = CommentChar" "hd ?l4 = CommentChar"
    using assms by (simp_all add: CommentChar_def)
  note pc = process_comment [of _ v f]
  show ?thesis unfolding w
    unfolding pc [OF h(1) h(5) disjI2 [OF h(9)]] pc [OF h(2) h(6) disjI2 [OF h(10)]]
      pc [OF h(3) h(7) disjI2 [OF h(11)]] pc [OF h(4) h(8) disjI2 [OF h(12)]]
    by (subst process_comment) (simp_all add: eval_nat_numeral)
qed

text \<open>
  The interface that the reader of files uses: a name that is not there can be stored, perhaps
  after a change of the value, and a name that is there is refused.
\<close>

locale settings_reader =
  fixes install :: "string \<Rightarrow> string \<Rightarrow> 't \<Rightarrow> errno \<times> 't"
    and known :: "string \<Rightarrow> bool"
    and lookup :: "'t \<Rightarrow> string \<Rightarrow> string option"
    and ok :: "'t \<Rightarrow> bool"
    and stored :: "string \<Rightarrow> string \<Rightarrow> string"
  assumes install_new: "\<lbrakk>ok t; lookup t name = None\<rbrakk> \<Longrightarrow>
      \<exists>t'. install name v t = (OK0, t') \<and> ok t' \<and> lookup t' = (lookup t)(name \<mapsto> stored name v)"
    and install_dup: "\<lbrakk>ok t; lookup t name = Some w\<rbrakk> \<Longrightarrow> install name v t = (EBUSY, t)"
begin

lemma read_line:
  assumes "readable (name, spaces, v)" "known name"
  shows "Interpreter_processAllLines known install (setting_line name spaces v @ CHR 0x0A # rest) n t =
    (case install name v t of (OK0, t') \<Rightarrow> Interpreter_processAllLines known install rest (n + 1) t'
     | (e, _) \<Rightarrow> Inl (n + 1, Install_error e))"
proof -
  have r: "ident_name name" "\<forall>c\<in>set spaces. blank c" "ArgEnd \<notin> set v" "length v \<le> 478"
    "length spaces < 100" "CHR 0x0A \<notin> set v" "nul \<notin> set v"
    using assms(1) by (auto simp: readable_def)
  show ?thesis
    using process_setting_line [OF r(1,2,5-7), of known install rest n t] r(4)
      Interpreter_setting_line [where v = known, OF r(1-4) assms(2), of install t]
    by (simp split: prod.splits errno.splits)
qed

text \<open>The values of a file with one line per name are the values of the table.\<close>

lemma read_file:
  assumes "\<forall>l\<in>set ls. readable l \<and> known (fst l)" "distinct (map fst ls)" "ok t"
    and "\<forall>l\<in>set ls. lookup t (fst l) = None"
  shows "\<exists>t'. Interpreter_processAllLines known install (file_of ls @ rest) n t =
      Interpreter_processAllLines known install rest (n + length ls) t' \<and> ok t' \<and>
    lookup t' = lookup t ++ map_of (map (\<lambda>(name, _, v). (name, stored name v)) ls)"
  using assms
proof (induction ls arbitrary: t n)
  case Nil
  then show ?case by (auto simp: file_of_def)
next
  case (Cons l ls)
  obtain name spaces v where l: "l = (name, spaces, v)" by (cases l)
  obtain t1 where t1: "install name v t = (OK0, t1)" "ok t1" "lookup t1 = (lookup t)(name \<mapsto> stored name v)"
    using install_new [of t name v] Cons.prems l by auto
  have d: "\<forall>l\<in>set ls. lookup t1 (fst l) = None"
    using Cons.prems l t1(3) by (auto simp: image_iff)
  obtain t' where t': "Interpreter_processAllLines known install (file_of ls @ rest) (n + 1) t1 =
      Interpreter_processAllLines known install rest (n + 1 + length ls) t'" "ok t'"
    "lookup t' = lookup t1 ++ map_of (map (\<lambda>(name, _, v). (name, stored name v)) ls)"
    using Cons.IH [OF _ _ t1(2) d, of "n + 1"] Cons.prems by auto
  have "map_of (map (\<lambda>(name, _, v). (name, stored name v)) ls) name = None"
    using Cons.prems l by (auto simp: map_of_eq_None_iff image_iff split: prod.splits)
  then have "lookup t' = lookup t ++ map_of (map (\<lambda>(name, _, v). (name, stored name v)) (l # ls))"
    unfolding t'(3) t1(3) l by (auto simp: map_add_def fun_eq_iff split: option.splits)
  moreover have "Interpreter_processAllLines known install (file_of (l # ls) @ rest) n t =
      Interpreter_processAllLines known install rest (n + length (l # ls)) t'"
    using read_line [of name spaces v "file_of ls @ rest" n t] Cons.prems l t1(1) t'(1)
    by (simp add: file_of_def)
  ultimately show ?case using t'(2) by blast
qed

end

end
