(* ===== verification/Config.thy ===== *)
theory Config
  imports Settings Data_Classify
begin

text \<open>
  The configuration: \<^verbatim>\<open>src/src/config.cpp\<close>.

  The state is the hash table of the settings and the length of the longest name.  Opening and
  closing files is not modelled: writing gives the text of the file, reading takes it.  The version,
  the time, the strings of the theme and the encrypted SASL password are the environment.  The
  build without GNU libidn and without Hunspell is modelled.
\<close>

section \<open>The settings\<close>

record tagConfDefValues =
  setting_name :: string
  cdv_type :: setting_type
  padding :: int
  cdv_value :: string

definition cdv :: "string \<Rightarrow> setting_type \<Rightarrow> int \<Rightarrow> string \<Rightarrow> tagConfDefValues" where
  "cdv n ty p v = \<lparr>setting_name = n, cdv_type = ty, padding = p, cdv_value = v\<rparr>"

lemma cdv_simps [simp]:
  "setting_name (cdv n ty p v) = n" "cdv_type (cdv n ty p v) = ty"
  "padding (cdv n ty p v) = p" "cdv_value (cdv n ty p v) = v"
  by (simp_all add: cdv_def)

definition ConfDefValues :: "tagConfDefValues list" where
  "ConfDefValues =
    [cdv ''nickname'' TYPE_STRING 2 '''',
     cdv ''nickname_aliases'' TYPE_STRING 1 '''',
     cdv ''alt_nick'' TYPE_STRING 2 '''',
     cdv ''username'' TYPE_STRING 2 '''',
     cdv ''real_name'' TYPE_STRING 2 '''',
     cdv ''ctcp_reply'' TYPE_BOOLEAN 2 ''yes'',
     cdv ''ctcp_userinfo'' TYPE_STRING 2 ''No info set'',
     cdv ''dcc'' TYPE_BOOLEAN 3 ''yes'',
     cdv ''dcc_cipher_suite'' TYPE_STRING 1 ''compat'',
     cdv ''dcc_own_ip'' TYPE_STRING 2 '''',
     cdv ''dcc_port'' TYPE_INTEGER 2 ''8080'',
     cdv ''dcc_upload_dir'' TYPE_STRING 2 '''',
     cdv ''ftp_host'' TYPE_STRING 2 '''',
     cdv ''ftp_port'' TYPE_INTEGER 2 ''21'',
     cdv ''ftp_user'' TYPE_STRING 2 ''anonymous'',
     cdv ''ftp_pass'' TYPE_STRING 2 ''anonymous'',
     cdv ''ftp_upload_dir'' TYPE_STRING 2 '''',
     cdv ''identd'' TYPE_BOOLEAN 3 ''no'',
     cdv ''identd_fakenames'' TYPE_BOOLEAN 1 ''no'',
     cdv ''identd_port'' TYPE_INTEGER 2 ''113'',
     cdv ''sasl'' TYPE_BOOLEAN 2 ''no'',
     cdv ''sasl_mechanism'' TYPE_STRING 1 ''PLAIN'',
     cdv ''sasl_username'' TYPE_STRING 1 '''',
     cdv ''sasl_password'' TYPE_STRING 1 '''',
     cdv ''sasl_x509'' TYPE_STRING 1 ''client.pem'',
     cdv ''socks'' TYPE_BOOLEAN 2 ''no'',
     cdv ''socks_atyp'' TYPE_INTEGER 1 ''0'',
     cdv ''socks_host'' TYPE_STRING 1 ''localhost'',
     cdv ''socks_port'' TYPE_STRING 1 ''9050'',
     cdv ''spell'' TYPE_BOOLEAN 2 ''yes'',
     cdv ''spell_lang'' TYPE_STRING 1 ''en_US'',
     cdv ''spell_syswide'' TYPE_BOOLEAN 1 ''yes'',
     cdv ''chanserv_host'' TYPE_STRING 1 ''services.'',
     cdv ''nickserv_host'' TYPE_STRING 1 ''services.'',
     cdv ''qbot_host'' TYPE_STRING 1 ''CServe.quakenet.org'',
     cdv ''account_notify'' TYPE_BOOLEAN 2 ''yes'',
     cdv ''account_tag'' TYPE_BOOLEAN 2 ''yes'',
     cdv ''away_notify'' TYPE_BOOLEAN 2 ''no'',
     cdv ''batch'' TYPE_BOOLEAN 3 ''yes'',
     cdv ''chghost'' TYPE_BOOLEAN 3 ''yes'',
     cdv ''extended_join'' TYPE_BOOLEAN 2 ''yes'',
     cdv ''invite_notify'' TYPE_BOOLEAN 2 ''no'',
     cdv ''multi_prefix'' TYPE_BOOLEAN 2 ''yes'',
     cdv ''server_time'' TYPE_BOOLEAN 2 ''yes'',
     cdv ''part_message'' TYPE_STRING 1 '''',
     cdv ''quit_message'' TYPE_STRING 1 ''Swirc IRC client'',
     cdv ''reconnect_backoff_delay'' TYPE_INTEGER 1 ''60'',
     cdv ''reconnect_delay'' TYPE_INTEGER 2 ''10'',
     cdv ''reconnect_delay_max'' TYPE_INTEGER 1 ''240'',
     cdv ''reconnect_retries'' TYPE_INTEGER 1 ''30'',
     cdv ''auto_op_yourself'' TYPE_BOOLEAN 2 ''yes'',
     cdv ''awaymsgs_in_privconv'' TYPE_BOOLEAN 2 ''yes'',
     cdv ''beeps'' TYPE_BOOLEAN 4 ''yes'',
     cdv ''cipher_suite'' TYPE_STRING 3 ''compat'',
     cdv ''cmd_hist_size'' TYPE_INTEGER 3 ''50'',
     cdv ''cmd_type_prot'' TYPE_BOOLEAN 3 ''yes'',
     cdv ''connection_timeout'' TYPE_INTEGER 2 ''45'',
     cdv ''hostname_checking'' TYPE_BOOLEAN 2 ''yes'',
     cdv ''iconv_conversion'' TYPE_BOOLEAN 2 ''yes'',
     cdv ''joins_parts_quits'' TYPE_BOOLEAN 2 ''no'',
     cdv ''kick_close_window'' TYPE_BOOLEAN 2 ''yes'',
     cdv ''max_chat_windows'' TYPE_INTEGER 2 ''140'',
     cdv ''mouse'' TYPE_BOOLEAN 4 ''no'',
     cdv ''mouse_events'' TYPE_STRING 3 ''wheel'',
     cdv ''notifications'' TYPE_BOOLEAN 3 ''yes'',
     cdv ''save_backlogs_to_disk'' TYPE_STRING 2 ''both'',
     cdv ''show_ping_pong'' TYPE_BOOLEAN 3 ''no'',
     cdv ''skip_motd'' TYPE_BOOLEAN 3 ''no'',
     cdv ''ssl_verify_peer'' TYPE_BOOLEAN 3 ''yes'',
     cdv ''startup_greeting'' TYPE_BOOLEAN 2 ''yes'',
     cdv ''textbuffer_size_absolute'' TYPE_INTEGER 1 ''1500'',
     cdv ''theme'' TYPE_STRING 4 ''default'']"

record config =
  hash_table :: "entry list list"
  longest_set_count :: nat

record conf_env =
  swirc_version :: string
  current_time :: string
  theme_item :: "string \<Rightarrow> string"
  encrypted_sasl_pass :: "string option"

definition g_decrypted_pass_sym :: char where "g_decrypted_pass_sym = CHR ''%''"
definition g_encrypted_pass_sym :: char where "g_encrypted_pass_sym = CHR ''#''"
definition g_unencrypted_pass_sym :: char where "g_unencrypted_pass_sym = CHR ''?''"

section \<open>The table\<close>

definition get_hash_table_entry :: "config \<Rightarrow> string option \<Rightarrow> entry option" where
  "get_hash_table_entry t name =
     (case name of None \<Rightarrow> None | Some n \<Rightarrow> find (\<lambda>e. strings_match n (fst e)) (hash_table t ! hash n))"

definition hInstall :: "string \<Rightarrow> string option \<Rightarrow> config \<Rightarrow> config" where
  "hInstall name val t =
     (let item = (name, (case val of None \<Rightarrow> [] | Some v \<Rightarrow> v)); hashval = hash name
      in t\<lparr>hash_table := (hash_table t)[hashval := item # hash_table t ! hashval]\<rparr>)"

text \<open>The first entry of the chain with this name is the entry that was found.\<close>

definition hUndef :: "entry \<Rightarrow> config \<Rightarrow> config" where
  "hUndef entry t =
     t\<lparr>hash_table := (hash_table t)[hash (fst entry) := remove1 entry (hash_table t ! hash (fst entry))]\<rparr>"

definition init_missing_to_defs :: "config \<Rightarrow> config" where
  "init_missing_to_defs t =
     fold (\<lambda>c t. if get_hash_table_entry t (Some (setting_name c)) = None
                 then hInstall (setting_name c) (Some (cdv_value c)) t else t) ConfDefValues t"

definition find_setting :: "string \<Rightarrow> tagConfDefValues option" where
  "find_setting name = find (\<lambda>c. strings_match name (setting_name c)) ConfDefValues"

definition is_recognized_setting :: "string option \<Rightarrow> bool" where
  "is_recognized_setting name =
     (case name of None \<Rightarrow> False | Some n \<Rightarrow> if strings_match n [] then False else find_setting n \<noteq> None)"

definition config_init :: "config" where
  "config_init =
     \<lparr>hash_table = replicate 300 [],
      longest_set_count = fold (\<lambda>c longest. if length (setting_name c) > longest then length (setting_name c)
                                 else longest) ConfDefValues 0\<rparr>"

definition config_deinit :: "config \<Rightarrow> config" where
  "config_deinit t = fold (\<lambda>es t. fold hUndef es t) (hash_table t) t"

definition config_item_install :: "string option \<Rightarrow> string option \<Rightarrow> config \<Rightarrow> errno \<times> config" where
  "config_item_install name val t =
     (case (name, val) of
        (Some n, Some v) \<Rightarrow>
          if get_hash_table_entry t (Some n) \<noteq> None then (EBUSY, t) else (OK0, hInstall n (Some v) t)
      | _ \<Rightarrow> (EINVAL, t))"

definition config_item_undef :: "string option \<Rightarrow> config \<Rightarrow> errno \<times> config" where
  "config_item_undef name t =
     (case get_hash_table_entry t name of None \<Rightarrow> (ENOENT, t) | Some entry \<Rightarrow> (OK0, hUndef entry t))"

section \<open>Values\<close>

text \<open>The second component says whether a warning is logged.\<close>

definition config_bool :: "config \<Rightarrow> string \<Rightarrow> bool \<Rightarrow> bool \<times> bool" where
  "config_bool t name fallback_default =
     (case get_hash_table_entry t (Some name) of
        Some (_, v) \<Rightarrow>
          if bool_true v then (True, False) else if bool_false v then (False, False)
          else (fallback_default, True)
      | None \<Rightarrow> (fallback_default, True))"

definition Config_mod :: "config \<Rightarrow> string option \<Rightarrow> string option" where
  "Config_mod t name = map_option snd (get_hash_table_entry t name)"

definition pass_sym :: "char \<Rightarrow> bool" where
  "pass_sym c \<longleftrightarrow> c = g_decrypted_pass_sym \<or> c = g_encrypted_pass_sym \<or> c = g_unencrypted_pass_sym"

definition Config :: "config \<Rightarrow> string option \<Rightarrow> string" where
  "Config t name =
     (case get_hash_table_entry t name of
        None \<Rightarrow> []
      | Some (n, v) \<Rightarrow>
          if n \<noteq> ''sasl_password'' then v
          else if v \<noteq> [] \<and> pass_sym (hd v) then tl v else [])"

record integer_context =
  ic_setting_name :: string
  lo_limit :: int
  hi_limit :: int
  fallback_default :: int

definition config_integer :: "config \<Rightarrow> integer_context \<Rightarrow> int \<times> bool" where
  "config_integer t ctx =
     (case get_hash_table_entry t (Some (ic_setting_name ctx)) of
        Some (_, v) \<Rightarrow>
          (case getval_strtol v (lo_limit ctx) (hi_limit ctx) of
             (True, val) \<Rightarrow> (val, False)
           | _ \<Rightarrow> (fallback_default ctx, True))
      | None \<Rightarrow> (fallback_default ctx, True))"

definition get_sasl_passwd_type :: "config \<Rightarrow> char" where
  "get_sasl_passwd_type t =
     (case get_hash_table_entry t (Some ''sasl_password'') of
        Some (_, v) \<Rightarrow> if v \<noteq> [] \<and> pass_sym (hd v) then hd v else g_unencrypted_pass_sym
      | None \<Rightarrow> g_unencrypted_pass_sym)"

definition get_reconnect_backoff_delay :: "config \<Rightarrow> int \<times> bool" where
  "get_reconnect_backoff_delay t =
     config_integer t \<lparr>ic_setting_name = ''reconnect_backoff_delay'', lo_limit = 0, hi_limit = 99, fallback_default = 60\<rparr>"

definition get_reconnect_delay :: "config \<Rightarrow> int \<times> bool" where
  "get_reconnect_delay t =
     config_integer t \<lparr>ic_setting_name = ''reconnect_delay'', lo_limit = 0, hi_limit = 999, fallback_default = 10\<rparr>"

definition get_reconnect_delay_max :: "config \<Rightarrow> int \<times> bool" where
  "get_reconnect_delay_max t =
     config_integer t \<lparr>ic_setting_name = ''reconnect_delay_max'', lo_limit = 0, hi_limit = 999, fallback_default = 240\<rparr>"

definition get_reconnect_retries :: "config \<Rightarrow> int \<times> bool" where
  "get_reconnect_retries t =
     config_integer t \<lparr>ic_setting_name = ''reconnect_retries'', lo_limit = 0, hi_limit = 999, fallback_default = 30\<rparr>"

definition config_get_normalized_sasl_username :: "config \<Rightarrow> string option" where
  "config_get_normalized_sasl_username t =
     (if strings_match (Config t (Some ''sasl_username'')) [] then None else Some (Config t (Some ''sasl_username'')))"

definition config_get_normalized_sasl_password :: "config \<Rightarrow> string option" where
  "config_get_normalized_sasl_password t =
     (if strings_match (Config t (Some ''sasl_password'')) [] then None else Some (Config t (Some ''sasl_password'')))"

definition get_list_of_matching_settings :: "string \<Rightarrow> string list option" where
  "get_list_of_matching_settings search_var =
     (let matches = filter (\<lambda>n. strncmp_eq search_var n (length search_var)) (map setting_name ConfDefValues)
      in if matches = [] then None else Some matches)"

section \<open>The file\<close>

definition write_config_header :: "conf_env \<Rightarrow> string" where
  "write_config_header env =
     ''# -*- mode: conf; -*-'' @ CHR 0x0A # ''#'' @ CHR 0x0A # ''# Swirc '' @ swirc_version env @
     ''  --  default config'' @ CHR 0x0A # ''# Automatically generated at '' @ current_time env @ [CHR 0x0A, CHR 0x0A]"

definition config_create :: "conf_env \<Rightarrow> string" where
  "config_create env = write_config_header env @
     concat (map (\<lambda>c. write_setting (setting_name c) (cdv_value c) True (padding c)) ConfDefValues)"

definition saved_value :: "conf_env \<Rightarrow> config \<Rightarrow> tagConfDefValues \<Rightarrow> string" where
  "saved_value env t c =
     (if \<not> strings_match (setting_name c) ''sasl_password'' then Config t (Some (setting_name c))
      else (let sym = get_sasl_passwd_type t in
            if sym = g_decrypted_pass_sym
            then g_encrypted_pass_sym # (case encrypted_sasl_pass env of None \<Rightarrow> [] | Some p \<Rightarrow> p)
            else sym # Config t (Some (setting_name c))))"

definition config_do_save :: "conf_env \<Rightarrow> config \<Rightarrow> string" where
  "config_do_save env t = write_config_header env @
     concat (map (\<lambda>c. write_setting (setting_name c) (saved_value env t c) True (padding c)) ConfDefValues)"

definition config_readit :: "string \<Rightarrow> config \<Rightarrow> (nat \<times> interp_error) + config" where
  "config_readit fp t =
     and_then (Interpreter_processAllLines (\<lambda>n. is_recognized_setting (Some n))
         (\<lambda>n v. config_item_install (Some n) (Some v)) fp 0 t)
       (\<lambda>t. Inr (init_missing_to_defs t))"

section \<open>The command /set\<close>

definition get_setting_type :: "tagConfDefValues \<Rightarrow> string" where
  "get_setting_type c =
     (case cdv_type c of TYPE_BOOLEAN \<Rightarrow> ''bool'' | TYPE_INTEGER \<Rightarrow> ''int'' | TYPE_STRING \<Rightarrow> ''string'')"

definition get_string :: "conf_env \<Rightarrow> config \<Rightarrow> string \<Rightarrow> string \<Rightarrow> string" where
  "get_string env t name type =
     name @ theme_item env ''notice_inner_b1'' @ type @ theme_item env ''notice_inner_b2'' @
     '' '' @ theme_item env ''notice_sep'' @ '' '' @
     (if \<not> strings_match name ''ftp_pass'' \<and> \<not> strings_match name ''sasl_password''
      then Config t (Some name) else replicate (xstrnlen (Some (Config t (Some name))) 80) CHR ''*'')"

definition pad_left :: "nat \<Rightarrow> string \<Rightarrow> string" where
  "pad_left n s = replicate (n - length s) CHR '' '' @ s"

definition output_row :: "config \<Rightarrow> string \<Rightarrow> string \<Rightarrow> string \<Rightarrow> string" where
  "output_row t name type val = pad_left (longest_set_count t) name @ '' '' @ pad_left 7 type @ '' '' @ val"

definition output_values_for_all_settings_v2 :: "config \<Rightarrow> string list" where
  "output_values_for_all_settings_v2 t =
     output_row t ''Name'' ''Type'' ''Value'' # output_row t ''----'' ''----'' ''-----'' #
     map (\<lambda>c. output_row t (setting_name c) (get_setting_type c)
            (if \<not> strings_match (setting_name c) ''ftp_pass'' \<and> \<not> strings_match (setting_name c) ''sasl_password''
             then Config t (Some (setting_name c))
             else replicate (xstrnlen (Some (Config t (Some (setting_name c)))) 20) CHR ''*'')) ConfDefValues"

datatype config_action = Output "string list" | Print_error string | Output_ok | Mouse_init

definition output_value_for_specific_setting :: "conf_env \<Rightarrow> config \<Rightarrow> string \<Rightarrow> config_action" where
  "output_value_for_specific_setting env t setting =
     (case find_setting setting of
        Some c \<Rightarrow> Output [get_string env t (setting_name c) (get_setting_type c)]
      | None \<Rightarrow> Print_error ''/set: no such setting'')"

definition set_value_for_setting_ok_hook :: "string \<Rightarrow> config_action list" where
  "set_value_for_setting_ok_hook setting =
     (if strings_match setting ''dcc_upload_dir'' \<or> strings_match setting ''ftp_upload_dir'' then []
      else if strings_match setting ''mouse'' \<or> strings_match setting ''mouse_events'' then [Mouse_init]
      else [])"

text \<open>The result: an error or what else is done, the new table, and the file if it was written.\<close>

definition set_value_for_setting ::
    "conf_env \<Rightarrow> string \<Rightarrow> string \<Rightarrow> config \<Rightarrow> (string + config_action list) \<times> config \<times> string option" where
  "set_value_for_setting env setting val t =
     (case find_setting setting of
        None \<Rightarrow> (Inl ''no such setting'', t, None)
      | Some c \<Rightarrow>
          if cdv_type c = TYPE_BOOLEAN \<and> \<not> strings_match_ignore_case val ''on''
             \<and> \<not> strings_match_ignore_case val ''true'' \<and> \<not> strings_match_ignore_case val ''yes''
             \<and> \<not> strings_match_ignore_case val ''off'' \<and> \<not> strings_match_ignore_case val ''false''
             \<and> \<not> strings_match_ignore_case val ''no''
          then (Inl ''booleans must be on, true, yes, off, false or no'', t, None)
          else if cdv_type c = TYPE_INTEGER \<and> \<not> is_numeric (Some val)
          then (Inl ''integer not all numeric'', t, None)
          else (case config_item_undef (Some setting) t of
                  (OK0, t1) \<Rightarrow>
                    (case config_item_install (Some setting) (Some val) t1 of
                       (OK0, t2) \<Rightarrow>
                         (Inr (set_value_for_setting_ok_hook setting), t2, Some (config_do_save env t2))
                     | (_, t2) \<Rightarrow> (Inl ''config_item_install'', t2, None))
                | (_, t1) \<Rightarrow> (Inl ''config_item_undef'', t1, None)))"

definition try_to_set_value_for_setting ::
    "conf_env \<Rightarrow> string \<Rightarrow> string \<Rightarrow> config \<Rightarrow> config_action list \<times> config \<times> string option" where
  "try_to_set_value_for_setting env setting val t =
     (case find_setting setting of
        None \<Rightarrow> ([Print_error ''/set: no such setting''], t, None)
      | Some _ \<Rightarrow>
          (case set_value_for_setting env setting val t of
             (Inl err_reason, t', fp) \<Rightarrow> ([Print_error err_reason], t', fp)
           | (Inr acts, t', fp) \<Rightarrow> (acts @ [Output_ok], t', fp)))"

definition cmd_set :: "conf_env \<Rightarrow> string \<Rightarrow> config \<Rightarrow> config_action list \<times> config \<times> string option" where
  "cmd_set env data t =
     (if strings_match data [] then ([Output (output_values_for_all_settings_v2 t)], t, None)
      else let dcopy = snd (strFeed data 1) in
        case strtok_r [CHR 0x0A] dcopy of
          None \<Rightarrow> ([Print_error ''fatal error (shouldn't happen)''], t, None)
        | Some (setting, state) \<Rightarrow>
            (case strtok_r [CHR 0x0A] state of
               None \<Rightarrow> ([output_value_for_specific_setting env t setting], t, None)
             | Some (val, _) \<Rightarrow>
                 if strings_match setting ''sasl_password'' then ([Print_error ''please use /sasl''], t, None)
                 else try_to_set_value_for_setting env setting val t))"


section \<open>Facts on the list of settings\<close>

lemma names_distinct: "distinct (map setting_name ConfDefValues)"
  by code_simp

lemma names_ident: "\<forall>c\<in>set ConfDefValues. ident_name (setting_name c)"
  by code_simp

lemma paddings: "\<forall>c\<in>set ConfDefValues. 1 \<le> padding c \<and> padding c < 100"
  by code_simp

definition well_typed :: "setting_type \<Rightarrow> string \<Rightarrow> bool" where
  "well_typed ty v = (case ty of TYPE_BOOLEAN \<Rightarrow> bool_true v \<or> bool_false v
     | TYPE_INTEGER \<Rightarrow> is_numeric (Some v) | TYPE_STRING \<Rightarrow> True)"

lemma defaults_typed: "\<forall>c\<in>set ConfDefValues. well_typed (cdv_type c) (cdv_value c)"
  by code_simp


lemma find_setting_iff: "find_setting n = Some c \<longleftrightarrow> c \<in> set ConfDefValues \<and> setting_name c = n"
proof
  assume "find_setting n = Some c"
  then show "c \<in> set ConfDefValues \<and> setting_name c = n"
    by (auto simp: find_setting_def find_Some_iff)
next
  assume c: "c \<in> set ConfDefValues \<and> setting_name c = n"
  then obtain c' where c': "find_setting n = Some c'"
    by (cases "find_setting n") (auto simp: find_setting_def find_None_iff)
  then have "c' \<in> set ConfDefValues" "setting_name c' = n" by (auto simp: find_setting_def find_Some_iff)
  then have "c' = c" using names_distinct c by (auto simp: distinct_map inj_on_def)
  then show "find_setting n = Some c" using c' by simp
qed

lemma find_setting_name [simp]: "c \<in> set ConfDefValues \<Longrightarrow> find_setting (setting_name c) = Some c"
  by (simp add: find_setting_iff)

lemma is_recognized_iff: "is_recognized_setting (Some n) \<longleftrightarrow> (\<exists>c\<in>set ConfDefValues. setting_name c = n)"
  using names_ident by (auto simp: is_recognized_setting_def ident_name_def find_setting_iff not_None_eq)

section \<open>The table as a map\<close>

definition cfg_ok :: "config \<Rightarrow> bool" where
  "cfg_ok t \<longleftrightarrow> table_ok (hash_table t)"

definition cfg_lookup :: "config \<Rightarrow> string \<Rightarrow> string option" where
  "cfg_lookup t name = table_lookup (hash_table t) name"

lemma get_entry: "get_hash_table_entry t (Some n) = map_option (Pair n) (cfg_lookup t n)"
  by (simp only: get_hash_table_entry_def option.case find_entry cfg_lookup_def table_lookup_def)

lemma Config_mod_lookup [simp]: "Config_mod t (Some n) = cfg_lookup t n"
  by (simp add: Config_mod_def get_entry option.map_comp comp_def option.map_ident)

lemma Config_lookup:
  "Config t (Some n) = (case cfg_lookup t n of None \<Rightarrow> []
     | Some v \<Rightarrow> if n \<noteq> ''sasl_password'' then v else if v \<noteq> [] \<and> pass_sym (hd v) then tl v else [])"
  by (simp add: Config_def get_entry split: option.splits)

lemma config_init_ok: "cfg_ok config_init" "cfg_lookup config_init n = None"
  by (simp_all add: cfg_ok_def cfg_lookup_def config_init_def table_ok_empty table_lookup_empty)

lemma hInstall_ok:
  assumes "cfg_ok t" "cfg_lookup t n = None"
  shows "cfg_ok (hInstall n (Some v) t)" "cfg_lookup (hInstall n (Some v) t) = (cfg_lookup t)(n \<mapsto> v)"
  using table_install [of "hash_table t" n v] assms
  by (simp_all add: cfg_ok_def cfg_lookup_def hInstall_def Let_def fun_eq_iff)

lemma undef_ok:
  assumes "cfg_ok t" "cfg_lookup t n = Some v"
  shows "\<exists>t'. config_item_undef (Some n) t = (OK0, t') \<and> cfg_ok t' \<and> cfg_lookup t' = (cfg_lookup t)(n := None)"
  using table_undef [of "hash_table t" n v] assms
  by (simp add: config_item_undef_def get_entry hUndef_def cfg_ok_def cfg_lookup_def fun_eq_iff)

interpretation config_reader: settings_reader "\<lambda>n v. config_item_install (Some n) (Some v)"
  "\<lambda>n. is_recognized_setting (Some n)" cfg_lookup cfg_ok "\<lambda>_ v. v"
proof unfold_locales
  fix t name v
  assume "cfg_ok t" "cfg_lookup t name = None"
  then show "\<exists>t'. config_item_install (Some name) (Some v) t = (OK0, t') \<and> cfg_ok t' \<and>
      cfg_lookup t' = (cfg_lookup t)(name \<mapsto> v)"
    using hInstall_ok by (auto simp: config_item_install_def get_entry)
next
  fix t name w v
  assume "cfg_ok t" "cfg_lookup t name = Some w"
  then show "config_item_install (Some name) (Some v) t = (EBUSY, t)"
    by (simp add: config_item_install_def get_entry)
qed

text \<open>Missing settings get their default.\<close>

lemma init_missing_fold:
  "cfg_ok t \<Longrightarrow>
     (let t' = fold (\<lambda>c t. if get_hash_table_entry t (Some (setting_name c)) = None
                 then hInstall (setting_name c) (Some (cdv_value c)) t else t) cs t
      in cfg_ok t' \<and> (\<forall>n. cfg_lookup t' n = (case cfg_lookup t n of Some v \<Rightarrow> Some v
           | None \<Rightarrow> map_option cdv_value (find (\<lambda>c. strings_match n (setting_name c)) cs))))"
proof (induction cs arbitrary: t)
  case (Cons c cs)
  let ?t = "if get_hash_table_entry t (Some (setting_name c)) = None
                 then hInstall (setting_name c) (Some (cdv_value c)) t else t"
  have "cfg_ok ?t" using Cons.prems hInstall_ok by (simp add: get_entry)
  moreover have "cfg_lookup ?t n = (case cfg_lookup t n of Some v \<Rightarrow> Some v
      | None \<Rightarrow> if n = setting_name c then Some (cdv_value c) else None)" for n
    using Cons.prems hInstall_ok [of t "setting_name c"] by (auto simp: get_entry split: option.splits)
  ultimately show ?case using Cons.IH [of ?t]
    by (auto simp: Let_def simp del: map_option_eq_Some split: option.splits)
qed (simp split: option.splits)

lemma init_missing_ok:
  assumes "cfg_ok t"
  shows "cfg_ok (init_missing_to_defs t)"
    "cfg_lookup (init_missing_to_defs t) n =
      (case cfg_lookup t n of Some v \<Rightarrow> Some v | None \<Rightarrow> map_option cdv_value (find_setting n))"
  using init_missing_fold [OF assms, of ConfDefValues]
  by (simp_all add: init_missing_to_defs_def find_setting_def Let_def split: option.split)

section \<open>Types of the settings\<close>

definition config_typed :: "config \<Rightarrow> bool" where
  "config_typed t \<longleftrightarrow> cfg_ok t \<and>
     (\<forall>c\<in>set ConfDefValues. \<exists>v. cfg_lookup t (setting_name c) = Some v \<and> well_typed (cdv_type c) v)"

lemma config_typedD:
  "\<lbrakk>config_typed t; c \<in> set ConfDefValues\<rbrakk> \<Longrightarrow> \<exists>v. cfg_lookup t (setting_name c) = Some v \<and> well_typed (cdv_type c) v"
  by (auto simp: config_typed_def)

lemma defaults_config_typed: "config_typed (init_missing_to_defs config_init)"
  using init_missing_ok [OF config_init_ok(1)] config_init_ok(2) defaults_typed
  by (auto simp: config_typed_def)

lemma set_value_typed:
  assumes "config_typed t" "set_value_for_setting env setting v t = (r, t', fp)"
  shows "config_typed t' \<and> (case r of
      Inl _ \<Rightarrow> t' = t \<and> fp = None
    | Inr _ \<Rightarrow> cfg_lookup t' = (cfg_lookup t)(setting \<mapsto> v) \<and> fp = Some (config_do_save env t') \<and>
        (\<exists>c\<in>set ConfDefValues. setting_name c = setting \<and> well_typed (cdv_type c) v))"
proof (cases "find_setting setting")
  case (Some c)
  then have c: "c \<in> set ConfDefValues" "setting_name c = setting" by (auto simp: find_setting_iff)
  show ?thesis
  proof (cases "well_typed (cdv_type c) v")
    case True
    obtain w where w: "cfg_lookup t setting = Some w" using config_typedD [OF assms(1) c(1)] c(2) by auto
    obtain t1 where t1: "config_item_undef (Some setting) t = (OK0, t1)" "cfg_ok t1"
      "cfg_lookup t1 = (cfg_lookup t)(setting := None)"
      using undef_ok [of t setting w] assms(1) w by (auto simp: config_typed_def)
    obtain t2 where t2: "config_item_install (Some setting) (Some v) t1 = (OK0, t2)" "cfg_ok t2"
      "cfg_lookup t2 = (cfg_lookup t)(setting \<mapsto> v)"
      using config_reader.install_new [of t1 setting v] t1 by auto
    have "r = Inr (set_value_for_setting_ok_hook setting)" "t' = t2" "fp = Some (config_do_save env t2)"
      using assms(2) Some True t1(1) t2(1)
      by (auto simp: set_value_for_setting_def well_typed_def bool_true_def bool_false_def split: setting_type.splits if_splits)
    moreover have "config_typed t2"
      using assms(1) t2 True c names_distinct
      by (auto simp: config_typed_def distinct_map inj_on_def)
    ultimately show ?thesis using t2 c True by auto
  next
    case False
    then have "\<exists>e. r = Inl e" "t' = t" "fp = None"
      using assms(2) Some
      by (auto simp: set_value_for_setting_def well_typed_def bool_true_def bool_false_def split: setting_type.splits if_splits)
    then show ?thesis using assms(1) by auto
  qed
qed (use assms in \<open>auto simp: set_value_for_setting_def\<close>)


text \<open>Any number of commands /set.\<close>

definition set_all :: "conf_env \<Rightarrow> string list \<Rightarrow> config \<Rightarrow> config" where
  "set_all env ds t = fold (\<lambda>d t. fst (snd (cmd_set env d t))) ds t"

lemma cmd_set_typed: "config_typed t \<Longrightarrow> config_typed (fst (snd (cmd_set env d t)))"
  using set_value_typed [of t env]
  by (auto simp: cmd_set_def try_to_set_value_for_setting_def Let_def split: option.splits prod.splits sum.splits)

lemma set_all_typed: "config_typed t \<Longrightarrow> config_typed (set_all env ds t)"
  unfolding set_all_def by (induction ds arbitrary: t) (auto intro: cmd_set_typed)

lemma no_space_in_name: "ident_name n \<Longrightarrow> CHR '' '' \<notin> set n \<and> CHR 0x0A \<notin> set n \<and> n \<noteq> []"
  by (auto simp: ident_name_def ident_char_def ctype_defs code_def)

lemma cmd_set_words:
  assumes "c \<in> set ConfDefValues" "setting_name c \<noteq> ''sasl_password''" "v \<noteq> []" "CHR 0x0A \<notin> set v"
  shows "cmd_set env (setting_name c @ '' '' @ v) t = try_to_set_value_for_setting env (setting_name c) v t"
proof -
  have n: "CHR '' '' \<notin> set (setting_name c)" "CHR 0x0A \<notin> set (setting_name c)" "setting_name c \<noteq> []"
    using names_ident assms(1) no_space_in_name by auto
  have 1: "snd (strFeed (setting_name c @ '' '' @ v) 1) = setting_name c @ CHR 0x0A # v"
    using feed_spec_prefix [OF n(1), of 0 v] by (simp add: strFeed_eq feed_char_def)
  have 2: "strtok_r [CHR 0x0A] (setting_name c @ CHR 0x0A # v) = Some (setting_name c, v)"
  proof -
    have "takeWhile (\<lambda>x. x \<notin> set [CHR 0x0A]) (setting_name c @ CHR 0x0A # v) = setting_name c"
      "dropWhile (\<lambda>x. x \<notin> set [CHR 0x0A]) (setting_name c @ CHR 0x0A # v) = CHR 0x0A # v"
      using n(2) by (auto intro!: takeWhile_append_stop dropWhile_append_stop)
    moreover have "dropWhile (\<lambda>x. x \<in> set [CHR 0x0A]) (setting_name c @ CHR 0x0A # v) = setting_name c @ CHR 0x0A # v"
      using n(2,3) by (cases "setting_name c") auto
    ultimately show ?thesis using n(3) by (simp only: strtok_r_def Let_def) simp
  qed
  have 3: "strtok_r [CHR 0x0A] v = Some (v, [])"
  proof -
    have "dropWhile (\<lambda>x. x \<notin> set [CHR 0x0A]) v = []" "takeWhile (\<lambda>x. x \<notin> set [CHR 0x0A]) v = v"
      using assms(4) by (auto intro!: takeWhile_eq_self)
    moreover have "dropWhile (\<lambda>x. x \<in> set [CHR 0x0A]) v = v" using assms(3,4) by (cases v) auto
    ultimately show ?thesis using assms(3) by (simp only: strtok_r_def Let_def) simp
  qed
  have 4: "\<not> strings_match (setting_name c @ '' '' @ v) []" "\<not> strings_match (setting_name c) ''sasl_password''"
    using n(3) assms(2) by simp_all
  show ?thesis unfolding cmd_set_def Let_def if_not_P [OF 4(1)] 1 2 3 option.case prod.case if_not_P [OF 4(2)] ..
qed

lemma try_to_set_cases:
  assumes "config_typed t" "c \<in> set ConfDefValues"
  shows "if well_typed (cdv_type c) v
    then \<exists>acts t'. try_to_set_value_for_setting env (setting_name c) v t =
        (acts @ [Output_ok], t', Some (config_do_save env t')) \<and> config_typed t' \<and>
        cfg_lookup t' = (cfg_lookup t)(setting_name c \<mapsto> v)
    else \<exists>e. try_to_set_value_for_setting env (setting_name c) v t = ([Print_error e], t, None)"
proof -
  obtain r t' fp where s: "set_value_for_setting env (setting_name c) v t = (r, t', fp)"
    by (metis prod_cases3)
  note typed = set_value_typed [OF assms(1) s]
  have f: "find_setting (setting_name c) = Some c" using assms(2) by simp
  show ?thesis
  proof (cases r)
    case (Inl e)
    then have "\<not> well_typed (cdv_type c) v"
    proof -
      have False if w: "well_typed (cdv_type c) v"
      proof -
        obtain x where x: "cfg_lookup t (setting_name c) = Some x" using config_typedD [OF assms] by auto
        obtain t1 where t1: "config_item_undef (Some (setting_name c)) t = (OK0, t1)" "cfg_ok t1"
          "cfg_lookup t1 = (cfg_lookup t)(setting_name c := None)"
          using undef_ok [OF _ x] assms(1) by (auto simp: config_typed_def)
        obtain t2 where "config_item_install (Some (setting_name c)) (Some v) t1 = (OK0, t2)"
          using config_reader.install_new [of t1 "setting_name c" v] t1 by auto
        then show False using s f w t1(1) Inl
          by (auto simp: set_value_for_setting_def well_typed_def bool_true_def bool_false_def
              split: setting_type.splits if_splits)
      qed
      then show ?thesis by blast
    qed
    then show ?thesis using s f Inl typed by (simp add: try_to_set_value_for_setting_def)
  next
    case (Inr acts)
    then have "well_typed (cdv_type c) v"
      using typed assms(2) names_distinct by (auto simp: distinct_map inj_on_def)
    then show ?thesis using s f Inr typed by (simp add: try_to_set_value_for_setting_def)
  qed
qed

text \<open>
  Property C30.  The settings are always typed.  Starting from the defaults, whatever is typed
  behind /set any number of times, every setting of the list is in the table once, a boolean has
  one of the six boolean values, an integer is numeric, and reading a boolean never falls back to a
  default.  A value of the right type is stored and the file is written; it is then the value that
  \<^verbatim>\<open>Config\<close> returns.  A value of the wrong type changes nothing and is reported.
\<close>

theorem config_settings_typed:
  assumes "c \<in> set ConfDefValues"
  shows "let t = set_all env ds (init_missing_to_defs config_init) in
    (\<exists>w. Config_mod t (Some (setting_name c)) = Some w \<and> well_typed (cdv_type c) w \<and>
      (cdv_type c = TYPE_BOOLEAN \<longrightarrow> config_bool t (setting_name c) fb = (bool_true w, False))) \<and>
    (setting_name c \<noteq> ''sasl_password'' \<and> v \<noteq> [] \<and> CHR 0x0A \<notin> set v \<longrightarrow>
      (if well_typed (cdv_type c) v
       then \<exists>acts t'. cmd_set env (setting_name c @ '' '' @ v) t =
           (acts @ [Output_ok], t', Some (config_do_save env t')) \<and> Config t' (Some (setting_name c)) = v \<and>
           (\<forall>n. n \<noteq> setting_name c \<longrightarrow> Config_mod t' (Some n) = Config_mod t (Some n))
       else \<exists>e. cmd_set env (setting_name c @ '' '' @ v) t = ([Print_error e], t, None)))"
proof -
  let ?t = "set_all env ds (init_missing_to_defs config_init)"
  have t: "config_typed ?t"
    by (intro set_all_typed defaults_config_typed)
  obtain w where "cfg_lookup ?t (setting_name c) = Some w" "well_typed (cdv_type c) w"
    using config_typedD [OF t assms(1)] by auto
  then have 1: "Config_mod ?t (Some (setting_name c)) = Some w \<and> well_typed (cdv_type c) w \<and>
      (cdv_type c = TYPE_BOOLEAN \<longrightarrow> config_bool ?t (setting_name c) fb = (bool_true w, False))"
    by (auto simp: config_bool_def get_entry well_typed_def)
  have "cmd_set env (setting_name c @ '' '' @ v) ?t = try_to_set_value_for_setting env (setting_name c) v ?t"
    if "setting_name c \<noteq> ''sasl_password''" "v \<noteq> []" "CHR 0x0A \<notin> set v"
    using cmd_set_words [OF assms(1) that] .
  then show ?thesis using 1 try_to_set_cases [OF t assms(1), of v env]
    unfolding Let_def by (auto simp: Config_lookup split: if_splits)
qed


section \<open>Saving and reading back\<close>

definition header_ok :: "conf_env \<Rightarrow> bool" where
  "header_ok env \<longleftrightarrow> CHR 0x0A \<notin> set (swirc_version env) \<and> CHR 0x0A \<notin> set (current_time env) \<and>
     length (swirc_version env) < 1000 \<and> length (current_time env) < 1000"

definition lines_of :: "conf_env \<Rightarrow> config \<Rightarrow> tagConfDefValues list \<Rightarrow> (string \<times> string \<times> string) list" where
  "lines_of env t cs = map (\<lambda>c. (setting_name c, replicate (nat (padding c)) CHR 0x09, saved_value env t c)) cs"

lemma file_of_lines:
  "concat (map (\<lambda>c. write_setting (setting_name c) (saved_value env t c) True (padding c)) cs) = file_of (lines_of env t cs)"
  by (induction cs) (auto simp: file_of_def lines_of_def write_setting_line)

lemma lines_readable:
  "\<lbrakk>set cs \<subseteq> set ConfDefValues; \<forall>c\<in>set cs. storable (saved_value env t c)\<rbrakk> \<Longrightarrow>
     \<forall>l\<in>set (lines_of env t cs). readable l \<and> is_recognized_setting (Some (fst l))"
  using names_ident paddings
  by (fastforce simp: lines_of_def readable_def storable_def blank_def is_recognized_iff)

lemma read_header:
  assumes "header_ok env"
  shows "Interpreter_processAllLines v f (write_config_header env @ rest) n st =
    Interpreter_processAllLines v f rest (n + 5) st"
  using assms skip_header [of "swirc_version env" "current_time env" "''config''" v f rest n st]
  by (simp add: write_config_header_def header_ok_def)

lemma saved_value_get:
  assumes "saved_value env t c = w" "c \<in> set ConfDefValues"
    and "setting_name c = ''sasl_password'' \<longrightarrow> get_sasl_passwd_type t \<noteq> g_decrypted_pass_sym"
    and "cfg_lookup t' (setting_name c) = Some w"
  shows "Config t' (Some (setting_name c)) = Config t (Some (setting_name c))"
proof -
  have "pass_sym (get_sasl_passwd_type t)"
    by (auto simp: get_sasl_passwd_type_def pass_sym_def split: option.splits)
  then show ?thesis using assms
    by (auto simp: saved_value_def Config_lookup Let_def split: if_splits option.splits)
qed

text \<open>
  Property C29.  What is saved is read back: the file that \<^verbatim>\<open>config_do_save\<close> writes is accepted
  by \<^verbatim>\<open>config_readit\<close> and gives every setting the value that was saved, which is the value it had
  before; only a decrypted SASL password is replaced by its encrypted form.  The values must not contain
  the quote, a newline or a NUL and be at most 478 characters long.
\<close>

theorem config_save_reload:
  assumes "header_ok env" "\<forall>c\<in>set ConfDefValues. storable (saved_value env t c)"
  shows "\<exists>t'. config_readit (config_do_save env t) config_init = Inr t' \<and> (\<forall>c\<in>set ConfDefValues.
    Config_mod t' (Some (setting_name c)) = Some (saved_value env t c) \<and>
    (setting_name c \<noteq> ''sasl_password'' \<or> get_sasl_passwd_type t \<noteq> g_decrypted_pass_sym \<longrightarrow>
       Config t' (Some (setting_name c)) = Config t (Some (setting_name c))))"
proof -
  let ?ls = "lines_of env t ConfDefValues"
  have ls: "\<forall>l\<in>set ?ls. readable l \<and> is_recognized_setting (Some (fst l))" "distinct (map fst ?ls)"
    using lines_readable [of ConfDefValues env t] assms(2) names_distinct by (auto simp: lines_of_def comp_def)
  obtain t1 where t1: "Interpreter_processAllLines (\<lambda>n. is_recognized_setting (Some n))
      (\<lambda>n v. config_item_install (Some n) (Some v)) (file_of ?ls @ []) 5 config_init = Inr t1" "cfg_ok t1"
    "cfg_lookup t1 = cfg_lookup config_init ++ map_of (map (\<lambda>(name, _, v). (name, v)) ?ls)"
    using config_reader.read_file [OF ls config_init_ok(1), of "[]" 5] config_init_ok(2) by auto
  have "cfg_lookup t1 (setting_name c) = Some (saved_value env t c)" if "c \<in> set ConfDefValues" for c
    unfolding t1(3) by (rule map_add_find_right, rule map_of_is_SomeI)
      (use names_distinct that in \<open>auto simp: lines_of_def comp_def\<close>)
  then have l: "cfg_lookup (init_missing_to_defs t1) (setting_name c) = Some (saved_value env t c)"
    if "c \<in> set ConfDefValues" for c
    using init_missing_ok(2) [OF t1(2)] that by simp
  have "config_readit (config_do_save env t) config_init = Inr (init_missing_to_defs t1)"
    using t1(1) unfolding config_readit_def config_do_save_def file_of_lines read_header [OF assms(1)]
    by simp
  then show ?thesis using l saved_value_get [OF refl] by auto
qed

text \<open>Where reading ends.\<close>

lemma readit_stops:
  assumes h: "header_ok env" "c \<in> set ConfDefValues" "saved_value env t c = v"
    and "\<forall>c'\<in>set ConfDefValues. c' \<noteq> c \<longrightarrow> storable (saved_value env t c')"
    and e: "\<And>rest n t. Interpreter_processAllLines (\<lambda>n. is_recognized_setting (Some n))
      (\<lambda>n v. config_item_install (Some n) (Some v))
      (setting_line (setting_name c) (replicate (nat (padding c)) CHR 0x09) v @ CHR 0x0A # rest) n t = Inl (n + 1, e)"
  shows "\<exists>n. config_readit (config_do_save env t) config_init = Inl (n, e)"
proof -
  obtain cs1 cs2 where cs: "ConfDefValues = cs1 @ c # cs2" using h(2) by (meson split_list)
  let ?ls = "lines_of env t cs1"
  let ?rest = "setting_line (setting_name c) (replicate (nat (padding c)) CHR 0x09) v @ CHR 0x0A #
     file_of (lines_of env t cs2)"
  have "c \<notin> set cs1" using names_distinct unfolding cs by auto
  then have "\<forall>c'\<in>set cs1. storable (saved_value env t c')" using assms(4) unfolding cs by auto
  moreover have "set cs1 \<subseteq> set ConfDefValues" unfolding cs by auto
  ultimately have ls: "\<forall>l\<in>set ?ls. readable l \<and> is_recognized_setting (Some (fst l))"
    by (intro lines_readable)
  have d: "distinct (map fst ?ls)"
    using names_distinct unfolding cs by (simp add: lines_of_def comp_def)
  have f: "concat (map (\<lambda>c. write_setting (setting_name c) (saved_value env t c) True (padding c)) ConfDefValues) =
      file_of ?ls @ ?rest"
    by (simp add: cs write_setting_line file_of_lines [symmetric] h(3))
  obtain t1 where "Interpreter_processAllLines (\<lambda>n. is_recognized_setting (Some n))
      (\<lambda>n v. config_item_install (Some n) (Some v)) (file_of ?ls @ ?rest) 5 config_init =
     Interpreter_processAllLines (\<lambda>n. is_recognized_setting (Some n))
      (\<lambda>n v. config_item_install (Some n) (Some v)) ?rest (5 + length ?ls) t1"
    using config_reader.read_file [OF ls d config_init_ok(1), of ?rest 5] config_init_ok(2) by auto
  then show ?thesis
    unfolding config_readit_def config_do_save_def f read_header [OF h(1)] by (simp add: e)
qed

text \<open>
   The command /set accepts values that the program cannot read again.  A string setting
  takes a value with a quote in it, and one of 479 characters or more; the file is written, and the
  next start, which reads it, ends at that line: with a missing line terminator unless a semicolon
  follows the quote, or because the value is truncated.
\<close>

theorem config_value_breaks_file:
  assumes "header_ok env" "config_typed t" "c \<in> set ConfDefValues" "cdv_type c = TYPE_STRING"
    and "setting_name c \<noteq> ''sasl_password''"
    and "\<forall>c'\<in>set ConfDefValues. c' \<noteq> c \<longrightarrow> storable (saved_value env t c')"
    and v: "CHR 0x0A \<notin> set v" "nul \<notin> set v" "length v \<le> 3000"
    and bad: "(\<exists>a b. v = a @ ArgEnd # b \<and> ArgEnd \<notin> set a \<and> length a \<le> 478 \<and>
        hd (adv_while_isspace (b @ [ArgEnd])) \<noteq> CHR '';'' \<and> e = Runtime_error ''no line terminator!'')
      \<or> (ArgEnd \<notin> set v \<and> 479 \<le> length v \<and> e = Truncated)"
  shows "\<exists>acts t' fp n. cmd_set env (setting_name c @ '' '' @ v) t = (acts @ [Output_ok], t', Some fp) \<and>
    config_readit fp config_init = Inl (n, e)"
proof -
  have "v \<noteq> []" using bad by auto
  then obtain acts t' where t': "cmd_set env (setting_name c @ '' '' @ v) t =
      (acts @ [Output_ok], t', Some (config_do_save env t'))"
    "cfg_lookup t' = (cfg_lookup t)(setting_name c \<mapsto> v)"
    using cmd_set_words [OF assms(3,5) _ v(1), of env t] try_to_set_cases [OF assms(2,3), of v env] assms(4)
    by (auto simp: well_typed_def)
  have sv: "saved_value env t' c' = saved_value env t c'" if "c' \<in> set ConfDefValues" "c' \<noteq> c" for c'
  proof -
    have "setting_name c' \<noteq> setting_name c"
      using that assms(3) names_distinct by (auto simp: distinct_map inj_on_def)
    then have "Config t' (Some (setting_name c')) = Config t (Some (setting_name c'))"
      "get_sasl_passwd_type t' = get_sasl_passwd_type t"
      using assms(5) by (simp_all add: Config_lookup get_sasl_passwd_type_def get_entry t'(2))
    then show ?thesis by (simp only: saved_value_def)
  qed
  have svc: "saved_value env t' c = v"
    using assms(5) by (simp add: saved_value_def Config_lookup t'(2))
  have r: "ident_name (setting_name c)" "\<forall>x\<in>set (replicate (nat (padding c)) CHR 0x09). blank x"
    "length (replicate (nat (padding c)) CHR 0x09) < 100"
    using names_ident paddings assms(3) by (auto simp: blank_def)
  have "\<exists>n. config_readit (config_do_save env t') config_init = Inl (n, e)"
  proof (rule readit_stops [OF assms(1,3) svc])
    show "\<forall>c'\<in>set ConfDefValues. c' \<noteq> c \<longrightarrow> storable (saved_value env t' c')" using sv assms(6) by auto
    fix rest n t1
    show "Interpreter_processAllLines (\<lambda>n. is_recognized_setting (Some n))
      (\<lambda>n v. config_item_install (Some n) (Some v))
      (setting_line (setting_name c) (replicate (nat (padding c)) CHR 0x09) v @ CHR 0x0A # rest) n t1 = Inl (n + 1, e)"
      using bad
    proof (elim disjE exE conjE)
      fix a b
      assume q: "v = a @ ArgEnd # b" "ArgEnd \<notin> set a" "length a \<le> 478"
        "hd (adv_while_isspace (b @ [ArgEnd])) \<noteq> CHR '';''" "e = Runtime_error ''no line terminator!''"
      show ?thesis unfolding q(5) by (rule process_quote [OF r v(1,2) q(1-3) v(3) q(4)])
    next
      assume q: "ArgEnd \<notin> set v" "479 \<le> length v" "e = Truncated"
      show ?thesis unfolding q(3) by (rule process_long [OF r v(1,2) q(1,2) v(3)])
    qed
  qed
  then show ?thesis using t'(1) by blast
qed

section \<open>Examples\<close>

definition example_conf_env :: conf_env where
  "example_conf_env = \<lparr>swirc_version = ''3.5.4'', current_time = ''Mon Jan  1 12:00:00 2024'',
     theme_item = (\<lambda>_. []), encrypted_sasl_pass = None\<rparr>"

definition example_config :: config where
  "example_config = init_missing_to_defs config_init"

lemma example_header: "header_ok example_conf_env"
  by code_simp

lemma example_lookup: "c \<in> set ConfDefValues \<Longrightarrow> cfg_lookup example_config (setting_name c) = Some (cdv_value c)"
  using init_missing_ok(2) [OF config_init_ok(1)] config_init_ok(2) by (simp add: example_config_def)

lemma sasl_default: "cdv ''sasl_password'' TYPE_STRING 1 [] \<in> set ConfDefValues"
  and quit_default: "cdv ''quit_message'' TYPE_STRING 1 ''Swirc IRC client'' \<in> set ConfDefValues"
  and beeps_default: "cdv ''beeps'' TYPE_BOOLEAN 4 ''yes'' \<in> set ConfDefValues"
  by (simp_all add: ConfDefValues_def)

lemma example_saved:
  assumes "c \<in> set ConfDefValues"
  shows "saved_value env example_config c =
    (if setting_name c = ''sasl_password'' then [g_unencrypted_pass_sym] else cdv_value c)"
proof -
  have "cfg_lookup example_config ''sasl_password'' = Some []"
    using example_lookup [OF sasl_default] by simp
  then show ?thesis using example_lookup [OF assms]
    by (auto simp: saved_value_def Config_lookup get_sasl_passwd_type_def get_entry Let_def
        g_unencrypted_pass_sym_def g_decrypted_pass_sym_def)
qed

lemma defaults_storable: "\<forall>c\<in>set ConfDefValues. storable (cdv_value c)" "storable [g_unencrypted_pass_sym]"
  by code_simp+

lemma example_storable: "c \<in> set ConfDefValues \<Longrightarrow> storable (saved_value env example_config c)"
  using example_saved defaults_storable by simp

theorem config_save_reload_witness:
  "\<exists>t'. config_readit (config_do_save example_conf_env example_config) config_init = Inr t' \<and>
     Config t' (Some ''quit_message'') = ''Swirc IRC client''"
proof -
  obtain t' where t': "config_readit (config_do_save example_conf_env example_config) config_init = Inr t'"
    "\<forall>c\<in>set ConfDefValues. Config_mod t' (Some (setting_name c)) = Some (saved_value example_conf_env example_config c) \<and>
      (setting_name c \<noteq> ''sasl_password'' \<or> get_sasl_passwd_type example_config \<noteq> g_decrypted_pass_sym \<longrightarrow>
       Config t' (Some (setting_name c)) = Config example_config (Some (setting_name c)))"
    using config_save_reload [OF example_header, of example_config] example_storable by blast
  then have "Config t' (Some ''quit_message'') = Config example_config (Some ''quit_message'')"
    using quit_default by fastforce
  also have "\<dots> = ''Swirc IRC client''"
    using example_lookup [OF quit_default] by (simp add: Config_lookup)
  finally show ?thesis using t'(1) by blast
qed

theorem config_settings_typed_witness:
  "\<exists>w. Config_mod (set_all example_conf_env [''beeps off'', ''beeps maybe''] (init_missing_to_defs config_init))
     (Some ''beeps'') = Some w \<and> (bool_true w \<or> bool_false w)"
  using config_settings_typed [OF beeps_default, of example_conf_env "[''beeps off'', ''beeps maybe'']" True "[]"]
  by (auto simp: well_typed_def Let_def)

theorem config_value_breaks_file_witness:
  "\<exists>acts t' fp n. cmd_set example_conf_env (''quit_message say '' @ [CHR 0x22] @ ''bye'' @ [CHR 0x22]) example_config =
     (acts @ [Output_ok], t', Some fp) \<and>
   config_readit fp config_init = Inl (n, Runtime_error ''no line terminator!'')"
proof -
  let ?v = "''say '' @ [CHR 0x22] @ ''bye'' @ [CHR 0x22]"
  have "\<exists>acts t' fp n. cmd_set example_conf_env (''quit_message'' @ '' '' @ ?v) example_config =
       (acts @ [Output_ok], t', Some fp) \<and>
     config_readit fp config_init = Inl (n, Runtime_error ''no line terminator!'')"
  proof (rule config_value_breaks_file [OF example_header _ quit_default, unfolded cdv_simps])
    show "config_typed example_config" by (simp add: example_config_def defaults_config_typed)
    show "(\<exists>a b. ?v = a @ ArgEnd # b \<and> ArgEnd \<notin> set a \<and> length a \<le> 478 \<and>
        hd (adv_while_isspace (b @ [ArgEnd])) \<noteq> CHR '';'' \<and>
        Runtime_error ''no line terminator!'' = Runtime_error ''no line terminator!'')
      \<or> (ArgEnd \<notin> set ?v \<and> 479 \<le> length ?v \<and> Runtime_error ''no line terminator!'' = Truncated)"
      by (intro disjI1 exI [where x = "''say ''"] exI [where x = "''bye'' @ [CHR 0x22]"])
        (simp add: ArgEnd_def adv_while_isspace_def sw_class_char isspace_def code_def)
  qed (use example_storable in \<open>simp_all add: nul_def\<close>)
  then show ?thesis by simp
qed

end
