(* ===== verification/Theme.thy ===== *)
theory Theme
  imports Settings
begin

text \<open>
  The theme: \<^verbatim>\<open>src/src/theme.c\<close>.

  The items of a theme are kept and read like the settings; the difference is that a time format that
  is not valid is stored as the empty string.  The table of the build for UNIX is modelled.
\<close>

section \<open>The items\<close>

record tagThemeDefValues =
  item_name :: string
  tdv_type :: setting_type
  padding :: int
  tdv_value :: string

definition tdv :: "string \<Rightarrow> setting_type \<Rightarrow> int \<Rightarrow> string \<Rightarrow> tagThemeDefValues" where
  "tdv n ty p v = \<lparr>item_name = n, tdv_type = ty, padding = p, tdv_value = v\<rparr>"

definition ThemeDefValues :: "tagThemeDefValues list" where
  "ThemeDefValues =
    [tdv ''term_background'' TYPE_INTEGER 9 ''1'',
     tdv ''term_enable_colors'' TYPE_BOOLEAN 6 ''yes'',
     tdv ''term_use_default_colors'' TYPE_BOOLEAN 1 ''yes'',
     tdv ''color3'' TYPE_STRING 1 ([CHR 0x03] @ ''03''),
     tdv ''color4'' TYPE_STRING 1 ([CHR 0x03] @ ''05''),
     tdv ''gfx_failure'' TYPE_STRING 1 (''['' @ [CHR 0x03] @ ''4*'' @ [CHR 0x0F] @ '']''),
     tdv ''gfx_success'' TYPE_STRING 1 (''['' @ [CHR 0x03] @ ''9*'' @ [CHR 0x0F] @ '']''),
     tdv ''gfx_warning'' TYPE_STRING 1 (''['' @ [CHR 0x03] @ ''8*'' @ [CHR 0x0F] @ '']''),
     tdv ''left_bracket'' TYPE_STRING 2 ([CHR 0x03] @ ''14['' @ [CHR 0x0F]),
     tdv ''right_bracket'' TYPE_STRING 1 ([CHR 0x03] @ ''14]'' @ [CHR 0x0F]),
     tdv ''logo_color'' TYPE_STRING 1 ([CHR 0x03] @ ''02''),
     tdv ''nick_s1'' TYPE_STRING 1 ([CHR 0x03] @ ''14:'' @ [CHR 0x0F]),
     tdv ''nick_s2'' TYPE_STRING 1 ([CHR 0x03] @ ''14:'' @ [CHR 0x0F]),
     tdv ''nicklist_my_nick_color'' TYPE_INTEGER 3 ''14'',
     tdv ''nicklist_nick_color'' TYPE_INTEGER 6 ''15'',
     tdv ''nicklist_privilege_color'' TYPE_INTEGER 1 ''3'',
     tdv ''nicklist_vline_color'' TYPE_INTEGER 5 ''2'',
     tdv ''notice_color1'' TYPE_STRING 3 ([CHR 0x03] @ ''13''),
     tdv ''notice_color2'' TYPE_STRING 3 ([CHR 0x03] @ ''06''),
     tdv ''notice_inner_b1'' TYPE_STRING 1 ([CHR 0x03] @ ''14('' @ [CHR 0x0F]),
     tdv ''notice_inner_b2'' TYPE_STRING 1 ([CHR 0x03] @ ''14)'' @ [CHR 0x0F]),
     tdv ''notice_lb'' TYPE_STRING 7 ([CHR 0x03] @ ''14-'' @ [CHR 0x0F]),
     tdv ''notice_rb'' TYPE_STRING 7 ([CHR 0x03] @ ''14-'' @ [CHR 0x0F]),
     tdv ''notice_sep'' TYPE_STRING 6 ([CHR 0x03] @ ''14:'' @ [CHR 0x0F]),
     tdv ''primary_color'' TYPE_STRING 3 ([CHR 0x03] @ ''12''),
     tdv ''secondary_color'' TYPE_STRING 1 ([CHR 0x03] @ ''00''),
     tdv ''slogan'' TYPE_STRING 1 ([CHR 0x03] @ ''3,1The universal IRC client'' @ [CHR 0x0F]),
     tdv ''specifier1'' TYPE_STRING 1 ([CHR 0x03] @ ''14['' @ [CHR 0x03] @ ''0-'' @ [CHR 0x03] @ ''14]'' @ [CHR 0x0F]),
     tdv ''specifier2'' TYPE_STRING 1 ([CHR 0x03] @ ''14['' @ [CHR 0x03] @ ''0:'' @ [CHR 0x03] @ ''14]'' @ [CHR 0x0F]),
     tdv ''specifier3'' TYPE_STRING 1 ([CHR 0x03] @ ''14['' @ [CHR 0x03] @ ''0x'' @ [CHR 0x03] @ ''14]'' @ [CHR 0x0F]),
     tdv ''statusbar_bg'' TYPE_STRING 11 ''black'',
     tdv ''statusbar_fg'' TYPE_STRING 11 ''white'',
     tdv ''statusbar_leftBracket'' TYPE_STRING 2 ([CHR 0x03] @ ''12,1['' @ [CHR 0x0F]),
     tdv ''statusbar_rightBracket'' TYPE_STRING 1 ([CHR 0x03] @ ''12,1]'' @ [CHR 0x0F]),
     tdv ''statusbar_spec'' TYPE_STRING 9 ''[-]'',
     tdv ''time_format'' TYPE_STRING 1 ([CHR 0x03] @ ''14['' @ [CHR 0x0F] @ ''%H:%M'' @ [CHR 0x03] @ ''14]'' @ [CHR 0x0F]),
     tdv ''titlebar_bg'' TYPE_STRING 1 ''white'',
     tdv ''titlebar_fg'' TYPE_STRING 1 ''black'',
     tdv ''whois_acc'' TYPE_STRING 6 ([CHR 0x03] @ ''14='' @ [CHR 0x0F] @ ''> account  :''),
     tdv ''whois_away'' TYPE_STRING 5 ([CHR 0x03] @ ''14='' @ [CHR 0x0F] @ ''> away     :''),
     tdv ''whois_bot'' TYPE_STRING 6 ([CHR 0x03] @ ''14='' @ [CHR 0x0F] @ ''> bot      :''),
     tdv ''whois_cert'' TYPE_STRING 5 ([CHR 0x03] @ ''14='' @ [CHR 0x0F] @ ''> cert     :''),
     tdv ''whois_channels'' TYPE_STRING 1 ([CHR 0x03] @ ''14='' @ [CHR 0x0F] @ ''> channels :''),
     tdv ''whois_conn'' TYPE_STRING 5 ([CHR 0x03] @ ''14='' @ [CHR 0x0F] @ ''> conn     :''),
     tdv ''whois_host'' TYPE_STRING 5 ([CHR 0x03] @ ''14='' @ [CHR 0x0F] @ ''> host     :''),
     tdv ''whois_idle'' TYPE_STRING 5 ([CHR 0x03] @ ''14='' @ [CHR 0x0F] @ ''> idle     :''),
     tdv ''whois_ircName'' TYPE_STRING 2 ([CHR 0x03] @ ''14='' @ [CHR 0x0F] @ ''> ircname  :''),
     tdv ''whois_ircOp'' TYPE_STRING 4 ([CHR 0x03] @ ''14='' @ [CHR 0x0F] @ ''> IRC op   :''),
     tdv ''whois_modes'' TYPE_STRING 4 ([CHR 0x03] @ ''14='' @ [CHR 0x0F] @ ''> modes    :''),
     tdv ''whois_server'' TYPE_STRING 3 ([CHR 0x03] @ ''14='' @ [CHR 0x0F] @ ''> server   :''),
     tdv ''whois_service'' TYPE_STRING 2 ([CHR 0x03] @ ''14='' @ [CHR 0x0F] @ ''> service  :''),
     tdv ''whois_ssl'' TYPE_STRING 6 ([CHR 0x03] @ ''14='' @ [CHR 0x0F] @ ''> TLS/SSL  :'')]"

type_synonym theme = "entry list list"

section \<open>The table\<close>

definition get_hash_table_entry :: "theme \<Rightarrow> string option \<Rightarrow> entry option" where
  "get_hash_table_entry t name =
     (case name of None \<Rightarrow> None | Some n \<Rightarrow> find (\<lambda>e. strings_match n (fst e)) (t ! hash n))"

definition hInstall :: "string \<Rightarrow> string option \<Rightarrow> theme \<Rightarrow> theme" where
  "hInstall name val t =
     (let item = (name, (case val of None \<Rightarrow> [] | Some v \<Rightarrow> v)); hashval = hash name
      in t[hashval := item # t ! hashval])"

definition hUndef :: "entry \<Rightarrow> theme \<Rightarrow> theme" where
  "hUndef entry t = t[hash (fst entry) := remove1 entry (t ! hash (fst entry))]"

definition init_missing_to_defs :: "theme \<Rightarrow> theme" where
  "init_missing_to_defs t =
     fold (\<lambda>c t. if get_hash_table_entry t (Some (item_name c)) = None
                 then hInstall (item_name c) (Some (tdv_value c)) t else t) ThemeDefValues t"

definition is_recognized_item :: "string option \<Rightarrow> bool" where
  "is_recognized_item name =
     (case name of None \<Rightarrow> False
      | Some n \<Rightarrow> if strings_match n [] then False
          else find (\<lambda>c. strings_match n (item_name c)) ThemeDefValues \<noteq> None)"

definition theme_init :: theme where
  "theme_init = replicate 300 []"

definition theme_deinit :: "theme \<Rightarrow> theme" where
  "theme_deinit t = fold (\<lambda>es t. fold hUndef es t) t t"

definition theme_item_install :: "string option \<Rightarrow> string option \<Rightarrow> theme \<Rightarrow> errno \<times> theme" where
  "theme_item_install name val t =
     (case (name, val) of
        (Some n, Some v) \<Rightarrow>
          if get_hash_table_entry t (Some n) \<noteq> None then (EBUSY, t)
          else if strings_match n ''time_format'' \<and> \<not> time_format_ok v then (OK0, hInstall n (Some []) t)
          else (OK0, hInstall n (Some v) t)
      | _ \<Rightarrow> (EINVAL, t))"

definition theme_item_undef :: "string option \<Rightarrow> theme \<Rightarrow> errno \<times> theme" where
  "theme_item_undef name t =
     (case get_hash_table_entry t name of None \<Rightarrow> (ENOENT, t) | Some entry \<Rightarrow> (OK0, hUndef entry t))"

section \<open>Values\<close>

definition theme_bool :: "theme \<Rightarrow> string \<Rightarrow> bool \<Rightarrow> bool \<times> bool" where
  "theme_bool t name fallback_default =
     (case get_hash_table_entry t (Some name) of
        Some (_, v) \<Rightarrow>
          if bool_true v then (True, False) else if bool_false v then (False, False)
          else (fallback_default, True)
      | None \<Rightarrow> (fallback_default, True))"

definition Theme_mod :: "theme \<Rightarrow> string option \<Rightarrow> string option" where
  "Theme_mod t name = map_option snd (get_hash_table_entry t name)"

definition Theme :: "theme \<Rightarrow> string option \<Rightarrow> string" where
  "Theme t name = (case get_hash_table_entry t name of None \<Rightarrow> [] | Some (_, v) \<Rightarrow> v)"

definition theme_integer :: "theme \<Rightarrow> string \<Rightarrow> int \<Rightarrow> int \<Rightarrow> int \<Rightarrow> int \<times> bool" where
  "theme_integer t name lo_limit hi_limit fallback_default =
     (case get_hash_table_entry t (Some name) of
        Some (_, v) \<Rightarrow>
          (case getval_strtol v lo_limit hi_limit of (True, val) \<Rightarrow> (val, False) | _ \<Rightarrow> (fallback_default, True))
      | None \<Rightarrow> (fallback_default, True))"

text \<open>The colours have the numbers of the curses library.\<close>

definition color_names :: "(string \<times> int) list" where
  "color_names = [(''black'', 0), (''red'', 1), (''green'', 2), (''yellow'', 3), (''blue'', 4),
     (''magenta'', 5), (''cyan'', 6), (''white'', 7)]"

definition theme_color :: "theme \<Rightarrow> string \<Rightarrow> int \<Rightarrow> int \<times> bool" where
  "theme_color t name fallback_color =
     (case get_hash_table_entry t (Some name) of
        Some (_, v) \<Rightarrow>
          (case find (\<lambda>(n, _). strings_match_ignore_case v n) color_names of
             Some (_, col) \<Rightarrow> (col, False)
           | None \<Rightarrow> (fallback_color, True))
      | None \<Rightarrow> (fallback_color, True))"

section \<open>The file\<close>

definition write_theme_header :: "string \<Rightarrow> string \<Rightarrow> string" where
  "write_theme_header version time =
     ''# -*- mode: conf; -*-'' @ CHR 0x0A # ''#'' @ CHR 0x0A # ''# Swirc '' @ version @
     ''  --  default theme'' @ CHR 0x0A # ''# Automatically generated at '' @ time @ [CHR 0x0A, CHR 0x0A]"

definition theme_create :: "string \<Rightarrow> string \<Rightarrow> string" where
  "theme_create version time = write_theme_header version time @
     concat (map (\<lambda>c. write_setting (item_name c) (tdv_value c) False (padding c)) ThemeDefValues)"

definition theme_do_save :: "string \<Rightarrow> string \<Rightarrow> theme \<Rightarrow> string" where
  "theme_do_save version time t = write_theme_header version time @
     concat (map (\<lambda>c. write_setting (item_name c) (Theme t (Some (item_name c))) False (padding c)) ThemeDefValues)"

definition theme_readit :: "string \<Rightarrow> theme \<Rightarrow> (nat \<times> interp_error) + theme" where
  "theme_readit fp t =
     and_then (Interpreter_processAllLines (\<lambda>n. is_recognized_item (Some n))
         (\<lambda>n v. theme_item_install (Some n) (Some v)) fp 0 t)
       (\<lambda>t. Inr (init_missing_to_defs t))"

section \<open>Facts on the list of items\<close>

lemma item_names_distinct: "distinct (map item_name ThemeDefValues)"
  by code_simp

lemma item_names_ident: "\<forall>c\<in>set ThemeDefValues. ident_name (item_name c)"
  by code_simp

lemma item_paddings: "\<forall>c\<in>set ThemeDefValues. 1 \<le> padding c \<and> padding c < 100"
  by code_simp

lemma recognized_item_iff: "is_recognized_item (Some n) \<longleftrightarrow> (\<exists>c\<in>set ThemeDefValues. item_name c = n)"
  using item_names_ident
  by (cases "n = []") (auto simp: is_recognized_item_def ident_name_def find_None_iff)

section \<open>Saving and reading back\<close>

lemma theme_entry: "get_hash_table_entry t (Some n) = map_option (Pair n) (table_lookup t n)"
  by (simp only: get_hash_table_entry_def option.case find_entry table_lookup_def)

lemma Theme_lookup: "Theme t (Some n) = (case table_lookup t n of None \<Rightarrow> [] | Some v \<Rightarrow> v)"
  by (simp add: Theme_def theme_entry split: option.splits)

definition stored_item :: "string \<Rightarrow> string \<Rightarrow> string" where
  "stored_item name v = (if name = ''time_format'' \<and> \<not> time_format_ok v then [] else v)"

lemma theme_hInstall_ok:
  assumes "table_ok t" "table_lookup t n = None"
  shows "table_ok (hInstall n (Some v) t)" "table_lookup (hInstall n (Some v) t) = (table_lookup t)(n \<mapsto> v)"
  using table_install [of t n v] assms by (simp_all add: hInstall_def Let_def)

interpretation theme_reader: settings_reader "\<lambda>n v. theme_item_install (Some n) (Some v)"
  "\<lambda>n. is_recognized_item (Some n)" table_lookup table_ok stored_item
proof unfold_locales
  fix t name v
  assume "table_ok t" "table_lookup t name = None"
  then show "\<exists>t'. theme_item_install (Some name) (Some v) t = (OK0, t') \<and> table_ok t' \<and>
      table_lookup t' = (table_lookup t)(name \<mapsto> stored_item name v)"
    using theme_hInstall_ok by (auto simp: theme_item_install_def theme_entry stored_item_def)
next
  fix t name w v
  assume "table_ok t" "table_lookup t name = Some w"
  then show "theme_item_install (Some name) (Some v) t = (EBUSY, t)"
    by (simp add: theme_item_install_def theme_entry)
qed

text \<open>Missing items get their default.\<close>

lemma theme_init_missing:
  "table_ok t \<Longrightarrow>
     (let t' = fold (\<lambda>c t. if get_hash_table_entry t (Some (item_name c)) = None
                 then hInstall (item_name c) (Some (tdv_value c)) t else t) cs t
      in table_ok t' \<and> (\<forall>n. table_lookup t' n = (case table_lookup t n of Some v \<Rightarrow> Some v
           | None \<Rightarrow> map_option tdv_value (find (\<lambda>c. strings_match n (item_name c)) cs))))"
proof (induction cs arbitrary: t)
  case (Cons c cs)
  let ?t = "if get_hash_table_entry t (Some (item_name c)) = None
                 then hInstall (item_name c) (Some (tdv_value c)) t else t"
  have "table_ok ?t" using Cons.prems theme_hInstall_ok by (simp add: theme_entry)
  moreover have "table_lookup ?t n = (case table_lookup t n of Some v \<Rightarrow> Some v
      | None \<Rightarrow> if n = item_name c then Some (tdv_value c) else None)" for n
    using Cons.prems theme_hInstall_ok [of t "item_name c"] by (auto simp: theme_entry split: option.splits)
  ultimately show ?case using Cons.IH [of ?t]
    by (auto simp: Let_def simp del: map_option_eq_Some split: option.splits)
qed (simp split: option.splits)

lemma theme_read_header:
  assumes "CHR 0x0A \<notin> set version" "CHR 0x0A \<notin> set time" "length version < 1000" "length time < 1000"
  shows "Interpreter_processAllLines v f (write_theme_header version time @ rest) n st =
    Interpreter_processAllLines v f rest (n + 5) st"
  using assms skip_header [of version time "''theme''" v f rest n st]
  by (simp add: write_theme_header_def)

lemma theme_save_reload:
  assumes "CHR 0x0A \<notin> set version" "CHR 0x0A \<notin> set time" "length version < 1000" "length time < 1000"
    and "\<forall>c\<in>set ThemeDefValues. storable (Theme t (Some (item_name c)))"
  shows "\<exists>t'. theme_readit (theme_do_save version time t) theme_init = Inr t' \<and> (\<forall>c\<in>set ThemeDefValues.
    Theme_mod t' (Some (item_name c)) = Some (stored_item (item_name c) (Theme t (Some (item_name c)))))"
proof -
  let ?line = "\<lambda>c. (item_name c, replicate (nat (padding c)) CHR '' '', Theme t (Some (item_name c)))"
  let ?ls = "map ?line ThemeDefValues"
  have ls: "\<forall>l\<in>set ?ls. readable l \<and> is_recognized_item (Some (fst l))" "distinct (map fst ?ls)"
    using item_names_distinct item_names_ident item_paddings assms(5)
    by (fastforce simp: readable_def storable_def blank_def recognized_item_iff comp_def)+
  have f: "concat (map (\<lambda>c. write_setting (item_name c) (Theme t (Some (item_name c))) False (padding c)) cs) =
      file_of (map ?line cs)" for cs
    by (induction cs) (auto simp: file_of_def write_setting_line)
  have e: "table_ok theme_init" "\<And>n. table_lookup theme_init n = None"
    by (simp_all add: theme_init_def table_ok_empty table_lookup_empty)
  obtain t1 where t1: "Interpreter_processAllLines (\<lambda>n. is_recognized_item (Some n))
      (\<lambda>n v. theme_item_install (Some n) (Some v)) (file_of ?ls @ []) 5 theme_init = Inr t1" "table_ok t1"
    "table_lookup t1 = table_lookup theme_init ++ map_of (map (\<lambda>(name, _, v). (name, stored_item name v)) ?ls)"
    using theme_reader.read_file [OF ls e(1), of "[]" 5] e(2) by auto
  have l: "table_lookup t1 (item_name c) = Some (stored_item (item_name c) (Theme t (Some (item_name c))))"
    if "c \<in> set ThemeDefValues" for c
    unfolding t1(3) by (rule map_add_find_right, rule map_of_is_SomeI)
      (use item_names_distinct that in \<open>auto simp: comp_def\<close>)
  have "theme_readit (theme_do_save version time t) theme_init = Inr (init_missing_to_defs t1)"
    using t1(1) unfolding theme_readit_def theme_do_save_def f theme_read_header [OF assms(1-4)]
    by simp
  then show ?thesis
    using l theme_init_missing [OF t1(2), of ThemeDefValues]
    by (simp add: Theme_mod_def theme_entry init_missing_to_defs_def Let_def)
qed

end
