(* ===== verification/Nicklist.thy ===== *)
theory Nicklist
  imports Names_Table Theme "HOL-Library.Product_Lexorder" "HOL-Library.List_Lexorder" "HOL-Library.Multiset"
begin

text \<open>
  The nick list beside a channel window: \<^verbatim>\<open>src/src/nicklist.cpp\<close>.

  The panel is represented by whether it exists; drawing gives the calls of the curses library.
  \<^verbatim>\<open>std::list::sort\<close> is stable, so that its result is determined by the order.  Moving an
  iterator past the end of the list is undefined and gives \<^const>\<open>None\<close>.
\<close>

section \<open>State and environment\<close>

record nicklist =
  nl_pan :: bool
  scroll_pos :: int
  nl_width :: int

record nicklist_env =
  nl_LINES :: int
  term_is_too_small :: bool
  nl_theme :: theme
  nl_my_nickname :: "string option"

datatype nl_draw = Werase | Wmove int int | Set_color int int | Add_vline | Waddch char | Waddstr string | Wattr_normal

definition g_nicklist_maxnick :: nat where "g_nicklist_maxnick = 16"
definition g_nicklist_scroll_amount :: int where "g_nicklist_scroll_amount = 10"

definition can_scroll :: "nicklist_env \<Rightarrow> bool \<Rightarrow> bool \<Rightarrow> nicklist \<Rightarrow> bool" where
  "can_scroll env channel received nl \<longleftrightarrow>
     channel \<and> received \<and> nl_pan nl \<and> \<not> nl_width nl \<le> 0 \<and> \<not> term_is_too_small env"

section \<open>The order\<close>

text \<open>The characters that the two \<^verbatim>\<open>switch\<close> statements list under each case.\<close>

definition ranked_below :: "char \<Rightarrow> string" where
  "ranked_below c =
     (if c = CHR ''~'' then ''&@%+ '' else if c = CHR ''&'' then ''@%+ '' else if c = CHR ''@'' then ''%+ ''
      else if c = CHR ''%'' then ''+ '' else if c = CHR ''+'' then '' '' else [])"

definition fold_letter :: "char \<Rightarrow> int" where
  "fold_letter c = (if sw_isupper (schar c) then schar (tolower c) else schar c)"

fun cmp_letters :: "string \<Rightarrow> string \<Rightarrow> bool" where
  "cmp_letters (a # nick1) (b # nick2) =
     (if fold_letter a < fold_letter b then True
      else if fold_letter a > fold_letter b then False else cmp_letters nick1 nick2)"
| "cmp_letters nick1 nick2 = (length nick1 < length nick2)"

text \<open>Each string begins with the character of the privilege.\<close>

fun cmp_fn :: "string \<Rightarrow> string \<Rightarrow> bool" where
  "cmp_fn (c1 # nick1) (c2 # nick2) =
     (if c2 \<in> set (ranked_below c1) then True
      else if c1 \<in> set (ranked_below c2) then False
      else cmp_letters nick1 nick2)"
| "cmp_fn _ _ = False"

fun list_insert :: "('a \<Rightarrow> 'a \<Rightarrow> bool) \<Rightarrow> 'a \<Rightarrow> 'a list \<Rightarrow> 'a list" where
  "list_insert lt x [] = [x]"
| "list_insert lt x (y # ys) = (if lt y x then y # list_insert lt x ys else x # y # ys)"

definition list_sort :: "('a \<Rightarrow> 'a \<Rightarrow> bool) \<Rightarrow> 'a list \<Rightarrow> 'a list" where
  "list_sort lt xs = foldr (list_insert lt) xs []"

definition privilege_char :: "names \<Rightarrow> char" where
  "privilege_char m =
     (if is_owner m then CHR ''~'' else if is_superop m then CHR ''&'' else if is_op m then CHR ''@''
      else if is_halfop m then CHR ''%'' else if is_voice m then CHR ''+'' else CHR '' '')"

definition get_list :: "chan_names \<Rightarrow> bool \<Rightarrow> string list" where
  "get_list window sorting =
     (let list = map (\<lambda>m. privilege_char m # m_nick m) (all_names window)
      in if sorting then list_sort cmp_fn list else list)"

section \<open>Drawing\<close>

definition addvline :: "theme \<Rightarrow> int \<Rightarrow> nl_draw list" where
  "addvline t bg = [Set_color (fst (theme_integer t ''nicklist_vline_color'' 0 99 0)) bg, Add_vline]"

definition addnick :: "nicklist_env \<Rightarrow> int \<Rightarrow> string \<Rightarrow> nl_draw list" where
  "addnick env bg nick =
     (let t = nl_theme env; cp = tl nick in
      [Set_color (fst (theme_integer t ''nicklist_privilege_color'' 0 99 0)) bg, Waddch (hd nick),
       (case nl_my_nickname env of
          Some me \<Rightarrow> if strings_match_ignore_case cp me
            then Set_color (fst (theme_integer t ''nicklist_my_nick_color'' 0 99 0)) bg
            else Set_color (fst (theme_integer t ''nicklist_nick_color'' 0 99 0)) bg
        | None \<Rightarrow> Set_color (fst (theme_integer t ''nicklist_nick_color'' 0 99 0)) bg),
       Waddstr cp])"

definition printnick :: "nicklist_env \<Rightarrow> int \<Rightarrow> int \<Rightarrow> string option \<Rightarrow> nl_draw list" where
  "printnick env row col nick =
     (let t = nl_theme env;
          bg = (if fst (theme_bool t ''term_use_default_colors'' True) then -1
                else fst (theme_integer t ''term_background'' 0 15 1))
      in Wmove row col # addvline t bg @ (case nick of None \<Rightarrow> [] | Some n \<Rightarrow> addnick env bg n) @ [Wattr_normal])"

text \<open>The loops of the two functions: the names, from row \<open>cnt\<close> on, then the empty rows.\<close>

fun print_nicks :: "nicklist_env \<Rightarrow> int \<Rightarrow> int \<Rightarrow> string list \<Rightarrow> nl_draw list" where
  "print_nicks env height cnt [] = []"
| "print_nicks env height cnt (nick # it) =
     (if cnt < height then printnick env cnt 0 (Some nick) @ print_nicks env height (cnt + 1) it else [])"

definition list_fits_yes :: "nicklist_env \<Rightarrow> int \<Rightarrow> string list \<Rightarrow> nicklist \<Rightarrow> nicklist \<times> nl_draw list" where
  "list_fits_yes env height list nl =
     (nl\<lparr>scroll_pos := 0\<rparr>,
      Werase # print_nicks env height 0 list @
        concat (map (\<lambda>cnt. printnick env cnt 0 None) [min height (int (length list))..height - 1]))"

text \<open>\<^verbatim>\<open>std::advance\<close> from the beginning of the list.\<close>

definition advance :: "int \<Rightarrow> string list \<Rightarrow> string list option" where
  "advance n list = (if 0 \<le> n \<and> n \<le> int (length list) then Some (drop (nat n) list) else None)"

definition list_fits_no :: "nicklist_env \<Rightarrow> int \<Rightarrow> string list \<Rightarrow> nicklist \<Rightarrow> (nicklist \<times> nl_draw list) option" where
  "list_fits_no env height list nl = do {
     nl \<leftarrow> (if scroll_pos nl < 0 then Some (nl\<lparr>scroll_pos := 0\<rparr>)
           else do {
             it \<leftarrow> advance (scroll_pos nl) list;
             let cnt = int (length it);
             Some (if cnt < height then nl\<lparr>scroll_pos := scroll_pos nl - (height - cnt)\<rparr> else nl) });
     it \<leftarrow> (if scroll_pos nl \<noteq> 0 then advance (scroll_pos nl) list else Some list);
     Some (nl, Werase # print_nicks env height 0 it) }"

text \<open>The results are the return value, the new state and what is drawn.\<close>

definition nicklist_draw ::
    "nicklist_env \<Rightarrow> bool \<Rightarrow> int \<Rightarrow> chan_names \<Rightarrow> nicklist \<Rightarrow> (int \<times> nicklist \<times> nl_draw list) option" where
  "nicklist_draw env received rows win nl =
     (if rows < 0 \<or> \<not> received \<or> \<not> nl_pan nl then Some (-1, nl, [])
      else if term_is_too_small env then Some (-1, nl, [])
      else let height = rows - 3; list = get_list win True in
        if height < 0 \<or> int (length list) \<noteq> num_total win mod 2 ^ 32 then Some (-1, nl, [])
        else if \<not> num_total win > height
        then (let (nl, out) = list_fits_yes env height list nl in Some (0, nl, out))
        else do { (nl, out) \<leftarrow> list_fits_no env height list nl; Some (0, nl, out) })"

definition nicklist_get_width :: "chan_names \<Rightarrow> int" where
  "nicklist_get_width window =
     (let len = fold (\<lambda>m len. if length (m_nick m) > len then length (m_nick m) else len) (all_names window) 0;
          len = (if len > g_nicklist_maxnick then g_nicklist_maxnick else len)
      in int (len + 2))"

text \<open>The part of \<^verbatim>\<open>window_recreate\<close> that resizes or makes the panel of the list and draws it.\<close>

definition recreate_nicklist ::
    "nicklist_env \<Rightarrow> bool \<Rightarrow> int \<Rightarrow> chan_names \<Rightarrow> nicklist \<Rightarrow> (nicklist \<times> nl_draw list) option" where
  "recreate_nicklist env received rows win nl = do {
     (_, nl, out) \<leftarrow> nicklist_draw env received rows win (nl\<lparr>nl_width := nicklist_get_width win, nl_pan := True\<rparr>);
     Some (nl, out) }"

definition nicklist_new ::
    "nicklist_env \<Rightarrow> bool \<Rightarrow> chan_names \<Rightarrow> (int \<times> nicklist \<times> nl_draw list) option" where
  "nicklist_new env received win = do {
     (nl, out) \<leftarrow> recreate_nicklist env received (nl_LINES env) win
       \<lparr>nl_pan = False, scroll_pos = 0, nl_width = nicklist_get_width win\<rparr>;
     Some (0, nl, out) }"

definition nicklist_destroy :: "nicklist \<Rightarrow> nicklist" where
  "nicklist_destroy nl = nl\<lparr>nl_pan := False, scroll_pos := 0, nl_width := 0\<rparr>"

text \<open>\<open>None\<close> as what is drawn stands for the beep.\<close>

definition nicklist_scroll ::
    "nicklist_env \<Rightarrow> bool \<Rightarrow> bool \<Rightarrow> int \<Rightarrow> chan_names \<Rightarrow> nicklist \<Rightarrow> (nicklist \<times> nl_draw list option) option" where
  "nicklist_scroll env channel received amount win nl =
     (if \<not> can_scroll env channel received nl then Some (nl, None)
      else do {
        (_, nl, out) \<leftarrow> nicklist_draw env received (nl_LINES env) win (nl\<lparr>scroll_pos := scroll_pos nl + amount\<rparr>);
        Some (nl, Some out) })"

definition nicklist_scroll_down where
  "nicklist_scroll_down env channel received win nl = nicklist_scroll env channel received g_nicklist_scroll_amount win nl"

definition nicklist_scroll_up where
  "nicklist_scroll_up env channel received win nl = nicklist_scroll env channel received (- g_nicklist_scroll_amount) win nl"

definition nicklist_update ::
    "nicklist_env \<Rightarrow> bool \<Rightarrow> bool \<Rightarrow> chan_names \<Rightarrow> nicklist \<Rightarrow> (int \<times> nicklist \<times> nl_draw list) option" where
  "nicklist_update env channel received win nl =
     (if \<not> channel \<or> \<not> received then Some (-1, nl, [])
      else if \<not> (nicklist_get_width win \<noteq> nl_width nl) then nicklist_draw env received (nl_LINES env) win nl
      else do {
        (nl, out) \<leftarrow> recreate_nicklist env received (nl_LINES env) win nl;
        Some (0, nl, out) })"

section \<open>The order is that of a key\<close>

text \<open>The rank of the privilege character, then the letters of the name without case.\<close>

definition char_rank :: "char \<Rightarrow> nat" where
  "char_rank c = (if c = CHR ''~'' then 0 else if c = CHR ''&'' then 1 else if c = CHR ''@'' then 2
     else if c = CHR ''%'' then 3 else if c = CHR ''+'' then 4 else 5)"

definition nick_key :: "string \<Rightarrow> nat \<times> int list" where
  "nick_key s = (char_rank (hd s), map fold_letter (tl s))"

definition listed :: "string \<Rightarrow> bool" where
  "listed s \<longleftrightarrow> s \<noteq> [] \<and> hd s \<in> set ''~&@%+ ''"

lemma Nil_less_map: "[] < map f (xs :: 'a list) \<longleftrightarrow> xs \<noteq> []" for f :: "'a \<Rightarrow> int"
  by (cases xs) auto

lemma cmp_letters_less: "cmp_letters a b \<longleftrightarrow> map fold_letter a < map fold_letter b"
  by (induction a b rule: cmp_letters.induct) (auto simp: Nil_less_map)

lemma below_rank:
  "\<lbrakk>c \<in> set ''~&@%+ ''; d \<in> set ''~&@%+ ''\<rbrakk> \<Longrightarrow> d \<in> set (ranked_below c) \<longleftrightarrow> char_rank c < char_rank d"
  by (auto simp: ranked_below_def char_rank_def)

lemma cmp_fn_less: "\<lbrakk>listed a; listed b\<rbrakk> \<Longrightarrow> cmp_fn a b \<longleftrightarrow> nick_key a < nick_key b"
  by (cases a; cases b) (auto simp: listed_def below_rank nick_key_def cmp_letters_less simp del: set_simps)

lemma list_insert_insort:
  "\<lbrakk>listed x; \<forall>y\<in>set ys. listed y\<rbrakk> \<Longrightarrow> list_insert cmp_fn x ys = insort_key nick_key x ys"
  by (induction ys) (auto simp: cmp_fn_less)

lemma list_sort_key: "\<forall>x\<in>set xs. listed x \<Longrightarrow> list_sort cmp_fn xs = sort_key nick_key xs"
proof (induction xs)
  case (Cons x xs)
  then show ?case by (simp add: list_sort_def sort_key_def) (simp add: list_insert_insort sort_key_def [symmetric])
qed (simp add: list_sort_def)

lemma privilege_listed: "listed (privilege_char m # n)"
  by (simp add: listed_def privilege_char_def)

lemma get_list_sorted: "get_list w True = sort_key nick_key (get_list w False)"
  unfolding get_list_def Let_def if_True if_False by (rule list_sort_key) (auto simp: privilege_listed)

lemma length_all_names: "int (length (all_names w)) = chain_count NAMES_HASH_TABLE_SIZE (\<lambda>_. True) (names_hash w)"
proof -
  have "length (concat (map f [0..<k])) = (\<Sum>i<k. length (f i))" for f :: "nat \<Rightarrow> names list" and k
    by (induction k) auto
  then show ?thesis by (simp add: all_names_def chain_count_def)
qed

section \<open>What is shown\<close>

lemma names_ok_total: "names_ok w \<Longrightarrow> num_total w = int (length (get_list w b))"
  using length_all_names [of w] get_list_sorted [of w]
  by (cases b) (simp_all add: names_ok_def counts_ok_def get_list_def Let_def)

text \<open>The position of the list after drawing it in \<open>h\<close> rows.\<close>

definition shown_pos :: "int \<Rightarrow> int \<Rightarrow> int \<Rightarrow> int" where
  "shown_pos h n pos = max 0 (min pos (n - h))"

lemma print_nicks_take:
  "print_nicks env h cnt xs =
     concat (map (\<lambda>(i, x). printnick env i 0 (Some x)) (zip [cnt..h - 1] (take (nat (h - cnt)) xs)))"
proof (induction xs arbitrary: cnt)
  case (Cons x xs)
  show ?case
  proof (cases "cnt < h")
    case True
    then have "nat (h - cnt) = Suc (nat (h - (cnt + 1)))" "[cnt..h - 1] = cnt # [cnt + 1..h - 1]"
      by (simp_all add: upto_rec1)
    then show ?thesis using True by (simp add: Cons.IH)
  qed simp
qed simp

lemma draw_page:
  assumes "names_ok w" "num_total w < 2 ^ 31" "nl_pan nl" "\<not> term_is_too_small env" "3 \<le> rows"
    and "scroll_pos nl \<le> num_total w"
  shows "\<exists>out. nicklist_draw env True rows w nl =
    Some (0, nl\<lparr>scroll_pos := shown_pos (rows - 3) (num_total w) (scroll_pos nl)\<rparr>,
      Werase # print_nicks env (rows - 3) 0
        (drop (nat (shown_pos (rows - 3) (num_total w) (scroll_pos nl))) (get_list w True)) @ out)"
proof -
  let ?l = "get_list w True" let ?h = "rows - 3"
  have n: "num_total w = int (length ?l)" using names_ok_total [OF assms(1)] .
  then have m: "num_total w mod 2 ^ 32 = int (length ?l)" using assms(2) by simp
  show ?thesis
  proof (cases "num_total w > ?h")
    case False
    then show ?thesis
      using assms n m by (simp add: nicklist_draw_def Let_def list_fits_yes_def shown_pos_def)
  next
    case True
    have "list_fits_no env ?h ?l nl =
        Some (nl\<lparr>scroll_pos := shown_pos ?h (num_total w) (scroll_pos nl)\<rparr>,
          Werase # print_nicks env ?h 0 (drop (nat (shown_pos ?h (num_total w) (scroll_pos nl))) ?l))"
      using True assms(5,6) n by (auto simp: list_fits_no_def advance_def shown_pos_def Let_def of_nat_diff)
        (simp add: algebra_simps)
    then show ?thesis using True assms n m by (simp add: nicklist_draw_def Let_def)
  qed
qed

text \<open>
  Property C27.  The nick list shows a page of the members: sorted by privilege, then by name
  without case, each member once.  The scroll keys move the page by ten rows and keep it inside
  the list; drawing is undefined exactly when the list does not fit and the new position is
  behind its end, which scrolling down at the end of a list comes to on a screen of less than
  thirteen lines, and never on a larger one.
\<close>

theorem nicklist_pages:
  assumes "names_ok w" "num_total w < 2 ^ 31" "nl_pan nl" "0 < nl_width nl" "\<not> term_is_too_small env"
    and "10 \<le> nl_LINES env" "h = nl_LINES env - 3" "0 \<le> scroll_pos nl" "scroll_pos nl \<le> max 0 (num_total w - h)"
  shows "sorted_wrt (\<lambda>a b. nick_key a \<le> nick_key b) (get_list w True)
    \<and> mset (get_list w True) = mset (map (\<lambda>m. privilege_char m # m_nick m) (all_names w))
    \<and> (\<exists>nl' out. nicklist_scroll_up env True True w nl = Some (nl', Some (Werase # print_nicks env h 0
          (drop (nat (scroll_pos nl')) (get_list w True)) @ out))
        \<and> scroll_pos nl' = max 0 (min (scroll_pos nl - 10) (num_total w - h)))
    \<and> (nicklist_scroll_down env True True w nl = None \<longleftrightarrow> num_total w > h \<and> scroll_pos nl + 10 > num_total w)
    \<and> (nicklist_scroll_down env True True w nl \<noteq> None \<longrightarrow>
        (\<exists>nl' out. nicklist_scroll_down env True True w nl = Some (nl', Some (Werase # print_nicks env h 0
            (drop (nat (scroll_pos nl')) (get_list w True)) @ out))
          \<and> scroll_pos nl' = max 0 (min (scroll_pos nl + 10) (num_total w - h))))
    \<and> (nl_LINES env \<ge> 13 \<longrightarrow> nicklist_scroll_down env True True w nl \<noteq> None)"
proof -
  have srt: "sorted (map nick_key (get_list w True))" unfolding get_list_sorted by simp
  have perm: "mset (get_list w True) = mset (map (\<lambda>m. privilege_char m # m_nick m) (all_names w))"
    unfolding get_list_sorted by (simp add: get_list_def)
  have sc: "can_scroll env True True nl" using assms by (simp add: can_scroll_def)
  have page: "\<exists>out. nicklist_draw env True (nl_LINES env) w (nl\<lparr>scroll_pos := p\<rparr>) =
      Some (0, nl\<lparr>scroll_pos := shown_pos h (num_total w) p\<rparr>, Werase # print_nicks env h 0
        (drop (nat (shown_pos h (num_total w) p)) (get_list w True)) @ out)"
    if "p \<le> num_total w \<or> num_total w \<le> h" for p
  proof (cases "p \<le> num_total w")
    case True
    then show ?thesis
      using draw_page [OF assms(1,2), of "nl\<lparr>scroll_pos := p\<rparr>" env "nl_LINES env"] assms(3,5-7) by simp
  next
    case False
    then have f: "num_total w \<le> h" using that by simp
    have n: "num_total w = int (length (get_list w True))" using names_ok_total [OF assms(1)] .
    then have "num_total w mod 2 ^ 32 = int (length (get_list w True))" using assms(2) by simp
    then show ?thesis using f assms n by (simp add: nicklist_draw_def Let_def list_fits_yes_def shown_pos_def)
  qed
  have bad: "nicklist_draw env True (nl_LINES env) w (nl\<lparr>scroll_pos := p\<rparr>) = None"
    if "p > num_total w" "num_total w > h" for p
  proof -
    have n: "num_total w = int (length (get_list w True))" using names_ok_total [OF assms(1)] .
    then have m: "num_total w mod 2 ^ 32 = int (length (get_list w True))" using assms(2) by simp
    have "list_fits_no env h (get_list w True) (nl\<lparr>scroll_pos := p\<rparr>) = None"
      using that n by (simp add: list_fits_no_def advance_def)
    then show ?thesis using that assms n m by (simp add: nicklist_draw_def Let_def)
  qed
  have up: "\<exists>nl' out. nicklist_scroll_up env True True w nl = Some (nl', Some (Werase # print_nicks env h 0
          (drop (nat (scroll_pos nl')) (get_list w True)) @ out))
        \<and> scroll_pos nl' = max 0 (min (scroll_pos nl - 10) (num_total w - h))"
  proof -
    have "scroll_pos nl - 10 \<le> num_total w \<or> num_total w \<le> h" using assms(6,7,9) by (simp add: max_def split: if_splits)
    from page [OF this] show ?thesis using sc
      by (auto simp: nicklist_scroll_up_def nicklist_scroll_def g_nicklist_scroll_amount_def shown_pos_def
          intro!: exI [of _ "nl\<lparr>scroll_pos := max 0 (min (scroll_pos nl - 10) (num_total w - h))\<rparr>"])
  qed
  have down: "nicklist_scroll_down env True True w nl = None" if "num_total w > h \<and> scroll_pos nl + 10 > num_total w"
    using bad [of "scroll_pos nl + 10"] that sc
    by (simp add: nicklist_scroll_down_def nicklist_scroll_def g_nicklist_scroll_amount_def)
  have down2: "\<exists>nl' out. nicklist_scroll_down env True True w nl = Some (nl', Some (Werase # print_nicks env h 0
            (drop (nat (scroll_pos nl')) (get_list w True)) @ out))
          \<and> scroll_pos nl' = max 0 (min (scroll_pos nl + 10) (num_total w - h))"
    if "\<not> (num_total w > h \<and> scroll_pos nl + 10 > num_total w)"
  proof -
    have "scroll_pos nl + 10 \<le> num_total w \<or> num_total w \<le> h" using that by linarith
    from page [OF this] show ?thesis using sc
      by (auto simp: nicklist_scroll_down_def nicklist_scroll_def g_nicklist_scroll_amount_def shown_pos_def
          intro!: exI [of _ "nl\<lparr>scroll_pos := max 0 (min (scroll_pos nl + 10) (num_total w - h))\<rparr>"])
  qed
  have large: "nicklist_scroll_down env True True w nl \<noteq> None" if "nl_LINES env \<ge> 13"
  proof -
    have "\<not> (num_total w > h \<and> scroll_pos nl + 10 > num_total w)"
      using that assms(7,9) by (simp add: max_def split: if_splits)
    from down2 [OF this] show ?thesis by auto
  qed
  have iff: "nicklist_scroll_down env True True w nl = None \<longleftrightarrow> num_total w > h \<and> scroll_pos nl + 10 > num_total w"
    using down down2 by fastforce
  have "sorted_wrt (\<lambda>a b. nick_key a \<le> nick_key b) (get_list w True)" using srt by (simp add: sorted_wrt_map)
  then show ?thesis using perm up iff down2 large by (intro conjI impI) simp_all
qed

definition example_nl_env :: nicklist_env where
  "example_nl_env = \<lparr>nl_LINES = 10, term_is_too_small = False, nl_theme = theme_init, nl_my_nickname = None\<rparr>"

definition example_channel :: chan_names where
  "example_channel = channel_of (map (\<lambda>c. with_privs [c] (if c = CHR ''c'' then ''@'' else [])) ''hgfedcba'')"

lemma example_channel_ok: "names_ok example_channel" "num_total example_channel = 8"
proof -
  have "distinct (map fold_case (map (\<lambda>c. [c]) ''hgfedcba''))" "\<forall>n\<in>set (map (\<lambda>c. [c]) ''hgfedcba''). nick_ok n"
    by code_simp+
  then show "names_ok example_channel" "num_total example_channel = 8"
    using channel_of_ok [of "map (\<lambda>c. with_privs [c] (if c = CHR ''c'' then ''@'' else [])) ''hgfedcba''"]
    by (simp_all add: example_channel_def)
qed

theorem nicklist_pages_witness:
  "nicklist_scroll_down example_nl_env True True example_channel \<lparr>nl_pan = True, scroll_pos = 1, nl_width = 3\<rparr> = None
   \<and> (\<exists>nl' out. nicklist_scroll_up example_nl_env True True example_channel
       \<lparr>nl_pan = True, scroll_pos = 1, nl_width = 3\<rparr> = Some (nl', out) \<and> scroll_pos nl' = 0)"
  using nicklist_pages [of example_channel "\<lparr>nl_pan = True, scroll_pos = 1, nl_width = 3\<rparr>" example_nl_env 7]
    example_channel_ok by (auto simp: example_nl_env_def)

end
