(* ===== verification/Events.thy ===== *)
theory Events
  imports Theme
begin

text \<open>
  What the event handlers share: the kinds of messages of \<^verbatim>\<open>src/src/printtext.h\<close>, the strings
  of the theme that \<^verbatim>\<open>src/src/theme.h\<close> names, and the decimal numbers of \<^verbatim>\<open>printf\<close>.
\<close>

datatype message_specifier_type =
    TYPE_SPEC1 | TYPE_SPEC2 | TYPE_SPEC3 | TYPE_SPEC1_SPEC2 | TYPE_SPEC1_FAILURE | TYPE_SPEC1_SUCCESS
  | TYPE_SPEC1_WARN | TYPE_SPEC_NONE

definition COLOR1 :: "theme \<Rightarrow> string" where "COLOR1 t = Theme t (Some ''primary_color'')"
definition COLOR2 :: "theme \<Rightarrow> string" where "COLOR2 t = Theme t (Some ''secondary_color'')"
definition COLOR3 :: "theme \<Rightarrow> string" where "COLOR3 t = Theme t (Some ''color3'')"
definition COLOR4 :: "theme \<Rightarrow> string" where "COLOR4 t = Theme t (Some ''color4'')"
definition LEFT_BRKT :: "theme \<Rightarrow> string" where "LEFT_BRKT t = Theme t (Some ''left_bracket'')"
definition RIGHT_BRKT :: "theme \<Rightarrow> string" where "RIGHT_BRKT t = Theme t (Some ''right_bracket'')"
definition THE_SPEC1 :: "theme \<Rightarrow> string" where "THE_SPEC1 t = Theme t (Some ''specifier1'')"
definition THE_SPEC2 :: "theme \<Rightarrow> string" where "THE_SPEC2 t = Theme t (Some ''specifier2'')"
definition THE_SPEC3 :: "theme \<Rightarrow> string" where "THE_SPEC3 t = Theme t (Some ''specifier3'')"

text \<open>The characters of \<^verbatim>\<open>printtext.h\<close> that the messages contain.\<close>

definition ch_bold :: string where "ch_bold = [CHR 0x02]"
definition ch_normal :: string where "ch_normal = [CHR 0x0F]"

definition in_brackets :: "theme \<Rightarrow> string \<Rightarrow> string" where
  "in_brackets t s = LEFT_BRKT t @ s @ RIGHT_BRKT t"

text \<open>\<^verbatim>\<open>%d\<close> and \<^verbatim>\<open>%ju\<close>.\<close>

fun dec_nat :: "nat \<Rightarrow> string" where
  "dec_nat n = (if n < 10 then [char_of (48 + n)] else dec_nat (n div 10) @ [char_of (48 + n mod 10)])"

declare dec_nat.simps [simp del]

definition dec :: "int \<Rightarrow> string" where
  "dec i = (if i < 0 then CHR ''-'' # dec_nat (nat (- i)) else dec_nat (nat i))"

end
