(* ===== verification/Netsplit.thy ===== *)
theory Netsplit
  imports Events
begin

text \<open>
  Netsplits: \<^verbatim>\<open>src/src/netsplit.cpp\<close> and \<^verbatim>\<open>src/src/netsplit.h\<close>.

  The database is the list of the splits, in the order of the vector; a pointer to a split is its
  position.  \<^verbatim>\<open>time(nullptr)\<close> is an argument.  Announcing gives the label of the channel, the
  kind of the message and its text; \<^verbatim>\<open>printtext\<close> itself is another component.
\<close>

section \<open>Data\<close>

record netsplit_context =
  ns_chan :: string
  serv1 :: string
  serv2 :: string

record netsplit =
  ns_channel :: string
  server0 :: string
  server1 :: string
  nicks :: "string list"
  rem_nicks :: "string list"
  announced :: bool
  split_secs :: int
  join_secs :: int

definition g_time_error :: int where "g_time_error = -1"

definition netsplit_new :: "netsplit_context \<Rightarrow> string \<Rightarrow> int \<Rightarrow> netsplit" where
  "netsplit_new ctx nick now = \<lparr>ns_channel = ns_chan ctx, server0 = serv1 ctx, server1 = serv2 ctx,
     nicks = [nick], rem_nicks = [], announced = False, split_secs = now, join_secs = g_time_error\<rparr>"

definition join_begun :: "netsplit \<Rightarrow> bool" where
  "join_begun s \<longleftrightarrow> join_secs s \<noteq> g_time_error"

type_synonym announcement = "string option \<times> message_specifier_type \<times> string"

definition announce_netjoin :: "theme \<Rightarrow> netsplit \<Rightarrow> announcement" where
  "announce_netjoin t s =
     (Some (ns_channel s), TYPE_SPEC1_SUCCESS,
      COLOR3 t @ ''NetJoin'' @ ch_normal @ '' '' @ in_brackets t (ns_channel s) @ '' '' @
      server0 s @ '' '' @ THE_SPEC2 t @ '' '' @ server1 s @ '' '' @
      in_brackets t (dec_nat (length (rem_nicks s)) @ '' users returned out of '' @
        dec_nat (length (nicks s) + length (rem_nicks s))))"

definition announce_split :: "theme \<Rightarrow> netsplit \<Rightarrow> announcement \<times> netsplit" where
  "announce_split t s =
     ((Some (ns_channel s), TYPE_SPEC1_WARN,
       COLOR3 t @ ''NetSplit'' @ ch_normal @ '' '' @ in_brackets t (ns_channel s) @ '' '' @
       server0 s @ '' '' @ THE_SPEC2 t @ '' '' @ server1 s @ '' '' @
       in_brackets t (dec_nat (length (nicks s)) @ '' nicks'')),
      s\<lparr>announced := True\<rparr>)"

definition find_nick :: "netsplit \<Rightarrow> string \<Rightarrow> bool" where
  "find_nick s nick = (find (\<lambda>n. strings_match_ignore_case n nick) (nicks s) \<noteq> None)"

fun remove_nick_loop :: "string list \<Rightarrow> string \<Rightarrow> string list \<times> string list \<times> nat" where
  "remove_nick_loop [] nick = ([], [], 0)"
| "remove_nick_loop (n # ns) nick =
     (let (kept, removed, cnt) = remove_nick_loop ns nick
      in if strings_match_ignore_case n nick then (kept, n # removed, cnt + 1) else (n # kept, removed, cnt))"

definition remove_nick :: "netsplit \<Rightarrow> string \<Rightarrow> bool \<times> netsplit" where
  "remove_nick s nick =
     (let (kept, removed, cnt) = remove_nick_loop (nicks s) nick
      in (cnt > 0, s\<lparr>nicks := kept, rem_nicks := rem_nicks s @ removed\<rparr>))"

section \<open>The database\<close>

type_synonym netsplit_db = "netsplit list"

definition netsplit_create :: "netsplit_context \<Rightarrow> string \<Rightarrow> int \<Rightarrow> netsplit_db \<Rightarrow> netsplit_db" where
  "netsplit_create ctx nick now db = db @ [netsplit_new ctx nick now]"

definition netsplit_db_empty :: "netsplit_db \<Rightarrow> bool" where
  "netsplit_db_empty db \<longleftrightarrow> db = []"

definition netsplit_destroy_all :: "netsplit_db \<Rightarrow> netsplit_db" where
  "netsplit_destroy_all db = []"

fun position :: "('a \<Rightarrow> bool) \<Rightarrow> 'a list \<Rightarrow> nat option" where
  "position P [] = None"
| "position P (x # xs) = (if P x then Some 0 else map_option Suc (position P xs))"

definition netsplit_find :: "string \<Rightarrow> string \<Rightarrow> netsplit_db \<Rightarrow> nat option" where
  "netsplit_find nick channel db =
     position (\<lambda>s. strings_match_ignore_case (ns_channel s) channel \<and> find_nick s nick) db"

definition netsplit_get_split :: "netsplit_context \<Rightarrow> netsplit_db \<Rightarrow> nat option" where
  "netsplit_get_split ctx db =
     position (\<lambda>s. strings_match_ignore_case (ns_channel s) (ns_chan ctx)
       \<and> strings_match_ignore_case (server0 s) (serv1 ctx)
       \<and> strings_match_ignore_case (server1 s) (serv2 ctx)) db"

definition get_removal_msg :: "theme \<Rightarrow> netsplit_context \<Rightarrow> int \<Rightarrow> int \<Rightarrow> string" where
  "get_removal_msg t ctx keep elapsed =
     in_brackets t (ns_chan ctx) @ '': '' @ serv1 ctx @ '' '' @ THE_SPEC2 t @ '' '' @ serv2 ctx @
     '' - removing old netsplit from memory, after '' @ dec keep @ '' seconds (elapsed '' @ dec elapsed @ '') ...''"

section \<open>The background task\<close>

definition keep_split_secs :: int where "keep_split_secs = 900"
definition secs_split_stop :: int where "secs_split_stop = 5"

text \<open>
  One round: what is announced, the split if it stays in the database, and the kind of message
  that the context has from then on.  Without a label the message goes to the status window.
\<close>

definition bkgd_step ::
    "theme \<Rightarrow> int \<Rightarrow> message_specifier_type \<Rightarrow> netsplit \<Rightarrow> announcement list \<times> netsplit option \<times> message_specifier_type" where
  "bkgd_step t now spec s =
     (if \<not> join_begun s then
        if split_secs s > now
        then ([(None, spec, ''netsplit_run_bkgd_task: '' @ ns_channel s @ '': unexpected split time (too large)'')], None, spec)
        else let diff = now - split_secs s in
          if diff > keep_split_secs
          then ([(None, TYPE_SPEC1_WARN,
                  get_removal_msg t \<lparr>ns_chan = ns_channel s, serv1 = server0 s, serv2 = server1 s\<rparr> keep_split_secs diff)],
                None, TYPE_SPEC1_WARN)
          else if diff \<ge> secs_split_stop \<and> \<not> announced s
          then (let (a, s') = announce_split t s in ([a], Some s', spec))
          else ([], Some s, spec)
      else
        if join_secs s > now
        then ([(None, spec, ''netsplit_run_bkgd_task: '' @ ns_channel s @ '': unexpected join time (too large)'')], None, spec)
        else let diff = now - join_secs s in
          if diff \<ge> secs_split_stop then ([announce_netjoin t s], None, spec) else ([], Some s, spec))"

fun bkgd_loop :: "theme \<Rightarrow> int \<Rightarrow> message_specifier_type \<Rightarrow> netsplit_db \<Rightarrow> announcement list \<times> netsplit_db" where
  "bkgd_loop t now spec [] = ([], [])"
| "bkgd_loop t now spec (s # db) =
     (let (out, kept, spec) = bkgd_step t now spec s; (outs, db') = bkgd_loop t now spec db
      in (out @ outs, (case kept of None \<Rightarrow> db' | Some s' \<Rightarrow> s' # db')))"

definition netsplit_run_bkgd_task :: "theme \<Rightarrow> int \<Rightarrow> netsplit_db \<Rightarrow> announcement list \<times> netsplit_db" where
  "netsplit_run_bkgd_task t now db =
     (if netsplit_db_empty db then ([], db) else bkgd_loop t now TYPE_SPEC1_FAILURE db)"

section \<open>Lemmas\<close>

lemma remove_nick_loop_eq:
  "remove_nick_loop ns nick =
     (filter (\<lambda>n. \<not> strings_match_ignore_case n nick) ns, filter (\<lambda>n. strings_match_ignore_case n nick) ns,
      length (filter (\<lambda>n. strings_match_ignore_case n nick) ns))"
  by (induction ns) auto

lemma remove_nick_eq:
  "remove_nick s nick =
     (find_nick s nick,
      s\<lparr>nicks := filter (\<lambda>n. \<not> strings_match_ignore_case n nick) (nicks s),
        rem_nicks := rem_nicks s @ filter (\<lambda>n. strings_match_ignore_case n nick) (nicks s)\<rparr>)"
proof -
  have "length (filter (\<lambda>n. strings_match_ignore_case n nick) ns) > 0 \<longleftrightarrow>
      find (\<lambda>n. strings_match_ignore_case n nick) ns \<noteq> None" for ns
    by (induction ns) auto
  then show ?thesis by (simp add: remove_nick_def remove_nick_loop_eq find_nick_def)
qed

lemma position_Some_iff:
  "position P xs = Some i \<longleftrightarrow> i < length xs \<and> P (xs ! i) \<and> (\<forall>j<i. \<not> P (xs ! j))"
proof (induction xs arbitrary: i)
  case (Cons x xs)
  then show ?case by (cases i) (auto simp: nth_Cons' less_Suc_eq_0_disj)
qed simp

text \<open>Nobody who left in a split is forgotten while the split is kept.\<close>

lemma remove_nick_conserves:
  "length (nicks (snd (remove_nick s nick))) + length (rem_nicks (snd (remove_nick s nick))) =
   length (nicks s) + length (rem_nicks s)"
  using sum_length_filter_compl [of "\<lambda>n. strings_match_ignore_case n nick" "nicks s"]
  by (simp add: remove_nick_eq)

end
