(* ===== verification/Names.thy ===== *)
theory Names
  imports Netsplit Window Irc Config
begin

text \<open>
  The names of the channels: \<^verbatim>\<open>src/src/events/names.cpp\<close> and
  \<^verbatim>\<open>src/src/events/names-htbl-modify.cpp\<close>, on the windows of the window system.

  The state is that of the window system, of the IRC core, the name of the channel whose names are
  being received and the database of netsplits.  A handler returns the new state and what it did in
  that order: messages, lines sent, updates of the nick list.  The nick list itself is the theory
  \<^verbatim>\<open>Nicklist\<close>.  An exception of the code is a branch of the definition.
\<close>

section \<open>State, environment, actions\<close>

record ev_state =
  wins :: win_state
  irc :: irc_globals
  names_channel :: string
  netsplits :: netsplit_db

record ev_env =
  ev_win :: win_env
  ev_theme :: theme
  ev_config :: config
  ev_now :: int
  net_ok :: bool
  local_time :: "int \<Rightarrow> string option"

datatype ev_action =
    Print "nat option" message_specifier_type string
  | Net_send string
  | Log string
  | Nicklist_update nat
  | Nicklist_draw nat
  | Nicklist_new nat
  | Net_kill_connection
  | Whois string

type_synonym ev_result = "ev_state \<times> ev_action list"

definition g_forbidden_chan_name_chars :: string where
  "g_forbidden_chan_name_chars = [CHR '' '', CHR 0x07, CHR '','']"

definition win :: "ev_state \<Rightarrow> string \<Rightarrow> irc_window option" where
  "win st lbl = window_by_label (wins st) (Some lbl)"

definition active :: "ev_state \<Rightarrow> nat option" where "active st = g_active_window (wins st)"
definition status :: "ev_state \<Rightarrow> nat option" where "status st = g_status_window (wins st)"

definition upd_win :: "nat \<Rightarrow> (irc_window \<Rightarrow> irc_window) \<Rightarrow> ev_state \<Rightarrow> ev_state" where
  "upd_win p f st = st\<lparr>wins := upd_window p f (wins st)\<rparr>"

definition set_win_names :: "nat \<Rightarrow> chan_names \<Rightarrow> ev_state \<Rightarrow> ev_state" where
  "set_win_names p ns st = upd_win p (\<lambda>w. w\<lparr>w_names := ns\<rparr>) st"

text \<open>The next token of \<^verbatim>\<open>strtok_r(NULL, seps, &state)\<close>.\<close>

definition tok :: "string \<Rightarrow> string \<Rightarrow> string option \<times> string" where
  "tok seps s = (case strtok_r seps s of None \<Rightarrow> (None, []) | Some (t, rest) \<Rightarrow> (Some t, rest))"

definition nl_sep :: string where "nl_sep = [CHR 0x0A]"
definition user_seps :: string where "user_seps = ''!@''"

definition params_of :: "irc_message_compo \<Rightarrow> string" where
  "params_of compo = (case params compo of None \<Rightarrow> [] | Some p \<Rightarrow> p)"

definition skip_colon :: "string \<Rightarrow> string" where
  "skip_colon s = (if s \<noteq> [] \<and> hd s = CHR '':'' then tl s else s)"

definition valid_channel :: "string \<Rightarrow> bool" where
  "valid_channel channel \<longleftrightarrow> is_irc_channel (Some channel) \<and> strpbrk (tl channel) g_forbidden_chan_name_chars = None"

section \<open>The table of a channel\<close>

definition hInstall :: "string \<Rightarrow> names \<Rightarrow> ev_state \<Rightarrow> bool \<times> ev_state" where
  "hInstall channel m st =
     (case win st channel of
        None \<Rightarrow> (False, st)
      | Some w \<Rightarrow>
          if strings_match (m_nick m) [] \<or> \<not> name_len_ok (m_nick m) \<or> \<not> name_chars_ok (m_nick m)
             \<or> already_is_in_names_hash (m_nick m) (w_names w)
          then (False, st)
          else (True, set_win_names (w_ptr w) (link_names m (w_names w)) st))"

definition output_statistics ::
    "theme \<Rightarrow> nat option \<Rightarrow> string \<Rightarrow> irc_window \<Rightarrow> ev_action list" where
  "output_statistics t to_win channel w =
     (let ns = w_names w; bold = (\<lambda>i. ch_bold @ dec i @ ch_bold) in
      Print to_win TYPE_SPEC1 (LEFT_BRKT t @ COLOR1 t @ channel @ ch_normal @ RIGHT_BRKT t @ '': Total of '' @
        bold (num_total ns) @ '' nicks '' @ LEFT_BRKT t @ bold (num_ops ns) @ '' ops, '' @
        bold (num_halfops ns) @ '' halfops, '' @ bold (num_voices ns) @ '' voices, '' @
        bold (num_normal ns) @ '' normal'' @ RIGHT_BRKT t) #
      (if num_owners ns \<noteq> 0
       then [Print to_win TYPE_SPEC1 (''-- Additionally: '' @ bold (num_owners ns) @ '' channel owner'' @
               (if num_owners ns > 1 then ''s'' else []))] else []) @
      (if num_superops ns \<noteq> 0
       then [Print to_win TYPE_SPEC1 (''-- Additionally: '' @ bold (num_superops ns) @ '' superop'' @
               (if num_superops ns > 1 then ''s'' else []))] else []))"

definition active_label :: "ev_state \<Rightarrow> string" where
  "active_label st =
     (case active st of None \<Rightarrow> [] | Some p \<Rightarrow> (case window_at (wins st) p of None \<Rightarrow> [] | Some w \<Rightarrow> label w))"

definition cmd_stats :: "ev_env \<Rightarrow> string \<Rightarrow> ev_state \<Rightarrow> ev_action list" where
  "cmd_stats env data st =
     (let err = (\<lambda>msg. [Print (active st) TYPE_SPEC1_FAILURE (''/stats: '' @ msg)]) in
      if strings_match data [] then
        (let l = active_label st in
         if \<not> is_irc_channel (Some l) then err ''not an irc channel''
         else (case win st l of None \<Rightarrow> err ''no such channel''
               | Some w \<Rightarrow> output_statistics (ev_theme env) (Some (w_ptr w)) l w))
      else if \<not> is_irc_channel (Some data) then err ''bogus irc channel''
      else (case win st data of None \<Rightarrow> err ''no such channel''
            | Some w \<Rightarrow> output_statistics (ev_theme env) (active st) data w))"

definition get_list_of_matching_channel_users :: "string \<Rightarrow> string \<Rightarrow> ev_state \<Rightarrow> string list option" where
  "get_list_of_matching_channel_users chan search_var st =
     (case win st chan of None \<Rightarrow> None
      | Some w \<Rightarrow> (let matches = matching_names (w_names w) search_var
                  in if matches = [] then None else Some matches))"

definition event_names_init :: "ev_state \<Rightarrow> ev_state" where
  "event_names_init st = st\<lparr>names_channel := []\<rparr>"

definition event_names_deinit :: "ev_state \<Rightarrow> ev_state" where
  "event_names_deinit st = st\<lparr>wins := window_foreach_destroy_names (wins st)\<rparr>"

definition event_names_htbl_lookup :: "string \<Rightarrow> string \<Rightarrow> ev_state \<Rightarrow> names option" where
  "event_names_htbl_lookup nick channel st =
     (if strings_match nick [] then None
      else case win st channel of None \<Rightarrow> None | Some w \<Rightarrow> names_lookup (w_names w) nick)"

definition event_names_htbl_insert :: "string \<Rightarrow> string \<Rightarrow> ev_state \<Rightarrow> bool \<times> ev_result" where
  "event_names_htbl_insert nick channel st =
     (if strings_match nick [] then (False, st, [])
      else case hInstall channel (with_privs nick []) st of
        (False, st) \<Rightarrow> (False, st, [])
      | (True, st) \<Rightarrow>
          (True, st, case win st channel of None \<Rightarrow> [] | Some w \<Rightarrow> [Nicklist_update (w_ptr w)]))"

definition event_names_htbl_remove :: "string \<Rightarrow> string \<Rightarrow> ev_state \<Rightarrow> bool \<times> ev_result" where
  "event_names_htbl_remove nick channel st =
     (if strings_match nick [] then (False, st, [])
      else case win st channel of None \<Rightarrow> (False, st, [])
      | Some w \<Rightarrow>
          (case names_lookup (w_names w) nick of None \<Rightarrow> (False, st, [])
           | Some m \<Rightarrow> (True, set_win_names (w_ptr w) (Names_Table.hUndef (w_names w) m) st,
               [Nicklist_update (w_ptr w)])))"

section \<open>Receiving the names of a channel\<close>

definition fatal :: "string \<Rightarrow> string \<Rightarrow> ev_state \<Rightarrow> ev_action" where
  "fatal who e st = Print (active st) TYPE_SPEC1_FAILURE (who @ '': fatal: '' @ e)"

definition shutdown_conn :: "ev_state \<Rightarrow> ev_action list" where
  "shutdown_conn st =
     [Print (active st) TYPE_SPEC1_FAILURE ''must shutdown irc connection immediately...'', Net_kill_connection]"

definition two_channels :: string where
  "two_channels = ''unable to parse names of two (or more) channels simultaneously''"

definition eof_names_catch :: "string \<Rightarrow> ev_state \<Rightarrow> ev_result" where
  "eof_names_catch e st =
     (st, fatal ''event_eof_names'' e st #
       (if strstr e ''parse names of two (or more)'' \<noteq> None \<or> strings_match e ''window lookup error''
        then shutdown_conn st else []))"

definition event_eof_names :: "ev_env \<Rightarrow> irc_message_compo \<Rightarrow> ev_state \<Rightarrow> ev_result" where
  "event_eof_names env compo st =
     (let (fed, ps) = strFeed (params_of compo) 2 in
      if fed \<noteq> 2 then eof_names_catch ''strFeed'' st
      else
        let (_, state) = tok nl_sep ps;
            (channel, state) = tok nl_sep state;
            (eof_msg, _) = tok nl_sep state
        in case channel of
             None \<Rightarrow> eof_names_catch ''null channel'' st
           | Some chan \<Rightarrow>
               if \<not> valid_channel chan then eof_names_catch ''invalid channel'' st
               else if eof_msg = None then eof_names_catch ''null message'' st
               else if \<not> strings_match_ignore_case chan (names_channel st) then eof_names_catch two_channels st
               else let st = st\<lparr>names_channel := []\<rparr> in
                 (case win st chan of
                    None \<Rightarrow> eof_names_catch ''window lookup error'' st
                  | Some w \<Rightarrow>
                      if received_names w then (st, [Log ''already received names''])
                      else let st = upd_win (w_ptr w) (\<lambda>w. w\<lparr>received_names := True\<rparr>) st in
                        (st, [Nicklist_new (w_ptr w)] @
                          (if \<not> g_icb_mode (ev_win env) then [Net_send (''MODE '' @ chan)] else []) @
                          output_statistics (ev_theme env) (Some (w_ptr w)) chan w)))"

text \<open>One token of the list of names: the privileges in front of the name are taken off it.\<close>

definition priv_chars :: string where "priv_chars = ''~&@%+''"

definition install_token :: "string \<Rightarrow> string \<Rightarrow> ev_state \<Rightarrow> ev_state" where
  "install_token channel token st =
     (let privs = takeWhile (\<lambda>c. c \<in> set priv_chars) token; ret = length privs in
      if ret \<ge> 6 then st
      else snd (hInstall channel (with_privs (drop ret token) privs) st))"

definition names_catch :: "string \<Rightarrow> ev_state \<Rightarrow> ev_result" where
  "names_catch e st =
     (st, fatal ''event_names'' e st #
       (if strstr e ''store names channel'' \<noteq> None \<or> strstr e ''parse names of two (or more)'' \<noteq> None
        then shutdown_conn st else []))"

definition event_names :: "irc_message_compo \<Rightarrow> ev_state \<Rightarrow> ev_result" where
  "event_names compo st =
     (let (fed, ps) = strFeed (params_of compo) 3 in
      if fed \<noteq> 3 then names_catch ''strFeed'' st
      else
        let (_, state) = tok nl_sep ps;
            (chan_type, state) = tok nl_sep state;
            (channel, state) = tok nl_sep state;
            (nms, _) = tok nl_sep state
        in if chan_type = None then names_catch ''no channel type'' st
           else case channel of
             None \<Rightarrow> names_catch ''no channel'' st
           | Some chan \<Rightarrow>
               if \<not> valid_channel chan then names_catch ''invalid channel'' st
               else case nms of
                 None \<Rightarrow> names_catch ''no names'' st
               | Some ns \<Rightarrow>
                   if strings_match (names_channel st) [] \<and> length chan \<ge> 1000
                   then names_catch ''unable to store names channel'' st
                   else let st = (if strings_match (names_channel st) [] then st\<lparr>names_channel := chan\<rparr> else st) in
                     if \<not> strings_match_ignore_case (names_channel st) chan then names_catch two_channels st
                     else (case win st chan of
                         None \<Rightarrow> names_catch ''window lookup error'' st
                       | Some w \<Rightarrow>
                           if received_names w then (st, [Log ''already received names''])
                           else (fold (install_token chan) (strtoks '' '' (skip_colon ns)) st, [])))"

section \<open>Changing the privileges of a member\<close>

text \<open>
  What the five functions share; \<open>quiet\<close> says for which entries they return without drawing the
  nick list.
\<close>

definition htbl_modify ::
    "(string \<Rightarrow> bool \<Rightarrow> chan_names \<Rightarrow> chan_names option) \<Rightarrow> (names \<Rightarrow> bool) \<Rightarrow>
     ev_env \<Rightarrow> string \<Rightarrow> string \<Rightarrow> bool \<Rightarrow> ev_state \<Rightarrow> bool \<times> ev_result" where
  "htbl_modify modify quiet env nick channel flag st =
     (if strings_match nick [] then (False, st, [])
      else case win st channel of
        None \<Rightarrow> (False, st, [])
      | Some w \<Rightarrow>
          if \<not> received_names w \<and> \<not> g_icb_mode (ev_win env) then (False, st, [])
          else (case (names_lookup (w_names w) nick, modify nick flag (w_names w)) of
             (Some m, Some ns) \<Rightarrow>
               (True, set_win_names (w_ptr w) ns st, if quiet m then [] else [Nicklist_draw (w_ptr w)])
           | _ \<Rightarrow> (False, st, [])))"

definition names_htbl_modify_owner where
  "names_htbl_modify_owner env nick channel flag =
     htbl_modify modify_owner (\<lambda>m. is_owner m \<and> flag) env nick channel flag"

definition names_htbl_modify_superop where
  "names_htbl_modify_superop env nick channel flag =
     htbl_modify modify_superop (\<lambda>m. is_superop m \<and> flag \<or> is_owner m) env nick channel flag"

definition names_htbl_modify_op where
  "names_htbl_modify_op env nick channel flag =
     htbl_modify modify_op (\<lambda>m. is_op m \<and> flag \<or> is_owner m \<or> is_superop m) env nick channel flag"

definition names_htbl_modify_halfop where
  "names_htbl_modify_halfop env nick channel flag =
     htbl_modify modify_halfop (\<lambda>m. is_halfop m \<and> flag \<or> is_owner m \<or> is_superop m \<or> is_op m) env nick channel flag"

definition names_htbl_modify_voice where
  "names_htbl_modify_voice env nick channel flag =
     htbl_modify modify_voice (\<lambda>m. is_voice m \<and> flag \<or> is_owner m \<or> is_superop m \<or> is_op m \<or> is_halfop m)
       env nick channel flag"

section \<open>The invariant\<close>

definition members_ok :: "ev_state \<Rightarrow> bool" where
  "members_ok st \<longleftrightarrow> windows_ok (wins st) \<and> (\<forall>w\<in>set (windows (wins st)). names_ok (w_names w))"

lemma win_in_windows:
  assumes "windows_ok (wins st)" "win st lbl = Some w"
  shows "w \<in> set (windows (wins st))" "strings_match_ignore_case lbl (label w)" "lbl \<noteq> []"
proof -
  show l: "lbl \<noteq> []" using assms(2) by (auto simp: win_def window_by_label_def)
  have "Window.table_ok (win_state.hash_table (wins st)) (next_ptr (wins st))"
    using assms(1) by (simp add: windows_ok_def registry_ok_def)
  from window_by_label_iff [OF this l] show "w \<in> set (windows (wins st))" "strings_match_ignore_case lbl (label w)"
    using assms(2) by (auto simp: win_def)
qed

lemma win_members: "\<lbrakk>members_ok st; win st lbl = Some w\<rbrakk> \<Longrightarrow> names_ok (w_names w)"
  using win_in_windows by (auto simp: members_ok_def)

lemma win_spelling:
  "strings_match_ignore_case a b \<Longrightarrow> win st a = win st b"
proof -
  assume ab: "strings_match_ignore_case a b"
  then have f: "fold_case a = fold_case b" by (simp add: smic_fold)
  then have "length a = length b" by (metis fold_case_def length_map)
  then have *: "Window.hash a = Window.hash b" "a = [] \<longleftrightarrow> b = []" "fold_case a = fold_case b"
    using Window.hash_case [OF ab] f by auto
  show ?thesis
    by (simp only: win_def window_by_label_def option.case strings_match_iff smic_fold *)
qed

lemma win_upd:
  assumes "windows_ok (wins st)" "\<And>w. label (f w) = label w"
  shows "win (upd_win p f st) lbl = map_option (\<lambda>w. if w_ptr w = p then f w else w) (win st lbl)"
proof -
  have l: "length (win_state.hash_table (wins st)) = HASH_SIZE"
    using assms(1) by (simp add: windows_ok_def registry_ok_def Window.table_ok_def chains_ok_def)
  have "find P (map (\<lambda>w. if w_ptr w = p then f w else w) ws) = map_option (\<lambda>w. if w_ptr w = p then f w else w) (find P ws)"
    if "\<And>w. P (f w) = P w" for P ws
    using that by (induction ws) auto
  then show ?thesis
    using l hash_less [of lbl] assms(2) by (simp add: win_def upd_win_def upd_window_def window_by_label_def)
qed

lemma upd_win_ok:
  assumes "windows_ok (wins st)" "\<And>w. label (f w) = label w" "\<And>w. w_ptr (f w) = w_ptr w" "\<And>w. refnum (f w) = refnum w"
  shows "windows_ok (wins (upd_win p f st))"
  unfolding upd_win_def upd_window_def by simp (rule update_fields_ok [OF assms(1)], use assms in auto)

lemma upd_win_windows:
  "windows (wins (upd_win p f st)) = map (\<lambda>w. if w_ptr w = p then f w else w) (windows (wins st))"
  by (simp add: upd_win_def upd_window_def windows_def map_concat)

lemma ptr_unique:
  assumes "windows_ok st" "v \<in> set (windows st)" "w \<in> set (windows st)" "w_ptr v = w_ptr w"
  shows "v = w"
  using assms by (auto simp: windows_ok_def registry_ok_def Window.table_ok_def list_ok_def windows_def distinct_map inj_on_def)

text \<open>Replacing the names of one window.\<close>

lemma set_names_win:
  assumes "windows_ok (wins st)" "win st chan = Some w"
  shows "win (set_win_names (w_ptr w) ns st) lbl =
    (if strings_match_ignore_case lbl chan then Some (w\<lparr>w_names := ns\<rparr>) else win st lbl)"
proof -
  have u: "win (set_win_names (w_ptr w) ns st) lbl =
      map_option (\<lambda>v. if w_ptr v = w_ptr w then v\<lparr>w_names := ns\<rparr> else v) (win st lbl)"
    unfolding set_win_names_def by (rule win_upd [OF assms(1)]) simp
  show ?thesis
  proof (cases "strings_match_ignore_case lbl chan")
    case True
    then show ?thesis using u assms(2) win_spelling [OF True, of st] by simp
  next
    case False
    have "w_ptr v \<noteq> w_ptr w" if "win st lbl = Some v" for v
    proof
      assume "w_ptr v = w_ptr w"
      then have "v = w" using ptr_unique [OF assms(1)] win_in_windows(1) [OF assms(1)] that assms(2) by blast
      then show False
        using win_in_windows(2) [OF assms(1)] that assms(2) False by (metis smic_sym smic_trans)
    qed
    then show ?thesis using u False by (cases "win st lbl") auto
  qed
qed

lemma set_names_ok:
  assumes "members_ok st" "names_ok ns"
  shows "members_ok (set_win_names p ns st)"
  using assms upd_win_ok [of st "\<lambda>w. w\<lparr>w_names := ns\<rparr>" p]
  by (auto simp: members_ok_def set_win_names_def upd_win_windows)

text \<open>A window that is opened has no members.\<close>

lemma spawn_members:
  assumes "spawn_chat_window env lbl ttl st = Some (e, st', who)" "length (win_state.hash_table st) = HASH_SIZE"
  shows "\<forall>v\<in>set (windows st'). v \<in> set (windows st) \<or> w_names v = no_names \<and> \<not> received_names v"
proof -
  have upd: "set (concat (t[i := x # t ! i])) \<subseteq> insert x (set (concat t))" if "i < length t" for t i and x :: irc_window
    using that set_update_subset_insert [of t i "x # t ! i"] by (fastforce simp: nth_mem)
  have a: "set (windows (snd (Window.hInstall l ttl n st))) \<subseteq> insert (fst (Window.hInstall l ttl n st)) (set (windows st))" for l n
    using upd [of "Window.hash l" "win_state.hash_table st"] hash_less [of l] assms(2)
    by (simp add: Window.hInstall_def windows_def Let_def)
  have b: "w_names (fst (Window.hInstall l ttl n st)) = no_names" "\<not> received_names (fst (Window.hInstall l ttl n st))" for l n
    by (simp_all add: Window.hInstall_def Let_def)
  have c: "windows (snd (change_window_by_label env' k s)) = windows s" for env' k s
    by (auto simp: change_window_by_label_def change_window_def split: option.splits)
  have "st' = st \<or> (\<exists>l. st' = snd (change_window_by_label env (Some (label (fst (Window.hInstall l ttl (g_ntotal_windows st + 1) st))))
      (snd (Window.hInstall l ttl (g_ntotal_windows st + 1) st))))"
  proof (cases lbl)
    case None
    then show ?thesis using assms(1) by (simp add: spawn_chat_window_def)
  next
    case (Some l)
    let ?h = "Window.hInstall l ttl (g_ntotal_windows st + 1) st"
    let ?c = "change_window_by_label env (Some (label (fst ?h))) (snd ?h)"
    have "st' = st \<or> (fst ?c = OK0 \<and> st' = snd ?c)"
      using assms(1) Some
      by (cases ?h; cases ?c; cases "fst ?c") (simp_all add: spawn_chat_window_def split: if_splits)
    then show ?thesis by blast
  qed
  then show ?thesis
  proof (elim disjE exE)
    fix l
    assume *: "st' = snd (change_window_by_label env (Some (label (fst (Window.hInstall l ttl (g_ntotal_windows st + 1) st))))
      (snd (Window.hInstall l ttl (g_ntotal_windows st + 1) st)))"
    show ?thesis
      unfolding * c using a [of l "g_ntotal_windows st + 1"] b [where l = l and n = "g_ntotal_windows st + 1"] by auto
  qed simp
qed

lemma init_members:
  assumes "windowSystem_init env fresh = Some st"
  shows "\<forall>v\<in>set (windows st). w_names v = no_names \<and> \<not> received_names v"
proof -
  let ?st0 = "\<lparr>win_state.hash_table = empty_table, g_active_window = None, g_status_window = None,
                 g_ntotal_windows = 0, next_ptr = fresh\<rparr>"
  obtain st1 who p where s: "spawn_chat_window env (Some g_status_window_label) (Some []) ?st0 = Some (OK0, st1, who)"
    "st = st1\<lparr>g_status_window := Some p\<rparr>"
    using assms by (auto simp: windowSystem_init_def Let_def split: option.splits errno.splits prod.splits)
  have "windows ?st0 = []" by (simp add: windows_def empty_table_def)
  then show ?thesis
    using spawn_members [OF s(1)] s(2) by (simp add: empty_table_def windows_def)
qed

section \<open>Inserting and removing members\<close>

text \<open>The entry of a member on a channel.\<close>

definition member :: "ev_state \<Rightarrow> string \<Rightarrow> string \<Rightarrow> names option" where
  "member st chan nick = (case win st chan of None \<Rightarrow> None | Some w \<Rightarrow> names_lookup (w_names w) nick)"

lemma htbl_lookup_member: "nick \<noteq> [] \<Longrightarrow> event_names_htbl_lookup nick chan st = member st chan nick"
  by (simp add: event_names_htbl_lookup_def member_def)

lemma set_names_member:
  assumes "windows_ok (wins st)" "win st chan = Some w"
  shows "member (set_win_names (w_ptr w) ns st) c n =
    (if strings_match_ignore_case c chan then names_lookup ns n else member st c n)"
  by (simp add: member_def set_names_win [OF assms])

lemma names_hInstall_ok:
  assumes "members_ok st" "win st chan = Some w"
  shows "fst (hInstall chan m st) \<longleftrightarrow> nick_ok (m_nick m) \<and> member st chan (m_nick m) = None"
    and "fst (hInstall chan m st) \<Longrightarrow> members_ok (snd (hInstall chan m st))
      \<and> (\<forall>c n. member (snd (hInstall chan m st)) c n =
          (if strings_match_ignore_case c chan \<and> strings_match_ignore_case n (m_nick m) then Some m else member st c n))
      \<and> (\<forall>l. win (snd (hInstall chan m st)) l =
          (if strings_match_ignore_case l chan then Some (w\<lparr>w_names := link_names m (w_names w)\<rparr>) else win st l))"
    and "\<not> fst (hInstall chan m st) \<Longrightarrow> snd (hInstall chan m st) = st"
proof -
  have wok: "windows_ok (wins st)" "names_ok (w_names w)"
    using assms win_members by (auto simp: members_ok_def)
  show i: "fst (hInstall chan m st) \<longleftrightarrow> nick_ok (m_nick m) \<and> member st chan (m_nick m) = None"
    using assms(2) by (auto simp: hInstall_def nick_ok_def already_iff member_def)
  show "\<not> fst (hInstall chan m st) \<Longrightarrow> snd (hInstall chan m st) = st"
    using assms(2) by (auto simp: hInstall_def split: if_splits)
  assume ok: "fst (hInstall chan m st)"
  then have s: "snd (hInstall chan m st) = set_win_names (w_ptr w) (link_names m (w_names w)) st"
    using assms(2) by (auto simp: hInstall_def split: if_splits)
  have l: "names_lookup (w_names w) (m_nick m) = None" "nick_ok (m_nick m)"
    using ok i assms(2) by (simp_all add: member_def)
  show "members_ok (snd (hInstall chan m st))
      \<and> (\<forall>c n. member (snd (hInstall chan m st)) c n =
          (if strings_match_ignore_case c chan \<and> strings_match_ignore_case n (m_nick m) then Some m else member st c n))
      \<and> (\<forall>l. win (snd (hInstall chan m st)) l =
          (if strings_match_ignore_case l chan then Some (w\<lparr>w_names := link_names m (w_names w)\<rparr>) else win st l))"
    unfolding s set_names_member [OF wok(1) assms(2)] set_names_win [OF wok(1) assms(2)] link_lookup
    using set_names_ok [OF assms(1) link_ok [OF wok(2) l]] assms(2) win_spelling
    by (auto simp: member_def)
qed

lemma insert_ok:
  assumes "members_ok st" "win st chan = Some w"
    and i: "event_names_htbl_insert nick chan st = (ok, st', acts)"
  shows "ok \<longleftrightarrow> nick_ok nick \<and> member st chan nick = None" "members_ok st'" "\<not> ok \<Longrightarrow> st' = st"
    and "ok \<Longrightarrow> member st' c n =
      (if strings_match_ignore_case c chan \<and> strings_match_ignore_case n nick then Some (with_privs nick []) else member st c n)"
    and "ok \<Longrightarrow> \<exists>ns. win st' l = (if strings_match_ignore_case l chan then Some (w\<lparr>w_names := ns\<rparr>) else win st l)"
proof -
  let ?m = "with_privs nick []"
  note h = names_hInstall_ok [OF assms(1,2), of ?m]
  have "fst (hInstall chan ?m st) \<longrightarrow> nick \<noteq> []" using h(1) by (auto simp: nick_ok_def)
  then have e: "ok = fst (hInstall chan ?m st)" "st' = snd (hInstall chan ?m st)"
    using i h(3) by (cases "hInstall chan ?m st"; auto simp: event_names_htbl_insert_def split: if_splits bool.splits)+
  show "ok \<longleftrightarrow> nick_ok nick \<and> member st chan nick = None" using e(1) h(1) by simp
  show "members_ok st'" using e h(2,3) assms(1) by (cases ok) simp_all
  show "\<not> ok \<Longrightarrow> st' = st" using e h(3) by simp
  show "ok \<Longrightarrow> member st' c n =
      (if strings_match_ignore_case c chan \<and> strings_match_ignore_case n nick then Some ?m else member st c n)"
    using e h(2) by simp
  show "ok \<Longrightarrow> \<exists>ns. win st' l = (if strings_match_ignore_case l chan then Some (w\<lparr>w_names := ns\<rparr>) else win st l)"
    using e h(2) by auto
qed

lemma remove_ok:
  assumes "members_ok st" "win st chan = Some w"
    and r: "event_names_htbl_remove nick chan st = (ok, st', acts)"
  shows "ok \<longleftrightarrow> member st chan nick \<noteq> None" "members_ok st'" "\<not> ok \<Longrightarrow> st' = st"
    and "member st' c n =
      (if strings_match_ignore_case c chan \<and> strings_match_ignore_case n nick then None else member st c n)"
    and "\<exists>ns. win st' l = (if ok \<and> strings_match_ignore_case l chan then Some (w\<lparr>w_names := ns\<rparr>) else win st l)"
proof -
  have wok: "windows_ok (wins st)" "names_ok (w_names w)" "Names_Table.table_ok (w_names w)"
    using assms(1) win_members [OF assms(1,2)] by (simp_all add: members_ok_def names_ok_def)
  have e: "names_lookup (w_names w) [] = None"
  proof (cases "names_lookup (w_names w) []")
    case (Some m)
    then have "m_nick m \<noteq> []" "strings_match_ignore_case [] (m_nick m)"
      using found_ok [OF wok(3)] by blast+
    then show ?thesis by (simp add: smic_fold fold_case_def)
  qed simp
  have mem: "member st chan nick = names_lookup (w_names w) nick" using assms(2) by (simp add: member_def)
  have res: "(ok, st', acts) = (case names_lookup (w_names w) nick of None \<Rightarrow> (False, st, [])
      | Some m \<Rightarrow> (True, set_win_names (w_ptr w) (Names_Table.hUndef (w_names w) m) st, [Nicklist_update (w_ptr w)]))"
    unfolding r [symmetric] using e assms(2) by (cases "nick = []") (simp_all add: event_names_htbl_remove_def)
  then show ok: "ok \<longleftrightarrow> member st chan nick \<noteq> None"
    unfolding mem by (cases "names_lookup (w_names w) nick") simp_all
  show "\<not> ok \<Longrightarrow> st' = st"
    using res by (cases "names_lookup (w_names w) nick") simp_all
  have st': "st' = set_win_names (w_ptr w) (Names_Table.hUndef (w_names w) m) st" "ok"
    if "names_lookup (w_names w) nick = Some m" for m
    using res that by simp_all
  have un: "names_ok (Names_Table.hUndef (w_names w) m)"
    "names_lookup (Names_Table.hUndef (w_names w) m) n =
      (if strings_match_ignore_case n nick then None else names_lookup (w_names w) n)"
    if "names_lookup (w_names w) nick = Some m" for m n
  proof -
    have m: "m \<in> set (names_hash (w_names w) (hash_nick (m_nick m)))" "strings_match_ignore_case nick (m_nick m)"
      using found_ok [OF wok(3) that] by simp_all
    show "names_ok (Names_Table.hUndef (w_names w) m)" using names_undef_ok wok(2) m(1) by simp
    have "strings_match_ignore_case n nick \<longleftrightarrow> strings_match_ignore_case n (m_nick m)"
      using m(2) smic_trans smic_sym by blast
    then show "names_lookup (Names_Table.hUndef (w_names w) m) n =
        (if strings_match_ignore_case n nick then None else names_lookup (w_names w) n)"
      using undef_table_ok(2) [OF wok(3) m(1), of n] by simp
  qed
  show "members_ok st'"
    using st' un(1) set_names_ok [OF assms(1)] \<open>\<not> ok \<Longrightarrow> st' = st\<close> ok mem assms(1)
    by (cases "names_lookup (w_names w) nick") auto
  show "member st' c n =
      (if strings_match_ignore_case c chan \<and> strings_match_ignore_case n nick then None else member st c n)"
  proof (cases "names_lookup (w_names w) nick")
    case None
    have "member st c n = None" if "strings_match_ignore_case c chan" "strings_match_ignore_case n nick"
      using None lookup_spelling [OF that(2), of "w_names w"] win_spelling [OF that(1), of st] assms(2)
      by (simp add: member_def)
    then show ?thesis using None \<open>\<not> ok \<Longrightarrow> st' = st\<close> ok mem by auto
  next
    case (Some m)
    then show ?thesis
      using st'(1) [OF Some] un(2) [OF Some] win_spelling [of c chan st] assms(2)
      by (simp add: set_names_member [OF wok(1) assms(2)]) (simp add: member_def)
  qed
  show "\<exists>ns. win st' l = (if ok \<and> strings_match_ignore_case l chan then Some (w\<lparr>w_names := ns\<rparr>) else win st l)"
    using st' \<open>\<not> ok \<Longrightarrow> st' = st\<close> ok mem set_names_win [OF wok(1) assms(2)]
    by (cases "names_lookup (w_names w) nick") auto
qed

section \<open>Receiving names\<close>

text \<open>What a token of the list stands for.\<close>

definition token_member :: "string \<Rightarrow> names" where
  "token_member token = (let privs = takeWhile (\<lambda>c. c \<in> set priv_chars) token
     in with_privs (drop (length privs) token) privs)"

definition token_ok :: "string \<Rightarrow> bool" where
  "token_ok token \<longleftrightarrow> length (takeWhile (\<lambda>c. c \<in> set priv_chars) token) < 6 \<and> nick_ok (m_nick (token_member token))"

lemma install_tokens:
  assumes "members_ok st" "win st chan = Some w"
  shows "members_ok (fold (install_token chan) ts st)
    \<and> (\<forall>c n. member (fold (install_token chan) ts st) c n =
        (if strings_match_ignore_case c chan
         then (case member st chan n of Some m \<Rightarrow> Some m
               | None \<Rightarrow> find (\<lambda>m. strings_match_ignore_case n (m_nick m)) (map token_member (filter token_ok ts)))
         else member st c n))
    \<and> (\<exists>ns. \<forall>l. win (fold (install_token chan) ts st) l =
        (if strings_match_ignore_case l chan then Some (w\<lparr>w_names := ns\<rparr>) else win st l))"
  using assms
proof (induction ts arbitrary: st w)
  case Nil
  have m: "member st c n = (if strings_match_ignore_case c chan
      then (case member st chan n of Some m \<Rightarrow> Some m | None \<Rightarrow> None) else member st c n)" for c n
    using win_spelling [of c chan st] by (cases "member st chan n") (simp_all add: member_def)
  have w: "win st l = (if strings_match_ignore_case l chan then Some (w\<lparr>w_names := w_names w\<rparr>) else win st l)" for l
    using win_spelling [of l chan st] Nil(2) by simp
  show ?case
    unfolding fold_simps id_apply list.map filter.simps find.simps
    by (intro conjI allI exI) (rule Nil(1), rule m, rule w)
next
  case (Cons t ts)
  let ?m = "token_member t" and ?st = "install_token chan t st"
  let ?ins = "length (takeWhile (\<lambda>c. c \<in> set priv_chars) t) < 6 \<and> fst (hInstall chan ?m st)"
  note h = names_hInstall_ok [OF Cons.prems, of ?m]
  have st1: "?st = (if ?ins then snd (hInstall chan ?m st) else st)"
    using h(3) by (auto simp: install_token_def token_member_def Let_def)
  have ins: "?ins \<longleftrightarrow> token_ok t \<and> member st chan (m_nick ?m) = None" using h(1) by (auto simp: token_ok_def)
  have mok: "members_ok ?st" using st1 h(2) Cons.prems(1) by auto
  have win1: "\<exists>ns. \<forall>l. win ?st l = (if strings_match_ignore_case l chan then Some (w\<lparr>w_names := ns\<rparr>) else win st l)"
  proof (cases ?ins)
    case True
    then show ?thesis using st1 h(2) by auto
  next
    case False
    then have "win ?st l = (if strings_match_ignore_case l chan then Some (w\<lparr>w_names := w_names w\<rparr>) else win st l)" for l
      using st1 win_spelling [of l chan st] Cons.prems(2) by auto
    then show ?thesis by blast
  qed
  then obtain ns where w1: "\<And>l. win ?st l = (if strings_match_ignore_case l chan then Some (w\<lparr>w_names := ns\<rparr>) else win st l)"
    by blast
  have mem1: "member ?st c n = (if strings_match_ignore_case c chan
      then (case member st chan n of Some m \<Rightarrow> Some m
            | None \<Rightarrow> if token_ok t \<and> strings_match_ignore_case n (m_nick ?m) then Some ?m else None)
      else member st c n)" for c n
  proof (cases ?ins)
    case True
    have "member st chan n = None" if "strings_match_ignore_case n (m_nick ?m)"
      using True ins Cons.prems(2) lookup_spelling [OF that, of "w_names w"] by (simp add: member_def)
    moreover have "member ?st c n = (if strings_match_ignore_case c chan \<and> strings_match_ignore_case n (m_nick ?m)
        then Some ?m else member st c n)"
      using True st1 h(2) by simp
    moreover have "strings_match_ignore_case c chan \<Longrightarrow> member st c n = member st chan n"
      using win_spelling [of c chan st] by (simp add: member_def)
    moreover have "token_ok t" using True ins by blast
    ultimately show ?thesis
      by (cases "strings_match_ignore_case c chan"; cases "strings_match_ignore_case n (m_nick ?m)";
          cases "member st chan n") simp_all
  next
    case False
    then have e: "?st = st" using st1 by argo
    have "member st chan n \<noteq> None" if "token_ok t" "strings_match_ignore_case n (m_nick ?m)"
      using False ins that Cons.prems(2) lookup_spelling [OF that(2), of "w_names w"] by (auto simp: member_def)
    moreover have "strings_match_ignore_case c chan \<Longrightarrow> member st c n = member st chan n"
      using win_spelling [of c chan st] by (simp add: member_def)
    ultimately show ?thesis unfolding e by (cases "member st chan n") auto
  qed
  have "win ?st chan = Some (w\<lparr>w_names := ns\<rparr>)" using w1 by simp
  note IH = Cons.IH [OF mok this]
  have "member (fold (install_token chan) ts ?st) c n =
        (if strings_match_ignore_case c chan
         then (case member st chan n of Some m \<Rightarrow> Some m
               | None \<Rightarrow> find (\<lambda>m. strings_match_ignore_case n (m_nick m)) (map token_member (filter token_ok (t # ts))))
         else member st c n)" for c n
    using IH mem1 [of chan n] mem1 [of c n] by (cases "member st chan n") simp_all
  moreover from IH obtain ns' where "\<And>l. win (fold (install_token chan) ts ?st) l =
      (if strings_match_ignore_case l chan then Some (w\<lparr>w_names := ns\<rparr>\<lparr>w_names := ns'\<rparr>) else win ?st l)"
    by blast
  then have "\<forall>l. win (fold (install_token chan) ts ?st) l =
      (if strings_match_ignore_case l chan then Some (w\<lparr>w_names := ns'\<rparr>) else win st l)"
    using w1 by simp
  ultimately show ?case using IH unfolding fold_simps by blast
qed

text \<open>Parameters separated by single spaces.\<close>

definition plain_word :: "string \<Rightarrow> bool" where
  "plain_word s \<longleftrightarrow> s \<noteq> [] \<and> CHR '' '' \<notin> set s \<and> CHR 0x0A \<notin> set s"

lemma tok_word:
  assumes "w \<noteq> []" "set w \<inter> set seps = {}"
  shows "c \<in> set seps \<Longrightarrow> tok seps (w @ c # s) = (Some w, s)" "tok seps w = (Some w, [])"
  using strtok_r_word [OF assms] by (simp_all add: tok_def)

lemma tok_line:
  assumes "w \<noteq> []" "CHR 0x0A \<notin> set w"
  shows "tok nl_sep (w @ feed_char # s) = (Some w, s)" "tok nl_sep w = (Some w, [])"
  using tok_word(1) [of w nl_sep feed_char s] tok_word(2) [of w nl_sep] assms by (simp_all add: nl_sep_def feed_char_def)

lemma fed_three:
  assumes "plain_word a" "plain_word b" "plain_word c"
  shows "strFeed (a @ CHR '' '' # b @ CHR '' '' # c @ CHR '' '' # rest) 3 =
    (3, a @ feed_char # b @ feed_char # c @ feed_char # rest)"
  using assms by (simp add: strFeed_eq feed_spec_prefix plain_word_def count_list_append numeral_3_eq_3 min_def)

lemma fed_two:
  assumes "plain_word a" "plain_word b"
  shows "strFeed (a @ CHR '' '' # b @ CHR '' '' # rest) 2 = (2, a @ feed_char # b @ feed_char # rest)"
  using assms by (simp add: strFeed_eq feed_spec_prefix plain_word_def count_list_append numeral_2_eq_2 min_def)

lemma event_names_reply:
  assumes "win st chan = Some w" "\<not> received_names w" "valid_channel chan" "length chan < 1000"
    and "names_channel st = [] \<or> strings_match_ignore_case (names_channel st) chan"
    and "plain_word rcpt" "plain_word ty" "plain_word chan" "CHR 0x0A \<notin> set list_text"
    and "params compo = Some (rcpt @ CHR '' '' # ty @ CHR '' '' # chan @ CHR '' '' # CHR '':'' # list_text)"
  shows "event_names compo st =
    (fold (install_token chan) (strtoks '' '' list_text)
       (if names_channel st = [] then st\<lparr>names_channel := chan\<rparr> else st), [])"
proof -
  have "tok nl_sep (rcpt @ feed_char # r) = (Some rcpt, r)" "tok nl_sep (ty @ feed_char # r) = (Some ty, r)"
    "tok nl_sep (chan @ feed_char # r) = (Some chan, r)" for r
    using assms(6-8) tok_line(1) by (auto simp: plain_word_def)
  moreover have "tok nl_sep (CHR '':'' # list_text) = (Some (CHR '':'' # list_text), [])"
    using tok_line(2) [of "CHR '':'' # list_text"] assms(9) by simp
  moreover have "win (st\<lparr>names_channel := chan\<rparr>) chan = Some w" using assms(1) by (simp add: win_def)
  ultimately show ?thesis
    using assms fed_three [OF assms(6-8), of "CHR '':'' # list_text"]
    by (auto simp: event_names_def params_of_def skip_colon_def)
qed

lemma event_eof_reply:
  assumes "win st chan = Some w" "\<not> received_names w" "valid_channel chan"
    and "strings_match_ignore_case chan (names_channel st)"
    and "plain_word rcpt" "plain_word chan" "msg \<noteq> []" "CHR 0x0A \<notin> set msg"
    and "params compo = Some (rcpt @ CHR '' '' # chan @ CHR '' '' # msg)"
  shows "event_eof_names env compo st =
    (upd_win (w_ptr w) (\<lambda>w. w\<lparr>received_names := True\<rparr>) (st\<lparr>names_channel := []\<rparr>),
     Nicklist_new (w_ptr w) # (if \<not> g_icb_mode (ev_win env) then [Net_send (''MODE '' @ chan)] else []) @
       output_statistics (ev_theme env) (Some (w_ptr w)) chan w)"
proof -
  have "tok nl_sep (rcpt @ feed_char # r) = (Some rcpt, r)" "tok nl_sep (chan @ feed_char # r) = (Some chan, r)" for r
    using assms(5,6) tok_line(1) by (auto simp: plain_word_def)
  moreover have "tok nl_sep msg = (Some msg, [])" using tok_line(2) assms(7,8) by blast
  moreover have "win (st\<lparr>names_channel := []\<rparr>) chan = Some w" using assms(1) by (simp add: win_def)
  ultimately show ?thesis
    using assms fed_two [OF assms(5,6), of msg]
    by (simp add: event_eof_names_def params_of_def)
qed

text \<open>
  Property C26.  A reply with names and the end of the names: every token whose name can be used is
  entered with the privileges in front of it, unless its name is already there (the first token of
  a name counts); all other members and channels stay as they are, the counters are right, the nick
  list is made and the modes of the channel are asked for.
\<close>

theorem names_list_received:
  assumes "members_ok st" "win st chan = Some w" "\<not> received_names w" "valid_channel chan" "length chan < 1000"
    and "names_channel st = [] \<or> strings_match_ignore_case (names_channel st) chan"
    and "plain_word rcpt" "plain_word ty" "plain_word chan" "CHR 0x0A \<notin> set list_text"
    and "params compo = Some (rcpt @ CHR '' '' # ty @ CHR '' '' # chan @ CHR '' '' # CHR '':'' # list_text)"
    and "params eof = Some (rcpt @ CHR '' '' # chan @ CHR '' '' # msg)" "msg \<noteq> []" "CHR 0x0A \<notin> set msg"
  shows "\<exists>st1 st2 w'. event_names compo st = (st1, []) \<and>
    event_eof_names env eof st1 =
      (st2, Nicklist_new (w_ptr w) # (if \<not> g_icb_mode (ev_win env) then [Net_send (''MODE '' @ chan)] else []) @
        output_statistics (ev_theme env) (Some (w_ptr w)) chan w') \<and>
    members_ok st2 \<and> names_channel st2 = [] \<and> win st2 chan = Some (w'\<lparr>received_names := True\<rparr>) \<and>
    (\<forall>n. member st2 chan n = (case member st chan n of Some m \<Rightarrow> Some m
       | None \<Rightarrow> find (\<lambda>m. strings_match_ignore_case n (m_nick m))
           (map token_member (filter token_ok (strtoks '' '' list_text))))) \<and>
    (\<forall>c n. \<not> strings_match_ignore_case c chan \<longrightarrow> member st2 c n = member st c n)"
proof -
  let ?st = "if names_channel st = [] then st\<lparr>names_channel := chan\<rparr> else st"
  let ?st1 = "fold (install_token chan) (strtoks '' '' list_text) ?st"
  have same: "member ?st c n = member st c n" "win ?st c = win st c" "members_ok ?st = members_ok st" for c n
    by (simp_all add: member_def win_def members_ok_def)
  have nc: "names_channel (install_token chan t s) = names_channel s" for t s
    by (simp add: install_token_def hInstall_def set_win_names_def upd_win_def Let_def split: option.split)
  have "names_channel (fold (install_token chan) ts s) = names_channel s" for ts s
    by (induction ts arbitrary: s) (simp_all add: nc)
  then have n1: "strings_match_ignore_case chan (names_channel ?st1)" using assms(6) smic_sym by auto
  have "members_ok ?st" "win ?st chan = Some w" using assms(1,2) same by simp_all
  from install_tokens [OF this, of "strtoks '' '' list_text"]
  obtain ns where t: "members_ok ?st1" "\<And>l. win ?st1 l = (if strings_match_ignore_case l chan then Some (w\<lparr>w_names := ns\<rparr>) else win ?st l)"
    and m: "\<And>c n. member ?st1 c n = (if strings_match_ignore_case c chan
         then (case member ?st chan n of Some m \<Rightarrow> Some m
               | None \<Rightarrow> find (\<lambda>m. strings_match_ignore_case n (m_nick m))
                   (map token_member (filter token_ok (strtoks '' '' list_text))))
         else member ?st c n)"
    by blast
  let ?w = "w\<lparr>w_names := ns\<rparr>"
  have w1: "win ?st1 chan = Some ?w" "\<not> received_names ?w" using t(2) assms(3) by simp_all
  let ?st2 = "upd_win (w_ptr ?w) (\<lambda>w. w\<lparr>received_names := True\<rparr>) (?st1\<lparr>names_channel := []\<rparr>)"
  note eof = event_eof_reply [OF w1 assms(4) n1 assms(7,9,13,14,12), of env]
  have wok: "windows_ok (wins (?st1\<lparr>names_channel := []\<rparr>))" using t(1) by (simp add: members_ok_def)
  have u: "win ?st2 l = map_option (\<lambda>v. if w_ptr v = w_ptr ?w then v\<lparr>received_names := True\<rparr> else v) (win ?st1 l)" for l
    using win_upd [OF wok, of "\<lambda>w. w\<lparr>received_names := True\<rparr>" "w_ptr ?w" l] by (simp add: win_def)
  have mem2: "member ?st2 c n = member ?st1 c n" for c n
    unfolding member_def u by (cases "win ?st1 c") simp_all
  have mok: "members_ok ?st2"
    using upd_win_ok [OF wok, of "\<lambda>w. w\<lparr>received_names := True\<rparr>" "w_ptr ?w"] t(1)
    by (auto simp: members_ok_def upd_win_windows)
  have "win ?st2 chan = Some (?w\<lparr>received_names := True\<rparr>)" unfolding u w1(1) by simp
  moreover have "names_channel ?st2 = []" by (simp add: upd_win_def)
  moreover have "event_names compo st = (?st1, [])"
    using event_names_reply [OF assms(2-11)] .
  ultimately show ?thesis
    using eof mok mem2 m same(1)
    by (intro exI [of _ ?st1] exI [of _ ?st2] exI [of _ ?w]) simp
qed

text \<open>A client with the status window and one channel.\<close>

definition example_win_state :: win_state where
  "example_win_state =
     (case spawn_chat_window example_env (Some ''#isabelle'') None start_state of
        Some (_, st, _) \<Rightarrow> st | None \<Rightarrow> start_state)"

definition example_ev_state :: ev_state where
  "example_ev_state = \<lparr>wins = example_win_state,
     irc = \<lparr>g_alt_nick_tested = False, g_am_irc_op = False, g_is_away = False, g_received_welcome = True,
       g_my_nickname = Some ''me'', g_server_hostname = None, g_user_modes = []\<rparr>,
     names_channel = [], netsplits = []\<rparr>"

definition example_ev_env :: ev_env where
  "example_ev_env = \<lparr>ev_win = example_env, ev_theme = theme_init, ev_config = config_init, ev_now = 1000, net_ok = True,
     local_time = (\<lambda>_. Some ''now'')\<rparr>"

lemma example_ev:
  "members_ok example_ev_state"
  "\<exists>w. win example_ev_state ''#isabelle'' = Some w \<and> \<not> received_names w \<and> w_names w = no_names \<and> label w = ''#isabelle''"
proof -
  have o: "\<not> strings_match_ignore_case ''#isabelle'' g_status_window_label" by code_simp
  obtain st' e A B who where s: "spawn_chat_window example_env (Some ''#isabelle'') None start_state = Some (OK0, st', who)"
    "windows_ok st'" "windows st' = A @ e # B" "label e = ''#isabelle''"
    using spawn_ok [OF start_state(2) example_env(1), of "''#isabelle''" None] start_other [OF o] example_env(2) start_ntotal
    by auto
  have st': "wins example_ev_state = st'" using s(1) by (simp add: example_ev_state_def example_win_state_def)
  have "length (win_state.hash_table start_state) = HASH_SIZE"
    using start_state(2) by (simp add: windows_ok_def registry_ok_def Window.table_ok_def chains_ok_def)
  then have n: "\<forall>v\<in>set (windows st'). w_names v = no_names \<and> \<not> received_names v"
    using spawn_members [OF s(1)] init_members [OF start_state(1)] by blast
  show "members_ok example_ev_state" using s(2) n no_names_ok(1) by (simp add: members_ok_def st')
  have "Window.table_ok (win_state.hash_table st') (next_ptr st')" using s(2) by (simp add: windows_ok_def registry_ok_def)
  from window_by_label_iff [OF this, of "''#isabelle''" e]
  have "window_by_label st' (Some ''#isabelle'') = Some e" using s(3,4) by simp
  then show "\<exists>w. win example_ev_state ''#isabelle'' = Some w \<and> \<not> received_names w \<and> w_names w = no_names \<and> label w = ''#isabelle''"
    using n s(3,4) by (simp add: win_def st')
qed

theorem names_list_received_witness:
  "\<exists>st1 st2 acts m.
     event_names \<lparr>account = None, year = 0, month = 0, day = 0, hour = 0, minute = 0, second = 0, precision = 0,
       prefix' = None, command = None, params = Some ''me = #isabelle :@op +voice plain''\<rparr> example_ev_state = (st1, [])
     \<and> event_eof_names example_ev_env \<lparr>account = None, year = 0, month = 0, day = 0, hour = 0, minute = 0, second = 0,
       precision = 0, prefix' = None, command = None, params = Some ''me #isabelle :End of /NAMES list.''\<rparr> st1 = (st2, acts)
     \<and> members_ok st2 \<and> member st2 ''#isabelle'' ''OP'' = Some m \<and> is_op m"
proof -
  obtain w where w: "win example_ev_state ''#isabelle'' = Some w" "\<not> received_names w" "w_names w = no_names"
    using example_ev(2) by blast
  let ?c = "\<lparr>account = None, year = 0, month = 0, day = 0, hour = 0, minute = 0, second = 0, precision = 0,
       prefix' = None, command = None, params = Some ''me = #isabelle :@op +voice plain''\<rparr>"
  let ?e = "\<lparr>account = None, year = 0, month = 0, day = 0, hour = 0, minute = 0, second = 0,
       precision = 0, prefix' = None, command = None, params = Some ''me #isabelle :End of /NAMES list.''\<rparr>"
  have v: "valid_channel ''#isabelle''" "plain_word ''me''" "plain_word ''=''" "plain_word ''#isabelle''"
    "CHR 0x0A \<notin> set ''@op +voice plain''" "CHR 0x0A \<notin> set '':End of /NAMES list.''"
    by code_simp+
  have f: "find (\<lambda>m. strings_match_ignore_case ''OP'' (m_nick m))
      (map token_member (filter token_ok (strtoks '' '' ''@op +voice plain''))) = Some (with_privs ''op'' ''@'')"
    by code_simp
  have "is_op (with_privs ''op'' ''@'')" by (simp add: with_privs_def)
  moreover have "member example_ev_state ''#isabelle'' ''OP'' = None" using w no_names_ok(2) by (simp add: member_def)
  ultimately show ?thesis
    using names_list_received [OF example_ev(1) w(1,2) v(1) _ _ v(2-5), of ?c ?e "'':End of /NAMES list.''" example_ev_env]
      v(6) f by (auto simp: example_ev_state_def)
qed

end
