(* ===== verification/Channel.thy ===== *)
theory Channel
  imports Names
begin

text \<open>
  The channel events: \<^verbatim>\<open>src/src/events/channel.cpp\<close>.

  \<^const>\<open>None\<close> as the result of a handler: the program ends (a failed assertion of the window
  system, or an empty nickname).  The result of \<^verbatim>\<open>localtime_r\<close> and \<^verbatim>\<open>strftime\<close> belongs to the
  environment.
\<close>

section \<open>Sender, errors\<close>

definition command_of :: "irc_message_compo \<Rightarrow> string" where
  "command_of compo = (case command compo of None \<Rightarrow> ''(null)'' | Some c \<Rightarrow> c)"

definition event_error :: "string \<Rightarrow> irc_message_compo \<Rightarrow> string \<Rightarrow> ev_state \<Rightarrow> ev_action" where
  "event_error func compo e st =
     Print (status st) TYPE_SPEC1_WARN (func @ ''('' @ command_of compo @ ''): error: '' @ e)"

definition event_fatal :: "string \<Rightarrow> irc_message_compo \<Rightarrow> string \<Rightarrow> ev_state \<Rightarrow> ev_action" where
  "event_fatal func compo e st =
     Print (active st) TYPE_SPEC1_FAILURE (func @ ''('' @ command_of compo @ ''): fatal: '' @ e)"

text \<open>Nickname, user and host of the prefix, with the messages and defaults of the handler.\<close>

definition sender ::
    "string \<Rightarrow> string \<Rightarrow> string \<Rightarrow> string \<Rightarrow> irc_message_compo \<Rightarrow> string + string \<times> string \<times> string" where
  "sender no_prefix no_nick no_user no_host compo =
     (case prefix' compo of None \<Rightarrow> Inl no_prefix
      | Some p \<Rightarrow>
          let (nick, s) = tok user_seps (drop 1 p) in
          (case nick of None \<Rightarrow> Inl no_nick
           | Some n \<Rightarrow>
               let (user, s) = tok user_seps s; (host, _) = tok user_seps s in
               Inr (n, (case user of None \<Rightarrow> no_user | Some u \<Rightarrow> u), (case host of None \<Rightarrow> no_host | Some h \<Rightarrow> h))))"

definition my_nick :: "ev_state \<Rightarrow> string" where
  "my_nick st = (case g_my_nickname (irc st) of None \<Rightarrow> [] | Some n \<Rightarrow> n)"

definition joins_parts_quits :: "ev_env \<Rightarrow> bool" where
  "joins_parts_quits env = fst (config_bool (ev_config env) ''joins_parts_quits'' True)"

definition to_win :: "irc_window option \<Rightarrow> nat option" where
  "to_win w = map_option w_ptr w"

section \<open>JOIN\<close>

text \<open>The first component is the message of the exception, if one is thrown.\<close>

type_synonym ev_step = "string option \<times> ev_state \<times> ev_action list"

definition auto_op :: "ev_env \<Rightarrow> string \<Rightarrow> string \<Rightarrow> ev_state \<Rightarrow> ev_step" where
  "auto_op env channel nick st =
     (if g_am_irc_op (irc st) \<and> fst (config_bool (ev_config env) ''auto_op_yourself'' True)
      then if \<not> net_ok env then (Some ''cannot send'', st, [])
           else (None, st, [Net_send (''MODE '' @ channel @ '' +o '' @ nick), Net_send (''SAMODE '' @ channel @ '' +o '' @ nick)])
      else (None, st, []))"

definition set_member :: "string \<Rightarrow> string \<Rightarrow> (names \<Rightarrow> names) \<Rightarrow> ev_state \<Rightarrow> ev_state" where
  "set_member nick channel f st =
     (case win st channel of None \<Rightarrow> st
      | Some w \<Rightarrow> set_win_names (w_ptr w) (set_names nick f (w_names w)) st)"

definition join_perform_some_tasks ::
    "ev_env \<Rightarrow> string \<Rightarrow> string \<Rightarrow> string option \<Rightarrow> string option \<Rightarrow> ev_state \<Rightarrow> ev_step option" where
  "join_perform_some_tasks env channel nick acc rl st =
     (let acc = map_option skip_colon acc; rl = map_option skip_colon rl in
      if \<not> valid_channel channel then Some (Some ''bogus irc channel'', st, [])
      else if strings_match_ignore_case nick (my_nick st) then
        (case spawn_chat_window (ev_win env) (Some channel) (Some ''No title.'') (wins st) of
           None \<Rightarrow> None
         | Some (OK0, ws, who) \<Rightarrow>
             (let (e, st', acts) = auto_op env channel nick (st\<lparr>wins := ws\<rparr>) in Some (e, st', map Whois who @ acts))
         | Some (_, ws, who) \<Rightarrow> Some (Some ''cannot spawn chat window'', st\<lparr>wins := ws\<rparr>, map Whois who))
      else (case event_names_htbl_insert nick channel st of
          (False, st', acts) \<Rightarrow> Some (Some ''unable to add user to channel list'', st', acts)
        | (True, st', acts) \<Rightarrow>
            Some (None,
              (case (acc, rl, event_names_htbl_lookup nick channel st') of
                 (Some a, Some r, Some _) \<Rightarrow> set_member nick channel (\<lambda>m. m\<lparr>m_account := Some a, m_rl_name := Some r\<rparr>) st'
               | _ \<Rightarrow> st'), acts)))"

text \<open>The split in which the member had left, if there is one.\<close>

definition chk_split :: "ev_env \<Rightarrow> string \<Rightarrow> string \<Rightarrow> ev_state \<Rightarrow> string option \<times> ev_state \<times> nat option" where
  "chk_split env nick channel st =
     (if netsplit_db_empty (netsplits st) then (None, st, None)
      else case netsplit_find nick channel (netsplits st) of
        None \<Rightarrow> (None, st, None)
      | Some i \<Rightarrow>
          (case remove_nick (netsplits st ! i) nick of
             (False, s) \<Rightarrow> (Some ''failed to remove nick from split'', st\<lparr>netsplits := (netsplits st)[i := s]\<rparr>, Some i)
           | (True, s) \<Rightarrow>
               (None, st\<lparr>netsplits := (netsplits st)[i := (if \<not> join_begun s then s\<lparr>join_secs := ev_now env\<rparr> else s)]\<rparr>,
                Some i)))"

text \<open>\<^verbatim>\<open>event_join\<close> with the parsed message.\<close>

definition join_act ::
    "ev_env \<Rightarrow> irc_message_compo \<Rightarrow> string \<Rightarrow> string \<Rightarrow> string \<Rightarrow> string \<Rightarrow> string option \<Rightarrow> string option \<Rightarrow>
     ev_state \<Rightarrow> ev_result option" where
  "join_act env compo nick user host ch acc rl st =
     (case join_perform_some_tasks env ch nick acc rl st of
        None \<Rightarrow> None
      | Some (Some e, st, acts) \<Rightarrow> Some (st, acts @ [event_fatal ''event_join'' compo e st])
      | Some (None, st, acts) \<Rightarrow>
          (case chk_split env nick ch st of
             (Some e, st, _) \<Rightarrow> Some (st, acts @ [event_fatal ''event_join'' compo e st])
           | (None, st, split) \<Rightarrow>
               if split = None \<and> joins_parts_quits env then
                 (case win st ch of
                    None \<Rightarrow> Some (st, acts @ [event_fatal ''event_join'' compo ''window lookup error'' st])
                  | Some w \<Rightarrow> let t = ev_theme env in
                      Some (st, acts @ [Print (Some (w_ptr w)) TYPE_SPEC1_SPEC2
                        (COLOR1 t @ nick @ ch_normal @ '' '' @ in_brackets t (user @ ''@'' @ host) @
                         '' has joined '' @ COLOR2 t @ ch @ ch_normal)]))
               else Some (st, acts)))"

definition event_join :: "ev_env \<Rightarrow> irc_message_compo \<Rightarrow> ev_state \<Rightarrow> ev_result option" where
  "event_join env compo st =
     (case sender ''no prefix'' ''no nickname'' ''<no user>'' ''<no host>'' compo of
        Inl e \<Rightarrow> Some (st, [event_fatal ''event_join'' compo e st])
      | Inr (nick, user, host) \<Rightarrow>
          let (num, ps) = strFeed (params_of compo) 2;
              (channel, state) = tok nl_sep ps;
              (acc, state) = tok nl_sep state;
              (rl, _) = tok nl_sep state
          in if num = 0 \<and> (acc \<noteq> None \<or> rl \<noteq> None) then Some (st, [event_fatal ''event_join'' compo ''too many tokens'' st])
             else case channel of
               None \<Rightarrow> Some (st, [event_fatal ''event_join'' compo ''no channel'' st])
             | Some ch \<Rightarrow> join_act env compo nick user host (skip_colon ch) acc rl st)"

section \<open>KICK\<close>

text \<open>The message at the end, or that of an exception.\<close>

definition kick_message ::
    "ev_env \<Rightarrow> irc_message_compo \<Rightarrow> string \<Rightarrow> string \<Rightarrow> string \<Rightarrow> string option \<Rightarrow> ev_step \<Rightarrow> ev_result" where
  "kick_message env compo nick ch v reason step =
     (case step of
        (Some e, st, acts) \<Rightarrow> (st, acts @ [event_fatal ''event_kick'' compo e st])
      | (None, st, acts) \<Rightarrow>
          let t = ev_theme env in
          (st, acts @ [Print (case win st ch of None \<Rightarrow> active st | Some w \<Rightarrow> Some (w_ptr w)) TYPE_SPEC1_SPEC2
             (v @ '' was kicked from '' @ COLOR2 t @ ch @ ch_normal @ '' by '' @ COLOR2 t @ nick @ ch_normal @
              '' '' @ in_brackets t (case reason of None \<Rightarrow> [] | Some r \<Rightarrow> skip_colon r))]))"

definition kick_step :: "ev_env \<Rightarrow> string \<Rightarrow> string \<Rightarrow> ev_state \<Rightarrow> ev_step option" where
  "kick_step env ch v st =
     (let remove_all = (\<lambda>st. case win st ch of None \<Rightarrow> st | Some w \<Rightarrow> upd_win (w_ptr w) event_names_htbl_remove_all st) in
      if strings_match_ignore_case v (my_nick st) then
        if fst (config_bool (ev_config env) ''kick_close_window'' True)
        then (case destroy_chat_window (ev_win env) (Some ch) (wins st) of
                None \<Rightarrow> None
              | Some (OK0, ws) \<Rightarrow> Some (None, remove_all (st\<lparr>wins := ws\<rparr>), [])
              | Some (_, ws) \<Rightarrow> Some (Some ''failed to destroy chat window'', st\<lparr>wins := ws\<rparr>, []))
        else Some (None, remove_all st, [])
      else (case event_names_htbl_remove v ch st of
          (True, st, acts) \<Rightarrow> Some (None, st, acts)
        | (False, st, acts) \<Rightarrow> Some (Some ''failed to remove victim from channel'', st, acts)))"

definition event_kick :: "ev_env \<Rightarrow> irc_message_compo \<Rightarrow> ev_state \<Rightarrow> ev_result option" where
  "event_kick env compo st =
     (case sender ''no prefix'' ''no nickname'' ''<no user>'' ''<no host>'' compo of
        Inl e \<Rightarrow> Some (st, [event_fatal ''event_kick'' compo e st])
      | Inr (nick, user, host) \<Rightarrow>
          let (channel, state) = tok nl_sep (snd (strFeed (params_of compo) 2));
              (victim, state) = tok nl_sep state;
              (reason, _) = tok nl_sep state
          in case channel of
               None \<Rightarrow> Some (st, [event_fatal ''event_kick'' compo ''no channel'' st])
             | Some ch \<Rightarrow> (case victim of
               None \<Rightarrow> Some (st, [event_fatal ''event_kick'' compo ''no victim'' st])
             | Some v \<Rightarrow> map_option (kick_message env compo nick ch v reason) (kick_step env ch v st)))"

section \<open>MODE\<close>

datatype plus_minus_state = STATE_PLUS | STATE_MINUS | STATE_NEITHER_PM

definition chg_status ::
    "(string \<Rightarrow> string \<Rightarrow> bool \<Rightarrow> ev_state \<Rightarrow> bool \<times> ev_result) \<Rightarrow> string \<Rightarrow> plus_minus_state \<Rightarrow> string \<Rightarrow> string \<Rightarrow>
     ev_state \<Rightarrow> ev_result" where
  "chg_status modify func pm_state nick channel st =
     (let apply_flag = (\<lambda>flag sign. case modify nick channel flag st of
            (True, st', acts) \<Rightarrow> (st', acts) | (False, st', acts) \<Rightarrow> (st', acts @ [Log (func @ sign)]))
      in case pm_state of
        STATE_PLUS \<Rightarrow> apply_flag True '' (+)''
      | STATE_MINUS \<Rightarrow> apply_flag False '' (-)''
      | STATE_NEITHER_PM \<Rightarrow> (st, [Log (func @ '': error: neither +/-'')]))"

definition chg_status_for_owner where
  "chg_status_for_owner env pm_state nick channel st =
     (if \<not> is_valid_nickname (Some nick) then (st, [])
      else chg_status (names_htbl_modify_owner env) ''chg_status_for_owner'' pm_state nick channel st)"

definition chg_status_for_superop where
  "chg_status_for_superop env = chg_status (names_htbl_modify_superop env) ''chg_status_for_superop''"

definition chg_status_for_op where
  "chg_status_for_op env = chg_status (names_htbl_modify_op env) ''chg_status_for_op''"

definition chg_status_for_halfop where
  "chg_status_for_halfop env = chg_status (names_htbl_modify_halfop env) ''chg_status_for_halfop''"

definition chg_status_for_voice where
  "chg_status_for_voice env = chg_status (names_htbl_modify_voice env) ''chg_status_for_voice''"

definition then_do :: "ev_result \<Rightarrow> (ev_state \<Rightarrow> ev_result) \<Rightarrow> ev_result" where
  "then_do r f = (let (st, acts) = r; (st', acts') = f st in (st', acts @ acts'))"

text \<open>
  The loop over the mode letters: what a letter does, the sign it leaves, and whether it takes a
  parameter.  The loop ends with the letters or with the parameters.
\<close>

definition mode_letter :: "ev_env \<Rightarrow> string \<Rightarrow> char \<Rightarrow> plus_minus_state \<Rightarrow> string \<Rightarrow> ev_state \<Rightarrow> ev_result" where
  "mode_letter env channel c pm_state nick st =
     (if c = CHR ''q'' then chg_status_for_owner env pm_state nick channel st
      else if c = CHR ''a'' then chg_status_for_superop env pm_state nick channel st
      else if c = CHR ''o'' then chg_status_for_op env pm_state nick channel st
      else if c = CHR ''h'' then chg_status_for_halfop env pm_state nick channel st
      else if c = CHR ''v'' then chg_status_for_voice env pm_state nick channel st
      else (st, []))"

definition mode_sign :: "char \<Rightarrow> plus_minus_state \<Rightarrow> plus_minus_state" where
  "mode_sign c pm_state = (if c = CHR ''+'' then STATE_PLUS else if c = CHR ''-'' then STATE_MINUS else pm_state)"

definition takes_param :: "char \<Rightarrow> plus_minus_state \<Rightarrow> bool" where
  "takes_param c pm_state \<longleftrightarrow> c \<in> set ''Ibekqaohv'' \<or> c \<in> set ''jl'' \<and> pm_state = STATE_PLUS"

primrec modes_loop :: "ev_env \<Rightarrow> string \<Rightarrow> string \<Rightarrow> plus_minus_state \<Rightarrow> string list \<Rightarrow> ev_state \<Rightarrow> ev_result" where
  "modes_loop env channel [] pm_state ps st = (st, [])"
| "modes_loop env channel (c # cp) pm_state ps st =
     (case ps of [] \<Rightarrow> (st, [])
      | nick # rest \<Rightarrow>
          then_do (mode_letter env channel c pm_state nick st)
            (modes_loop env channel cp (mode_sign c pm_state) (if takes_param c pm_state then rest else ps)))"

definition max_mode_params :: nat where "max_mode_params = 15"

definition maintain_channel_stats :: "ev_env \<Rightarrow> string \<Rightarrow> string \<Rightarrow> ev_state \<Rightarrow> ev_result" where
  "maintain_channel_stats env channel input st =
     (case strtok_r '' '' input of
        None \<Rightarrow> (st, [Log ''maintain_channel_stats''])
      | Some (modes, state) \<Rightarrow>
          (let ps = take max_mode_params (strtoks '' '' state) in
           then_do (modes_loop env channel modes STATE_NEITHER_PM ps st)
             (\<lambda>st. (st, if \<not> set modes \<subseteq> set ''+-Ibeqaohv''
                       then if net_ok env then [Net_send (''MODE '' @ channel)]
                            else [Log ''maintain_channel_stats: net_send'']
                       else []))))"

text \<open>The colon in front of the last parameter is taken out.\<close>

definition mode_token :: "string \<Rightarrow> string" where
  "mode_token s =
     (if hd s = CHR '':'' then tl s
      else case strstr s '' :'' of None \<Rightarrow> s | Some n \<Rightarrow> take n s @ CHR '' '' # drop (n + 2) s)"

definition event_mode :: "ev_env \<Rightarrow> irc_message_compo \<Rightarrow> ev_state \<Rightarrow> ev_result" where
  "event_mode env compo st =
     (let err = (\<lambda>e st. event_error ''event_mode'' compo e st) in
      case sender ''no prefix'' ''unable to get nickname in prefix'' [] [] compo of
        Inl e \<Rightarrow> (st, [err e st])
      | Inr (nick, _, _) \<Rightarrow>
          let (fed, ps) = strFeed (params_of compo) 1 in
          if fed \<noteq> 1 then (st, [err ''strFeed'' st])
          else let (channel, state) = tok nl_sep ps; (next_token, _) = tok nl_sep state in
            case (channel, next_token) of
              (Some ch, Some nt) \<Rightarrow>
                (let text = trim (mode_token nt); t = ev_theme env in
                 if strings_match_ignore_case ch (my_nick st) then
                   (let acts = [Print (status st) TYPE_SPEC1
                         (''Mode change '' @ in_brackets t text @ '' for user '' @ ch_bold @ my_nick st @ ch_bold)] in
                    if net_ok env then (st, acts @ [Net_send (''MODE '' @ my_nick st)])
                    else (st, acts @ [err ''cannot send'' st]))
                 else if is_irc_channel (Some ch) \<and> win st ch \<noteq> None then
                   then_do (st, [Print (to_win (win st ch)) TYPE_SPEC1
                       (''mode/'' @ LEFT_BRKT t @ COLOR1 t @ ch @ ch_normal @ RIGHT_BRKT t @ '' '' @
                        in_brackets t text @ '' by '' @ COLOR2 t @ nick @ ch_normal)])
                     (maintain_channel_stats env ch text)
                 else (st, [err ''unhandled else branch'' st]))
            | _ \<Rightarrow> (st, [err ''insufficient data'' st]))"

section \<open>NICK\<close>

definition RemoveAndInsertNick :: "ev_env \<Rightarrow> string \<Rightarrow> string \<Rightarrow> string \<Rightarrow> ev_state \<Rightarrow> bool \<times> ev_result" where
  "RemoveAndInsertNick env old_nick new_nick lbl st =
     (case event_names_htbl_lookup old_nick lbl st of
        None \<Rightarrow> (False, st, [])
      | Some p \<Rightarrow>
          let acc = (case m_account p of None \<Rightarrow> ''<no account>'' | Some a \<Rightarrow> a);
              rl = (case m_rl_name p of None \<Rightarrow> ''<no rl name>'' | Some r \<Rightarrow> r)
          in case event_names_htbl_remove old_nick lbl st of
            (False, st, acts) \<Rightarrow> (False, st, acts @ [Log ''RemoveAndInsertNick: event_names_htbl_remove''])
          | (True, st, acts1) \<Rightarrow>
              (case event_names_htbl_insert new_nick lbl st of
                (False, st, acts) \<Rightarrow> (False, st, acts1 @ acts @ [Log ''RemoveAndInsertNick: event_names_htbl_insert''])
              | (True, st, acts2) \<Rightarrow>
                  (if event_names_htbl_lookup new_nick lbl st = None
                   then (False, st, acts1 @ acts2 @ [Log ''RemoveAndInsertNick: new nick not found''])
                   else
                     let st = set_member new_nick lbl (\<lambda>m. m\<lparr>m_account := Some acc, m_rl_name := Some rl\<rparr>) st;
                         set_flag = (\<lambda>flag chg. if flag then chg env STATE_PLUS new_nick lbl else (\<lambda>st. (st, [])))
                     in (True, then_do (then_do (then_do (then_do (then_do (st, acts1 @ acts2)
                          (set_flag (is_voice p) chg_status_for_voice))
                          (set_flag (is_halfop p) chg_status_for_halfop))
                          (set_flag (is_op p) chg_status_for_op))
                          (set_flag (is_superop p) chg_status_for_superop))
                          (set_flag (is_owner p) chg_status_for_owner)))))"

text \<open>
  The loop over the windows \<^verbatim>\<open>1 ... g_ntotal_windows\<close>: \<open>body\<close> is applied to the channel
  windows.
\<close>

definition channel_loop :: "(irc_window \<Rightarrow> ev_state \<Rightarrow> ev_result) \<Rightarrow> ev_state \<Rightarrow> ev_result" where
  "channel_loop body st =
     fold (\<lambda>i r. then_do r (\<lambda>st. case window_by_refnum (wins st) i of
            None \<Rightarrow> (st, [])
          | Some w \<Rightarrow> if is_irc_channel (Some (label w)) then body w st else (st, [])))
       [1..g_ntotal_windows (wins st)] (st, [])"

definition event_nick :: "ev_env \<Rightarrow> irc_message_compo \<Rightarrow> ev_state \<Rightarrow> ev_result option" where
  "event_nick env compo st =
     (let new_nick = skip_colon (params_of compo); t = ev_theme env in
      case sender ''no prefix'' ''no nickname'' [] [] compo of
        Inl e \<Rightarrow> Some (st, [event_error ''event_nick'' compo e st])
      | Inr (nick, _, _) \<Rightarrow>
          let (st', acts) = channel_loop (\<lambda>w st.
                case RemoveAndInsertNick env nick new_nick (label w) st of
                  (False, r) \<Rightarrow> r
                | (True, r) \<Rightarrow> then_do r (\<lambda>st. (st, [Print (Some (w_ptr w)) TYPE_SPEC1_SPEC2
                    (COLOR2 t @ nick @ ch_normal @ '' is now known as '' @ THE_SPEC2 t @ '' '' @
                     COLOR1 t @ new_nick @ ch_normal)]))) st
          in if strings_match_ignore_case nick (my_nick st')
             then (case irc_set_my_nickname (Some new_nick) (irc st') of
                     None \<Rightarrow> None | Some g \<Rightarrow> Some (st'\<lparr>irc := g\<rparr>, acts))
             else Some (st', acts))"

section \<open>PART\<close>

definition part_act ::
    "ev_env \<Rightarrow> irc_message_compo \<Rightarrow> string \<Rightarrow> string \<Rightarrow> string \<Rightarrow> string \<Rightarrow> string \<Rightarrow> ev_state \<Rightarrow> ev_result option" where
  "part_act env compo nick user host ch text st =
     (if strings_match_ignore_case nick (my_nick st) then
        (case destroy_chat_window (ev_win env) (Some ch) (wins st) of
           None \<Rightarrow> None
         | Some (OK0, ws) \<Rightarrow> Some (st\<lparr>wins := ws\<rparr>, [])
         | Some (_, ws) \<Rightarrow> (let st = st\<lparr>wins := ws\<rparr> in
             Some (st, [event_fatal ''event_part'' compo ''failed to destroy chat window'' st])))
      else (case event_names_htbl_remove nick ch st of
          (False, st, acts) \<Rightarrow>
            Some (st, acts @ [event_fatal ''event_part'' compo ''failed to remove user from channel list'' st])
        | (True, st, acts) \<Rightarrow>
            if \<not> joins_parts_quits env then Some (st, acts)
            else (case win st ch of
                None \<Rightarrow> Some (st, acts @ [event_fatal ''event_part'' compo ''window lookup error'' st])
              | Some w \<Rightarrow> let t = ev_theme env in
                  Some (st, acts @ [Print (Some (w_ptr w)) TYPE_SPEC1_SPEC2
                    (COLOR2 t @ nick @ ch_normal @ '' '' @ in_brackets t (user @ ''@'' @ host) @
                     '' has left '' @ COLOR2 t @ ch @ ch_normal @ '' '' @ in_brackets t text)]))))"

definition event_part :: "ev_env \<Rightarrow> irc_message_compo \<Rightarrow> ev_state \<Rightarrow> ev_result option" where
  "event_part env compo st =
     (case sender ''no prefix!'' ''unable to get nickname'' ''<no user>'' ''<no host>'' compo of
        Inl e \<Rightarrow> Some (st, [event_fatal ''event_part'' compo e st])
      | Inr (nick, user, host) \<Rightarrow>
          let (num, ps) = strFeed (params_of compo) 1;
              (channel, state) = tok nl_sep ps;
              (msg, _) = tok nl_sep state
          in case channel of
            None \<Rightarrow> Some (st, [event_fatal ''event_part'' compo ''unable to get channel'' st])
          | Some ch \<Rightarrow> part_act env compo nick user host (skip_colon ch)
              (if num \<noteq> 1 then [] else case msg of None \<Rightarrow> [] | Some m \<Rightarrow> skip_colon m) st)"

section \<open>QUIT and netsplits\<close>

definition serv_chars :: string where
  "serv_chars = ''abcdefghijklmnopqrstuvwxyz.0123456789-ABCDEFGHIJKLMNOPQRSTUVWXYZ*''"

definition is_valid_server :: "string option \<Rightarrow> bool" where
  "is_valid_server str =
     (case str of None \<Rightarrow> False
      | Some s \<Rightarrow>
          if strings_match s [] \<or> xstrnlen str 256 > 255 then False
          else if \<not> list_all (\<lambda>c. strchr serv_chars c \<noteq> None) s then False
          else let dots = length (filter (\<lambda>c. c = CHR ''.'') s) in
            if strstr s ''..'' \<noteq> None \<or> strstr s ''**'' \<noteq> None then False
            else if hd s = CHR ''.'' \<or> hd s = CHR ''-'' then False
            else if last s = CHR ''.'' \<or> last s = CHR ''-'' then False
            else dots > 0)"

definition is_netsplit :: "ev_env \<Rightarrow> string \<Rightarrow> (string \<times> string) option" where
  "is_netsplit env msg =
     (if g_icb_mode (ev_win env) \<or> strncmp_eq msg ''Quit: '' 6 then None
      else if strings_match_ignore_case msg ''*.net *.split'' then Some (''*.net'', ''*.split'')
      else let (fed, copy) = strFeed msg 2 in
        if fed \<noteq> 1 then None
        else let (t0, last) = tok nl_sep copy in
          case t0 of None \<Rightarrow> None
          | Some a \<Rightarrow> (case fst (tok nl_sep last) of None \<Rightarrow> None
              | Some b \<Rightarrow> if \<not> is_valid_server (Some a) \<or> \<not> is_valid_server (Some b) then None else Some (a, b)))"

definition handle_quit ::
    "ev_env \<Rightarrow> irc_window \<Rightarrow> string \<Rightarrow> string \<Rightarrow> string \<Rightarrow> string \<Rightarrow> ev_state \<Rightarrow> ev_result" where
  "handle_quit env window msg nick user host st =
     (case is_netsplit env msg of
        Some (h0, h1) \<Rightarrow>
          let ctx = \<lparr>ns_chan = label window, serv1 = h0, serv2 = h1\<rparr> in
          (case netsplit_get_split ctx (netsplits st) of
             None \<Rightarrow> (st\<lparr>netsplits := netsplit_create ctx nick (ev_now env) (netsplits st)\<rparr>, [])
           | Some i \<Rightarrow>
               let s = netsplits st ! i in
               if \<not> join_begun s then (st\<lparr>netsplits := (netsplits st)[i := s\<lparr>nicks := nicks s @ [nick]\<rparr>]\<rparr>, [])
               else (st, [Log ''handle_quit: netjoin already begun'']))
      | None \<Rightarrow>
          if joins_parts_quits env then
            let t = ev_theme env in
            (st, [Print (Some (w_ptr window)) TYPE_SPEC1_SPEC2
               (COLOR2 t @ nick @ ch_normal @ '' '' @ in_brackets t (user @ ''@'' @ host) @
                '' has quit '' @ in_brackets t msg)])
          else (st, []))"

definition event_quit :: "ev_env \<Rightarrow> irc_message_compo \<Rightarrow> ev_state \<Rightarrow> ev_result" where
  "event_quit env compo st =
     (let msg = skip_colon (params_of compo) in
      case sender ''no prefix'' ''unable to get nickname'' ''<no user>'' ''<no host>'' compo of
        Inl e \<Rightarrow> (st, [event_error ''event_quit'' compo e st])
      | Inr (nick, user, host) \<Rightarrow>
          channel_loop (\<lambda>w st. case event_names_htbl_remove nick (label w) st of
              (False, r) \<Rightarrow> r
            | (True, r) \<Rightarrow> then_do r (handle_quit env w msg nick user host)) st)"

section \<open>Topics and the home page\<close>

text \<open>A message for the window of a channel, or the reason why there is none.\<close>

definition chan_message ::
    "string \<Rightarrow> irc_message_compo \<Rightarrow> string + (string \<times> (ev_state \<Rightarrow> string + string \<times> ev_state)) \<Rightarrow> ev_state \<Rightarrow> ev_result" where
  "chan_message func compo r st =
     (case r of
        Inl e \<Rightarrow> (st, [event_error func compo e st])
      | Inr (channel, f) \<Rightarrow>
          (case win st channel of
             None \<Rightarrow> (st, [event_error func compo ''window lookup error'' st])
           | Some w \<Rightarrow>
               (case f st of
                  Inl e \<Rightarrow> (st, [event_error func compo e st])
                | Inr (text, st') \<Rightarrow> (st', [Print (Some (w_ptr w)) TYPE_SPEC1 text]))))"

definition bracketed_channel :: "theme \<Rightarrow> string \<Rightarrow> string" where
  "bracketed_channel t channel = LEFT_BRKT t @ COLOR1 t @ channel @ ch_normal @ RIGHT_BRKT t"

text \<open>\<^verbatim>\<open><recipient> <channel> :<text>\<close>, with the messages for a missing channel and text.\<close>

definition channel_and_text :: "string \<Rightarrow> string \<Rightarrow> irc_message_compo \<Rightarrow> string + string \<times> string" where
  "channel_and_text no_channel no_text compo =
     (let (fed, ps) = strFeed (params_of compo) 2 in
      if fed \<noteq> 2 then Inl ''strFeed''
      else let (_, state) = tok nl_sep ps; (channel, state) = tok nl_sep state; (text, _) = tok nl_sep state in
        case channel of None \<Rightarrow> Inl no_channel
        | Some ch \<Rightarrow> (case text of None \<Rightarrow> Inl no_text | Some x \<Rightarrow> Inr (ch, skip_colon x)))"

definition event_chan_hp :: "ev_env \<Rightarrow> irc_message_compo \<Rightarrow> ev_state \<Rightarrow> ev_result" where
  "event_chan_hp env compo st =
     chan_message ''event_chan_hp'' compo
       (case channel_and_text ''unable to get channel'' ''unable to get homepage'' compo of
          Inl e \<Rightarrow> Inl e
        | Inr (ch, homepage) \<Rightarrow> Inr (ch, \<lambda>st. Inr
            (''Homepage for '' @ bracketed_channel (ev_theme env) ch @ '': '' @ homepage, st))) st"

definition event_topic :: "ev_env \<Rightarrow> irc_message_compo \<Rightarrow> ev_state \<Rightarrow> ev_result" where
  "event_topic env compo st =
     chan_message ''event_topic'' compo
       (case channel_and_text ''unable to get channel'' ''unable to get topic'' compo of
          Inl e \<Rightarrow> Inl e
        | Inr (ch, topic) \<Rightarrow> Inr (ch, \<lambda>st. Inr
            (''Topic for '' @ bracketed_channel (ev_theme env) ch @ '': '' @ topic,
             st\<lparr>wins := new_window_title (Some ch) (Some topic) (wins st)\<rparr>))) st"

definition event_topic_chg :: "ev_env \<Rightarrow> irc_message_compo \<Rightarrow> ev_state \<Rightarrow> ev_result" where
  "event_topic_chg env compo st =
     chan_message ''event_topic_chg'' compo
       (case sender ''no prefix'' ''no nickname'' [] [] compo of
          Inl e \<Rightarrow> Inl e
        | Inr (nick, _, _) \<Rightarrow>
            let (fed, ps) = strFeed (params_of compo) 1 in
            if fed \<noteq> 1 then Inl ''strFeed''
            else let (channel, state) = tok nl_sep ps; (topic, _) = tok nl_sep state in
              case channel of None \<Rightarrow> Inl ''unable to get channel''
              | Some ch \<Rightarrow> (case topic of None \<Rightarrow> Inl ''unable to get new topic''
                | Some tp \<Rightarrow> Inr (ch, \<lambda>st. Inr
                    (ch_bold @ nick @ ch_bold @ '' changed the topic of '' @ ch_bold @ ch @ ch_bold @ '' to: '' @
                       skip_colon tp,
                     st\<lparr>wins := new_window_title (Some ch) (Some (skip_colon tp)) (wins st)\<rparr>)))) st"

definition event_topic_creator :: "ev_env \<Rightarrow> irc_message_compo \<Rightarrow> ev_state \<Rightarrow> ev_result" where
  "event_topic_creator env compo st =
     chan_message ''event_topic_creator'' compo
       (let (fed, ps) = strFeed (params_of compo) 3 in
        if fed \<noteq> 3 then Inl ''strFeed''
        else let (_, state) = tok nl_sep ps; (channel, state) = tok nl_sep state;
                 (creator, state) = tok nl_sep state; (time_str, _) = tok nl_sep state in
          case channel of None \<Rightarrow> Inl ''no channel''
          | Some ch \<Rightarrow> (case creator of None \<Rightarrow> Inl ''no creator''
            | Some cr \<Rightarrow> (case time_str of None \<Rightarrow> Inl ''no time!''
              | Some ts \<Rightarrow> Inr (ch, \<lambda>st.
                  let time = skip_colon ts in
                  if \<not> is_numeric (Some time) then Inl ''expected numeric string''
                  else case local_time env (fst (strtol_digits time)) of
                    None \<Rightarrow> Inl ''localtime_r: unable to retrieve tm structure''
                  | Some tbuf \<Rightarrow>
                      if tbuf = [] then Inl ''strftime: zero return''
                      else let (nick, s) = tok user_seps cr in
                        (case nick of None \<Rightarrow> Inl ''no nickname''
                         | Some n \<Rightarrow>
                             let (user, s) = tok user_seps s; (host, _) = tok user_seps s; t = ev_theme env in
                             Inr (''Topic set by '' @ ch_bold @ n @ ch_bold @ '' '' @
                               (case (user, host) of
                                  (Some u, Some h) \<Rightarrow> in_brackets t (u @ ''@'' @ h) @ '' ''
                                | _ \<Rightarrow> []) @ in_brackets t (trim tbuf), st)))))) st"

end
