(* ===== verification/Channel_Laws.thy ===== *)
theory Channel_Laws
  imports Channel
begin

text \<open>
  What holds of the channel events: the invariant of the members under every handler, the effect of
  a change of nickname, and the two ways in which a message of the server does harm.
\<close>

section \<open>The invariant under the operations\<close>

text \<open>Every channel satisfies an invariant of its names.\<close>

definition ev_ok :: "(chan_names \<Rightarrow> bool) \<Rightarrow> ev_env \<Rightarrow> ev_state \<Rightarrow> bool" where
  "ev_ok names_inv env st \<longleftrightarrow> windows_ok (wins st) \<and> (\<forall>w\<in>set (windows (wins st)). names_inv (w_names w))
     \<and> g_ntotal_windows (wins st) \<le> max_chat_windows (ev_win env)"

lemma ev_ok_fields [simp]:
  "ev_ok names_inv env (st\<lparr>netsplits := n\<rparr>) = ev_ok names_inv env st" "ev_ok names_inv env (st\<lparr>irc := g\<rparr>) = ev_ok names_inv env st"
  "ev_ok names_inv env (st\<lparr>names_channel := c\<rparr>) = ev_ok names_inv env st"
  by (simp_all add: ev_ok_def)

lemma ntotal_upd [simp]: "g_ntotal_windows (wins (upd_win p f st)) = g_ntotal_windows (wins st)"
  by (simp add: upd_win_def upd_window_def)

lemma ntotal_set [simp]: "g_ntotal_windows (wins (set_win_names p ns st)) = g_ntotal_windows (wins st)"
  by (simp add: set_win_names_def)

lemma set_win_names_ok: "\<lbrakk>ev_ok names_inv env st; names_inv ns\<rbrakk> \<Longrightarrow> ev_ok names_inv env (set_win_names p ns st)"
  using upd_win_ok [of st "\<lambda>w. w\<lparr>w_names := ns\<rparr>" p]
  by (auto simp: ev_ok_def set_win_names_def upd_win_windows)

lemma win_names_ok: "\<lbrakk>ev_ok names_inv env st; win st lbl = Some w\<rbrakk> \<Longrightarrow> names_inv (w_names w)"
  using win_in_windows(1) by (auto simp: ev_ok_def)

lemma counter_set_names [simp]: "counter r (set_names nick f w) = counter r w"
  by (cases r) simp_all

section \<open>Privileges that are taken away\<close>

text \<open>The privilege of a letter, and whether a member who is about to lose it has it.\<close>

definition has_mode :: "char \<Rightarrow> names \<Rightarrow> bool" where
  "has_mode c m \<longleftrightarrow> (c = CHR ''q'' \<longrightarrow> is_owner m) \<and> (c = CHR ''a'' \<longrightarrow> is_superop m) \<and> (c = CHR ''o'' \<longrightarrow> is_op m)
     \<and> (c = CHR ''h'' \<longrightarrow> is_halfop m) \<and> (c = CHR ''v'' \<longrightarrow> is_voice m)"

definition loses_held :: "char \<Rightarrow> plus_minus_state \<Rightarrow> names option \<Rightarrow> bool" where
  "loses_held c pm mem \<longleftrightarrow> pm \<noteq> STATE_MINUS \<or> (case mem of None \<Rightarrow> True | Some m \<Rightarrow> has_mode c m)"

text \<open>A message that takes away only what the members have when their letter comes.\<close>

primrec modes_held :: "ev_env \<Rightarrow> string \<Rightarrow> string \<Rightarrow> plus_minus_state \<Rightarrow> string list \<Rightarrow> ev_state \<Rightarrow> bool" where
  "modes_held env channel [] pm_state ps st = True"
| "modes_held env channel (c # cp) pm_state ps st =
     (case ps of [] \<Rightarrow> True
      | nick # rest \<Rightarrow> loses_held c pm_state (member st channel nick) \<and>
          modes_held env channel cp (mode_sign c pm_state) (if takes_param c pm_state then rest else ps)
            (fst (mode_letter env channel c pm_state nick st)))"

text \<open>A message without a minus sign takes nothing away.\<close>

lemma plus_held: "\<lbrakk>pm \<noteq> STATE_MINUS; CHR ''-'' \<notin> set modes\<rbrakk> \<Longrightarrow> modes_held env chan modes pm ps st"
  by (induction modes arbitrary: pm ps st) (auto simp: mode_sign_def loses_held_def split: list.split)

definition stats_held :: "ev_env \<Rightarrow> string \<Rightarrow> string \<Rightarrow> ev_state \<Rightarrow> bool" where
  "stats_held env channel input st =
     (case strtok_r '' '' input of None \<Rightarrow> True
      | Some (modes, state) \<Rightarrow>
          modes_held env channel modes STATE_NEITHER_PM (take max_mode_params (strtoks '' '' state)) st)"

text \<open>Channel and text of a message, as the handler reads them.\<close>

definition mode_change :: "irc_message_compo \<Rightarrow> (string \<times> string) option" where
  "mode_change compo =
     (let (channel, state) = tok nl_sep (snd (strFeed (params_of compo) 1)); (next_token, _) = tok nl_sep state in
      case (channel, next_token) of (Some ch, Some nt) \<Rightarrow> Some (ch, trim (mode_token nt)) | _ \<Rightarrow> None)"

definition takes_held :: "ev_env \<Rightarrow> irc_message_compo \<Rightarrow> ev_state \<Rightarrow> bool" where
  "takes_held env compo st = (case mode_change compo of None \<Rightarrow> True | Some (ch, t) \<Rightarrow> stats_held env ch t st)"

lemma fst_then_do [simp]: "fst (then_do r f) = fst (f (fst r))"
  by (simp add: then_do_def split: prod.splits)

section \<open>The operations keep an invariant\<close>

context names_invariant
begin

lemma hInstall_keeps: "ev_ok names_inv env st \<Longrightarrow> ev_ok names_inv env (snd (hInstall chan m st))"
  using set_win_names_ok [of names_inv env st] inv_link win_names_ok [of names_inv env st chan]
  by (auto simp: hInstall_def already_iff nick_ok_def split: option.split)

lemma insert_keeps: "ev_ok names_inv env st \<Longrightarrow> ev_ok names_inv env (fst (snd (event_names_htbl_insert nick chan st)))"
  using hInstall_keeps [of env st chan "with_privs nick []"]
  by (cases "hInstall chan (with_privs nick []) st"; cases "fst (hInstall chan (with_privs nick []) st)")
    (auto simp: event_names_htbl_insert_def)

lemma remove_keeps:
  assumes ok: "ev_ok names_inv env st"
  shows "ev_ok names_inv env (fst (snd (event_names_htbl_remove nick chan st)))"
proof (cases "win st chan")
  case (Some w)
  have n: "names_inv (w_names w)" using win_names_ok [OF ok Some] .
  have "ev_ok names_inv env (set_win_names (w_ptr w) (Names_Table.hUndef (w_names w) m) st)"
    if "names_lookup (w_names w) nick = Some m" for m
    using set_win_names_ok [OF ok] inv_undef [OF n] found_ok(3) [OF inv_table [OF n] that] by blast
  then show ?thesis using ok Some by (simp add: event_names_htbl_remove_def split: option.split)
qed (simp add: event_names_htbl_remove_def ok)

lemma remove_all_keeps: "ev_ok names_inv env st \<Longrightarrow> ev_ok names_inv env (upd_win p event_names_htbl_remove_all st)"
proof -
  assume ok: "ev_ok names_inv env st"
  have "windows_ok (wins (upd_win p event_names_htbl_remove_all st))"
    using ok by (intro upd_win_ok) (auto simp: ev_ok_def)
  moreover have "names_inv (w_names (event_names_htbl_remove_all w))" if "names_inv (w_names w)" for w
    using that inv_table [OF that] remove_chains_empty [of "w_names w"] inv_none by (simp add: event_names_htbl_remove_all_def)
  ultimately show ?thesis using ok by (auto simp: ev_ok_def upd_win_windows)
qed

lemma set_member_keeps:
  assumes "ev_ok names_inv env st" "\<And>m. m_nick (f m) = m_nick m" "\<And>m. rank (f m) = rank m"
  shows "ev_ok names_inv env (set_member nick chan f st)"
proof (cases "win st chan")
  case (Some w)
  have n: "names_inv (w_names w)" using win_names_ok [OF assms(1) Some] .
  have "names_inv (set_names nick f (w_names w))"
  proof (cases "names_lookup (w_names w) nick")
    case None
    have "upd_first P f xs = xs" if "find P xs = None" for P and xs :: "names list"
      using that by (induction xs) (auto split: if_splits)
    then have "set_names nick f (w_names w) = w_names w" using None by (simp add: set_names_def names_lookup_def)
    then show ?thesis using n by simp
  qed (use inv_same n assms(2,3) in blast)
  then show ?thesis using set_win_names_ok assms(1) Some by (simp add: set_member_def)
qed (use assms in \<open>simp add: set_member_def\<close>)

lemma spawn_keeps:
  assumes "ev_ok names_inv env st" "\<forall>p. panel_ok (ev_win env) p"
  shows "\<exists>e ws who. spawn_chat_window (ev_win env) lbl ttl (wins st) = Some (e, ws, who) \<and> ev_ok names_inv env (st\<lparr>wins := ws\<rparr>)"
proof -
  have ok: "windows_ok (wins st)" "g_ntotal_windows (wins st) \<le> max_chat_windows (ev_win env)"
    using assms(1) by (simp_all add: ev_ok_def)
  obtain e ws who where s: "spawn_chat_window (ev_win env) lbl ttl (wins st) = Some (e, ws, who)" "windows_ok ws"
    "g_ntotal_windows ws \<le> max_chat_windows (ev_win env)"
    using spawn_branches [OF ok(1) assms(2) ok(2)] by blast
  have "length (win_state.hash_table (wins st)) = HASH_SIZE"
    using ok(1) by (simp add: windows_ok_def registry_ok_def Window.table_ok_def chains_ok_def)
  then have "\<forall>v\<in>set (windows ws). names_inv (w_names v)"
    using spawn_members [OF s(1)] assms(1) inv_none by (auto simp: ev_ok_def)
  then show ?thesis using s by (simp add: ev_ok_def)
qed

lemma destroy_keeps:
  assumes "ev_ok names_inv env st" "\<forall>p. panel_ok (ev_win env) p"
  shows "\<exists>e ws. destroy_chat_window (ev_win env) lbl (wins st) = Some (e, ws) \<and> ev_ok names_inv env (st\<lparr>wins := ws\<rparr>)"
proof -
  have ok: "windows_ok (wins st)" "g_ntotal_windows (wins st) \<le> max_chat_windows (ev_win env)"
    using assms(1) by (simp_all add: ev_ok_def)
  obtain e ws where d: "destroy_chat_window (ev_win env) lbl (wins st) = Some (e, ws)" "windows_ok ws"
    "g_ntotal_windows ws \<le> g_ntotal_windows (wins st)"
    using destroy_branches [OF ok(1) assms(2)] by blast
  have "\<forall>v\<in>set (windows ws). \<exists>u\<in>set (windows (wins st)). w_names v = w_names u"
  proof (cases "lbl = None \<or> lbl = Some [] \<or> strings_match_ignore_case (the lbl) g_status_window_label
      \<or> window_by_label (wins st) lbl = None")
    case True
    then show ?thesis using d(1) by (auto simp: destroy_chat_window_def split: if_splits)
  next
    case False
    then obtain k w where k: "lbl = Some k" "k \<noteq> []" and w: "window_by_label (wins st) lbl = Some w" by (cases lbl) auto
    then have m: "w \<in> set (windows (wins st))" "strings_match_ignore_case k (label w)"
      using ok(1) window_by_label_iff [of "wins st" "next_ptr (wins st)" k w] by (auto simp: windows_ok_def registry_ok_def)
    have "\<not> is_status w" using False k(1) m(2) by (simp add: is_status_def smic_fold)
    then obtain st' A B where s: "destroy_chat_window (ev_win env) (Some k) (wins st) = Some (OK0, st')"
      "windows (wins st) = A @ w # B" "same_but_refnum (A @ B) (windows st')"
      using destroy_ok [OF ok(1) assms(2) m(1) _ m(2)] by blast
    have ws: "ws = st'" using s(1) d(1) k(1) by simp
    show ?thesis
    proof
      fix v assume "v \<in> set (windows ws)"
      then have "v\<lparr>refnum := 0\<rparr> \<in> set (map (\<lambda>w. w\<lparr>refnum := 0\<rparr>) (windows st'))" using ws by simp
      then have "v\<lparr>refnum := 0\<rparr> \<in> set (map (\<lambda>w. w\<lparr>refnum := 0\<rparr>) (A @ B))"
        using s(3) by (simp only: same_but_refnum_def)
      then obtain u where u: "u \<in> set (A @ B)" "v\<lparr>refnum := 0\<rparr> = u\<lparr>refnum := 0\<rparr>" by auto
      have "w_names v = w_names u" using arg_cong [OF u(2), of w_names] by simp
      then show "\<exists>u\<in>set (windows (wins st)). w_names v = w_names u" using u(1) s(2) by auto
    qed
  qed
  then show ?thesis using d ok(2) assms(1) by (force simp: ev_ok_def)
qed

lemma title_keeps: "ev_ok names_inv env st \<Longrightarrow> ev_ok names_inv env (st\<lparr>wins := new_window_title l t (wins st)\<rparr>)"
proof -
  assume ok: "ev_ok names_inv env st"
  have w: "windows (upd_window p f s) = map (\<lambda>w. if w_ptr w = p then f w else w) (windows s)" for p f s
    by (simp add: upd_window_def windows_def map_concat)
  have "\<forall>v\<in>set (windows (new_window_title l t (wins st))). \<exists>u\<in>set (windows (wins st)). w_names v = w_names u"
    by (auto simp: new_window_title_def w split: option.split)
  then show ?thesis
    using ok new_window_title_ok change_ntotal(6) by (force simp: ev_ok_def)
qed

section \<open>The handlers keep the invariant\<close>

lemma htbl_modify_keeps:
  assumes "ev_ok names_inv env st"
    and "\<And>w m. \<lbrakk>names_inv w; names_lookup w nick = Some m; exact \<Longrightarrow> P m\<rbrakk> \<Longrightarrow> \<exists>w'. modify nick flag w = Some w' \<and> names_inv w'"
    and "\<And>m. \<lbrakk>exact; member st chan nick = Some m\<rbrakk> \<Longrightarrow> P m"
  shows "ev_ok names_inv env (fst (snd (htbl_modify modify quiet env nick chan flag st)))"
proof (cases "win st chan")
  case (Some w)
  have n: "names_inv (w_names w)" using win_names_ok [OF assms(1) Some] .
  show ?thesis
  proof (cases "names_lookup (w_names w) nick")
    case None
    then show ?thesis using assms(1) Some by (simp add: htbl_modify_def)
  next
    case m: (Some m)
    have "exact \<Longrightarrow> P m" using assms(3) [of m] Some m by (simp add: member_def)
    then obtain w' where "modify nick flag (w_names w) = Some w'" "names_inv w'"
      using assms(2) [OF n m] by blast
    then show ?thesis using assms(1) Some m set_win_names_ok [of names_inv] by (simp add: htbl_modify_def)
  qed
qed (use assms in \<open>simp add: htbl_modify_def\<close>)

text \<open>A privilege is set, or taken; if the counters matter, from a member who has it.\<close>

lemma modify_keeps:
  assumes "ev_ok names_inv env st"
  shows "(\<And>m. \<lbrakk>exact; member st chan nick = Some m\<rbrakk> \<Longrightarrow> flag \<or> is_owner m) \<Longrightarrow>
      ev_ok names_inv env (fst (snd (names_htbl_modify_owner env nick chan flag st)))"
    "(\<And>m. \<lbrakk>exact; member st chan nick = Some m\<rbrakk> \<Longrightarrow> flag \<or> is_superop m) \<Longrightarrow>
      ev_ok names_inv env (fst (snd (names_htbl_modify_superop env nick chan flag st)))"
    "(\<And>m. \<lbrakk>exact; member st chan nick = Some m\<rbrakk> \<Longrightarrow> flag \<or> is_op m) \<Longrightarrow>
      ev_ok names_inv env (fst (snd (names_htbl_modify_op env nick chan flag st)))"
    "(\<And>m. \<lbrakk>exact; member st chan nick = Some m\<rbrakk> \<Longrightarrow> flag \<or> is_halfop m) \<Longrightarrow>
      ev_ok names_inv env (fst (snd (names_htbl_modify_halfop env nick chan flag st)))"
    "(\<And>m. \<lbrakk>exact; member st chan nick = Some m\<rbrakk> \<Longrightarrow> flag \<or> is_voice m) \<Longrightarrow>
      ev_ok names_inv env (fst (snd (names_htbl_modify_voice env nick chan flag st)))"
  unfolding names_htbl_modify_owner_def names_htbl_modify_superop_def names_htbl_modify_op_def
    names_htbl_modify_halfop_def names_htbl_modify_voice_def
  by (erule htbl_modify_keeps [OF assms, rotated]; rule inv_owner inv_superop inv_op inv_halfop inv_voice; assumption)+

lemma plus_keeps:
  assumes "ev_ok names_inv env st"
  shows "ev_ok names_inv env (fst (snd (names_htbl_modify_owner env nick chan True st)))"
    "ev_ok names_inv env (fst (snd (names_htbl_modify_superop env nick chan True st)))"
    "ev_ok names_inv env (fst (snd (names_htbl_modify_op env nick chan True st)))"
    "ev_ok names_inv env (fst (snd (names_htbl_modify_halfop env nick chan True st)))"
    "ev_ok names_inv env (fst (snd (names_htbl_modify_voice env nick chan True st)))"
  by (simp_all add: modify_keeps [OF assms])

lemma chg_status_keeps:
  assumes "ev_ok names_inv env st" "pm = STATE_PLUS \<Longrightarrow> ev_ok names_inv env (fst (snd (modify nick chan True st)))"
    "pm = STATE_MINUS \<Longrightarrow> ev_ok names_inv env (fst (snd (modify nick chan False st)))"
  shows "ev_ok names_inv env (fst (chg_status modify func pm nick chan st))"
  using assms by (cases pm) (auto simp: chg_status_def split: prod.splits bool.splits)

lemma mode_letter_keeps:
  assumes "ev_ok names_inv env st" "exact \<Longrightarrow> loses_held c pm (member st chan nick)"
  shows "ev_ok names_inv env (fst (mode_letter env chan c pm nick st))"
proof -
  have h: "has_mode c m" if exact "pm = STATE_MINUS" "member st chan nick = Some m" for m
    using assms(2) that by (simp add: loses_held_def)
  note chg = chg_status_keeps [OF assms(1)]
  consider "c = CHR ''q''" | "c = CHR ''a''" | "c = CHR ''o''" | "c = CHR ''h''" | "c = CHR ''v''"
    | "c \<noteq> CHR ''q''" "c \<noteq> CHR ''a''" "c \<noteq> CHR ''o''" "c \<noteq> CHR ''h''" "c \<noteq> CHR ''v''" by blast
  then show ?thesis
  proof cases
    case 1
    then show ?thesis using assms(1) chg [of pm "names_htbl_modify_owner env"] modify_keeps(1) [OF assms(1)] plus_keeps(1) [OF assms(1)] h
      by (simp add: mode_letter_def chg_status_for_owner_def has_mode_def)
  next
    case 2
    then show ?thesis using chg [of pm "names_htbl_modify_superop env"] modify_keeps(2) [OF assms(1)] plus_keeps(2) [OF assms(1)] h
      by (simp add: mode_letter_def chg_status_for_superop_def has_mode_def)
  next
    case 3
    then show ?thesis using chg [of pm "names_htbl_modify_op env"] modify_keeps(3) [OF assms(1)] plus_keeps(3) [OF assms(1)] h
      by (simp add: mode_letter_def chg_status_for_op_def has_mode_def)
  next
    case 4
    then show ?thesis using chg [of pm "names_htbl_modify_halfop env"] modify_keeps(4) [OF assms(1)] plus_keeps(4) [OF assms(1)] h
      by (simp add: mode_letter_def chg_status_for_halfop_def has_mode_def)
  next
    case 5
    then show ?thesis using chg [of pm "names_htbl_modify_voice env"] modify_keeps(5) [OF assms(1)] plus_keeps(5) [OF assms(1)] h
      by (simp add: mode_letter_def chg_status_for_voice_def has_mode_def)
  qed (use assms(1) in \<open>simp add: mode_letter_def\<close>)
qed

lemma modes_loop_keeps:
  "\<lbrakk>ev_ok names_inv env st; exact \<Longrightarrow> modes_held env chan modes pm ps st\<rbrakk> \<Longrightarrow> ev_ok names_inv env (fst (modes_loop env chan modes pm ps st))"
  by (induction modes arbitrary: pm ps st) (auto simp: mode_letter_keeps split: list.splits)

lemma stats_keeps:
  assumes "ev_ok names_inv env st" "exact \<Longrightarrow> stats_held env chan input st"
  shows "ev_ok names_inv env (fst (maintain_channel_stats env chan input st))"
proof (cases "strtok_r '' '' input")
  case (Some t)
  then show ?thesis
    using assms modes_loop_keeps [OF assms(1)] by (cases t) (simp add: maintain_channel_stats_def stats_held_def)
qed (use assms in \<open>simp add: maintain_channel_stats_def\<close>)

lemma rename_keeps:
  assumes "ev_ok names_inv env st"
  shows "ev_ok names_inv env (fst (snd (RemoveAndInsertNick env old new lbl st)))"
proof (cases "event_names_htbl_lookup old lbl st")
  case None
  then show ?thesis using assms by (simp add: RemoveAndInsertNick_def)
next
  case (Some p)
  obtain b st1 acts1 where r: "event_names_htbl_remove old lbl st = (b, st1, acts1)"
    by (cases "event_names_htbl_remove old lbl st") auto
  obtain b2 st2 acts2 where i: "event_names_htbl_insert new lbl st1 = (b2, st2, acts2)"
    by (cases "event_names_htbl_insert new lbl st1") auto
  have ok1: "ev_ok names_inv env st1" using remove_keeps [OF assms, of old lbl] r by simp
  have ok2: "ev_ok names_inv env st2" using insert_keeps [OF ok1, of new lbl] i by simp
  have ok3: "ev_ok names_inv env (set_member new lbl (\<lambda>m. m\<lparr>m_account := a, m_rl_name := l\<rparr>) st2)" for a l
    by (rule set_member_keeps [OF ok2]) (simp_all add: rank_def)
  note keeps = chg_status_keeps [where pm = STATE_PLUS, simplified] plus_keeps
  have chg: "ev_ok names_inv env (fst (chg_status_for_owner env STATE_PLUS n c s))" "ev_ok names_inv env (fst (chg_status_for_superop env STATE_PLUS n c s))"
    "ev_ok names_inv env (fst (chg_status_for_op env STATE_PLUS n c s))" "ev_ok names_inv env (fst (chg_status_for_halfop env STATE_PLUS n c s))"
    "ev_ok names_inv env (fst (chg_status_for_voice env STATE_PLUS n c s))" if "ev_ok names_inv env s" for n c s
    using that keeps [OF that] by (simp_all add: chg_status_for_owner_def chg_status_for_superop_def chg_status_for_op_def
        chg_status_for_halfop_def chg_status_for_voice_def)
  show ?thesis using Some r i ok1 ok2 ok3 chg by (simp add: RemoveAndInsertNick_def Let_def split: bool.split)
qed

lemma channel_loop_keeps:
  assumes "ev_ok names_inv env st" "\<And>w s. ev_ok names_inv env s \<Longrightarrow> ev_ok names_inv env (fst (body w s))"
  shows "ev_ok names_inv env (fst (channel_loop body st))"
proof -
  let ?step = "\<lambda>i r. then_do r (\<lambda>st. case window_by_refnum (wins st) i of
            None \<Rightarrow> (st, [])
          | Some w \<Rightarrow> if is_irc_channel (Some (label w)) then body w st else (st, []))"
  have "ev_ok names_inv env (fst (fold ?step xs r))" if "ev_ok names_inv env (fst r)" for xs r
    using that
  proof (induction xs arbitrary: r)
    case (Cons i xs)
    have "ev_ok names_inv env (fst (?step i r))" using Cons.prems assms(2) by (simp split: option.split)
    then show ?case using Cons.IH by simp
  qed simp
  then show ?thesis using assms(1) by (simp add: channel_loop_def)
qed

lemma nick_keeps:
  assumes "ev_ok names_inv env st"
  shows "\<exists>r. event_nick env compo st = Some r \<and> ev_ok names_inv env (fst r)
    \<or> event_nick env compo st = None \<and> skip_colon (params_of compo) = []"
proof (cases "sender ''no prefix'' ''no nickname'' [] [] compo")
  case (Inl e)
  then show ?thesis using assms by (simp add: event_nick_def Let_def)
next
  case (Inr u)
  obtain nick user host where u: "u = (nick, user, host)" by (cases u)
  let ?body = "\<lambda>w st. case RemoveAndInsertNick env nick (skip_colon (params_of compo)) (label w) st of
                  (False, r) \<Rightarrow> r
                | (True, r) \<Rightarrow> then_do r (\<lambda>st. (st, [Print (Some (w_ptr w)) TYPE_SPEC1_SPEC2
                    (COLOR2 (ev_theme env) @ nick @ ch_normal @ '' is now known as '' @ THE_SPEC2 (ev_theme env) @ '' '' @
                     COLOR1 (ev_theme env) @ skip_colon (params_of compo) @ ch_normal)]))"
  have "ev_ok names_inv env (fst (?body w s))" if "ev_ok names_inv env s" for w s
    using rename_keeps [OF that, of nick "skip_colon (params_of compo)" "label w"] by (auto split: prod.splits bool.splits)
  then have "ev_ok names_inv env (fst (channel_loop ?body st))" by (rule channel_loop_keeps [OF assms])
  then show ?thesis using Inr u
    by (auto simp: event_nick_def Let_def irc_set_my_nickname_def split: prod.splits option.splits)
qed

lemma join_step_keeps:
  assumes "ev_ok names_inv env st" "\<forall>p. panel_ok (ev_win env) p"
  shows "\<exists>e st' acts. join_perform_some_tasks env ch nick acc rl st = Some (e, st', acts) \<and> ev_ok names_inv env st'"
proof -
  obtain e ws who where s: "spawn_chat_window (ev_win env) (Some ch) (Some ''No title.'') (wins st) = Some (e, ws, who)"
    "ev_ok names_inv env (st\<lparr>wins := ws\<rparr>)" using spawn_keeps [OF assms] by blast
  obtain b st1 acts1 where i: "event_names_htbl_insert nick ch st = (b, st1, acts1)"
    by (cases "event_names_htbl_insert nick ch st") auto
  have ok1: "ev_ok names_inv env st1" using insert_keeps [OF assms(1), of nick ch] i by simp
  have ok2: "ev_ok names_inv env (set_member n c (\<lambda>m. m\<lparr>m_account := a, m_rl_name := l\<rparr>) st1)" for n c a l
    by (rule set_member_keeps [OF ok1]) (simp_all add: rank_def)
  obtain e2 st2 acts2 where a: "auto_op env ch nick (st\<lparr>wins := ws\<rparr>) = (e2, st2, acts2)"
    by (cases "auto_op env ch nick (st\<lparr>wins := ws\<rparr>)") auto
  then have ok3: "ev_ok names_inv env st2" using s(2) by (auto simp: auto_op_def split: if_splits)
  show ?thesis
  proof (cases "valid_channel ch")
    case False
    then show ?thesis using assms(1) by (simp add: join_perform_some_tasks_def)
  next
    case valid: True
    show ?thesis
    proof (cases "strings_match_ignore_case nick (my_nick st)")
      case True
      then show ?thesis using valid s a ok3 by (cases e) (simp_all add: join_perform_some_tasks_def)
    next
      case False
      then show ?thesis using valid i ok1 ok2
        by (cases b) (simp_all add: join_perform_some_tasks_def Let_def split: option.split)
    qed
  qed
qed

lemma chk_split_keeps: "ev_ok names_inv env st \<Longrightarrow> ev_ok names_inv env (fst (snd (chk_split env nick ch st)))"
  by (auto simp: chk_split_def split: option.split prod.split bool.split)

lemma join_act_keeps:
  assumes "ev_ok names_inv env st" "\<forall>p. panel_ok (ev_win env) p"
  shows "\<exists>r. join_act env compo nick user host ch acc rl st = Some r \<and> ev_ok names_inv env (fst r)"
proof -
  obtain e st1 acts where j: "join_perform_some_tasks env ch nick acc rl st = Some (e, st1, acts)" "ev_ok names_inv env st1"
    using join_step_keeps [OF assms] by blast
  obtain ce st2 split where k: "chk_split env nick ch st1 = (ce, st2, split)"
    by (cases "chk_split env nick ch st1") auto
  have "ev_ok names_inv env st2" using chk_split_keeps [OF j(2), of nick ch] k by simp
  then show ?thesis
    unfolding join_act_def j(1) using j(2) k
    by (cases e; cases ce; cases "win st2 ch") (simp_all add: Let_def)
qed

lemma join_keeps:
  assumes "ev_ok names_inv env st" "\<forall>p. panel_ok (ev_win env) p"
  shows "\<exists>r. event_join env compo st = Some r \<and> ev_ok names_inv env (fst r)"
  using assms(1) join_act_keeps [OF assms]
  by (auto simp: event_join_def Let_def split: sum.split prod.split option.split)

lemma kick_keeps:
  assumes "ev_ok names_inv env st" "\<forall>p. panel_ok (ev_win env) p"
  shows "\<exists>r. event_kick env compo st = Some r \<and> ev_ok names_inv env (fst r)"
proof -
  have all: "ev_ok names_inv env (case win s ch of None \<Rightarrow> s | Some w \<Rightarrow> upd_win (w_ptr w) event_names_htbl_remove_all s)"
    if "ev_ok names_inv env s" for s ch
    using that remove_all_keeps by (simp split: option.split)
  have "\<exists>e st' acts. kick_step env ch v st = Some (e, st', acts) \<and> ev_ok names_inv env st'" for ch v
  proof (cases "strings_match_ignore_case v (my_nick st)")
    case True
    obtain e ws where d: "destroy_chat_window (ev_win env) (Some ch) (wins st) = Some (e, ws)" "ev_ok names_inv env (st\<lparr>wins := ws\<rparr>)"
      using destroy_keeps [OF assms] by blast
    show ?thesis using True d all [OF d(2), of ch] all [OF assms(1), of ch]
      by (cases e) (simp_all add: kick_step_def)
  next
    case False
    obtain b s acts where r: "event_names_htbl_remove v ch st = (b, s, acts)"
      by (cases "event_names_htbl_remove v ch st") auto
    then have "ev_ok names_inv env s" using remove_keeps [OF assms(1), of v ch] by simp
    then show ?thesis using False r by (cases b) (simp_all add: kick_step_def)
  qed
  moreover have "fst (kick_message env compo nick ch v reason (e, s, acts)) = s" for nick ch v reason e s acts
    by (cases e) (simp_all add: kick_message_def Let_def)
  ultimately have "\<exists>r. map_option (kick_message env compo nick ch v reason) (kick_step env ch v st) = Some r \<and> ev_ok names_inv env (fst r)"
    for nick ch v reason by (metis option.map(2))
  then show ?thesis using assms(1) by (auto simp: event_kick_def Let_def split: sum.split prod.split option.split)
qed

lemma part_keeps:
  assumes "ev_ok names_inv env st" "\<forall>p. panel_ok (ev_win env) p"
  shows "\<exists>r. event_part env compo st = Some r \<and> ev_ok names_inv env (fst r)"
proof -
  have "\<exists>r. part_act env compo nick user host ch msg st = Some r \<and> ev_ok names_inv env (fst r)" for nick user host ch msg
  proof (cases "strings_match_ignore_case nick (my_nick st)")
    case True
    obtain e ws where d: "destroy_chat_window (ev_win env) (Some ch) (wins st) = Some (e, ws)" "ev_ok names_inv env (st\<lparr>wins := ws\<rparr>)"
      using destroy_keeps [OF assms] by blast
    then show ?thesis using True by (cases e) (simp_all add: part_act_def Let_def)
  next
    case False
    obtain b s acts where r: "event_names_htbl_remove nick ch st = (b, s, acts)"
      by (cases "event_names_htbl_remove nick ch st") auto
    then have "ev_ok names_inv env s" using remove_keeps [OF assms(1), of nick ch] by simp
    then show ?thesis using False r by (cases b; cases "win s ch") (simp_all add: part_act_def Let_def)
  qed
  then show ?thesis using assms(1) by (auto simp: event_part_def Let_def split: sum.split prod.split option.split)
qed

lemma quit_keeps:
  assumes "ev_ok names_inv env st"
  shows "ev_ok names_inv env (fst (event_quit env compo st))"
proof -
  have q: "ev_ok names_inv env (fst (handle_quit env w msg nick user host s))" if "ev_ok names_inv env s" for w msg nick user host s
    using that by (simp add: handle_quit_def Let_def split: option.split prod.split)
  have "ev_ok names_inv env (fst (case event_names_htbl_remove nick (label w) s of
      (False, r) \<Rightarrow> r | (True, r) \<Rightarrow> then_do r (handle_quit env w msg nick user host)))"
    if "ev_ok names_inv env s" for w msg nick user host s
    using remove_keeps [OF that, of nick "label w"] q by (auto split: prod.split bool.split)
  then show ?thesis using assms
    by (simp add: event_quit_def Let_def channel_loop_keeps split: sum.split prod.split)
qed

lemma topics_keep:
  assumes "ev_ok names_inv env st"
  shows "ev_ok names_inv env (fst (event_topic env compo st))" "ev_ok names_inv env (fst (event_topic_chg env compo st))"
    "ev_ok names_inv env (fst (event_topic_creator env compo st))" "ev_ok names_inv env (fst (event_chan_hp env compo st))"
proof -
  have cm: "ev_ok names_inv env (fst (chan_message func compo r st))"
    if "\<And>ch f text st'. \<lbrakk>r = Inr (ch, f); f st = Inr (text, st')\<rbrakk> \<Longrightarrow> ev_ok names_inv env st'" for func r
    using that assms by (auto simp: chan_message_def split: sum.split option.split prod.split)
  show "ev_ok names_inv env (fst (event_topic env compo st))" "ev_ok names_inv env (fst (event_chan_hp env compo st))"
    unfolding event_topic_def event_chan_hp_def
    by (rule cm; use assms title_keeps in \<open>auto split: sum.splits\<close>)+
  show "ev_ok names_inv env (fst (event_topic_chg env compo st))"
    unfolding event_topic_chg_def
    by (rule cm) (use assms title_keeps in \<open>auto simp: Let_def split: sum.splits prod.splits if_splits option.splits\<close>)
  show "ev_ok names_inv env (fst (event_topic_creator env compo st))"
    unfolding event_topic_creator_def
    by (rule cm) (use assms in \<open>auto simp: Let_def split: sum.splits prod.splits if_splits option.splits\<close>)
qed

lemma mode_keeps:
  assumes "ev_ok names_inv env st" "exact \<Longrightarrow> takes_held env compo st"
  shows "ev_ok names_inv env (fst (event_mode env compo st))"
proof -
  have h: "stats_held env ch (trim (mode_token nt)) st"
    if exact "tok nl_sep (snd (strFeed (params_of compo) 1)) = (Some ch, s)" "tok nl_sep s = (Some nt, r)" for ch s nt r
    using assms(2) that by (simp add: takes_held_def mode_change_def)
  show ?thesis
    using assms(1) h stats_keeps [OF assms(1)]
    by (auto simp: event_mode_def Let_def split: sum.split prod.splits option.split)
qed

lemma names_keep:
  assumes "ev_ok names_inv env st"
  shows "ev_ok names_inv env (fst (event_names compo st))" "ev_ok names_inv env (fst (event_eof_names env compo st))"
proof -
  have "ev_ok names_inv env (install_token chan t s)" if "ev_ok names_inv env s" for chan t s
    using that hInstall_keeps by (simp add: install_token_def Let_def)
  then have f: "ev_ok names_inv env (fold (install_token chan) ts s)" if "ev_ok names_inv env s" for chan ts s
    using that by (induction ts arbitrary: s) simp_all
  have u: "ev_ok names_inv env (upd_win p (\<lambda>w. w\<lparr>received_names := True\<rparr>) s)" if "ev_ok names_inv env s" for p s
    using that upd_win_ok [of s "\<lambda>w. w\<lparr>received_names := True\<rparr>" p] by (auto simp: ev_ok_def upd_win_windows)
  show "ev_ok names_inv env (fst (event_names compo st))"
    using assms f by (auto simp: event_names_def names_catch_def Let_def split: prod.split option.split)
  show "ev_ok names_inv env (fst (event_eof_names env compo st))"
    using assms u by (auto simp: event_eof_names_def eof_names_catch_def Let_def split: prod.split option.split)
qed

end

end
