(* ===== verification/Channel_Effects.thy ===== *)
theory Channel_Effects
  imports Channel_Laws
begin

text \<open>
  The effect of the channel events on the members of all channels.  \<open>member st c n\<close> is the
  entry of the name \<open>n\<close> on the channel \<open>c\<close>; apart from the names a message changes nothing of a
  window (\<open>shape\<close>).
\<close>

section \<open>What stays the same\<close>

definition strip :: "irc_window \<Rightarrow> irc_window" where
  "strip w = w\<lparr>w_names := no_names\<rparr>"

definition shape :: "ev_state \<Rightarrow> irc_window list" where
  "shape st = map strip (windows (wins st))"

lemma strip_fields [simp]:
  "label (strip w) = label w" "refnum (strip w) = refnum w" "w_ptr (strip w) = w_ptr w"
  "received_names (strip w) = received_names w"
  by (simp_all add: strip_def)

lemma strip_eqD: "strip v = strip w \<Longrightarrow> label v = label w \<and> refnum v = refnum w \<and> w_ptr v = w_ptr w
    \<and> received_names v = received_names w"
  by (metis strip_fields)

lemma shape_set [simp]: "shape (set_win_names p ns st) = shape st"
  by (auto simp: shape_def set_win_names_def upd_win_windows strip_def)

lemma shape_fields [simp]: "shape (st\<lparr>netsplits := x\<rparr>) = shape st" "shape (st\<lparr>irc := g\<rparr>) = shape st"
  by (simp_all add: shape_def)

lemma member_fields [simp]: "member (st\<lparr>netsplits := x\<rparr>) = member st" "member (st\<lparr>irc := g\<rparr>) = member st"
  by (auto simp: member_def win_def fun_eq_iff)

lemma hInstall_shape [simp]: "shape (snd (hInstall c m st)) = shape st"
  by (simp add: hInstall_def split: option.split)

lemma insert_shape: "event_names_htbl_insert nick c st = (b, st', acts) \<Longrightarrow> shape st' = shape st"
  using hInstall_shape [of c "with_privs nick []" st]
  by (cases "hInstall c (with_privs nick []) st") (auto simp: event_names_htbl_insert_def split: if_splits bool.splits)

lemma remove_shape: "event_names_htbl_remove nick c st = (b, st', acts) \<Longrightarrow> shape st' = shape st"
  by (auto simp: event_names_htbl_remove_def split: if_splits option.splits)

lemma shape_win:
  assumes "shape st = shape st'" "windows_ok (wins st)" "windows_ok (wins st')" "win st c = Some w"
  shows "\<exists>w'. win st' c = Some w' \<and> strip w' = strip w"
proof -
  have w: "w \<in> set (windows (wins st))" "strings_match_ignore_case c (label w)" "c \<noteq> []"
    using win_in_windows [OF assms(2,4)] by simp_all
  have "strip w \<in> set (shape st')" using w(1) assms(1) by (metis shape_def image_eqI set_map)
  then obtain w' where w': "w' \<in> set (windows (wins st'))" "strip w' = strip w" by (auto simp: shape_def)
  have "Window.table_ok (win_state.hash_table (wins st')) (next_ptr (wins st'))"
    using assms(3) by (simp add: windows_ok_def registry_ok_def)
  then have "win st' c = Some w'"
    using window_by_label_iff [of "wins st'" "next_ptr (wins st')" c w'] w w' strip_eqD [OF w'(2)] by (simp add: win_def)
  then show ?thesis using w'(2) by blast
qed

section \<open>Setting a privilege\<close>

lemma modify_effect:
  assumes "members_ok st" "win st chan = Some w" "received_names w \<or> g_icb_mode (ev_win env)"
    and "member st chan nick = Some m"
    and "\<exists>w'. modify nick flag (w_names w) = Some w' \<and> changed nick m' (w_names w) w'"
  shows "\<exists>st' acts. htbl_modify modify quiet env nick chan flag st = (True, st', acts)
    \<and> members_ok st' \<and> shape st' = shape st \<and> (\<exists>ns. win st' chan = Some (w\<lparr>w_names := ns\<rparr>))
    \<and> (\<forall>c n. member st' c n = (if strings_match_ignore_case c chan \<and> strings_match_ignore_case n nick then Some m'
         else member st c n))"
proof -
  have wok: "windows_ok (wins st)" "names_ok (w_names w)" "names_lookup (w_names w) nick = Some m"
    using assms win_members [OF assms(1,2)] by (simp_all add: members_ok_def member_def)
  have ne: "nick \<noteq> []"
  proof
    assume "nick = []"
    then show False using found_ok [of "w_names w" nick m] wok by (auto simp: names_ok_def smic_fold fold_case_def)
  qed
  obtain w' where w': "modify nick flag (w_names w) = Some w'" "changed nick m' (w_names w) w'" using assms(5) by blast
  let ?st = "set_win_names (w_ptr w) w' st"
  have "htbl_modify modify quiet env nick chan flag st = (True, ?st, if quiet m then [] else [Nicklist_draw (w_ptr w)])"
    using ne assms(2,3) wok(3) w'(1) by (simp add: htbl_modify_def)
  moreover have "members_ok ?st" using set_names_ok [OF assms(1)] w'(2) by (simp add: changed_def)
  moreover have "win ?st chan = Some (w\<lparr>w_names := w'\<rparr>)" using set_names_win [OF wok(1) assms(2)] by simp
  moreover have "member ?st c n = (if strings_match_ignore_case c chan \<and> strings_match_ignore_case n nick then Some m'
      else member st c n)" for c n
  proof -
    have "strings_match_ignore_case nick n \<longleftrightarrow> strings_match_ignore_case n nick" using smic_sym by blast
    moreover have "member st c n = names_lookup (w_names w) n" if "strings_match_ignore_case c chan"
      using win_spelling [OF that, of st] assms(2) by (simp add: member_def)
    ultimately show ?thesis using w'(2) by (simp add: set_names_member [OF wok(1) assms(2)] changed_def)
  qed
  ultimately show ?thesis using shape_set by blast
qed

text \<open>\<open>st'\<close> is \<open>st\<close> with the entry of \<open>nick\<close> on \<open>chan\<close> changed to \<open>m'\<close>.\<close>

definition entry_set :: "string \<Rightarrow> string \<Rightarrow> names \<Rightarrow> irc_window \<Rightarrow> ev_state \<Rightarrow> ev_state \<Rightarrow> bool" where
  "entry_set chan nick m' w st st' \<longleftrightarrow> members_ok st' \<and> shape st' = shape st
    \<and> (\<exists>ns. win st' chan = Some (w\<lparr>w_names := ns\<rparr>))
    \<and> (\<forall>c n. member st' c n = (if strings_match_ignore_case c chan \<and> strings_match_ignore_case n nick then Some m'
         else member st c n))"

lemma chg_plus:
  assumes "\<exists>st' acts. modify nick chan True st = (True, st', acts) \<and> entry_set chan nick m' w st st'"
  shows "entry_set chan nick m' w st (fst (chg_status modify func STATE_PLUS nick chan st))"
  using assms by (auto simp: chg_status_def)

lemma set_flags:
  assumes "members_ok st" "win st chan = Some w" "received_names w \<or> g_icb_mode (ev_win env)"
    and "member st chan nick = Some m"
  shows "entry_set chan nick (m\<lparr>is_superop := True\<rparr>) w st (fst (chg_status_for_superop env STATE_PLUS nick chan st))"
    "entry_set chan nick (m\<lparr>is_op := True\<rparr>) w st (fst (chg_status_for_op env STATE_PLUS nick chan st))"
    "entry_set chan nick (m\<lparr>is_halfop := True\<rparr>) w st (fst (chg_status_for_halfop env STATE_PLUS nick chan st))"
    "entry_set chan nick (m\<lparr>is_voice := True\<rparr>) w st (fst (chg_status_for_voice env STATE_PLUS nick chan st))"
    "is_valid_nickname (Some nick) \<Longrightarrow>
       entry_set chan nick (m\<lparr>is_owner := True\<rparr>) w st (fst (chg_status_for_owner env STATE_PLUS nick chan st))"
proof -
  have l: "names_ok (w_names w)" "names_lookup (w_names w) nick = Some m"
    using assms win_members [OF assms(1,2)] by (simp_all add: member_def)
  note eff = modify_effect [OF assms]
  show "entry_set chan nick (m\<lparr>is_superop := True\<rparr>) w st (fst (chg_status_for_superop env STATE_PLUS nick chan st))"
    unfolding chg_status_for_superop_def names_htbl_modify_superop_def entry_set_def [symmetric]
    by (rule chg_plus) (use eff [where modify = modify_superop and m' = "m\<lparr>is_superop := True\<rparr>", OF superop_ok [OF l disjI1 [OF TrueI]]] in \<open>auto simp: entry_set_def\<close>)
  show "entry_set chan nick (m\<lparr>is_op := True\<rparr>) w st (fst (chg_status_for_op env STATE_PLUS nick chan st))"
    unfolding chg_status_for_op_def names_htbl_modify_op_def
    by (rule chg_plus) (use eff [where modify = modify_op and m' = "m\<lparr>is_op := True\<rparr>", OF op_ok [OF l disjI1 [OF TrueI]]] in \<open>auto simp: entry_set_def\<close>)
  show "entry_set chan nick (m\<lparr>is_halfop := True\<rparr>) w st (fst (chg_status_for_halfop env STATE_PLUS nick chan st))"
    unfolding chg_status_for_halfop_def names_htbl_modify_halfop_def
    by (rule chg_plus) (use eff [where modify = modify_halfop and m' = "m\<lparr>is_halfop := True\<rparr>", OF halfop_ok [OF l disjI1 [OF TrueI]]] in \<open>auto simp: entry_set_def\<close>)
  show "entry_set chan nick (m\<lparr>is_voice := True\<rparr>) w st (fst (chg_status_for_voice env STATE_PLUS nick chan st))"
    unfolding chg_status_for_voice_def names_htbl_modify_voice_def
    by (rule chg_plus) (use eff [where modify = modify_voice and m' = "m\<lparr>is_voice := True\<rparr>", OF voice_ok [OF l disjI1 [OF TrueI]]] in \<open>auto simp: entry_set_def\<close>)
  show "entry_set chan nick (m\<lparr>is_owner := True\<rparr>) w st (fst (chg_status_for_owner env STATE_PLUS nick chan st))"
    if "is_valid_nickname (Some nick)"
    using that unfolding chg_status_for_owner_def names_htbl_modify_owner_def
    by (simp, intro chg_plus) (use eff [where modify = modify_owner and m' = "m\<lparr>is_owner := True\<rparr>", OF owner_ok [OF l disjI1 [OF TrueI]]] in \<open>auto simp: entry_set_def\<close>)
qed

section \<open>Changing a nickname\<close>

lemma entry_set_trans:
  assumes "entry_set chan nick m w st s1" "win s1 chan = Some w1" "entry_set chan nick m' w1 s1 s2"
  shows "entry_set chan nick m' w st s2"
  using assms by (fastforce simp: entry_set_def)

lemma chg_off:
  assumes "win st chan = Some w" "\<not> received_names w" "\<not> g_icb_mode (ev_win env)"
  shows "fst (chg_status_for_superop env STATE_PLUS nick chan st) = st"
    "fst (chg_status_for_op env STATE_PLUS nick chan st) = st"
    "fst (chg_status_for_halfop env STATE_PLUS nick chan st) = st"
    "fst (chg_status_for_voice env STATE_PLUS nick chan st) = st"
    "fst (chg_status_for_owner env STATE_PLUS nick chan st) = st"
  using assms
  by (simp_all add: chg_status_for_superop_def chg_status_for_op_def chg_status_for_halfop_def chg_status_for_voice_def
      chg_status_for_owner_def chg_status_def names_htbl_modify_superop_def names_htbl_modify_op_def
      names_htbl_modify_halfop_def names_htbl_modify_voice_def names_htbl_modify_owner_def htbl_modify_def)

lemma chg_invalid: "\<not> is_valid_nickname (Some nick) \<Longrightarrow> fst (chg_status_for_owner env STATE_PLUS nick chan st) = st"
  by (simp add: chg_status_for_owner_def)

definition flags_on :: "ev_env \<Rightarrow> irc_window \<Rightarrow> bool" where
  "flags_on env w \<longleftrightarrow> received_names w \<or> g_icb_mode (ev_win env)"

lemma flag_steps:
  assumes "entry_set chan nick m w st s"
  shows "entry_set chan nick (if b \<and> flags_on env w then m\<lparr>is_superop := True\<rparr> else m) w st
      (fst ((if b then chg_status_for_superop env STATE_PLUS nick chan else (\<lambda>st. (st, []))) s))"
    "entry_set chan nick (if b \<and> flags_on env w then m\<lparr>is_op := True\<rparr> else m) w st
      (fst ((if b then chg_status_for_op env STATE_PLUS nick chan else (\<lambda>st. (st, []))) s))"
    "entry_set chan nick (if b \<and> flags_on env w then m\<lparr>is_halfop := True\<rparr> else m) w st
      (fst ((if b then chg_status_for_halfop env STATE_PLUS nick chan else (\<lambda>st. (st, []))) s))"
    "entry_set chan nick (if b \<and> flags_on env w then m\<lparr>is_voice := True\<rparr> else m) w st
      (fst ((if b then chg_status_for_voice env STATE_PLUS nick chan else (\<lambda>st. (st, []))) s))"
    "entry_set chan nick (if b \<and> is_valid_nickname (Some nick) \<and> flags_on env w then m\<lparr>is_owner := True\<rparr> else m) w st
      (fst ((if b then chg_status_for_owner env STATE_PLUS nick chan else (\<lambda>st. (st, []))) s))"
proof -
  obtain ns where w1: "win s chan = Some (w\<lparr>w_names := ns\<rparr>)" and ok: "members_ok s"
    and mem: "member s chan nick = Some m" using assms by (auto simp: entry_set_def)
  let ?w = "w\<lparr>w_names := ns\<rparr>"
  have on: "received_names ?w \<or> g_icb_mode (ev_win env) \<longleftrightarrow> flags_on env w" by (simp add: flags_on_def)
  note tr = entry_set_trans [OF assms w1]
  note fl = set_flags [OF ok w1 _ mem, of env] and off = chg_off [OF w1, of env nick]
  show "entry_set chan nick (if b \<and> flags_on env w then m\<lparr>is_superop := True\<rparr> else m) w st
      (fst ((if b then chg_status_for_superop env STATE_PLUS nick chan else (\<lambda>st. (st, []))) s))"
    using tr [OF fl(1)] off(1) assms by (cases "flags_on env w") (auto simp: flags_on_def)
  show "entry_set chan nick (if b \<and> flags_on env w then m\<lparr>is_op := True\<rparr> else m) w st
      (fst ((if b then chg_status_for_op env STATE_PLUS nick chan else (\<lambda>st. (st, []))) s))"
    using tr [OF fl(2)] off(2) assms by (cases "flags_on env w") (auto simp: flags_on_def)
  show "entry_set chan nick (if b \<and> flags_on env w then m\<lparr>is_halfop := True\<rparr> else m) w st
      (fst ((if b then chg_status_for_halfop env STATE_PLUS nick chan else (\<lambda>st. (st, []))) s))"
    using tr [OF fl(3)] off(3) assms by (cases "flags_on env w") (auto simp: flags_on_def)
  show "entry_set chan nick (if b \<and> flags_on env w then m\<lparr>is_voice := True\<rparr> else m) w st
      (fst ((if b then chg_status_for_voice env STATE_PLUS nick chan else (\<lambda>st. (st, []))) s))"
    using tr [OF fl(4)] off(4) assms by (cases "flags_on env w") (auto simp: flags_on_def)
  show "entry_set chan nick (if b \<and> is_valid_nickname (Some nick) \<and> flags_on env w then m\<lparr>is_owner := True\<rparr> else m) w st
      (fst ((if b then chg_status_for_owner env STATE_PLUS nick chan else (\<lambda>st. (st, []))) s))"
    using tr [OF fl(5)] off(5) chg_invalid [of nick env chan s] assms
    by (cases "flags_on env w") (auto simp: flags_on_def)
qed

text \<open>The entry under the new name.\<close>

definition renamed :: "ev_env \<Rightarrow> irc_window \<Rightarrow> string \<Rightarrow> names \<Rightarrow> names" where
  "renamed env w new p = \<lparr>m_nick = new,
     m_account = Some (case m_account p of None \<Rightarrow> ''<no account>'' | Some a \<Rightarrow> a),
     m_rl_name = Some (case m_rl_name p of None \<Rightarrow> ''<no rl name>'' | Some r \<Rightarrow> r),
     is_owner = is_owner p \<and> is_valid_nickname (Some new) \<and> flags_on env w,
     is_superop = is_superop p \<and> flags_on env w, is_op = is_op p \<and> flags_on env w,
     is_halfop = is_halfop p \<and> flags_on env w, is_voice = is_voice p \<and> flags_on env w\<rparr>"

text \<open>What becomes of the entries \<open>f\<close> of a channel.\<close>

definition rename_entries ::
    "ev_env \<Rightarrow> string \<Rightarrow> string \<Rightarrow> irc_window \<Rightarrow> (string \<Rightarrow> names option) \<Rightarrow> string \<Rightarrow> names option" where
  "rename_entries env old new w f n =
     (case f old of None \<Rightarrow> f n
      | Some p \<Rightarrow>
          if nick_ok new \<and> (f new = None \<or> strings_match_ignore_case new old) \<and> strings_match_ignore_case n new
          then Some (renamed env w new p)
          else if strings_match_ignore_case n old then None else f n)"


text \<open>\<open>st'\<close> is \<open>st\<close> with the entries of the channel \<open>lbl\<close> replaced by \<open>g\<close>.\<close>

definition entries_set :: "string \<Rightarrow> (string \<Rightarrow> names option) \<Rightarrow> ev_state \<Rightarrow> ev_state \<Rightarrow> bool" where
  "entries_set lbl g st st' \<longleftrightarrow> members_ok st' \<and> shape st' = shape st
    \<and> (\<forall>c n. member st' c n = (if strings_match_ignore_case c lbl then g n else member st c n))"

lemma member_spelling:
  "strings_match_ignore_case a b \<Longrightarrow> member st a n = member st b n"
  using win_spelling by (simp add: member_def)

lemma lookup_empty: "members_ok st \<Longrightarrow> member st chan [] = None"
proof (cases "win st chan")
  case (Some w)
  assume ok: "members_ok st"
  then have "names_ok (w_names w)" using win_members Some by blast
  then show ?thesis
    using found_ok [of "w_names w" "[]"] Some
    by (cases "names_lookup (w_names w) []") (auto simp: member_def names_ok_def smic_fold fold_case_def)
qed (simp add: member_def)

lemma lookup_is_member: "members_ok st \<Longrightarrow> event_names_htbl_lookup n chan st = member st chan n"
  using htbl_lookup_member lookup_empty by (cases "n = []") (auto simp: event_names_htbl_lookup_def)

lemma entries_set_refl: "members_ok st \<Longrightarrow> entries_set lbl (member st lbl) st st"
  unfolding entries_set_def by (intro conjI allI) (simp_all, metis member_spelling)

lemma remove_effect:
  assumes "members_ok st" "win st chan = Some w" "event_names_htbl_remove nick chan st = (b, st', acts)"
  shows "b \<longleftrightarrow> member st chan nick \<noteq> None"
    "entries_set chan (\<lambda>n. if strings_match_ignore_case n nick then None else member st chan n) st st'"
  using remove_ok [OF assms] remove_shape [OF assms(3)] member_spelling
  by (auto simp: entries_set_def)

lemma set_member_effect:
  assumes "members_ok st" "win st chan = Some w" "member st chan nick = Some m"
    "\<And>m. m_nick (f m) = m_nick m" "\<And>m. rank (f m) = rank m"
  shows "entry_set chan nick (f m) w st (set_member nick chan f st)"
proof -
  have n: "names_ok (w_names w)" "names_lookup (w_names w) nick = Some m"
    using win_members assms(1-3) by (auto simp: member_def)
  have c: "changed nick (f m) (w_names w) (set_names nick f (w_names w))"
    by (rule changed_set [OF n assms(4) refl]) (simp_all add: assms(5))
  have s: "set_member nick chan f st = set_win_names (w_ptr w) (set_names nick f (w_names w)) st"
    using assms(2) by (simp add: set_member_def)
  have wok: "windows_ok (wins st)" using assms(1) by (simp add: members_ok_def)
  have "member st c n = names_lookup (w_names w) n" if "strings_match_ignore_case c chan" for c n
    using win_spelling [OF that, of st] assms(2) by (simp add: member_def)
  then show ?thesis
    using c set_names_ok [OF assms(1)] set_names_win [OF wok assms(2)] smic_sym
    by (auto simp: s entry_set_def changed_def set_names_member [OF wok assms(2)])
qed


lemma rename_flags:
  assumes "entry_set lbl new m0 w2 st2 st3"
    and "m0 = (with_privs new [])\<lparr>m_account := Some (case m_account p of None \<Rightarrow> ''<no account>'' | Some a \<Rightarrow> a),
          m_rl_name := Some (case m_rl_name p of None \<Rightarrow> ''<no rl name>'' | Some r \<Rightarrow> r)\<rparr>"
  shows "entry_set lbl new (renamed env w2 new p) w2 st2 (fst (then_do (then_do (then_do (then_do (then_do (st3, acts)
      ((\<lambda>flag chg. if flag then chg env STATE_PLUS new lbl else (\<lambda>st. (st, []))) (is_voice p) chg_status_for_voice))
      ((\<lambda>flag chg. if flag then chg env STATE_PLUS new lbl else (\<lambda>st. (st, []))) (is_halfop p) chg_status_for_halfop))
      ((\<lambda>flag chg. if flag then chg env STATE_PLUS new lbl else (\<lambda>st. (st, []))) (is_op p) chg_status_for_op))
      ((\<lambda>flag chg. if flag then chg env STATE_PLUS new lbl else (\<lambda>st. (st, []))) (is_superop p) chg_status_for_superop))
      ((\<lambda>flag chg. if flag then chg env STATE_PLUS new lbl else (\<lambda>st. (st, []))) (is_owner p) chg_status_for_owner)))"
proof -
  let ?m1 = "if is_voice p \<and> flags_on env w2 then m0\<lparr>is_voice := True\<rparr> else m0"
  let ?m2 = "if is_halfop p \<and> flags_on env w2 then ?m1\<lparr>is_halfop := True\<rparr> else ?m1"
  let ?m3 = "if is_op p \<and> flags_on env w2 then ?m2\<lparr>is_op := True\<rparr> else ?m2"
  let ?m4 = "if is_superop p \<and> flags_on env w2 then ?m3\<lparr>is_superop := True\<rparr> else ?m3"
  let ?m5 = "if is_owner p \<and> is_valid_nickname (Some new) \<and> flags_on env w2 then ?m4\<lparr>is_owner := True\<rparr> else ?m4"
  have m: "renamed env w2 new p = ?m5"
    by (cases "flags_on env w2"; cases "is_owner p"; cases "is_valid_nickname (Some new)")
      (simp_all add: renamed_def assms(2) with_privs_def)
  note 1 = flag_steps(4) [OF assms(1), of "is_voice p" env]
  note 2 = flag_steps(3) [OF 1, of "is_halfop p" env]
  note 3 = flag_steps(2) [OF 2, of "is_op p" env]
  note 4 = flag_steps(1) [OF 3, of "is_superop p" env]
  note 5 = flag_steps(5) [OF 4, of "is_owner p" env]
  show ?thesis unfolding m by (simp only: fst_then_do fst_conv) (rule 5)
qed

theorem rename_effect:
  assumes "members_ok st" "win st lbl = Some w"
    and "RemoveAndInsertNick env old new lbl st = (b, st', acts)"
  shows "entries_set lbl (rename_entries env old new w (member st lbl)) st st'"
    and "b \<longleftrightarrow> member st lbl old \<noteq> None \<and> nick_ok new \<and> (member st lbl new = None \<or> strings_match_ignore_case new old)"
proof -
  have "entries_set lbl (rename_entries env old new w (member st lbl)) st st' \<and>
    (b \<longleftrightarrow> member st lbl old \<noteq> None \<and> nick_ok new \<and> (member st lbl new = None \<or> strings_match_ignore_case new old))"
  proof (cases "member st lbl old")
    case None
    then have "event_names_htbl_lookup old lbl st = None" using lookup_is_member [OF assms(1)] by simp
    then have "(b, st', acts) = (False, st, [])" unfolding assms(3) [symmetric] by (simp add: RemoveAndInsertNick_def)
    then have "b = False" "st' = st" by simp_all
    moreover have "rename_entries env old new w (member st lbl) = member st lbl"
      using None by (simp add: rename_entries_def fun_eq_iff)
    ultimately show ?thesis using None entries_set_refl [OF assms(1), of lbl] by simp
  next
    case (Some p)
    obtain b1 st1 acts1 where r: "event_names_htbl_remove old lbl st = (b1, st1, acts1)"
      by (cases "event_names_htbl_remove old lbl st") auto
    obtain b2 st2 acts2 where i: "event_names_htbl_insert new lbl st1 = (b2, st2, acts2)"
      by (cases "event_names_htbl_insert new lbl st1") auto
    note r_ok = remove_ok [OF assms(1,2) r] and r_eff = remove_effect(2) [OF assms(1,2) r]
    have b1: b1 using r_ok(1) Some by simp
    have ok1: "members_ok st1" using r_ok(2) by simp
    obtain ns1 where w1: "win st1 lbl = Some (w\<lparr>w_names := ns1\<rparr>)" using r_ok(5) [of lbl] b1 by auto
    note i_ok = insert_ok [OF ok1 w1 i]
    have ok2: "members_ok st2" using i_ok(2) by simp
    have m1: "member st1 c n = (if strings_match_ignore_case c lbl then
        if strings_match_ignore_case n old then None else member st lbl n else member st c n)" for c n
      using r_eff by (simp add: entries_set_def)
    have b2: "b2 \<longleftrightarrow> nick_ok new \<and> (member st lbl new = None \<or> strings_match_ignore_case new old)"
      using i_ok(1) by (auto simp: m1)
    have sh2: "shape st2 = shape st" using remove_shape [OF r] insert_shape [OF i] by simp
    show ?thesis
    proof (cases b2)
      case False
      have "(b, st', acts) = (False, st2, acts1 @ acts2 @ [Log ''RemoveAndInsertNick: event_names_htbl_insert''])"
        using lookup_is_member [OF assms(1), of old lbl] Some r i b1 False
        unfolding assms(3) [symmetric] by (simp add: RemoveAndInsertNick_def Let_def)
      then have "b = False" "st' = st1" using False i_ok(3) by simp_all
      then show ?thesis using False b2 r_eff Some by (auto simp: rename_entries_def entries_set_def)
    next
      case True
      obtain ns2 where w2: "win st2 lbl = Some (w\<lparr>w_names := ns2\<rparr>)" using i_ok(5) [of lbl] True by auto
      have m2: "member st2 c n = (if strings_match_ignore_case c lbl \<and> strings_match_ignore_case n new
          then Some (with_privs new []) else member st1 c n)" for c n using i_ok(4) True by simp
      have me: "member st2 lbl new = Some (with_privs new [])" by (simp add: m2)
      let ?f = "\<lambda>m :: names. m\<lparr>m_account := Some (case m_account p of None \<Rightarrow> ''<no account>'' | Some a \<Rightarrow> a),
          m_rl_name := Some (case m_rl_name p of None \<Rightarrow> ''<no rl name>'' | Some r \<Rightarrow> r)\<rparr>"
      have e3: "entry_set lbl new (?f (with_privs new [])) (w\<lparr>w_names := ns2\<rparr>) st2 (set_member new lbl ?f st2)"
        by (rule set_member_effect [OF ok2 w2 me]) (simp_all add: rank_def)
      note e = rename_flags [OF e3 refl, of env "acts1 @ acts2"]
      have lk: "event_names_htbl_lookup new lbl st2 = Some (with_privs new [])" using lookup_is_member [OF ok2] me by simp
      have lko: "event_names_htbl_lookup old lbl st = Some p" using lookup_is_member [OF assms(1)] Some by simp
      have res: "b = True" "st' = fst (then_do (then_do (then_do (then_do (then_do (set_member new lbl ?f st2, acts1 @ acts2)
      ((\<lambda>flag chg. if flag then chg env STATE_PLUS new lbl else (\<lambda>st. (st, []))) (is_voice p) chg_status_for_voice))
      ((\<lambda>flag chg. if flag then chg env STATE_PLUS new lbl else (\<lambda>st. (st, []))) (is_halfop p) chg_status_for_halfop))
      ((\<lambda>flag chg. if flag then chg env STATE_PLUS new lbl else (\<lambda>st. (st, []))) (is_op p) chg_status_for_op))
      ((\<lambda>flag chg. if flag then chg env STATE_PLUS new lbl else (\<lambda>st. (st, []))) (is_superop p) chg_status_for_superop))
      ((\<lambda>flag chg. if flag then chg env STATE_PLUS new lbl else (\<lambda>st. (st, []))) (is_owner p) chg_status_for_owner))"
        using assms(3) lko r i b1 True lk by (simp_all add: RemoveAndInsertNick_def Let_def prod_eq_iff)
      have rn: "renamed env (w\<lparr>w_names := ns2\<rparr>) new p = renamed env w new p" by (simp add: renamed_def flags_on_def)
      have "entries_set lbl (rename_entries env old new w (member st lbl)) st st'"
        using e sh2 b2 True Some unfolding res rn
        by (simp add: entries_set_def entry_set_def m2 m1 rename_entries_def)
      then show ?thesis using res(1) b2 True Some by simp
    qed
  qed
  then show "entries_set lbl (rename_entries env old new w (member st lbl)) st st'"
    "b \<longleftrightarrow> member st lbl old \<noteq> None \<and> nick_ok new \<and> (member st lbl new = None \<or> strings_match_ignore_case new old)"
    by simp_all
qed


lemma flags_on_strip [simp]: "flags_on env (strip w) = flags_on env w"
  by (simp add: flags_on_def)

lemma rename_strip [simp]: "rename_entries env old new (strip w) = rename_entries env old new w"
proof -
  have "renamed env (strip w) = renamed env w" by (simp add: renamed_def fun_eq_iff)
  then show ?thesis by (simp only: rename_entries_def fun_eq_iff simp_thms)
qed

section \<open>The loop over the channels\<close>

lemma members_windows: "members_ok st \<Longrightarrow> windows_ok (wins st)"
  by (simp add: members_ok_def)

lemma refs_ok: "members_ok st \<Longrightarrow> refnums_ok (windows (wins st)) (g_ntotal_windows (wins st))"
  by (simp add: members_ok_def windows_ok_def registry_ok_def)

text \<open>The window with a number has a name under which it is found.\<close>

lemma by_refnum_label:
  assumes "members_ok st" "window_by_refnum (wins st) i = Some w"
  shows "win st (label w) = Some w" "refnum w = i" "w \<in> set (windows (wins st))"
proof -
  show w: "refnum w = i" "w \<in> set (windows (wins st))"
    using window_by_refnum_iff [OF refs_ok [OF assms(1)]] assms(2) by blast+
  have t: "Window.table_ok (win_state.hash_table (wins st)) (next_ptr (wins st))"
    using members_windows [OF assms(1)] by (simp add: windows_ok_def registry_ok_def)
  have "label w \<noteq> []" using t w(2) by (auto simp: Window.table_ok_def list_ok_def windows_def)
  then show "win st (label w) = Some w"
    using window_by_label_iff [OF t] w(2) by (simp add: win_def smic_fold)
qed

text \<open>What the channels in \<open>R\<close> have become, each by its own \<open>G\<close>.\<close>

definition channels_set ::
    "int set \<Rightarrow> (irc_window \<Rightarrow> (string \<Rightarrow> names option) \<Rightarrow> string \<Rightarrow> names option) \<Rightarrow> ev_state \<Rightarrow> ev_state \<Rightarrow> bool" where
  "channels_set R G st st' \<longleftrightarrow> members_ok st' \<and> shape st' = shape st \<and>
     (\<forall>c n. member st' c n = (case win st c of None \<Rightarrow> None
        | Some w \<Rightarrow> if refnum w \<in> R \<and> is_irc_channel (Some (label w)) then G w (member st c) n else member st c n))"

lemma channels_set_empty: "members_ok st \<Longrightarrow> channels_set {} G st st"
  by (auto simp: channels_set_def member_def split: option.split)

text \<open>A name that finds the window finds it whatever its members are.\<close>

lemma win_shape_iff:
  assumes "members_ok st" "members_ok s" "shape s = shape st"
  shows "map_option strip (win s c) = map_option strip (win st c)"
proof (cases "win st c")
  case (Some w)
  then obtain w' where "win s c = Some w'" "strip w' = strip w"
    using shape_win [OF assms(3) [symmetric] members_windows members_windows Some] assms(1,2) by blast
  then show ?thesis using Some by simp
next
  case None
  have "win s c = None"
  proof (rule ccontr)
    assume "win s c \<noteq> None"
    then obtain v where "win s c = Some v" by blast
    then show False
      using shape_win [OF assms(3) members_windows [OF assms(2)] members_windows [OF assms(1)]] None by fastforce
  qed
  then show ?thesis using None by simp
qed

lemma member_None: "win st c = None \<Longrightarrow> member st c n = None"
  by (simp add: member_def)

lemma same_window:
  assumes "members_ok st" "win st c = Some w" "win st d = Some v" "refnum v = refnum w"
  shows "v = w" "strings_match_ignore_case c d"
proof -
  note wd = win_in_windows [OF members_windows [OF assms(1)]]
  have "distinct (map refnum (windows (wins st)))" using refs_ok [OF assms(1)] by (simp add: refnums_ok_def)
  then show v: "v = w" using wd(1) [OF assms(2)] wd(1) [OF assms(3)] assms(4) by (auto simp: distinct_map inj_on_def)
  show "strings_match_ignore_case c d" using wd(2) [OF assms(2)] wd(2) [OF assms(3)] v smic_sym smic_trans by blast
qed

lemma channels_set_step:
  assumes "members_ok st" "channels_set R G st s" "i \<notin> R"
    and "\<And>w. window_by_refnum (wins s) i = Some w \<Longrightarrow> is_irc_channel (Some (label w)) \<Longrightarrow>
      entries_set (label w) (G (strip w) (member s (label w))) s (fst (body w s))"
    and "\<And>w. G (strip w) = G w"
  shows "channels_set (insert i R) G st (fst (case window_by_refnum (wins s) i of None \<Rightarrow> (s, acts)
      | Some w \<Rightarrow> if is_irc_channel (Some (label w)) then body w s else (s, acts)))"
proof -
  have s: "members_ok s" "shape s = shape st" using assms(2) by (simp_all add: channels_set_def)
  note ws = win_shape_iff [OF assms(1) s]
  have mem: "member s c n = (case win st c of None \<Rightarrow> None
        | Some w \<Rightarrow> if refnum w \<in> R \<and> is_irc_channel (Some (label w)) then G w (member st c) n else member st c n)" for c n
    using assms(2) by (simp add: channels_set_def)
  let ?P = "window_by_refnum (wins s) i"
  show ?thesis
  proof (cases "\<exists>w. ?P = Some w \<and> is_irc_channel (Some (label w))")
    case False
    have "\<not> (refnum w = i \<and> is_irc_channel (Some (label w)))" if c: "win st c = Some w" for c w
    proof
      assume a: "refnum w = i \<and> is_irc_channel (Some (label w))"
      obtain w' where w': "win s c = Some w'" "strip w' = strip w" using ws [of c] c by (cases "win s c") auto
      then have "?P = Some w'"
        using a strip_eqD [OF w'(2)] win_in_windows(1) [OF members_windows [OF s(1)] w'(1)]
          window_by_refnum_iff [OF refs_ok [OF s(1)]] by simp
      then show False using False a strip_eqD [OF w'(2)] by auto
    qed
    moreover have "fst (case ?P of None \<Rightarrow> (s, acts)
      | Some w \<Rightarrow> if is_irc_channel (Some (label w)) then body w s else (s, acts)) = s"
      using False by (auto split: option.split)
    ultimately show ?thesis using s mem by (auto simp: channels_set_def split: option.split)
  next
    case True
    then obtain w where w: "?P = Some w" "is_irc_channel (Some (label w))" by blast
    note lw = by_refnum_label [OF s(1) w(1)]
    have e: "entries_set (label w) (G (strip w) (member s (label w))) s (fst (body w s))" by (rule assms(4) [OF w])
    obtain v where v: "win st (label w) = Some v" "strip v = strip w" using ws [of "label w"] lw(1) by (cases "win st (label w)") auto
    have iv: "refnum v = i" "label v = label w" using strip_eqD [OF v(2)] lw(2) by simp_all
    have G: "G (strip w) = G v" using assms(5) [of v] v(2) by simp
    have ms: "member s (label w) = member st (label w)" using mem v(1) iv assms(3) by (simp add: fun_eq_iff)
    have "member (fst (body w s)) c n = (case win st c of None \<Rightarrow> None
        | Some u \<Rightarrow> if refnum u \<in> insert i R \<and> is_irc_channel (Some (label u)) then G u (member st c) n else member st c n)" for c n
    proof (cases "strings_match_ignore_case c (label w)")
      case c: True
      have "win st c = Some v" using win_spelling [OF c] v(1) by simp
      moreover have "member st c = member st (label w)" using member_spelling [OF c] by blast
      ultimately show ?thesis using e c w(2) iv ms G by (simp add: entries_set_def)
    next
      case c: False
      have "refnum u \<noteq> i" if "win st c = Some u" for u
        using same_window(2) [OF assms(1) that v(1)] iv(1) c by auto
      then show ?thesis using e c mem by (auto simp: entries_set_def split: option.split)
    qed
    then show ?thesis using e w s(2) by (simp add: channels_set_def entries_set_def)
  qed
qed

lemma channel_loop_effect:
  assumes "members_ok st"
    and "\<And>w s. \<lbrakk>members_ok s; win s (label w) = Some w; is_irc_channel (Some (label w))\<rbrakk> \<Longrightarrow>
      entries_set (label w) (G w (member s (label w))) s (fst (body w s))"
    and "\<And>w. G (strip w) = G w"
  shows "channels_set UNIV G st (fst (channel_loop body st))"
proof -
  let ?step = "\<lambda>i r. then_do r (\<lambda>st. case window_by_refnum (wins st) i of
            None \<Rightarrow> (st, [])
          | Some w \<Rightarrow> if is_irc_channel (Some (label w)) then body w st else (st, []))"
  have *: "channels_set (set xs) G st (fst (fold ?step xs (st, [])))" if "distinct xs" for xs
    using that
  proof (induction xs rule: rev_induct)
    case Nil
    then show ?case using channels_set_empty [OF assms(1)] by simp
  next
    case (snoc i xs)
    let ?s = "fst (fold ?step xs (st, []))"
    have IH: "channels_set (set xs) G st ?s" using snoc by simp
    then have ok: "members_ok ?s" by (simp add: channels_set_def)
    have "entries_set (label w) (G (strip w) (member ?s (label w))) ?s (fst (body w ?s))"
      if "window_by_refnum (wins ?s) i = Some w" "is_irc_channel (Some (label w))" for w
      using assms(2) [OF ok by_refnum_label(1) [OF ok that(1)] that(2)] by (simp add: assms(3))
    moreover have "i \<notin> set xs" using snoc.prems by simp
    ultimately have "channels_set (insert i (set xs)) G st (fst (case window_by_refnum (wins ?s) i of None \<Rightarrow> (?s, [])
      | Some w \<Rightarrow> if is_irc_channel (Some (label w)) then body w ?s else (?s, [])))"
      using channels_set_step [OF assms(1) IH, where i = i and body = body and acts = "[]"] assms(3) by blast
    then show ?case by simp
  qed
  have all: "refnum w \<in> {1..g_ntotal_windows (wins st)}" if "win st c = Some w" for c w
    using refs_ok [OF assms(1)] win_in_windows(1) [OF members_windows [OF assms(1)] that] by (auto simp: refnums_ok_def)
  show ?thesis
    using * [of "[1..g_ntotal_windows (wins st)]"] all
    by (auto simp: channel_loop_def channels_set_def split: option.split)
qed

end
