(* ===== verification/Channel_Members.thy ===== *)
theory Channel_Members
  imports Channel_Effects
begin

text \<open>
  What the messages of the server do to the members of the channels: the invariant of all states
  that they reach, a change of nickname, a user who quits, and the two messages that do harm.
\<close>

section \<open>Reachable states\<close>

text \<open>
  The handlers as steps, from the start of the program.  Theme, configuration and time may change
  from step to step; the limits of the window system do not.  With \<open>exact\<close>, MODE messages
  take a privilege only from a member who has it; without it, the MODE messages are any.
\<close>

inductive ev_reachable :: "bool \<Rightarrow> win_env \<Rightarrow> ev_state \<Rightarrow> bool" for exact we where
  start: "\<lbrakk>windowSystem_init we fresh = Some (wins st); names_channel st = []; netsplits st = []\<rbrakk> \<Longrightarrow> ev_reachable exact we st"
| user_window: "\<lbrakk>ev_reachable exact we st; spawn_chat_window we l t (wins st) = Some (e, ws, who)\<rbrakk> \<Longrightarrow> ev_reachable exact we (st\<lparr>wins := ws\<rparr>)"
| user_close: "\<lbrakk>ev_reachable exact we st; destroy_chat_window we l (wins st) = Some (e, ws)\<rbrakk> \<Longrightarrow> ev_reachable exact we (st\<lparr>wins := ws\<rparr>)"
| irc_core: "ev_reachable exact we st \<Longrightarrow> ev_reachable exact we (st\<lparr>irc := g\<rparr>)"
| join: "\<lbrakk>ev_reachable exact we st; ev_win env = we; event_join env compo st = Some (st', acts)\<rbrakk> \<Longrightarrow> ev_reachable exact we st'"
| kick: "\<lbrakk>ev_reachable exact we st; ev_win env = we; event_kick env compo st = Some (st', acts)\<rbrakk> \<Longrightarrow> ev_reachable exact we st'"
| part: "\<lbrakk>ev_reachable exact we st; ev_win env = we; event_part env compo st = Some (st', acts)\<rbrakk> \<Longrightarrow> ev_reachable exact we st'"
| nick: "\<lbrakk>ev_reachable exact we st; ev_win env = we; event_nick env compo st = Some (st', acts)\<rbrakk> \<Longrightarrow> ev_reachable exact we st'"
| quit: "\<lbrakk>ev_reachable exact we st; ev_win env = we\<rbrakk> \<Longrightarrow> ev_reachable exact we (fst (event_quit env compo st))"
| mode: "\<lbrakk>ev_reachable exact we st; ev_win env = we; exact \<longrightarrow> takes_held env compo st\<rbrakk> \<Longrightarrow> ev_reachable exact we (fst (event_mode env compo st))"
| names: "ev_reachable exact we st \<Longrightarrow> ev_reachable exact we (fst (event_names compo st))"
| eof_names: "\<lbrakk>ev_reachable exact we st; ev_win env = we\<rbrakk> \<Longrightarrow> ev_reachable exact we (fst (event_eof_names env compo st))"
| topic: "\<lbrakk>ev_reachable exact we st; ev_win env = we\<rbrakk> \<Longrightarrow> ev_reachable exact we (fst (event_topic env compo st))"
| topic_chg: "\<lbrakk>ev_reachable exact we st; ev_win env = we\<rbrakk> \<Longrightarrow> ev_reachable exact we (fst (event_topic_chg env compo st))"

lemma ev_ok_env: "ev_win env = ev_win env' \<Longrightarrow> ev_ok names_inv env st = ev_ok names_inv env' st"
  by (simp add: ev_ok_def)

context names_invariant
begin

lemma reachable_ev_ok:
  assumes "ev_reachable exact we st" "\<forall>p. panel_ok we p" "1 \<le> max_chat_windows we" "ev_win env = we"
  shows "ev_ok names_inv env st"
  using assms(1)
proof induction
  case (start fresh st)
  obtain s w where s: "windowSystem_init we fresh = Some s" "windows_ok s" "windows s = [w]"
    using init_ok [OF assms(2,3)] by blast
  then show ?case
    using start init_members [OF start(1)] ntotal_length [of s] assms(3,4) inv_none
    by (auto simp: ev_ok_def)
next
  case (user_window st l t e ws who)
  then show ?case using spawn_keeps [of env st l t] assms(2,4) by auto
next
  case (user_close st l e ws)
  then show ?case using destroy_keeps [of env st l] assms(2,4) by auto
next
  case (join st env' compo st' acts)
  then show ?case using join_keeps [of env' st compo] assms(2,4) ev_ok_env [of env env'] by auto
next
  case (kick st env' compo st' acts)
  then show ?case using kick_keeps [of env' st compo] assms(2,4) ev_ok_env [of env env'] by auto
next
  case (part st env' compo st' acts)
  then show ?case using part_keeps [of env' st compo] assms(2,4) ev_ok_env [of env env'] by auto
next
  case (nick st env' compo st' acts)
  then show ?case using nick_keeps [of env' st compo] assms(4) ev_ok_env [of env env'] by auto
next
  case (quit st env' compo)
  then show ?case using quit_keeps [of env' st compo] assms(4) ev_ok_env [of env env'] by auto
next
  case (mode st env' compo)
  then show ?case using mode_keeps [of env' st compo] assms(4) ev_ok_env [of env env'] by auto
next
  case (eof_names st env' compo)
  then show ?case using names_keep(2) [of env' st compo] assms(4) ev_ok_env [of env env'] by auto
next
  case (topic st env' compo)
  then show ?case using topics_keep(1) [of env' st compo] assms(4) ev_ok_env [of env env'] by auto
next
  case (topic_chg st env' compo)
  then show ?case using topics_keep(2) [of env' st compo] assms(4) ev_ok_env [of env env'] by auto
qed (use names_keep(1) in auto)

end

section \<open>The names of a channel\<close>

lemma chain_count_filter: "chain_count NAMES_HASH_TABLE_SIZE P (names_hash w) = int (length (filter P (all_names w)))"
proof -
  have "length (filter P (concat (map f [0..<k]))) = (\<Sum>i<k. length (filter P (f i)))" for f :: "nat \<Rightarrow> names list" and k
    by (induction k) auto
  then show ?thesis by (simp add: all_names_def chain_count_def)
qed

lemma all_names_found:
  assumes "Names_Table.table_ok w" "m \<in> set (all_names w)"
  shows "names_lookup w (m_nick m) = Some m" "nick_ok (m_nick m)"
proof -
  obtain i where i: "m \<in> set (names_hash w i)" using assms(2) by (auto simp: all_names_def)
  have wf: "chain_wf hash_nick m_nick (names_hash w)" "nick_ok (m_nick m)"
    using assms(1) i by (auto simp: Names_Table.table_ok_def)
  then show "nick_ok (m_nick m)" by simp
  have h: "hash_nick (m_nick m) = i" and d: "distinct (map (\<lambda>x. fold_case (m_nick x)) (names_hash w i))"
    using wf(1) i by (auto simp: chain_wf_def)
  have "find (\<lambda>x. strings_match_ignore_case (m_nick m) (m_nick x)) xs = Some m"
    if "m \<in> set xs" "distinct (map (\<lambda>x. fold_case (m_nick x)) xs)" for xs
    using that by (induction xs) (fastforce simp: smic_fold image_iff)+
  then show "names_lookup w (m_nick m) = Some m" using i d h by (simp add: names_lookup_def)
qed

lemma all_names_distinct:
  assumes "Names_Table.table_ok w"
  shows "distinct (map (\<lambda>m. fold_case (m_nick m)) (all_names w))"
proof -
  have wf: "chain_wf hash_nick m_nick (names_hash w)" using assms by (simp add: Names_Table.table_ok_def)
  have same: "i = j" if "x \<in> set (names_hash w i)" "y \<in> set (names_hash w j)" "fold_case (m_nick x) = fold_case (m_nick y)" for i j x y
  proof -
    have "strings_match_ignore_case (m_nick x) (m_nick y)" using that(3) by (simp add: smic_fold)
    then have "hash_nick (m_nick x) = hash_nick (m_nick y)" using nc.hash_case by blast
    then show ?thesis using wf that(1,2) by (auto simp: chain_wf_def)
  qed
  have "distinct (map (\<lambda>m. fold_case (m_nick m)) (concat (map (names_hash w) xs)))" if "distinct xs" for xs
    using that
  proof (induction xs)
    case (Cons i xs)
    let ?f = "\<lambda>m. fold_case (m_nick m)"
    have "distinct (map ?f (names_hash w i))" using wf by (simp add: chain_wf_def)
    moreover have "set (map ?f (names_hash w i)) \<inter> set (map ?f (concat (map (names_hash w) xs))) = {}"
    proof (rule ccontr)
      assume "set (map ?f (names_hash w i)) \<inter> set (map ?f (concat (map (names_hash w) xs))) \<noteq> {}"
      then obtain x y j where "x \<in> set (names_hash w i)" "y \<in> set (names_hash w j)" "j \<in> set xs" "?f x = ?f y"
        by auto
      then show False using same [of x i y j] Cons.prems by simp
    qed
    ultimately show ?case using Cons by (simp only: list.map concat.simps map_append distinct_append) simp
  qed simp
  then show ?thesis by (simp add: all_names_def)
qed

text \<open>
  Property C24.  In every state that the channel events reach, whatever MODE messages the server
  sends, each member of a channel is found under its name, no two members have names that differ in
  case only, and the total shown in the status bar is the number of members.  The counters of the
  ranks are the numbers of members of each rank provided that every MODE message took privileges
  only from members who had them (\<open>exact\<close>).  Without this they are not: one MODE message
  that takes a privilege from a member who does not have it leaves them wrong
  (\<open>mode_minus_miscounts\<close>).
\<close>

theorem channel_members_invariant:
  assumes "ev_reachable exact we st" "\<forall>p. panel_ok we p" "1 \<le> max_chat_windows we" "win st chan = Some w"
  shows "distinct (map (\<lambda>m. fold_case (m_nick m)) (all_names (w_names w)))
    \<and> (\<forall>m\<in>set (all_names (w_names w)). member st chan (m_nick m) = Some m \<and> nick_ok (m_nick m))
    \<and> num_total (w_names w) = int (length (all_names (w_names w)))
    \<and> (exact \<longrightarrow>
        (\<forall>r. counter r (w_names w) = int (length (filter (\<lambda>m. rank m = r) (all_names (w_names w))))))"
proof -
  define env where "env = \<lparr>ev_win = we, ev_theme = theme_init, ev_config = config_init, ev_now = 0, net_ok = True,
    local_time = (\<lambda>_. None)\<rparr>"
  have any: "ev_reachable False we st" using assms(1)
    by induction (auto intro: ev_reachable.intros)
  have "ev_ok roll_ok env st" by (rule roll.reachable_ev_ok [OF any assms(2,3)]) (simp add: env_def)
  then have roll: "roll_ok (w_names w)" using win_names_ok assms(4) by blast
  then have tbl: "Names_Table.table_ok (w_names w)" by (simp add: roll_ok_def)
  have "counter r (w_names w) = int (length (filter (\<lambda>m. rank m = r) (all_names (w_names w))))" if exact for r
  proof -
    have "ev_ok names_ok env st" using assms(1) that
      by (intro counted.reachable_ev_ok [OF _ assms(2,3)]) (simp_all add: env_def)
    then have "names_ok (w_names w)" using win_names_ok assms(4) by blast
    then show ?thesis
      using chain_count_filter [of "\<lambda>m. rank m = r" "w_names w"] by (simp add: names_ok_def counts_ok_def)
  qed
  moreover have "num_total (w_names w) = int (length (all_names (w_names w)))"
    using roll chain_count_filter [of "\<lambda>_. True" "w_names w"] by (simp add: roll_ok_def)
  moreover have "\<forall>m\<in>set (all_names (w_names w)). member st chan (m_nick m) = Some m \<and> nick_ok (m_nick m)"
    using all_names_found [OF tbl] assms(4) by (simp add: member_def)
  ultimately show ?thesis using all_names_distinct [OF tbl] by blast
qed


text \<open>A client on the channel \<^verbatim>\<open>#isabelle\<close>, with an operator on it.\<close>

definition example_with_op :: ev_state where
  "example_with_op = snd (Names.hInstall ''#isabelle'' (with_privs ''op'' ''@'') example_ev_state)"

lemma example_with_op:
  "members_ok example_with_op" "member example_with_op ''#isabelle'' ''op'' = Some (with_privs ''op'' ''@'')"
  "\<exists>w. win example_with_op ''#isabelle'' = Some w \<and> is_irc_channel (Some (label w))"
  "my_nick example_with_op = ''me''"
  and example_with_op_only: "\<not> strings_match_ignore_case n ''op'' \<Longrightarrow> member example_with_op ''#isabelle'' n = None"
proof -
  obtain w where w: "win example_ev_state ''#isabelle'' = Some w" "w_names w = no_names"
    "label w = ''#isabelle''" using example_ev(2) by blast
  have m: "member example_ev_state ''#isabelle'' n = None" for n using w no_names_ok(2) by (simp add: member_def)
  have "nick_ok ''op''" by code_simp
  note i = names_hInstall_ok [OF example_ev(1) w(1), of "with_privs ''op'' ''@''"]
  have ok: "fst (Names.hInstall ''#isabelle'' (with_privs ''op'' ''@'') example_ev_state)"
    using i(1) m \<open>nick_ok ''op''\<close> by (simp add: with_privs_def)
  have op: "m_nick (with_privs ''op'' ''@'') = ''op''" by (simp add: with_privs_def)
  show 1: "members_ok example_with_op" "member example_with_op ''#isabelle'' ''op'' = Some (with_privs ''op'' ''@'')"
    using i(2) [OF ok] by (auto simp: example_with_op_def op smic_fold)
  show "member example_with_op ''#isabelle'' n = None" if "\<not> strings_match_ignore_case n ''op''"
    using i(2) [OF ok] that m by (simp add: example_with_op_def op)
  have "\<exists>ns. win example_with_op ''#isabelle'' = Some (w\<lparr>w_names := ns\<rparr>)"
    using i(2) [OF ok] by (auto simp: example_with_op_def smic_fold)
  then show "\<exists>w. win example_with_op ''#isabelle'' = Some w \<and> is_irc_channel (Some (label w))"
    using w(3) by (auto simp: is_irc_channel_def)
  show "my_nick example_with_op = ''me''"
    using w by (simp add: example_with_op_def Names.hInstall_def my_nick_def set_win_names_def upd_win_def example_ev_state_def)
qed


theorem channel_members_invariant_witness:
  "\<exists>w. win example_ev_state ''#isabelle'' = Some w \<and> num_total (w_names w) = int (length (all_names (w_names w)))
     \<and> (\<forall>exact. ev_reachable exact example_env example_ev_state)"
proof -
  obtain w where w: "win example_ev_state ''#isabelle'' = Some w" using example_ev(2) by blast
  let ?st = "example_ev_state\<lparr>wins := start_state\<rparr>"
  have s: "ev_reachable exact example_env ?st" for exact
    by (rule ev_reachable.start [where fresh = 0]) (use start_state(1) in \<open>simp_all add: example_ev_state_def\<close>)
  obtain e ws who where sp: "spawn_chat_window example_env (Some ''#isabelle'') None start_state = Some (e, ws, who)"
    using spawn_branches [OF start_state(2) example_env(1), of "Some ''#isabelle''" None] start_ntotal example_env(2) by auto
  have "ev_reachable exact example_env (?st\<lparr>wins := ws\<rparr>)" for exact
    by (rule ev_reachable.user_window [OF s]) (use sp in simp)
  moreover have "?st\<lparr>wins := ws\<rparr> = example_ev_state" using sp by (simp add: example_ev_state_def example_win_state_def)
  ultimately have r: "ev_reachable exact example_env example_ev_state" for exact by simp
  then show ?thesis using channel_members_invariant [OF r [of True] example_env(1) _ w] example_env(2) w r by simp
qed

section \<open>The sender of a message\<close>

definition user_word :: "string \<Rightarrow> bool" where
  "user_word s \<longleftrightarrow> s \<noteq> [] \<and> CHR ''!'' \<notin> set s \<and> CHR ''@'' \<notin> set s"

abbreviation full_prefix :: "string \<Rightarrow> string \<Rightarrow> string \<Rightarrow> string option" where
  "full_prefix nick user host \<equiv> Some (CHR '':'' # nick @ CHR ''!'' # user @ CHR ''@'' # host)"

lemma sender_full:
  assumes "user_word nick" "user_word user" "user_word host" "prefix' compo = full_prefix nick user host"
  shows "sender no_prefix no_nick no_user no_host compo = Inr (nick, user, host)"
proof -
  have w: "s \<noteq> [] \<and> set s \<inter> set user_seps = {}" if "user_word s" for s
    using that by (auto simp: user_word_def user_seps_def)
  have "tok user_seps (nick @ CHR ''!'' # r) = (Some nick, r)" "tok user_seps (user @ CHR ''@'' # r) = (Some user, r)"
    "tok user_seps host = (Some host, [])" for r
    using assms(1-3) [THEN w] tok_word(1) [of _ user_seps] tok_word(2) [of _ user_seps]
    by (auto simp: user_seps_def)
  then show ?thesis using assms(4) by (simp add: sender_def Let_def)
qed

section \<open>What is not touched\<close>

lemma irc_steps [simp]:
  "irc (set_win_names p ns st) = irc st" "irc (upd_win p f st) = irc st"
  "irc (snd (Names.hInstall c m st)) = irc st" "irc (set_member n c g st) = irc st"
  by (simp_all add: set_win_names_def upd_win_def Names.hInstall_def set_member_def split: option.split)

lemma insert_irc [simp]: "irc (fst (snd (event_names_htbl_insert n c st))) = irc st"
  using irc_steps(3) [of c "with_privs n []" st]
  by (cases "Names.hInstall c (with_privs n []) st"; cases "fst (Names.hInstall c (with_privs n []) st)")
    (auto simp: event_names_htbl_insert_def)

lemma remove_irc [simp]: "irc (fst (snd (event_names_htbl_remove n c st))) = irc st"
  by (simp add: event_names_htbl_remove_def split: option.split)

lemma remove_netsplits [simp]: "netsplits (fst (snd (event_names_htbl_remove n c st))) = netsplits st"
  by (simp add: event_names_htbl_remove_def set_win_names_def upd_win_def split: option.split)

lemma irc_netsplits: "irc (st\<lparr>netsplits := x\<rparr>) = irc st" "netsplits (st\<lparr>netsplits := x\<rparr>) = x"
  by simp_all

lemma chg_irc:
  assumes "\<And>n c fl s. irc (fst (snd (modify n c fl s))) = irc s"
  shows "irc (fst (chg_status modify func pm n c st)) = irc st"
  using assms [of n c True st] assms [of n c False st]
  by (cases pm) (auto simp: chg_status_def split: prod.split bool.split)

lemma htbl_modify_irc: "irc (fst (snd (htbl_modify modify quiet env n c fl st))) = irc st"
  by (simp add: htbl_modify_def split: option.split)

lemma flags_irc [simp]:
  "irc (fst (chg_status_for_owner env pm n c st)) = irc st" "irc (fst (chg_status_for_superop env pm n c st)) = irc st"
  "irc (fst (chg_status_for_op env pm n c st)) = irc st" "irc (fst (chg_status_for_halfop env pm n c st)) = irc st"
  "irc (fst (chg_status_for_voice env pm n c st)) = irc st"
  by (simp_all add: chg_status_for_owner_def chg_status_for_superop_def chg_status_for_op_def chg_status_for_halfop_def
      chg_status_for_voice_def chg_irc names_htbl_modify_owner_def names_htbl_modify_superop_def names_htbl_modify_op_def
      names_htbl_modify_halfop_def names_htbl_modify_voice_def htbl_modify_irc)

lemma rename_irc: "irc (fst (snd (RemoveAndInsertNick env old new lbl st))) = irc st"
proof (cases "event_names_htbl_lookup old lbl st")
  case (Some p)
  obtain b st1 acts1 where r: "event_names_htbl_remove old lbl st = (b, st1, acts1)"
    by (cases "event_names_htbl_remove old lbl st") auto
  obtain b2 st2 acts2 where i: "event_names_htbl_insert new lbl st1 = (b2, st2, acts2)"
    by (cases "event_names_htbl_insert new lbl st1") auto
  have "irc st1 = irc st" "irc st2 = irc st1"
    using remove_irc [of old lbl st] insert_irc [of new lbl st1] r i by simp_all
  then show ?thesis using Some r i by (simp add: RemoveAndInsertNick_def Let_def split: bool.split)
qed (simp add: RemoveAndInsertNick_def)

lemma channel_loop_fixes:
  assumes "\<And>w s. f (fst (body w s)) = f s"
  shows "f (fst (channel_loop body st)) = f st"
proof -
  let ?step = "\<lambda>i r. then_do r (\<lambda>st. case window_by_refnum (wins st) i of
            None \<Rightarrow> (st, [])
          | Some w \<Rightarrow> if is_irc_channel (Some (label w)) then body w st else (st, []))"
  have "f (fst (fold ?step xs r)) = f (fst r)" for xs r
  proof (induction xs arbitrary: r)
    case (Cons i xs)
    have "f (fst (?step i r)) = f (fst r)" using assms by (simp split: option.split)
    then show ?case using Cons.IH by simp
  qed simp
  then show ?thesis by (simp add: channel_loop_def)
qed


section \<open>NICK and QUIT\<close>

text \<open>What the loop over the channels made of the entries of each window.\<close>

definition on_channels ::
    "(irc_window \<Rightarrow> (string \<Rightarrow> names option) \<Rightarrow> string \<Rightarrow> names option) \<Rightarrow> ev_state \<Rightarrow> ev_state \<Rightarrow> bool" where
  "on_channels G st st' \<longleftrightarrow> members_ok st' \<and>
     (\<forall>c n. member st' c n = (case win st c of None \<Rightarrow> None
        | Some w \<Rightarrow> if is_irc_channel (Some (label w)) then G w (member st c) n else member st c n))"

lemma on_channels: "channels_set UNIV G st st' \<Longrightarrow> on_channels G st st'"
  by (auto simp: channels_set_def on_channels_def split: option.split)

definition nick_body :: "ev_env \<Rightarrow> string \<Rightarrow> string \<Rightarrow> irc_window \<Rightarrow> ev_state \<Rightarrow> ev_result" where
  "nick_body env nick new w st = (case RemoveAndInsertNick env nick new (label w) st of
      (False, r) \<Rightarrow> r
    | (True, r) \<Rightarrow> then_do r (\<lambda>st. (st, [Print (Some (w_ptr w)) TYPE_SPEC1_SPEC2
        (COLOR2 (ev_theme env) @ nick @ ch_normal @ '' is now known as '' @ THE_SPEC2 (ev_theme env) @ '' '' @
         COLOR1 (ev_theme env) @ new @ ch_normal)])))"

lemma nick_body_state: "fst (nick_body env nick new w st) = fst (snd (RemoveAndInsertNick env nick new (label w) st))"
  by (cases "RemoveAndInsertNick env nick new (label w) st"; cases "fst (RemoveAndInsertNick env nick new (label w) st)")
    (simp_all add: nick_body_def)

lemma nick_loop:
  assumes "members_ok st"
  shows "on_channels (rename_entries env nick new) st (fst (channel_loop (nick_body env nick new) st))"
    "irc (fst (channel_loop (nick_body env nick new) st)) = irc st"
proof -
  have "entries_set (label w) (rename_entries env nick new w (member s (label w))) s (fst (nick_body env nick new w s))"
    if "members_ok s" "win s (label w) = Some w" for w s
    using rename_effect(1) [OF that, of env nick new] prod.collapse
    unfolding nick_body_state by (metis prod.collapse)
  then show "on_channels (rename_entries env nick new) st (fst (channel_loop (nick_body env nick new) st))"
    by (intro on_channels channel_loop_effect [OF assms]) simp_all
  show "irc (fst (channel_loop (nick_body env nick new) st)) = irc st"
    by (rule channel_loop_fixes) (simp add: nick_body_state rename_irc)
qed

text \<open>
  Property C25.  A change of nickname: on every channel the entry of the old name becomes one under
  the new name with the same account, real name and privileges (the privileges only once the names of
  the channel have been received), all other entries stay; if the new name cannot be installed
  (it has a forbidden character, is too long or is already there) the member is lost.  The
  own nickname follows, and an empty new name for the own nickname ends the program.
\<close>

theorem nick_change_everywhere:
  assumes "members_ok st" "user_word nick" "user_word user" "user_word host"
    and "prefix' compo = full_prefix nick user host" "params compo = Some (CHR '':'' # new)"
  shows "case event_nick env compo st of
      None \<Rightarrow> strings_match_ignore_case nick (my_nick st) \<and> new = []
    | Some (st', acts) \<Rightarrow> on_channels (rename_entries env nick new) st st'
        \<and> my_nick st' = (if strings_match_ignore_case nick (my_nick st) then new else my_nick st)
        \<and> \<not> (strings_match_ignore_case nick (my_nick st) \<and> new = [])"
proof -
  have n: "skip_colon (params_of compo) = new" using assms(6) by (simp add: params_of_def skip_colon_def)
  obtain st1 acts1 where l: "channel_loop (nick_body env nick new) st = (st1, acts1)"
    by (cases "channel_loop (nick_body env nick new) st")
  have e: "event_nick env compo st =
      (if strings_match_ignore_case nick (my_nick st1)
       then (case irc_set_my_nickname (Some new) (irc st1) of None \<Rightarrow> None | Some g \<Rightarrow> Some (st1\<lparr>irc := g\<rparr>, acts1))
       else Some (st1, acts1))"
    using l sender_full [OF assms(2-5)] n
    by (simp add: event_nick_def nick_body_def [abs_def] Let_def)
  have i: "on_channels (rename_entries env nick new) st st1" "irc st1 = irc st" "my_nick st1 = my_nick st"
    using nick_loop [OF assms(1), of env nick new] l by (simp_all add: my_nick_def)
  have "on_channels (rename_entries env nick new) st (st1\<lparr>irc := g\<rparr>)" for g
    using i(1) by (simp add: on_channels_def members_ok_def)
  then show ?thesis using i(1,3) by (simp add: e irc_set_my_nickname_def my_nick_def)
qed

theorem nick_change_everywhere_witness:
  "\<exists>st' acts. event_nick example_ev_env \<lparr>account = None, year = 0, month = 0, day = 0, hour = 0, minute = 0, second = 0,
       precision = 0, prefix' = Some '':op!u@h'', command = None, params = Some '':Op_away''\<rparr> example_with_op = Some (st', acts)
     \<and> member st' ''#isabelle'' ''op'' = None \<and> member st' ''#isabelle'' ''op_AWAY'' \<noteq> None \<and> my_nick st' = ''me''"
proof -
  let ?c = "\<lparr>account = None, year = 0, month = 0, day = 0, hour = 0, minute = 0, second = 0,
       precision = 0, prefix' = Some '':op!u@h'', command = None, params = Some '':Op_away''\<rparr>"
  obtain w where w: "win example_with_op ''#isabelle'' = Some w" "is_irc_channel (Some (label w))"
    using example_with_op(3) by blast
  have c: "user_word ''op''" "user_word ''u''" "user_word ''h''" "nick_ok ''Op_away''"
    "strings_match_ignore_case ''op_AWAY'' ''Op_away''" "\<not> strings_match_ignore_case ''op'' ''Op_away''"
    "\<not> strings_match_ignore_case ''op'' ''me''" "strings_match_ignore_case ''op'' ''op''"
    "\<not> strings_match_ignore_case ''Op_away'' ''op''" "\<not> strings_match_ignore_case ''op_AWAY'' ''op''"
    by code_simp+
  have no: "member example_with_op ''#isabelle'' ''Op_away'' = None"
    using example_with_op_only c(9) by simp
  show ?thesis
    using nick_change_everywhere [OF example_with_op(1) c(1-3), of ?c "''Op_away''" example_ev_env] w no c example_with_op(2,4)
    by (auto simp: on_channels_def rename_entries_def split: option.splits)
qed

text \<open>
   A user who quits is gone from every channel, nobody else is touched, and without a
  netsplit in the message no netsplit is recorded.
\<close>

theorem quit_everywhere:
  assumes "members_ok st" "user_word nick" "user_word user" "user_word host"
    and "prefix' compo = full_prefix nick user host" "params compo = Some (CHR '':'' # msg)"
  shows "on_channels (\<lambda>w f n. if strings_match_ignore_case n nick then None else f n) st (fst (event_quit env compo st))
    \<and> (is_netsplit env msg = None \<longrightarrow> netsplits (fst (event_quit env compo st)) = netsplits st)
    \<and> irc (fst (event_quit env compo st)) = irc st"
proof -
  have n: "skip_colon (params_of compo) = msg" using assms(6) by (simp add: params_of_def skip_colon_def)
  let ?body = "\<lambda>w st. case event_names_htbl_remove nick (label w) st of
              (False, r) \<Rightarrow> r | (True, r) \<Rightarrow> then_do r (handle_quit env w msg nick user host)"
  have e: "event_quit env compo st = channel_loop ?body st"
    using sender_full [OF assms(2-5)] n by (simp add: event_quit_def Let_def)
  have q: "\<exists>x. fst (handle_quit env w msg nick user host s) = s\<lparr>netsplits := x\<rparr> \<and> (is_netsplit env msg = None \<longrightarrow> x = netsplits s)" for w s
    by (auto simp: handle_quit_def Let_def split: option.split prod.split intro: exI [of _ "netsplits s"])
  have b: "\<exists>x. fst (?body w s) = (fst (snd (event_names_htbl_remove nick (label w) s)))\<lparr>netsplits := x\<rparr>
      \<and> (is_netsplit env msg = None \<longrightarrow> x = netsplits s)" for w s
  proof -
    obtain b s' acts where r: "event_names_htbl_remove nick (label w) s = (b, s', acts)"
      by (cases "event_names_htbl_remove nick (label w) s") auto
    have "netsplits s' = netsplits s" using r remove_netsplits [of nick "label w" s] by simp
    then show ?thesis using q [of w s'] r by (cases b) (auto intro: exI [of _ "netsplits s"])
  qed
  have "on_channels (\<lambda>w f n. if strings_match_ignore_case n nick then None else f n) st (fst (channel_loop ?body st))"
  proof (intro on_channels channel_loop_effect [OF assms(1)])
    fix w s assume s: "members_ok s" "win s (label w) = Some w"
    obtain b' s' acts where r: "event_names_htbl_remove nick (label w) s = (b', s', acts)"
      by (cases "event_names_htbl_remove nick (label w) s") auto
    obtain x where "fst (?body w s) = s'\<lparr>netsplits := x\<rparr>" using b [of w s] r by auto
    then show "entries_set (label w) (\<lambda>n. if strings_match_ignore_case n nick then None else member s (label w) n) s (fst (?body w s))"
      using remove_effect(2) [OF s r] by (simp add: entries_set_def members_ok_def)
  qed simp
  moreover have "netsplits (fst (channel_loop ?body st)) = netsplits st" if "is_netsplit env msg = None"
    by (rule channel_loop_fixes) (use b that in \<open>metis irc_netsplits(2)\<close>)
  moreover have "irc (fst (channel_loop ?body st)) = irc st"
    by (rule channel_loop_fixes) (use b in \<open>metis irc_netsplits remove_irc\<close>)
  ultimately show ?thesis using e by simp
qed


theorem quit_everywhere_witness:
  "member (fst (event_quit example_ev_env \<lparr>account = None, year = 0, month = 0, day = 0, hour = 0, minute = 0, second = 0,
       precision = 0, prefix' = Some '':op!u@h'', command = None, params = Some '':Quit: bye''\<rparr> example_with_op))
     ''#isabelle'' ''OP'' = None"
proof -
  let ?c = "\<lparr>account = None, year = 0, month = 0, day = 0, hour = 0, minute = 0, second = 0,
       precision = 0, prefix' = Some '':op!u@h'', command = None, params = Some '':Quit: bye''\<rparr>"
  obtain w where w: "win example_with_op ''#isabelle'' = Some w" "is_irc_channel (Some (label w))"
    using example_with_op(3) by blast
  have c: "user_word ''op''" "user_word ''u''" "user_word ''h''" "strings_match_ignore_case ''OP'' ''op''"
    by code_simp+
  show ?thesis
    using quit_everywhere [OF example_with_op(1) c(1-3), of ?c "''Quit: bye''" example_ev_env] w c(4)
    by (simp add: on_channels_def)
qed

section \<open>MODE\<close>

text \<open>A MODE message with one nickname, as the handler reads it.\<close>

lemma mode_one:
  assumes "plain_word ch" "plain_word n" "plain_word flags" "hd flags \<noteq> CHR '':''" "hd n \<noteq> CHR '':''"
    and "\<not> isspace (code (last n))" "params compo = Some (ch @ CHR '' '' # flags @ CHR '' '' # n)"
  shows "strFeed (params_of compo) 1 = (1, ch @ feed_char # flags @ CHR '' '' # n)"
    and "tok nl_sep (ch @ feed_char # flags @ CHR '' '' # n) = (Some ch, flags @ CHR '' '' # n)"
    and "tok nl_sep (flags @ CHR '' '' # n) = (Some (flags @ CHR '' '' # n), [])"
    and "trim (mode_token (flags @ CHR '' '' # n)) = flags @ CHR '' '' # n"
    and "strtok_r '' '' (flags @ CHR '' '' # n) = Some (flags, n)" "strtoks '' '' n = [n]"
proof -
  show "strFeed (params_of compo) 1 = (1, ch @ feed_char # flags @ CHR '' '' # n)"
    using assms by (simp add: params_of_def strFeed_eq feed_spec_prefix plain_word_def count_list_append)
  show "tok nl_sep (ch @ feed_char # flags @ CHR '' '' # n) = (Some ch, flags @ CHR '' '' # n)"
    using assms(1) tok_line(1) by (simp add: plain_word_def)
  show "tok nl_sep (flags @ CHR '' '' # n) = (Some (flags @ CHR '' '' # n), [])"
    using assms(2,3) tok_line(2) [of "flags @ CHR '' '' # n"] by (simp add: plain_word_def)
  show "strtok_r '' '' (flags @ CHR '' '' # n) = Some (flags, n)" "strtoks '' '' n = [n]"
    using assms(2,3) strtok_r_word(1) [of flags "'' ''" "CHR '' ''" n] strtoks_word(1) [of n "'' ''"]
    by (simp_all add: plain_word_def)
  have no: "strstr t ('' :'') = None" if "CHR '' '' \<notin> set t" for t
    using that by (induction t) auto
  have "strstr (f @ CHR '' '' # n) '' :'' = None" if "CHR '' '' \<notin> set f" for f
    using that assms(2,5) no [of n] by (induction f; cases n) (auto simp: plain_word_def)
  then have "strstr (flags @ CHR '' '' # n) '' :'' = None" using assms(3) by (simp add: plain_word_def)
  then have "mode_token (flags @ CHR '' '' # n) = flags @ CHR '' '' # n"
    using assms(3,4) by (simp add: mode_token_def plain_word_def)
  moreover have "trim (flags @ CHR '' '' # n) = flags @ CHR '' '' # n"
    using assms(2,6) by (cases n rule: rev_cases) (simp_all add: trim_eq plain_word_def)
  ultimately show "trim (mode_token (flags @ CHR '' '' # n)) = flags @ CHR '' '' # n" by simp
qed


lemma minus_op:
  assumes "members_ok st" "win st ch = Some w" "received_names w" "n \<noteq> []" "member st ch n = Some m" "rank m = PrivNormal"
  shows "\<exists>ns. fst (modes_loop env ch ''-o'' STATE_NEITHER_PM [n] st) = set_win_names (w_ptr w) ns st
    \<and> num_ops ns = num_ops (w_names w) - 1 \<and> num_normal ns = num_normal (w_names w) + 1
    \<and> (\<forall>s. names_lookup ns s = names_lookup (w_names w) s)"
proof -
  have l: "names_ok (w_names w)" "names_lookup (w_names w) n = Some m"
    using win_members [OF assms(1,2)] assms(2,5) by (simp_all add: member_def)
  obtain ns where ns: "modify_op n False (w_names w) = Some ns" "num_ops ns = num_ops (w_names w) - 1"
    "num_normal ns = num_normal (w_names w) + 1" "\<forall>s. names_lookup ns s = names_lookup (w_names w) s"
    using op_taken_twice [OF l assms(6)] by blast
  have "fst (chg_status_for_op env STATE_MINUS n ch st) = set_win_names (w_ptr w) ns st"
    using assms(2-4) l(2) ns(1)
    by (simp add: chg_status_for_op_def chg_status_def names_htbl_modify_op_def htbl_modify_def)
  then have "fst (modes_loop env ch ''-o'' STATE_NEITHER_PM [n] st) = set_win_names (w_ptr w) ns st"
    by (simp add: mode_letter_def mode_sign_def takes_param_def)
  then show ?thesis using ns(2-4) by blast
qed

text \<open>
   A MODE message that takes the operator privilege from a member who has none is
  counted: the members of the channel stay as they are, but the number of operators shown goes
  down by one, and so does not agree with the members any more.
\<close>

theorem mode_minus_miscounts:
  assumes "members_ok st" "win st ch = Some w" "received_names w" "member st ch n = Some m" "rank m = PrivNormal"
    and "is_irc_channel (Some ch)" "\<not> strings_match_ignore_case ch (my_nick st)"
    and "plain_word ch" "plain_word n" "hd n \<noteq> CHR '':''" "\<not> isspace (code (last n))"
    and "user_word nick" "user_word user" "user_word host" "prefix' compo = full_prefix nick user host"
    and "params compo = Some (ch @ '' -o '' @ n)"
  shows "\<exists>ns. win (fst (event_mode env compo st)) ch = Some (w\<lparr>w_names := ns\<rparr>)
    \<and> num_ops ns = num_ops (w_names w) - 1
    \<and> num_ops ns \<noteq> int (length (filter (\<lambda>m. rank m = PrivOp) (all_names (w_names w))))
    \<and> (\<forall>c k. member (fst (event_mode env compo st)) c k = member st c k)"
proof -
  have p: "params compo = Some (ch @ CHR '' '' # ''-o'' @ CHR '' '' # n)" using assms(16) by simp
  have o: "plain_word ''-o''" by code_simp
  note m1 = mode_one [OF assms(8,9) o _ assms(10,11) p]
  have w: "windows_ok (wins st)" "names_ok (w_names w)" "num_ops (w_names w) = counter PrivOp (w_names w)"
    using assms(1) win_members [OF assms(1,2)] by (simp_all add: members_ok_def)
  obtain ns where ns: "fst (modes_loop env ch ''-o'' STATE_NEITHER_PM [n] st) = set_win_names (w_ptr w) ns st"
    "num_ops ns = num_ops (w_names w) - 1" "\<forall>s. names_lookup ns s = names_lookup (w_names w) s"
    using minus_op [OF assms(1-3) _ assms(4,5), of env] assms(9) by (auto simp: plain_word_def)
  have "fst (maintain_channel_stats env ch (''-o'' @ CHR '' '' # n) st) = set_win_names (w_ptr w) ns st"
    using ns(1) by (simp add: maintain_channel_stats_def max_mode_params_def m1(5,6) del: modes_loop.simps append_Cons append_Nil)
  then have e: "fst (event_mode env compo st) = set_win_names (w_ptr w) ns st"
    using m1(1-4) assms(2,6,7) sender_full [OF assms(12-15)] by (simp add: event_mode_def Let_def)
  have "counter PrivOp (w_names w) = int (length (filter (\<lambda>m. rank m = PrivOp) (all_names (w_names w))))"
    using w(2) chain_count_filter [of "\<lambda>m. rank m = PrivOp" "w_names w"] by (simp only: names_ok_def counts_ok_def)
  moreover have "member (set_win_names (w_ptr w) ns st) c k = member st c k" for c k
    using set_names_member [OF w(1) assms(2)] ns(3) win_spelling [of c ch st] assms(2) by (simp add: member_def)
  moreover have "win (set_win_names (w_ptr w) ns st) ch = Some (w\<lparr>w_names := ns\<rparr>)"
    using set_names_win [OF w(1) assms(2), of ns ch] smic_fold by simp
  moreover have "num_ops ns \<noteq> counter PrivOp (w_names w)" using ns(2) by simp
  ultimately show ?thesis
    unfolding e using ns(2) by (intro exI [of _ ns]) (simp only: simp_thms)
qed


text \<open>A channel whose names have been received, with a member without privileges.\<close>

definition example_received :: ev_state where
  "example_received = (let p = (case win example_ev_state ''#isabelle'' of None \<Rightarrow> 0 | Some w \<Rightarrow> w_ptr w)
     in snd (Names.hInstall ''#isabelle'' (with_privs ''guest'' []) (upd_win p (\<lambda>w. w\<lparr>received_names := True\<rparr>) example_ev_state)))"

lemma example_received:
  "members_ok example_received" "my_nick example_received = ''me''"
  "\<exists>w. win example_received ''#isabelle'' = Some w \<and> received_names w"
  "member example_received ''#isabelle'' ''guest'' = Some (with_privs ''guest'' [])"
proof -
  obtain w where w: "win example_ev_state ''#isabelle'' = Some w" "w_names w = no_names" using example_ev(2) by blast
  let ?s = "upd_win (w_ptr w) (\<lambda>w. w\<lparr>received_names := True\<rparr>) example_ev_state"
  have d: "example_received = snd (Names.hInstall ''#isabelle'' (with_privs ''guest'' []) ?s)"
    by (simp add: example_received_def w(1))
  have wok: "windows_ok (wins example_ev_state)" using example_ev(1) by (simp add: members_ok_def)
  have ok: "members_ok ?s"
    using upd_win_ok [OF wok, of "\<lambda>w. w\<lparr>received_names := True\<rparr>" "w_ptr w"] example_ev(1)
    by (auto simp: members_ok_def upd_win_windows)
  have w2: "win ?s ''#isabelle'' = Some (w\<lparr>received_names := True\<rparr>)"
    using win_upd [OF wok, of "\<lambda>w. w\<lparr>received_names := True\<rparr>" "w_ptr w" "''#isabelle''"] w(1) by simp
  have "nick_ok ''guest''" by code_simp
  moreover have n: "m_nick (with_privs ''guest'' []) = ''guest''" by (simp add: with_privs_def)
  moreover have "member ?s ''#isabelle'' ''guest'' = None" using w2 w(2) no_names_ok(2) by (simp add: member_def)
  ultimately have i: "fst (Names.hInstall ''#isabelle'' (with_privs ''guest'' []) ?s)"
    using names_hInstall_ok(1) [OF ok w2, of "with_privs ''guest'' []"] by simp
  note h = names_hInstall_ok(2) [OF ok w2 i]
  show "members_ok example_received" "member example_received ''#isabelle'' ''guest'' = Some (with_privs ''guest'' [])"
    "\<exists>w. win example_received ''#isabelle'' = Some w \<and> received_names w"
    using h by (simp_all add: d n smic_fold)
  show "my_nick example_received = ''me''" by (simp add: d my_nick_def) (simp add: example_ev_state_def)
qed

theorem mode_minus_miscounts_witness:
  "\<exists>w ns. win example_received ''#isabelle'' = Some w \<and>
     win (fst (event_mode example_ev_env \<lparr>account = None, year = 0, month = 0, day = 0, hour = 0, minute = 0, second = 0,
       precision = 0, prefix' = Some '':op!u@h'', command = None, params = Some ''#isabelle -o guest''\<rparr> example_received))
       ''#isabelle'' = Some (w\<lparr>w_names := ns\<rparr>) \<and> num_ops ns = num_ops (w_names w) - 1"
proof -
  let ?c = "\<lparr>account = None, year = 0, month = 0, day = 0, hour = 0, minute = 0, second = 0,
       precision = 0, prefix' = Some '':op!u@h'', command = None, params = Some ''#isabelle -o guest''\<rparr>"
  obtain w where w: "win example_received ''#isabelle'' = Some w" "received_names w" using example_received(3) by blast
  have c: "rank (with_privs ''guest'' []) = PrivNormal" "is_irc_channel (Some ''#isabelle'')"
    "\<not> strings_match_ignore_case ''#isabelle'' ''me''" "plain_word ''#isabelle''" "plain_word ''guest''"
    "hd ''guest'' \<noteq> CHR '':''" "\<not> isspace (code (last ''guest''))" "user_word ''op''" "user_word ''u''" "user_word ''h''"
    by code_simp+
  show ?thesis
    using mode_minus_miscounts [OF example_received(1) w example_received(4) c(1,2) _ c(4-10), of ?c example_ev_env]
      c(3) example_received(2) w(1) by auto
qed

end
