(* ===== verification/Printtext.thy ===== *)
theory Printtext
  imports Text_Deco Text_Buffer Data_Classify Events Config
begin

text \<open>
  Printing to a window: \<^verbatim>\<open>src/src/printtext.cpp\<close>.

  A wide text is the list of the codes of its characters; in memory a NUL follows.  What is done
  to the curses window is a list of drawing calls.  The locale, the conversions, the
  colour pairs and the clock are the environment.  The thread locks, the refreshing of the panels
  and the Windows variants are not modelled.  A result is \<^const>\<open>None\<close> when the code reads outside
  its buffer or an assertion fails.
\<close>

section \<open>Environment and drawing calls\<close>

datatype pt_attr = A_NORMAL | A_BOLD | A_REVERSE | A_UNDERLINE

datatype pt_draw =
    Addmbs string
  | New_row
  | Indent nat
  | Wattr_on pt_attr
  | Wattr_off pt_attr
  | Wattrset_normal
  | Wattr_set pt_attr int
  | Wcolor_set int

record pt_window =
  maxx :: int
  scrollok :: bool

record pt_env =
  iswprint :: "int \<Rightarrow> bool"
  wcrtomb :: "int \<Rightarrow> string option"
  pt_wcs :: wcs_env
  colors :: int
  can_change_color :: bool
  g_initialized_pairs :: int
  pair_content :: "int \<Rightarrow> (int \<times> int) option"
  pt_theme :: theme
  too_small :: bool
  have_iconv :: bool
  iconv_conversion :: bool
  iconv :: "string \<Rightarrow> string \<Rightarrow> string option"
  locale_info :: "string option \<times> string option"
  locale_mbstowcs :: "string \<Rightarrow> string \<Rightarrow> int list option"
  mbsrtowcs :: "string \<Rightarrow> int list \<times> nat option"
  current_time :: "string \<Rightarrow> string"
  g_no_colors :: bool

section \<open>Colours\<close>

definition COLOR_BLACK :: int where "COLOR_BLACK = 0"
definition COLOR_RED :: int where "COLOR_RED = 1"
definition COLOR_GREEN :: int where "COLOR_GREEN = 2"
definition COLOR_YELLOW :: int where "COLOR_YELLOW = 3"
definition COLOR_BLUE :: int where "COLOR_BLUE = 4"
definition COLOR_MAGENTA :: int where "COLOR_MAGENTA = 5"
definition COLOR_CYAN :: int where "COLOR_CYAN = 6"
definition COLOR_WHITE :: int where "COLOR_WHITE = 7"
definition GREY :: int where "GREY = 0xff"
definition LIGHT_GREY :: int where "LIGHT_GREY = 15"

definition ptext_colorMap :: "(int \<times> pt_attr) list" where
  "ptext_colorMap =
     [(COLOR_WHITE, A_BOLD), (COLOR_BLACK, A_NORMAL), (COLOR_BLUE, A_NORMAL), (COLOR_GREEN, A_NORMAL),
      (COLOR_RED, A_BOLD), (COLOR_RED, A_NORMAL), (COLOR_MAGENTA, A_NORMAL), (COLOR_YELLOW, A_NORMAL),
      (COLOR_YELLOW, A_BOLD), (COLOR_GREEN, A_BOLD), (COLOR_CYAN, A_NORMAL), (COLOR_CYAN, A_BOLD),
      (COLOR_BLUE, A_BOLD), (COLOR_MAGENTA, A_BOLD), (COLOR_BLACK, A_BOLD), (COLOR_WHITE, A_NORMAL)] @
     map (\<lambda>c. (c, A_NORMAL))
       [52, 94, 100, 58, 22, 29, 23, 24, 17, 54, 53, 89,
        88, 130, 142, 64, 28, 35, 30, 25, 18, 91, 90, 125,
        124, 166, 184, 106, 34, 49, 37, 33, 19, 129, 127, 161,
        196, 208, 226, 154, 46, 86, 51, 75, 21, 171, 201, 198,
        203, 215, 227, 191, 83, 122, 87, 111, 63, 177, 207, 205,
        217, 223, 229, 193, 157, 158, 159, 153, 147, 183, 219, 212,
        16, 233, 235, 237, 239, 241, 244, 247, 250, 254, 231, -1]"

text \<open>The colour and, if it is replaced, that the attribute is \<^const>\<open>A_NORMAL\<close>.\<close>

definition map_color :: "int \<Rightarrow> pt_attr \<Rightarrow> int \<times> bool" where
  "map_color c at =
     (if c = COLOR_BLACK then (if at = A_BOLD then (GREY, True) else (c, False))
      else if c = COLOR_WHITE then (if at = A_NORMAL then (LIGHT_GREY, True) else (c, False))
      else (c, False))"

fun pair_find_loop :: "pt_env \<Rightarrow> int \<Rightarrow> int \<Rightarrow> int list \<Rightarrow> int" where
  "pair_find_loop env fg bg [] = -1"
| "pair_find_loop env fg bg (pnum # ps) =
     (case pair_content env pnum of None \<Rightarrow> -1
      | Some (x, y) \<Rightarrow> if x = fg \<and> y = bg then pnum else pair_find_loop env fg bg ps)"

definition color_pair_find :: "pt_env \<Rightarrow> int \<Rightarrow> int \<Rightarrow> int" where
  "color_pair_find env fg bg = pair_find_loop env fg bg [1..g_initialized_pairs env]"

definition printtext_set_color :: "pt_env \<Rightarrow> int \<Rightarrow> int \<Rightarrow> (pt_draw list \<times> bool) option" where
  "printtext_set_color env num1 num2 =
     (if num1 < 0 then None
      else
        let entries = (if colors env \<ge> 256 then int (length ptext_colorMap) else 16);
            entry1 = ptext_colorMap ! nat (num1 mod entries);
            entry2 = ptext_colorMap ! nat (num2 mod entries);
            bg = (if num2 < 0 then -1 else fst entry2);
            mapped = colors env \<ge> 16 \<and> can_change_color env;
            (fg', n1) = (if mapped then map_color (fst entry1) (snd entry1) else (fst entry1, False));
            (bg', n2) = (if mapped \<and> num2 \<ge> 0 then map_color bg (snd entry2) else (bg, False));
            attr = (if n1 \<or> n2 then A_NORMAL else snd entry1);
            resolved_pair = color_pair_find env fg' bg'
        in if resolved_pair = -1 then Some ([Wcolor_set 0], False)
           else Some ([Wattr_set attr resolved_pair], True))"

definition init_numbers :: "pt_env \<Rightarrow> string \<Rightarrow> string \<Rightarrow> int \<times> int" where
  "init_numbers env fg bg =
     (fst (strtol_digits fg),
      if bg \<noteq> [] then fst (strtol_digits bg)
      else if fst (theme_bool (pt_theme env) ''term_use_default_colors'' True) then -1
      else fst (theme_integer (pt_theme env) ''term_background'' 0 15 1))"

section \<open>Colour codes\<close>

definition convert_wc :: "pt_env \<Rightarrow> int \<Rightarrow> string" where
  "convert_wc env wc = (if wc = 0 then [] else case wcrtomb env wc of None \<Rightarrow> [] | Some mbs \<Rightarrow> mbs)"

datatype cc_check_t = BUF_EOF | GO_ON | STOP_INTERPRETING

text \<open>
  The checks of the characters behind a \<^verbatim>\<open>^C\<close>.  \<open>i\<close> is the position of \<^verbatim>\<open>*bufp\<close>; the results are
  the new position and the digits that were stored.
\<close>

definition is_digit_mbs :: "string \<Rightarrow> bool" where
  "is_digit_mbs mbs \<longleftrightarrow> length mbs = 1 \<and> sw_isdigit (int (code (hd mbs)))"

definition is_comma_mbs :: "string \<Rightarrow> bool" where
  "is_comma_mbs mbs \<longleftrightarrow> mbs = '',''"

definition check_for_part1 :: "pt_env \<Rightarrow> int list \<Rightarrow> nat \<Rightarrow> (cc_check_t \<times> nat \<times> string) option" where
  "check_for_part1 env buf i = do {
     c \<leftarrow> rd buf (i + 1);
     let mbs = convert_wc env c;
     Some (if c = 0 then (BUF_EOF, i + 1, [])
           else if \<not> is_digit_mbs mbs then (STOP_INTERPRETING, i, [])
           else (GO_ON, i + 1, mbs)) }"

definition check_for_part2 :: "pt_env \<Rightarrow> int list \<Rightarrow> nat \<Rightarrow> (cc_check_t \<times> nat \<times> string \<times> bool) option" where
  "check_for_part2 env buf i = do {
     c \<leftarrow> rd buf (i + 1);
     let mbs = convert_wc env c;
     Some (if c = 0 then (BUF_EOF, i + 1, [], False)
           else if is_digit_mbs mbs then (GO_ON, i + 1, mbs, False)
           else if is_comma_mbs mbs then (GO_ON, i + 1, [], True)
           else (STOP_INTERPRETING, i, [], False)) }"

definition check_for_part3 ::
    "pt_env \<Rightarrow> int list \<Rightarrow> nat \<Rightarrow> bool \<Rightarrow> bool \<Rightarrow> (cc_check_t \<times> nat \<times> bool \<times> string) option" where
  "check_for_part3 env buf i has_comma fg_complete = do {
     c \<leftarrow> rd buf (i + 1);
     let mbs = convert_wc env c;
     Some (if c = 0 then (BUF_EOF, i + 1, has_comma, [])
           else if \<not> is_comma_mbs mbs \<and> \<not> is_digit_mbs mbs then (STOP_INTERPRETING, i, has_comma, [])
           else if is_comma_mbs mbs \<and> has_comma then (STOP_INTERPRETING, i, has_comma, [])
           else if \<not> is_comma_mbs mbs \<and> fg_complete then (STOP_INTERPRETING, i, has_comma, [])
           else if is_comma_mbs mbs then (GO_ON, i + 1, True, [])
           else (GO_ON, i + 1, has_comma, mbs)) }"

definition check_for_part4 :: "pt_env \<Rightarrow> int list \<Rightarrow> nat \<Rightarrow> string \<Rightarrow> (cc_check_t \<times> nat \<times> string) option" where
  "check_for_part4 env buf i bg = do {
     c \<leftarrow> rd buf (i + 1);
     let mbs = convert_wc env c;
     Some (if c = 0 then (BUF_EOF, i + 1, bg)
           else if \<not> is_digit_mbs mbs then (STOP_INTERPRETING, i, bg)
           else if bg \<noteq> [] then (STOP_INTERPRETING, i + 1, bg @ mbs)
           else (GO_ON, i + 1, mbs)) }"

definition check_for_part5 :: "pt_env \<Rightarrow> int list \<Rightarrow> nat \<Rightarrow> string \<Rightarrow> (cc_check_t \<times> nat \<times> string) option" where
  "check_for_part5 env buf i bg = do {
     c \<leftarrow> rd buf (i + 1);
     let mbs = convert_wc env c;
     Some (if c = 0 then (BUF_EOF, i + 1, bg)
           else if \<not> is_digit_mbs mbs then (STOP_INTERPRETING, i, bg)
           else (GO_ON, i + 1, bg @ mbs)) }"

text \<open>
  The chain of checks of \<^verbatim>\<open>case_color\<close>: the end of the buffer ends the function; otherwise the
  position and the numbers found.
\<close>

definition color_background :: "pt_env \<Rightarrow> int list \<Rightarrow> nat \<Rightarrow> bool \<Rightarrow> string \<Rightarrow> (bool \<times> nat \<times> bool \<times> string) option" where
  "color_background env buf i has_comma fg = do {
     (res, i, has_comma, bg) \<leftarrow> check_for_part3 env buf i has_comma (length fg = 2);
     if res = BUF_EOF then Some (True, i, has_comma, bg)
     else if res = STOP_INTERPRETING then Some (False, i, has_comma, bg)
     else do {
       (res, i, bg) \<leftarrow> check_for_part4 env buf i bg;
       if res = BUF_EOF then Some (True, i, has_comma, bg)
       else if res = STOP_INTERPRETING then Some (False, i, has_comma, bg)
       else do {
         (res, i, bg) \<leftarrow> check_for_part5 env buf i bg;
         Some (res = BUF_EOF, i, has_comma, bg) } } }"

definition color_code :: "pt_env \<Rightarrow> int list \<Rightarrow> nat \<Rightarrow> (nat \<times> (string \<times> string) option) option" where
  "color_code env buf i = do {
     (res, i, fg1) \<leftarrow> check_for_part1 env buf i;
     if res \<noteq> GO_ON then Some (i, None)
     else do {
       (res, i, fg2, has_comma) \<leftarrow> check_for_part2 env buf i;
       if res = BUF_EOF then Some (i, None)
       else if res = STOP_INTERPRETING then Some (i, Some (fg1 @ fg2, []))
       else do {
         (eof, i, has_comma, bg) \<leftarrow> color_background env buf i has_comma (fg1 @ fg2);
         if eof then Some (i, None)
         else Some (if has_comma \<and> bg = [] then i - 1 else i, Some (fg1 @ fg2, bg)) } } }"

definition case_color :: "pt_env \<Rightarrow> int list \<Rightarrow> nat \<Rightarrow> bool \<Rightarrow> (nat \<times> bool \<times> pt_draw list) option" where
  "case_color env buf i is_color = do {
     let off = (if is_color then [Wcolor_set 0] else []);
     (i, nums) \<leftarrow> color_code env buf i;
     (case nums of
        None \<Rightarrow> Some (i, False, off)
      | Some (fg, bg) \<Rightarrow> do {
          (draws, is_color) \<leftarrow> (case init_numbers env fg bg of (num1, num2) \<Rightarrow> printtext_set_color env num1 num2);
          Some (i, is_color, off @ draws) }) }"


section \<open>Layout\<close>

record text_decoration_bools =
  is_blink :: bool
  is_bold :: bool
  is_color :: bool
  is_reverse :: bool
  is_underline :: bool

definition no_decoration :: text_decoration_bools where
  "no_decoration = \<lparr>is_blink = False, is_bold = False, is_color = False, is_reverse = False, is_underline = False\<rparr>"

record puts_state =
  booleans :: text_decoration_bools
  insert_count :: int
  lines_count :: int
  rep_count :: int
  draws :: "pt_draw list"

definition emit :: "pt_draw list \<Rightarrow> puts_state \<Rightarrow> puts_state" where
  "emit ds st = st\<lparr>draws := draws st @ ds\<rparr>"

definition case_blink :: "puts_state \<Rightarrow> puts_state" where
  "case_blink st = st\<lparr>booleans := (booleans st)\<lparr>is_blink := \<not> is_blink (booleans st)\<rparr>\<rparr>"

definition case_bold :: "puts_state \<Rightarrow> puts_state" where
  "case_bold st =
     (if \<not> is_bold (booleans st) then emit [Wattr_on A_BOLD] (st\<lparr>booleans := (booleans st)\<lparr>is_bold := True\<rparr>\<rparr>)
      else emit [Wattr_off A_BOLD] (st\<lparr>booleans := (booleans st)\<lparr>is_bold := False\<rparr>\<rparr>))"

definition case_reverse :: "puts_state \<Rightarrow> puts_state" where
  "case_reverse st =
     (if \<not> is_reverse (booleans st) then emit [Wattr_on A_REVERSE] (st\<lparr>booleans := (booleans st)\<lparr>is_reverse := True\<rparr>\<rparr>)
      else emit [Wattr_off A_REVERSE] (st\<lparr>booleans := (booleans st)\<lparr>is_reverse := False\<rparr>\<rparr>))"

definition case_underline :: "puts_state \<Rightarrow> puts_state" where
  "case_underline st =
     (if \<not> is_underline (booleans st)
      then emit [Wattr_on A_UNDERLINE] (st\<lparr>booleans := (booleans st)\<lparr>is_underline := True\<rparr>\<rparr>)
      else emit [Wattr_off A_UNDERLINE] (st\<lparr>booleans := (booleans st)\<lparr>is_underline := False\<rparr>\<rparr>))"

definition do_indent :: "int \<Rightarrow> puts_state \<Rightarrow> puts_state" where
  "do_indent n st = emit [Indent (nat n)] (st\<lparr>insert_count := insert_count st + max 0 n\<rparr>)"

definition new_row :: "puts_state \<Rightarrow> puts_state" where
  "new_row st = emit [New_row] (st\<lparr>insert_count := 0, rep_count := rep_count st + 1\<rparr>)"

definition start_on_a_new_row :: "int \<Rightarrow> pt_window \<Rightarrow> bool" where
  "start_on_a_new_row n win \<longleftrightarrow> \<not> n < maxx win"

definition put_wc :: "pt_env \<Rightarrow> int \<Rightarrow> puts_state \<Rightarrow> puts_state" where
  "put_wc env wc st = emit [Addmbs (convert_wc env wc)] (st\<lparr>insert_count := insert_count st + xwcwidth wc 2\<rparr>)"

text \<open>
  \<^verbatim>\<open>case_default\<close>.  A new row counts as a line when the number of lines is limited; at the limit
  nothing more is written.
\<close>

definition case_default ::
    "pt_env \<Rightarrow> pt_window \<Rightarrow> int \<Rightarrow> bool \<Rightarrow> int \<Rightarrow> int \<Rightarrow> int \<Rightarrow> puts_state \<Rightarrow> puts_state" where
  "case_default env win wc nextchar_empty indent max_lines diff st =
     (if \<not> iswprint env wc \<and> wc \<noteq> 0x0A then st
      else if \<not> scrollok win then emit [Addmbs (convert_wc env wc)] st
      else
        let row = (\<lambda>st. if max_lines > 0 then (new_row st)\<lparr>lines_count := lines_count st + 1\<rparr> else new_row st);
            full = (\<lambda>st. max_lines > 0 \<and> \<not> lines_count st < max_lines)
        in if wc = 0x0A then
             (let st = row st in
              if full st then st
              else if \<not> nextchar_empty \<and> indent > 0 then do_indent indent st else st)
           else if \<not> start_on_a_new_row (insert_count st + diff + 1) win then put_wc env wc st
           else
             (let st = row st in
              if full st then st
              else
                let st = (if indent > 0 then do_indent indent st else st)
                in if wc \<noteq> 0x20 then put_wc env wc st else st))"

text \<open>The width of a blank and of the word behind it, if another blank follows.\<close>

definition deco_codes :: "int list" where
  "deco_codes = [BLINK, BOLD, COLOR, NORMAL, REVERSE, UNDERLINE]"

definition blank_diff :: "pt_env \<Rightarrow> int list \<Rightarrow> nat \<Rightarrow> int option" where
  "blank_diff env buf i =
     (let rest = takeWhile (\<lambda>c. c \<noteq> 0) (drop (i + 1) buf) in
      if buf ! i \<noteq> 0x20 \<or> 0x20 \<notin> set rest then Some 0
      else do {
        let diff = length (takeWhile (\<lambda>c. c \<noteq> 0x20) rest) + 1;
        let str = take (if diff > 4095 then 4095 else diff) (drop i buf);
        str \<leftarrow> (if list_ex (\<lambda>c. c \<in> set deco_codes) str then squeeze_text_deco_wide (pt_wcs env) (Some str) else Some str);
        let width = xwcswidth str 2;
        Some (if width < 0 then 0 else width) })"

text \<open>One round of the loop: the position of the last character that it used, and the state.\<close>

definition puts_step ::
    "pt_env \<Rightarrow> pt_window \<Rightarrow> int \<Rightarrow> int \<Rightarrow> int list \<Rightarrow> nat \<Rightarrow> puts_state \<Rightarrow> (nat \<times> puts_state) option" where
  "puts_step env win indent max_lines buf i st = do {
     wc \<leftarrow> rd buf i;
     if wc = BLINK then Some (i, case_blink st)
     else if wc = BOLD then Some (i, case_bold st)
     else if wc = COLOR then do {
       (i', b, ds) \<leftarrow> case_color env buf i (is_color (booleans st));
       Some (i', emit ds (st\<lparr>booleans := (booleans st)\<lparr>is_color := b\<rparr>\<rparr>)) }
     else if wc = NORMAL then Some (i, emit [Wattrset_normal] (st\<lparr>booleans := no_decoration\<rparr>))
     else if wc = REVERSE then Some (i, case_reverse st)
     else if wc = UNDERLINE then Some (i, case_underline st)
     else do {
       diff \<leftarrow> blank_diff env buf i;
       next \<leftarrow> rd buf (i + 1);
       Some (i, case_default env win wc (next = 0) indent max_lines diff st) } }"

text \<open>The position never goes back.\<close>

lemma part_mono:
  "check_for_part1 env buf i = Some (res, i', fg) \<Longrightarrow> i \<le> i' \<and> (res = GO_ON \<longrightarrow> i' = i + 1)"
  "check_for_part2 env buf i = Some (res, i', fg, h) \<Longrightarrow> i \<le> i' \<and> (h \<longrightarrow> i' = i + 1)"
  "check_for_part3 env buf i h b = Some (res, i', h', bg) \<Longrightarrow> i \<le> i'"
  "check_for_part4 env buf i bg = Some (res, i', bg') \<Longrightarrow> i \<le> i'"
  "check_for_part5 env buf i bg = Some (res, i', bg') \<Longrightarrow> i \<le> i'"
  unfolding check_for_part1_def check_for_part2_def check_for_part3_def check_for_part4_def check_for_part5_def Let_def
  by (cases "rd buf (i + 1)"; auto split: if_splits)+

lemma background_mono: "color_background env buf i h fg = Some (eof, i', h', bg) \<Longrightarrow> i \<le> i'"
  unfolding color_background_def
  by (auto simp: bind_eq_Some_conv dest!: part_mono split: if_splits)

lemma color_code_mono:
  assumes "color_code env buf i = Some (i', nums)" shows "i \<le> i'"
proof -
  obtain res i1 fg1 where 1: "check_for_part1 env buf i = Some (res, i1, fg1)"
    using assms unfolding color_code_def by (cases "check_for_part1 env buf i") auto
  show ?thesis
  proof (cases "res = GO_ON")
    case False
    then show ?thesis using assms 1 part_mono(1) [OF 1] unfolding color_code_def by simp
  next
    case True
    then obtain res2 i2 fg2 h where 2: "check_for_part2 env buf i1 = Some (res2, i2, fg2, h)"
      using assms 1 unfolding color_code_def by (cases "check_for_part2 env buf i1") auto
    show ?thesis
    proof (cases "res2 = GO_ON")
      case False
      then show ?thesis using assms 1 2 True part_mono(1) [OF 1] part_mono(2) [OF 2]
        unfolding color_code_def by (cases res2) auto
    next
      case on: True
      then obtain eof i3 h3 bg where 3: "color_background env buf i2 h (fg1 @ fg2) = Some (eof, i3, h3, bg)"
        using assms 1 2 True unfolding color_code_def by (cases "color_background env buf i2 h (fg1 @ fg2)") auto
      have "i' = i3 \<or> i' = i3 - 1"
        using assms 1 2 3 True on unfolding color_code_def by (auto split: if_splits)
      then show ?thesis using part_mono(1) [OF 1] True part_mono(2) [OF 2] background_mono [OF 3] by auto
    qed
  qed
qed

lemma case_color_mono: "case_color env buf i b = Some (i', r) \<Longrightarrow> i \<le> i'"
  unfolding case_color_def by (auto simp: bind_eq_Some_conv Let_def dest: color_code_mono split: option.splits)

lemma puts_step_mono: "puts_step env win indent ml buf i st = Some (i', st') \<Longrightarrow> i \<le> i' \<and> i < length buf"
  unfolding puts_step_def
  by (auto simp: bind_eq_Some_conv rd_Some_iff dest: case_color_mono split: if_splits)

definition lines_full :: "pt_window \<Rightarrow> int \<Rightarrow> puts_state \<Rightarrow> bool" where
  "lines_full win max_lines st \<longleftrightarrow> scrollok win \<and> max_lines > 0 \<and> lines_count st \<ge> max_lines"

function puts_loop ::
    "pt_env \<Rightarrow> pt_window \<Rightarrow> int \<Rightarrow> int \<Rightarrow> int list \<Rightarrow> nat \<Rightarrow> puts_state \<Rightarrow> puts_state option" where
  "puts_loop env win indent max_lines buf i st = do {
     wc \<leftarrow> rd buf i;
     if wc = 0 then Some st
     else do {
       (i', st') \<leftarrow> puts_step env win indent max_lines buf i st;
       if lines_full win max_lines st' then Some st'
       else puts_loop env win indent max_lines buf (i' + 1) st' } }"
  by pat_completeness auto
termination
  by (relation "measure (\<lambda>(env, win, indent, ml, buf, i, st). length buf - i)") (auto dest!: puts_step_mono)

declare puts_loop.simps [simp del]

section \<open>Converting the text\<close>

text \<open>
  Conversion under the locale with another codeset; \<^verbatim>\<open>locale_info\<close> is what \<^verbatim>\<open>get_locale_info\<close>
  returned.
\<close>

definition try_convert_buf_with_cs :: "pt_env \<Rightarrow> string \<Rightarrow> string \<Rightarrow> int list option" where
  "try_convert_buf_with_cs env buf codeset =
     (case locale_info env of
        (Some lang, Some _) \<Rightarrow> locale_mbstowcs env (lang @ ''.'' @ codeset) buf
      | _ \<Rightarrow> None)"

definition codesets :: "string list" where
  "codesets = [''UTF-8'', ''utf8'', ''ISO-8859-1'', ''ISO8859-1'', ''iso88591'', ''ISO-8859-15'', ''ISO8859-15'', ''iso885915'']"

fun first_conversion :: "pt_env \<Rightarrow> string \<Rightarrow> string list \<Rightarrow> int list option" where
  "first_conversion env buf [] = None"
| "first_conversion env buf (cs # css) =
     (case try_convert_buf_with_cs env buf cs of Some out \<Rightarrow> Some out | None \<Rightarrow> first_conversion env buf css)"

text \<open>The fallback skips each octet that cannot be converted.\<close>

function convert_fallback :: "pt_env \<Rightarrow> string \<Rightarrow> int list" where
  "convert_fallback env s =
     (case mbsrtowcs env s of
        (out, None) \<Rightarrow> out
      | (out, Some k) \<Rightarrow> if k < length s then out @ convert_fallback env (drop (k + 1) s) else out)"
  by pat_completeness auto
termination by (relation "measure (\<lambda>(env, s). length s)") auto

declare convert_fallback.simps [simp del]

definition perform_convert_buffer :: "pt_env \<Rightarrow> string \<Rightarrow> int list" where
  "perform_convert_buffer env s =
     (case first_conversion env s codesets of Some out \<Rightarrow> out | None \<Rightarrow> take (length s) (convert_fallback env s))"

definition from_codes :: "string list" where
  "from_codes = [''UTF-8'', ''ISO-8859-1'', ''ISO-8859-15'', ''WINDOWS-1251'', ''WINDOWS-1252'']"

fun first_iconv :: "pt_env \<Rightarrow> string \<Rightarrow> string list \<Rightarrow> string" where
  "first_iconv env orig [] = orig"
| "first_iconv env orig (c # cs) =
     (case iconv env c orig of Some out \<Rightarrow> out | None \<Rightarrow> first_iconv env orig cs)"

definition get_buffer :: "pt_env \<Rightarrow> string \<Rightarrow> string" where
  "get_buffer env orig =
     (if have_iconv env then
        (if \<not> iconv_conversion env then orig else first_iconv env orig from_codes)
      else orig)"

definition replace_characters_with_spaces :: "int list \<Rightarrow> int list \<Rightarrow> int list" where
  "replace_characters_with_spaces wc_buf cs = map (\<lambda>c. if c \<in> set cs then 0x20 else c) wc_buf"

definition append_newline :: "int list \<Rightarrow> int list" where
  "append_newline wc_buf = wc_buf @ [0x0A]"

section \<open>Printing\<close>

definition puts_start :: puts_state where
  "puts_start = \<lparr>booleans = no_decoration, insert_count = 0, lines_count = 0, rep_count = 0, draws = []\<rparr>"

text \<open>The wide text with its NUL.\<close>

definition puts_buffer :: "pt_env \<Rightarrow> pt_window \<Rightarrow> string \<Rightarrow> int list" where
  "puts_buffer env win buf =
     (let wc_buf = perform_convert_buffer env (get_buffer env buf);
          wc_buf = (if scrollok win then append_newline wc_buf else wc_buf)
      in replace_characters_with_spaces wc_buf [0x0C, 0x09, 0x0B] @ [0])"

definition printtext_puts :: "pt_env \<Rightarrow> pt_window \<Rightarrow> string \<Rightarrow> int \<Rightarrow> int \<Rightarrow> (int \<times> pt_draw list) option" where
  "printtext_puts env win buf indent max_lines =
     (if buf = [] \<or> too_small env then Some (0, [])
      else do {
        st \<leftarrow> puts_loop env win indent max_lines (puts_buffer env win buf) 0 puts_start;
        Some (rep_count st, draws st @ [Wattrset_normal]) })"


section \<open>Messages\<close>

definition GFX_FAILURE :: "theme \<Rightarrow> string" where "GFX_FAILURE t = Theme t (Some ''gfx_failure'')"
definition GFX_SUCCESS :: "theme \<Rightarrow> string" where "GFX_SUCCESS t = Theme t (Some ''gfx_success'')"
definition GFX_WARN :: "theme \<Rightarrow> string" where "GFX_WARN t = Theme t (Some ''gfx_warning'')"

text \<open>The signs that a kind of message begins with.\<close>

fun spec_parts :: "theme \<Rightarrow> message_specifier_type \<Rightarrow> string list" where
  "spec_parts t TYPE_SPEC1 = [THE_SPEC1 t]"
| "spec_parts t TYPE_SPEC2 = [THE_SPEC2 t]"
| "spec_parts t TYPE_SPEC3 = [THE_SPEC3 t]"
| "spec_parts t TYPE_SPEC1_SPEC2 = [THE_SPEC1 t, THE_SPEC2 t]"
| "spec_parts t TYPE_SPEC1_FAILURE = [THE_SPEC1 t, GFX_FAILURE t]"
| "spec_parts t TYPE_SPEC1_SUCCESS = [THE_SPEC1 t, GFX_SUCCESS t]"
| "spec_parts t TYPE_SPEC1_WARN = [THE_SPEC1 t, GFX_WARN t]"
| "spec_parts t TYPE_SPEC_NONE = []"

definition set_indent :: "pt_env \<Rightarrow> string \<Rightarrow> int option" where
  "set_indent env str = do {
     b \<leftarrow> squeeze_text_deco (Some (str @ [nul]));
     Some (case mbstowcs (pt_wcs env) (c_str b) 399 of None \<Rightarrow> 0 | Some wcs \<Rightarrow> xwcswidth wcs 2) }"

definition get_msg :: "pt_env \<Rightarrow> string \<Rightarrow> message_specifier_type \<Rightarrow> bool \<Rightarrow> string option \<Rightarrow> (string \<times> int) option" where
  "get_msg env unproc_msg spec_type include_ts srv_time =
     (let ts = (case srv_time of Some s \<Rightarrow> s | None \<Rightarrow> current_time env (Theme (pt_theme env) (Some ''time_format'')));
          parts = (if include_ts then [ts] else []) @ spec_parts (pt_theme env) spec_type;
          start = concat (map (\<lambda>p. p @ '' '') parts)
      in do {
        indent \<leftarrow> (if parts = [] then Some 0 else set_indent env start);
        txt \<leftarrow> (if g_no_colors env then map_option c_str (squeeze_text_deco (Some (start @ unproc_msg @ [nul])))
               else Some (start @ unproc_msg));
        Some (txt, indent) })"

record pt_target =
  t_buf :: buf_state
  t_win :: pt_window
  t_label :: string
  t_scroll_mode :: bool
  t_received_names :: bool
  t_has_nicklist :: bool
  t_logging :: bool
  t_is_logwin :: bool

text \<open>
  \<^verbatim>\<open>vprinttext\<close>: the text is stored, drawn unless the window is scrolled back or a channel whose
  names have not come yet, and logged.  \<open>on_air\<close>, \<open>icb_mode\<close> and the path of the log are arguments.
\<close>

definition vprinttext ::
    "pt_env \<Rightarrow> config \<Rightarrow> bool \<Rightarrow> bool \<Rightarrow> string option \<Rightarrow> message_specifier_type \<Rightarrow> bool \<Rightarrow> string option \<Rightarrow> string \<Rightarrow>
     pt_target \<Rightarrow> (pt_target \<times> pt_draw list \<times> (string \<times> string) option) option" where
  "vprinttext env cfg on_air icb_mode logpath spec_type include_ts srv_time msg tgt = do {
     (txt, indent) \<leftarrow> get_msg env msg spec_type include_ts srv_time;
     let limit = fst (config_integer cfg \<lparr>ic_setting_name = ''textbuffer_size_absolute'', lo_limit = 350,
                   hi_limit = 4700, fallback_default = 1000\<rparr>);
     sb \<leftarrow> vprinttext_store limit (t_buf tgt) (txt, indent);
     ds \<leftarrow> (if t_scroll_mode tgt then Some []
           else if on_air \<and> is_irc_channel (Some (t_label tgt)) \<and> \<not> icb_mode
             \<and> (\<not> t_received_names tgt \<or> \<not> t_has_nicklist tgt) then Some []
           else map_option snd (printtext_puts env (t_win tgt) txt indent (-1)));
     let lg = (if t_logging tgt \<and> \<not> t_is_logwin tgt then map_option (\<lambda>p. (p, txt)) logpath else None);
     Some (tgt\<lparr>t_buf := sb\<rparr>, ds, lg) }"

definition printtext_print_type :: "string option \<Rightarrow> message_specifier_type" where
  "printtext_print_type what =
     (case what of None \<Rightarrow> TYPE_SPEC1
      | Some w \<Rightarrow>
          if strings_match w ''sp1'' then TYPE_SPEC1
          else if strings_match w ''sp2'' then TYPE_SPEC2
          else if strings_match w ''sp3'' then TYPE_SPEC3
          else if strings_match w ''err'' then TYPE_SPEC1_FAILURE
          else if strings_match w ''success'' then TYPE_SPEC1_SUCCESS
          else if strings_match w ''warn'' then TYPE_SPEC1_WARN
          else if strings_match w ''none'' then TYPE_SPEC_NONE
          else TYPE_SPEC1)"

text \<open>\<^verbatim>\<open>%02d\<close>.\<close>

definition two_digits :: "int \<Rightarrow> string" where
  "two_digits n = (let s = dec n in if length s < 2 then CHR ''0'' # s else s)"

definition set_timestamp :: "theme \<Rightarrow> nat \<Rightarrow> int \<Rightarrow> int \<Rightarrow> int \<Rightarrow> string" where
  "set_timestamp t destsize hh mm ss =
     take (destsize - 1) (Theme t (Some ''statusbar_leftBracket'') @ two_digits hh @ Theme t (Some ''notice_sep'') @
       two_digits mm @ Theme t (Some ''notice_sep'') @ two_digits ss @ Theme t (Some ''statusbar_rightBracket''))"

end
