(* ===== verification/Printtext_Laws.thy ===== *)
theory Printtext_Laws
  imports Printtext
begin

text \<open>
  What is shown of a text that is printed: which of its characters, in which rows, and when the code
  leaves its buffer.
\<close>

section \<open>Decoration of wide texts\<close>

definition wdigit :: "int \<Rightarrow> bool" where
  "wdigit c \<longleftrightarrow> 48 \<le> c \<and> c \<le> 57"

definition wdrop_digits :: "int list \<Rightarrow> int list" where
  "wdrop_digits s = (case s of c # d # t \<Rightarrow> if \<not> wdigit c then s else if wdigit d then t else d # t
     | [c] \<Rightarrow> if wdigit c then [] else s | [] \<Rightarrow> [])"

fun wcomma_digit :: "int list \<Rightarrow> bool" where
  "wcomma_digit (c # d # s) \<longleftrightarrow> c = 0x2C \<and> wdigit d"
| "wcomma_digit _ \<longleftrightarrow> False"

definition wskip_color :: "int list \<Rightarrow> int list" where
  "wskip_color s = (let r = wdrop_digits s in if r \<noteq> s \<and> wcomma_digit r then wdrop_digits (tl r) else r)"

lemma wskip_color_shorter: "length (wskip_color s) \<le> length s"
  by (auto simp: wskip_color_def wdrop_digits_def Let_def split: list.splits)

function wstrip_deco :: "int list \<Rightarrow> int list" where
  "wstrip_deco [] = []"
| "wstrip_deco (c # s) =
     (if c = COLOR then wstrip_deco (wskip_color s)
      else if c \<in> {BLINK, BOLD, NORMAL, REVERSE, UNDERLINE} then wstrip_deco s else c # wstrip_deco s)"
  by pat_completeness auto
termination by (relation "measure length") (auto simp: wskip_color_shorter le_imp_less_Suc)

definition wcode_cut :: "int list \<Rightarrow> bool" where
  "wcode_cut s \<longleftrightarrow> (let r = wdrop_digits s in
     if r \<noteq> s \<and> wcomma_digit r then length r = 2 else r = [] \<or> r = [0x2C] \<and> r \<noteq> s)"

function wcolor_cut :: "int list \<Rightarrow> bool" where
  "wcolor_cut [] \<longleftrightarrow> False"
| "wcolor_cut (c # s) \<longleftrightarrow>
     (if c = COLOR then wcode_cut s \<or> wcolor_cut (wskip_color s) else wcolor_cut s)"
  by pat_completeness auto
termination by (relation "measure length") (auto simp: wskip_color_shorter le_imp_less_Suc)

text \<open>On ASCII texts this is the decoration that \<^verbatim>\<open>squeeze_text_deco\<close> takes out.\<close>

definition wide_of :: "string \<Rightarrow> int list" where
  "wide_of s = map (\<lambda>c. int (code c)) s"


lemma wide_simps [simp]: "wide_of [] = []" "wide_of (c # s) = int (code c) # wide_of s" "tl (wide_of s) = wide_of (tl s)"
  by (cases s; simp add: wide_of_def)+

lemma code_is: "n < 256 \<Longrightarrow> code c = n \<longleftrightarrow> c = char_of n"
  by (auto simp: code_def)

lemma code_comma: "code c = 44 \<longleftrightarrow> c = CHR '',''"
proof
  assume "code c = 44"
  then have "code c = code (CHR '','')" by (simp add: code_def)
  then show "c = CHR '',''" by (metis char_of_code)
qed (simp add: code_def)

lemma wdigit_of: "wdigit (int (code c)) = digit c"
  by (auto simp: wdigit_def digit_def isdigit_def)

lemma wdrop_of: "wdrop_digits (wide_of s) = wide_of (drop_digits s)"
  by (cases s rule: comma_digit.cases) (auto simp: wdrop_digits_def drop_digits_def wdigit_of)

lemma wide_of_inj: "wide_of s = wide_of t \<longleftrightarrow> s = t"
  by (auto simp: wide_of_def inj_map_eq_map inj_on_def code_def)

lemma wcomma_of: "wcomma_digit (wide_of s) = comma_digit s"
proof -
  have "int (code c) = 0x2C \<longleftrightarrow> c = CHR '',''" for c
    using code_comma [of c] by simp
  then show ?thesis by (cases s rule: comma_digit.cases) (auto simp: wdigit_of)
qed

lemma wskip_of: "wskip_color (wide_of s) = wide_of (skip_color s)"
  by (simp add: wskip_color_def skip_color_def Let_def wdrop_of wide_of_inj wcomma_of)

lemma wstrip_of: "\<forall>c\<in>set s. code c < 128 \<Longrightarrow> wstrip_deco (wide_of s) = wide_of (strip_deco s)"
proof (induction s rule: strip_deco.induct)
  case (2 c s)
  have k: "\<forall>c\<in>set (skip_color s). code c < 128" "\<forall>c\<in>set s. code c < 128" "schar c = int (code c)"
    using set_skip_color [of s] 2(4) by (auto simp: schar_def)
  show ?case
  proof (cases "schar c = COLOR")
    case True
    then show ?thesis using 2(1) k by (simp add: wskip_of)
  next
    case False
    then show ?thesis using 2(2,3) k by (auto simp: decoration_def)
  qed
qed simp

section \<open>Colour codes\<close>

text \<open>
  The conversion of a single character is that of an encoding that contains ASCII; a conversion of
  a text takes at most four octets for a character.
\<close>

definition encoding_ok :: "pt_env \<Rightarrow> bool" where
  "encoding_ok env \<longleftrightarrow>
     (\<forall>c. 0 < c \<and> c < 128 \<longrightarrow> wcrtomb env c = Some [char_of (nat c)]) \<and>
     (\<forall>c mbs. 128 \<le> c \<and> wcrtomb env c = Some mbs \<longrightarrow> (\<forall>b\<in>set mbs. 128 \<le> code b)) \<and>
     (\<forall>c. 0 < c \<and> c < 128 \<longrightarrow> (iswprint env c \<longleftrightarrow> 0x20 \<le> c \<and> c < 0x7F)) \<and>
     (\<forall>ws n bytes. wcstombs (pt_wcs env) ws n = Some bytes \<longrightarrow> nul \<notin> set bytes \<and> length bytes \<le> 4 * length ws)"

lemma convert_ascii: "\<lbrakk>encoding_ok env; 0 < c; c < 128\<rbrakk> \<Longrightarrow> convert_wc env c = [char_of (nat c)]"
  by (simp add: encoding_ok_def convert_wc_def)

lemma convert_other:
  assumes "encoding_ok env" "128 \<le> c" "b \<in> set (convert_wc env c)" shows "128 \<le> code b"
proof -
  obtain mbs where "wcrtomb env c = Some mbs" "b \<in> set mbs"
    using assms(2,3) by (cases "wcrtomb env c") (auto simp: convert_wc_def)
  then show ?thesis using assms(1,2) unfolding encoding_ok_def by blast
qed

lemma digit_mbs:
  assumes "encoding_ok env" "0 < c"
  shows "is_digit_mbs (convert_wc env c) = wdigit c" "is_comma_mbs (convert_wc env c) = (c = 0x2C)"
    "wdigit c \<Longrightarrow> convert_wc env c = [char_of (nat c)]"
proof -
  have "is_digit_mbs (convert_wc env c) = wdigit c \<and> is_comma_mbs (convert_wc env c) = (c = 0x2C)"
  proof (cases "c < 128")
    case True
    then have e: "convert_wc env c = [char_of (nat c)]" "code (char_of (nat c)) = nat c"
      using convert_ascii [OF assms] by simp_all
    have "sw_isdigit c = wdigit c"
      using assms(2) True by (auto simp: sw_class_defs isdigit_def wdigit_def)
    moreover have "(char_of (nat c) = CHR '','') = (c = 0x2C)"
    proof -
      have "(char_of (nat c) = CHR '','') = (code (char_of (nat c)) = 44)" using code_comma by simp
      then show ?thesis unfolding e(2) using assms(2) by (auto simp: nat_eq_iff)
    qed
    ultimately show ?thesis using e assms(2) by (simp add: is_digit_mbs_def is_comma_mbs_def)
  next
    case False
    then have c: "\<And>b. b \<in> set (convert_wc env c) \<Longrightarrow> 128 \<le> code b"
      using convert_other [OF assms(1)] by (meson not_less)
    have n: "\<not> sw_isdigit (int (code b))" "b \<noteq> CHR '',''" if "b \<in> set (convert_wc env c)" for b
      using c [OF that] code_comma [of b] by (auto simp: sw_class_defs isdigit_def)
    have w: "\<not> wdigit c" "c \<noteq> 0x2C" using False by (auto simp: wdigit_def)
    show ?thesis
    proof (cases "convert_wc env c")
      case Nil
      then show ?thesis using w by (simp add: is_digit_mbs_def is_comma_mbs_def)
    next
      case (Cons b bs)
      then show ?thesis using w n [of b] by (simp add: is_digit_mbs_def is_comma_mbs_def)
    qed
  qed
  then show "is_digit_mbs (convert_wc env c) = wdigit c" "is_comma_mbs (convert_wc env c) = (c = 0x2C)" by simp_all
  show "wdigit c \<Longrightarrow> convert_wc env c = [char_of (nat c)]"
    using convert_ascii [OF assms] by (simp add: wdigit_def)
qed


lemma wdrop_simps [simp]:
  "wdrop_digits [] = []" "\<not> wdigit c \<Longrightarrow> wdrop_digits (c # s) = c # s"
  "wdigit c \<Longrightarrow> \<not> wdigit d \<Longrightarrow> wdrop_digits (c # d # s) = d # s"
  "wdigit c \<Longrightarrow> wdigit d \<Longrightarrow> wdrop_digits (c # d # s) = s"
  "wdigit c \<Longrightarrow> wdrop_digits [c] = []"
  by (auto simp: wdrop_digits_def split: list.splits)

lemma wdigit_comma [simp]: "\<not> wdigit 0x2C" "wdigit c \<Longrightarrow> c \<noteq> 0x2C" "\<not> wdigit 0"
  by (auto simp: wdigit_def)

text \<open>
  A colour code behind the octet at \<open>i\<close>: at the end of the text the position comes to the NUL,
  otherwise to the last character of the code.
\<close>

definition code_read :: "pt_env \<Rightarrow> int list \<Rightarrow> nat \<Rightarrow> int list \<Rightarrow> bool" where
  "code_read env buf i s \<longleftrightarrow> (\<exists>nums. color_code env buf i =
     Some (if wcode_cut s then i + length s + 1 else i + (length s - length (wskip_color s)), nums))"

lemma rd_behind: "rd (pre @ x # s) (Suc (length pre + k)) = rd s k"
  using rd_append_right [of "pre @ [x]" s k] by simp

lemma rd_short: "rd (c # s) 0 = Some c" "rd (c # s) (Suc n) = rd s n" "rd (c # s) (numeral v) = rd s (pred_numeral v)"
  by (auto simp: rd_def numeral_eq_Suc)

lemma color_code_ok:
  assumes "encoding_ok env" "\<forall>c\<in>set s. 0 < c"
  shows "code_read env (pre @ k # s @ [0]) (length pre) s"
proof -
  note parts = check_for_part1_def check_for_part2_def check_for_part3_def check_for_part4_def check_for_part5_def
  have at: "rd (pre @ k # t) (Suc (length pre)) = rd t 0" "rd (pre @ k # t) (Suc (Suc (length pre))) = rd t 1"
    "rd (pre @ k # t) (Suc (Suc (Suc (length pre)))) = rd t 2"
    "rd (pre @ k # t) (Suc (Suc (Suc (Suc (length pre))))) = rd t 3"
    "rd (pre @ k # t) (Suc (Suc (Suc (Suc (Suc (length pre)))))) = rd t 4" for t
    using rd_behind [of pre k t 0] rd_behind [of pre k t 1] rd_behind [of pre k t 2] rd_behind [of pre k t 3]
      rd_behind [of pre k t 4] by (simp_all add: numeral_eq_Suc)
  note d = digit_mbs [OF assms(1)]
  have one: "length (convert_wc env c) = 1" "convert_wc env c \<noteq> []" if "0 < c" "wdigit c" for c
    using d(3) [OF that] by simp_all
  note S = color_code_def color_background_def parts Let_def at code_read_def d(1,2) rd_short
  consider "s = []" | c t where "s = c # t" "\<not> wdigit c" | c where "s = [c]" "wdigit c"
    | c z t where "s = c # z # t" "wdigit c" "\<not> wdigit z" "z \<noteq> 0x2C"
    | c t where "s = c # 0x2C # t" "wdigit c" | c z t where "s = c # z # t" "wdigit c" "wdigit z"
    by (metis list.exhaust)
  then show ?thesis
  proof cases
    case 1
    then show ?thesis by (simp del: rd_in add: S wcode_cut_def)
  next
    case 2
    then show ?thesis using assms(2) by (simp del: rd_in add: S wcode_cut_def wskip_color_def)
  next
    case 3
    then show ?thesis using assms(2) by (simp del: rd_in add: S wcode_cut_def)
  next
    case 4
    moreover have "\<not> wcomma_digit (z # t)" using 4 by (cases t) auto
    ultimately show ?thesis using assms(2) one by (simp del: rd_in add: S wcode_cut_def wskip_color_def)
  next
    case 5
    consider "t = []" | y u where "t = y # u" "\<not> wdigit y" | y where "t = [y]" "wdigit y"
      | y x u where "t = y # x # u" "wdigit y" "wdigit x" | y x u where "t = y # x # u" "wdigit y" "\<not> wdigit x"
      by (metis list.exhaust)
    then show ?thesis
      by cases (use assms(2) one 5 in \<open>simp_all del: rd_in add: S wcode_cut_def wskip_color_def\<close>)
  next
    case 6
    consider "t = []" | q u where "t = q # u" "q \<noteq> 0x2C" | "t = [0x2C]"
      | y u where "t = 0x2C # y # u" "\<not> wdigit y" | y where "t = [0x2C, y]" "wdigit y"
      | y x u where "t = 0x2C # y # x # u" "wdigit y" "wdigit x"
      | y x u where "t = 0x2C # y # x # u" "wdigit y" "\<not> wdigit x"
      by (metis list.exhaust)
    then show ?thesis
    proof cases
      case 2
      have "\<not> wcomma_digit (q # u)" using 2 by (cases u) auto
      then show ?thesis using assms(2) one 6 2 by (simp del: rd_in add: S wcode_cut_def wskip_color_def)
    qed (use assms(2) one 6 in \<open>simp_all del: rd_in add: S wcode_cut_def wskip_color_def\<close>)
  qed
qed

end
