(* ===== verification/Crypt.thy ===== *)
theory Crypt
  imports Base64 Lib_Utils
begin

text \<open>
  Encryption with a password: \<^verbatim>\<open>src/src/crypt.cpp\<close>.

  The key derivation and the cipher of OpenSSL are the environment.  Octets are of type
  \<^typ>\<open>8 word\<close>.  The outer option of a result is \<^const>\<open>None\<close> when memory is accessed outside
  its bounds, the inner one is the null pointer.
\<close>

section \<open>Octets\<close>

definition octets :: "string \<Rightarrow> 8 word list" where
  "octets s = map (\<lambda>c. word_of_nat (code c)) s"

definition chars :: "8 word list \<Rightarrow> string" where
  "chars ws = map (\<lambda>w. char_of (unat w)) ws"

text \<open>The string at the beginning of a buffer.\<close>

definition cstr :: "string \<Rightarrow> string" where
  "cstr b = takeWhile (\<lambda>c. c \<noteq> nul) b"

lemma octets_simps [simp]: "octets [] = []" "octets (c # s) = word_of_nat (code c) # octets s"
  "octets (s @ t) = octets s @ octets t" "length (octets s) = length s"
  by (simp_all add: octets_def)

lemma chars_simps [simp]: "chars [] = []" "chars (w # ws) = char_of (unat w) # chars ws"
  "chars (ws @ vs) = chars ws @ chars vs" "length (chars ws) = length ws"
  by (simp_all add: chars_def)

lemma char_of_0 [simp]: "char_of (0 :: nat) = nul"
  by (metis char_of_code code_nul)

lemma chars_octets [simp]: "chars (octets s) = s"
proof (induction s)
  case (Cons c s)
  have "unat (word_of_nat (code c) :: 8 word) = code c" using code_less [of c] by (simp add: unat_of_nat)
  moreover have "char_of (code c) = c" by (simp add: code_def)
  ultimately show ?case using Cons by simp
qed simp

lemma octets_chars [simp]: "octets (chars ws) = ws"
proof (induction ws)
  case (Cons w ws)
  have "unat w < 256" using unsigned_less [of w] by simp
  then show ?case using Cons by simp
qed simp

lemma chars_take: "chars (take n ws) = take n (chars ws)"
  by (simp add: chars_def take_map)

lemma nul_in_chars: "nul \<in> set (chars ws) \<longleftrightarrow> 0 \<in> set ws"
proof -
  have "char_of (unat w) = nul \<longleftrightarrow> w = 0" for w :: "8 word"
  proof
    assume "char_of (unat w) = nul"
    then have "code (char_of (unat w)) = 0" by simp
    moreover have "unat w < 256" using unsigned_less [of w] by simp
    ultimately show "w = 0" by (simp add: unat_eq_0)
  next
    assume "w = 0"
    moreover have "char_of (0::nat) = nul" by (metis char_of_code code_nul)
    ultimately show "char_of (unat w) = nul" by simp
  qed
  then show ?thesis by (induction ws) (auto simp: eq_commute [of nul])
qed

lemma cstr_simps [simp]: "cstr [] = []" "cstr (nul # s) = []" "c \<noteq> nul \<Longrightarrow> cstr (c # s) = c # cstr s"
  by (simp_all add: cstr_def)

lemma cstr_text: "nul \<notin> set s \<Longrightarrow> cstr (s @ nul # t) = s"
  by (induction s) auto

lemma cstr_id: "nul \<notin> set s \<Longrightarrow> cstr s = s"
  by (induction s) auto

lemma encoding_no_nul: "nul \<notin> set (encoding x)"
proof -
  have c: "b64_char w \<noteq> nul" if "unat w < 64" for w
  proof -
    have "b64_char w \<in> set Base64" unfolding b64_char_def using that by (intro nth_mem) (simp add: Base64_facts)
    then show ?thesis using Base64_facts(3) by metis
  qed
  show ?thesis
    by (induction x rule: encoding.induct) (use c out_bounds Pad64_not_nul in \<open>auto dest: sym\<close>)
qed

text \<open>A text is encoded when there is room for it and its NUL.\<close>

lemma b64_encode_ok:
  assumes "length (encoding x) < n" "int (length (encoding x)) \<le> INT_MAX"
  shows "b64_encode x (replicate n nul) n =
    Some (int (length (encoding x)), encoding x @ nul # replicate (n - Suc (length (encoding x))) nul)"
  using encode_from_ok [of "[]" x n "replicate n nul"] assms by (simp add: b64_encode_def drop_replicate)

lemma b64_decode_len_ok:
  assumes "ts = length x + 1" "int (length x) \<le> INT_MAX" shows "b64_decode (encoding x @ nul # r) None n = Some (int (length x), None)"
  using decode_do_encoding [of x ts "replicate ts 0" r] b64_len_agrees assms by (auto simp: b64_decode_def)

lemma decode_zeros:
  assumes "int (length x) < INT_MAX"
  obtains t where "b64_decode (encoding x @ nul # r) (Some (replicate (length x + 1) 0)) (length x + 1)
      = Some (int (length x), Some t)" "take (length x) t = x" "length t = length x + 1"
proof -
  obtain t where t: "b64_decode_do (encoding x @ nul # r) (replicate (length x + 1) 0) (length x + 1)
      = Some (int (length x), t)" "take (length x) t = x"
    using decode_do_encoding [of x "length x + 1" "replicate (length x + 1) 0" r] assms by auto
  moreover have "length t = length x + 1"
    using b64_decode_do_safe [of "encoding x @ nul # r" "length x + 1" "replicate (length x + 1) 0"] t(1) assms
    by (auto simp: same_outside_def)
  ultimately show ?thesis by (intro that [of t]) (auto simp: b64_decode_def)
qed

section \<open>Encryption\<close>

record crypt_env =
  bytes_to_key :: "8 word list \<Rightarrow> (8 word list \<times> 8 word list) option"
  cipher_block_size :: nat
  cipher_encrypt :: "8 word list \<Rightarrow> 8 word list \<Rightarrow> 8 word list \<Rightarrow> 8 word list option"
  cipher_decrypt :: "8 word list \<Rightarrow> 8 word list \<Rightarrow> 8 word list \<Rightarrow> 8 word list option"

definition crypt_get_base64_decode_length :: "string option \<Rightarrow> nat option" where
  "crypt_get_base64_decode_length str =
     (case str of
        None \<Rightarrow> Some 0
      | Some s \<Rightarrow>
          if strings_match s [] then Some 0
          else do {
            (n, _) \<leftarrow> b64_decode (s @ [nul]) None 0;
            if n < 0 then Some 0 else map_option nat (int_sum n 1) })"

definition crypt_get_base64_encode_length :: "32 word \<Rightarrow> 32 word" where
  "crypt_get_base64_encode_length n = ((4 * n div 3 + 3) AND NOT 3) + 1"

definition crypt_get_key_and_iv :: "crypt_env \<Rightarrow> string option \<Rightarrow> (8 word list \<times> 8 word list) option" where
  "crypt_get_key_and_iv env password =
     (case password of None \<Rightarrow> None | Some p \<Rightarrow> bytes_to_key env (octets p))"

text \<open>
  \<^verbatim>\<open>crypt_encrypt_str\<close>: the text is encrypted with its NUL.  The output buffer holds the length of
  the text, the size of a block and one octet more.
\<close>

definition crypt_encrypt_str :: "crypt_env \<Rightarrow> string option \<Rightarrow> string option \<Rightarrow> bool \<Rightarrow> string option option" where
  "crypt_encrypt_str env str password rot13 =
     (case (str, crypt_get_key_and_iv env password) of
        (Some s, Some (key, iv)) \<Rightarrow>
          (case cipher_encrypt env key iv (octets s @ [0]) of
             None \<Rightarrow> Some None
           | Some encdat \<Rightarrow>
               if length encdat > length s + cipher_block_size env + 1 then None
               else
                 let size = crypt_get_base64_encode_length (word_of_nat (length encdat)) in
                 if size = 0 then Some None
                 else do {
                   (ret, b64str) \<leftarrow> b64_encode encdat (replicate (unat size) nul) (unat size);
                   if ret = -1 then Some None
                   else Some (Some (if rot13 then rot13_str (cstr b64str) else cstr b64str)) })
      | _ \<Rightarrow> Some None)"

definition crypt_decrypt_str :: "crypt_env \<Rightarrow> string option \<Rightarrow> string option \<Rightarrow> bool \<Rightarrow> string option option" where
  "crypt_decrypt_str env str password rot13 =
     (case (str, password) of
        (Some s, Some _) \<Rightarrow> do {
          let str_copy = (if rot13 then rot13_str s else s);
          decode_len \<leftarrow> crypt_get_base64_decode_length (Some str_copy);
          if decode_len = 0 then Some None
          else do {
            (decode_ret, decoded_str) \<leftarrow> b64_decode (str_copy @ [nul]) (Some (replicate decode_len 0)) decode_len;
            if decode_ret = -1 then Some None
            else
              (case (crypt_get_key_and_iv env password, decoded_str) of
                 (Some (key, iv), Some d) \<Rightarrow>
                   (case cipher_decrypt env key iv d of
                      None \<Rightarrow> Some None
                    | Some decdat \<Rightarrow>
                        if length decdat > decode_len + cipher_block_size env then None
                        else Some (Some (cstr (chars decdat @ [nul]))))
               | _ \<Rightarrow> Some None) } }
      | _ \<Rightarrow> Some None)"

section \<open>The round trip\<close>

lemma decrypt_ok:
  assumes "(if r then rot13_str e else e) = e'" "crypt_get_base64_decode_length (Some e') = Some n" "n \<noteq> 0"
    "b64_decode (e' @ [nul]) (Some (replicate n 0)) n = Some (k, Some d)" "k \<noteq> -1"
    "crypt_get_key_and_iv env (Some pw) = Some (key, iv)" "cipher_decrypt env key iv d = Some dd"
    "length dd \<le> n + cipher_block_size env"
  shows "crypt_decrypt_str env (Some e) (Some pw) r = Some (Some (cstr (chars dd @ [nul])))"
  using assms by (simp add: crypt_decrypt_str_def Let_def)

text \<open>
  AES in counter mode is a stream cipher: decryption undoes encryption, also when octets follow the
  encrypted ones, and neither changes the number of octets.
\<close>

definition stream_cipher :: "crypt_env \<Rightarrow> bool" where
  "stream_cipher env \<longleftrightarrow>
     (\<forall>key iv x. \<exists>y. cipher_encrypt env key iv x = Some y \<and> length y = length x \<and>
        (\<forall>r. \<exists>z. cipher_decrypt env key iv (y @ r) = Some (x @ z) \<and> length z = length r))"

text \<open>The room that is reserved for the encoded text is exactly what it needs, up to a GiB and a half.\<close>

lemma encode_length:
  assumes "4 * n < 2 ^ 32 - 12"
  shows "unat (crypt_get_base64_encode_length (word_of_nat n)) = 4 * ((n + 2) div 3) + 1"
proof -
  let ?m = "4 * n div 3 + 3"
  have n: "4 * n < 2 ^ 32" "?m < 2 ^ 32" using assms by linarith+
  have "4 * word_of_nat n = (word_of_nat (4 * n) :: 32 word)" by simp
  moreover have "word_of_nat (4 * n) div 3 = (word_of_nat (4 * n div 3) :: 32 word)"
    using n(1) by (intro word_unat_eq_iff [THEN iffD2]) (simp add: unat_div unat_of_nat del: of_nat_mult)
  ultimately have w: "4 * word_of_nat n div 3 + 3 = (word_of_nat ?m :: 32 word)" by simp
  have "x AND NOT 3 = push_bit 2 (drop_bit 2 x)" for x :: "32 word"
  proof (rule bit_word_eqI)
    fix i assume i: "i < LENGTH(32)"
    have three: "bit (3 :: 32 word) i \<longleftrightarrow> i < 2"
    proof -
      have "(3 :: 32 word) = mask 2" by (simp add: mask_eq_exp_minus_1)
      then show ?thesis using i by (simp only: bit_mask_iff) auto
    qed
    show "bit (x AND NOT 3) i = bit (push_bit 2 (drop_bit 2 x)) i"
    proof (cases "i < 2")
      case True
      then show ?thesis using three i by (simp add: bit_simps)
    next
      case False
      then have "Suc (Suc (i - 2)) = i" by arith
      then show ?thesis using False three i by (simp add: bit_simps)
    qed
  qed
  then have shift: "x AND NOT 3 = x div 4 * 4" for x :: "32 word"
    by (simp add: push_bit_eq_mult drop_bit_eq_div)
  have u: "unat (x div 4 * 4) = unat x div 4 * 4" for x :: "32 word"
  proof -
    have "unat x div 4 * 4 < 2 ^ 32" using unsigned_less [of x, where 'a = nat] by simp
    then show ?thesis by (simp add: unat_word_ariths unat_div)
  qed
  have m: "unat (word_of_nat ?m :: 32 word) = ?m" using n(2) by (simp add: unat_of_nat del: of_nat_add)
  have "unat ((word_of_nat ?m :: 32 word) AND NOT 3) = ?m div 4 * 4" unfolding shift u m ..
  moreover have "?m div 4 * 4 = 4 * ((n + 2) div 3)"
  proof -
    have r: "n = 3 * (n div 3) \<or> n = 3 * (n div 3) + 1 \<or> n = 3 * (n div 3) + 2" by linarith
    define q where "q = n div 3"
    have "n = 3 * q \<or> n = 3 * q + 1 \<or> n = 3 * q + 2" using r unfolding q_def .
    then have "(4 * n div 3 = 4 * q \<and> (n + 2) div 3 = q) \<or>
        (4 * n div 3 = 4 * q + 1 \<and> (n + 2) div 3 = q + 1) \<or> (4 * n div 3 = 4 * q + 2 \<and> (n + 2) div 3 = q + 1)"
      by linarith
    then show ?thesis by auto
  qed
  moreover have "4 * ((n + 2) div 3) + 1 < 2 ^ 32" using assms by linarith
  ultimately show ?thesis
    unfolding crypt_get_base64_encode_length_def w by (simp add: unat_word_ariths)
qed

text \<open>
  A secret that was encrypted with a password is what is decrypted with that password.
  For every text without NUL, whatever the key derivation gives, with and without rot13, and with
  a stream cipher: encrypting succeeds, the result is base64 text, and decrypting the result gives
  the text again, although the decryption runs over one octet more than was encrypted.
\<close>

lemma crypt_roundtrip:
  assumes "stream_cipher env" "bytes_to_key env (octets pw) = Some (key, iv)"
    and "nul \<notin> set s" "length s < 500000000"
  shows "\<exists>e. crypt_encrypt_str env (Some s) (Some pw) r = Some (Some e)
    \<and> crypt_decrypt_str env (Some e) (Some pw) r = Some (Some s)"
proof -
  obtain y where y: "cipher_encrypt env key iv (octets s @ [0]) = Some y" "length y = length s + 1"
    "\<And>r. \<exists>z. cipher_decrypt env key iv (y @ r) = Some (octets s @ [0] @ z) \<and> length z = length r"
    using assms(1) unfolding stream_cipher_def by (metis append.assoc length_append_singleton octets_simps(4) Suc_eq_plus1)
  let ?size = "crypt_get_base64_encode_length (word_of_nat (length y))"
  have size: "unat ?size = length (encoding y) + 1" "?size \<noteq> 0" "int (length (encoding y)) \<le> INT_MAX"
    using encode_length [of "length y"] assms(4) y(2)
    by (auto simp: length_encoding unat_eq_zero INT_MAX_def)
  let ?e = "if r then rot13_str (encoding y) else encoding y"
  have "crypt_encrypt_str env (Some s) (Some pw) r = Some (Some ?e)"
    using y(1,2) size assms(2) b64_encode_ok [of y "unat ?size"]
    by (simp add: crypt_encrypt_str_def crypt_get_key_and_iv_def cstr_text encoding_no_nul Let_def)
  moreover have "crypt_decrypt_str env (Some ?e) (Some pw) r = Some (Some s)"
  proof -
    define c where "c = ?e"
    have str: "(if r then rot13_str c else c) = encoding y"
      by (simp add: c_def rot13_str_def rot13_byte_involutive o_def)
    have ne: "encoding y \<noteq> []" using y(2) length_encoding [of y] by auto
    define n where "n = length y + 1"
    have len_y: "int (length y) < INT_MAX" using y(2) assms(4) by (simp add: INT_MAX_def)
    have len: "crypt_get_base64_decode_length (Some (encoding y)) = Some n" "n \<noteq> 0"
      using ne b64_decode_len_ok [of "length y + 1" y "[]" 0] y(2) assms(4)
      by (auto simp: crypt_get_base64_decode_length_def strings_match_iff int_sum_def INT_MAX_def n_def)
    obtain t where t: "b64_decode (encoding y @ [nul]) (Some (replicate n 0)) n = Some (int (length y), Some t)"
      "take (length y) t = y" "length t = length y + 1"
      unfolding n_def using decode_zeros [of y "[]"] len_y by blast
    have "\<exists>w. drop (length y) t = [w]"
      using t(3) by (cases "drop (length y) t") (auto dest: arg_cong [of _ _ length])
    then obtain w where w: "t = y @ [w]" using t(2) by (metis append_take_drop_id)
    obtain z where z: "cipher_decrypt env key iv t = Some (octets s @ [0] @ z)" "length z = 1"
      using y(3) [of "[w]"] w by auto
    have shown: "cstr (chars (octets s @ [0] @ z) @ [nul]) = s"
      using assms(3) by (simp add: cstr_text nul_def [symmetric])
    have n: "length (octets s @ [0] @ z) \<le> n + cipher_block_size env" using z(2) y(2) by (simp add: n_def)
    have key: "crypt_get_key_and_iv env (Some pw) = Some (key, iv)" using assms(2) by (simp add: crypt_get_key_and_iv_def)
    have "crypt_decrypt_str env (Some c) (Some pw) r = Some (Some s)"
      using decrypt_ok [OF str len t(1) _ key z(1) n] unfolding shown by simp
    then show ?thesis by (simp add: c_def)
  qed
  ultimately show ?thesis by blast
qed

definition example_crypt_env :: crypt_env where
  "example_crypt_env =
     \<lparr>bytes_to_key = (\<lambda>p. Some (rev p, p)), cipher_block_size = 1,
      cipher_encrypt = (\<lambda>key iv x. Some (map (\<lambda>w. w XOR 0x5A) x)),
      cipher_decrypt = (\<lambda>key iv x. Some (map (\<lambda>w. w XOR 0x5A) x))\<rparr>"

lemma example_stream: "stream_cipher example_crypt_env"
proof -
  have "map (\<lambda>w. (w XOR 0x5A) XOR 0x5A) x = x" for x :: "8 word list" by (induction x) (simp_all add: xor.assoc)
  then show ?thesis by (simp add: stream_cipher_def example_crypt_env_def o_def)
qed

end
