(* ===== verification/Scram.thy ===== *)
theory Scram
  imports Crypt Config
begin

text \<open>
  The SCRAM-SHA mechanisms: \<^verbatim>\<open>src/src/commands/sasl-scram-sha.cpp\<close>.

  The hash functions, HMAC, PBKDF2, the random numbers and the result of \<^verbatim>\<open>net_send\<close> are the
  environment.  A result is \<^const>\<open>None\<close> when memory is accessed outside its bounds.
\<close>

section \<open>State and environment\<close>

datatype evp_md = EVP_sha1 | EVP_sha256 | EVP_sha512

record scram_env =
  ss_config :: config
  md_size :: "evp_md \<Rightarrow> int"
  hmac :: "evp_md \<Rightarrow> 8 word list \<Rightarrow> 8 word list \<Rightarrow> 8 word list option"
  sha :: "evp_md \<Rightarrow> 8 word list \<Rightarrow> 8 word list"
  pbkdf2 :: "evp_md \<Rightarrow> string \<Rightarrow> 8 word list \<Rightarrow> int \<Rightarrow> nat \<Rightarrow> 8 word list option"
  random_index :: "nat \<Rightarrow> nat"
  net_ret :: "string \<Rightarrow> int"

record scram_state =
  got_first_msg :: bool
  complete_nonce :: "string option"
  nonce :: string
  signature_expected :: "8 word list"
  signature_expected_len :: nat
  numbers_drawn :: nat
  sent :: "string list"

definition net_send :: "scram_env \<Rightarrow> string \<Rightarrow> scram_state \<Rightarrow> int \<times> scram_state" where
  "net_send env m st =
     (let ret = net_ret env m in (ret, if ret < 0 then st else st\<lparr>sent := sent st @ [m]\<rparr>))"

definition EVP_MAX_MD_SIZE :: nat where "EVP_MAX_MD_SIZE = 64"
definition PKCS5_DEFAULT_ITER :: int where "PKCS5_DEFAULT_ITER = 2048"

definition client_key_str :: "8 word list" where "client_key_str = octets ''Client Key''"
definition server_key_str :: "8 word list" where "server_key_str = octets ''Server Key''"

section \<open>Messages of the client\<close>

definition nonce_legal_index :: string where
  "nonce_legal_index =
     ''!'' @ [CHR 0x22] @ ''#$%&'' @ [CHR 0x27] @ ''()*+-./0123456789:;<=>?@ABCDEFGHIJKLMNOPQRSTUVWXYZ['' @ [CHR 0x5C] @
     '']^_`abcdefghijklmnopqrstuvwxyz{|}~''"

text \<open>64 characters are drawn, the last is overwritten by the NUL.\<close>

definition generate_and_store_nonce :: "scram_env \<Rightarrow> scram_state \<Rightarrow> scram_state" where
  "generate_and_store_nonce env st =
     st\<lparr>nonce := map (\<lambda>i. nonce_legal_index ! random_index env (numbers_drawn st + i)) [0..<63],
        numbers_drawn := numbers_drawn st + 64\<rparr>"

text \<open>The message ends at its first NUL: \<^verbatim>\<open>strlen(source)\<close>.\<close>

definition get_encoded_msg :: "string \<Rightarrow> string option" where
  "get_encoded_msg source = do {
     (ret, encoded_msg) \<leftarrow> b64_encode (octets (cstr source)) (replicate 4096 nul) 4096;
     Some (if ret = -1 then [] else cstr encoded_msg) }"

definition sasl_scram_sha_send_client_first_msg :: "scram_env \<Rightarrow> scram_state \<Rightarrow> (int \<times> scram_state) option" where
  "sasl_scram_sha_send_client_first_msg env st =
     (let username = Config (ss_config env) (Some ''sasl_username'') in
      if \<not> is_valid_username (Some username) then Some (-1, st)
      else do {
        let st = generate_and_store_nonce env st;
        encoded_msg \<leftarrow> get_encoded_msg (''n,,n='' @ username @ '',r='' @ nonce st);
        if strings_match encoded_msg [] then Some (-1, st)
        else case net_send env (''AUTHENTICATE '' @ encoded_msg) st of
               (ret, st) \<Rightarrow> Some (if ret < 0 then -1 else 0, st) })"

definition sasl_scram_sha_send_client_final_msg :: "scram_env \<Rightarrow> string \<Rightarrow> scram_state \<Rightarrow> (int \<times> scram_state) option" where
  "sasl_scram_sha_send_client_final_msg env proof st =
     (case complete_nonce st of
        None \<Rightarrow> Some (-1, st)
      | Some cn \<Rightarrow> do {
          encoded_msg \<leftarrow> get_encoded_msg (''c=biws,r='' @ cn @ '',p='' @ proof);
          (case net_send env (''AUTHENTICATE '' @ encoded_msg) st of
             (ret, st) \<Rightarrow> Some (if ret < 0 then -1 else 0, st)) })"

section \<open>The first message of the server\<close>

text \<open>The buffer, with a NUL behind what was decoded, and the number of octets decoded.\<close>

definition get_decoded_msg :: "string option \<Rightarrow> (8 word list \<times> int) option option" where
  "get_decoded_msg source =
     (case source of
        None \<Rightarrow> Some None
      | Some s \<Rightarrow>
          if strings_match s [] then Some None
          else do {
            (tmp, _) \<leftarrow> b64_decode (s @ [nul]) None 0;
            if tmp < 0 then Some None
            else do {
              length_needed \<leftarrow> int_sum tmp 1;
              (ret, decoded_msg) \<leftarrow> b64_decode (s @ [nul]) (Some (replicate (nat length_needed) 0)) (nat length_needed);
              Some (if ret = -1 then None else map_option (\<lambda>d. (d, tmp)) decoded_msg) } })"

text \<open>The C string at a position of a buffer.\<close>

definition str_at :: "string \<Rightarrow> nat \<Rightarrow> string option" where
  "str_at buf i = (if nul \<in> set (drop i buf) then Some (cstr (drop i buf)) else None)"

text \<open>Of a number that is too large for \<^verbatim>\<open>int\<close> the low 32 bits remain.\<close>

definition int_of_long :: "int \<Rightarrow> int" where
  "int_of_long n = sint (word_of_int n :: 32 word)"

text \<open>
  A comma is put back where the NUL was written: at the end of the text it overwrites the
  terminating NUL.
\<close>

definition sfm_iter :: "string \<Rightarrow> nat \<Rightarrow> 8 word list \<Rightarrow> int \<Rightarrow> (string + 8 word list \<times> int \<times> int) option" where
  "sfm_iter buf p salt saltlen = do {
     cp \<leftarrow> str_at buf p;
     (case strstr cp '',i='' of
        None \<Rightarrow> Some (Inl ''no iteration count'')
      | Some k \<Rightarrow> do {
          cp \<leftarrow> str_at buf (p + k + 3);
          Some (if \<not> is_numeric (Some cp) then Inl ''iteration count not numeric''
                else Inr (salt, saltlen, int_of_long (fst (strtol_digits cp)))) }) }"

definition sfm_salt :: "string \<Rightarrow> (string + 8 word list \<times> int \<times> int) option" where
  "sfm_salt buf = do {
     cp \<leftarrow> str_at buf 2;
     (case strstr cp '',s='' of
        None \<Rightarrow> Some (Inl ''no base64-encoded salt'')
      | Some k \<Rightarrow> do {
          let p = 2 + k + 3;
          cp \<leftarrow> str_at buf p;
          let n = strcspn cp '','';
          buf \<leftarrow> wr buf (p + n) (CHR '','');
          salt \<leftarrow> get_decoded_msg (Some (take n cp));
          (case salt of
             None \<Rightarrow> Some (Inl ''unable to decode salt'')
           | Some (salt, saltlen) \<Rightarrow> sfm_iter buf p salt saltlen) }) }"

definition get_sfm_components ::
    "scram_state \<Rightarrow> string \<Rightarrow> ((string + 8 word list \<times> int \<times> int) \<times> scram_state) option" where
  "get_sfm_components st msg = do {
     d \<leftarrow> get_decoded_msg (Some msg);
     (case d of
        None \<Rightarrow> Some (Inl ''unable to get decoded message'', st)
      | Some (decoded_msg, _) \<Rightarrow> do {
          let buf = chars decoded_msg;
          cp \<leftarrow> str_at buf 0;
          if \<not> strncmp_eq cp ''r='' 2 then Some (Inl ''expected nonce'', st)
          else do {
            cp \<leftarrow> str_at buf 2;
            if \<not> strncmp_eq cp (nonce st) (length (nonce st)) then Some (Inl ''nonce mismatch'', st)
            else do {
              let n = strcspn cp '','';
              buf \<leftarrow> wr buf (2 + n) (CHR '','');
              r \<leftarrow> sfm_salt buf;
              Some (r, st\<lparr>complete_nonce := Some (take n cp)\<rparr>) } } }) }"

section \<open>Keys and proof\<close>

definition get_evp :: "config \<Rightarrow> evp_md" where
  "get_evp cfg =
     (let mech = Config cfg (Some ''sasl_mechanism'') in
      if strings_match mech ''SCRAM-SHA-1'' then EVP_sha1
      else if strings_match mech ''SCRAM-SHA-256'' then EVP_sha256
      else if strings_match mech ''SCRAM-SHA-512'' then EVP_sha512
      else EVP_sha256)"

definition get_salted_password :: "scram_env \<Rightarrow> 8 word list \<Rightarrow> int \<Rightarrow> int \<Rightarrow> 8 word list option" where
  "get_salted_password env salt saltlen iter =
     (let evp = get_evp (ss_config env) in
      if md_size env evp < 0 then None
      else case config_get_normalized_sasl_password (ss_config env) of
             None \<Rightarrow> None
           | Some pass \<Rightarrow> pbkdf2 env evp pass (take (nat saltlen) salt) iter (nat (md_size env evp)))"

text \<open>The digest must fit into the array \<^verbatim>\<open>md\<close>.\<close>

definition get_digest :: "scram_env \<Rightarrow> 8 word list \<Rightarrow> 8 word list \<Rightarrow> 8 word list option option" where
  "get_digest env key data =
     (case hmac env (get_evp (ss_config env)) key data of
        None \<Rightarrow> Some None
      | Some md \<Rightarrow> if length md > EVP_MAX_MD_SIZE then None else Some (Some md))"

definition get_client_first_msg_bare :: "scram_env \<Rightarrow> scram_state \<Rightarrow> string" where
  "get_client_first_msg_bare env st = ''n='' @ Config (ss_config env) (Some ''sasl_username'') @ '',r='' @ nonce st"

definition get_client_final_msg_wo_proof :: "scram_state \<Rightarrow> string" where
  "get_client_final_msg_wo_proof st =
     ''c=biws,r='' @ (case complete_nonce st of Some n \<Rightarrow> n | None \<Rightarrow> [])"

definition get_auth_msg :: "scram_env \<Rightarrow> scram_state \<Rightarrow> string \<Rightarrow> string option" where
  "get_auth_msg env st b64msg = do {
     d \<leftarrow> get_decoded_msg (Some b64msg);
     (serv_first_msg, _) \<leftarrow> d;
     Some (get_client_first_msg_bare env st @ '','' @ cstr (chars serv_first_msg) @ '','' @ get_client_final_msg_wo_proof st) }"

text \<open>The array for the stored key has been zeroed.\<close>

definition get_stored_key :: "config \<Rightarrow> nat" where
  "get_stored_key cfg =
     (let mech = Config cfg (Some ''sasl_mechanism'') in
      if strings_match mech ''SCRAM-SHA-1'' then 20
      else if strings_match mech ''SCRAM-SHA-256'' then 32
      else if strings_match mech ''SCRAM-SHA-512'' then 64
      else 32)"

definition hash_client_key :: "scram_env \<Rightarrow> 8 word list \<Rightarrow> 8 word list option" where
  "hash_client_key env md =
     (let h = sha env (get_evp (ss_config env)) md; n = get_stored_key (ss_config env) in
      if length h > n then None else Some (h @ replicate (n - length h) 0))"

definition send_proof :: "scram_env \<Rightarrow> 8 word list \<Rightarrow> 8 word list \<Rightarrow> scram_state \<Rightarrow> (int \<times> scram_state) option" where
  "send_proof env client_key client_signature st =
     (let len = min (length client_key) (length client_signature) in
      if len \<ge> EVP_MAX_MD_SIZE + 1 then Some (-1, st)
      else do {
        proof \<leftarrow> get_encoded_msg (chars (map2 (XOR) (take len client_key) (take len client_signature)) @ [nul]);
        sasl_scram_sha_send_client_final_msg env proof st })"

definition sasl_scram_sha_handle_serv_first_msg :: "scram_env \<Rightarrow> string \<Rightarrow> scram_state \<Rightarrow> (int \<times> scram_state) option" where
  "sasl_scram_sha_handle_serv_first_msg env msg st = do {
     (components, st) \<leftarrow> get_sfm_components st msg;
     (case components of
        Inl e \<Rightarrow> Some (-1, st)
      | Inr (salt, saltlen, iter) \<Rightarrow>
          (case get_salted_password env salt saltlen iter of
             None \<Rightarrow> Some (-1, st)
           | Some pass \<Rightarrow> do {
               client_key \<leftarrow> get_digest env pass client_key_str;
               server_key \<leftarrow> get_digest env pass server_key_str;
               (case (client_key, server_key) of
                  (Some client_key, Some server_key) \<Rightarrow> do {
                    stored_key \<leftarrow> hash_client_key env client_key;
                    auth_msg \<leftarrow> get_auth_msg env st msg;
                    client_signature \<leftarrow> get_digest env stored_key (octets auth_msg);
                    server_signature \<leftarrow> get_digest env server_key (octets auth_msg);
                    (case (client_signature, server_signature) of
                       (Some client_signature, Some server_signature) \<Rightarrow>
                         send_proof env client_key client_signature
                           (st\<lparr>signature_expected :=
                                 server_signature @ drop (length server_signature) (signature_expected st),
                               signature_expected_len := length server_signature\<rparr>)
                     | _ \<Rightarrow> Some (-1, st)) }
                | _ \<Rightarrow> Some (-1, st)) })) }"

section \<open>The final message of the server\<close>

definition sasl_scram_sha_handle_serv_final_msg :: "string \<Rightarrow> scram_state \<Rightarrow> (int \<times> scram_state) option" where
  "sasl_scram_sha_handle_serv_final_msg msg st = do {
     d \<leftarrow> get_decoded_msg (Some msg);
     (case d of
        None \<Rightarrow> Some (-1, st)
      | Some (decoded_msg, _) \<Rightarrow> do {
          cp \<leftarrow> str_at (chars decoded_msg) 0;
          if \<not> strncmp_eq cp ''v='' 2 then Some (-1, st)
          else do {
            cp \<leftarrow> str_at (chars decoded_msg) 2;
            s \<leftarrow> get_decoded_msg (Some cp);
            (case s of
               None \<Rightarrow> Some (-1, st)
             | Some (signature, _) \<Rightarrow> do {
                 r \<leftarrow> timingsafe_memcmp signature (signature_expected st) (signature_expected_len st);
                 Some (if r = 0 then 0 else -1, st\<lparr>complete_nonce := None\<rparr>) }) } }) }"

end
