(* ===== verification/Sasl.thy ===== *)
theory Sasl
  imports Scram Names
begin

text \<open>
  Capability negotiation and authentication: \<^verbatim>\<open>src/src/events/cap.c\<close>,
  \<^verbatim>\<open>src/src/events/auth.c\<close> and the registration of \<^verbatim>\<open>src/src/network.cpp\<close>.

  The state is that of the SCRAM mechanisms, with what has been sent, and what was shown to the
  user.  The private key and the signing of OpenSSL, the options of the command line and whether the
  connection uses TLS are the environment.
\<close>

record sasl_env =
  senv :: scram_env
  g_sasl_authentication :: bool
  g_ircv3_extensions :: bool
  ssl_is_enabled :: bool
  ec_key :: "string + 8 word list"
  ecdsa_sign :: "8 word list \<Rightarrow> 8 word list \<Rightarrow> 8 word list option"

datatype sasl_out =
    Shown message_specifier_type string
  | Logged string
  | Extracted action

record sasl_state =
  scram :: scram_state
  shown :: "sasl_out list"

abbreviation scfg :: "sasl_env \<Rightarrow> config" where
  "scfg env \<equiv> ss_config (senv env)"

definition put_out :: "sasl_out \<Rightarrow> sasl_state \<Rightarrow> sasl_state" where
  "put_out x st = st\<lparr>shown := shown st @ [x]\<rparr>"

text \<open>\<^verbatim>\<open>(void) net_send(\<dots>)\<close> and the result that some callers test.\<close>

definition send_ret :: "sasl_env \<Rightarrow> string \<Rightarrow> sasl_state \<Rightarrow> int \<times> sasl_state" where
  "send_ret env m st = (case net_send (senv env) m (scram st) of (ret, sc) \<Rightarrow> (ret, st\<lparr>scram := sc\<rparr>))"

definition send :: "sasl_env \<Rightarrow> string \<Rightarrow> sasl_state \<Rightarrow> sasl_state" where
  "send env m st = snd (send_ret env m st)"

section \<open>Mechanisms\<close>

definition is_sasl_mechanism_supported :: "string option \<Rightarrow> bool" where
  "is_sasl_mechanism_supported mechanism =
     (case mechanism of
        None \<Rightarrow> False
      | Some m \<Rightarrow>
          if strings_match m ''ECDSA-NIST256P-CHALLENGE'' then True
          else if strings_match m ''EXTERNAL'' then True
          else if strings_match m ''PLAIN'' then True
          else if strings_match m ''SCRAM-SHA-1'' \<or> strings_match m ''SCRAM-SHA-256'' \<or> strings_match m ''SCRAM-SHA-512'' then True
          else False)"

definition get_sasl_mechanism :: "config \<Rightarrow> string" where
  "get_sasl_mechanism cfg =
     (let mechanism = Config cfg (Some ''sasl_mechanism'')
      in if strings_match mechanism [] then ''PLAIN'' else mechanism)"

definition sasl_is_enabled :: "sasl_env \<Rightarrow> bool" where
  "sasl_is_enabled env = (if \<not> g_sasl_authentication env then False else fst (config_bool (scfg env) ''sasl'' False))"

section \<open>Registration\<close>

definition connect_hook :: "sasl_state \<Rightarrow> sasl_state" where
  "connect_hook st = st\<lparr>scram := (scram st)\<lparr>got_first_msg := False\<rparr>\<rparr>"

record network_connect_context =
  nc_password :: "string option"
  nc_nickname :: string
  nc_username :: string
  nc_rl_name :: string

text \<open>The settings, their defaults, the capabilities and their names in messages.\<close>

definition cap_table :: "(string \<times> bool \<times> string \<times> string) list" where
  "cap_table =
     [(''account_notify'', True, ''account-notify'', ''account notify''),
      (''account_tag'', True, ''account-tag'', ''account tag''),
      (''away_notify'', False, ''away-notify'', ''away notify''),
      (''batch'', True, ''batch'', ''batch''),
      (''chghost'', True, ''chghost'', ''change host''),
      (''extended_join'', True, ''extended-join'', ''extended join''),
      (''invite_notify'', False, ''invite-notify'', ''invite notify''),
      (''multi_prefix'', True, ''multi-prefix'', ''multi prefix''),
      (''server_time'', True, ''server-time'', ''server time'')]"

definition cap_request :: "sasl_env \<Rightarrow> string \<Rightarrow> string \<Rightarrow> sasl_state \<Rightarrow> sasl_state" where
  "cap_request env cap what st =
     (case send_ret env (''CAP REQ :'' @ cap) st of
        (ret, st) \<Rightarrow> if ret > 0 then put_out (Shown TYPE_SPEC1_SUCCESS (''Requesting '' @ what)) st else st)"

definition send_reg_cmds :: "sasl_env \<Rightarrow> network_connect_context \<Rightarrow> sasl_state \<Rightarrow> sasl_state" where
  "send_reg_cmds env ctx st =
     (let st = (if g_ircv3_extensions env then send env ''CAP LS 302'' st else st);
          st = (case nc_password ctx of Some p \<Rightarrow> send env (''PASS '' @ p) st | None \<Rightarrow> st);
          st = send env (''NICK '' @ nc_nickname ctx) st;
          st = send env (''USER '' @ nc_username ctx @ '' 8 * :'' @ nc_rl_name ctx) st
      in if \<not> g_ircv3_extensions env then st
         else
           let st = fold (\<lambda>(setting, default, cap, what) st.
                 if fst (config_bool (scfg env) setting default) then cap_request env cap what st else st) cap_table st
           in if sasl_is_enabled env then
                (if strings_match (get_sasl_mechanism (scfg env)) ''PLAIN'' \<and> \<not> ssl_is_enabled env
                 then put_out (Shown TYPE_SPEC1_WARN (''SASL mechanism matches PLAIN and TLS/SSL is not enabled. '' @
                   ''Not requesting SASL authentication.'')) st
                 else cap_request env ''sasl'' ''SASL authentication'' st)
              else st)"

section \<open>Capabilities\<close>

definition ACK :: "string \<Rightarrow> sasl_state \<Rightarrow> sasl_state" where
  "ACK feature = put_out (Shown TYPE_SPEC1_SUCCESS (feature @ '' accepted''))"

definition NAK :: "string \<Rightarrow> sasl_state \<Rightarrow> sasl_state" where
  "NAK feature = put_out (Shown TYPE_SPEC1_FAILURE (feature @ '' rejected''))"

definition shouldContinueCapabilityNegotiation :: "sasl_env \<Rightarrow> nat \<Rightarrow> bool" where
  "shouldContinueCapabilityNegotiation env off =
     (let cb = (\<lambda>name dflt. fst (config_bool (scfg env) name dflt));
          array = [cb ''account_tag'' True, cb ''away_notify'' False, cb ''batch'' True, cb ''chghost'' True,
            cb ''extended_join'' True, cb ''invite_notify'' False, cb ''multi_prefix'' True, cb ''server_time'' True,
            sasl_is_enabled env]
      in \<exists>b \<in> set (drop off array). b)"

text \<open>The capabilities in the order of the tests, and how they are called.\<close>

definition ack_names :: "(string \<times> string) list" where
  "ack_names =
     [(''account-notify'', ''Account notify''), (''account-tag'', ''Account tag''), (''away-notify'', ''Away notify''),
      (''batch'', ''Batch''), (''chghost'', ''Change host''), (''extended-join'', ''Extended join''),
      (''invite-notify'', ''Invite notify''), (''multi-prefix'', ''Multi prefix''), (''server-time'', ''Server time'')]"

fun ack_lookup :: "string \<Rightarrow> nat \<Rightarrow> (string \<times> string) list \<Rightarrow> (nat \<times> string) option" where
  "ack_lookup caplist i [] = None"
| "ack_lookup caplist i ((cap, feature) # rest) =
     (if strings_match caplist cap then Some (i, feature) else ack_lookup caplist (i + 1) rest)"

definition handle_ack_and_nak ::
    "sasl_env \<Rightarrow> irc_message_compo \<Rightarrow> string \<Rightarrow> string \<Rightarrow> string \<Rightarrow> sasl_state \<Rightarrow> bool \<times> sasl_state" where
  "handle_ack_and_nak env compo ps subcmd caplist st =
     (case ack_lookup caplist 0 ack_names of
        Some (off, feature) \<Rightarrow>
          (shouldContinueCapabilityNegotiation env off,
           if strings_match subcmd ''ACK'' then ACK feature st else NAK feature st)
      | None \<Rightarrow>
          if strings_match caplist ''sasl'' then
            (if strings_match subcmd ''ACK'' then
               (let st = ACK ''SASL authentication'' st;
                    mechanism = get_sasl_mechanism (scfg env)
                in if \<not> is_sasl_mechanism_supported (Some mechanism)
                   then (False, put_out (Logged (''Unsupported SASL mechanism: '' @ [CHR 0x27] @ mechanism @ [CHR 0x27])) st)
                   else (True, send env (''AUTHENTICATE '' @ mechanism) st))
             else (False, NAK ''SASL authentication'' st))
          else
            (False,
             put_out (Shown TYPE_SPEC1_WARN (''prefix = '' @ (case prefix' compo of Some p \<Rightarrow> p | None \<Rightarrow> ''none'')))
              (put_out (Shown TYPE_SPEC1_WARN (''params = '' @ ps))
                (put_out (Shown TYPE_SPEC1_WARN ''Unknown acknowledgement during capability negotiation...'') st))))"

definition handle_cap_new :: "sasl_env \<Rightarrow> string \<Rightarrow> sasl_state \<Rightarrow> sasl_state" where
  "handle_cap_new env caplist st =
     (let cb = (\<lambda>name dflt. fst (config_bool (scfg env) name dflt)) in
      if strings_match caplist ''account-notify'' \<and> cb ''account_notify'' True then send env ''CAP REQ :account-notify'' st
      else if strings_match caplist ''account-tag'' \<and> cb ''account_tag'' True then send env ''CAP REQ :account-tag'' st
      else if strings_match caplist ''away-notify'' \<and> cb ''away_notify'' False then send env ''CAP REQ :away-notify'' st
      else if strings_match caplist ''extended-join'' \<and> cb ''extended_join'' True then send env ''CAP REQ :extended-join'' st
      else st)"

text \<open>The parameters hold their first word when they are printed: \<^verbatim>\<open>strtok_r\<close> has cut them.\<close>

definition event_cap :: "sasl_env \<Rightarrow> irc_message_compo \<Rightarrow> sasl_state \<Rightarrow> sasl_state" where
  "event_cap env compo st =
     (let (fed, ps) = strFeed (params_of compo) 2 in
      if fed \<noteq> 2 then put_out (Logged ''event_cap: strFeed() != 2'') st
      else
        let (ident, s1) = tok nl_sep ps;
            (subcmd, s2) = tok nl_sep s1;
            (caplist, _) = tok nl_sep s2
        in (case (subcmd, caplist) of
              (Some subcmd, Some caplist) \<Rightarrow>
                let caplist = trim (skip_colon caplist) in
                if strings_match subcmd ''LS'' then put_out (Shown TYPE_SPEC1 (''  * '' @ caplist)) st
                else if strings_match subcmd ''LIST'' then put_out (Shown TYPE_SPEC1 (''  * '' @ caplist)) st
                else if strings_match subcmd ''ACK'' \<or> strings_match subcmd ''NAK'' then
                  (let (continue_capneg, st) =
                     handle_ack_and_nak env compo (case ident of Some w \<Rightarrow> w | None \<Rightarrow> []) subcmd caplist st
                   in if continue_capneg then st
                      else put_out (Shown TYPE_SPEC1_WARN ''Ended IRCv3 Client Capability Negotiation'') (send env ''CAP END'' st))
                else if strings_match subcmd ''NEW'' then
                  handle_cap_new env caplist (put_out (Shown TYPE_SPEC1_SUCCESS (''event_cap: NEW: '' @ caplist)) st)
                else if strings_match subcmd ''DEL'' then put_out (Shown TYPE_SPEC1_WARN (''event_cap: DEL: '' @ caplist)) st
                else put_out (Shown TYPE_SPEC1_WARN (''Unknown command: '' @ subcmd @ '' (during capability negotiation)'')) st
            | _ \<Rightarrow> st))"

section \<open>Authentication\<close>

definition AUTH_MSG_SIZE :: nat where "AUTH_MSG_SIZE = 1000"

definition abort_authentication :: "sasl_env \<Rightarrow> sasl_state \<Rightarrow> sasl_state" where
  "abort_authentication env st = send env ''CAP END'' (send env ''AUTHENTICATE *'' st)"

definition get_b64_encoded_username :: "config \<Rightarrow> string option option" where
  "get_b64_encoded_username cfg =
     (let username = Config cfg (Some ''sasl_username'') in
      if strings_match username [] then Some None
      else do {
        (ret, b) \<leftarrow> b64_encode (octets username) (replicate 501 nul) 500;
        Some (if ret = -1 then None else Some (cstr b)) })"

definition build_auth_message :: "config \<Rightarrow> string option option" where
  "build_auth_message cfg =
     (let username = Config cfg (Some ''sasl_username''); password = Config cfg (Some ''sasl_password'') in
      if strings_match username [] \<or> strings_match password [] then Some None
      else do {
        (ret, b) \<leftarrow> b64_encode (octets (username @ [nul] @ username @ [nul] @ password)) (replicate (AUTH_MSG_SIZE + 1) nul) AUTH_MSG_SIZE;
        Some (if ret = -1 then None else Some (cstr b)) })"

definition is_scram :: "string \<Rightarrow> bool" where
  "is_scram mechanism \<longleftrightarrow> strings_match mechanism ''SCRAM-SHA-1'' \<or> strings_match mechanism ''SCRAM-SHA-256'' \<or>
     strings_match mechanism ''SCRAM-SHA-512''"

text \<open>\<^verbatim>\<open>solve_ecdsa_nist256p_challenge\<close> of \<^verbatim>\<open>src/src/commands/sasl.cpp\<close>: the reason of a failure or the solution.\<close>

definition solve_ecdsa_nist256p_challenge :: "sasl_env \<Rightarrow> string \<Rightarrow> (string + string) option" where
  "solve_ecdsa_nist256p_challenge env challenge =
     (case ec_key env of
        Inl e \<Rightarrow> Some (Inl e)
      | Inr key \<Rightarrow> do {
          decode_len \<leftarrow> crypt_get_base64_decode_length (Some challenge);
          if decode_len = 0 then Some (Inl ''decode length error'')
          else do {
            (decode_ret, decoded_chl) \<leftarrow> b64_decode (challenge @ [nul]) (Some (replicate decode_len 0)) decode_len;
            if decode_ret = -1 then Some (Inl ''decoding error'')
            else
              (case ecdsa_sign env key (take (nat decode_ret) (case decoded_chl of Some d \<Rightarrow> d | None \<Rightarrow> [])) of
                 None \<Rightarrow> Some (Inl ''signing error'')
               | Some sig \<Rightarrow>
                   let encode_len = unat (crypt_get_base64_encode_length (word_of_nat (length sig))) in
                   if encode_len = 0 then Some (Inl ''encode length error'')
                   else do {
                     (ret, out) \<leftarrow> b64_encode sig (replicate encode_len nul) encode_len;
                     Some (if ret = -1 then Inl ''encoding error'' else Inr (cstr out)) }) } })"

definition handle_ecdsa_nist256p_challenge :: "sasl_env \<Rightarrow> string \<Rightarrow> sasl_state \<Rightarrow> sasl_state option" where
  "handle_ecdsa_nist256p_challenge env challenge st = do {
     r \<leftarrow> solve_ecdsa_nist256p_challenge env challenge;
     Some (case r of
             Inl err_reason \<Rightarrow> abort_authentication env (put_out (Logged (''solve_ecdsa_nist256p_challenge: '' @ err_reason)) st)
           | Inr solution \<Rightarrow> send env (''AUTHENTICATE '' @ solution) st) }"

definition handle_else_branch :: "sasl_env \<Rightarrow> string \<Rightarrow> string \<Rightarrow> sasl_state \<Rightarrow> sasl_state option" where
  "handle_else_branch env mechanism ps st =
     (if strings_match mechanism ''ECDSA-NIST256P-CHALLENGE'' then handle_ecdsa_nist256p_challenge env ps st
      else if strings_match mechanism ''EXTERNAL'' then
        Some (abort_authentication env (put_out (Logged (''handle_else_branch: error (external): expected '' @ [CHR 0x27] @ ''+'' @ [CHR 0x27])) st))
      else if strings_match mechanism ''PLAIN'' then
        Some (abort_authentication env (put_out (Logged (''handle_else_branch: error (plain): expected '' @ [CHR 0x27] @ ''+'' @ [CHR 0x27])) st))
      else if is_scram mechanism then
        (if \<not> got_first_msg (scram st) then do {
           (r, sc) \<leftarrow> sasl_scram_sha_handle_serv_first_msg (senv env) ps (scram st);
           Some (if r = -1 then abort_authentication env (st\<lparr>scram := sc\<rparr>)
                 else st\<lparr>scram := sc\<lparr>got_first_msg := True\<rparr>\<rparr>) }
         else do {
           (r, sc) \<leftarrow> sasl_scram_sha_handle_serv_final_msg ps (scram st);
           Some (if r = -1 then abort_authentication env (st\<lparr>scram := sc\<rparr>)
                 else send env ''AUTHENTICATE +'' (st\<lparr>scram := sc\<rparr>)) })
      else
        Some (abort_authentication env (put_out (Logged ''handle_else_branch: aborting authentication...'')
          (put_out (Logged ''handle_else_branch: unknown mechanism'') st))))"

definition event_authenticate :: "sasl_env \<Rightarrow> irc_message_compo \<Rightarrow> sasl_state \<Rightarrow> sasl_state option" where
  "event_authenticate env compo st =
     (let mechanism = get_sasl_mechanism (scfg env) in
      if strings_match (params_of compo) ''+'' then
        (if strings_match mechanism ''ECDSA-NIST256P-CHALLENGE'' then do {
           encoded_username \<leftarrow> get_b64_encoded_username (scfg env);
           Some (case encoded_username of
                   None \<Rightarrow> abort_authentication env st
                 | Some u \<Rightarrow> send env (''AUTHENTICATE '' @ u) st) }
         else if strings_match mechanism ''EXTERNAL'' then Some (send env ''AUTHENTICATE +'' st)
         else if strings_match mechanism ''PLAIN'' then do {
           msg \<leftarrow> build_auth_message (scfg env);
           Some (case msg of
                   None \<Rightarrow> abort_authentication env st
                 | Some m \<Rightarrow> send env (''AUTHENTICATE '' @ m) st) }
         else if is_scram mechanism then do {
           (r, sc) \<leftarrow> sasl_scram_sha_send_client_first_msg (senv env) (scram st);
           Some (if r = -1 then abort_authentication env (st\<lparr>scram := sc\<rparr>) else st\<lparr>scram := sc\<rparr>) }
         else
           Some (abort_authentication env (put_out (Logged ''SASL mechanism unknown  --  aborting authentication!'') st)))
      else handle_else_branch env mechanism (params_of compo) st)"

definition handle_sasl_auth_fail :: "sasl_env \<Rightarrow> irc_message_compo \<Rightarrow> sasl_state \<Rightarrow> sasl_state" where
  "handle_sasl_auth_fail env compo st =
     (let compo = (if (case command compo of Some c \<Rightarrow> strings_match c ''908'' | None \<Rightarrow> False)
                   then compo\<lparr>params := map_option (\<lambda>p. squeeze p '':'') (params compo)\<rparr> else compo)
      in abort_authentication env (fold (\<lambda>a. put_out (Extracted a)) (irc_extract_msg compo STATUS_WINDOW 1 True) st))"

definition sasl_auth_success :: "sasl_env \<Rightarrow> irc_message_compo \<Rightarrow> sasl_state \<Rightarrow> sasl_state" where
  "sasl_auth_success env compo st =
     send env ''CAP END'' (put_out (Shown TYPE_SPEC1_SUCCESS ''SASL authentication successful'') st)"

end
