(* ===== verification/Scram_Laws.thy ===== *)
theory Scram_Laws
  imports Scram Events "HOL-Library.Sublist"
begin

text \<open>
  What the SCRAM client achieves against a server as RFC 5802 describes it, and what it accepts from
  any server.
\<close>

section \<open>Reading and writing messages\<close>

text \<open>Decoding into zeroed memory leaves zeros behind the octets.\<close>

lemma replicate_Cons: "0 < n \<Longrightarrow> replicate n x = x # replicate (n - 1) x"
  by (cases n) auto

lemma decode_into_zeros:
  assumes "ts = length pre + n" "length x < n" "int (length pre + length x) \<le> INT_MAX"
  shows "\<exists>ch r st. b64_decode_loop (encoding x @ nul # rest) (pre @ replicate n 0) ts (length pre) 0 =
      Some (Ended ch r (pre @ x @ replicate (n - length x) 0) (length (pre @ x)) st)
    \<and> ending_ok ch r st = Some True"
  using assms
proof (induction x arbitrary: pre n rule: encoding.induct)
  case (1 a b c x)
  have z: "replicate n 0 = 0 # 0 # 0 # replicate (n - 3) (0 :: 8 word)"
    using 1(3) by (simp add: replicate_Cons numeral_eq_Suc)
  have "\<exists>ch r st. b64_decode_loop (encoding x @ nul # rest) ((pre @ [a, b, c]) @ replicate (n - 3) 0) ts
      (length (pre @ [a, b, c])) 0 =
      Some (Ended ch r ((pre @ [a, b, c]) @ x @ replicate (n - 3 - length x) 0) (length ((pre @ [a, b, c]) @ x)) st)
    \<and> ending_ok ch r st = Some True"
    by (rule 1(1)) (use 1(2-4) in auto)
  moreover have "n - 3 - length x = n - Suc (Suc (Suc (length x)))" by simp
  ultimately show ?case
    using decode_group [of ts pre 0 0 0 "replicate (n - 3) 0" a b c "encoding x @ nul # rest"] 1(2-4) z
    by (simp del: b64_decode_loop.simps)
next
  case (2 a b)
  have z: "replicate n 0 = 0 # 0 # 0 # replicate (n - 3) (0 :: 8 word)"
    using 2(2) by (simp add: replicate_Cons numeral_eq_Suc)
  have "replicate (n - Suc (Suc 0)) 0 = 0 # replicate (n - 3) (0 :: 8 word)"
    using 2(2) by (subst replicate_Cons) (auto simp: numeral_eq_Suc)
  then show ?case
    using decode_tail2 [of ts pre 0 0 0 "replicate (n - 3) 0" a b rest] 2 z
    by (simp add: ending_pads del: b64_decode_loop.simps encoding.simps)
next
  case (3 a)
  have z: "replicate n 0 = 0 # 0 # replicate (n - 2) (0 :: 8 word)"
    using 3(2) by (simp add: replicate_Cons numeral_eq_Suc)
  have "replicate (n - Suc 0) 0 = 0 # replicate (n - 2) (0 :: 8 word)"
    using 3(2) by (subst replicate_Cons) (auto simp: numeral_eq_Suc)
  then show ?case
    using decode_tail1 [of ts pre 0 0 "replicate (n - 2) 0" a rest] 3 z
    by (simp add: ending_pads del: b64_decode_loop.simps encoding.simps)
next
  case 4
  have "b64rmap_special \<le> b64rmap_end" "b64rmap_end \<noteq> b64rmap_space"
    by (simp_all add: b64rmap_defs)
  then show ?case using Pad64_not_nul by (auto simp: Let_def rmap_nul ending_pads)
qed

lemma get_decoded_ok:
  assumes "x \<noteq> []" "length x < 2000000000"
  shows "get_decoded_msg (Some (encoding x)) = Some (Some (x @ [0], int (length x)))"
proof -
  let ?n = "length x + 1"
  obtain ch r st where e: "b64_decode_loop (encoding x @ [nul]) (replicate ?n 0) ?n 0 0 =
      Some (Ended ch r (x @ [0]) (length x) st)" "ending_ok ch r st = Some True"
    using decode_into_zeros [of ?n "[]" ?n x "[]"] assms(2) by (auto simp: INT_MAX_def)
  then have "b64_decode_do (encoding x @ [nul]) (replicate ?n 0) ?n = Some (int (length x), x @ [0])"
    by (simp add: b64_decode_do_def nth_append)
  then have d: "b64_decode (encoding x @ [nul]) (Some (replicate ?n 0)) ?n = Some (int (length x), Some (x @ [0]))"
    by (simp add: b64_decode_def)
  have "b64_decode (encoding x @ [nul]) None 0 = Some (int (length x), None)"
    using b64_decode_len_ok [of ?n x "[]" 0] assms(2) by (simp add: INT_MAX_def)
  moreover have "encoding x \<noteq> []" using assms(1) length_encoding [of x] by (cases x) auto
  moreover have "int_sum (int (length x)) 1 = Some (int ?n)"
    using assms(2) by (simp add: int_sum_def INT_MAX_def)
  moreover have "nat (int ?n) = ?n" by simp
  ultimately show ?thesis
    using d unfolding get_decoded_msg_def by (simp add: strings_match_iff del: replicate.simps)
qed

lemma get_encoded_ok:
  assumes "nul \<notin> set s" "length s < 3000"
  shows "get_encoded_msg s = Some (encoding (octets s))"
  using b64_encode_ok [of "octets s" 4096] assms encoding_no_nul [of "octets s"]
  by (simp add: get_encoded_msg_def cstr_id cstr_text length_encoding INT_MAX_def)

lemma str_at_text: "\<lbrakk>nul \<notin> set s; i \<le> length s\<rbrakk> \<Longrightarrow> str_at (s @ [nul]) i = Some (drop i s)"
proof -
  assume "nul \<notin> set s" "i \<le> length s"
  then have "nul \<notin> set (drop i s)" by (meson in_set_dropD)
  then show ?thesis using \<open>i \<le> length s\<close> by (simp add: str_at_def cstr_text)
qed

lemma str_at_split: "\<lbrakk>nul \<notin> set s; s = u @ b; i = length u\<rbrakk> \<Longrightarrow> str_at (s @ [nul]) i = Some b"
  using str_at_text [of s i] by simp

lemma strstr_here: "c \<notin> set a \<Longrightarrow> strstr (a @ c # m @ b) (c # m) = Some (length a)"
  by (induction a) auto

lemma strcspn_here: "c \<notin> set a \<Longrightarrow> strcspn (a @ c # b) [c] = length a"
  by (induction a) (auto simp: strcspn_def)

lemma encoding_chars: "set (encoding x) \<subseteq> set Base64 \<union> {Pad64}"
proof -
  have "b64_char w \<in> set Base64" if "unat w < 64" for w
    unfolding b64_char_def using that by (intro nth_mem) (simp add: Base64_facts)
  then show ?thesis by (induction x rule: encoding.induct) (auto simp: out_bounds)
qed

lemma encoding_no_comma: "CHR '','' \<notin> set (encoding x)"
proof -
  have "CHR '','' \<notin> set Base64 \<union> {Pad64}" by (simp add: Base64_def Pad64_def)
  then show ?thesis using encoding_chars by blast
qed

text \<open>Numbers that were printed are read back.\<close>

lemma dec_nat_digits: "dec_nat n \<noteq> [] \<and> (\<forall>c\<in>set (dec_nat n). 48 \<le> code c \<and> code c \<le> 57)"
  by (induction n rule: dec_nat.induct) (subst (1 2) dec_nat.simps, auto)

lemma digits_value_append: "digits_value acc (s @ [c]) = 10 * digits_value acc s + (code c - 48)"
  by (induction s arbitrary: acc) auto

lemma digits_dec_nat: "digits_value 0 (dec_nat n) = n"
proof (induction n rule: dec_nat.induct)
  case (1 n)
  show ?case
  proof (cases "n < 10")
    case True
    then show ?thesis by (subst dec_nat.simps) simp
  next
    case False
    then show ?thesis using 1 by (subst dec_nat.simps) (simp add: digits_value_append)
  qed
qed

lemma dec_nat_length: "\<lbrakk>n < 10 ^ k; 0 < k\<rbrakk> \<Longrightarrow> length (dec_nat n) \<le> k"
proof (induction k arbitrary: n)
  case (Suc k)
  show ?case
  proof (cases "n < 10")
    case True
    then show ?thesis by (subst dec_nat.simps) simp
  next
    case False
    then have "0 < k" using Suc(2) by (cases k) auto
    moreover have "n div 10 < 10 ^ k" using Suc(2) by (simp add: div_less_iff_less_mult mult.commute)
    ultimately show ?thesis using Suc(1) [of "n div 10"] False by (subst dec_nat.simps) simp
  qed
qed simp

lemma wr_same: "\<lbrakk>i < length b; b ! i = v\<rbrakk> \<Longrightarrow> wr b i v = Some b"
  by (auto simp: wr_def)

section \<open>The server of RFC 5802\<close>

record scram_server =
  srv_stored_key :: "8 word list"
  srv_server_key :: "8 word list"
  srv_salt :: "8 word list"
  srv_iter :: int
  srv_nonce :: string

definition server_first :: "scram_server \<Rightarrow> string \<Rightarrow> string" where
  "server_first srv cn = ''r='' @ cn @ srv_nonce srv @ '',s='' @ encoding (srv_salt srv) @ '',i='' @ dec (srv_iter srv)"

definition rfc_auth_message :: "scram_server \<Rightarrow> string \<Rightarrow> string \<Rightarrow> string" where
  "rfc_auth_message srv user cn =
     (''n='' @ user @ '',r='' @ cn) @ '','' @ server_first srv cn @ '','' @ ''c=biws,r='' @ cn @ srv_nonce srv"

text \<open>The octets that a base64 text stands for.\<close>

definition b64_octets :: "string \<Rightarrow> 8 word list option" where
  "b64_octets s = (case get_decoded_msg (Some s) of Some (Some (t, n)) \<Rightarrow> Some (take (nat n) t) | _ \<Rightarrow> None)"

definition server_accepts :: "scram_env \<Rightarrow> scram_server \<Rightarrow> string \<Rightarrow> string \<Rightarrow> string \<Rightarrow> bool" where
  "server_accepts env srv user cn final =
     (let evp = get_evp (ss_config env); w = ''c=biws,r='' @ cn @ srv_nonce srv @ '',p='' in
      prefix w final \<and>
      (case (b64_octets (drop (length w) final), hmac env evp (srv_stored_key srv) (octets (rfc_auth_message srv user cn))) of
         (Some proof, Some sig) \<Rightarrow> length proof = length sig \<and> sha env evp (map2 (XOR) proof sig) = srv_stored_key srv
       | _ \<Rightarrow> False))"

definition server_final :: "scram_env \<Rightarrow> scram_server \<Rightarrow> string \<Rightarrow> string \<Rightarrow> string" where
  "server_final env srv user cn =
     ''v='' @ encoding (the (hmac env (get_evp (ss_config env)) (srv_server_key srv) (octets (rfc_auth_message srv user cn))))"

text \<open>What the server stored when the user enrolled with a password.\<close>

definition enrolled :: "scram_env \<Rightarrow> string \<Rightarrow> scram_server \<Rightarrow> bool" where
  "enrolled env pw srv \<longleftrightarrow>
     (let evp = get_evp (ss_config env) in
      \<exists>salted ck. pbkdf2 env evp pw (srv_salt srv) (srv_iter srv) (nat (md_size env evp)) = Some salted \<and>
        hmac env evp salted client_key_str = Some ck \<and> srv_stored_key srv = sha env evp ck \<and>
        hmac env evp salted server_key_str = Some (srv_server_key srv))"

text \<open>The environment as OpenSSL documents it: every digest has the size of its function.\<close>

definition digests_ok :: "scram_env \<Rightarrow> bool" where
  "digests_ok env \<longleftrightarrow>
     (\<forall>e. md_size env e = (case e of EVP_sha1 \<Rightarrow> 20 | EVP_sha256 \<Rightarrow> 32 | EVP_sha512 \<Rightarrow> 64)) \<and>
     (\<forall>e k d. \<exists>m. hmac env e k d = Some m \<and> length m = nat (md_size env e)) \<and>
     (\<forall>e d. length (sha env e d) = nat (md_size env e)) \<and>
     (\<forall>i. random_index env i < length nonce_legal_index) \<and> (\<forall>m. net_ret env m \<ge> 0)"

definition client_ready :: "scram_env \<Rightarrow> string \<Rightarrow> string \<Rightarrow> bool" where
  "client_ready env user pw \<longleftrightarrow>
     Config (ss_config env) (Some ''sasl_username'') = user \<and> is_valid_username (Some user) \<and> nul \<notin> set user \<and>
     Config (ss_config env) (Some ''sasl_password'') = pw \<and> pw \<noteq> []"

definition server_ok :: "scram_server \<Rightarrow> bool" where
  "server_ok srv \<longleftrightarrow> nul \<notin> set (srv_nonce srv) \<and> CHR '','' \<notin> set (srv_nonce srv) \<and> length (srv_nonce srv) \<le> 500 \<and>
     srv_salt srv \<noteq> [] \<and> length (srv_salt srv) \<le> 500 \<and> 0 < srv_iter srv \<and> srv_iter srv \<le> INT_MAX"

text \<open>The proof that RFC 5802 asks of the client.\<close>

definition client_proof :: "scram_env \<Rightarrow> string \<Rightarrow> scram_server \<Rightarrow> string \<Rightarrow> string \<Rightarrow> 8 word list" where
  "client_proof env pw srv user cn =
     (let evp = get_evp (ss_config env);
          salted = the (pbkdf2 env evp pw (srv_salt srv) (srv_iter srv) (nat (md_size env evp)));
          ck = the (hmac env evp salted client_key_str)
      in map2 (XOR) ck (the (hmac env evp (sha env evp ck) (octets (rfc_auth_message srv user cn)))))"

section \<open>The client against this server\<close>

lemma b64_octets_ok: "\<lbrakk>x \<noteq> []; length x < 1000\<rbrakk> \<Longrightarrow> b64_octets (encoding x) = Some x"
  using get_decoded_ok [of x] by (simp add: b64_octets_def)

lemma b64_octets_Nil: "b64_octets [] = None"
  by (simp add: b64_octets_def get_decoded_msg_def strings_match_iff)

lemma timingsafe_short2:
  "\<lbrakk>length p < len \<or> length q < len; i \<le> length p; i \<le> length q\<rbrakk> \<Longrightarrow> timingsafe_loop p q len i r d = None"
proof (induction p q len i r d rule: timingsafe_loop.induct)
  case (1 p q len i r d)
  have i: "i < len" using 1(2-4) by linarith
  show ?case
  proof (cases "i < length p \<and> i < length q")
    case True
    then show ?thesis using 1 i by (subst timingsafe_loop.simps) (simp add: Let_def)
  next
    case False
    then have "rd p i = None \<or> rd q i = None" by (auto simp: rd_def)
    then show ?thesis using i
      by (subst timingsafe_loop.simps) (auto simp: Let_def split: Option.bind_splits)
  qed
qed

lemma legal_index_chars: "CHR '','' \<notin> set nonce_legal_index" "nul \<notin> set nonce_legal_index" "length nonce_legal_index = 93"
  by (simp_all add: nonce_legal_index_def nul_def)

lemma nonce_drawn:
  assumes "digests_ok env"
  shows "CHR '','' \<notin> set (nonce (generate_and_store_nonce env st))" "nul \<notin> set (nonce (generate_and_store_nonce env st))"
    "length (nonce (generate_and_store_nonce env st)) = 63"
proof -
  have "set (nonce (generate_and_store_nonce env st)) \<subseteq> set nonce_legal_index"
    using assms by (auto simp: generate_and_store_nonce_def digests_ok_def)
  then show "CHR '','' \<notin> set (nonce (generate_and_store_nonce env st))" "nul \<notin> set (nonce (generate_and_store_nonce env st))"
    using legal_index_chars by blast+
  show "length (nonce (generate_and_store_nonce env st)) = 63" by (simp add: generate_and_store_nonce_def)
qed

lemma encoding_Nil: "encoding x = [] \<longleftrightarrow> x = []"
  using length_encoding [of x] by (cases x) auto

lemma first_msg_sent:
  fixes st :: scram_state
  assumes "digests_ok env" "client_ready env user pw"
  defines "st' \<equiv> generate_and_store_nonce env st"
  shows "sasl_scram_sha_send_client_first_msg env st =
    Some (0, st'\<lparr>sent := sent st @ [''AUTHENTICATE '' @ encoding (octets (''n,,n='' @ user @ '',r='' @ nonce st'))]\<rparr>)"
proof -
  have "length user \<le> 100"
    using assms(2) xstrnlen_gt_iff [of user 100]
    by (auto simp: client_ready_def is_valid_username_def username_len_max_def split: if_splits)
  moreover have "nul \<notin> set user" using assms(2) by (simp add: client_ready_def)
  moreover have "nul \<notin> set ''n,,n=''" "nul \<notin> set '',r=''" by (simp_all add: nul_def)
  ultimately have "get_encoded_msg (''n,,n='' @ user @ '',r='' @ nonce st') =
      Some (encoding (octets (''n,,n='' @ user @ '',r='' @ nonce st')))"
    using nonce_drawn [OF assms(1), of st] unfolding st'_def by (intro get_encoded_ok) auto
  moreover have "net_ret env m \<ge> 0" for m using assms(1) by (simp add: digests_ok_def)
  moreover have "sent st' = sent st" by (simp add: st'_def generate_and_store_nonce_def)
  ultimately show ?thesis
    using assms(2) unfolding sasl_scram_sha_send_client_first_msg_def
    by (simp add: st'_def [symmetric] client_ready_def Let_def strings_match_iff encoding_Nil net_send_def not_less)
qed

lemma iter_text:
  assumes "server_ok srv"
  shows "is_numeric (Some (dec (srv_iter srv)))" "int_of_long (fst (strtol_digits (dec (srv_iter srv)))) = srv_iter srv"
    "nul \<notin> set (dec (srv_iter srv))" "CHR '','' \<notin> set (dec (srv_iter srv))"
    "length (dec (srv_iter srv)) < 20"
proof -
  let ?n = "nat (srv_iter srv)"
  have i: "0 < srv_iter srv" "srv_iter srv \<le> INT_MAX" using assms by (auto simp: server_ok_def)
  then have d: "dec (srv_iter srv) = dec_nat ?n" by (simp add: dec_def)
  have c: "dec_nat ?n \<noteq> []" "\<And>c. c \<in> set (dec_nat ?n) \<Longrightarrow> 48 \<le> code c \<and> code c \<le> 57"
    using dec_nat_digits by blast+
  then show "is_numeric (Some (dec (srv_iter srv)))"
    unfolding d by (simp add: is_numeric_def all_chars_iff sw_class_char isdigit_def)
  have "?n < 10 ^ 10" using i by (simp add: INT_MAX_def nat_less_iff)
  then show "length (dec (srv_iter srv)) < 20" unfolding d using dec_nat_length [of ?n 10] by simp
  have "sint (word_of_int (srv_iter srv) :: 32 word) = srv_iter srv"
    using i by (simp add: int_word_sint INT_MAX_def)
  then show "int_of_long (fst (strtol_digits (dec (srv_iter srv)))) = srv_iter srv"
    using i unfolding d by (simp add: int_of_long_def strtol_digits_def digits_dec_nat Let_def INT_MAX_def LONG_MAX_def)
  have "code nul = 0" "code (CHR '','') = 44" by simp (simp add: code_def)
  then show "nul \<notin> set (dec (srv_iter srv))" "CHR '','' \<notin> set (dec (srv_iter srv))"
    using c(2) [of nul] c(2) [of "CHR '',''"] unfolding d by auto
qed

lemma server_first_ok:
  assumes "server_ok srv" "nul \<notin> set cn" "length cn = 63"
  shows "nul \<notin> set (server_first srv cn)"
    "get_decoded_msg (Some (encoding (octets (server_first srv cn)))) =
      Some (Some (octets (server_first srv cn) @ [0], int (length (server_first srv cn))))"
proof -
  let ?m = "server_first srv cn"
  note S = assms(1) [unfolded server_ok_def]
  show "nul \<notin> set ?m"
    using S assms(2) iter_text(3) [OF assms(1)] encoding_no_nul [of "srv_salt srv"] unfolding server_first_def
    by (auto simp: nul_def)
  have "length ?m < 3000" "octets ?m \<noteq> []"
    using S assms(3) iter_text(5) [OF assms(1)] by (auto simp: server_first_def length_encoding)
  then show "get_decoded_msg (Some (encoding (octets ?m))) = Some (Some (octets ?m @ [0], int (length ?m)))"
    using get_decoded_ok [of "octets ?m"] by simp
qed

lemma components_read:
  assumes "server_ok srv" "nonce st = cn" "nul \<notin> set cn" "CHR '','' \<notin> set cn" "length cn = 63"
  shows "get_sfm_components st (encoding (octets (server_first srv cn))) =
    Some (Inr (srv_salt srv @ [0], int (length (srv_salt srv)), srv_iter srv),
      st\<lparr>complete_nonce := Some (cn @ srv_nonce srv)\<rparr>)"
proof -
  let ?m = "server_first srv cn" and ?n = "cn @ srv_nonce srv" and ?s = "encoding (srv_salt srv)" and ?i = "dec (srv_iter srv)"
  note S = assms(1) [unfolded server_ok_def]
  note nulm = server_first_ok(1) [OF assms(1,3,5)] and d = server_first_ok(2) [OF assms(1,3,5)]
  have buf: "chars (octets ?m @ [0]) = ?m @ [nul]" by simp
  define a where "a = ?n @ '',s='' @ ?s @ '',i='' @ ?i"
  have m: "?m = ''r='' @ a" by (simp add: server_first_def a_def)
  have at: "str_at (?m @ [nul]) 0 = Some ?m" "str_at (?m @ [nul]) 2 = Some a"
    using str_at_text [OF nulm, of 0] str_at_text [OF nulm, of 2] unfolding m by simp_all
  have n: "strcspn a '','' = length ?n"
    using S assms(4) strcspn_here [of "CHR '',''" ?n] unfolding a_def by simp
  have w1: "wr (?m @ [nul]) (2 + length ?n) (CHR '','') = Some (?m @ [nul])"
    unfolding m a_def by (intro wr_same) (simp_all add: nth_append)
  have k: "strstr a '',s='' = Some (length ?n)"
    using S assms(4) strstr_here [of "CHR '',''" ?n "''s=''" "?s @ '',i='' @ ?i"] unfolding a_def by simp
  let ?p = "2 + length ?n + 3"
  define b where "b = ?s @ '',i='' @ ?i"
  have p: "str_at (?m @ [nul]) ?p = Some b"
    by (rule str_at_split [OF nulm, of "''r='' @ ?n @ '',s=''"]) (simp_all add: m a_def b_def)
  have n2: "strcspn b '','' = length ?s" using strcspn_here [OF encoding_no_comma] unfolding b_def by simp
  have w2: "wr (?m @ [nul]) (?p + length ?s) (CHR '','') = Some (?m @ [nul])"
    unfolding m a_def by (intro wr_same) (simp_all add: nth_append)
  have k2: "strstr b '',i='' = Some (length ?s)"
    using strstr_here [OF encoding_no_comma, of "srv_salt srv" "''i=''" ?i] unfolding b_def by simp
  have i: "str_at (?m @ [nul]) (?p + length ?s + 3) = Some ?i"
    by (rule str_at_split [OF nulm, of "''r='' @ ?n @ '',s='' @ ?s @ '',i=''"]) (simp_all add: m a_def)
  have salt: "get_decoded_msg (Some (take (length ?s) b)) = Some (Some (srv_salt srv @ [0], int (length (srv_salt srv))))"
    using get_decoded_ok [of "srv_salt srv"] S unfolding b_def by simp
  have "sfm_iter (?m @ [nul]) ?p (srv_salt srv @ [0]) (int (length (srv_salt srv))) =
      Some (Inr (srv_salt srv @ [0], int (length (srv_salt srv)), srv_iter srv))"
    using p k2 i iter_text(1,2) [OF assms(1)] by (simp add: sfm_iter_def)
  then have "sfm_salt (?m @ [nul]) = Some (Inr (srv_salt srv @ [0], int (length (srv_salt srv)), srv_iter srv))"
    using at(2) k p n2 w2 salt by (simp add: sfm_salt_def Let_def)
  moreover have "strncmp_eq ?m ''r='' 2" "strncmp_eq a (nonce st) (length (nonce st))" "take (length ?n) a = ?n"
    using assms(2) by (simp_all add: strncmp_eq_def m) (simp_all add: a_def)
  ultimately show ?thesis
    unfolding get_sfm_components_def
    using d at n w1 by (simp add: Let_def buf [simplified])
qed

text \<open>The server signature that the server sends and the client expects.\<close>

definition server_signature :: "scram_env \<Rightarrow> scram_server \<Rightarrow> string \<Rightarrow> string \<Rightarrow> 8 word list" where
  "server_signature env srv user cn =
     the (hmac env (get_evp (ss_config env)) (srv_server_key srv) (octets (rfc_auth_message srv user cn)))"

lemma get_encoded_cstr: "length s < 3000 \<Longrightarrow> get_encoded_msg s = Some (encoding (octets (cstr s)))"
proof -
  assume "length s < 3000"
  moreover have "nul \<notin> set (cstr s)" "length (cstr s) \<le> length s"
    by (auto simp: cstr_def length_takeWhile_le dest: set_takeWhileD)
  ultimately have "get_encoded_msg (cstr s) = Some (encoding (octets (cstr s)))" by (intro get_encoded_ok) auto
  moreover have i: "cstr (cstr s) = cstr s" by (simp add: cstr_def takeWhile_idem)
  have "get_encoded_msg (cstr s) = get_encoded_msg s" unfolding get_encoded_msg_def i ..
  ultimately show ?thesis by simp
qed

lemma cstr_octets: "octets (cstr (chars w @ [nul])) = takeWhile (\<lambda>x. x \<noteq> 0) w"
proof (induction w)
  case (Cons x w)
  have "char_of (unat x) = nul \<longleftrightarrow> x = 0" using nul_in_chars [of "[x]"] by (auto simp: eq_commute [of nul] eq_commute [of 0])
  then show ?case using Cons octets_chars [of "[x]"] by (cases "x = 0") simp_all
qed simp

lemma sizes: "digests_ok env \<Longrightarrow> nat (md_size env (get_evp cfg)) = get_stored_key cfg"
  by (auto simp: digests_ok_def get_evp_def get_stored_key_def Let_def)

lemma stored_le: "get_stored_key cfg \<le> 64"
  by (simp add: get_stored_key_def Let_def)

lemma digest_some:
  assumes "digests_ok env"
  obtains md where "hmac env (get_evp (ss_config env)) key data = Some md" "get_digest env key data = Some (Some md)"
    "length md = get_stored_key (ss_config env)"
proof -
  obtain md where "hmac env (get_evp (ss_config env)) key data = Some md"
    "length md = nat (md_size env (get_evp (ss_config env)))"
    using assms unfolding digests_ok_def by blast
  then show ?thesis
    using that [of md] sizes [OF assms] stored_le [of "ss_config env"] by (simp add: get_digest_def EVP_MAX_MD_SIZE_def)
qed

lemma handle_first:
  assumes "digests_ok env" "client_ready env user pw" "enrolled env pw srv" "server_ok srv"
    and "nonce st = cn" "nul \<notin> set cn" "CHR '','' \<notin> set cn" "length cn = 63"
  defines "n \<equiv> cn @ srv_nonce srv" and "proof \<equiv> client_proof env pw srv user cn" and "sig \<equiv> server_signature env srv user cn"
  shows "sasl_scram_sha_handle_serv_first_msg env (encoding (octets (server_first srv cn))) st =
      Some (0, st\<lparr>complete_nonce := Some n, signature_expected := sig @ drop (length sig) (signature_expected st),
        signature_expected_len := length sig,
        sent := sent st @ [''AUTHENTICATE '' @ encoding (octets (''c=biws,r='' @ n @ '',p='' @
          encoding (takeWhile (\<lambda>x. x \<noteq> 0) proof)))]\<rparr>)"
    and "length sig = get_stored_key (ss_config env)" "length proof = get_stored_key (ss_config env)"
proof -
  let ?e = "get_evp (ss_config env)" and ?k = "get_stored_key (ss_config env)" and ?m = "server_first srv cn"
  let ?auth = "octets (rfc_auth_message srv user cn)"
  define st1 where "st1 = st\<lparr>complete_nonce := Some n\<rparr>"
  have 1: "get_sfm_components st (encoding (octets ?m)) = Some (Inr (srv_salt srv @ [0], int (length (srv_salt srv)), srv_iter srv), st1)"
    unfolding st1_def n_def using components_read [OF assms(4,5,6,7,8)] .
  obtain salted ck where en: "pbkdf2 env ?e pw (srv_salt srv) (srv_iter srv) ?k = Some salted"
    "hmac env ?e salted client_key_str = Some ck" "srv_stored_key srv = sha env ?e ck"
    "hmac env ?e salted server_key_str = Some (srv_server_key srv)"
    using assms(3) sizes [OF assms(1)] by (auto simp: enrolled_def Let_def)
  have "md_size env ?e \<ge> 0" using assms(1) by (simp add: digests_ok_def split: evp_md.splits)
  then have 2: "get_salted_password env (srv_salt srv @ [0]) (int (length (srv_salt srv))) (srv_iter srv) = Some salted"
    using en(1) assms(2) sizes [OF assms(1)]
    by (simp add: get_salted_password_def client_ready_def config_get_normalized_sasl_password_def strings_match_iff Let_def)
  have 3: "get_digest env salted client_key_str = Some (Some ck)" "length ck = ?k"
    "get_digest env salted server_key_str = Some (Some (srv_server_key srv))"
    using digest_some [OF assms(1), of salted client_key_str] digest_some [OF assms(1), of salted server_key_str] en(2,4)
    by (metis option.inject)+
  have "length (sha env ?e ck) = ?k" using assms(1) sizes [OF assms(1)] unfolding digests_ok_def by metis
  then have 4: "hash_client_key env ck = Some (srv_stored_key srv)" using en(3) by (simp add: hash_client_key_def Let_def)
  obtain cs where cs: "hmac env ?e (srv_stored_key srv) ?auth = Some cs" "get_digest env (srv_stored_key srv) ?auth = Some (Some cs)"
    "length cs = ?k" using digest_some [OF assms(1)] by blast
  obtain ss where ss: "hmac env ?e (srv_server_key srv) ?auth = Some ss" "get_digest env (srv_server_key srv) ?auth = Some (Some ss)"
    "length ss = ?k" using digest_some [OF assms(1)] by blast
  have sig: "sig = ss" using ss(1) by (simp add: sig_def server_signature_def)
  have "proof = map2 (XOR) ck cs"
    using en cs(1) sizes [OF assms(1)] by (simp add: proof_def client_proof_def Let_def)
  have 5: "get_auth_msg env st1 (encoding (octets ?m)) = Some (rfc_auth_message srv user cn)"
    using server_first_ok [OF assms(4,6,8)] assms(2,5) cstr_text [of "server_first srv cn" "[]"]
    by (simp add: get_auth_msg_def get_client_first_msg_bare_def get_client_final_msg_wo_proof_def rfc_auth_message_def
        client_ready_def st1_def n_def)
  define st2 where "st2 = st1\<lparr>signature_expected := ss @ drop (length ss) (signature_expected st1),
      signature_expected_len := length ss\<rparr>"
  have k: "?k \<le> 64" by (rule stored_le)
  have lp: "length (map2 (XOR) ck cs) = ?k" using 3(2) cs(3) by simp
  let ?p = "encoding (takeWhile (\<lambda>x. x \<noteq> 0) (map2 (XOR) ck cs))"
  have 6: "get_encoded_msg (chars (map2 (XOR) (take ?k ck) (take ?k cs)) @ [nul]) = Some ?p"
    using get_encoded_cstr [of "chars (map2 (XOR) ck cs) @ [nul]"] 3(2) cs(3) k cstr_octets [of "map2 (XOR) ck cs"] by simp
  have "length (takeWhile (\<lambda>x. x \<noteq> 0) (map2 (XOR) ck cs)) \<le> 64"
    using length_takeWhile_le [of "\<lambda>x. x \<noteq> 0" "map2 (XOR) ck cs"] lp k by linarith
  then have "length ?p \<le> 88" by (simp add: length_encoding)
  moreover have "nul \<notin> set ''c=biws,r=''" "nul \<notin> set '',p=''" by (simp_all add: nul_def)
  ultimately have 7: "get_encoded_msg (''c=biws,r='' @ n @ '',p='' @ ?p) = Some (encoding (octets (''c=biws,r='' @ n @ '',p='' @ ?p)))"
    using assms(4,6,8) encoding_no_nul unfolding n_def server_ok_def by (intro get_encoded_ok) auto
  have "net_ret env m \<ge> 0" for m using assms(1) by (simp add: digests_ok_def)
  then have "sasl_scram_sha_send_client_final_msg env ?p st2 =
      Some (0, st2\<lparr>sent := sent st2 @ [''AUTHENTICATE '' @ encoding (octets (''c=biws,r='' @ n @ '',p='' @ ?p))]\<rparr>)"
    using 7 by (simp add: sasl_scram_sha_send_client_final_msg_def st2_def st1_def net_send_def Let_def not_less)
  then have 8: "send_proof env ck cs st2 =
      Some (0, st2\<lparr>sent := sent st2 @ [''AUTHENTICATE '' @ encoding (octets (''c=biws,r='' @ n @ '',p='' @ ?p))]\<rparr>)"
    using 6 3(2) cs(3) k by (simp add: send_proof_def Let_def EVP_MAX_MD_SIZE_def)
  show "length sig = ?k" "length proof = ?k" using sig ss(3) lp \<open>proof = map2 (XOR) ck cs\<close> by simp_all
  have "sasl_scram_sha_handle_serv_first_msg env (encoding (octets ?m)) st = send_proof env ck cs st2"
    unfolding sasl_scram_sha_handle_serv_first_msg_def using 1 2 3 4 5 cs(2) ss(2) by (simp add: st2_def)
  then show "sasl_scram_sha_handle_serv_first_msg env (encoding (octets ?m)) st =
      Some (0, st\<lparr>complete_nonce := Some n, signature_expected := sig @ drop (length sig) (signature_expected st),
        signature_expected_len := length sig,
        sent := sent st @ [''AUTHENTICATE '' @ encoding (octets (''c=biws,r='' @ n @ '',p='' @
          encoding (takeWhile (\<lambda>x. x \<noteq> 0) proof)))]\<rparr>)"
    unfolding 8 \<open>proof = map2 (XOR) ck cs\<close> sig by (simp add: st2_def st1_def)
qed

lemma proof_parts:
  assumes "digests_ok env" "enrolled env pw srv"
  obtains ck cs where "client_proof env pw srv user cn = map2 (XOR) ck cs"
    "length ck = get_stored_key (ss_config env)" "length cs = get_stored_key (ss_config env)"
    "hmac env (get_evp (ss_config env)) (srv_stored_key srv) (octets (rfc_auth_message srv user cn)) = Some cs"
    "srv_stored_key srv = sha env (get_evp (ss_config env)) ck"
proof -
  let ?e = "get_evp (ss_config env)"
  obtain salted ck where en: "pbkdf2 env ?e pw (srv_salt srv) (srv_iter srv) (nat (md_size env ?e)) = Some salted"
    "hmac env ?e salted client_key_str = Some ck" "srv_stored_key srv = sha env ?e ck"
    using assms(2) by (auto simp: enrolled_def Let_def)
  obtain cs where cs: "hmac env ?e (srv_stored_key srv) (octets (rfc_auth_message srv user cn)) = Some cs"
    "length cs = get_stored_key (ss_config env)"
    using digest_some [OF assms(1)] by blast
  have "length ck = get_stored_key (ss_config env)"
    using digest_some [OF assms(1), of salted client_key_str] en(2) by (metis option.inject)
  then show ?thesis using that [of ck cs] en cs by (simp add: client_proof_def Let_def)
qed

lemma final_read:
  assumes "s \<noteq> []" "length s < 1000" "signature_expected_len st \<le> length (signature_expected st)"
  shows "sasl_scram_sha_handle_serv_final_msg (encoding (octets (''v='' @ encoding s))) st =
    (if signature_expected_len st \<le> length s + 1
     then Some (if take (signature_expected_len st) (s @ [0]) = take (signature_expected_len st) (signature_expected st)
                then 0 else -1, st\<lparr>complete_nonce := None\<rparr>)
     else None)"
proof -
  let ?m = "''v='' @ encoding s" and ?n = "signature_expected_len st"
  have "length (octets ?m) < 2000000000" using assms(2) by (simp add: length_encoding)
  then have d: "get_decoded_msg (Some (encoding (octets ?m))) = Some (Some (octets ?m @ [0], int (length ?m)))"
    using get_decoded_ok [of "octets ?m"] by simp
  have nulm: "nul \<notin> set ?m" using encoding_no_nul by (auto simp: nul_def)
  have buf: "chars (octets ?m @ [0]) = ?m @ [nul]" unfolding chars_simps(3) chars_octets by simp
  have at: "str_at (chars (octets ?m @ [0])) 0 = Some ?m" "str_at (chars (octets ?m @ [0])) 2 = Some (encoding s)"
    using str_at_text [OF nulm, of 0] str_at_text [OF nulm, of 2] unfolding buf by simp_all
  have v: "strncmp_eq ?m ''v='' 2" by (simp add: strncmp_eq_def)
  have s: "get_decoded_msg (Some (encoding s)) = Some (Some (s @ [0], int (length s)))"
    using assms(1,2) by (intro get_decoded_ok) auto
  have "sasl_scram_sha_handle_serv_final_msg (encoding (octets ?m)) st =
      do { r \<leftarrow> timingsafe_memcmp (s @ [0]) (signature_expected st) ?n;
           Some (if r = 0 then 0 else -1, st\<lparr>complete_nonce := None\<rparr>) }"
    unfolding sasl_scram_sha_handle_serv_final_msg_def d using at v s by simp
  also have "\<dots> = (if ?n \<le> length s + 1
     then Some (if take ?n (s @ [0]) = take ?n (signature_expected st) then 0 else -1, st\<lparr>complete_nonce := None\<rparr>)
     else None)"
  proof (cases "?n \<le> length s + 1")
    case True
    then show ?thesis
      using timingsafe_memcmp_eq [of ?n "s @ [0]" "signature_expected st"] assms(3)
        octet_order_0 [of "take ?n (s @ [0])" "take ?n (signature_expected st)"] by simp
  next
    case False
    then show ?thesis using timingsafe_short2 [of "s @ [0]" ?n "signature_expected st" 0] by (simp add: timingsafe_memcmp_def)
  qed
  finally show ?thesis .
qed

lemma xor_back: "length ck = length cs \<Longrightarrow> map2 (XOR) (map2 (XOR) ck cs) cs = (ck :: 8 word list)"
  by (induction ck cs rule: list_induct2) (simp_all add: xor.assoc)

text \<open>
  Property C31. Logging in with SCRAM succeeds exactly if the proof contains no zero octet.  Against a
  server as RFC 5802 describes it that knows the password, and a cryptographic library whose digests
  have their documented sizes: the client sends its first message; to the server's first message it
  answers with a final message which the server accepts if and only if no octet of the proof is zero;
  and of all signatures of the right length it then accepts the one of this server and no other.
\<close>

theorem scram_login:
  assumes "digests_ok env" "client_ready env user pw" "enrolled env pw srv" "server_ok srv"
    and "length (signature_expected st) = EVP_MAX_MD_SIZE" "cn = nonce (generate_and_store_nonce env st)"
  shows "\<exists>st1 st2 final.
      sasl_scram_sha_send_client_first_msg env st = Some (0, st1) \<and>
      sent st1 = sent st @ [''AUTHENTICATE '' @ encoding (octets (''n,,n='' @ user @ '',r='' @ cn))] \<and>
      sasl_scram_sha_handle_serv_first_msg env (encoding (octets (server_first srv cn))) st1 = Some (0, st2) \<and>
      sent st2 = sent st1 @ [''AUTHENTICATE '' @ encoding (octets final)] \<and>
      (server_accepts env srv user cn final \<longleftrightarrow> 0 \<notin> set (client_proof env pw srv user cn)) \<and>
      (\<forall>sig. length sig = length (server_signature env srv user cn) \<longrightarrow>
         sasl_scram_sha_handle_serv_final_msg (encoding (octets (''v='' @ encoding sig))) st2 =
           Some (if sig = server_signature env srv user cn then 0 else -1, st2\<lparr>complete_nonce := None\<rparr>))"
proof -
  let ?p = "client_proof env pw srv user cn" and ?k = "get_stored_key (ss_config env)" and ?s = "server_signature env srv user cn"
  let ?e = "get_evp (ss_config env)" and ?n = "cn @ srv_nonce srv" and ?q = "takeWhile (\<lambda>x. x \<noteq> 0) ?p"
  define st1 where "st1 = (generate_and_store_nonce env st)\<lparr>sent := sent st @ [''AUTHENTICATE '' @ encoding (octets (''n,,n='' @ user @ '',r='' @ cn))]\<rparr>"
  define final where "final = ''c=biws,r='' @ ?n @ '',p='' @ encoding ?q"
  define st2 where "st2 = st1\<lparr>complete_nonce := Some ?n, signature_expected := ?s @ drop (length ?s) (signature_expected st1),
      signature_expected_len := length ?s, sent := sent st1 @ [''AUTHENTICATE '' @ encoding (octets final)]\<rparr>"
  note n = nonce_drawn [OF assms(1), of st, folded assms(6)]
  have 1: "sasl_scram_sha_send_client_first_msg env st = Some (0, st1)"
    using first_msg_sent [OF assms(1,2)] by (simp add: st1_def assms(6))
  have "nonce st1 = cn" by (simp add: st1_def assms(6))
  note h = handle_first [OF assms(1-4) this n(2,1,3)]
  have 2: "sasl_scram_sha_handle_serv_first_msg env (encoding (octets (server_first srv cn))) st1 = Some (0, st2)"
    using h(1) by (simp add: st2_def final_def)
  have k: "0 < ?k" "?k \<le> 64" by (simp_all add: get_stored_key_def Let_def)
  have 3: "sasl_scram_sha_handle_serv_final_msg (encoding (octets (''v='' @ encoding sig))) st2 =
      Some (if sig = ?s then 0 else -1, st2\<lparr>complete_nonce := None\<rparr>)" if l: "length sig = length ?s" for sig
  proof -
    have e: "signature_expected_len st2 = length ?s" "take (length ?s) (signature_expected st2) = ?s"
      "length ?s \<le> length (signature_expected st2)"
      by (simp_all add: st2_def)
    have "sig \<noteq> []" "length sig < 1000" "take (length ?s) (sig @ [0]) = sig" "length ?s \<le> length sig + 1"
      using l h(2) k by auto
    then show ?thesis using final_read [of sig st2] e by simp
  qed
  obtain ck cs where c: "?p = map2 (XOR) ck cs" "length ck = ?k" "length cs = ?k"
    "hmac env ?e (srv_stored_key srv) (octets (rfc_auth_message srv user cn)) = Some cs" "srv_stored_key srv = sha env ?e ck"
    using proof_parts [OF assms(1,3)] by metis
  have "server_accepts env srv user cn final \<longleftrightarrow> 0 \<notin> set ?p"
  proof (cases "0 \<in> set ?p")
    case True
    then have "length ?q < ?k" using h(3) length_takeWhile_less_iff [of "\<lambda>x. x \<noteq> 0" ?p] by auto
    then have "\<not> server_accepts env srv user cn final"
      using c(3,4) k(2) b64_octets_ok [of ?q] by (cases "?q = []") (auto simp: server_accepts_def final_def Let_def b64_octets_Nil)
    then show ?thesis using True by simp
  next
    case False
    then have q: "?q = ?p" by (metis (mono_tags, lifting) takeWhile_eq_all_conv)
    have "?p \<noteq> []" "length ?p < 1000" using h(3) k by auto
    then have "server_accepts env srv user cn final"
      using c xor_back [of ck cs] unfolding server_accepts_def final_def q
      by (simp add: Let_def b64_octets_ok)
    then show ?thesis using False by simp
  qed
  moreover have "sent st1 = sent st @ [''AUTHENTICATE '' @ encoding (octets (''n,,n='' @ user @ '',r='' @ cn))]"
    "sent st2 = sent st1 @ [''AUTHENTICATE '' @ encoding (octets final)]"
    by (simp add: st1_def, simp add: st2_def)
  ultimately show ?thesis using 1 2 3 by blast
qed

text \<open>
  Property C36. What a hostile server can do.  A first message that does not begin with the nonce of the
  client ends the authentication before anything is computed or sent.  A first message that ends
  behind the nonce makes the client overwrite the NUL of its buffer and search beyond it, and a
  signature that is shorter than the expected one by more than an octet is compared beyond its buffer.
\<close>

theorem scram_hostile_server:
  assumes "nul \<notin> set m" "m \<noteq> []" "length m < 1000" "s \<noteq> []" "length s < 1000"
    and "signature_expected_len st \<le> length (signature_expected st)"
  shows "(\<not> prefix (''r='' @ nonce st) m \<longrightarrow> sasl_scram_sha_handle_serv_first_msg env (encoding (octets m)) st = Some (-1, st)) \<and>
    (prefix (''r='' @ nonce st) m \<and> CHR '','' \<notin> set m \<longrightarrow>
       sasl_scram_sha_handle_serv_first_msg env (encoding (octets m)) st = None) \<and>
    (length s + 1 < signature_expected_len st \<longrightarrow>
       sasl_scram_sha_handle_serv_final_msg (encoding (octets (''v='' @ encoding s))) st = None)"
proof (intro conjI impI)
  have d: "get_decoded_msg (Some (encoding (octets m))) = Some (Some (octets m @ [0], int (length m)))"
    using get_decoded_ok [of "octets m"] assms(2,3) by (simp add: octets_def)
  have buf: "chars (octets m @ [0]) = m @ [nul]" by simp
  have at0: "str_at (m @ [nul]) 0 = Some m" using str_at_text [OF assms(1), of 0] by simp
  have at2: "str_at (m @ [nul]) 2 = Some (drop 2 m)" if "strncmp_eq m ''r='' 2"
  proof -
    have "length (take 2 m) = 2" using that by (simp add: strncmp_eq_def)
    then show ?thesis using str_at_text [OF assms(1), of 2] by simp
  qed
  have split: "prefix (''r='' @ nonce st) m \<longleftrightarrow>
      strncmp_eq m ''r='' 2 \<and> strncmp_eq (drop 2 m) (nonce st) (length (nonce st))"
    by (auto simp: strncmp_eq_def prefix_def append_eq_conv_conj) (metis append_take_drop_id append_Cons append_Nil)
  {
    assume "\<not> prefix (''r='' @ nonce st) m"
    then show "sasl_scram_sha_handle_serv_first_msg env (encoding (octets m)) st = Some (-1, st)"
      using at0 at2 unfolding split sasl_scram_sha_handle_serv_first_msg_def get_sfm_components_def d
      by (auto simp: Let_def buf [simplified])
  next
    assume a: "prefix (''r='' @ nonce st) m \<and> CHR '','' \<notin> set m"
    then obtain u where u: "m = CHR ''r'' # CHR ''='' # u" by (auto simp: prefix_def)
    have "CHR '','' \<notin> set u" using a u by simp
    then have n: "strcspn u '','' = length u" by (induction u) (auto simp: strcspn_def)
    have "wr (m @ [nul]) (2 + length u) (CHR '','') = Some (m @ '','')"
      unfolding u by (simp add: wr_def list_update_append)
    moreover have "str_at (m @ '','') 2 = None"
    proof -
      have "nul \<notin> set (m @ '','')" using assms(1) by (simp add: nul_def)
      then show ?thesis unfolding str_at_def by (meson in_set_dropD)
    qed
    moreover have "strncmp_eq m ''r='' 2" "strncmp_eq u (nonce st) (length (nonce st))" "drop 2 m = u"
      using a split u by simp_all
    ultimately have "get_sfm_components st (encoding (octets m)) = None"
      unfolding get_sfm_components_def d using at0 at2 n by (simp add: Let_def buf [simplified] sfm_salt_def)
    then show "sasl_scram_sha_handle_serv_first_msg env (encoding (octets m)) st = None"
      by (simp add: sasl_scram_sha_handle_serv_first_msg_def)
  next
    assume "length s + 1 < signature_expected_len st"
    then show "sasl_scram_sha_handle_serv_final_msg (encoding (octets (''v='' @ encoding s))) st = None"
      using final_read [OF assms(4,5,6)] by simp
  }
qed

section \<open>An example\<close>

definition example_sasl_config :: config where
  "example_sasl_config =
     Config.hInstall ''sasl'' (Some ''on'') (Config.hInstall ''sasl_mechanism'' (Some ''SCRAM-SHA-256'')
       (Config.hInstall ''sasl_username'' (Some ''user'') (Config.hInstall ''sasl_password'' (Some ''?pencil'') config_init)))"

lemma example_sasl_config:
  "cfg_ok example_sasl_config \<and> cfg_lookup example_sasl_config = [''sasl_password'' \<mapsto> ''?pencil'', ''sasl_username'' \<mapsto> ''user'',
     ''sasl_mechanism'' \<mapsto> ''SCRAM-SHA-256'', ''sasl'' \<mapsto> ''on'']"
proof -
  define a where "a = Config.hInstall ''sasl_password'' (Some ''?pencil'') config_init"
  have a: "cfg_ok a" "cfg_lookup a = [''sasl_password'' \<mapsto> ''?pencil'']"
    using hInstall_ok [OF config_init_ok] by (simp_all add: a_def fun_eq_iff config_init_ok)
  define b where "b = Config.hInstall ''sasl_username'' (Some ''user'') a"
  have b: "cfg_ok b" "cfg_lookup b = (cfg_lookup a)(''sasl_username'' \<mapsto> ''user'')"
    using hInstall_ok [OF a(1), of "''sasl_username''" "''user''"] a(2) by (simp_all add: b_def)
  define c where "c = Config.hInstall ''sasl_mechanism'' (Some ''SCRAM-SHA-256'') b"
  have c: "cfg_ok c" "cfg_lookup c = (cfg_lookup b)(''sasl_mechanism'' \<mapsto> ''SCRAM-SHA-256'')"
    using hInstall_ok [OF b(1), of "''sasl_mechanism''" "''SCRAM-SHA-256''"] a(2) b(2) by (simp_all add: c_def)
  have "cfg_ok example_sasl_config \<and> cfg_lookup example_sasl_config = (cfg_lookup c)(''sasl'' \<mapsto> ''on'')"
    using hInstall_ok [OF c(1), of "''sasl''" "''on''"] a(2) b(2) c(2)
    by (simp add: example_sasl_config_def a_def b_def c_def)
  then show ?thesis using a(2) b(2) c(2) by simp
qed

lemmas example_sasl_ok = example_sasl_config [THEN conjunct1]
  and example_sasl_lookup = example_sasl_config [THEN conjunct2]

definition example_scram_env :: scram_env where
  "example_scram_env =
     \<lparr>ss_config = example_sasl_config,
      md_size = (\<lambda>e. case e of EVP_sha1 \<Rightarrow> 20 | EVP_sha256 \<Rightarrow> 32 | EVP_sha512 \<Rightarrow> 64),
      hmac = (\<lambda>e k d. Some (replicate (case e of EVP_sha1 \<Rightarrow> 20 | EVP_sha256 \<Rightarrow> 32 | EVP_sha512 \<Rightarrow> 64)
        (if d = client_key_str then 1 else if d = server_key_str then 4 else 2))),
      sha = (\<lambda>e d. let n = (case e of EVP_sha1 \<Rightarrow> 20 | EVP_sha256 \<Rightarrow> 32 | EVP_sha512 \<Rightarrow> 64) in take n (d @ replicate n 0)),
      pbkdf2 = (\<lambda>e p s i n. Some (replicate n 9)),
      random_index = (\<lambda>i. i mod 93), net_ret = (\<lambda>m. 1)\<rparr>"

definition example_server :: scram_server where
  "example_server = \<lparr>srv_stored_key = replicate 32 1, srv_server_key = replicate 32 4, srv_salt = [7, 8], srv_iter = 4096,
     srv_nonce = ''xyz''\<rparr>"

definition scram_start :: scram_state where
  "scram_start = \<lparr>got_first_msg = False, complete_nonce = None, nonce = [], signature_expected = replicate 64 0,
     signature_expected_len = 0, numbers_drawn = 0, sent = []\<rparr>"

lemma example_evp: "get_evp example_sasl_config = EVP_sha256"
  by (simp add: get_evp_def Config_lookup example_sasl_lookup strings_match_iff Let_def)

lemma example_scram:
  "digests_ok example_scram_env" "client_ready example_scram_env ''user'' ''pencil''"
  "enrolled example_scram_env ''pencil'' example_server" "server_ok example_server"
proof -
  show "digests_ok example_scram_env"
    by (auto simp: digests_ok_def example_scram_env_def legal_index_chars Let_def split: evp_md.splits)
  have "is_valid_username (Some ''user'')" by code_simp
  then show "client_ready example_scram_env ''user'' ''pencil''"
    by (simp add: client_ready_def example_scram_env_def Config_lookup example_sasl_lookup pass_sym_def
        g_unencrypted_pass_sym_def nul_def)
  have "client_key_str \<noteq> server_key_str" by (simp add: client_key_str_def server_key_str_def code_def)
  then show "enrolled example_scram_env ''pencil'' example_server"
    by (simp add: enrolled_def example_scram_env_def example_server_def example_evp Let_def)
  show "server_ok example_server" by (simp add: server_ok_def example_server_def INT_MAX_def nul_def)
qed

theorem scram_login_witness:
  "\<exists>st1 st2 cn final.
      sasl_scram_sha_send_client_first_msg example_scram_env scram_start = Some (0, st1) \<and>
      sasl_scram_sha_handle_serv_first_msg example_scram_env (encoding (octets (server_first example_server cn))) st1 = Some (0, st2) \<and>
      sent st2 = sent st1 @ [''AUTHENTICATE '' @ encoding (octets final)] \<and>
      server_accepts example_scram_env example_server ''user'' cn final"
proof -
  have "octets (rfc_auth_message example_server ''user'' cn) \<noteq> client_key_str"
    "octets (rfc_auth_message example_server ''user'' cn) \<noteq> server_key_str" for cn
    by (simp_all add: rfc_auth_message_def client_key_str_def server_key_str_def code_def)
  then have "0 \<notin> set (client_proof example_scram_env ''pencil'' example_server ''user'' cn)" for cn
    by (simp add: client_proof_def example_scram_env_def example_evp Let_def zip_replicate)
  then show ?thesis
    using scram_login [OF example_scram, of scram_start, OF _ refl] by (auto simp: scram_start_def EVP_MAX_MD_SIZE_def)
qed

theorem scram_hostile_server_witness:
  "sasl_scram_sha_handle_serv_first_msg example_scram_env (encoding (octets ''r=abcdef'')) (scram_start\<lparr>nonce := ''abc''\<rparr>) = None"
proof -
  have "nul \<notin> set ''r=abcdef''" by (simp add: nul_def)
  then show ?thesis
    using scram_hostile_server [of "''r=abcdef''" "[1]" "scram_start\<lparr>nonce := ''abc''\<rparr>" example_scram_env]
    by (simp add: scram_start_def)
qed

end
