(* ===== verification/Sasl_Laws.thy ===== *)
theory Sasl_Laws
  imports Sasl Scram_Laws
begin

text \<open>
  How capability negotiation ends, what the PLAIN mechanism sends, and that SCRAM authenticates the
  server as well.
\<close>

section \<open>Capability negotiation\<close>

lemma send_sent:
  assumes "net_ret (senv env) m \<ge> 0"
  shows "sent (scram (send env m st)) = sent (scram st) @ [m]"
  using assms by (simp add: send_def send_ret_def net_send_def Let_def)

lemma put_out_scram [simp]: "scram (put_out x st) = scram st"
  by (simp add: put_out_def)

text \<open>What the client asks for.\<close>

definition cap_enabled :: "sasl_env \<Rightarrow> (string \<times> bool \<times> string \<times> string) \<Rightarrow> bool" where
  "cap_enabled env e = (case e of (setting, dflt, _) \<Rightarrow> fst (config_bool (scfg env) setting dflt))"

definition sasl_wanted :: "sasl_env \<Rightarrow> bool" where
  "sasl_wanted env \<longleftrightarrow> sasl_is_enabled env \<and> \<not> (get_sasl_mechanism (scfg env) = ''PLAIN'' \<and> \<not> ssl_is_enabled env)"

definition wanted :: "sasl_env \<Rightarrow> string list" where
  "wanted env = map (\<lambda>(_, _, cap, _). cap) (filter (cap_enabled env) cap_table) @ (if sasl_wanted env then [''sasl''] else [])"

text \<open>The answer of the server to one request.\<close>

definition is_reply :: "string \<Rightarrow> bool \<Rightarrow> irc_message_compo \<Rightarrow> bool" where
  "is_reply cap ok compo \<longleftrightarrow> (\<exists>who. plain_word who \<and>
     params compo = Some (who @ CHR '' '' # (if ok then ''ACK'' else ''NAK'') @ CHR '' '' # CHR '':'' # cap))"

definition cap_word :: "string \<Rightarrow> bool" where
  "cap_word s \<longleftrightarrow> s \<noteq> [] \<and> (\<forall>c\<in>set s. \<not> isspace (code c))"

lemma trim_word: "cap_word s \<Longrightarrow> trim s = s"
proof -
  assume s: "cap_word s"
  then have "\<forall>c\<in>set (rev s). \<not> isspace (code c)" by (simp add: cap_word_def)
  then have "dropWhile (\<lambda>c. isspace (code c)) (rev s) = rev s" by (cases "rev s") auto
  then show ?thesis by (simp add: trim_eq)
qed

lemma event_cap_reply:
  assumes "is_reply cap ok compo" "cap_word cap"
  shows "\<exists>who. event_cap env compo st =
    (let (cont, st') = handle_ack_and_nak env compo who (if ok then ''ACK'' else ''NAK'') cap st
     in if cont then st'
        else put_out (Shown TYPE_SPEC1_WARN ''Ended IRCv3 Client Capability Negotiation'') (send env ''CAP END'' st'))"
proof -
  let ?v = "if ok then ''ACK'' else ''NAK''"
  obtain who where w: "plain_word who" "params compo = Some (who @ CHR '' '' # ?v @ CHR '' '' # CHR '':'' # cap)"
    using assms(1) by (auto simp: is_reply_def)
  have v: "plain_word ?v" by (simp add: plain_word_def)
  have c: "CHR 0x0A \<notin> set (CHR '':'' # cap)"
    using assms(2) by (auto simp: cap_word_def isspace_def code_def)
  have "tok nl_sep (who @ feed_char # r) = (Some who, r)" "tok nl_sep (?v @ feed_char # r) = (Some ?v, r)" for r
    using w(1) v tok_line(1) unfolding plain_word_def by blast+
  moreover have "tok nl_sep (CHR '':'' # cap) = (Some (CHR '':'' # cap), [])"
    using tok_line(2) [OF _ c] by simp
  moreover have "strFeed (params_of compo) 2 = (2, who @ feed_char # ?v @ feed_char # CHR '':'' # cap)"
    using fed_two [OF w(1) v] w(2) by (simp only: params_of_def option.case)
  ultimately have "event_cap env compo st =
    (let (cont, st') = handle_ack_and_nak env compo who ?v cap st
     in if cont then st'
        else put_out (Shown TYPE_SPEC1_WARN ''Ended IRCv3 Client Capability Negotiation'') (send env ''CAP END'' st'))"
    using trim_word [OF assms(2)] unfolding event_cap_def
    by (cases ok) (simp_all add: skip_colon_def strings_match_iff)
  then show ?thesis by blast
qed

lemma caps_ok:
  "list_all (\<lambda>k. case cap_table ! k of (_, _, cap, _) \<Rightarrow>
     map_option fst (ack_lookup cap 0 ack_names) = Some k \<and> cap_word cap) [0..<9]"
  by code_simp

lemma should_continue:
  assumes "k < 9"
  shows "shouldContinueCapabilityNegotiation env k \<longleftrightarrow>
    filter (cap_enabled env) (drop (Suc k) cap_table) \<noteq> [] \<or> sasl_is_enabled env"
proof -
  have "shouldContinueCapabilityNegotiation env k \<longleftrightarrow>
      (\<exists>b \<in> set (drop k (map (cap_enabled env) (tl cap_table) @ [sasl_is_enabled env])). b)"
    by (simp add: shouldContinueCapabilityNegotiation_def cap_table_def cap_enabled_def Let_def)
  also have "\<dots> \<longleftrightarrow> (\<exists>e \<in> set (drop (Suc k) cap_table). cap_enabled env e) \<or> sasl_is_enabled env"
  proof -
    have "length (tl cap_table) = 8" by (simp add: cap_table_def)
    then have "drop k (map (cap_enabled env) (tl cap_table) @ [sasl_is_enabled env]) =
        map (cap_enabled env) (drop (Suc k) cap_table) @ [sasl_is_enabled env]"
      using assms by (simp add: drop_map drop_Suc)
    then show ?thesis by (simp only:) auto
  qed
  also have "\<dots> \<longleftrightarrow> filter (cap_enabled env) (drop (Suc k) cap_table) \<noteq> [] \<or> sasl_is_enabled env"
    by (simp add: filter_empty_conv)
  finally show ?thesis .
qed

lemma cap_entries:
  assumes "k < 9" "cap_table ! k = (setting, dflt, cap, what)"
  shows "\<exists>feature. ack_lookup cap 0 ack_names = Some (k, feature)" "cap_word cap"
  using caps_ok assms by (auto simp: list_all_iff dest!: bspec [where x = k])

lemma reply_sent:
  assumes "k < 9" "cap_table ! k = (setting, dflt, cap, what)" "is_reply cap ok compo"
    and "net_ret (senv env) ''CAP END'' \<ge> 0"
  shows "sent (scram (event_cap env compo st)) =
    sent (scram st) @ (if filter (cap_enabled env) (drop (Suc k) cap_table) \<noteq> [] \<or> sasl_is_enabled env then [] else [''CAP END''])"
proof -
  obtain feature where f: "ack_lookup cap 0 ack_names = Some (k, feature)"
    using cap_entries(1) [OF assms(1,2)] by blast
  obtain who where e: "event_cap env compo st =
    (let (cont, st') = handle_ack_and_nak env compo who (if ok then ''ACK'' else ''NAK'') cap st
     in if cont then st'
        else put_out (Shown TYPE_SPEC1_WARN ''Ended IRCv3 Client Capability Negotiation'') (send env ''CAP END'' st'))"
    using event_cap_reply [OF assms(3) cap_entries(2) [OF assms(1,2)]] by blast
  show ?thesis
    unfolding e handle_ack_and_nak_def using should_continue [OF assms(1), of env] send_sent [OF assms(4)]
    by (simp add: f ACK_def NAK_def)
qed

text \<open>The answers to the requests, in their order.\<close>

abbreviation replies_to :: "string list \<Rightarrow> (bool \<times> irc_message_compo) list \<Rightarrow> bool" where
  "replies_to caps rs \<equiv> list_all2 (\<lambda>cap (ok, compo). is_reply cap ok compo) caps rs"

definition run_caps :: "sasl_env \<Rightarrow> (bool \<times> irc_message_compo) list \<Rightarrow> sasl_state \<Rightarrow> sasl_state" where
  "run_caps env rs st = fold (\<lambda>(ok, compo). event_cap env compo) rs st"

lemma run_caps_simps [simp]:
  "run_caps env [] st = st" "run_caps env (r # rs) st = run_caps env rs (event_cap env (snd r) st)"
  "run_caps env (rs @ [r]) st = event_cap env (snd r) (run_caps env rs st)"
  by (simp_all add: run_caps_def split_def)

definition cap_of :: "(string \<times> bool \<times> string \<times> string) \<Rightarrow> string" where
  "cap_of = (\<lambda>(_, _, cap, _). cap)"

definition sent_after :: "sasl_env \<Rightarrow> (bool \<times> irc_message_compo) list \<Rightarrow> sasl_state \<Rightarrow> string list" where
  "sent_after env rs st = sent (scram (run_caps env rs st))"

lemma sent_after_Nil [simp]: "sent_after env [] st = sent (scram st)"
  by (simp add: sent_after_def)

lemma table_replies:
  assumes net: "net_ret (senv env) ''CAP END'' \<ge> 0"
    and "replies_to (map cap_of (filter (cap_enabled env) (drop (9 - n) cap_table))) rs" "n \<le> 9"
  shows "sent_after env rs st = sent (scram st) @ (if rs = [] \<or> sasl_is_enabled env then [] else [''CAP END'']) \<and>
    (\<forall>i<length rs. sent_after env (take i rs) st = sent (scram st))"
  using assms(2,3)
proof (induction n arbitrary: rs st)
  case 0
  have "drop 9 cap_table = []" by (simp add: cap_table_def)
  then show ?case using 0 by simp
next
  case (Suc n)
  let ?k = "9 - Suc n"
  have k: "?k < 9" "Suc ?k = 9 - n" using Suc(3) by auto
  have len: "length cap_table = 9" by (simp add: cap_table_def)
  obtain setting dflt cap what where e: "cap_table ! ?k = (setting, dflt, cap, what)" by (metis prod_cases4)
  have d: "drop ?k cap_table = (setting, dflt, cap, what) # drop (9 - n) cap_table"
    using Cons_nth_drop_Suc [of ?k cap_table] k len e by simp
  show ?case
  proof (cases "cap_enabled env (setting, dflt, cap, what)")
    case False
    then show ?thesis using Suc(1) [of rs] Suc(2,3) unfolding d by simp
  next
    case True
    let ?later = "filter (cap_enabled env) (drop (9 - n) cap_table)"
    obtain r rs' where rs: "rs = r # rs'" "is_reply cap (fst r) (snd r)" "replies_to (map cap_of ?later) rs'"
      using Suc(2) True unfolding d by (auto simp: list_all2_Cons1 cap_of_def)
    have 1: "sent (scram (event_cap env (snd r) st)) =
        sent (scram st) @ (if ?later \<noteq> [] \<or> sasl_is_enabled env then [] else [''CAP END''])"
      using reply_sent [OF k(1) e rs(2) net] unfolding k(2) .
    have l: "?later = [] \<longleftrightarrow> rs' = []" using rs(3) by (auto dest: list_all2_lengthD)
    have IH: "sent_after env rs' st1 = sent (scram st1) @ (if rs' = [] \<or> sasl_is_enabled env then [] else [''CAP END'']) \<and>
        (\<forall>i<length rs'. sent_after env (take i rs') st1 = sent (scram st1))" for st1
      using Suc(1) [OF rs(3)] Suc(3) by simp
    have run: "sent_after env (r # xs) st = sent_after env xs (event_cap env (snd r) st)" for xs
      by (simp add: sent_after_def)
    have "sent_after env (take i rs) st = sent (scram st)" if "i < length rs" for i
    proof (cases i)
      case (Suc j)
      then have "rs' \<noteq> []" "j < length rs'" using that rs(1) by auto
      then show ?thesis using IH [of "event_cap env (snd r) st"] 1 l Suc rs(1) by (simp add: run)
    qed simp
    moreover have "sent_after env rs st = sent (scram st) @ (if rs = [] \<or> sasl_is_enabled env then [] else [''CAP END''])"
      using IH [of "event_cap env (snd r) st"] 1 l rs(1) by (auto simp: run)
    ultimately show ?thesis by blast
  qed
qed

lemma sasl_reply:
  assumes "is_reply ''sasl'' ok compo" "\<And>m. net_ret (senv env) m \<ge> 0"
  shows "sent (scram (event_cap env compo st)) = sent (scram st) @
    [if ok \<and> is_sasl_mechanism_supported (Some (get_sasl_mechanism (scfg env)))
     then ''AUTHENTICATE '' @ get_sasl_mechanism (scfg env) else ''CAP END'']"
proof -
  have c: "cap_word ''sasl''" by (simp add: cap_word_def isspace_def code_def)
  have l: "ack_lookup ''sasl'' 0 ack_names = None" by (simp add: ack_names_def strings_match_iff)
  obtain who where e: "event_cap env compo st =
    (let (cont, st') = handle_ack_and_nak env compo who (if ok then ''ACK'' else ''NAK'') ''sasl'' st
     in if cont then st'
        else put_out (Shown TYPE_SPEC1_WARN ''Ended IRCv3 Client Capability Negotiation'') (send env ''CAP END'' st'))"
    using event_cap_reply [OF assms(1) c] by blast
  show ?thesis
    unfolding e handle_ack_and_nak_def l
    by (cases ok) (simp_all add: strings_match_iff Let_def send_sent assms(2) ACK_def NAK_def)
qed

lemma sent_cap_request:
  "net_ret (senv env) (''CAP REQ :'' @ cap) \<ge> 0 \<Longrightarrow>
   sent (scram (cap_request env cap what st)) = sent (scram st) @ [''CAP REQ :'' @ cap]"
  by (simp add: cap_request_def send_ret_def net_send_def Let_def)

lemma requests_sent:
  assumes "\<And>m. net_ret (senv env) m \<ge> 0"
  shows "sent (scram (fold (\<lambda>(setting, default, cap, what) st.
      if fst (config_bool (scfg env) setting default) then cap_request env cap what st else st) es st)) =
    sent (scram st) @ map (\<lambda>e. ''CAP REQ :'' @ cap_of e) (filter (cap_enabled env) es)"
proof (induction es arbitrary: st)
  case (Cons e es)
  obtain setting dflt cap what where e: "e = (setting, dflt, cap, what)" by (cases e) auto
  show ?case using Cons sent_cap_request [OF assms, of cap]
    by (simp add: e cap_enabled_def cap_of_def)
qed simp

text \<open>
  Property C33. Capability negotiation is ended exactly when it should be, except when SASL is enabled but not
  requested.  The client requests the capabilities that are configured; when the server accepts or
  refuses each request in its order, nothing is sent before the last answer; at the last answer the
  client starts the authentication if SASL was accepted and ends the negotiation otherwise.  If
  SASL is enabled with PLAIN on a connection without TLS it is not requested, and the negotiation is
  never ended; nor is it if nothing was requested.
\<close>

theorem cap_negotiation:
  assumes net: "\<forall>m. net_ret (senv env) m \<ge> 0" and rs: "replies_to (wanted env) replies"
  shows "(g_ircv3_extensions env \<longrightarrow> (\<exists>reg. sent (scram (send_reg_cmds env ctx st)) =
      sent (scram st) @ ''CAP LS 302'' # reg @ map (\<lambda>cap. ''CAP REQ :'' @ cap) (wanted env))) \<and>
    (\<forall>i<length replies. sent_after env (take i replies) st = sent (scram st)) \<and>
    sent_after env replies st = sent (scram st) @
      (if replies = [] then []
       else if sasl_wanted env then
         [if fst (last replies) \<and> is_sasl_mechanism_supported (Some (get_sasl_mechanism (scfg env)))
          then ''AUTHENTICATE '' @ get_sasl_mechanism (scfg env) else ''CAP END'']
       else if sasl_is_enabled env then [] else [''CAP END''])"
proof (intro conjI impI)
  let ?caps = "map cap_of (filter (cap_enabled env) cap_table)"
  have w: "wanted env = ?caps @ (if sasl_wanted env then [''sasl''] else [])" by (simp add: wanted_def cap_of_def)
  have net': "net_ret (senv env) m \<ge> 0" for m using net by blast
  have table: "sent_after env rs st = sent (scram st) @ (if rs = [] \<or> sasl_is_enabled env then [] else [''CAP END'']) \<and>
      (\<forall>i<length rs. sent_after env (take i rs) st = sent (scram st))" if "replies_to ?caps rs" for rs
    using table_replies [OF net', of 9 rs st] that by simp
  {
    assume ircv3: "g_ircv3_extensions env"
    show "\<exists>reg. sent (scram (send_reg_cmds env ctx st)) =
      sent (scram st) @ ''CAP LS 302'' # reg @ map (\<lambda>cap. ''CAP REQ :'' @ cap) (wanted env)"
      using ircv3
      by (intro exI [of _ "(case nc_password ctx of Some p \<Rightarrow> [''PASS '' @ p] | None \<Rightarrow> []) @
          [''NICK '' @ nc_nickname ctx, ''USER '' @ nc_username ctx @ '' 8 * :'' @ nc_rl_name ctx]"])
        (auto simp: send_reg_cmds_def Let_def w sasl_wanted_def strings_match_iff sent_cap_request [OF net']
          requests_sent [OF net'] send_sent [OF net'] o_def split: option.splits)
  }
  show "\<forall>i<length replies. sent_after env (take i replies) st = sent (scram st)"
  proof (cases "sasl_wanted env")
    case False
    then show ?thesis using table [of replies] rs w by simp
  next
    case True
    then have enabled: "sasl_is_enabled env" by (simp add: sasl_wanted_def)
    obtain rs' r where r: "replies = rs' @ [r]" "replies_to ?caps rs'"
      using rs True unfolding w by (auto simp: list_all2_append1 list_all2_Cons1)
    show ?thesis
    proof (intro allI impI)
      fix i assume "i < length replies"
      then have "i < length rs' \<or> i = length rs'" using r(1) by auto
      then show "sent_after env (take i replies) st = sent (scram st)"
        using table [OF r(2)] enabled r(1) by auto
    qed
  qed
  show "sent_after env replies st = sent (scram st) @
      (if replies = [] then []
       else if sasl_wanted env then
         [if fst (last replies) \<and> is_sasl_mechanism_supported (Some (get_sasl_mechanism (scfg env)))
          then ''AUTHENTICATE '' @ get_sasl_mechanism (scfg env) else ''CAP END'']
       else if sasl_is_enabled env then [] else [''CAP END''])"
  proof (cases "sasl_wanted env")
    case False
    then show ?thesis using table [of replies] rs w by auto
  next
    case True
    then have enabled: "sasl_is_enabled env" by (simp add: sasl_wanted_def)
    obtain rs' r where r: "replies = rs' @ [r]" "replies_to ?caps rs'" "is_reply ''sasl'' (fst r) (snd r)"
      using rs True unfolding w by (auto simp: list_all2_append1 list_all2_Cons1)
    have "sent_after env rs' st = sent (scram st)" using table [OF r(2)] enabled by simp
    moreover have "sent_after env replies st = sent_after env rs' st @
      [if fst r \<and> is_sasl_mechanism_supported (Some (get_sasl_mechanism (scfg env)))
       then ''AUTHENTICATE '' @ get_sasl_mechanism (scfg env) else ''CAP END'']"
      using sasl_reply [OF r(3) net'] by (simp add: sent_after_def r(1))
    ultimately show ?thesis using True r(1) by simp
  qed
qed

section \<open>The PLAIN mechanism\<close>

text \<open>
  Property C35. The credentials of PLAIN are sent to whoever asks for them.  When a server sends
  \<^verbatim>\<open>AUTHENTICATE +\<close>, requested or not, the client answers with the user name and the
  password in the format of RFC 4616, in base64: also if SASL is disabled and if the connection does
  not use TLS, where the client refuses to request PLAIN.
\<close>

theorem plain_credentials:
  assumes "get_sasl_mechanism (scfg env) = ''PLAIN''" "params compo = Some ''+''"
    and "Config (scfg env) (Some ''sasl_username'') = user" "Config (scfg env) (Some ''sasl_password'') = pw"
    and "user \<noteq> []" "pw \<noteq> []" "2 * length user + length pw \<le> 745" "\<forall>m. net_ret (senv env) m \<ge> 0"
  shows "\<exists>m st'. event_authenticate env compo st = Some st' \<and>
    sent (scram st') = sent (scram st) @ [''AUTHENTICATE '' @ m] \<and>
    b64_octets m = Some (octets (user @ [nul] @ user @ [nul] @ pw))"
proof -
  let ?x = "octets (user @ [nul] @ user @ [nul] @ pw)"
  have n: "length ?x \<le> 747" using assms(7) by simp
  then have len: "length (encoding ?x) < 1000" "?x \<noteq> []" by (simp_all add: length_encoding)
  have "b64_encode ?x (replicate 1001 nul) 1000 =
      Some (int (length (encoding ?x)), encoding ?x @ nul # drop (Suc (length (encoding ?x))) (replicate 1001 nul))"
    using encode_from_ok [of "[]" ?x 1000 "replicate 1001 nul"] len
    unfolding b64_encode_def by (simp add: INT_MAX_def del: replicate.simps)
  then have b: "build_auth_message (scfg env) = Some (Some (encoding ?x))"
    unfolding build_auth_message_def AUTH_MSG_SIZE_def Let_def assms(3,4)
    using assms(5,6) cstr_text [OF encoding_no_nul] by (simp add: strings_match_iff del: replicate.simps octets_simps)
  have net: "net_ret (senv env) m \<ge> 0" for m using assms(8) by blast
  have "event_authenticate env compo st = Some (send env (''AUTHENTICATE '' @ encoding ?x) st)"
    unfolding event_authenticate_def assms(1) using assms(2) b
    by (simp add: params_of_def strings_match_iff)
  moreover have "b64_octets (encoding ?x) = Some ?x" using n len(2) by (intro b64_octets_ok) auto
  ultimately show ?thesis using send_sent [OF net] by blast
qed

section \<open>Mutual authentication\<close>

text \<open>
  A signature that only who knows the password (or what a server derives from it) can compute, over the nonce \<open>cn\<close>
  of the client and the first message of the server.
\<close>

definition server_signed :: "scram_env \<Rightarrow> string \<Rightarrow> string \<Rightarrow> 8 word list \<Rightarrow> bool" where
  "server_signed env cn first sig \<longleftrightarrow>
     (let evp = get_evp (ss_config env); user = Config (ss_config env) (Some ''sasl_username'') in
      \<exists>salt iter salted skey sn.
        pbkdf2 env evp (Config (ss_config env) (Some ''sasl_password'')) salt iter (nat (md_size env evp)) = Some salted \<and>
        hmac env evp salted server_key_str = Some skey \<and>
        hmac env evp skey (octets ((''n='' @ user @ '',r='' @ cn) @ '','' @ first @ '','' @ ''c=biws,r='' @ sn)) = Some sig \<and>
        prefix (''r='' @ cn) first \<and> prefix cn sn)"

text \<open>The nonces that the client has drawn, and the empty one of the start of the program.\<close>

definition drawn_nonce :: "scram_env \<Rightarrow> nat \<Rightarrow> string" where
  "drawn_nonce env k = map (\<lambda>i. nonce_legal_index ! random_index env (k + i)) [0..<63]"

definition own_nonce :: "scram_env \<Rightarrow> nat \<Rightarrow> string \<Rightarrow> bool" where
  "own_nonce env n cn \<longleftrightarrow> cn = [] \<or> (\<exists>k. k + 64 \<le> n \<and> cn = drawn_nonce env k)"

lemma own_nonce_later: "\<lbrakk>own_nonce env n cn; n \<le> m\<rbrakk> \<Longrightarrow> own_nonce env m cn"
  unfolding own_nonce_def by (elim disjE exE conjE) (blast intro: le_trans)+

definition expects :: "scram_env \<Rightarrow> scram_state \<Rightarrow> bool" where
  "expects env sc \<longleftrightarrow> (\<exists>cn first sig. own_nonce env (numbers_drawn sc) cn \<and> server_signed env cn first sig \<and>
     signature_expected_len sc = length sig \<and> take (length sig) (signature_expected sc) = sig)"

definition scram_ok :: "scram_env \<Rightarrow> scram_state \<Rightarrow> bool" where
  "scram_ok env sc \<longleftrightarrow> length (signature_expected sc) = EVP_MAX_MD_SIZE \<and> CHR '','' \<notin> set (nonce sc) \<and>
     own_nonce env (numbers_drawn sc) (nonce sc) \<and> (got_first_msg sc \<longrightarrow> expects env sc)"

lemma expects_complete [simp]: "expects env (sc\<lparr>complete_nonce := c\<rparr>) = expects env sc"
  by (simp add: expects_def)

lemma send_proof_fields:
  assumes "send_proof env ck cs st = Some (r, st')"
  shows "signature_expected st' = signature_expected st" "signature_expected_len st' = signature_expected_len st"
    "got_first_msg st' = got_first_msg st" "nonce st' = nonce st" "numbers_drawn st' = numbers_drawn st"
  using assms
  by (auto simp: send_proof_def sasl_scram_sha_send_client_final_msg_def net_send_def Let_def
      split: if_splits option.splits Option.bind_splits)

lemma str_at_cstr: "str_at buf i = Some s \<Longrightarrow> s = cstr (drop i buf)"
  by (simp add: str_at_def split: if_splits)

lemma cstr_behind:
  assumes "take 2 (cstr s) = [a, b]" shows "cstr s = a # b # cstr (drop 2 s)"
proof (cases s rule: remdups_adj.cases)
  case (3 x y zs)
  then show ?thesis using assms by (cases "x = nul"; cases "y = nul") (auto simp: cstr_def)
qed (use assms in \<open>auto simp: cstr_def split: if_splits\<close>)

lemma components_nonce:
  assumes "get_sfm_components st msg = Some (Inr x, st')" "CHR '','' \<notin> set (nonce st)"
  obtains d n cn where "get_decoded_msg (Some msg) = Some (Some (d, n))" "st' = st\<lparr>complete_nonce := Some cn\<rparr>"
    "prefix (''r='' @ nonce st) (cstr (chars d))" "prefix (nonce st) cn"
proof -
  obtain dd where "get_decoded_msg (Some msg) = Some dd"
    using assms(1) by (cases "get_decoded_msg (Some msg)") (simp_all add: get_sfm_components_def)
  moreover obtain d n where "dd = Some (d, n)"
    using assms(1) calculation by (cases dd) (auto simp: get_sfm_components_def)
  ultimately have d: "get_decoded_msg (Some msg) = Some (Some (d, n))" by simp
  obtain c0 where c0: "str_at (chars d) 0 = Some c0" "strncmp_eq c0 ''r='' 2"
    using assms(1) d by (auto simp: get_sfm_components_def Let_def split: Option.bind_splits if_splits)
  obtain cp where cp: "str_at (chars d) 2 = Some cp" "strncmp_eq cp (nonce st) (length (nonce st))"
    "st' = st\<lparr>complete_nonce := Some (take (strcspn cp '','') cp)\<rparr>"
    using assms(1) d c0 by (auto simp: get_sfm_components_def Let_def split: Option.bind_splits if_splits)
  have "take 2 (cstr (chars d)) = ''r=''" using c0 str_at_cstr [OF c0(1)] by (simp add: strncmp_eq_def)
  then have r: "cstr (chars d) = ''r='' @ cstr (drop 2 (chars d))" using cstr_behind [of "chars d"] by simp
  have p: "prefix (nonce st) cp" using cp(2) by (auto simp: strncmp_eq_def prefix_def) (metis append_take_drop_id)
  have "prefix (nonce st) (take (strcspn cp '','') cp)"
  proof -
    obtain v where "cp = nonce st @ v" using p by (auto simp: prefix_def)
    then show ?thesis using assms(2) by (simp add: strcspn_def takeWhile_append)
  qed
  then show ?thesis using that [OF d cp(3)] r p str_at_cstr [OF cp(1)] by simp
qed

lemma get_digest_Some: "get_digest env key data = Some (Some md) \<Longrightarrow> hmac env (get_evp (ss_config env)) key data = Some md \<and> length md \<le> EVP_MAX_MD_SIZE"
  by (auto simp: get_digest_def split: option.splits if_splits)

lemma components_state:
  assumes "get_sfm_components st msg = Some (x, st1)" shows "\<exists>cn. st1 = st\<lparr>complete_nonce := cn\<rparr>"
proof -
  have "st1 = st \<or> (\<exists>cn. st1 = st\<lparr>complete_nonce := Some cn\<rparr>)"
    using assms by (auto simp: get_sfm_components_def Let_def split: option.splits Option.bind_splits if_splits)
  then show ?thesis
  proof
    assume "st1 = st"
    then have "st1 = st\<lparr>complete_nonce := complete_nonce st\<rparr>" by simp
    then show ?thesis by blast
  qed blast
qed

text \<open>Either nothing but the nonce is changed, or the proof is sent.\<close>

lemma first_cases:
  assumes "sasl_scram_sha_handle_serv_first_msg env msg st = Some (r, st')" "CHR '','' \<notin> set (nonce st)"
  obtains (kept) "r = -1" "\<exists>cn. st' = st\<lparr>complete_nonce := cn\<rparr>"
    | (proved) d n ck cs sig st1 where "get_decoded_msg (Some msg) = Some (Some (d, n))"
        "server_signed env (nonce st) (cstr (chars d)) sig" "length sig \<le> EVP_MAX_MD_SIZE"
        "send_proof env ck cs (st1\<lparr>signature_expected := sig @ drop (length sig) (signature_expected st1),
           signature_expected_len := length sig\<rparr>) = Some (r, st')"
        "\<exists>cn. st1 = st\<lparr>complete_nonce := cn\<rparr>"
proof -
  note H = assms(1) [unfolded sasl_scram_sha_handle_serv_first_msg_def]
  obtain x st1 where c: "get_sfm_components st msg = Some (x, st1)"
    using H by (cases "get_sfm_components st msg") auto
  have st1: "\<exists>cn. st1 = st\<lparr>complete_nonce := cn\<rparr>" using components_state [OF c] .
  show ?thesis
  proof (cases x)
    case (Inl e)
    then show ?thesis using H c st1 kept by simp
  next
    case (Inr y)
    obtain salt saltlen iter where y: "y = (salt, saltlen, iter)" by (cases y)
    obtain d n cn where d: "get_decoded_msg (Some msg) = Some (Some (d, n))" "st1 = st\<lparr>complete_nonce := Some cn\<rparr>"
      "prefix (''r='' @ nonce st) (cstr (chars d))" "prefix (nonce st) cn"
      using components_nonce [OF c [unfolded Inr] assms(2)] by metis
    show ?thesis
    proof (cases "get_salted_password env salt saltlen iter")
      case None
      then show ?thesis using H c Inr y st1 kept by simp
    next
      case (Some salted)
      have pw: "pbkdf2 env (get_evp (ss_config env)) (Config (ss_config env) (Some ''sasl_password''))
          (take (nat saltlen) salt) iter (nat (md_size env (get_evp (ss_config env)))) = Some salted"
        using Some by (auto simp: get_salted_password_def config_get_normalized_sasl_password_def Let_def
            split: if_splits option.splits)
      obtain mck msk where k: "get_digest env salted client_key_str = Some mck" "get_digest env salted server_key_str = Some msk"
        using H c Inr y Some by (auto split: Option.bind_splits)
      show ?thesis
      proof (cases "mck = None \<or> msk = None")
        case True
        then show ?thesis using H c Inr y Some k st1 kept by (auto split: option.splits)
      next
        case False
        then obtain ck sk where k2: "mck = Some ck" "msk = Some sk" by auto
        obtain stored where s: "hash_client_key env ck = Some stored"
          using H c Inr y Some k k2 by (auto split: Option.bind_splits)
        let ?auth = "get_client_first_msg_bare env st1 @ '','' @ cstr (chars d) @ '','' @ get_client_final_msg_wo_proof st1"
        have a: "get_auth_msg env st1 msg = Some ?auth" using d(1) by (simp add: get_auth_msg_def)
        obtain mcs mss where g: "get_digest env stored (octets ?auth) = Some mcs" "get_digest env sk (octets ?auth) = Some mss"
          using H c Inr y Some k k2 s a by (auto split: Option.bind_splits)
        show ?thesis
        proof (cases "mcs = None \<or> mss = None")
          case True
          then show ?thesis using H c Inr y Some k k2 s a g st1 kept by (auto split: option.splits)
        next
          case False
          then obtain cs sig where g2: "mcs = Some cs" "mss = Some sig" by auto
          have "?auth = (''n='' @ Config (ss_config env) (Some ''sasl_username'') @ '',r='' @ nonce st) @ '','' @
              cstr (chars d) @ '','' @ ''c=biws,r='' @ cn"
            using d(2) by (simp add: get_client_first_msg_bare_def get_client_final_msg_wo_proof_def)
          then have "server_signed env (nonce st) (cstr (chars d)) sig"
            using pw get_digest_Some [OF k(2) [unfolded k2]] get_digest_Some [OF g(2) [unfolded g2]] d(3,4)
            unfolding server_signed_def Let_def by metis
          then show ?thesis
            using proved [of d n sig ck cs st1] d(1) H c Inr y Some k k2 s a g g2 st1 get_digest_Some [OF g(2) [unfolded g2]] by simp
        qed
      qed
    qed
  qed
qed

lemma first_got:
  assumes "sasl_scram_sha_handle_serv_first_msg env msg st = Some (r, st')" "CHR '','' \<notin> set (nonce st)"
  shows "got_first_msg st' = got_first_msg st"
  using assms by (cases rule: first_cases) (auto dest: send_proof_fields(3))

lemma first_ok:
  assumes "sasl_scram_sha_handle_serv_first_msg env msg st = Some (r, st')" "scram_ok env st"
  shows "length (signature_expected st') = EVP_MAX_MD_SIZE \<and> CHR '','' \<notin> set (nonce st') \<and>
    got_first_msg st' = got_first_msg st \<and> (r \<noteq> -1 \<longrightarrow> expects env st') \<and>
    (r = -1 \<longrightarrow> \<not> got_first_msg st \<longrightarrow> scram_ok env st') \<and> own_nonce env (numbers_drawn st') (nonce st')"
proof -
  have n: "CHR '','' \<notin> set (nonce st)" and o: "own_nonce env (numbers_drawn st) (nonce st)" and l: "length (signature_expected st) = EVP_MAX_MD_SIZE"
    using assms(2) by (simp_all add: scram_ok_def)
  show ?thesis
    using assms(1) n
  proof (cases rule: first_cases)
    case kept
    then show ?thesis using n l o by (auto simp: scram_ok_def)
  next
    case (proved d m ck cs sig st1)
    let ?st2 = "st1\<lparr>signature_expected := sig @ drop (length sig) (signature_expected st1), signature_expected_len := length sig\<rparr>"
    note f = send_proof_fields [OF proved(4)]
    have "nonce st' = nonce st" "numbers_drawn st' = numbers_drawn st" using f proved(5) by auto
    moreover have "expects env st'"
      unfolding expects_def by (intro exI [of _ "nonce st"] exI [of _ "cstr (chars d)"] exI [of _ sig])
        (use proved(2) f o calculation in simp)
    ultimately show ?thesis using f proved(3,5) n l o by (auto simp: scram_ok_def)
  qed
qed

inductive sasl_reachable :: "sasl_env \<Rightarrow> sasl_state \<Rightarrow> bool" for env where
  connected: "\<lbrakk>length (signature_expected (scram st)) = EVP_MAX_MD_SIZE; nonce (scram st) = []\<rbrakk> \<Longrightarrow>
    sasl_reachable env (connect_hook st)"
| reconnected: "sasl_reachable env st \<Longrightarrow> sasl_reachable env (connect_hook st)"
| registered: "sasl_reachable env st \<Longrightarrow> sasl_reachable env (send_reg_cmds env ctx st)"
| capability: "sasl_reachable env st \<Longrightarrow> sasl_reachable env (event_cap env compo st)"
| authenticate: "\<lbrakk>sasl_reachable env st; event_authenticate env compo st = Some st'\<rbrakk> \<Longrightarrow> sasl_reachable env st'"
| auth_failed: "sasl_reachable env st \<Longrightarrow> sasl_reachable env (handle_sasl_auth_fail env compo st)"
| auth_succeeded: "sasl_reachable env st \<Longrightarrow> sasl_reachable env (sasl_auth_success env compo st)"

text \<open>What is sent does not matter to the state of the mechanism.\<close>

definition scram_core :: "scram_state \<Rightarrow> scram_state" where
  "scram_core sc = sc\<lparr>sent := []\<rparr>"

lemma core_ok: "scram_core a = scram_core b \<Longrightarrow> scram_ok env a = scram_ok env b"
  by (cases a; cases b) (simp add: scram_core_def scram_ok_def expects_def)

lemma send_core [simp]: "scram_core (scram (send env m st)) = scram_core (scram st)"
  by (simp add: send_def send_ret_def net_send_def scram_core_def Let_def)

lemma send_ret_core: "send_ret env m st = (r, st') \<Longrightarrow> scram_core (scram st') = scram_core (scram st)"
  by (auto simp: send_ret_def net_send_def scram_core_def Let_def split: if_splits)

lemma request_core [simp]: "scram_core (scram (cap_request env cap what st)) = scram_core (scram st)"
  by (auto simp: cap_request_def dest: send_ret_core split: prod.splits)

lemma fold_requests_core: "scram_core (scram (fold (\<lambda>(setting, default, cap, what) st.
    if fst (config_bool (scfg env) setting default) then cap_request env cap what st else st) es st)) = scram_core (scram st)"
  by (induction es arbitrary: st) auto

lemma reg_core: "scram_core (scram (send_reg_cmds env ctx st)) = scram_core (scram st)"
  by (simp add: send_reg_cmds_def Let_def fold_requests_core split: option.splits)

lemma ack_core: "handle_ack_and_nak env compo ps v caplist st = (b, st') \<Longrightarrow> scram_core (scram st') = scram_core (scram st)"
  by (auto simp: handle_ack_and_nak_def ACK_def NAK_def Let_def split: option.splits if_splits)

lemma cap_new_core [simp]: "scram_core (scram (handle_cap_new env caplist st)) = scram_core (scram st)"
  by (simp add: handle_cap_new_def Let_def)

lemma cap_core: "scram_core (scram (event_cap env compo st)) = scram_core (scram st)"
proof -
  obtain fed ps where 1: "strFeed (params_of compo) 2 = (fed, ps)" by fastforce
  obtain ident s1 where 2: "tok nl_sep ps = (ident, s1)" by fastforce
  obtain sub s2 where 3: "tok nl_sep s1 = (sub, s2)" by fastforce
  obtain cl s3 where 4: "tok nl_sep s2 = (cl, s3)" by fastforce
  show ?thesis
  proof (cases "sub = None \<or> cl = None")
    case True
    then show ?thesis by (cases sub) (auto simp: event_cap_def 1 2 3 4)
  next
    case False
    then obtain v c where v: "sub = Some v" "cl = Some c" by auto
    obtain b st1 where h: "handle_ack_and_nak env compo (case ident of Some w \<Rightarrow> w | None \<Rightarrow> []) v (trim (skip_colon c)) st = (b, st1)"
      by fastforce
    show ?thesis using ack_core [OF h] by (simp add: event_cap_def 1 2 3 4 v h Let_def)
  qed
qed

lemma abort_core [simp]: "scram_core (scram (abort_authentication env st)) = scram_core (scram st)"
  by (simp add: abort_authentication_def)

lemma fold_out: "scram (fold (\<lambda>a. put_out (Extracted a)) as st) = scram st"
  by (induction as arbitrary: st) auto

lemma core_step:
  assumes "scram_ok env (scram st)" "scram_core (scram st') = scram_core (scram st)"
  shows "scram_ok env (scram st')"
  using core_ok [OF assms(2)] assms(1) by blast

lemma client_first_ok:
  assumes "sasl_scram_sha_send_client_first_msg env st = Some (r, st')" "scram_ok env st" "digests_ok env"
  shows "scram_ok env st'"
proof -
  let ?g = "generate_and_store_nonce env st"
  have g: "numbers_drawn ?g = numbers_drawn st + 64" "nonce ?g = drawn_nonce env (numbers_drawn st)"
    "signature_expected ?g = signature_expected st" "signature_expected_len ?g = signature_expected_len st"
    "got_first_msg ?g = got_first_msg st"
    by (simp_all add: generate_and_store_nonce_def drawn_nonce_def)
  have "own_nonce env (numbers_drawn ?g) (nonce ?g)" unfolding own_nonce_def g(1,2) by blast
  moreover have "expects env ?g" if "expects env st"
    using that own_nonce_later [of env "numbers_drawn st" _ "numbers_drawn st + 64"] by (auto simp: expects_def g)
  ultimately have "scram_ok env ?g"
    using assms(2) nonce_drawn(1) [OF assms(3)] by (auto simp: scram_ok_def g(3-5))
  moreover have "scram_core st' = scram_core st \<or> scram_core st' = scram_core (generate_and_store_nonce env st)"
    using assms(1)
    by (auto simp: sasl_scram_sha_send_client_first_msg_def net_send_def scram_core_def Let_def
        split: if_splits Option.bind_splits)
  ultimately show ?thesis using assms(2) core_ok by blast
qed

lemma final_fields:
  assumes "sasl_scram_sha_handle_serv_final_msg msg st = Some (r, st')"
  shows "st' = st \<or> st' = st\<lparr>complete_nonce := None\<rparr>"
  using assms by (auto simp: sasl_scram_sha_handle_serv_final_msg_def Let_def split: option.splits Option.bind_splits if_splits)

lemma memcmp_prefix:
  assumes "timingsafe_memcmp a b n = Some r" shows "n \<le> length a \<and> n \<le> length b"
proof (rule ccontr)
  assume "\<not> (n \<le> length a \<and> n \<le> length b)"
  then have "timingsafe_loop a b n 0 0 0 = None" by (intro timingsafe_short2) auto
  then show False using assms by (simp add: timingsafe_memcmp_def)
qed

lemma memcmp_equal:
  assumes "timingsafe_memcmp a b n = Some 0" shows "take n a = take n b"
proof -
  have "n \<le> length a \<and> n \<le> length b" using memcmp_prefix [OF assms] .
  then show ?thesis
    using assms timingsafe_memcmp_eq [of n a b] octet_order_0 [of "take n a" "take n b"] by simp
qed

lemma final_accepted:
  assumes "sasl_scram_sha_handle_serv_final_msg msg st = Some (r, st')" "r \<noteq> -1"
  obtains d n v buf k where "get_decoded_msg (Some msg) = Some (Some (d, n))" "cstr (chars d) = ''v='' @ v"
    "get_decoded_msg (Some v) = Some (Some (buf, k))"
    "timingsafe_memcmp buf (signature_expected st) (signature_expected_len st) = Some 0"
proof -
  obtain d n where d: "get_decoded_msg (Some msg) = Some (Some (d, n))"
    using assms by (auto simp: sasl_scram_sha_handle_serv_final_msg_def split: Option.bind_splits option.splits)
  obtain c where c: "str_at (chars d) 0 = Some c" "strncmp_eq c ''v='' 2"
    using assms d by (auto simp: sasl_scram_sha_handle_serv_final_msg_def split: Option.bind_splits if_splits)
  obtain v where v: "str_at (chars d) 2 = Some v"
    using assms d c by (auto simp: sasl_scram_sha_handle_serv_final_msg_def split: Option.bind_splits)
  obtain buf k where b: "get_decoded_msg (Some v) = Some (Some (buf, k))"
    using assms d c v by (auto simp: sasl_scram_sha_handle_serv_final_msg_def split: Option.bind_splits option.splits)
  have "timingsafe_memcmp buf (signature_expected st) (signature_expected_len st) = Some 0"
    using assms d c v b by (auto simp: sasl_scram_sha_handle_serv_final_msg_def split: Option.bind_splits if_splits)
  moreover have "cstr (chars d) = ''v='' @ v"
    using cstr_behind [of "chars d" "CHR ''v''" "CHR ''=''"] c str_at_cstr [OF c(1)] str_at_cstr [OF v]
    by (simp add: strncmp_eq_def)
  ultimately show ?thesis using that d b by blast
qed

lemma final_result:
  assumes "sasl_scram_sha_handle_serv_final_msg msg st = Some (r, st')" "r \<noteq> -1"
  shows "r = 0 \<and> st' = st\<lparr>complete_nonce := None\<rparr>"
  using assms by (auto simp: sasl_scram_sha_handle_serv_final_msg_def split: option.splits Option.bind_splits if_splits)

lemma final_same:
  assumes "sasl_scram_sha_handle_serv_final_msg msg a = Some (0, a')"
    and "signature_expected_len a = length sig" "take (length sig) (signature_expected a) = sig"
    and "signature_expected_len b = length sig" "take (length sig) (signature_expected b) = sig"
  shows "sasl_scram_sha_handle_serv_final_msg msg b = Some (0, b\<lparr>complete_nonce := None\<rparr>)"
proof -
  have len: "length sig \<le> length (signature_expected b)" using assms(5) by (metis length_take min.cobounded1)
  have same: "timingsafe_memcmp buf (signature_expected b) (length sig) = Some 0"
    if "timingsafe_memcmp buf (signature_expected a) (length sig) = Some 0" for buf
    using memcmp_prefix [OF that] memcmp_equal [OF that] assms(3,5) len
    by (simp add: timingsafe_memcmp_eq octet_order_0)
  show ?thesis
    using assms(1,2,4) same
    by (auto simp: sasl_scram_sha_handle_serv_final_msg_def split: option.splits Option.bind_splits if_splits)
qed

lemma abort_got: "got_first_msg (scram (abort_authentication env st)) = got_first_msg (scram st)"
  using arg_cong [OF abort_core [of env st], of got_first_msg] by (simp add: scram_core_def)

lemma else_ok:
  assumes "handle_else_branch env mech ps st = Some st'" "scram_ok (senv env) (scram st)"
  shows "scram_ok (senv env) (scram st')"
proof (cases "is_scram mech \<and> \<not> strings_match mech ''ECDSA-NIST256P-CHALLENGE'' \<and> \<not> strings_match mech ''EXTERNAL'' \<and>
    \<not> strings_match mech ''PLAIN''")
  case False
  then have "scram_core (scram st') = scram_core (scram st)"
    using assms(1)
    by (auto simp: handle_else_branch_def handle_ecdsa_nist256p_challenge_def split: if_splits sum.splits Option.bind_splits)
  then show ?thesis using core_step assms(2) by blast
next
  case True
  show ?thesis
  proof (cases "got_first_msg (scram st)")
    case False
    obtain r sc where f: "sasl_scram_sha_handle_serv_first_msg (senv env) ps (scram st) = Some (r, sc)"
      "st' = (if r = -1 then abort_authentication env (st\<lparr>scram := sc\<rparr>) else st\<lparr>scram := sc\<lparr>got_first_msg := True\<rparr>\<rparr>)"
      using True False assms(1) by (auto simp: handle_else_branch_def split: Option.bind_splits)
    show ?thesis
    proof (cases "r = -1")
      case True
      then have "scram_ok (senv env) (scram (st\<lparr>scram := sc\<rparr>))" using first_ok [OF f(1) assms(2)] False by simp
      then show ?thesis using core_step [OF _ abort_core] True f(2) by simp
    next
      case ok: False
      then show ?thesis using first_ok [OF f(1) assms(2)] f(2) by (simp add: scram_ok_def expects_def)
    qed
  next
    case got: True
    obtain r sc where f: "sasl_scram_sha_handle_serv_final_msg ps (scram st) = Some (r, sc)"
      "st' = (if r = -1 then abort_authentication env (st\<lparr>scram := sc\<rparr>) else send env ''AUTHENTICATE +'' (st\<lparr>scram := sc\<rparr>))"
      using True got assms(1) by (auto simp: handle_else_branch_def split: Option.bind_splits)
    have "scram_ok (senv env) (scram (st\<lparr>scram := sc\<rparr>))"
      using final_fields [OF f(1)] assms(2) by (auto simp: scram_ok_def)
    moreover have "scram_core (scram st') = scram_core (scram (st\<lparr>scram := sc\<rparr>))"
      unfolding f(2) by (cases "r = -1") simp_all
    ultimately show ?thesis using core_step by blast
  qed
qed

lemma authenticate_ok:
  assumes "event_authenticate env compo st = Some st'" "scram_ok (senv env) (scram st)" "digests_ok (senv env)"
  shows "scram_ok (senv env) (scram st')"
proof (cases "strings_match (params_of compo) ''+''")
  case False
  then show ?thesis using assms else_ok by (simp add: event_authenticate_def Let_def)
next
  case plus: True
  obtain m where m: "get_sasl_mechanism (scfg env) = m" by simp
  note E = assms(1) [unfolded event_authenticate_def Let_def m]
  show ?thesis
  proof (cases "is_scram m \<and> \<not> strings_match m ''ECDSA-NIST256P-CHALLENGE'' \<and> \<not> strings_match m ''EXTERNAL'' \<and>
      \<not> strings_match m ''PLAIN''")
    case False
    then have "scram_core (scram st') = scram_core (scram st)"
      using E plus by (auto split: if_splits option.splits Option.bind_splits)
    then show ?thesis using core_step assms(2) by blast
  next
    case True
    obtain r sc where f: "sasl_scram_sha_send_client_first_msg (senv env) (scram st) = Some (r, sc)"
      "st' = (if r = -1 then abort_authentication env (st\<lparr>scram := sc\<rparr>) else st\<lparr>scram := sc\<rparr>)"
      using True E plus by (auto split: Option.bind_splits)
    then have "scram_core (scram st') = scram_core sc" by simp
    then show ?thesis using client_first_ok [OF f(1) assms(2,3)] core_ok by blast
  qed
qed

lemma registration_ok: "\<lbrakk>sasl_reachable env st; digests_ok (senv env)\<rbrakk> \<Longrightarrow> scram_ok (senv env) (scram st)"
proof (induction rule: sasl_reachable.induct)
  case (connected st)
  then show ?case by (simp add: connect_hook_def scram_ok_def own_nonce_def)
next
  case (reconnected st)
  then show ?case by (simp add: connect_hook_def scram_ok_def)
next
  case (registered st ctx)
  then show ?case using core_step reg_core by blast
next
  case (capability st compo)
  then show ?case using core_step cap_core by blast
next
  case (authenticate st compo st')
  then show ?case using authenticate_ok by blast
next
  case (auth_failed st compo)
  then have "scram_core (scram (handle_sasl_auth_fail env compo st)) = scram_core (scram st)"
    by (simp add: handle_sasl_auth_fail_def fold_out Let_def)
  then show ?case using auth_failed core_step by blast
next
  case (auth_succeeded st compo)
  then show ?case using core_step [of "senv env" st "sasl_auth_success env compo st"] by (simp add: sasl_auth_success_def)
qed

text \<open>What the final message of the server carries, and what it is checked against.\<close>

definition carries_signature :: "irc_message_compo \<Rightarrow> 8 word list \<Rightarrow> bool" where
  "carries_signature compo sig \<longleftrightarrow> (\<exists>d n v buf k. get_decoded_msg (params compo) = Some (Some (d, n)) \<and>
     cstr (chars d) = ''v='' @ v \<and> get_decoded_msg (Some v) = Some (Some (buf, k)) \<and> take (length sig) buf = sig)"

definition confirm_sent :: "sasl_state \<Rightarrow> sasl_state \<Rightarrow> bool" where
  "confirm_sent st st' \<longleftrightarrow> sent (scram st') = sent (scram st) @ [''AUTHENTICATE +'']"

definition abort_sent :: "sasl_state \<Rightarrow> sasl_state \<Rightarrow> bool" where
  "abort_sent st st' \<longleftrightarrow> sent (scram st') = sent (scram st) @ [''AUTHENTICATE *'', ''CAP END'']"

lemma scram_names: "is_scram m \<Longrightarrow> \<not> strings_match m ''ECDSA-NIST256P-CHALLENGE'' \<and> \<not> strings_match m ''EXTERNAL'' \<and>
    \<not> strings_match m ''PLAIN''"
  by (auto simp: is_scram_def strings_match_iff)

lemma authenticate_data:
  assumes "is_scram (get_sasl_mechanism (scfg env))" "params_of compo \<noteq> ''+''"
  shows "event_authenticate env compo st =
    (if \<not> got_first_msg (scram st) then
       map_option (\<lambda>(r, sc). if r = -1 then abort_authentication env (st\<lparr>scram := sc\<rparr>) else st\<lparr>scram := sc\<lparr>got_first_msg := True\<rparr>\<rparr>)
         (sasl_scram_sha_handle_serv_first_msg (senv env) (params_of compo) (scram st))
     else
       map_option (\<lambda>(r, sc). if r = -1 then abort_authentication env (st\<lparr>scram := sc\<rparr>) else send env ''AUTHENTICATE +'' (st\<lparr>scram := sc\<rparr>))
         (sasl_scram_sha_handle_serv_final_msg (params_of compo) (scram st)))"
  using assms scram_names [OF assms(1)]
  by (simp add: event_authenticate_def handle_else_branch_def strings_match_iff map_conv_bind_option Let_def split_def o_def)

lemma final_step:
  assumes "is_scram (get_sasl_mechanism (scfg env))" "\<forall>m. net_ret (senv env) m \<ge> 0"
    and "got_first_msg (scram st)" "params_of compo \<noteq> ''+''" "event_authenticate env compo st = Some st'"
    and "signature_expected_len (scram st) = length sig" "take (length sig) (signature_expected (scram st)) = sig"
  shows "abort_sent st st' \<or> confirm_sent st st' \<and> carries_signature compo sig \<and>
    sasl_scram_sha_handle_serv_final_msg (params_of compo) (scram st) = Some (0, (scram st)\<lparr>complete_nonce := None\<rparr>) \<and>
    scram_core (scram st') = scram_core ((scram st)\<lparr>complete_nonce := None\<rparr>)"
proof -
  obtain r sc where f: "sasl_scram_sha_handle_serv_final_msg (params_of compo) (scram st) = Some (r, sc)"
    "st' = (if r = -1 then abort_authentication env (st\<lparr>scram := sc\<rparr>) else send env ''AUTHENTICATE +'' (st\<lparr>scram := sc\<rparr>))"
    using assms(3,5) by (auto simp: authenticate_data [OF assms(1,4)])
  have net: "net_ret (senv env) x \<ge> 0" for x using assms(2) by blast
  have sc: "sent sc = sent (scram st)" using final_fields [OF f(1)] by auto
  show ?thesis
  proof (cases "r = -1")
    case True
    then show ?thesis using f(2) sc by (simp add: abort_sent_def abort_authentication_def send_sent [OF net])
  next
    case False
    obtain d n v buf k where v: "get_decoded_msg (Some (params_of compo)) = Some (Some (d, n))" "cstr (chars d) = ''v='' @ v"
      "get_decoded_msg (Some v) = Some (Some (buf, k))"
      "timingsafe_memcmp buf (signature_expected (scram st)) (length sig) = Some 0"
      using final_accepted [OF f(1) False] assms(6) by metis
    have "take (length sig) buf = sig" using memcmp_equal [OF v(4)] assms(7) by simp
    moreover have "params compo = Some (params_of compo)"
      using v(1) by (cases "params compo") (auto simp: params_of_def get_decoded_msg_def strings_match_iff)
    ultimately have "carries_signature compo sig" using v by (auto simp: carries_signature_def)
    moreover have "r = 0 \<and> sc = (scram st)\<lparr>complete_nonce := None\<rparr>"
      using final_result [OF f(1) False] .
    ultimately show ?thesis using f sc False by (simp add: confirm_sent_def send_sent [OF net])
  qed
qed

text \<open>
  In every state that registration, capability negotiation and authentication can lead to, in any order and on any number
  of connections, the client confirms only a message that carries
  a signature over a nonce that it has drawn, or over the empty one if it has drawn none.
\<close>

lemma confirmation_signed:
  assumes "sasl_reachable env st" "digests_ok (senv env)" "is_scram (get_sasl_mechanism (scfg env))"
    and "got_first_msg (scram st)" "params_of compo \<noteq> ''+''" "event_authenticate env compo st = Some st'"
  shows "abort_sent st st' \<or> confirm_sent st st' \<and> (\<exists>cn first sig. own_nonce (senv env) (numbers_drawn (scram st)) cn \<and>
     server_signed (senv env) cn first sig \<and> carries_signature compo sig)"
proof -
  obtain cn first sig where e: "own_nonce (senv env) (numbers_drawn (scram st)) cn" "server_signed (senv env) cn first sig"
    "signature_expected_len (scram st) = length sig" "take (length sig) (signature_expected (scram st)) = sig"
    using registration_ok [OF assms(1,2)] assms(4) by (auto simp: scram_ok_def expects_def)
  have "\<forall>m. net_ret (senv env) m \<ge> 0" using assms(2) by (simp add: digests_ok_def)
  then show ?thesis using final_step [OF assms(3) _ assms(4-6) e(3,4)] e(1,2) by blast
qed

text \<open>The first message is handled in the same way in every state with the same nonce.\<close>

lemma components_same:
  assumes "get_sfm_components a msg = Some (Inr x, a')" "nonce b = nonce a"
  shows "get_sfm_components b msg = Some (Inr x, b\<lparr>complete_nonce := complete_nonce a'\<rparr>)"
  using assms by (auto simp: get_sfm_components_def Let_def split: option.splits Option.bind_splits if_splits)

lemma send_proof_same:
  assumes "send_proof env ck cs a = Some (r, a')" "complete_nonce b = complete_nonce a"
  shows "\<exists>m. send_proof env ck cs b = Some (r, b\<lparr>sent := m\<rparr>)"
proof -
  have "\<exists>m. b = b\<lparr>sent := m\<rparr>" by (intro exI [of _ "sent b"]) simp
  then show ?thesis
    using assms
    by (auto simp: send_proof_def sasl_scram_sha_send_client_final_msg_def net_send_def Let_def
        split: if_splits option.splits Option.bind_splits)
qed

lemma first_same:
  assumes "sasl_scram_sha_handle_serv_first_msg env msg a = Some (r, a')" "r \<noteq> -1" "CHR '','' \<notin> set (nonce a)"
    and "nonce b = nonce a"
  shows "\<exists>d n sig cn m. get_decoded_msg (Some msg) = Some (Some (d, n)) \<and>
    server_signed env (nonce a) (cstr (chars d)) sig \<and> nonce a' = nonce a \<and>
    signature_expected_len a' = length sig \<and> take (length sig) (signature_expected a') = sig \<and>
    sasl_scram_sha_handle_serv_first_msg env msg b = Some (r, b\<lparr>complete_nonce := cn, sent := m,
      signature_expected := sig @ drop (length sig) (signature_expected b), signature_expected_len := length sig\<rparr>)"
  using assms(1,3)
proof (cases rule: first_cases)
  case kept
  then show ?thesis using assms(2) by simp
next
  case (proved d n ck cs sig st1)
  note f = send_proof_fields [OF proved(4)]
  note H = assms(1) [unfolded sasl_scram_sha_handle_serv_first_msg_def]
  obtain salt saltlen iter a1 where c: "get_sfm_components a msg = Some (Inr (salt, saltlen, iter), a1)"
    using H assms(2) by (auto split: Option.bind_splits sum.splits)
  note cb = components_same [OF c assms(4)]
  have a1: "a1 = a\<lparr>complete_nonce := complete_nonce a1\<rparr>" using components_state [OF c] by auto
  obtain pass where p: "get_salted_password env salt saltlen iter = Some pass"
    using H c assms(2) by (auto split: option.splits)
  obtain ck' sk' stored auth cs' sig' where k: "get_digest env pass client_key_str = Some (Some ck')"
    "get_digest env pass server_key_str = Some (Some sk')" "hash_client_key env ck' = Some stored"
    "get_auth_msg env a1 msg = Some auth" "get_digest env stored (octets auth) = Some (Some cs')"
    "get_digest env sk' (octets auth) = Some (Some sig')"
    "send_proof env ck' cs' (a1\<lparr>signature_expected := sig' @ drop (length sig') (signature_expected a1),
       signature_expected_len := length sig'\<rparr>) = Some (r, a')"
    using H c p assms(2) by (auto split: option.splits Option.bind_splits)
  let ?b1 = "b\<lparr>complete_nonce := complete_nonce a1\<rparr>"
  have n1: "nonce a1 = nonce a" by (subst a1) simp
  have auth: "get_auth_msg env ?b1 msg = Some auth"
    using k(4) n1 assms(4) by (simp add: get_auth_msg_def get_client_first_msg_bare_def get_client_final_msg_wo_proof_def)
  have e: "signature_expected_len a' = length sig'" "signature_expected a' = sig' @ drop (length sig') (signature_expected a1)"
    using send_proof_fields [OF k(7)] by simp_all
  have "sig' = sig" using e f by auto
  moreover obtain m where "send_proof env ck' cs' (?b1\<lparr>signature_expected := sig' @ drop (length sig') (signature_expected ?b1),
       signature_expected_len := length sig'\<rparr>) = Some (r, ?b1\<lparr>signature_expected := sig' @ drop (length sig') (signature_expected ?b1),
       signature_expected_len := length sig', sent := m\<rparr>)"
    using send_proof_same [OF k(7), of "?b1\<lparr>signature_expected := sig' @ drop (length sig') (signature_expected ?b1),
       signature_expected_len := length sig'\<rparr>"] by auto
  ultimately have "sasl_scram_sha_handle_serv_first_msg env msg b = Some (r, b\<lparr>complete_nonce := complete_nonce a1, sent := m,
      signature_expected := sig @ drop (length sig) (signature_expected b), signature_expected_len := length sig\<rparr>)"
    unfolding sasl_scram_sha_handle_serv_first_msg_def using cb p k(1-3,5,6) auth by simp
  moreover have "nonce a' = nonce a" "signature_expected_len a' = length sig" "take (length sig) (signature_expected a') = sig"
    using f proved(5) by auto
  ultimately show ?thesis using proved(1,2) by blast
qed

lemma second_time:
  assumes "is_scram (get_sasl_mechanism (scfg env))" "\<forall>m. net_ret (senv env) m \<ge> 0" "CHR '','' \<notin> set (nonce (scram st0))"
    and "\<not> got_first_msg (scram st0)" "params_of c1 \<noteq> ''+''" "event_authenticate env c1 st0 = Some st1" "got_first_msg (scram st1)"
    and "params_of c2 \<noteq> ''+''" "event_authenticate env c2 st1 = Some st2"
  shows "abort_sent st1 st2 \<or> confirm_sent st1 st2 \<and>
    (\<exists>d n sig. get_decoded_msg (Some (params_of c1)) = Some (Some (d, n)) \<and>
      server_signed (senv env) (nonce (scram st0)) (cstr (chars d)) sig \<and> carries_signature c2 sig) \<and>
    (\<exists>st3 st4. event_authenticate env c1 (connect_hook st2) = Some st3 \<and> event_authenticate env c2 st3 = Some st4 \<and>
      confirm_sent st3 st4)"
proof -
  obtain r sc1 where f: "sasl_scram_sha_handle_serv_first_msg (senv env) (params_of c1) (scram st0) = Some (r, sc1)"
    "r \<noteq> -1" "st1 = st0\<lparr>scram := sc1\<lparr>got_first_msg := True\<rparr>\<rparr>"
  proof -
    obtain r sc1 where f: "sasl_scram_sha_handle_serv_first_msg (senv env) (params_of c1) (scram st0) = Some (r, sc1)"
      "st1 = (if r = -1 then abort_authentication env (st0\<lparr>scram := sc1\<rparr>) else st0\<lparr>scram := sc1\<lparr>got_first_msg := True\<rparr>\<rparr>)"
      using assms(4,6) by (auto simp: authenticate_data [OF assms(1,5)])
    moreover have "r \<noteq> -1" using f(2) first_got [OF f(1) assms(3)] assms(4,7) abort_got [of env "st0\<lparr>scram := sc1\<rparr>"] by auto
    ultimately show ?thesis using that by simp
  qed
  let ?b = "scram (connect_hook st2)"
  obtain d n sig where g: "get_decoded_msg (Some (params_of c1)) = Some (Some (d, n))"
    "server_signed (senv env) (nonce (scram st0)) (cstr (chars d)) sig" "nonce sc1 = nonce (scram st0)"
    "signature_expected_len sc1 = length sig" "take (length sig) (signature_expected sc1) = sig"
    using first_same [OF f(1,2) assms(3) refl] by blast
  have s1: "signature_expected_len (scram st1) = length sig" "take (length sig) (signature_expected (scram st1)) = sig"
    "nonce (scram st1) = nonce (scram st0)"
    using f(3) g(3-5) by simp_all
  note final = final_step [OF assms(1,2,7-9) s1(1,2)]
  show ?thesis
  proof (cases "abort_sent st1 st2")
    case False
    then have c: "confirm_sent st1 st2" "carries_signature c2 sig"
      "sasl_scram_sha_handle_serv_final_msg (params_of c2) (scram st1) = Some (0, (scram st1)\<lparr>complete_nonce := None\<rparr>)"
      "scram_core (scram st2) = scram_core ((scram st1)\<lparr>complete_nonce := None\<rparr>)"
      using final by blast+
    have nb: "nonce ?b = nonce (scram st0)" "\<not> got_first_msg ?b"
      using arg_cong [OF c(4), of nonce] s1(3) by (simp_all add: connect_hook_def scram_core_def)
    obtain sig' cn m where b: "sasl_scram_sha_handle_serv_first_msg (senv env) (params_of c1) ?b = Some (r, ?b\<lparr>complete_nonce := cn, sent := m,
      signature_expected := sig' @ drop (length sig') (signature_expected ?b), signature_expected_len := length sig'\<rparr>)"
      "signature_expected_len sc1 = length sig'" "take (length sig') (signature_expected sc1) = sig'"
      using first_same [OF f(1,2) assms(3) nb(1)] by blast
    have sig': "sig' = sig" using b(2,3) g(4,5) by simp
    define st3 where "st3 = (connect_hook st2)\<lparr>scram := ?b\<lparr>complete_nonce := cn, sent := m,
      signature_expected := sig @ drop (length sig) (signature_expected ?b), signature_expected_len := length sig, got_first_msg := True\<rparr>\<rparr>"
    have 3: "event_authenticate env c1 (connect_hook st2) = Some st3"
      using b(1) f(2) nb(2) unfolding authenticate_data [OF assms(1,5)] by (simp add: st3_def sig')
    have e3: "signature_expected_len (scram st3) = length sig" "take (length sig) (signature_expected (scram st3)) = sig"
      "got_first_msg (scram st3)"
      by (simp_all add: st3_def)
    have "sasl_scram_sha_handle_serv_final_msg (params_of c2) (scram st3) = Some (0, (scram st3)\<lparr>complete_nonce := None\<rparr>)"
      by (rule final_same [OF c(3)]) (use s1 e3 in simp_all)
    then have 4: "event_authenticate env c2 st3 = Some (send env ''AUTHENTICATE +'' (st3\<lparr>scram := (scram st3)\<lparr>complete_nonce := None\<rparr>\<rparr>))"
      using e3(3) unfolding authenticate_data [OF assms(1,8)] by simp
    moreover have "confirm_sent st3 (send env ''AUTHENTICATE +'' (st3\<lparr>scram := (scram st3)\<lparr>complete_nonce := None\<rparr>\<rparr>))"
      using assms(2) by (simp add: confirm_sent_def send_sent)
    ultimately show ?thesis using c(1,2) g(1,2) 3 by blast
  qed simp
qed

text \<open>
  Property C32. SCRAM authenticates the server in an exchange that the client has begun.  When the client has sent its first message,
  the server answers it and then sends its final message, either the client aborts or
  the final message carries, base64 coded, a signature that only who knows the password or the keys derived from it can
  compute, over the nonce that the client has drawn in this exchange and over this very answer; only then the client confirms.
  The nonce outlives the connection, and the server need not wait for a new one: after the next connection the same two messages
  are confirmed again, whoever sends them.  And the final message can be left out: at the numeric 903 the
  client ends the negotiation, in every state, without any signature.
\<close>

theorem scram_mutual_authentication:
  assumes "digests_ok (senv env)" "client_ready (senv env) user pw" "is_scram (get_sasl_mechanism (scfg env))"
    and "\<not> got_first_msg (scram st)" "params_of c0 = ''+''" "event_authenticate env c0 st = Some st0"
    and "params_of c1 \<noteq> ''+''" "event_authenticate env c1 st0 = Some st1" "got_first_msg (scram st1)"
    and "params_of c2 \<noteq> ''+''" "event_authenticate env c2 st1 = Some st2"
  shows "nonce (scram st0) = drawn_nonce (senv env) (numbers_drawn (scram st)) \<and>
    (abort_sent st1 st2 \<or> confirm_sent st1 st2 \<and>
      (\<exists>d n sig. get_decoded_msg (Some (params_of c1)) = Some (Some (d, n)) \<and>
        server_signed (senv env) (nonce (scram st0)) (cstr (chars d)) sig \<and> carries_signature c2 sig) \<and>
      (\<exists>st3 st4. event_authenticate env c1 (connect_hook st2) = Some st3 \<and> event_authenticate env c2 st3 = Some st4 \<and>
        confirm_sent st3 st4)) \<and>
    sent (scram (sasl_auth_success env c s)) = sent (scram s) @ [''CAP END'']"
proof -
  have net: "\<forall>m. net_ret (senv env) m \<ge> 0" using assms(1) by (simp add: digests_ok_def)
  let ?g = "generate_and_store_nonce (senv env) (scram st)"
  obtain m where "st0 = st\<lparr>scram := ?g\<lparr>sent := m\<rparr>\<rparr>"
    using assms(3,5,6) scram_names [OF assms(3)] first_msg_sent [OF assms(1,2), of "scram st"]
    by (auto simp: event_authenticate_def strings_match_iff Let_def)
  then have st0: "nonce (scram st0) = nonce ?g" "\<not> got_first_msg (scram st0)"
    using assms(4) by (simp_all add: generate_and_store_nonce_def)
  have comma: "CHR '','' \<notin> set (nonce (scram st0))" using nonce_drawn(1) [OF assms(1)] st0(1) by simp
  have "nonce (scram st0) = drawn_nonce (senv env) (numbers_drawn (scram st))"
    unfolding st0(1) by (simp add: generate_and_store_nonce_def drawn_nonce_def)
  moreover have "sent (scram (sasl_auth_success env c s)) = sent (scram s) @ [''CAP END'']"
    using net by (simp add: sasl_auth_success_def send_sent)
  ultimately show ?thesis using second_time [OF assms(3) net comma st0(2) assms(7-11)] by blast
qed

section \<open>Examples\<close>

definition with_params :: "string \<Rightarrow> irc_message_compo" where
  "with_params p = \<lparr>account = None, year = 0, month = 0, day = 0, hour = 0, minute = 0, second = 0, precision = 0,
     prefix' = None, command = None, params = Some p\<rparr>"

lemma with_params_of [simp]: "params (with_params p) = Some p" "params_of (with_params p) = p"
  by (simp_all add: with_params_def params_of_def)

definition example_sasl_env :: sasl_env where
  "example_sasl_env = \<lparr>senv = example_scram_env, g_sasl_authentication = True, g_ircv3_extensions = True,
     ssl_is_enabled = True, ec_key = Inl ''unable to find private key'', ecdsa_sign = (\<lambda>k d. None)\<rparr>"

definition example_sasl_start :: sasl_state where
  "example_sasl_start = connect_hook \<lparr>scram = scram_start, shown = []\<rparr>"

lemma example_mechanism: "get_sasl_mechanism (scfg example_sasl_env) = ''SCRAM-SHA-256''" "sasl_wanted example_sasl_env"
proof -
  have c: "scfg example_sasl_env = example_sasl_config" by (simp add: example_sasl_env_def example_scram_env_def)
  show m: "get_sasl_mechanism (scfg example_sasl_env) = ''SCRAM-SHA-256''"
    unfolding c by (simp add: get_sasl_mechanism_def Config_lookup example_sasl_lookup strings_match_iff)
  have "bool_true ''on''" by code_simp
  then have "sasl_is_enabled example_sasl_env"
    unfolding sasl_is_enabled_def c
    by (simp add: example_sasl_env_def config_bool_def get_entry example_sasl_lookup)
  then show "sasl_wanted example_sasl_env" unfolding sasl_wanted_def m by simp
qed

theorem cap_negotiation_witness:
  "\<exists>replies. replies \<noteq> [] \<and>
     sent_after example_sasl_env replies example_sasl_start = [''AUTHENTICATE SCRAM-SHA-256'']"
proof -
  let ?rs = "map (\<lambda>cap. (True, with_params (''me ACK :'' @ cap))) (wanted example_sasl_env)"
  have "is_reply cap True (with_params (''me ACK :'' @ cap))" for cap
    unfolding is_reply_def by (intro exI [of _ "''me''"]) (simp add: plain_word_def)
  then have "replies_to (wanted example_sasl_env) ?rs" by (auto simp: list_all2_conv_all_nth)
  moreover have "\<forall>m. net_ret (senv example_sasl_env) m \<ge> 0" by (simp add: example_sasl_env_def example_scram_env_def)
  moreover have "wanted example_sasl_env \<noteq> []" using example_mechanism(2) by (simp add: wanted_def)
  moreover have "is_sasl_mechanism_supported (Some ''SCRAM-SHA-256'')" by code_simp
  moreover have "sent (scram example_sasl_start) = []" by (simp add: example_sasl_start_def connect_hook_def scram_start_def)
  ultimately show ?thesis
    using cap_negotiation [of example_sasl_env ?rs _ example_sasl_start] example_mechanism
    by (intro exI [of _ ?rs]) (simp add: last_map)
qed

definition example_plain_config :: config where
  "example_plain_config =
     Config.hInstall ''sasl_username'' (Some ''user'') (Config.hInstall ''sasl_password'' (Some ''?pencil'') config_init)"

lemma example_plain_lookup:
  "cfg_lookup example_plain_config = [''sasl_password'' \<mapsto> ''?pencil'', ''sasl_username'' \<mapsto> ''user'']"
proof -
  define a where "a = Config.hInstall ''sasl_password'' (Some ''?pencil'') config_init"
  have a: "cfg_ok a" "cfg_lookup a = [''sasl_password'' \<mapsto> ''?pencil'']"
    using hInstall_ok [OF config_init_ok] by (simp_all add: a_def fun_eq_iff config_init_ok)
  then show ?thesis
    using hInstall_ok(2) [OF a(1), of "''sasl_username''" "''user''"] by (simp add: example_plain_config_def a_def)
qed

theorem plain_credentials_witness:
  "\<exists>m st'. event_authenticate (example_sasl_env\<lparr>senv := example_scram_env\<lparr>ss_config := example_plain_config\<rparr>,
       g_sasl_authentication := False, ssl_is_enabled := False\<rparr>) (with_params ''+'') example_sasl_start = Some st' \<and>
     sent (scram st') = [''AUTHENTICATE '' @ m] \<and>
     b64_octets m = Some (octets (''user'' @ [nul] @ ''user'' @ [nul] @ ''pencil''))"
proof -
  let ?e = "example_sasl_env\<lparr>senv := example_scram_env\<lparr>ss_config := example_plain_config\<rparr>,
       g_sasl_authentication := False, ssl_is_enabled := False\<rparr>"
  have c: "scfg ?e = example_plain_config" by simp
  have "get_sasl_mechanism (scfg ?e) = ''PLAIN''" "Config (scfg ?e) (Some ''sasl_username'') = ''user''"
    "Config (scfg ?e) (Some ''sasl_password'') = ''pencil''" "\<forall>m. net_ret (senv ?e) m \<ge> 0"
    unfolding c
    by (simp_all add: get_sasl_mechanism_def Config_lookup example_plain_lookup strings_match_iff pass_sym_def
        g_unencrypted_pass_sym_def example_scram_env_def)
  moreover have "sent (scram example_sasl_start) = []" by (simp add: example_sasl_start_def connect_hook_def scram_start_def)
  ultimately show ?thesis
    using plain_credentials [of ?e "with_params ''+''" "''user''" "''pencil''" example_sasl_start] by simp
qed

lemma encoding_not_plus: "encoding x \<noteq> ''+''"
proof
  assume "encoding x = ''+''"
  then have "4 * ((length x + 2) div 3) = 1" using length_encoding [of x] by simp
  then show False by presburger
qed

theorem scram_mutual_authentication_witness:
  "\<exists>c0 c1 c2 st0 st1 st2 st3 st4. event_authenticate example_sasl_env c0 example_sasl_start = Some st0 \<and>
     event_authenticate example_sasl_env c1 st0 = Some st1 \<and> event_authenticate example_sasl_env c2 st1 = Some st2 \<and>
     confirm_sent st1 st2 \<and> event_authenticate example_sasl_env c1 (connect_hook st2) = Some st3 \<and>
     event_authenticate example_sasl_env c2 st3 = Some st4 \<and> confirm_sent st3 st4"
proof -
  have senv: "senv example_sasl_env = example_scram_env" by (simp add: example_sasl_env_def)
  obtain m where m: "get_sasl_mechanism (scfg example_sasl_env) = m" "m = ''SCRAM-SHA-256''" using example_mechanism(1) by simp
  have names: "\<not> strings_match m ''ECDSA-NIST256P-CHALLENGE''" "\<not> strings_match m ''EXTERNAL''" "\<not> strings_match m ''PLAIN''" "is_scram m"
    by (simp_all add: m(2) is_scram_def strings_match_iff)
  let ?s0 = "example_sasl_start" and ?cn = "nonce (generate_and_store_nonce example_scram_env scram_start)"
  have s0: "scram ?s0 = scram_start" by (simp add: example_sasl_start_def connect_hook_def scram_start_def)
  obtain sc1 where sc1: "sasl_scram_sha_send_client_first_msg example_scram_env scram_start = Some (0, sc1)" "nonce sc1 = ?cn"
    "got_first_msg sc1 = False" "length (signature_expected sc1) = 64"
    using first_msg_sent [OF example_scram(1,2), of scram_start]
    by (simp add: generate_and_store_nonce_def scram_start_def)
  let ?s1 = "?s0\<lparr>scram := sc1\<rparr>"
  have e0: "event_authenticate example_sasl_env (with_params ''+'') ?s0 = Some ?s1"
    unfolding event_authenticate_def Let_def m(1) using sc1(1) names by (simp add: strings_match_iff senv s0)
  let ?first = "encoding (octets (server_first example_server ?cn))"
  note n = nonce_drawn [OF example_scram(1), of scram_start]
  obtain sc2 sig where sc2: "sasl_scram_sha_handle_serv_first_msg example_scram_env ?first sc1 = Some (0, sc2)"
    "signature_expected_len sc2 = length sig" "take (length sig) (signature_expected sc2) = sig" "length sig = 32"
    "length (signature_expected sc2) \<ge> length sig"
    using handle_first [OF example_scram sc1(2) n(2,1,3)] sc1(4)
    by (auto simp: example_scram_env_def example_evp get_stored_key_def Config_lookup example_sasl_lookup strings_match_iff)
  let ?s2 = "?s1\<lparr>scram := sc2\<lparr>got_first_msg := True\<rparr>\<rparr>"
  have e1: "event_authenticate example_sasl_env (with_params ?first) ?s1 = Some ?s2"
    unfolding event_authenticate_def handle_else_branch_def Let_def m(1)
    using sc2(1) sc1(3) names encoding_not_plus by (simp add: strings_match_iff senv del: encoding.simps)
  let ?final = "encoding (octets (''v='' @ encoding sig))"
  have "sig \<noteq> []" "length sig < 1000" using sc2(4) by auto
  then have "sasl_scram_sha_handle_serv_final_msg ?final (scram ?s2) = Some (0, (scram ?s2)\<lparr>complete_nonce := None\<rparr>)"
    using final_read [of sig "scram ?s2"] sc2(2-5) by simp
  then have e2: "event_authenticate example_sasl_env (with_params ?final) ?s2 =
      Some (send example_sasl_env ''AUTHENTICATE +'' (?s2\<lparr>scram := (scram ?s2)\<lparr>complete_nonce := None\<rparr>\<rparr>))" (is "_ = Some ?s3")
    unfolding event_authenticate_def handle_else_branch_def Let_def m(1)
    using names encoding_not_plus by (simp add: strings_match_iff del: encoding.simps)
  have plus: "confirm_sent ?s2 ?s3"
    unfolding confirm_sent_def by (subst send_sent) (simp_all add: senv example_scram_env_def)
  then have no: "\<not> abort_sent ?s2 ?s3" by (simp add: confirm_sent_def abort_sent_def)
  have p: "params_of (with_params ?first) \<noteq> ''+''" "params_of (with_params ?final) \<noteq> ''+''"
    using encoding_not_plus by (simp_all del: encoding.simps)
  have c: "client_ready (senv example_sasl_env) ''user'' ''pencil''" "digests_ok (senv example_sasl_env)"
    "is_scram (get_sasl_mechanism (scfg example_sasl_env))" "\<not> got_first_msg (scram ?s0)" "got_first_msg (scram ?s2)"
    using example_scram(1,2) names(4) m(1) senv s0 by (simp_all add: scram_start_def)
  show ?thesis
    using scram_mutual_authentication [OF c(2,1,3,4) with_params_of(2) e0 p(1) e1 c(5) p(2) e2, of "with_params []" ?s0] no e0 e1 e2
    by blast
qed

end
