(* ===== verification/Sasl_Command.thy ===== *)
theory Sasl_Command
  imports Sasl_Laws
begin

text \<open>
  The command \<^verbatim>\<open>/sasl\<close> of \<^verbatim>\<open>src/src/commands/sasl.cpp\<close> and the decryption of the
  password when the program starts, of \<^verbatim>\<open>src/src/nestHome.c\<close>.

  The state is the configuration, the file that was written last and the messages.  What OpenSSL
  does with key files and certificates is the environment; standard input is a list of lines.
\<close>

section \<open>State and environment\<close>

record cmd_env =
  c_conf :: conf_env
  c_crypt :: crypt_env
  g_home_dir :: "string option"
  path_max :: nat
  keygen_result :: "bool \<Rightarrow> bool \<times> string"
  pubkey_blob :: "string + 8 word list"
  x509_shown :: "string \<Rightarrow> string + string"

record cmd_state =
  c_config :: config
  c_file :: "(string \<times> string) option"
  c_out :: "(bool \<times> string) list"

definition g_sasl_pass_allowed_chars :: string where
  "g_sasl_pass_allowed_chars =
     ''!#$%&'' @ [CHR 0x27] @ ''()*+,-./0123456789:;<=>?@ABCDEFGHIJKLMNOPQRSTUVWXYZ['' @ [CHR 0x5C] @
     '']^_`abcdefghijklmnopqrstuvwxyz{|}~''"

definition password_min :: nat where "password_min = 8"
definition password_max :: nat where "password_max = 200"

definition sasl_cmds :: "string list" where
  "sasl_cmds =
     [''keygen'', ''pubkey'', ''mechanism '', ''mechanism ecdsa-nist256p-challenge'', ''mechanism external'', ''mechanism plain'',
      ''mechanism scram-sha-1'', ''mechanism scram-sha-256'', ''mechanism scram-sha-512'', ''username '', ''password '', ''passwd_s '',
      ''set '', ''set on'', ''set off'', ''x509 '', ''x509 client.pem'']"

definition get_list_of_matching_sasl_cmds :: "string \<Rightarrow> string list option" where
  "get_list_of_matching_sasl_cmds search_var =
     (let matches = filter (\<lambda>c. strncmp_eq search_var c (length search_var)) sasl_cmds
      in if matches = [] then None else Some matches)"

section \<open>Operations\<close>

definition output_message :: "bool \<Rightarrow> string \<Rightarrow> cmd_state \<Rightarrow> cmd_state" where
  "output_message is_error message st = st\<lparr>c_out := c_out st @ [(is_error, message)]\<rparr>"

definition sasl_keygen :: "cmd_env \<Rightarrow> bool \<Rightarrow> cmd_state \<Rightarrow> cmd_state" where
  "sasl_keygen env force st = (case keygen_result env force of (e, m) \<Rightarrow> output_message e m st)"

definition sasl_pubkey :: "cmd_env \<Rightarrow> cmd_state \<Rightarrow> cmd_state option" where
  "sasl_pubkey env st =
     (case pubkey_blob env of
        Inl e \<Rightarrow> Some (output_message True e st)
      | Inr blob \<Rightarrow>
          let encode_len = unat (crypt_get_base64_encode_length (word_of_nat (length blob))) in
          if encode_len = 0 then Some (output_message True ''encode length error'' st)
          else do {
            (ret, b) \<leftarrow> b64_encode blob (replicate encode_len nul) encode_len;
            Some (if ret = -1 then output_message True ''encoding error'' st
                  else output_message False (''public key is: '' @ cstr b) st) })"

definition modify_setting :: "string \<Rightarrow> string \<Rightarrow> cmd_state \<Rightarrow> bool \<times> cmd_state" where
  "modify_setting name new_value st =
     (case config_item_undef (Some name) (c_config st) of
        (e, t) \<Rightarrow>
          if e \<noteq> OK0 then (False, st\<lparr>c_config := t\<rparr>)
          else case config_item_install (Some name) (Some new_value) t of
                 (e, t) \<Rightarrow> (e = OK0, st\<lparr>c_config := t\<rparr>))"

definition save_to_config :: "cmd_env \<Rightarrow> cmd_state \<Rightarrow> cmd_state" where
  "save_to_config env st =
     (case g_home_dir env of
        None \<Rightarrow> st
      | Some home \<Rightarrow>
          let path = home @ ''/'' @ ''swirc'' @ ''.conf'' in
          if length path \<ge> path_max env then st
          else st\<lparr>c_file := Some (path, config_do_save (c_conf env) (c_config st))\<rparr>)"

text \<open>A changed setting is announced and saved, a failure is reported.\<close>

definition set_mechanism :: "cmd_env \<Rightarrow> string \<Rightarrow> cmd_state \<Rightarrow> cmd_state" where
  "set_mechanism env mechanism st =
     (let mechanism = strToUpper mechanism in
      if \<not> is_sasl_mechanism_supported (Some mechanism) then output_message True ''sasl mechanism unknown'' st
      else case modify_setting ''sasl_mechanism'' mechanism st of
             (ok, st) \<Rightarrow> if \<not> ok then output_message True ''set mechanism failed'' st
                         else save_to_config env (output_message False ''ok'' st))"

definition set_username :: "cmd_env \<Rightarrow> string \<Rightarrow> cmd_state \<Rightarrow> cmd_state" where
  "set_username env username st =
     (case modify_setting ''sasl_username'' username st of
        (ok, st) \<Rightarrow> if \<not> ok then output_message True ''set username failed'' st
                    else save_to_config env (output_message False ''set username ok'' st))"

definition set_password :: "cmd_env \<Rightarrow> string \<Rightarrow> cmd_state \<Rightarrow> cmd_state" where
  "set_password env password st =
     (case modify_setting ''sasl_password'' (g_unencrypted_pass_sym # password) st of
        (ok, st) \<Rightarrow> if \<not> ok then output_message True ''set password failed'' st
                    else save_to_config env (output_message False ''set password ok'' st))"

text \<open>The reason why a password is refused.\<close>

definition passwd_ok_check :: "string \<Rightarrow> string option" where
  "passwd_ok_check str =
     (if strings_match str [] then Some ''is empty''
      else if \<not> (\<forall>c\<in>set str. strchr g_sasl_pass_allowed_chars c \<noteq> None) then Some ''contains forbidden chars''
      else if length str < password_min then Some ''is too short''
      else if length str > password_max then Some ''is too long''
      else None)"

definition set_passwd_s :: "cmd_env \<Rightarrow> string \<Rightarrow> cmd_state \<Rightarrow> cmd_state option" where
  "set_passwd_s env data st =
     (let fail = (\<lambda>m. Some (output_message True m st));
          (sasl_pass, s1) = tok '' '' data; (encryption_pass, s2) = tok '' '' s1; (more, _) = tok '' '' s2
      in if strings_match data [] then fail ''no data''
         else case (sasl_pass, encryption_pass) of
           (Some sasl_pass, Some encryption_pass) \<Rightarrow>
             if more \<noteq> None then fail ''too many args''
             else if passwd_ok_check sasl_pass \<noteq> None then fail (''SASL pass: '' @ the (passwd_ok_check sasl_pass))
             else if passwd_ok_check encryption_pass \<noteq> None
             then fail (''Encryption pass: '' @ the (passwd_ok_check encryption_pass))
             else do {
               cout \<leftarrow> crypt_encrypt_str (c_crypt env) (Some sasl_pass) (Some encryption_pass) True;
               (case cout of
                  None \<Rightarrow> fail ''encryption failed''
                | Some c \<Rightarrow>
                    (case modify_setting ''sasl_password'' (g_encrypted_pass_sym # c) st of
                       (ok, st) \<Rightarrow>
                         Some (if \<not> ok then output_message True ''unable to modify setting'' st
                               else let st = save_to_config env st
                                    in output_message False (''sasl_password = '' @ Config (c_config st) (Some ''sasl_password'')) st))) }
         | _ \<Rightarrow> fail ''too few args'')"

definition set_state :: "cmd_env \<Rightarrow> string \<Rightarrow> cmd_state \<Rightarrow> cmd_state" where
  "set_state env state st =
     (let state = strToLower state in
      if \<not> strings_match state ''on'' \<and> \<not> strings_match state ''off'' then output_message True ''what? on or off?'' st
      else case modify_setting ''sasl'' state st of
             (ok, st) \<Rightarrow> if \<not> ok then output_message True ''set sasl on/off failed'' st
                         else save_to_config env (output_message False
                           (''SASL authentication is now '' @ (if strings_match state ''on'' then ''ON'' else ''OFF'')) st))"

definition set_x509 :: "cmd_env \<Rightarrow> string \<Rightarrow> cmd_state \<Rightarrow> cmd_state" where
  "set_x509 env filename st =
     (case modify_setting ''sasl_x509'' filename st of
        (ok, st) \<Rightarrow>
          if \<not> ok then output_message True ''set x509 failed'' st
          else
            let st = save_to_config env (output_message False ''set x509 ok'' st) in
            case x509_shown env ((case g_home_dir env of Some h \<Rightarrow> h | None \<Rightarrow> []) @ ''/'' @
                Config (c_config st) (Some ''sasl_x509'')) of
              Inl e \<Rightarrow> output_message True (''fingerprint: '' @ e) st
            | Inr fp \<Rightarrow> output_message False fp st)"

text \<open>\<^verbatim>\<open>sscanf(data, "<literal> %<n>s", \<dots>)\<close>.\<close>

definition scan_word :: "string \<Rightarrow> nat \<Rightarrow> string \<Rightarrow> string option" where
  "scan_word lit n data =
     (if strncmp_eq data lit (length lit)
      then let w = takeWhile (\<lambda>c. \<not> isspace (code c)) (dropWhile (\<lambda>c. isspace (code c)) (drop (length lit) data))
           in if w = [] then None else Some (take n w)
      else None)"

definition cmd_sasl :: "cmd_env \<Rightarrow> string \<Rightarrow> cmd_state \<Rightarrow> cmd_state option" where
  "cmd_sasl env data st =
     (if strings_match data ''keygen'' \<or> strings_match data ''KEYGEN'' then Some (sasl_keygen env False st)
      else if strings_match data ''keygen --force'' \<or> strings_match data ''KEYGEN --force'' then Some (sasl_keygen env True st)
      else if strings_match data ''pubkey'' \<or> strings_match data ''PUBKEY'' then sasl_pubkey env st
      else case scan_word ''mechanism'' 30 data of Some w \<Rightarrow> Some (set_mechanism env w st)
      | None \<Rightarrow> case scan_word ''username'' 100 data of Some w \<Rightarrow> Some (set_username env w st)
      | None \<Rightarrow> case scan_word ''password'' 300 data of Some w \<Rightarrow> Some (set_password env w st)
      | None \<Rightarrow> if strncmp_eq data ''passwd_s '' 9 then set_passwd_s env (drop 9 data) st
      else case scan_word ''set'' 10 data of Some w \<Rightarrow> Some (set_state env w st)
      | None \<Rightarrow> case scan_word ''x509'' 50 data of Some w \<Rightarrow> Some (set_x509 env w st)
      | None \<Rightarrow> Some (output_message True ''bogus operation'' st))"

section \<open>At the start of the program\<close>

definition nest_modify_setting :: "string \<Rightarrow> string \<Rightarrow> config \<Rightarrow> config" where
  "nest_modify_setting name new_value t =
     snd (config_item_install (Some name) (Some new_value) (snd (config_item_undef (Some name) t)))"

definition nest_passwd_ok_check :: "string \<Rightarrow> bool" where
  "nest_passwd_ok_check str \<longleftrightarrow> (\<forall>c\<in>set str. strchr g_sasl_pass_allowed_chars c \<noteq> None)"

text \<open>
  The lines that are typed, without the newline; a line of more than 398 characters does not fit and
  is discarded.  The end of the input ends the program: \<^const>\<open>None\<close>.  The result is the configuration,
  the saved encrypted password and what is reported.
\<close>

fun prompt_for_decryption ::
    "crypt_env \<Rightarrow> string \<Rightarrow> string list \<Rightarrow> config \<Rightarrow> (config \<times> string option \<times> string) option" where
  "prompt_for_decryption env str [] t = None"
| "prompt_for_decryption env str (pass # lines) t =
     (if length pass > 398 then prompt_for_decryption env str lines t
      else if strings_match pass [] then prompt_for_decryption env str lines t
      else do {
        dc_out \<leftarrow> crypt_decrypt_str env (Some str) (Some pass) True;
        Some (case dc_out of
                None \<Rightarrow> (t, None, ''Decryption failed'')
              | Some dc \<Rightarrow>
                  if \<not> nest_passwd_ok_check dc then (t, None, ''Wrong password'')
                  else (nest_modify_setting ''sasl_password'' (g_decrypted_pass_sym # dc) t, Some str,
                    ''The password seems reasonable'')) })"

text \<open>\<^verbatim>\<open>abort()\<close> is \<^const>\<open>None\<close> as well.\<close>

definition read_config_post_check ::
    "crypt_env \<Rightarrow> bool \<Rightarrow> string list \<Rightarrow> config \<Rightarrow> (config \<times> string option \<times> string) option" where
  "read_config_post_check env sasl_enabled lines t =
     (if get_sasl_passwd_type t = g_decrypted_pass_sym then None
      else
        let mech = Config t (Some ''sasl_mechanism''); cp = Config t (Some ''sasl_password'') in
        if sasl_enabled \<and> is_sasl_mechanism_supported (Some mech) \<and> \<not> strings_match mech ''ECDSA-NIST256P-CHALLENGE''
          \<and> \<not> strings_match mech ''EXTERNAL'' \<and> get_sasl_passwd_type t = g_encrypted_pass_sym \<and> \<not> strings_match cp []
        then prompt_for_decryption env cp lines t
        else Some (t, None, []))"

section \<open>The password\<close>

lemma modify_ok:
  assumes "cfg_ok (c_config st)" "cfg_lookup (c_config st) n \<noteq> None"
  shows "\<exists>t. modify_setting n v st = (True, st\<lparr>c_config := t\<rparr>) \<and> cfg_ok t \<and> cfg_lookup t = (cfg_lookup (c_config st))(n \<mapsto> v) \<and>
    nest_modify_setting n v (c_config st) = t"
proof -
  obtain w where w: "cfg_lookup (c_config st) n = Some w" using assms(2) by blast
  obtain t' where u: "config_item_undef (Some n) (c_config st) = (OK0, t')" "cfg_ok t'"
    "cfg_lookup t' = (cfg_lookup (c_config st))(n := None)"
    using undef_ok [OF assms(1) w] by blast
  have "config_item_install (Some n) (Some v) t' = (OK0, Config.hInstall n (Some v) t')"
    using u(3) by (simp add: config_item_install_def get_entry)
  then show ?thesis
    using u hInstall_ok [OF u(2), of n v] by (simp add: modify_setting_def nest_modify_setting_def)
qed

lemma modify_nest:
  assumes "cfg_ok t" "cfg_lookup t n \<noteq> None"
  shows "cfg_ok (nest_modify_setting n v t)" "cfg_lookup (nest_modify_setting n v t) = (cfg_lookup t)(n \<mapsto> v)"
  using modify_ok [of "\<lparr>c_config = t, c_file = None, c_out = []\<rparr>" n v] assms by auto

lemma pass_chars:
  assumes "passwd_ok_check p = None"
  shows "p \<noteq> []" "CHR '' '' \<notin> set p" "nul \<notin> set p" "8 \<le> length p" "length p \<le> 200" "nest_passwd_ok_check p"
proof -
  have c: "c \<in> set g_sasl_pass_allowed_chars" if "c \<in> set p" for c
    using assms that by (auto simp: passwd_ok_check_def strchr_not_None split: if_splits)
  have "CHR '' '' \<notin> set g_sasl_pass_allowed_chars" "nul \<notin> set g_sasl_pass_allowed_chars"
    by (simp_all add: g_sasl_pass_allowed_chars_def nul_def)
  then show "CHR '' '' \<notin> set p" "nul \<notin> set p" using c by blast+
  show "p \<noteq> []" "8 \<le> length p" "length p \<le> 200" "nest_passwd_ok_check p"
    using assms by (auto simp: passwd_ok_check_def nest_passwd_ok_check_def strings_match_iff password_min_def
        password_max_def split: if_splits)
qed

text \<open>
  Property C34. The life of an encrypted SASL password.  \<^verbatim>\<open>/sasl passwd_s\<close> stores it encrypted; in the running program
  the encrypted text, not the password, is then what authentication uses.  When the program is
  started again with that setting and the right encryption password is typed, after any number of
  empty or too long lines, the password is in use, and what would be saved is the encrypted text
  again and never the password.
\<close>

theorem sasl_password_cycle:
  assumes "stream_cipher (c_crypt env)" "bytes_to_key (c_crypt env) (octets enc) = Some (key, iv)"
    and "passwd_ok_check pw = None" "passwd_ok_check enc = None"
    and "cfg_ok (c_config st)" "cfg_lookup (c_config st) ''sasl_password'' \<noteq> None"
    and "\<forall>l\<in>set bad. l = [] \<or> length l > 398" "setting_name d = ''sasl_password''"
  shows "\<exists>e st'. cmd_sasl env (''passwd_s '' @ pw @ '' '' @ enc) st = Some st' \<and>
    crypt_encrypt_str (c_crypt env) (Some pw) (Some enc) True = Some (Some e) \<and>
    Config (c_config st') (Some ''sasl_password'') = e \<and> get_sasl_passwd_type (c_config st') = g_encrypted_pass_sym \<and>
    (\<exists>t. prompt_for_decryption (c_crypt env) e (bad @ enc # rest) (c_config st') =
        Some (t, Some e, ''The password seems reasonable'') \<and>
      Config t (Some ''sasl_password'') = pw \<and>
      (\<forall>n. n \<noteq> ''sasl_password'' \<longrightarrow> Config t (Some n) = Config (c_config st) (Some n)) \<and>
      saved_value ((c_conf env)\<lparr>encrypted_sasl_pass := Some e\<rparr>) t d = g_encrypted_pass_sym # e)"
proof -
  note p = pass_chars [OF assms(3)] and q = pass_chars [OF assms(4)]
  obtain e where e: "crypt_encrypt_str (c_crypt env) (Some pw) (Some enc) True = Some (Some e)"
    "crypt_decrypt_str (c_crypt env) (Some e) (Some enc) True = Some (Some pw)"
    using crypt_roundtrip [OF assms(1,2) p(3), of True] p(5) by auto
  let ?n = "''sasl_password''" and ?data = "''passwd_s '' @ pw @ '' '' @ enc"
  obtain t where t: "modify_setting ?n (g_encrypted_pass_sym # e) st = (True, st\<lparr>c_config := t\<rparr>)" "cfg_ok t"
    "cfg_lookup t = (cfg_lookup (c_config st))(?n \<mapsto> g_encrypted_pass_sym # e)"
    using modify_ok [OF assms(5,6)] by blast
  have "tok '' '' (pw @ CHR '' '' # enc) = (Some pw, enc)" "tok '' '' enc = (Some enc, [])" "tok '' '' [] = (None, [])"
    using tok_word(1) [of pw "'' ''" "CHR '' ''" enc] tok_word(2) [of enc "'' ''"] p(1,2) q(1,2)
    by (auto simp: tok_def)
  then obtain st' where st': "set_passwd_s env (pw @ CHR '' '' # enc) st = Some st'" "c_config st' = t"
    using e(1) t(1) assms(3,4) p(1)
    by (auto simp: set_passwd_s_def strings_match_iff Let_def output_message_def save_to_config_def split: option.splits)
  have "scan_word w m ?data = None" if "w = ''mechanism'' \<or> w = ''username'' \<or> w = ''password''" for w m
    using that by (auto simp: scan_word_def strncmp_eq_def)
  then have "cmd_sasl env ?data st = Some st'"
    using st'(1) by (simp add: cmd_sasl_def strings_match_iff strncmp_eq_def)
  moreover have "Config t (Some ?n) = e" "get_sasl_passwd_type t = g_encrypted_pass_sym"
    using t(3) by (simp_all add: Config_lookup get_sasl_passwd_type_def get_entry pass_sym_def)
  moreover have "\<exists>t'. prompt_for_decryption (c_crypt env) e (bad @ enc # rest) t =
        Some (t', Some e, ''The password seems reasonable'') \<and>
      Config t' (Some ?n) = pw \<and> (\<forall>n. n \<noteq> ?n \<longrightarrow> Config t' (Some n) = Config (c_config st) (Some n)) \<and>
      saved_value ((c_conf env)\<lparr>encrypted_sasl_pass := Some e\<rparr>) t' d = g_encrypted_pass_sym # e"
  proof -
    let ?t = "nest_modify_setting ?n (g_decrypted_pass_sym # pw) t"
    have m: "cfg_lookup ?t = (cfg_lookup (c_config st))(?n \<mapsto> g_decrypted_pass_sym # pw)"
      using modify_nest(2) [OF t(2), of ?n] t(3) by simp
    have "prompt_for_decryption (c_crypt env) e (enc # rest) t = Some (?t, Some e, ''The password seems reasonable'')"
      using e(2) p(6) q(1,5) by (simp add: strings_match_iff)
    moreover have "prompt_for_decryption (c_crypt env) e (bad @ ls) t = prompt_for_decryption (c_crypt env) e ls t" for ls
      using assms(7) by (induction bad) (auto simp: strings_match_iff)
    moreover have "Config ?t (Some ?n) = pw" "get_sasl_passwd_type ?t = g_decrypted_pass_sym"
      "\<forall>n. n \<noteq> ?n \<longrightarrow> Config ?t (Some n) = Config (c_config st) (Some n)"
      using m by (simp_all add: Config_lookup get_sasl_passwd_type_def get_entry pass_sym_def)
    ultimately show ?thesis using assms(8) by (simp add: saved_value_def strings_match_iff)
  qed
  ultimately show ?thesis using e(1) st'(2) by blast
qed

definition example_cmd_env :: cmd_env where
  "example_cmd_env = \<lparr>c_conf = example_conf_env, c_crypt = example_crypt_env, g_home_dir = Some ''/home/u/.swirc'', path_max = 4096,
     keygen_result = (\<lambda>f. (False, ''key generation successful'')), pubkey_blob = Inl ''unable to find private key'',
     x509_shown = (\<lambda>f. Inl ''not found'')\<rparr>"

theorem sasl_password_cycle_witness:
  "\<exists>e st'. cmd_sasl example_cmd_env ''passwd_s hunter22 swordfish'' \<lparr>c_config = example_sasl_config, c_file = None, c_out = []\<rparr> = Some st' \<and>
    (\<exists>t. prompt_for_decryption example_crypt_env e [[], ''swordfish''] (c_config st') =
        Some (t, Some e, ''The password seems reasonable'') \<and> Config t (Some ''sasl_password'') = ''hunter22'')"
proof -
  have p: "passwd_ok_check ''hunter22'' = None" "passwd_ok_check ''swordfish'' = None" by code_simp+
  have c: "cfg_ok example_sasl_config" "cfg_lookup example_sasl_config ''sasl_password'' \<noteq> None"
    using example_sasl_ok by (simp_all add: example_sasl_lookup)
  show ?thesis
    using sasl_password_cycle [of example_cmd_env "''swordfish''" "rev (octets ''swordfish'')" "octets ''swordfish''" "''hunter22''"
        "\<lparr>c_config = example_sasl_config, c_file = None, c_out = []\<rparr>" "[[]]" "Config.cdv ''sasl_password'' TYPE_STRING 1 []" "[]"]
      example_stream p c
    by (auto simp: example_cmd_env_def example_crypt_env_def)
qed

end
