(* ===== verification/Command_Help.thy ===== *)
theory Command_Help
  imports C_String
begin

text \<open>
  The help texts of the commands, \<^verbatim>\<open>src/src/include/commandhelp.h\<close>: the lines that
  \<^verbatim>\<open>/help\<close> shows, before they are translated.
\<close>

definition admin_usage :: "string list" where
  "admin_usage =
     [''usage: /admin [target]'',
      [],
      ''The admin command is used to find information about the administrator'' @ [CHR 0x0A] @
      ''of the given server, or current server if '' @ [CHR 0x27] @ ''target'' @ [CHR 0x27] @ '' parameter is omit-'' @ [CHR 0x0A] @
      ''ted.'',
      []]"

definition announce_usage :: "string list" where
  "announce_usage =
     [''usage:'',
      ''    /announce [doit|list|new|rm] [args]'',
      ''    /announce doit <#>'',
      ''    /announce list'',
      ''    /announce new <[yes|no]> <chan1[,chan2][...]> <msg>'',
      ''    /announce rm <[#|all]>'',
      [],
      ''Send announcements on IRC.'',
      []]"

definition away_usage :: "string list" where
  "away_usage =
     [''usage: /away [reason]'',
      [],
      ''Marks yourself as being away (with a reason). If the reason is omitted'' @ [CHR 0x0A] @
      ''you will be marked as no longer being away.'',
      []]"

definition ban_usage :: "string list" where
  "ban_usage =
     [''usage: /ban <mask>'',
      [],
      ''Sets a channel ban which rejects all users whose '' @ [CHR 0x27] @ ''nick!user@host'' @ [CHR 0x27] @ [CHR 0x0A] @
      ''matches the provided mask from joining the channel. Wildcards are okay'' @ [CHR 0x0A] @
      ''and the active window must be an IRC channel.'',
      []]"

definition banlist_usage :: "string list" where
  "banlist_usage =
     [''usage: /banlist [channel]'',
      [],
      ''Outputs a channel'' @ [CHR 0x27] @ ''s banlist. If the channel argument is left empty and'' @ [CHR 0x0A] @
      ''the active window is an IRC channel, Swirc will output the banlist for'' @ [CHR 0x0A] @
      ''that channel.'',
      []]"

definition beep_usage :: "string list" where
  "beep_usage =
     [''usage: /beep <nickname>'',
      [],
      ''Send beeps. (ICB only)'',
      []]"

definition boot_usage :: "string list" where
  "boot_usage =
     [''usage: /boot <victim>'',
      [],
      ''Kick a user out of your group. (ICB only)'',
      []]"

definition chanserv_usage :: "string list" where
  "chanserv_usage =
     [''usage: /chanserv <[service hostname | --]> <command> [...]'',
      [],
      ''Communicate with your IRC network'' @ [CHR 0x27] @ ''s channel service. If the initial'' @ [CHR 0x0A] @
      ''argument equals to '' @ [CHR 0x27] @ ''--'' @ [CHR 0x27] @ '', then the value of setting '' @ [CHR 0x27] @ ''chanserv_host'' @ [CHR 0x27] @ '' is'' @ [CHR 0x0A] @
      ''used as a service hostname.'',
      [],
      [CHR 0x02] @ ''SEE ALSO'' @ [CHR 0x02],
      [],
      ''    /nickserv'',
      []]"

definition ctcp_usage :: "string list" where
  "ctcp_usage =
     [''usage: /ctcp <query> <target>'',
      [],
      ''Send a CTCP query to '' @ [CHR 0x27] @ ''target'' @ [CHR 0x27] @ '', which is either a nickname or an IRC'' @ [CHR 0x0A] @
      ''channel.'',
      [],
      ''Query can be either:'',
      ''  - time'',
      ''  - userinfo'',
      ''  - version'',
      []]"

definition cap_usage :: "string list" where
  "cap_usage =
     [''usage: /cap [ls | list]'',
      [],
      ''Lists the (IRCv3) capabilities supported by the server and/or the'' @ [CHR 0x0A] @
      ''capabilities associated with the active connection.'',
      []]"

definition cleartoasts_usage :: "string list" where
  "cleartoasts_usage =
     [''usage: /cleartoasts'',
      [],
      ''On Windows Swirc sends toast notifications. By running this command'' @ [CHR 0x0A] @
      ''all notifications associated with Swirc will be cleared.'',
      []]"

definition close_usage :: "string list" where
  "close_usage =
     [''usage: /close'',
      [],
      ''Closes the active window. It'' @ [CHR 0x27] @ ''s not possible to close the status'' @ [CHR 0x0A] @
      ''window. And while connected it'' @ [CHR 0x27] @ ''s not possible to close a channel, in'' @ [CHR 0x0A] @
      ''that case instead use '' @ [CHR 0x27] @ ''/part'' @ [CHR 0x27] @ ''.'',
      []]"

definition colormap_usage :: "string list" where
  "colormap_usage =
     [''usage: /colormap'',
      [],
      ''Outputs information about colors.'',
      []]"

definition connect_usage :: "string list" where
  "connect_usage =
     [''usage: /connect [-tls] <server[:port]>'',
      [],
      ''Connect to given server.'',
      [],
      ''If the port is omitted port 6667 will be chosen. And if the port is'' @ [CHR 0x0A] @
      ''7326 ICB mode is turned on automatically. Further, if the port is 6697'' @ [CHR 0x0A] @
      ''Swirc attempts to initiate a TLS/SSL connection, as well as if '' @ [CHR 0x27] @ ''-tls'' @ [CHR 0x27] @ [CHR 0x0A] @
      ''is entered.'',
      [],
      ''It is possible to connect to a certain IRC network by only entering'' @ [CHR 0x0A] @
      ''the network name. For example: '' @ [CHR 0x27] @ ''/connect -tls libera'' @ [CHR 0x27] @ '', will connect to'' @ [CHR 0x0A] @
      ''Libera Chat using an encrypted connection. Preprogrammed network names'' @ [CHR 0x0A] @
      ''are:'',
      [],
      ''    - afternet'',
      ''    - alphachat'',
      ''    - anonops'',
      ''    - efnet'',
      ''    - freenode'',
      ''    - ircnet'',
      ''    - ircnow'',
      ''    - libera'',
      ''    - oftc'',
      ''    - quakenet'',
      ''    - undernet'',
      []]"

definition cycle_usage :: "string list" where
  "cycle_usage =
     [''usage: /cycle [channel]'',
      [],
      ''Cycle a channel, i.e. '' @ [CHR 0x27] @ ''/part'' @ [CHR 0x27] @ '' plus '' @ [CHR 0x27] @ ''/join'' @ [CHR 0x27] @ ''. If the channel argument is'' @ [CHR 0x0A] @
      ''omitted and the active window is an IRC channel, the client will cycle'' @ [CHR 0x0A] @
      ''that channel.'',
      []]"

definition dcc_usage :: "string list" where
  "dcc_usage =
     [''usage:'',
      ''    /dcc [clear|get|list|ls|send] [args]'',
      ''    /dcc clear [get|send|completed|all]'',
      ''    /dcc get <nick> <file>'',
      ''    /dcc list [get|send|all]'',
      ''    /dcc ls [up|down]'',
      ''    /dcc send <nick> <file>'',
      [],
      ''Get and send files. Swirc implements its own variant of DCC meaning'' @ [CHR 0x0A] @
      ''it'' @ [CHR 0x27] @ ''s incompatible with other IRC clients. Transport Layer Security is'' @ [CHR 0x0A] @
      ''forced and for now the DCC feature isn'' @ [CHR 0x27] @ ''t available in ICB mode.'',
      []]"

definition deop_usage :: "string list" where
  "deop_usage =
     [''usage: /deop <nick>'',
      [],
      ''Remove the channel operator privilege from another user.'',
      []]"

definition devoice_usage :: "string list" where
  "devoice_usage =
     [''usage: /devoice <nick>'',
      [],
      ''Remove the channel voice privilege from another user.'',
      []]"

definition die_usage :: "string list" where
  "die_usage =
     [''usage: /die [--I-am-sure]'',
      [],
      ''An IRC operator can use this command to shutdown the server. Please'' @ [CHR 0x0A] @
      ''confirm that this is what you really want by typing '' @ [CHR 0x27] @ ''--I-am-sure'' @ [CHR 0x27] @ ''.'',
      []]"

definition disconnect_usage :: "string list" where
  "disconnect_usage =
     [''usage: /disconnect [message]'',
      [],
      ''Disconnect from IRC, but don'' @ [CHR 0x27] @ ''t quit the program. A disconnect message'' @ [CHR 0x0A] @
      ''is optional.'',
      []]"

definition echo_usage :: "string list" where
  "echo_usage =
     [''usage: /echo <text>'',
      [],
      ''Writes text to the current window without sending anything.'',
      [],
      [CHR 0x02] @ ''EXAMPLE'' @ [CHR 0x02],
      [],
      ''Echo '' @ [CHR 0x27] @ ''Hello World'' @ [CHR 0x27] @ '':'',
      ''    /echo Hello World'',
      []]"

definition exlist_usage :: "string list" where
  "exlist_usage =
     [''usage: /exlist [channel]'',
      [],
      ''Outputs a channel'' @ [CHR 0x27] @ ''s exception list. An exception mask (+e) overrides a'' @ [CHR 0x0A] @
      ''ban mask. If the channel argument is omitted and the active window is'' @ [CHR 0x0A] @
      ''an IRC channel, the client will output the exception list for that'' @ [CHR 0x0A] @
      ''channel.'',
      []]"

definition fetchdic_usage :: "string list" where
  "fetchdic_usage =
     [''usage: /fetchdic [name]'',
      [],
      ''Fetches spelling dictionaries. If the name argument is omitted Swirc'' @ [CHR 0x0A] @
      ''will output a list of available dictionaries. The list is obtained'' @ [CHR 0x0A] @
      ''remotely which means its contents can be updated at any time.'',
      [],
      [CHR 0x02] @ ''EXAMPLE'' @ [CHR 0x02],
      [],
      ''Fetch the american english dictionary:'',
      ''    /fetchdic en_US'',
      []]"

definition ftp_usage :: "string list" where
  "ftp_usage =
     [''usage:'',
      ''    /ftp cd <path>'',
      ''    /ftp del <path>'',
      ''    /ftp exit'',
      ''    /ftp get <file>'',
      ''    /ftp login'',
      ''    /ftp ls [dir|up|down]'',
      ''    /ftp mkdir <path>'',
      ''    /ftp pwd'',
      ''    /ftp rmdir <path>'',
      ''    /ftp send <file>'',
      ''    /ftp system'',
      [],
      ''Retrieve and store files on a FTP server. (The communication is done'' @ [CHR 0x0A] @
      ''in clear text, i.e. unencrypted.)'',
      []]"

definition gline_usage :: "string list" where
  "gline_usage =
     [''usage: /gline <nick!user@host> [<duration> :<reason>]'',
      [],
      ''Network-wide bans.'',
      [],
      ''When a client matches a G-line it cannot connect to ANY server on the'' @ [CHR 0x0A] @
      ''IRC network for '' @ [CHR 0x27] @ ''duration'' @ [CHR 0x27] @ '' seconds. If the duration is zero then the'' @ [CHR 0x0A] @
      ''G-line will be permanent.'',
      [],
      ''(If no duration and no reason is given the G-line is deleted.)'',
      [],
      [CHR 0x02] @ ''SEE ALSO'' @ [CHR 0x02],
      [],
      ''    /kline'',
      []]"

definition group_usage :: "string list" where
  "group_usage =
     [''usage: /group <name>'',
      [],
      ''Changes ICB group.'',
      []]"

definition help_usage :: "string list" where
  "help_usage =
     [''usage: /help [command]'',
      [],
      ''Outputs a list of all available commands.'',
      ''(Or help for a specific command.)'',
      []]"

definition ignore_usage :: "string list" where
  "ignore_usage =
     [''usage: /ignore [regex]'',
      [],
      ''Ignores all '' @ [CHR 0x27] @ ''nick!user@host'' @ [CHR 0x27] @ '' that matches the given regular'' @ [CHR 0x0A] @
      ''expression, this by using the POSIX basic regular expression'' @ [CHR 0x0A] @
      ''grammar. This command isn'' @ [CHR 0x27] @ ''t to be used by beginners and I advice you'' @ [CHR 0x0A] @
      ''to be careful when using it. I highly recommend the use of:'',
      [],
      ''    1. ^  Matches the starting position within the string, if it is'',
      ''          the first character of the regular expression.'',
      ''    2. $  Matches the ending position of the string, if it is the last'',
      ''          character of the regular expression.'',
      [],
      [CHR 0x02] @ ''EXAMPLES'' @ [CHR 0x02],
      [],
      ''Ignore nickname '' @ [CHR 0x27] @ ''troll'' @ [CHR 0x27] @ '':'',
      ''    /ignore ^troll!.*@.*$'',
      [],
      ''Ignore all users with username '' @ [CHR 0x27] @ ''troll'' @ [CHR 0x27] @ '':'',
      ''    /ignore ^.*!troll@.*$'',
      [],
      ''Ignore all users with hostname '' @ [CHR 0x27] @ ''insecure.org'' @ [CHR 0x27] @ '':'',
      ''    /ignore ^.*!.*@insecure'' @ [CHR 0x5C] @ ''.org$'',
      [],
      ''Ignore all users with a Chinese domain (.cn):'',
      ''    /ignore ^.*!.*@.*'' @ [CHR 0x5C] @ ''.cn$'',
      []]"

definition ilist_usage :: "string list" where
  "ilist_usage =
     [''usage: /ilist [channel]'',
      [],
      ''Outputs a channel'' @ [CHR 0x27] @ ''s invitation list. An invitation mask (+I) overrides'' @ [CHR 0x0A] @
      ''the invite-only flag (+i). If the channel argument is omitted and the'' @ [CHR 0x0A] @
      ''active window is an IRC channel, the client will output the invitation'' @ [CHR 0x0A] @
      ''list for that channel.'',
      []]"

definition info_usage :: "string list" where
  "info_usage =
     [''usage: /info [target]'',
      [],
      ''The info command returns information about the server.'',
      []]"

definition invite_usage :: "string list" where
  "invite_usage =
     [''usage: /invite <targ_nick> <channel>'',
      [],
      ''Invites '' @ [CHR 0x27] @ ''targ_nick'' @ [CHR 0x27] @ '' to a channel.'',
      []]"

definition ison_usage :: "string list" where
  "ison_usage =
     [''usage: /ison <nick1> [nick2] [nick3] [...]'',
      [],
      ''Checks whether users are on IRC.'',
      []]"

definition join_usage :: "string list" where
  "join_usage =
     [''usage: /join <channel> [key]'',
      [],
      ''Joins a channel (optionally by using a key).'',
      [],
      [CHR 0x02] @ ''EXAMPLES'' @ [CHR 0x02],
      [],
      ''Join a channel with name '' @ [CHR 0x27] @ ''libera'' @ [CHR 0x27] @ '':'',
      ''    /join #libera'',
      [],
      ''Join a key-protected channel:'',
      ''    /join #secret KeyToJoin'',
      []]"

definition kick_usage :: "string list" where
  "kick_usage =
     [''usage: /kick <nick1[,nick2][,nick3][...]> [reason]'',
      [],
      ''Kicks one or more users out of a channel. The users are given in a'' @ [CHR 0x0A] @
      ''comma-separated list. A reason is optional and the active window must'' @ [CHR 0x0A] @
      ''be an IRC channel.'',
      []]"

definition kickban_usage :: "string list" where
  "kickban_usage =
     [''usage: /kickban <nick> <mask> [reason]'',
      [],
      ''Set a channel ban with given '' @ [CHR 0x27] @ ''mask'' @ [CHR 0x27] @ '' and kick the user '' @ [CHR 0x27] @ ''nick'' @ [CHR 0x27] @ '' out of a'' @ [CHR 0x0A] @
      ''channel. A reason is optional and the active window must be an IRC'' @ [CHR 0x0A] @
      ''channel.'',
      []]"

definition kill_usage :: "string list" where
  "kill_usage =
     [''usage: /kill <nickname> <comment>'',
      [],
      ''Disconnect a user from the connected network.'',
      ''(Requires IRC op privilege.)'',
      []]"

definition kline_usage :: "string list" where
  "kline_usage =
     [''usage: /kline <nick!user@host> [<duration> :<reason>]'',
      [],
      ''Server-local bans.'',
      [],
      ''When a client matches a K-line it cannot connect to the local server'' @ [CHR 0x0A] @
      ''for '' @ [CHR 0x27] @ ''duration'' @ [CHR 0x27] @ '' seconds. If the duration is zero then the K-line will'' @ [CHR 0x0A] @
      ''be permanent.'',
      [],
      ''(If no duration and no reason is given the K-line is deleted.)'',
      [],
      [CHR 0x02] @ ''SEE ALSO'' @ [CHR 0x02],
      [],
      ''    /gline'',
      []]"

definition list_usage :: "string list" where
  "list_usage =
     [''usage: /list [<max_users[,>min_users][,pattern][...]]'',
      [],
      ''Lists channels and their topics. Without any arguments the list is'' @ [CHR 0x0A] @
      ''HUGE. For example, '' @ [CHR 0x27] @ ''/list >1500'' @ [CHR 0x27] @ '' will only list channels that have'' @ [CHR 0x0A] @
      ''more than 1500 users.'',
      [],
      ''Depending on the IRC server software used by your network the usage'' @ [CHR 0x0A] @
      ''may differ.'',
      []]"

definition log_usage :: "string list" where
  "log_usage =
     [''usage:'',
      ''    /log <[clear|ls|rm|scandir|view]> [args]'',
      ''    /log clear'',
      ''    /log ls <[dir|scanned]>'',
      ''    /log rm <#>'',
      ''    /log scandir'',
      ''    /log view <#>'',
      [],
      ''Management of log files.'',
      []]"

definition me_usage :: "string list" where
  "me_usage =
     [''usage: /me <message>'',
      [],
      ''Send an '' @ [CHR 0x27] @ ''action'' @ [CHR 0x27] @ '' message. (Used to simulate role playing on IRC.)'',
      []]"

definition mode_usage :: "string list" where
  "mode_usage =
     [''usage: /mode <modes> [...]'',
      [],
      ''Alter modes.'',
      [],
      [CHR 0x02] @ ''CHANNEL MODES'' @ [CHR 0x02],
      [],
      ''    o - give/take the channel operator privilege'',
      ''    v - give/take the channel voice privilege'',
      [],
      ''    i - invite-only channel'',
      ''    m - moderated channel'',
      ''    n - no messages to a channel from clients on the outside'',
      ''    p - private channel'',
      ''    s - secret channel'',
      ''    t - topic settable by channel operators only'',
      [],
      ''    k - set/remove the channel key (password)'',
      ''    l - set/remove the channel user limit'',
      [],
      ''    b - set/remove a ban mask'',
      ''    e - set/remove an exception mask to override a ban mask'',
      ''    I - set/remove an invitation mask to override the invite-only flag'',
      [],
      [CHR 0x02] @ ''USER MODES'' @ [CHR 0x02],
      [],
      ''    i - marks a user as invisible'',
      ''    w - the user receives wallops messages'',
      [],
      [CHR 0x02] @ ''EXAMPLES'' @ [CHR 0x02],
      [],
      ''    Give channel operator privilege to '' @ [CHR 0x27] @ ''Companion'' @ [CHR 0x27] @ '' in #foo:'',
      ''      /mode #foo +o Companion'',
      [],
      ''    Restrict messaging to channel #linux:'',
      ''      /mode #linux +n'',
      [],
      ''    Limit user count for #freenode to 10:'',
      ''      /mode #freenode +l 10'',
      [],
      ''    Deny all users with hostname spammers.net from joining #chatzone:'',
      ''      /mode #chatzone +b *!*@spammers.net'',
      [],
      ''    Turn on reception of WALLOPS messages:'',
      ''      /mode MyNickname +w'',
      []]"

definition msg_usage :: "string list" where
  "msg_usage =
     [''usage: /msg <recipient> <message>'',
      [],
      ''Used to send private messages between users, as well as to send'' @ [CHR 0x0A] @
      ''messages to channels.'',
      []]"

definition nick_usage :: "string list" where
  "nick_usage =
     [''usage: /nick <new nickname>'',
      [],
      ''Sets your nickname.'',
      []]"

definition nickserv_usage :: "string list" where
  "nickserv_usage =
     [''usage: /nickserv <[service hostname | --]> <command> [...]'',
      [],
      ''Communicate with your IRC network'' @ [CHR 0x27] @ ''s nickname service.'',
      [],
      ''If the initial argument equals to '' @ [CHR 0x27] @ ''--'' @ [CHR 0x27] @ '' then the:'',
      [],
      ''    1) Value of setting '' @ [CHR 0x27] @ ''nickserv_host'' @ [CHR 0x27] @ '' will be used as service'',
      ''       hostname.'',
      ''    2) Command call won'' @ [CHR 0x27] @ ''t be added to the command history provided'',
      ''       that the second argument is '' @ [CHR 0x27] @ ''identify'' @ [CHR 0x27] @ ''.'',
      [],
      ''The correct service hostname is not always the same as the visible'' @ [CHR 0x0A] @
      ''hostname of NickServ. FYI at the AnonOps IRC network the visible'' @ [CHR 0x0A] @
      ''hostname of NickServ is anonops.in (when this text was written)'' @ [CHR 0x0A] @
      ''but you should use '' @ [CHR 0x27] @ ''services.anonops.com'' @ [CHR 0x27] @ ''. As a fallback:'',
      [CHR 0x27] @ ''/query NickServ'' @ [CHR 0x27] @ '' can be used in order to communicate with the'' @ [CHR 0x0A] @
      ''service.'',
      []]"

definition notice_usage :: "string list" where
  "notice_usage =
     [''usage: /notice <recipient> <message>'',
      [],
      ''Used to send private messages between users, as well as to send'' @ [CHR 0x0A] @
      ''messages to channels. (In notice form.)'',
      []]"

definition nsid_usage :: "string list" where
  "nsid_usage =
     [''usage: /nsid [--force] [--swap] [--pass-only]'',
      [],
      ''NickServ identify.'',
      [],
      ''The username and password used for the identification are read from'' @ [CHR 0x0A] @
      [CHR 0x27] @ ''sasl_username'' @ [CHR 0x27] @ '' and '' @ [CHR 0x27] @ ''sasl_password'' @ [CHR 0x27] @ '' respectively. And the service'' @ [CHR 0x0A] @
      ''hostname from '' @ [CHR 0x27] @ ''nickserv_host'' @ [CHR 0x27] @ ''.'',
      [],
      [CHR 0x02] @ ''--force'' @ [CHR 0x02],
      ''    Forces identification when connected via an unencrypted'' @ [CHR 0x0A] @
      ''    connection. The username and password will be disclosed in clear'' @ [CHR 0x0A] @
      ''    text.'',
      [],
      [CHR 0x02] @ ''--swap'' @ [CHR 0x02],
      ''    By default the username is sent followed by the password. With'' @ [CHR 0x0A] @
      ''    this flag the password is instead sent followed by the'' @ [CHR 0x0A] @
      ''    username. The syntax depends on the IRC server software used by'' @ [CHR 0x0A] @
      ''    your network. No rules for the syntax exists, it isn'' @ [CHR 0x27] @ ''t defined by'' @ [CHR 0x0A] @
      ''    a standard. Most common is the default approach.'',
      [],
      [CHR 0x02] @ ''--pass-only'' @ [CHR 0x02],
      ''    With this flag no username is used for the identification,'' @ [CHR 0x0A] @
      ''    i.e. only the password. It'' @ [CHR 0x27] @ ''s not recommended but completely valid'' @ [CHR 0x0A] @
      ''    on some IRC networks. Your current nickname is then used as an'' @ [CHR 0x0A] @
      ''    username.'',
      []]"

definition op_usage :: "string list" where
  "op_usage =
     [''usage: /op <nick>'',
      [],
      ''Gives the channel operator privilege to another user.'',
      []]"

definition oper_usage :: "string list" where
  "oper_usage =
     [''usage: /oper <name> <password>'',
      [],
      ''Identifies yourself as an IRC operator.'',
      []]"

definition part_usage :: "string list" where
  "part_usage =
     [''usage: /part [channel] [message]'',
      [],
      ''Leaves a channel (optionally with a message). If the command is called'' @ [CHR 0x0A] @
      ''without any arguments and the current window is an IRC channel, that'' @ [CHR 0x0A] @
      ''channel will be the target.'',
      [],
      [CHR 0x02] @ ''EXAMPLES'' @ [CHR 0x02],
      [],
      ''  Leave channel #chatzone with message '' @ [CHR 0x27] @ ''bye'' @ [CHR 0x27] @ '':'',
      ''    /part #chatzone bye'',
      []]"

definition passmod_usage :: "string list" where
  "passmod_usage =
     [''usage: /passmod <nickname>'',
      [],
      ''Pass the ICB moderation privilege to another group member.'',
      []]"

definition qbot_usage :: "string list" where
  "qbot_usage =
     [''usage: /qbot <[service hostname | --]> <command> [...]'',
      [],
      ''Communicate with QuakeNet'' @ [CHR 0x27] @ ''s network service, the Q bot. If the initial'' @ [CHR 0x0A] @
      ''argument equals to '' @ [CHR 0x27] @ ''--'' @ [CHR 0x27] @ '', then the value of setting '' @ [CHR 0x27] @ ''qbot_host'' @ [CHR 0x27] @ '' is used'' @ [CHR 0x0A] @
      ''as a service hostname.'',
      []]"

definition query_usage :: "string list" where
  "query_usage =
     [''usage: /query [nick]'',
      [],
      ''Starts a private conversation with '' @ [CHR 0x27] @ ''nick'' @ [CHR 0x27] @ ''. If '' @ [CHR 0x27] @ ''nick'' @ [CHR 0x27] @ '' is omitted and'' @ [CHR 0x0A] @
      ''the active window is a private conversation, the action will be to'' @ [CHR 0x0A] @
      ''close it.'',
      []]"

definition quit_usage :: "string list" where
  "quit_usage =
     [''usage: /quit [message]'',
      [],
      ''Disconnect from IRC and quit the program. A disconnect message is'' @ [CHR 0x0A] @
      ''optional.'',
      []]"

definition rehash_usage :: "string list" where
  "rehash_usage =
     [''usage: /rehash'',
      [],
      ''The rehash command is an administrative command which can be used by'' @ [CHR 0x0A] @
      ''an IRC operator to force the server to re-read and process its conf-'' @ [CHR 0x0A] @
      ''iguration file.'',
      []]"

definition resize_usage :: "string list" where
  "resize_usage =
     [''usage: /resize'',
      [],
      ''Resize the terminal. For example, Windows doesn'' @ [CHR 0x27] @ ''t send '' @ [CHR 0x27] @ ''SIGWINCH'' @ [CHR 0x27] @ '','' @ [CHR 0x0A] @
      ''instead this command can be used. First resize the window then run'' @ [CHR 0x0A] @
      ''this command.'',
      []]"

definition restart_usage :: "string list" where
  "restart_usage =
     [''usage: /restart [--I-am-sure]'',
      [],
      ''An IRC operator can use the '' @ [CHR 0x27] @ ''restart'' @ [CHR 0x27] @ ''-command to force the server to'' @ [CHR 0x0A] @
      ''restart itself.'',
      []]"

definition rules_usage :: "string list" where
  "rules_usage =
     [''usage: /rules'',
      [],
      ''Outputs network/server rules. Not all IRC server software supports'' @ [CHR 0x0A] @
      ''this command. (It'' @ [CHR 0x27] @ ''s actually quite rare.)'',
      []]"

definition sasl_usage :: "string list" where
  "sasl_usage =
     [''usage: /sasl <operation> [...]'',
      [],
      ''Simple Authentication and Security Layer.'',
      ''Operation can be either:'',
      [],
      ''    keygen [--force]'',
      ''    pubkey'',
      ''    mechanism [ecdsa-nist256p-challenge | external | plain |'',
      ''               scram-sha-1,256,512]'',
      ''    username <name>'',
      ''    password <pass>'',
      ''    passwd_s <sasl pass> <encryption pass>'',
      ''    set [on | off]'',
      ''    x509 <filename>'',
      [],
      ''SASL is a method that lets you identify with NickServ during the'' @ [CHR 0x0A] @
      ''connection process eliminating the need to do it manually.'',
      ''(To use SASL you must register your nickname.)'',
      [],
      [CHR 0x02] @ ''EXAMPLES'' @ [CHR 0x02],
      [],
      ''  Identification using mechanism ecdsa-nist256p-challenge:'',
      ''    1) /sasl keygen'',
      ''    2) /sasl pubkey (print it)'',
      ''    3) /ns <services hostname> set pubkey <public key>'',
      ''    4) /sasl mechanism ecdsa-nist256p-challenge'',
      ''    5) /sasl username <your nickserv username>'',
      ''    6) /sasl password dummy'',
      ''    7) /sasl set on'',
      ''  (The only IRC network that I know of that is supporting this'' @ [CHR 0x0A] @
      ''  mechanism is Libera Chat.)'',
      [],
      ''  Identification using mechanism '' @ [CHR 0x27] @ ''plain'' @ [CHR 0x27] @ '':'',
      ''    1) /sasl mechanism plain'',
      ''    2) /sasl username <your nickserv username>'',
      ''    3) /sasl password <your nickserv password>'',
      ''    4) /sasl set on'',
      []]"

definition say_usage :: "string list" where
  "say_usage =
     [''usage: /say <message>'',
      [],
      ''Say a message. This command can be used if you want say something with'' @ [CHR 0x0A] @
      ''a leading command-character, i.e. a slash.'',
      [],
      [CHR 0x02] @ ''EXAMPLE'' @ [CHR 0x02],
      [],
      ''    /say // A single-line comment in C++'',
      []]"

definition servlist_usage :: "string list" where
  "servlist_usage =
     [''usage: /servlist [<mask> [<type>]]'',
      [],
      ''Lists services currently connected to your IRC network. Arguments,'' @ [CHR 0x0A] @
      ''if given, can be used to restrict the output result.'',
      [],
      [CHR 0x02] @ ''SEE ALSO'' @ [CHR 0x02],
      [],
      ''    /squery'',
      []]"

definition servstats_usage :: "string list" where
  "servstats_usage =
     [''usage: /servstats [<query> [<target>]]'',
      [],
      ''This command is used to query statistics of a certain IRC server.'',
      []]"

definition set_usage :: "string list" where
  "set_usage =
     [''usage: /set [[setting] [value]]'',
      [],
      ''Alter Swirc settings.'',
      [],
      [CHR 0x02] @ ''SETTING TYPES'' @ [CHR 0x02],
      [],
      [CHR 0x02] @ ''bool'' @ [CHR 0x02],
      ''    Bools are case insensitive and can have one of the following'' @ [CHR 0x0A] @
      ''    values:'',
      ''    - on, true or yes'',
      ''    - off, false or no'',
      [],
      [CHR 0x02] @ ''int'' @ [CHR 0x02],
      ''    Integers. Swirc implements a min/max value for each integer in'' @ [CHR 0x0A] @
      ''    order to keep its value safe. The error log will tell if the'' @ [CHR 0x0A] @
      ''    restrictions for an integer aren'' @ [CHR 0x27] @ ''t within limits and, if so, that'' @ [CHR 0x0A] @
      ''    a preprogrammed fallback value is being used instead.'',
      [],
      [CHR 0x02] @ ''string'' @ [CHR 0x02],
      ''    An arbitrary sequence of characters'',
      [],
      [CHR 0x02] @ ''EXAMPLES'' @ [CHR 0x02],
      [],
      ''  Output the current values of all settings:'',
      ''    /set (without any arguments)'',
      [],
      ''  Turn beeps on/off:'',
      ''    /set beeps on'',
      ''    /set beeps off'',
      []]"

definition squery_usage :: "string list" where
  "squery_usage =
     [''usage: /squery <servicename> <text>'',
      [],
      ''This command is used similarly to '' @ [CHR 0x27] @ ''/msg'' @ [CHR 0x27] @ ''. The only difference is that'' @ [CHR 0x0A] @
      ''the recipient MUST be a service.'',
      []]"

definition stats_usage :: "string list" where
  "stats_usage =
     [''usage: /stats [channel]'',
      [],
      ''Outputs a channel'' @ [CHR 0x27] @ ''s user statistics. If the channel argument is left'' @ [CHR 0x0A] @
      ''empty and the active window is an IRC channel, Swirc will output the'' @ [CHR 0x0A] @
      ''user statistics for that channel.'',
      []]"

definition theme_usage :: "string list" where
  "theme_usage =
     [''usage: /theme [install <name> | list-remote | set <name>]'',
      [],
      ''Management of themes on-the-fly.'',
      [],
      [CHR 0x02] @ ''EXAMPLES'' @ [CHR 0x02],
      [],
      ''    Install a theme named '' @ [CHR 0x27] @ ''bx'' @ [CHR 0x27] @ '':'',
      ''        /theme install bx'',
      [],
      ''    List all available themes:'',
      ''        /theme list-remote'',
      [],
      ''    Activate an installed theme with name '' @ [CHR 0x27] @ ''bx'' @ [CHR 0x27] @ '':'',
      ''        /theme set bx'',
      []]"

definition time_usage :: "string list" where
  "time_usage =
     [''usage: /time <target>'',
      [],
      ''Send a CTCP TIME request to '' @ [CHR 0x27] @ ''target'' @ [CHR 0x27] @ '', which is either a nickname or an'' @ [CHR 0x0A] @
      ''IRC channel.'',
      []]"

definition topic_usage :: "string list" where
  "topic_usage =
     [''usage: /topic [new topic]'',
      [],
      ''Sets a new topic for a channel. If '' @ [CHR 0x27] @ ''new topic'' @ [CHR 0x27] @ '' is omitted the action'' @ [CHR 0x0A] @
      ''will be to display the current topic. (The active window must be an'' @ [CHR 0x0A] @
      ''IRC channel.)'',
      []]"

definition unban_usage :: "string list" where
  "unban_usage =
     [''usage: /unban <mask>'',
      [],
      ''Removes a channel ban. (The active window must be an IRC channel.)'',
      [],
      [CHR 0x02] @ ''SEE ALSO'' @ [CHR 0x02],
      [],
      ''    /ban'',
      ''    /banlist'',
      []]"

definition unignore_usage :: "string list" where
  "unignore_usage =
     [''usage: /unignore [#]'',
      [],
      ''Deletes a regular expression from the ignore list.'',
      [],
      [CHR 0x02] @ ''SEE ALSO'' @ [CHR 0x02],
      [],
      ''    /ignore'',
      []]"

definition userhost_usage :: "string list" where
  "userhost_usage =
     [''usage: /userhost <nick1[,nick2][,nick3][...]>'',
      [],
      ''The command takes a list of up to 5 nicknames, each separated by a'' @ [CHR 0x0A] @
      ''space and/or comma character and returns a list of information about'' @ [CHR 0x0A] @
      ''each nickname that it found.'',
      []]"

definition utctime_usage :: "string list" where
  "utctime_usage =
     [''usage: /utctime'',
      [],
      ''Prints out the coordinated universal time (UTC).'',
      []]"

definition version_usage :: "string list" where
  "version_usage =
     [''usage: /version <target>'',
      [],
      ''Send a CTCP VERSION request to '' @ [CHR 0x27] @ ''target'' @ [CHR 0x27] @ '', which is either a nickname or'' @ [CHR 0x0A] @
      ''an IRC channel.'',
      []]"

definition voice_usage :: "string list" where
  "voice_usage =
     [''usage: /voice <nick>'',
      [],
      ''Gives the channel voice privilege to another user.'',
      []]"

definition wallops_usage :: "string list" where
  "wallops_usage =
     [''usage: /wallops <message>'',
      [],
      ''The '' @ [CHR 0x27] @ ''wallops'' @ [CHR 0x27] @ ''-command is used to send a message to all currently'' @ [CHR 0x0A] @
      ''connected users who have set the '' @ [CHR 0x27] @ ''w'' @ [CHR 0x27] @ '' user mode for themselves.'',
      []]"

definition who_usage :: "string list" where
  "who_usage =
     [''usage: /who <mask>'',
      [],
      ''Generates a query which returns a list of information which matches'' @ [CHR 0x0A] @
      ''the provided '' @ [CHR 0x27] @ ''mask'' @ [CHR 0x27] @ ''.'',
      [],
      [CHR 0x02] @ ''EXAMPLES'' @ [CHR 0x02],
      [],
      ''  Show the Libera Chat crew:'',
      ''    /who libera/staff/*'',
      [],
      ''  Show users with a German domain name:'',
      ''    /who *.de'',
      []]"

definition whois_usage :: "string list" where
  "whois_usage =
     [''usage: /whois <nick>'',
      [],
      ''Asks after information about another user.'',
      []]"

definition wholeft_usage :: "string list" where
  "wholeft_usage =
     [''usage: /wholeft'',
      [],
      ''By using this command you can see who left during a network server'' @ [CHR 0x0A] @
      ''split. The command takes no arguments and the active window must be an'' @ [CHR 0x0A] @
      ''IRC channel.'',
      []]"

definition znc_usage :: "string list" where
  "znc_usage =
     [''usage: /znc [*module] <command>'',
      [],
      ''Simplifies the communication with ZNC which is a popular'' @ [CHR 0x0A] @
      [CHR 0x27] @ ''IRC bouncer'' @ [CHR 0x27] @ ''.'',
      [],
      [CHR 0x02] @ ''EXAMPLES'' @ [CHR 0x02],
      [],
      ''  Output your ZNC version:'',
      ''    /znc version'',
      [],
      ''  Identical to the previous example:'',
      ''    /znc *status version'',
      []]"

end
