(* ===== verification/Io_Loop.thy ===== *)
theory Io_Loop
  imports Command_Help Channel Icb Readline_Loop Text_Buffer
begin

text \<open>
  The input and output loop: \<^verbatim>\<open>src/src/io-loop.c\<close>.

  The state is the history of the lines with the element that the arrow keys show next, the buffer
  that is pushed back to the line editor, and the part that the commands and the events share:
  the settings, the theme, the mode of the connection and the windows, all of which a command can change.
  The bodies of the commands, the translation of texts and the conversion to wide characters are
  parameters.
\<close>

section \<open>The table of commands\<close>

record cmds_tag =
  cm_cmd :: string
  cm_fn :: string
  cm_requires_connection :: bool
  cm_usage :: "string list"
  cm_irc_only :: bool

definition cmd_entry :: "string \<Rightarrow> string \<Rightarrow> bool \<Rightarrow> string list \<Rightarrow> bool \<Rightarrow> cmds_tag" where
  "cmd_entry c f conn u i = \<lparr>cm_cmd = c, cm_fn = f, cm_requires_connection = conn, cm_usage = u, cm_irc_only = i\<rparr>"

definition cmds :: "cmds_tag list" where
  "cmds =
     [cmd_entry ''admin'' ''cmd_admin'' True admin_usage True,
      cmd_entry ''announce'' ''cmd_announce'' False announce_usage True,
      cmd_entry ''away'' ''cmd_away'' True away_usage True,
      cmd_entry ''ban'' ''cmd_ban'' True ban_usage True,
      cmd_entry ''banlist'' ''cmd_banlist'' True banlist_usage True,
      cmd_entry ''beep'' ''cmd_beep'' True beep_usage False,
      cmd_entry ''boot'' ''cmd_boot'' True boot_usage False,
      cmd_entry ''cap'' ''cmd_cap'' True cap_usage True,
      cmd_entry ''chanserv'' ''cmd_chanserv'' True chanserv_usage True,
      cmd_entry ''cleartoasts'' ''cmd_cleartoasts'' False cleartoasts_usage False,
      cmd_entry ''close'' ''cmd_close'' False close_usage False,
      cmd_entry ''colormap'' ''cmd_colormap'' False colormap_usage False,
      cmd_entry ''connect'' ''cmd_connect'' False connect_usage False,
      cmd_entry ''cs'' ''cmd_chanserv'' True chanserv_usage True,
      cmd_entry ''ctcp'' ''cmd_ctcp'' True ctcp_usage True,
      cmd_entry ''cycle'' ''cmd_cycle'' True cycle_usage True,
      cmd_entry ''dcc'' ''cmd_dcc'' False dcc_usage True,
      cmd_entry ''deop'' ''cmd_deop'' True deop_usage True,
      cmd_entry ''devoice'' ''cmd_devoice'' True devoice_usage True,
      cmd_entry ''die'' ''cmd_die'' True die_usage True,
      cmd_entry ''disconnect'' ''cmd_disconnect'' False disconnect_usage False,
      cmd_entry ''echo'' ''cmd_echo'' False echo_usage False,
      cmd_entry ''exlist'' ''cmd_exlist'' True exlist_usage True,
      cmd_entry ''fetchdic'' ''cmd_fetchdic'' False fetchdic_usage False,
      cmd_entry ''ftp'' ''cmd_ftp'' False ftp_usage False,
      cmd_entry ''gline'' ''cmd_gline'' True gline_usage True,
      cmd_entry ''group'' ''cmd_group'' True group_usage False,
      cmd_entry ''help'' ''cmd_help'' False help_usage False,
      cmd_entry ''ignore'' ''cmd_ignore'' False ignore_usage False,
      cmd_entry ''ilist'' ''cmd_ilist'' True ilist_usage True,
      cmd_entry ''info'' ''cmd_info'' True info_usage True,
      cmd_entry ''invite'' ''cmd_invite'' True invite_usage True,
      cmd_entry ''ison'' ''cmd_ison'' True ison_usage True,
      cmd_entry ''j'' ''cmd_join'' True join_usage True,
      cmd_entry ''join'' ''cmd_join'' True join_usage True,
      cmd_entry ''kick'' ''cmd_kick'' True kick_usage True,
      cmd_entry ''kickban'' ''cmd_kickban'' True kickban_usage True,
      cmd_entry ''kill'' ''cmd_kill'' True kill_usage True,
      cmd_entry ''kline'' ''cmd_kline'' True kline_usage True,
      cmd_entry ''list'' ''cmd_list'' True list_usage False,
      cmd_entry ''log'' ''cmd_log'' False log_usage False,
      cmd_entry ''me'' ''cmd_me'' True me_usage True,
      cmd_entry ''mode'' ''cmd_mode'' True mode_usage True,
      cmd_entry ''msg'' ''cmd_msg'' True msg_usage True,
      cmd_entry ''nick'' ''cmd_nick'' True nick_usage False,
      cmd_entry ''nickserv'' ''cmd_nickserv'' True nickserv_usage True,
      cmd_entry ''notice'' ''cmd_notice'' True notice_usage True,
      cmd_entry ''ns'' ''cmd_nickserv'' True nickserv_usage True,
      cmd_entry ''nsid'' ''cmd_nsid'' True nsid_usage True,
      cmd_entry ''op'' ''cmd_op'' True op_usage True,
      cmd_entry ''oper'' ''cmd_oper'' True oper_usage True,
      cmd_entry ''p'' ''cmd_part'' True part_usage True,
      cmd_entry ''part'' ''cmd_part'' True part_usage True,
      cmd_entry ''passmod'' ''cmd_passmod'' True passmod_usage False,
      cmd_entry ''qbot'' ''cmd_qbot'' True qbot_usage True,
      cmd_entry ''query'' ''cmd_query'' False query_usage False,
      cmd_entry ''quit'' ''cmd_quit'' False quit_usage False,
      cmd_entry ''rehash'' ''cmd_rehash'' True rehash_usage True,
      cmd_entry ''resize'' ''cmd_resize'' False resize_usage False,
      cmd_entry ''restart'' ''cmd_restart'' True restart_usage True,
      cmd_entry ''rules'' ''cmd_rules'' True rules_usage True,
      cmd_entry ''sasl'' ''cmd_sasl'' False sasl_usage True,
      cmd_entry ''say'' ''cmd_say'' True say_usage False,
      cmd_entry ''servlist'' ''cmd_servlist'' True servlist_usage True,
      cmd_entry ''servstats'' ''cmd_servstats'' True servstats_usage True,
      cmd_entry ''set'' ''cmd_set'' False set_usage False,
      cmd_entry ''squery'' ''cmd_squery'' True squery_usage True,
      cmd_entry ''stats'' ''cmd_stats'' True stats_usage False,
      cmd_entry ''theme'' ''cmd_theme'' False theme_usage False,
      cmd_entry ''time'' ''cmd_time'' True time_usage True,
      cmd_entry ''topic'' ''cmd_topic'' True topic_usage False,
      cmd_entry ''unban'' ''cmd_unban'' True unban_usage True,
      cmd_entry ''unignore'' ''cmd_unignore'' False unignore_usage False,
      cmd_entry ''userhost'' ''cmd_userhost'' True userhost_usage True,
      cmd_entry ''utctime'' ''cmd_utctime'' False utctime_usage False,
      cmd_entry ''version'' ''cmd_version'' True version_usage True,
      cmd_entry ''voice'' ''cmd_voice'' True voice_usage True,
      cmd_entry ''wallops'' ''cmd_wallops'' True wallops_usage True,
      cmd_entry ''who'' ''cmd_who'' True who_usage True,
      cmd_entry ''whois'' ''cmd_whois'' True whois_usage True,
      cmd_entry ''wholeft'' ''cmd_wholeft'' True wholeft_usage True,
      cmd_entry ''wl'' ''cmd_wholeft'' True wholeft_usage True,
      cmd_entry ''znc'' ''cmd_znc'' True znc_usage True]"

definition LIST_MAXCOL :: nat where "LIST_MAXCOL = 6"

section \<open>State and environment\<close>

record shared_state =
  sh_ev :: ev_state
  sh_env :: ev_env
  sh_on_air :: bool
  sh_lost :: bool
  sh_io_loop :: bool

record io_state =
  history :: buf_state
  element :: "addr option"
  g_push_back_buf :: "int list"
  shared :: shared_state

datatype io_action =
    Call string string
  | Ev ev_action
  | Icb "icb_action list"
  | Resize
  | Nothing_sent

text \<open>
  \<open>io_mbs\<close>: the wide characters of a string up to its end or its first invalid character, and whether
  it is valid.  \<open>do_cmd\<close>: what a command function does to the shared state, \<^verbatim>\<open>/set\<close> and \<^verbatim>\<open>/theme\<close> for
  example to its configuration and its theme.
\<close>

record io_env =
  io_cols :: int
  io_mbs :: "string \<Rightarrow> int list \<times> bool"
  io_tr :: "string \<Rightarrow> string"
  do_cmd :: "string \<Rightarrow> string \<Rightarrow> shared_state \<Rightarrow> shared_state"

definition MAX_PBB :: nat where "MAX_PBB = 2001"

text \<open>\<^verbatim>\<open>xmbstowcs(buf, s, n)\<close>: at most \<open>n\<close> characters are converted.\<close>

definition xmbstowcs :: "io_env \<Rightarrow> string \<Rightarrow> nat \<Rightarrow> int list option" where
  "xmbstowcs env s n =
     (case io_mbs env s of (ws, ok) \<Rightarrow>
        if n \<le> length ws then Some (take n ws) else if ok then Some ws else None)"

section \<open>Dispatch\<close>

definition io_fail :: "string \<Rightarrow> ev_state \<Rightarrow> io_action" where
  "io_fail m ev = Ev (Print (active ev) TYPE_SPEC1_FAILURE m)"

definition run_cmd :: "io_env \<Rightarrow> cmds_tag \<Rightarrow> string \<Rightarrow> shared_state \<Rightarrow> io_action" where
  "run_cmd env sp args sh =
     (if cm_requires_connection sp \<and> \<not> sh_on_air sh then io_fail ''command requires irc connection'' (sh_ev sh)
      else if cm_irc_only sp \<and> g_icb_mode (ev_win (sh_env sh)) then io_fail ''command is irc only'' (sh_ev sh)
      else Call (cm_fn sp) args)"

fun cmds_loop :: "io_env \<Rightarrow> cmds_tag list \<Rightarrow> string \<Rightarrow> shared_state \<Rightarrow> io_action" where
  "cmds_loop env [] data sh = io_fail ''unknown command'' (sh_ev sh)"
| "cmds_loop env (sp # sps) data sh =
     (let cp = cm_cmd sp @ '' '' in
      if strings_match data (cm_cmd sp) then run_cmd env sp [] sh
      else if strncmp_eq data cp (length cp) then run_cmd env sp (drop (length cp) data) sh
      else cmds_loop env sps data sh)"

definition handle_cmds :: "io_env \<Rightarrow> string \<Rightarrow> shared_state \<Rightarrow> io_action" where
  "handle_cmds env data sh = cmds_loop env cmds data sh"

definition get_list_of_matching_commands :: "string \<Rightarrow> string list option" where
  "get_list_of_matching_commands sv =
     (let found = filter (\<lambda>c. strncmp_eq sv c (length sv)) (map cm_cmd cmds)
      in if found = [] then None else Some found)"

section \<open>History\<close>

definition cmd_hist_size :: "shared_state \<Rightarrow> int" where
  "cmd_hist_size sh = fst (config_integer (ev_config (sh_env sh))
     \<lparr>ic_setting_name = ''cmd_hist_size'', lo_limit = 0, hi_limit = 300, fallback_default = 50\<rparr>)"

text \<open>Lines that begin like one of four commands that carry a password are not kept.\<close>

definition keeps_secret :: "string \<Rightarrow> bool" where
  "keeps_secret s \<longleftrightarrow>
     strncasecmp_eq s ''/nickserv -- identify'' 21 \<or> strncasecmp_eq s ''/ns -- identify'' 15 \<or>
     strncasecmp_eq s ''/sasl password '' 15 \<or> strncasecmp_eq s ''/sasl passwd_s '' 15"

definition add_to_history :: "shared_state \<Rightarrow> string \<Rightarrow> buf_state \<Rightarrow> buf_state option" where
  "add_to_history sh s h =
     (let tbszp1 = tb_size (snd h) + 1 in
      if cmd_hist_size sh = 0 \<or> keeps_secret s then Some h
      else do {
        h \<leftarrow> (if tbszp1 > cmd_hist_size sh then textBuf_pop_head (fst h) (snd h) else Some h);
        textBuf_emplace_back (fst h) (snd h) s 0 })"

definition ch_BOLD :: char where "ch_BOLD = CHR 0x02"
definition ch_BOLD_ALIAS :: char where "ch_BOLD_ALIAS = CHR 0x15"

definition bold_fix :: "string \<Rightarrow> string" where
  "bold_fix s = map (\<lambda>c. if c = ch_BOLD then ch_BOLD_ALIAS else c) s"

text \<open>The text of an element is changed in place, then converted into the buffer.\<close>

definition fix_element :: "addr \<Rightarrow> buf_state \<Rightarrow> (string \<times> buf_state) option" where
  "fix_element p h =
     (case cells (fst h) p of None \<Rightarrow> None
      | Some e \<Rightarrow>
          let t = bold_fix (el_text e) in
          Some (t, (fst h)\<lparr>cells := (cells (fst h))(p \<mapsto> e\<lparr>el_text := t\<rparr>)\<rparr>, snd h))"

text \<open>The characters that are in the buffer before the first NUL.\<close>

definition push_back :: "io_env \<Rightarrow> string \<Rightarrow> int list" where
  "push_back env s = (case xmbstowcs env s (MAX_PBB - 1) of None \<Rightarrow> [] | Some ws \<Rightarrow> ws)"

definition elmt_next :: "buf_state \<Rightarrow> addr \<Rightarrow> addr option option" where
  "elmt_next h p = map_option el_next (cells (fst h) p)"

definition elmt_prev :: "buf_state \<Rightarrow> addr \<Rightarrow> addr option option" where
  "elmt_prev h p = map_option el_prev (cells (fst h) p)"

definition history_next :: "io_env \<Rightarrow> io_state \<Rightarrow> io_state option" where
  "history_next env st =
     (if tb_size (snd (history st)) = 0 \<or> element st = None then Some st
      else do {
        e \<leftarrow> (if element st \<noteq> tb_tail (snd (history st)) then elmt_next (history st) (the (element st))
              else Some (element st));
        p \<leftarrow> e;
        (t, h) \<leftarrow> fix_element p (history st);
        Some (st\<lparr>history := h, element := e, g_push_back_buf := push_back env t\<rparr>) })"

definition history_prev :: "io_env \<Rightarrow> io_state \<Rightarrow> io_state option" where
  "history_prev env st =
     (if tb_size (snd (history st)) = 0 \<or> element st = None then Some st
      else do {
        p \<leftarrow> element st;
        (t, h) \<leftarrow> fix_element p (history st);
        e \<leftarrow> (if element st \<noteq> tb_head (snd h) then elmt_prev h p else Some (element st));
        Some (st\<lparr>history := h, element := e, g_push_back_buf := push_back env t\<rparr>) })"

section \<open>The list of commands\<close>

definition get_longest_cmdlen :: int where
  "get_longest_cmdlen = fold (\<lambda>sp len. if int (length (cm_cmd sp)) > len then int (length (cm_cmd sp)) else len) cmds 0"

text \<open>
  \<open>chg_space\<close> leaves out the time in front of a message.  \<^const>\<open>None\<close>: the format of the time ends
  inside a colour code (see \<^const>\<open>squeeze_text_deco\<close>).
\<close>

definition chg_space :: "io_env \<Rightarrow> shared_state \<Rightarrow> int \<Rightarrow> int option" where
  "chg_space env sh space =
     (let ts = Theme.Theme (ev_theme (sh_env sh)) (Some ''time_format'') in do {
        b \<leftarrow> squeeze_text_deco (Some (ts @ [nul]));
        let sq = takeWhile (\<lambda>c. c \<noteq> nul) b;
        Some (if strings_match sq [] then space
              else case xmbstowcs env sq 199 of
                None \<Rightarrow> space
              | Some wcs \<Rightarrow> space - xwcswidth wcs 2 - 1) })"

function count_cols :: "int \<Rightarrow> int \<Rightarrow> int \<Rightarrow> int \<times> int" where
  "count_cols space count cols =
     (if count < space \<and> cols < int LIST_MAXCOL then count_cols space (count + (get_longest_cmdlen + 1)) (cols + 1)
      else (count, cols))"
  by pat_completeness auto
termination
  by (relation "measure (\<lambda>(space, count, cols). nat (int LIST_MAXCOL - cols))") auto

declare count_cols.simps [simp del]

definition get_num_cols :: "int \<Rightarrow> int" where
  "get_num_cols space =
     (case count_cols space 0 0 of (count, cols) \<Rightarrow>
        let cols = (if count > space then cols - 1 else cols) in if cols \<le> 0 then 1 else cols)"

definition get_num_rows :: "int \<Rightarrow> int" where
  "get_num_rows num_cols = int (length cmds) div num_cols + int (length cmds) mod num_cols"

text \<open>
  A row: \<open>array[k]\<close> is \<open>cmds[i + rows * k]\<close> or the null pointer, and the format pads every column but
  the last.  \<^const>\<open>None\<close>: \<open>array[0]\<close> is behind the table.
\<close>

definition set_array :: "nat \<Rightarrow> nat \<Rightarrow> nat \<Rightarrow> string" where
  "set_array i num_rows multiplicand =
     (if i + num_rows * multiplicand < length cmds then cm_cmd (cmds ! (i + num_rows * multiplicand)) else [])"

definition pad_right :: "nat \<Rightarrow> string \<Rightarrow> string" where
  "pad_right n s = s @ replicate (n - length s) (CHR '' '')"

definition format_row :: "string list \<Rightarrow> string" where
  "format_row row =
     concat (map (\<lambda>s. pad_right (nat get_longest_cmdlen) s @ '' '') (butlast row)) @ last row"

definition list_row :: "nat \<Rightarrow> nat \<Rightarrow> nat \<Rightarrow> string list option" where
  "list_row num_cols num_rows i =
     do { first \<leftarrow> rd cmds i; Some (cm_cmd first # map (set_array i num_rows) [1..<num_cols]) }"

fun list_rows :: "nat \<Rightarrow> nat \<Rightarrow> nat list \<Rightarrow> string list list option" where
  "list_rows num_cols num_rows [] = Some []"
| "list_rows num_cols num_rows (i # is) =
     do { r \<leftarrow> list_row num_cols num_rows i; rs \<leftarrow> list_rows num_cols num_rows is; Some (r # rs) }"

definition command_rows :: "int \<Rightarrow> string list list option" where
  "command_rows space =
     (let num_cols = get_num_cols space; num_rows = get_num_rows num_cols
      in list_rows (nat num_cols) (nat num_rows) [0..<nat num_rows])"

definition list_all_commands_dynamic :: "io_env \<Rightarrow> shared_state \<Rightarrow> int \<Rightarrow> string list option" where
  "list_all_commands_dynamic env sh width =
     do { space \<leftarrow> chg_space env sh width;
          rows \<leftarrow> command_rows space;
          Some ((''--------------- Commands('' @ dec (int (length cmds)) @ '') ---------------'') # map format_row rows) }"

definition output_help_for_command :: "io_env \<Rightarrow> string \<Rightarrow> shared_state \<Rightarrow> io_action list" where
  "output_help_for_command env c sh =
     (case find (\<lambda>sp. strings_match c (cm_cmd sp)) cmds of
        None \<Rightarrow> [io_fail ''no such command'' (sh_ev sh)]
      | Some sp \<Rightarrow>
          map (\<lambda>l. Ev (Print (active (sh_ev sh)) TYPE_SPEC2 (if strings_match l [] then '' '' else io_tr env l))) (cm_usage sp))"

definition cmd_help :: "io_env \<Rightarrow> int \<Rightarrow> string \<Rightarrow> shared_state \<Rightarrow> io_action list option" where
  "cmd_help env width data sh =
     (if \<not> strings_match data [] then Some (output_help_for_command env data sh)
      else map_option (map (\<lambda>m. Ev (Print (active (sh_ev sh)) TYPE_SPEC_NONE m))) (list_all_commands_dynamic env sh width))"

section \<open>The prompt\<close>

definition actwin :: "shared_state \<Rightarrow> irc_window option" where
  "actwin sh = (case active (sh_ev sh) of None \<Rightarrow> None | Some p \<Rightarrow> window_at (wins (sh_ev sh)) p)"

definition ACTWINLABEL :: "shared_state \<Rightarrow> string" where "ACTWINLABEL sh = active_label (sh_ev sh)"

definition minimum_cols :: int where "minimum_cols = int (length ''#abc...: '') + 1"

definition get_prompt :: "io_env \<Rightarrow> shared_state \<Rightarrow> string" where
  "get_prompt env sh =
     (let lbl = ACTWINLABEL sh; prompt_maxlen = io_cols env div 2;
          prompt = lbl @ (if g_is_away (irc (sh_ev sh)) then ''(away)'' else []) @
                   (if is_irc_channel (Some lbl) then '':'' else ''>'') @ '' ''
      in if strings_match_ignore_case lbl g_status_window_label
            \<or> (case lbl of [] \<Rightarrow> False | c # _ \<Rightarrow> c = g_sym_logwin (ev_win (sh_env sh)))
            \<or> (case actwin sh of None \<Rightarrow> False | Some w \<Rightarrow> is_logwin w)
            \<or> io_cols env < minimum_cols then []
         else if prompt_maxlen < minimum_cols then []
         else if int (length prompt) \<ge> prompt_maxlen then []
         else if \<not> (\<forall>c\<in>set prompt. sw_isprint (schar c)) then []
         else prompt)"

section \<open>Sending what was typed\<close>

definition member_sign :: "names \<Rightarrow> char" where
  "member_sign n =
     (if is_owner n then CHR ''~'' else if is_superop n then CHR ''&'' else if is_op n then CHR ''@''
      else if is_halfop n then CHR ''%'' else if is_voice n then CHR ''+'' else CHR '' '')"

definition transmit_user_input ::
    "io_env \<Rightarrow> string \<Rightarrow> string \<Rightarrow> shared_state \<Rightarrow> (shared_state \<times> io_action list) option" where
  "transmit_user_input env winlabel input sh =
     (let ev = sh_ev sh; t = ev_theme (sh_env sh); w = win ev winlabel;
          s1 = Theme.Theme t (Some ''nick_s1''); s2 = Theme.Theme t (Some ''nick_s2'');
          shown = (\<lambda>sign. Ev (Print (to_win w) TYPE_SPEC_NONE
                    (s1 @ sign @ COLOR1 t @ my_nick ev @ ch_normal @ s2 @ '' '' @ input)));
          echo = (if \<not> is_irc_channel (Some winlabel) then shown []
                  else case event_names_htbl_lookup (my_nick ev) winlabel ev of
                    None \<Rightarrow> Ev (ev_action.Log ''transmit_user_input: hash table lookup error'')
                  | Some n \<Rightarrow> shown [member_sign n])
      in case w of
        None \<Rightarrow> Some (sh, [Ev (ev_action.Log (''transmit_user_input: window '' @ winlabel @ '' not found''))])
      | Some w' \<Rightarrow>
          if is_logwin w' then Some (sh, [Ev (Print (active ev) TYPE_SPEC1_WARN ''cannot transmit to a log window'')])
          else if g_icb_mode (ev_win (sh_env sh)) then
            do { acts \<leftarrow> (if is_irc_channel (Some winlabel) then icb_send_open_msg input else icb_send_pm winlabel input);
                 Some (sh, [Icb acts, echo]) }
          else if \<not> net_ok (sh_env sh) then Some (sh\<lparr>sh_lost := True\<rparr>, [])
          else Some (sh, [Ev (Net_send (''PRIVMSG '' @ winlabel @ '' :'' @ input)), echo]))"

section \<open>The loop\<close>

text \<open>\<^verbatim>\<open>sscanf(s, "%d", &n)\<close> on a string that begins with a digit, as glibc converts it.\<close>

definition scan_int :: "string \<Rightarrow> int" where
  "scan_int s =
     sint (word_of_int (min (int (digits_value 0 (takeWhile (\<lambda>c. isdigit (code c)) s))) LONG_MAX) :: 32 word)"

definition remember :: "io_env \<Rightarrow> string \<Rightarrow> io_action list \<Rightarrow> io_state \<Rightarrow> (io_state \<times> io_action list) option" where
  "remember env line acts st =
     do { h \<leftarrow> add_to_history (shared st) line (history st);
          Some (st\<lparr>history := h, element := tb_tail (snd h)\<rparr>, acts) }"

text \<open>A command behind spaces is held back.\<close>

definition type_protected :: "io_env \<Rightarrow> string \<Rightarrow> shared_state \<Rightarrow> bool" where
  "type_protected env line sh \<longleftrightarrow>
     (let n = length (takeWhile (\<lambda>c. c = CHR '' '') line) in
      fst (config_bool (ev_config (sh_env sh)) ''cmd_type_prot'' True) \<and> sh_on_air sh
      \<and> \<not> strings_match (ACTWINLABEL sh) g_status_window_label \<and> n \<le> 5 \<and> n < length line \<and> line ! n = CHR ''/'')"

definition type_protection_msg :: string where
  "type_protection_msg =
     ''Command type protection is '' @ ch_bold @ ''ON'' @ ch_bold @ ''  --  nothing has been transmitted!''"

definition io_line :: "io_env \<Rightarrow> string \<Rightarrow> io_state \<Rightarrow> (io_state \<times> io_action list) option" where
  "io_line env line st =
     (let sh = shared st; ev = sh_ev sh; lbl = ACTWINLABEL sh;
          slash = (line \<noteq> [] \<and> hd line = CHR ''/'');
          digit = (1 < length line \<and> sw_isdigit (schar (line ! 1)))
      in if slash \<and> \<not> digit then
           (let a = handle_cmds env (drop 1 line) sh;
                sh' = (case a of Call f args \<Rightarrow> do_cmd env f args sh | _ \<Rightarrow> sh)
            in remember env line [a] (st\<lparr>shared := sh'\<rparr>))
         else if slash then
           Some (st\<lparr>shared := sh\<lparr>sh_ev := ev\<lparr>wins := snd (change_window_by_refnum (ev_win (sh_env sh)) (scan_int (drop 1 line)) (wins ev))\<rparr>\<rparr>\<rparr>, [])
         else if type_protected env line sh then
           remember env line [Ev (Print (active ev) TYPE_SPEC1_WARN type_protection_msg)] st
         else if sh_on_air sh \<and> \<not> strings_match lbl g_status_window_label then
           do { (sh', acts) \<leftarrow> transmit_user_input env lbl line sh;
                remember env line acts (st\<lparr>shared := sh'\<rparr>) }
         else remember env line [] st)"

definition io_step :: "io_env \<Rightarrow> rl_result \<Rightarrow> io_state \<Rightarrow> (io_state \<times> io_action list) option" where
  "io_step env inp st =
     (let st = st\<lparr>g_push_back_buf := []\<rparr> in
      case inp of
        Line line \<Rightarrow> io_line env line st
      | No_line x \<Rightarrow>
          if x = Resize_requested then Some (st, [Resize])
          else if x = Hist_next then map_option (\<lambda>st. (st, [])) (history_next env st)
          else if x = Hist_prev then map_option (\<lambda>st. (st, [])) (history_prev env st)
          else Some (st, [])
      | Waiting s \<Rightarrow> Some (st, []))"

text \<open>The loop ends with its inputs, or when a command has asked for it.\<close>

fun io_loop :: "io_env \<Rightarrow> rl_result list \<Rightarrow> io_state \<Rightarrow> (io_state \<times> io_action list) option" where
  "io_loop env [] st = Some (st, [])"
| "io_loop env (inp # inps) st =
     do { (st, acts) \<leftarrow> io_step env inp st;
          if \<not> sh_io_loop (shared st) then Some (st, acts)
          else do { (st, acts') \<leftarrow> io_loop env inps st; Some (st, acts @ acts') } }"

text \<open>
  One turn of the loop with the keys that are typed: what was pushed back is read before them.
\<close>

definition io_round ::
    "io_env \<Rightarrow> rl_env \<Rightarrow> tab_env \<Rightarrow> loop_env \<Rightarrow> int \<Rightarrow> int list \<Rightarrow> io_state \<Rightarrow> (io_state \<times> io_action list) option" where
  "io_round env renv tenv lenv psize ks st =
     (case readline renv tenv lenv psize (g_push_back_buf st @ ks) of
        Some (Inr (res, _)) \<Rightarrow> io_step env res st
      | _ \<Rightarrow> None)"

section \<open>Start\<close>

definition io_init :: "shared_state \<Rightarrow> io_state" where
  "io_init sh = \<lparr>history = empty_buffer, element = None, g_push_back_buf = [], shared = sh\<rparr>"

definition auto_connect :: "string \<Rightarrow> string \<Rightarrow> io_action" where
  "auto_connect server port =
     (let buf = server @ '':'' @ port
      in if length buf \<ge> 400 then Ev (ev_action.Log ''enter_io_loop: snprintf'') else Call ''cmd_connect'' buf)"

end
