(* ===== verification/Io_Loop_Laws.thy ===== *)
theory Io_Loop_Laws
  imports Io_Loop
begin

text \<open>
  What holds of the input and output loop: every command is found under its name and shown by
  \<^verbatim>\<open>/help\<close>, and the lines of the history come back as they were typed.
\<close>

section \<open>The table\<close>

lemma cmds_length [simp]: "length cmds = 83"
  by (simp add: cmds_def)

lemma cmds_names: "distinct (map cm_cmd cmds) \<and> (\<forall>sp\<in>set cmds. cm_cmd sp \<noteq> [] \<and> CHR '' '' \<notin> set (cm_cmd sp))"
  by (simp add: cmds_def cmd_entry_def)

lemma longest [simp]: "get_longest_cmdlen = 11"
  by (simp add: get_longest_cmdlen_def cmds_def cmd_entry_def)

lemma cmd_short: "sp \<in> set cmds \<Longrightarrow> length (cm_cmd sp) \<le> 11"
proof -
  have "\<forall>sp\<in>set cmds. length (cm_cmd sp) \<le> 11" by (simp add: cmds_def cmd_entry_def)
  then show "sp \<in> set cmds \<Longrightarrow> length (cm_cmd sp) \<le> 11" by blast
qed

section \<open>Dispatch\<close>

definition first_name :: "string \<Rightarrow> string" where
  "first_name data = takeWhile (\<lambda>c. c \<noteq> CHR '' '') data"

lemma name_match:
  assumes "CHR '' '' \<notin> set c"
  shows "first_name data = c \<longleftrightarrow> data = c \<or> (\<exists>r. data = c @ '' '' @ r)"
proof
  assume "first_name data = c"
  then show "data = c \<or> (\<exists>r. data = c @ '' '' @ r)"
  proof (cases "CHR '' '' \<in> set data")
    case True
    from takeWhile_neq_split [OF this] show ?thesis
      using \<open>first_name data = c\<close> by (auto simp: first_name_def)
  next
    case False
    then have "\<forall>x\<in>set data. x \<noteq> CHR '' ''" by blast
    then have "first_name data = data" unfolding first_name_def by (rule takeWhile_eq_self)
    then show ?thesis using \<open>first_name data = c\<close> by simp
  qed
next
  assume "data = c \<or> (\<exists>r. data = c @ '' '' @ r)"
  moreover have "\<forall>x\<in>set c. x \<noteq> CHR '' ''" using assms by blast
  note takeWhile_append_stop [OF this, of "CHR '' ''"] takeWhile_eq_self [OF this]
  ultimately show "first_name data = c" unfolding first_name_def by force
qed

lemma cmds_loop_find:
  assumes "\<forall>sp\<in>set sps. CHR '' '' \<notin> set (cm_cmd sp)"
  shows "cmds_loop env sps data sh =
    (case find (\<lambda>sp. cm_cmd sp = first_name data) sps of
       None \<Rightarrow> io_fail ''unknown command'' (sh_ev sh)
     | Some sp \<Rightarrow> run_cmd env sp (drop (Suc (length (cm_cmd sp))) data) sh)"
  using assms
proof (induction sps)
  case (Cons sp sps)
  have m: "first_name data = cm_cmd sp \<longleftrightarrow> data = cm_cmd sp \<or> (\<exists>r. data = cm_cmd sp @ '' '' @ r)"
    using name_match Cons.prems by simp
  have p: "strncmp_eq data (cm_cmd sp @ '' '') (length (cm_cmd sp @ '' '')) \<longleftrightarrow> (\<exists>r. data = cm_cmd sp @ '' '' @ r)"
    by (auto simp: strncmp_eq_def) (metis append.assoc append_take_drop_id append_Cons append_Nil)
  show ?case
    using m p Cons by (auto simp: Let_def strings_match_def strcmp_0_iff eq_commute [of _ "first_name data"])
qed simp

section \<open>The list of commands\<close>

lemma count_cols_inv:
  assumes "count = 12 * cols" "0 \<le> cols" "cols \<le> 6" "cols = 0 \<or> count - 12 < space" "count_cols space count cols = (n, c)"
  shows "n = 12 * c \<and> 0 \<le> c \<and> c \<le> 6 \<and> (c = 0 \<or> n - 12 < space) \<and> (space \<le> n \<or> c = 6)"
  using assms
proof (induction space count cols rule: count_cols.induct)
  case (1 space count cols)
  show ?case
    using 1 by (subst (asm) (2) count_cols.simps) (auto simp: LIST_MAXCOL_def split: if_splits)
qed

lemma num_cols: "1 \<le> get_num_cols space" "get_num_cols space \<le> 6" "12 \<le> space \<Longrightarrow> 12 * get_num_cols space \<le> space"
proof -
  obtain n c where nc: "count_cols space 0 0 = (n, c)" by (cases "count_cols space 0 0")
  have "n = 12 * c \<and> 0 \<le> c \<and> c \<le> 6 \<and> (c = 0 \<or> n - 12 < space) \<and> (space \<le> n \<or> c = 6)"
    by (rule count_cols_inv [OF _ _ _ _ nc]) simp_all
  then have "0 \<le> c \<and> c \<le> 6 \<and> n = 12 * c" "c = 0 \<or> 12 * c - 12 < space" by auto
  then show "1 \<le> get_num_cols space" "get_num_cols space \<le> 6" "12 \<le> space \<Longrightarrow> 12 * get_num_cols space \<le> space"
    by (auto simp: get_num_cols_def nc Let_def)
qed

lemma num_rows:
  assumes "1 \<le> c" "c \<le> 6"
  shows "0 \<le> get_num_rows c" "get_num_rows c \<le> 83" "83 \<le> get_num_rows c * c"
proof -
  have "c = 1 \<or> c = 2 \<or> c = 3 \<or> c = 4 \<or> c = 5 \<or> c = 6" using assms by arith
  then show "0 \<le> get_num_rows c" "get_num_rows c \<le> 83" "83 \<le> get_num_rows c * c"
    by (auto simp: get_num_rows_def)
qed

lemma concat_columns:
  "concat (map (\<lambda>k. map (\<lambda>i. f (i + r * k)) [0..<r]) [0..<c]) = map f [0..<r * c]"
proof (induction c)
  case (Suc c)
  have "map (\<lambda>i. f (i + r * c)) [0..<r] = map f [r * c..<r * c + r]"
    by (simp add: list_eq_iff_nth_eq add.commute)
  then show ?case using Suc upt_add_eq_append [of 0 "r * c" r] by (simp add: add.commute)
qed simp

lemma list_rows_eq:
  "(\<forall>i\<in>set is. i < length cmds) \<Longrightarrow>
   list_rows c r is = Some (map (\<lambda>i. set_array i r 0 # map (set_array i r) [1..<c]) is)"
  by (induction "is") (auto simp: list_row_def set_array_def)

lemma named_cells:
  assumes "83 \<le> m"
  shows "filter (\<lambda>s. s \<noteq> []) (map (\<lambda>j. if j < length cmds then cm_cmd (cmds ! j) else []) [0..<m]) = map cm_cmd cmds"
proof -
  have "[0..<m] = [0..<83] @ [83..<m]" using assms upt_add_eq_append [of 0 83 "m - 83"] by simp
  moreover have "map (\<lambda>j. if j < length cmds then cm_cmd (cmds ! j) else []) [0..<83] = map cm_cmd cmds"
    by (rule nth_equalityI) simp_all
  moreover have "filter (\<lambda>s. s \<noteq> []) (map cm_cmd cmds) = map cm_cmd cmds"
    using cmds_names by (auto simp: filter_id_conv)
  ultimately show ?thesis by simp
qed

lemma cell_short: "length (set_array i r k) \<le> 11"
  using cmd_short by (auto simp: set_array_def)

lemma format_row_length:
  assumes "\<forall>s\<in>set row. length s \<le> 11" "row \<noteq> []"
  shows "length (format_row row) \<le> 12 * length row - 1"
proof -
  have "length (concat (map (\<lambda>s. pad_right 11 s @ '' '') xs)) = 12 * length xs" if "\<forall>s\<in>set xs. length s \<le> 11" for xs
    using that by (induction xs) (auto simp: pad_right_def)
  from this [of "butlast row"]
  have "length (format_row row) = 12 * (length row - 1) + length (last row)"
    using assms in_set_butlastD [of _ row] by (simp add: format_row_def)
  moreover have "length (last row) \<le> 11" "1 \<le> length row" using assms by (simp_all add: Suc_leI)
  ultimately show ?thesis by simp
qed



text \<open>
  The command of a line is found by its name, the text before the first space; its argument
  is what follows that space, and a name that is not in the table is reported.  No two
  entries have the same name.
\<close>

theorem command_dispatch:
  "handle_cmds env data sh =
    (case find (\<lambda>sp. cm_cmd sp = first_name data) cmds of
       None \<Rightarrow> io_fail ''unknown command'' (sh_ev sh)
     | Some sp \<Rightarrow> run_cmd env sp (drop (Suc (length (cm_cmd sp))) data) sh)
   \<and> distinct (map cm_cmd cmds)"
  using cmds_loop_find [of cmds env data sh] cmds_names by (simp add: handle_cmds_def)

text \<open>
  \<^verbatim>\<open>/help\<close> lists every command: whatever the width of the window, the listing succeeds;
  its columns, read one after the other, are the commands of the table in their order, each exactly
  once; and no row is wider than the window if at least one column fits.
\<close>

theorem help_lists_every_command:
  "\<exists>rows. command_rows space = Some rows
    \<and> (\<forall>row\<in>set rows. length row = nat (get_num_cols space))
    \<and> filter (\<lambda>s. s \<noteq> []) (concat (map (\<lambda>k. map (\<lambda>row. row ! k) rows) [0..<nat (get_num_cols space)])) = map cm_cmd cmds
    \<and> (space < 12 \<or> (\<forall>row\<in>set rows. int (length (format_row row)) < space))"
proof -
  define c where "c = nat (get_num_cols space)"
  define r where "r = nat (get_num_rows (get_num_cols space))"
  have c: "1 \<le> c" "c \<le> 6" "get_num_cols space = int c" using num_cols [of space] by (simp_all add: c_def)
  have "get_num_rows (int c) = int r" using num_rows(1) [OF num_cols(1,2), of space] c by (simp add: r_def)
  then have r: "r \<le> 83" "83 \<le> r * c"
    using num_rows(2,3) [OF num_cols(1,2), of space] c by (simp_all flip: of_nat_mult)
  let ?rows = "map (\<lambda>i. map (set_array i r) [0..<c]) [0..<r]"
  have u: "[0..<c] = 0 # [1..<c]" using c by (simp add: upt_conv_Cons)
  have rows: "command_rows space = Some ?rows"
    using list_rows_eq [of "[0..<r]" c r] r(1) u by (simp add: command_rows_def Let_def flip: c_def r_def)
  have "concat (map (\<lambda>k. map (\<lambda>row. row ! k) ?rows) [0..<c]) =
      concat (map (\<lambda>k. map (\<lambda>i. set_array i r k) [0..<r]) [0..<c])"
    by (intro arg_cong [of _ _ concat] map_cong) (auto simp: o_def)
  also have "\<dots> = map (\<lambda>j. if j < length cmds then cm_cmd (cmds ! j) else []) [0..<r * c]"
    using concat_columns [of "\<lambda>j. if j < length cmds then cm_cmd (cmds ! j) else []" r c]
    by (simp only: set_array_def)
  finally have "filter (\<lambda>s. s \<noteq> []) (concat (map (\<lambda>k. map (\<lambda>row. row ! k) ?rows) [0..<c])) = map cm_cmd cmds"
    using named_cells [OF r(2)] by simp
  moreover have "int (length (format_row row)) < space" if "row \<in> set ?rows" "12 \<le> space" for row
    using format_row_length [of row] that cell_short num_cols(3) [of space] c by fastforce
  moreover have "\<forall>row\<in>set ?rows. length row = c" by auto
  ultimately show ?thesis unfolding c_def [symmetric]
    by (intro exI [of _ ?rows] conjI rows) (blast | meson not_less)+
qed


theorem help_lists_every_command_witness:
  "\<exists>rows. command_rows 80 = Some rows \<and> list_all (\<lambda>row. length (format_row row) < 80) rows"
  using help_lists_every_command [of 80] by (auto simp: list_all_iff)

section \<open>History\<close>

lemma bold_fix_idem [simp]: "bold_fix (bold_fix s) = bold_fix s"
  by (simp add: bold_fix_def ch_BOLD_def ch_BOLD_ALIAS_def)

text \<open>
  The history holds the lines up to their bold characters, which the arrow keys replace; the view has
  the position of the element as well.
\<close>

definition recalled :: "io_env \<Rightarrow> string \<Rightarrow> int list" where
  "recalled env s = push_back env (bold_fix s)"

definition texts :: "store \<Rightarrow> addr list \<Rightarrow> string list" where
  "texts st xs = map (\<lambda>l. bold_fix (fst l)) (Text_Buffer.lines_of st xs)"

definition hist_at :: "buf_state \<Rightarrow> addr option \<Rightarrow> string list \<Rightarrow> nat \<Rightarrow> bool" where
  "hist_at h e ls i \<longleftrightarrow>
     (\<exists>xs. buf_list (fst h) (snd h) xs \<and> texts (fst h) xs = map bold_fix ls \<and> i < length xs \<and> e = Some (xs ! i))"

lemma seg_text: "c x = Some e \<Longrightarrow> seg (c(x \<mapsto> e\<lparr>el_text := t\<rparr>)) p xs n = seg c p xs n"
  by (induction xs arbitrary: p) auto

lemma fix_element_ok:
  assumes "buf_list (fst h) (snd h) xs" "texts (fst h) xs = map bold_fix ls" "i < length xs"
  shows "\<exists>h'. fix_element (xs ! i) h = Some (bold_fix (ls ! i), h') \<and> buf_list (fst h') (snd h') xs
    \<and> texts (fst h') xs = map bold_fix ls \<and> snd h' = snd h
    \<and> elmt_next h' (xs ! i) = elmt_next h (xs ! i) \<and> elmt_prev h' (xs ! i) = elmt_prev h (xs ! i)"
proof -
  obtain st b where h: "h = (st, b)" by (cases h)
  have sg: "seg (cells st) None xs None" using assms(1) by (simp add: h buf_list_def)
  then obtain e where e: "cells st (xs ! i) = Some e" using seg_allocated [OF sg, of "xs ! i"] assms(3) by auto
  have l: "length ls = length xs" using arg_cong [OF assms(2), of length] by (simp add: texts_def Text_Buffer.lines_of_def lines_in_def)
  have t: "bold_fix (el_text e) = bold_fix (ls ! i)"
    using arg_cong [OF assms(2), of "\<lambda>xs. xs ! i"] assms(3) l e
    by (simp add: texts_def Text_Buffer.lines_of_def lines_in_def line_of_def h)
  let ?c = "(cells st)(xs ! i \<mapsto> e\<lparr>el_text := bold_fix (el_text e)\<rparr>)"
  have "texts (st\<lparr>cells := ?c\<rparr>) xs = texts st xs"
    using e by (auto simp: texts_def Text_Buffer.lines_of_def lines_in_def line_of_def)
  then show ?thesis
    using assms e t by (auto simp: fix_element_def h Let_def buf_list_def seg_text elmt_next_def elmt_prev_def)
qed

lemma nth_split: "i < length xs \<Longrightarrow> xs = take i xs @ xs ! i # drop (Suc i) xs"
  by (rule id_take_nth_drop)

lemma elmt_links:
  assumes "buf_list (fst h) (snd h) xs" "i < length xs"
  shows "elmt_next h (xs ! i) = Some (if Suc i < length xs then Some (xs ! Suc i) else None)"
    "elmt_prev h (xs ! i) = Some (if 0 < i then Some (xs ! (i - 1)) else None)"
    "tb_head (snd h) = Some (xs ! i) \<longleftrightarrow> i = 0" "tb_tail (snd h) = Some (xs ! i) \<longleftrightarrow> Suc i = length xs"
    "tb_size (snd h) \<noteq> 0"
proof -
  have sg: "seg (cells (fst h)) None (take i xs @ xs ! i # drop (Suc i) xs) None"
    using assms nth_split [OF assms(2)] by (simp add: buf_list_def)
  obtain e where e: "cells (fst h) (xs ! i) = Some e" "el_prev e = last_or None (take i xs)"
    "el_next e = first_or (drop (Suc i) xs) None"
    using seg_at [OF sg] by blast
  have f: "first_or (drop (Suc i) xs) None = (if Suc i < length xs then Some (xs ! Suc i) else None)"
    by (cases "Suc i < length xs") (simp_all add: Cons_nth_drop_Suc [symmetric])
  have g: "last_or None (take i xs) = (if 0 < i then Some (xs ! (i - 1)) else None)"
    using assms(2) by (auto simp: last_or_def last_conv_nth)
  show "elmt_next h (xs ! i) = Some (if Suc i < length xs then Some (xs ! Suc i) else None)"
    "elmt_prev h (xs ! i) = Some (if 0 < i then Some (xs ! (i - 1)) else None)"
    using e f g by (simp_all add: elmt_next_def elmt_prev_def)
  have d: "distinct xs" "xs \<noteq> []" using assms by (auto simp: buf_list_def)
  have "first_or xs None = Some (xs ! 0)" using d by (cases xs) auto
  moreover have "last_or None xs = Some (xs ! (length xs - 1))" using d by (simp add: last_or_def last_conv_nth)
  ultimately show "tb_head (snd h) = Some (xs ! i) \<longleftrightarrow> i = 0" "tb_tail (snd h) = Some (xs ! i) \<longleftrightarrow> Suc i = length xs"
    "tb_size (snd h) \<noteq> 0"
    using assms d by (auto simp: buf_list_def nth_eq_iff_index_eq)
qed

lemma history_prev_step:
  assumes "hist_at (history st) (element st) ls i"
  shows "\<exists>h e. history_prev env st = Some (st\<lparr>history := h, element := e, g_push_back_buf := recalled env (ls ! i)\<rparr>)
    \<and> hist_at h e ls (i - 1)"
proof -
  obtain xs where xs: "buf_list (fst (history st)) (snd (history st)) xs" "texts (fst (history st)) xs = map bold_fix ls"
    "i < length xs" "element st = Some (xs ! i)"
    using assms by (auto simp: hist_at_def)
  obtain h where h: "fix_element (xs ! i) (history st) = Some (bold_fix (ls ! i), h)" "buf_list (fst h) (snd h) xs"
    "texts (fst h) xs = map bold_fix ls" "snd h = snd (history st)" "elmt_prev h (xs ! i) = elmt_prev (history st) (xs ! i)"
    using fix_element_ok [OF xs(1,2,3)] by blast
  note l = elmt_links [OF xs(1,3)]
  have e: "(if element st \<noteq> tb_head (snd h) then elmt_prev h (xs ! i) else Some (element st)) = Some (Some (xs ! (i - 1)))"
    using h(4,5) xs(4) l(2,3) by (cases "i = 0") simp_all
  have "history_prev env st = Some (st\<lparr>history := h, element := Some (xs ! (i - 1)), g_push_back_buf := recalled env (ls ! i)\<rparr>)"
    using e h(1) l(5) xs(4) by (simp add: history_prev_def recalled_def del: if_split)
  moreover have "i - 1 < length xs" using xs(3) by simp
  with h(2,3) have "hist_at h (Some (xs ! (i - 1))) ls (i - 1)" by (auto simp: hist_at_def)
  ultimately show ?thesis by blast
qed

lemma history_next_step:
  assumes "hist_at (history st) (element st) ls i"
  shows "\<exists>h e. history_next env st = Some (st\<lparr>history := h, element := e,
        g_push_back_buf := recalled env (ls ! min (Suc i) (length ls - 1))\<rparr>)
    \<and> hist_at h e ls (min (Suc i) (length ls - 1))"
proof -
  obtain xs where xs: "buf_list (fst (history st)) (snd (history st)) xs" "texts (fst (history st)) xs = map bold_fix ls"
    "i < length xs" "element st = Some (xs ! i)"
    using assms by (auto simp: hist_at_def)
  have l: "length ls = length xs" using arg_cong [OF xs(2), of length] by (simp add: texts_def Text_Buffer.lines_of_def lines_in_def)
  let ?j = "min (Suc i) (length xs - 1)"
  have j: "?j < length xs" using xs(3) by simp
  obtain h where h: "fix_element (xs ! ?j) (history st) = Some (bold_fix (ls ! ?j), h)" "buf_list (fst h) (snd h) xs"
    "texts (fst h) xs = map bold_fix ls"
    using fix_element_ok [OF xs(1,2) j] by blast
  note n = elmt_links [OF xs(1,3)]
  have e: "(if element st \<noteq> tb_tail (snd (history st)) then elmt_next (history st) (the (element st)) else Some (element st))
      = Some (Some (xs ! ?j))"
    using n(1,4) xs(3,4) diff_Suc_1 [of i] by (cases "Suc i = length xs") (auto simp: min_def simp del: diff_Suc_1)
  have "history_next env st = Some (st\<lparr>history := h, element := Some (xs ! ?j), g_push_back_buf := recalled env (ls ! ?j)\<rparr>)"
    using e h n(5) xs(4) by (simp add: history_next_def recalled_def del: if_split)
  moreover have "hist_at h (Some (xs ! ?j)) ls ?j" using h(2,3) j by (auto simp: hist_at_def)
  ultimately show ?thesis unfolding l by blast
qed


lemma prevs:
  assumes "hist_at (history st) (element st) ls i" "sh_io_loop (shared st)"
  shows "\<exists>st'. io_loop env (replicate (Suc k) (No_line Hist_prev)) st = Some (st', []) \<and> shared st' = shared st
    \<and> hist_at (history st') (element st') ls (i - Suc k) \<and> g_push_back_buf st' = recalled env (ls ! (i - k))"
  using assms
proof (induction k arbitrary: st i)
  case 0
  obtain h e where "history_prev env (st\<lparr>g_push_back_buf := []\<rparr>) =
      Some (st\<lparr>history := h, element := e, g_push_back_buf := recalled env (ls ! i)\<rparr>)" "hist_at h e ls (i - 1)"
    using history_prev_step [of "st\<lparr>g_push_back_buf := []\<rparr>" ls i env] 0 by auto
  then show ?case using 0 by (auto simp: io_step_def Let_def)
next
  case (Suc k)
  obtain h e where h: "history_prev env (st\<lparr>g_push_back_buf := []\<rparr>) =
      Some (st\<lparr>history := h, element := e, g_push_back_buf := recalled env (ls ! i)\<rparr>)" "hist_at h e ls (i - 1)"
    using history_prev_step [of "st\<lparr>g_push_back_buf := []\<rparr>" ls i env] Suc.prems by auto
  let ?s = "st\<lparr>history := h, element := e, g_push_back_buf := recalled env (ls ! i)\<rparr>"
  obtain st' where st': "io_loop env (replicate (Suc k) (No_line Hist_prev)) ?s = Some (st', [])" "shared st' = shared ?s"
    "hist_at (history st') (element st') ls (i - 1 - Suc k)" "g_push_back_buf st' = recalled env (ls ! (i - 1 - k))"
    using Suc.IH [of ?s "i - 1"] h(2) Suc.prems(2) by auto
  have "io_loop env (replicate (Suc (Suc k)) (No_line Hist_prev)) st = Some (st', [])"
    using h(1) st'(1) Suc.prems(2) by (subst replicate_Suc) (simp add: io_step_def Let_def del: replicate.simps)
  then show ?case using st' by auto
qed

lemma nexts:
  assumes "hist_at (history st) (element st) ls i" "sh_io_loop (shared st)"
  shows "\<exists>st'. io_loop env (replicate (Suc k) (No_line Hist_next)) st = Some (st', []) \<and> shared st' = shared st
    \<and> hist_at (history st') (element st') ls (min (i + Suc k) (length ls - 1))
    \<and> g_push_back_buf st' = recalled env (ls ! min (i + Suc k) (length ls - 1))"
  using assms
proof (induction k arbitrary: st i)
  case 0
  obtain h e where "history_next env (st\<lparr>g_push_back_buf := []\<rparr>) =
      Some (st\<lparr>history := h, element := e, g_push_back_buf := recalled env (ls ! min (Suc i) (length ls - 1))\<rparr>)"
    "hist_at h e ls (min (Suc i) (length ls - 1))"
    using history_next_step [of "st\<lparr>g_push_back_buf := []\<rparr>" ls i env] 0 by auto
  then show ?case using 0 by (auto simp: io_step_def Let_def)
next
  case (Suc k)
  let ?j = "min (Suc i) (length ls - 1)"
  obtain h e where h: "history_next env (st\<lparr>g_push_back_buf := []\<rparr>) =
      Some (st\<lparr>history := h, element := e, g_push_back_buf := recalled env (ls ! ?j)\<rparr>)" "hist_at h e ls ?j"
    using history_next_step [of "st\<lparr>g_push_back_buf := []\<rparr>" ls i env] Suc.prems by auto
  let ?s = "st\<lparr>history := h, element := e, g_push_back_buf := recalled env (ls ! ?j)\<rparr>"
  have m: "min (?j + Suc k) (length ls - 1) = min (i + Suc (Suc k)) (length ls - 1)" by simp
  obtain st' where st': "io_loop env (replicate (Suc k) (No_line Hist_next)) ?s = Some (st', [])" "shared st' = shared ?s"
    "hist_at (history st') (element st') ls (min (?j + Suc k) (length ls - 1))"
    "g_push_back_buf st' = recalled env (ls ! min (?j + Suc k) (length ls - 1))"
    using Suc.IH [of ?s ?j] h(2) Suc.prems(2) by auto
  have "io_loop env (replicate (Suc (Suc k)) (No_line Hist_next)) st = Some (st', [])"
    using h(1) st'(1) Suc.prems(2) by (subst replicate_Suc) (simp add: io_step_def Let_def del: replicate.simps)
  then show ?case using st' unfolding m by auto
qed

section \<open>What is kept\<close>

definition window_number :: "string \<Rightarrow> bool" where
  "window_number l \<longleftrightarrow> l \<noteq> [] \<and> hd l = CHR ''/'' \<and> 1 < length l \<and> sw_isdigit (schar (l ! 1))"

text \<open>
  A line that was handled, with the setting at the time when it is added: it enters the history unless
  the setting is zero, the line carries a password or is the number of a window; if the history
  has reached the setting or is beyond it, one line is dropped.
\<close>

definition enters :: "string \<times> int \<Rightarrow> bool" where
  "enters x \<longleftrightarrow> snd x \<noteq> 0 \<and> \<not> keeps_secret (fst x) \<and> \<not> window_number (fst x)"

definition hist_add :: "string \<times> int \<Rightarrow> (string \<times> int) list \<Rightarrow> (string \<times> int) list" where
  "hist_add x ls = (if enters x then (if int (length ls) < snd x then ls else tl ls) @ [(fst x, 0)] else ls)"



lemma cmd_hist_size_range: "0 \<le> cmd_hist_size sh \<and> cmd_hist_size sh \<le> 300"
  by (auto simp: cmd_hist_size_def config_integer_def getval_strtol_def Let_def split: option.split prod.splits bool.splits if_splits)




text \<open>A full queue, and one that is longer than the bound.\<close>

context line_queue
begin

lemma bounded_push_any:
  assumes "holds s ls" "1 \<le> cap"
  shows "\<exists>s'. bounded_push cap s l = Some s' \<and> holds s' ((if int (length ls) < cap then ls else tl ls) @ [l])"
proof (cases "int (length ls) < cap")
  case True
  then show ?thesis using push [OF assms(1)] len [OF assms(1)] by (simp add: bounded_push_def)
next
  case False
  then obtain x xs where ls: "ls = x # xs" using assms(2) by (cases ls) auto
  then obtain s1 where s1: "pop s = Some s1" "holds s1 xs" using pop assms(1) by blast
  then show ?thesis using push [OF s1(2)] s1(1) False len [OF assms(1)] by (auto simp: bounded_push_def ls)
qed

end

lemma add_to_history_ok:
  assumes "buf_holds h ls" "\<not> window_number s"
  shows "\<exists>h'. add_to_history sh s h = Some h' \<and> buf_holds h' (hist_add (s, cmd_hist_size sh) ls)"
proof (cases "enters (s, cmd_hist_size sh)")
  case False
  then show ?thesis using assms by (auto simp: add_to_history_def enters_def hist_add_def)
next
  case True
  then have c: "1 \<le> cmd_hist_size sh" "cmd_hist_size sh \<noteq> 0" "\<not> keeps_secret s"
    using cmd_hist_size_range [of sh] by (auto simp: enters_def)
  then have "add_to_history sh s h = tbuf.bounded_push (cmd_hist_size sh) h (s, 0)"
    by (simp add: add_to_history_def tbuf.bounded_push_def buf_pop_def buf_push_def Let_def)
  then show ?thesis using tbuf.bounded_push_any [OF assms(1) c(1), of "(s, 0)"] True by (auto simp: hist_add_def)
qed

text \<open>Every line is handled, outside ICB mode.\<close>

definition irc_mode :: "shared_state \<Rightarrow> bool" where
  "irc_mode sh \<longleftrightarrow> \<not> g_icb_mode (ev_win (sh_env sh))"

definition stays_irc :: "io_env \<Rightarrow> bool" where
  "stays_irc env \<longleftrightarrow> (\<forall>f args sh. irc_mode sh \<longrightarrow> irc_mode (do_cmd env f args sh))"

lemma transmit_ok:
  assumes "irc_mode sh"
  shows "\<exists>sh' acts. transmit_user_input env lbl l sh = Some (sh', acts) \<and> irc_mode sh'"
proof (cases "win (sh_ev sh) lbl")
  case None
  then show ?thesis using assms by (simp add: transmit_user_input_def Let_def)
next
  case (Some w)
  then show ?thesis using assms
    by (cases "is_logwin w"; cases "net_ok (sh_env sh)") (simp_all add: transmit_user_input_def irc_mode_def Let_def)
qed

lemma io_line_remembers:
  assumes "\<not> window_number l" "irc_mode (shared st)" "stays_irc env"
  shows "\<exists>st1 acts. io_line env l st = remember env l acts st1 \<and> history st1 = history st \<and> irc_mode (shared st1)"
proof (cases "l \<noteq> [] \<and> hd l = CHR ''/''")
  case True
  let ?a = "handle_cmds env (drop 1 l) (shared st)"
  let ?sh = "case ?a of Call f args \<Rightarrow> do_cmd env f args (shared st) | _ \<Rightarrow> shared st"
  have "irc_mode ?sh" using assms(2,3) by (simp add: stays_irc_def split: io_action.split)
  moreover have "io_line env l st = remember env l [?a] (st\<lparr>shared := ?sh\<rparr>)"
    using True assms(1) by (simp add: io_line_def window_number_def Let_def)
  ultimately show ?thesis by (intro exI [of _ "st\<lparr>shared := ?sh\<rparr>"] exI [of _ "[?a]"]) simp
next
  case n: False
  show ?thesis
  proof (cases "\<not> type_protected env l (shared st) \<and> sh_on_air (shared st)
      \<and> \<not> strings_match (ACTWINLABEL (shared st)) g_status_window_label")
    case True
    obtain sh' acts where "transmit_user_input env (ACTWINLABEL (shared st)) l (shared st) = Some (sh', acts)"
      "irc_mode sh'"
      using transmit_ok [OF assms(2)] by blast
    moreover from this have "io_line env l st = remember env l acts (st\<lparr>shared := sh'\<rparr>)"
      using n True by (cases l) (simp_all add: io_line_def Let_def)
    ultimately show ?thesis by (intro exI [of _ "st\<lparr>shared := sh'\<rparr>"] exI [of _ acts]) simp
  next
    case False
    have "\<exists>acts. io_line env l st = remember env l acts st"
    proof (cases "type_protected env l (shared st)")
      case True
      then have "io_line env l st = remember env l [Ev (Print (active (sh_ev (shared st))) TYPE_SPEC1_WARN type_protection_msg)] st"
        using n by (cases l) (simp_all add: io_line_def Let_def)
      then show ?thesis by blast
    next
      case f: False
      then have "io_line env l st = remember env l [] st" using n False by (cases l; cases "sh_on_air (shared st)") (simp_all add: io_line_def Let_def)
      then show ?thesis by blast
    qed
    then show ?thesis using assms(2) by blast
  qed
qed

text \<open>The element that the arrow keys show next is the newest line.\<close>

definition hist_ok :: "io_state \<Rightarrow> (string \<times> int) list \<Rightarrow> bool" where
  "hist_ok st ls \<longleftrightarrow> buf_holds (history st) ls \<and> element st = tb_tail (snd (history st)) \<and> irc_mode (shared st)"

lemma io_line_ok:
  assumes "hist_ok st ls" "stays_irc env"
  shows "\<exists>st' acts. io_step env (Line l) st = Some (st', acts) \<and> hist_ok st' (hist_add (l, cmd_hist_size (shared st')) ls)"
proof (cases "window_number l")
  case True
  then show ?thesis using assms
    by (auto simp: io_step_def io_line_def window_number_def hist_ok_def hist_add_def enters_def irc_mode_def Let_def)
next
  case False
  let ?st = "st\<lparr>g_push_back_buf := []\<rparr>"
  have h: "buf_holds (history ?st) ls" "irc_mode (shared ?st)" using assms(1) by (simp_all add: hist_ok_def)
  obtain st1 acts where st1: "io_line env l ?st = remember env l acts st1" "history st1 = history ?st" "irc_mode (shared st1)"
    using io_line_remembers [OF False h(2) assms(2)] by blast
  show ?thesis using add_to_history_ok [OF h(1) False, of "shared st1"] st1
    by (auto simp: io_step_def remember_def hist_ok_def Let_def)
qed

text \<open>The lines that are handled before the loop ends, each with the setting when it is added.\<close>

fun handled :: "io_env \<Rightarrow> string list \<Rightarrow> io_state \<Rightarrow> (string \<times> int) list" where
  "handled env [] st = []"
| "handled env (l # ls) st =
     (case io_step env (Line l) st of
        None \<Rightarrow> []
      | Some (st', _) \<Rightarrow> (l, cmd_hist_size (shared st')) # (if sh_io_loop (shared st') then handled env ls st' else []))"



lemma hist_ok_at:
  assumes "hist_ok st ls" "ls \<noteq> []"
  shows "hist_at (history st) (element st) (map fst ls) (length ls - 1)"
proof -
  obtain xs where xs: "buf_list (fst (history st)) (snd (history st)) xs" "Text_Buffer.lines_of (fst (history st)) xs = ls"
    using assms(1) by (auto simp: hist_ok_def buf_holds_def)
  have l: "length xs = length ls" using arg_cong [OF xs(2), of length] by (simp add: Text_Buffer.lines_of_def lines_in_def)
  have ne: "xs \<noteq> []" using l assms(2) by auto
  have "texts (fst (history st)) xs = map bold_fix (map fst ls)" by (simp add: texts_def xs(2))
  moreover have "element st = Some (xs ! (length ls - 1))"
    using assms(1) xs(1) ne l by (simp add: hist_ok_def buf_list_def last_or_def last_conv_nth)
  moreover have "length ls - 1 < length xs" using assms(2) l by (cases ls) simp_all
  ultimately show ?thesis using xs(1) by (auto simp: hist_at_def intro!: exI [of _ xs])
qed

lemma io_init_ok: "irc_mode sh \<Longrightarrow> hist_ok (io_init sh) []"
  using empty_buffer_holds by (simp add: hist_ok_def io_init_def empty_buffer_def textBuf_new_def)

section \<open>Examples\<close>

text \<open>The program without a connection; \<^verbatim>\<open>/set cmd_hist_size\<close> is what the commands change.\<close>

definition example_do_cmd :: "string \<Rightarrow> string \<Rightarrow> shared_state \<Rightarrow> shared_state" where
  "example_do_cmd f args sh =
     (if f = ''cmd_set''
      then sh\<lparr>sh_env := (sh_env sh)\<lparr>ev_config :=
             Config.hInstall ''cmd_hist_size'' (Some (tl (dropWhile (\<lambda>c. c \<noteq> CHR '' '') args))) config_init\<rparr>\<rparr>
      else sh)"

definition example_io_env :: io_env where
  "example_io_env = \<lparr>io_cols = 80, io_mbs = (\<lambda>s. (map (\<lambda>c. int (code c)) s, True)),
     io_tr = (\<lambda>s. s), do_cmd = example_do_cmd\<rparr>"

definition example_shared :: shared_state where
  "example_shared = \<lparr>sh_ev = example_ev_state, sh_env = example_ev_env, sh_on_air = False, sh_lost = False, sh_io_loop = True\<rparr>"

definition offline :: "config \<Rightarrow> io_state \<Rightarrow> bool" where
  "offline cfg st \<longleftrightarrow> \<not> sh_on_air (shared st) \<and> sh_io_loop (shared st) \<and> ev_config (sh_env (shared st)) = cfg"

definition two_lines :: config where
  "two_lines = Config.hInstall ''cmd_hist_size'' (Some ''2'') config_init"

lemma example_io: "stays_irc example_io_env" "irc_mode example_shared" "offline config_init (io_init example_shared)"
  by (simp_all add: stays_irc_def irc_mode_def offline_def example_io_env_def example_do_cmd_def example_shared_def
      example_ev_env_def example_env_def io_init_def)

lemma example_sizes:
  "offline config_init st \<Longrightarrow> cmd_hist_size (shared st) = 50" "offline two_lines st \<Longrightarrow> cmd_hist_size (shared st) = 2"
proof -
  have "getval_strtol ''2'' 0 300 = (True, 2)" by code_simp
  moreover have "cfg_lookup two_lines ''cmd_hist_size'' = Some ''2''"
    using Config.hInstall_ok(2) [OF config_init_ok] by (simp add: two_lines_def)
  ultimately show "offline two_lines st \<Longrightarrow> cmd_hist_size (shared st) = 2"
    by (simp add: cmd_hist_size_def config_integer_def get_entry offline_def)
  show "offline config_init st \<Longrightarrow> cmd_hist_size (shared st) = 50"
    by (simp add: cmd_hist_size_def config_integer_def get_entry config_init_ok offline_def)
qed

lemma offline_line:
  assumes "hist_ok st ls" "offline cfg st"
    and "window_number l \<or> hd l \<noteq> CHR ''/'' \<or> map_option cm_fn (find (\<lambda>sp. cm_cmd sp = first_name (drop 1 l)) cmds) = Some ''cmd_sasl''
      \<Longrightarrow> cfg' = cfg"
    and "\<not> (window_number l \<or> hd l \<noteq> CHR ''/'' \<or> map_option cm_fn (find (\<lambda>sp. cm_cmd sp = first_name (drop 1 l)) cmds) = Some ''cmd_sasl'')
      \<Longrightarrow> l = ''/set cmd_hist_size 2'' \<and> cfg' = two_lines"
    and "l \<noteq> []"
  shows "\<exists>st1. handled example_io_env (l # lines) st = (l, cmd_hist_size (shared st1)) # handled example_io_env lines st1
    \<and> offline cfg' st1 \<and> hist_ok st1 (hist_add (l, cmd_hist_size (shared st1)) ls)
    \<and> (\<exists>acts. io_step example_io_env (Line l) st = Some (st1, acts))"
proof -
  obtain st1 acts where st1: "io_step example_io_env (Line l) st = Some (st1, acts)"
    "hist_ok st1 (hist_add (l, cmd_hist_size (shared st1)) ls)"
    using io_line_ok [OF assms(1) example_io(1)] by blast
  have "offline cfg' st1"
  proof (cases "window_number l")
    case True
    then show ?thesis using st1(1) assms(2,3)
      by (auto simp: io_step_def io_line_def window_number_def offline_def Let_def)
  next
    case n: False
    show ?thesis
    proof (cases "hd l = CHR ''/''")
      case False
      then show ?thesis using st1(1) assms(2,3,5)
        by (auto simp: io_step_def io_line_def offline_def remember_def type_protected_def Let_def
            split: option.splits Option.bind_splits if_splits)
    next
      case True
      let ?a = "handle_cmds example_io_env (drop 1 l) (shared st)"
      let ?sh = "case ?a of Call f args \<Rightarrow> do_cmd example_io_env f args (shared st) | _ \<Rightarrow> shared st"
      have "shared st1 = ?sh" using st1(1) n True assms(5)
        by (auto simp: io_step_def io_line_def remember_def window_number_def Let_def split: Option.bind_splits
            cong: io_action.case_cong)
      moreover have "offline cfg' (st\<lparr>shared := ?sh\<rparr>)"
      proof (cases "map_option cm_fn (find (\<lambda>sp. cm_cmd sp = first_name (drop 1 l)) cmds) = Some ''cmd_sasl''")
        case True
        then show ?thesis using assms(2,3)
          by (auto simp: command_dispatch run_cmd_def io_fail_def example_io_env_def example_do_cmd_def offline_def
              split: if_splits)
      next
        case False
        then have l: "l = ''/set cmd_hist_size 2''" "cfg' = two_lines" using assms(4) n True by auto
        have "map_option (\<lambda>sp. (cm_cmd sp, cm_fn sp, cm_requires_connection sp, cm_irc_only sp))
            (find (\<lambda>sp. cm_cmd sp = first_name ''set cmd_hist_size 2'') cmds) = Some (''set'', ''cmd_set'', False, False)"
          by code_simp
        then have "?a = Call ''cmd_set'' ''cmd_hist_size 2''"
          by (auto simp: l command_dispatch run_cmd_def)
        then show ?thesis using assms(2) l(2)
          by (simp add: example_io_env_def example_do_cmd_def offline_def two_lines_def)
      qed
      ultimately show ?thesis by (simp add: offline_def)
    qed
  qed
  then show ?thesis using st1 by (auto simp: offline_def)
qed

definition example_lines :: "string list" where
  "example_lines = [''hello'', ''/set cmd_hist_size 2'', ''/sasl password secret'', ''/2'', ''there'']"

text \<open>The setting is lowered to two: then a third line replaces the first one.\<close>

lemma example_handled:
  "handled example_io_env example_lines (io_init example_shared) =
     [(''hello'', 50), (''/set cmd_hist_size 2'', 2), (''/sasl password secret'', 2), (''/2'', 2), (''there'', 2)]
   \<and> (\<exists>st acts. io_loop example_io_env (map Line example_lines) (io_init example_shared) = Some (st, acts)
     \<and> hist_ok st [(''/set cmd_hist_size 2'', 0), (''there'', 0)] \<and> sh_io_loop (shared st))"
proof -
  have w: "\<not> window_number ''hello''" "\<not> window_number ''/set cmd_hist_size 2''" "\<not> window_number ''/sasl password secret''"
    "window_number ''/2''" "\<not> window_number ''there''" by code_simp+
  have k: "\<not> keeps_secret ''hello''" "\<not> keeps_secret ''/set cmd_hist_size 2''" "keeps_secret ''/sasl password secret''"
    "\<not> keeps_secret ''there''" by code_simp+
  have f: "map_option cm_fn (find (\<lambda>sp. cm_cmd sp = first_name ''sasl password secret'') cmds) = Some ''cmd_sasl''"
    "map_option cm_fn (find (\<lambda>sp. cm_cmd sp = first_name ''set cmd_hist_size 2'') cmds) = Some ''cmd_set''" by code_simp+
  let ?s = "io_init example_shared"
  obtain s1 where s1: "offline config_init s1" "hist_ok s1 [(''hello'', 0)]"
    "\<exists>acts. io_step example_io_env (Line ''hello'') ?s = Some (s1, acts)"
    using offline_line [OF io_init_ok [OF example_io(2)] example_io(3), of "''hello''" config_init "[]"] w k
      example_sizes(1) by (auto simp: hist_add_def enters_def)
  obtain s2 where s2: "offline two_lines s2" "hist_ok s2 [(''hello'', 0), (''/set cmd_hist_size 2'', 0)]"
    "\<exists>acts. io_step example_io_env (Line ''/set cmd_hist_size 2'') s1 = Some (s2, acts)"
    using offline_line [OF s1(2,1), of "''/set cmd_hist_size 2''" two_lines "[]"] w k f
      example_sizes(2) by (auto simp: hist_add_def enters_def)
  obtain s3 where s3: "offline two_lines s3" "hist_ok s3 [(''hello'', 0), (''/set cmd_hist_size 2'', 0)]"
    "\<exists>acts. io_step example_io_env (Line ''/sasl password secret'') s2 = Some (s3, acts)"
    using offline_line [OF s2(2,1), of "''/sasl password secret''" two_lines "[]"] w k f
      example_sizes(2) by (auto simp: hist_add_def enters_def)
  obtain s4 where s4: "offline two_lines s4" "hist_ok s4 [(''hello'', 0), (''/set cmd_hist_size 2'', 0)]"
    "\<exists>acts. io_step example_io_env (Line ''/2'') s3 = Some (s4, acts)"
    using offline_line [OF s3(2,1), of "''/2''" two_lines "[]"] w k f
      example_sizes(2) by (auto simp: hist_add_def enters_def)
  obtain s5 where s5: "offline two_lines s5" "hist_ok s5 [(''/set cmd_hist_size 2'', 0), (''there'', 0)]"
    "\<exists>acts. io_step example_io_env (Line ''there'') s4 = Some (s5, acts)"
    using offline_line [OF s4(2,1), of "''there''" two_lines "[]"] w k f
      example_sizes(2) by (auto simp: hist_add_def enters_def)
  have on: "sh_io_loop (shared s1)" "sh_io_loop (shared s2)" "sh_io_loop (shared s3)" "sh_io_loop (shared s4)" "sh_io_loop (shared s5)"
    using s1(1) s2(1) s3(1) s4(1) s5(1) by (simp_all add: offline_def)
  note steps = s1(3) s2(3) s3(3) s4(3) s5(3)
  note sizes = example_sizes(1) [OF s1(1)] example_sizes(2) [OF s2(1)] example_sizes(2) [OF s3(1)] example_sizes(2) [OF s4(1)]
    example_sizes(2) [OF s5(1)]
  show ?thesis using steps on sizes s5(2) by (auto simp: example_lines_def)
qed



text \<open>
  Property C38. The arrow keys go through the history: after a line has been handled, pressing the
  up key k times fetches the k-th last line, and from then on the oldest one; the down key goes back
  towards the newest.  The first down key after k up keys, fewer than there are lines,
  fetches the line that the last up key fetched.  No freed element is used.
\<close>

theorem history_arrows:
  assumes "hist_at (history st) (element st) ls (length ls - 1)" "sh_io_loop (shared st)" "0 < k"
  shows "\<exists>st' st''. io_loop env (replicate k (No_line Hist_prev)) st = Some (st', [])
    \<and> g_push_back_buf st' = recalled env (ls ! (length ls - min k (length ls)))
    \<and> io_loop env (replicate (Suc j) (No_line Hist_next)) st' = Some (st'', [])
    \<and> g_push_back_buf st'' = recalled env (ls ! min (length ls - 1) (length ls - 1 - k + Suc j))
    \<and> shared st'' = shared st"
proof -
  obtain m where k: "k = Suc m" using assms(3) by (cases k) auto
  have l: "0 < length ls"
    using assms(1) by (auto simp: hist_at_def texts_def Text_Buffer.lines_of_def lines_in_def dest: arg_cong [of _ _ length])
  obtain st' where st': "io_loop env (replicate k (No_line Hist_prev)) st = Some (st', [])" "shared st' = shared st"
    "hist_at (history st') (element st') ls (length ls - 1 - k)" "g_push_back_buf st' = recalled env (ls ! (length ls - 1 - m))"
    using prevs [OF assms(1,2), of env m] unfolding k by blast
  obtain st'' where "io_loop env (replicate (Suc j) (No_line Hist_next)) st' = Some (st'', [])" "shared st'' = shared st'"
    "g_push_back_buf st'' = recalled env (ls ! min (length ls - 1 - k + Suc j) (length ls - 1))"
    using nexts [OF st'(3)] st'(2) assms(2) by metis
  moreover have "length ls - 1 - m = length ls - min k (length ls)" using k l by (simp add: min_def)
  ultimately show ?thesis using st' by (auto simp: min.commute)
qed

theorem history_arrows_witness:
  "\<exists>st st'. io_loop example_io_env (replicate 1 (No_line Hist_prev)) st = Some (st', [])
     \<and> g_push_back_buf st' = recalled example_io_env ''there''"
proof -
  obtain st where st: "hist_ok st [(''/set cmd_hist_size 2'', 0), (''there'', 0)]" "sh_io_loop (shared st)"
    using example_handled by blast
  have "hist_at (history st) (element st) [''/set cmd_hist_size 2'', ''there'']
      (length [''/set cmd_hist_size 2'', ''there''] - 1)" using hist_ok_at [OF st(1)] by simp
  from history_arrows [OF this st(2), of 1 example_io_env 0] show ?thesis by auto
qed

text \<open>
  A line that was fetched is handled by the enter key exactly as if it had been typed again, if its
  characters can be typed and their conversion is undone by the conversion of the line.
\<close>

theorem recalled_line_typed:
  assumes "labels_ok lenv" "env_ok renv psize" "g_push_back_buf st = recalled env line" "io_mbs env line = (ws, True)"
    "ch_BOLD \<notin> set line" "line \<noteq> []" "ws \<noteq> []" "length ws \<le> line_cap" "\<forall>c\<in>set ws. narrow renv c \<and> plain_key lenv c"
    "finalize_out_string tenv ws = line"
  shows "io_round env renv tenv lenv psize [KEY_ENTER (codes lenv)] st = io_step env (Line line) st"
proof -
  have b: "bold_fix line = line" using assms(5) by (auto simp: bold_fix_def intro!: map_idI)
  have "length ws \<le> 2000" using assms(8) by (simp add: line_cap_def)
  then have g: "g_push_back_buf st = ws"
    using assms(3,4) b by (simp add: recalled_def push_back_def xmbstowcs_def MAX_PBB_def)
  have "edit_lines line_cap (map Type ws) ([], []) = (ws, [])"
    using edit_lines_type [of "[]" ws "[]"] assms(8) by simp
  then have "readline renv tenv lenv psize (map (key_for lenv) (map Type ws) @ [KEY_ENTER (codes lenv)]) = Some (Inr (Line line, []))"
    using readline_edits [OF assms(1,2), of "map Type ws"] assms(7,9,10) by (simp add: line_text_def Let_def)
  moreover have "map (key_for lenv) (map Type ws) = ws" unfolding map_map by (rule map_idI) simp
  ultimately show ?thesis by (simp only: io_round_def g) simp
qed

end
