(* ===== verification/Batch.thy ===== *)
theory Batch
  imports Channel Irc
begin

text \<open>
  Batches of messages (IRCv3): \<^verbatim>\<open>src/src/events/batch.cpp\<close>.

  A batch is opened with \<^verbatim>\<open>BATCH +ref\<close>, filled by the tagged messages of the server and replayed at
  \<^verbatim>\<open>BATCH -ref\<close>.  Replaying a message routes it to its handler, which may be \<^verbatim>\<open>event_batch\<close> again; the
  recursion is a list of tasks, the frames of the call stack.  \<^const>\<open>None\<close> as the result of
  \<open>run_tasks\<close> is that the replay does not end, and only that; a replay that goes wrong ends with the
  fault.  The other handlers are parameters.
\<close>

section \<open>State\<close>

datatype batch_t = BATCH_CHATHISTORY | BATCH_NETJOIN | BATCH_NETSPLIT | BATCH_ZNC_IN_PLAYBACK | BATCH_UNKNOWN

record batch =
  b_params :: "string list"
  irc_msgs :: "string list"
  get_ref :: string
  get_type :: batch_t

record batch_state =
  batch_db :: "batch list"
  bev :: ev_state

text \<open>
  What can go wrong: the position of the batch that is erased is behind the list, the window of the batch was
  freed, or an assertion fails in a handler or in the window system.
\<close>

datatype batch_fault = Position_gone | Window_gone | Abort

datatype batch_action = Bev ev_action | Core action

record batch_env =
  bat_ev :: ev_env
  handle :: "string \<Rightarrow> irc_message_compo \<Rightarrow> ev_state \<Rightarrow> ev_result option"

definition batch_error :: "string \<Rightarrow> string \<Rightarrow> batch_state \<Rightarrow> batch_action" where
  "batch_error func e st = Bev (Print (status (bev st)) TYPE_SPEC1_WARN (func @ '': error: '' @ e))"

definition save_backlogs_to_disk_yesno :: "ev_env \<Rightarrow> string \<Rightarrow> bool \<times> ev_action list" where
  "save_backlogs_to_disk_yesno env lbl =
     (let val = Config (ev_config env) (Some ''save_backlogs_to_disk'') in
      if strings_match_ignore_case val ''no'' then (False, [])
      else if strings_match_ignore_case val ''both'' then (True, [])
      else if strings_match_ignore_case val ''channels'' then (is_irc_channel (Some lbl), [])
      else if strings_match_ignore_case val ''private'' then (\<not> is_irc_channel (Some lbl), [])
      else (False, [Log ''save_backlogs_to_disk_yesno: warning: unrecognized setting value'']))"

text \<open>The first batch with a reference and its position.\<close>

fun get_obj_by_ref :: "string \<Rightarrow> batch list \<Rightarrow> nat \<Rightarrow> (batch \<times> nat) option" where
  "get_obj_by_ref ref [] pos = None"
| "get_obj_by_ref ref (x # xs) pos =
     (if strings_match (get_ref x) ref then Some (x, pos) else get_obj_by_ref ref xs (Suc pos))"

section \<open>Opening and filling\<close>

definition batch_type :: "string \<Rightarrow> batch_t option" where
  "batch_type s =
     (if strings_match s ''chathistory'' then Some BATCH_CHATHISTORY
      else if strings_match s ''netjoin'' then Some BATCH_NETJOIN
      else if strings_match s ''netsplit'' then Some BATCH_NETSPLIT
      else if strings_match s ''znc.in/playback'' then Some BATCH_ZNC_IN_PLAYBACK
      else None)"

definition create_batch :: "string \<Rightarrow> batch list \<Rightarrow> string + batch list" where
  "create_batch ps db =
     (case tok '' '' ps of
        (None, _) \<Rightarrow> Inl ''null ref''
      | (Some ref, s) \<Rightarrow>
          (case tok '' '' s of
             (None, _) \<Rightarrow> Inl ''null type''
           | (Some type_str, s) \<Rightarrow>
               (case batch_type type_str of
                  None \<Rightarrow> Inl ''unknown batch type''
                | Some t \<Rightarrow> Inr (db @ [\<lparr>b_params = strtoks '' '' s, irc_msgs = [], get_ref = ref, get_type = t\<rparr>]))))"

definition event_batch_add_irc_msgs :: "string \<Rightarrow> string \<Rightarrow> batch_state \<Rightarrow> batch_state \<times> batch_action list" where
  "event_batch_add_irc_msgs ref msg st =
     (case get_obj_by_ref ref (batch_db st) 0 of
        None \<Rightarrow> (st, [batch_error ''event_batch_add_irc_msgs'' ''cannot find batch'' st])
      | Some (_, pos) \<Rightarrow>
          (st\<lparr>batch_db := (batch_db st)[pos := (batch_db st ! pos)\<lparr>irc_msgs := irc_msgs (batch_db st ! pos) @ [msg]\<rparr>]\<rparr>, []))"

section \<open>Replaying\<close>

text \<open>
  What is left to do: a message, an action of the IRC core, and the end of \<^verbatim>\<open>process_batch\<close> with the
  pointer to the window, its saved flag, the label, the number of messages and the position of the batch.
\<close>

datatype task =
    Msg string
  | Act action
  | Finish string "nat option" bool string nat
  | Erase nat

definition begin_text :: "string \<Rightarrow> string \<Rightarrow> string" where
  "begin_text what lbl = ''--- BEGIN '' @ what @ '' ('' @ lbl @ '') ---''"

definition end_text :: "string \<Rightarrow> string \<Rightarrow> nat \<Rightarrow> string" where
  "end_text what lbl n = ''--- END '' @ what @ '' ('' @ lbl @ '', '' @ dec (int n) @ '' msgs) ---''"

definition set_logging :: "nat \<Rightarrow> bool \<Rightarrow> batch_state \<Rightarrow> batch_state" where
  "set_logging p l st = st\<lparr>bev := upd_win p (\<lambda>w. w\<lparr>logging := l\<rparr>) (bev st)\<rparr>"

text \<open>\<^verbatim>\<open>chathistory\<close> and \<^verbatim>\<open>znc_in_playback\<close> up to the loop over the messages.\<close>

definition playback_window :: "batch_env \<Rightarrow> string \<Rightarrow> batch_state \<Rightarrow> (nat option \<times> batch_state \<times> batch_action list) option" where
  "playback_window env lbl st =
     (case win (bev st) lbl of
        Some w \<Rightarrow> Some (Some (w_ptr w), st, [])
      | None \<Rightarrow> do {
          (e, ws, who) \<leftarrow> spawn_chat_window (ev_win (bat_ev env)) (Some lbl) (Some []) (wins (bev st));
          let st' = st\<lparr>bev := (bev st)\<lparr>wins := ws\<rparr>\<rparr>;
          Some (if e = OK0 then map_option w_ptr (win (bev st') lbl) else None, st', map (\<lambda>l. Bev (Whois l)) who) })"

definition begin_playback ::
    "batch_env \<Rightarrow> string \<Rightarrow> batch \<Rightarrow> nat \<Rightarrow> batch_state \<Rightarrow> batch_fault + task list \<times> batch_state \<times> batch_action list" where
  "begin_playback env what obj pos st =
     (let lbl = (case b_params obj of [] \<Rightarrow> [] | p # _ \<Rightarrow> p) in
      case playback_window env lbl st of
        None \<Rightarrow> Inl Abort
      | Some (w, st, acts) \<Rightarrow>
          (case w of
             None \<Rightarrow>
               Inr (map Msg (irc_msgs obj) @ [Finish what None False lbl (length (irc_msgs obj)), Erase pos], st,
                 acts @ [Bev (Print (status (bev st)) TYPE_SPEC_NONE (begin_text what lbl))])
           | Some p \<Rightarrow>
               (case window_at (wins (bev st)) p of
                  None \<Rightarrow> Inl Window_gone
                | Some wd \<Rightarrow>
                    let (l, la) = save_backlogs_to_disk_yesno (bat_ev env) (label wd) in
                    Inr (map Msg (irc_msgs obj) @ [Finish what (Some p) (logging wd) lbl (length (irc_msgs obj)), Erase pos],
                      set_logging p l st,
                      acts @ map Bev la @ [Bev (Print (Some p) TYPE_SPEC_NONE (begin_text what lbl))]))))"

definition process_batch ::
    "batch_env \<Rightarrow> string \<Rightarrow> batch_state \<Rightarrow> batch_fault + task list \<times> batch_state \<times> batch_action list" where
  "process_batch env ps st =
     (let fail = (\<lambda>e. Inr ([], st, [batch_error ''event_batch'' e st])) in
      if strchr ps (CHR '' '') \<noteq> None then fail ''too many parameters''
      else case get_obj_by_ref ps (batch_db st) 0 of
        None \<Rightarrow> fail ''cannot find a such batch''
      | Some (obj, pos) \<Rightarrow>
          (case get_type obj of
             BATCH_CHATHISTORY \<Rightarrow> begin_playback env ''chathistory'' obj pos st
           | BATCH_NETJOIN \<Rightarrow> Inr (map Msg (irc_msgs obj) @ [Erase pos], st, [])
           | BATCH_NETSPLIT \<Rightarrow> Inr (map Msg (irc_msgs obj) @ [Erase pos], st, [])
           | BATCH_ZNC_IN_PLAYBACK \<Rightarrow> begin_playback env ''playback'' obj pos st
           | BATCH_UNKNOWN \<Rightarrow> fail ''process_batch: unknown batch type''))"

definition event_batch ::
    "batch_env \<Rightarrow> irc_message_compo \<Rightarrow> batch_state \<Rightarrow> batch_fault + task list \<times> batch_state \<times> batch_action list" where
  "event_batch env compo st =
     (case params_of compo of
        c # ps \<Rightarrow>
          if c = CHR ''+'' then
            (case create_batch ps (batch_db st) of
               Inl e \<Rightarrow> Inr ([], st, [batch_error ''event_batch'' e st])
             | Inr db \<Rightarrow> Inr ([], st\<lparr>batch_db := db\<rparr>, []))
          else if c = CHR ''-'' then process_batch env ps st
          else Inr ([], st, [batch_error ''event_batch'' ''batch neither +/-'' st])
      | [] \<Rightarrow> Inr ([], st, [batch_error ''event_batch'' ''batch neither +/-'' st]))"

text \<open>One task: the tasks that take its place, the state and what was done.\<close>

definition do_task ::
    "batch_env \<Rightarrow> task \<Rightarrow> batch_state \<Rightarrow> batch_fault + task list \<times> batch_state \<times> batch_action list" where
  "do_task env t st =
     (case t of
        Msg m \<Rightarrow> Inr (map Act (irc_process_proto_msg m), st, [])
      | Act a \<Rightarrow>
          (case a of
             Event_handler h compo \<Rightarrow>
               if h = ''event_batch'' then event_batch env compo st
               else (case handle env h compo (bev st) of
                       None \<Rightarrow> Inl Abort
                     | Some (ev, acts) \<Rightarrow> Inr ([], st\<lparr>bev := ev\<rparr>, map Bev acts))
           | Batch_add ref msg \<Rightarrow>
               (case event_batch_add_irc_msgs ref msg st of (st, acts) \<Rightarrow> Inr ([], st, acts))
           | _ \<Rightarrow> Inr ([], st, [Core a]))
      | Finish what w saved lbl n \<Rightarrow>
          (case w of
             None \<Rightarrow> Inr ([], st, [Bev (Print (status (bev st)) TYPE_SPEC_NONE (end_text what lbl n))])
           | Some p \<Rightarrow>
               if window_at (wins (bev st)) p = None then Inl Window_gone
               else Inr ([], set_logging p saved st, [Bev (Print (Some p) TYPE_SPEC_NONE (end_text what lbl n))]))
      | Erase pos \<Rightarrow>
          if pos < length (batch_db st)
          then Inr ([], st\<lparr>batch_db := take pos (batch_db st) @ drop (Suc pos) (batch_db st)\<rparr>, [])
          else Inl Position_gone)"

partial_function (option) run_tasks ::
    "batch_env \<Rightarrow> task list \<Rightarrow> batch_state \<Rightarrow> batch_action list \<Rightarrow>
      (batch_fault + batch_state \<times> batch_action list) option" where
  "run_tasks env ts st acts =
     (case ts of
        [] \<Rightarrow> Some (Inr (st, acts))
      | t # ts \<Rightarrow>
          (case do_task env t st of
             Inl f \<Rightarrow> Some (Inl f)
           | Inr (new, st', a) \<Rightarrow> run_tasks env (new @ ts) st' (acts @ a)))"

text \<open>The first tasks only, at most so many.\<close>

fun batch_steps ::
    "batch_env \<Rightarrow> nat \<Rightarrow> task list \<Rightarrow> batch_state \<Rightarrow> batch_action list \<Rightarrow>
      batch_fault + task list \<times> batch_state \<times> batch_action list" where
  "batch_steps env 0 ts st acts = Inr (ts, st, acts)"
| "batch_steps env (Suc n) ts st acts =
     (case ts of
        [] \<Rightarrow> Inr ([], st, acts)
      | t # ts \<Rightarrow>
          (case do_task env t st of
             Inl f \<Rightarrow> Inl f
           | Inr (new, st', a) \<Rightarrow> batch_steps env n (new @ ts) st' (acts @ a)))"

text \<open>A message of the server.\<close>

definition batch_process_proto_msg ::
    "batch_env \<Rightarrow> string \<Rightarrow> batch_state \<Rightarrow> (batch_fault + batch_state \<times> batch_action list) option" where
  "batch_process_proto_msg env m st = run_tasks env [Msg m] st []"

definition event_batch_init :: "batch_state \<Rightarrow> batch_state" where
  "event_batch_init st = st\<lparr>batch_db := []\<rparr>"

definition event_batch_deinit :: "batch_state \<Rightarrow> batch_action list" where
  "event_batch_deinit st =
     (if batch_db st \<noteq> []
      then [Bev (Print (active (bev st)) TYPE_SPEC1_WARN (dec (int (length (batch_db st))) @ '' unprocessed batches!''))] else [])"

section \<open>Lemmas\<close>

lemma run_Nil [simp]: "run_tasks env [] st acts = Some (Inr (st, acts))"
  by (subst run_tasks.simps) simp

lemma run_Cons: "run_tasks env (t # ts) st acts =
    (case do_task env t st of Inl f \<Rightarrow> Some (Inl f) | Inr (new, st', a) \<Rightarrow> run_tasks env (new @ ts) st' (acts @ a))"
  by (subst run_tasks.simps) simp

text \<open>The tasks end, in a state or with a fault, exactly if some number of steps ends them.\<close>

definition tasks_left :: "batch_env \<Rightarrow> nat \<Rightarrow> task list \<Rightarrow> batch_state \<Rightarrow> batch_action list \<Rightarrow> bool" where
  "tasks_left env n ts st acts = (case batch_steps env n ts st acts of Inl _ \<Rightarrow> False | Inr (ts', _) \<Rightarrow> ts' \<noteq> [])"

lemma tasks_left_Suc:
  "tasks_left env (Suc n) (t # ts) st acts =
    (case do_task env t st of Inl f \<Rightarrow> False | Inr (new, st', a) \<Rightarrow> tasks_left env n (new @ ts) st' (acts @ a))"
  by (auto simp: tasks_left_def split: sum.split)

lemma run_tasks_endless: "run_tasks env ts st acts = None \<longleftrightarrow> (\<forall>n. tasks_left env n ts st acts)"
proof
  show "\<forall>n. tasks_left env n ts st acts" if none: "run_tasks env ts st acts = None"
  proof
    fix n show "tasks_left env n ts st acts" using none
    proof (induction n arbitrary: ts st acts)
      case 0
      then show ?case by (cases ts) (simp_all add: tasks_left_def)
    next
      case (Suc n)
      then show ?case by (cases ts) (auto simp: run_Cons tasks_left_Suc split: sum.splits)
    qed
  qed
  let ?P = "\<lambda>env ts st acts (r :: batch_fault + batch_state \<times> batch_action list). \<exists>n. \<not> tasks_left env n ts st acts"
  have "\<exists>n. \<not> tasks_left env n ts st acts" if r: "run_tasks env ts st acts = Some r" for r
  proof (rule run_tasks.raw_induct [where P = ?P, OF _ r])
    fix f env ts st acts r
    assume IH: "\<And>env ts st acts r. f env ts st acts = Some r \<Longrightarrow> \<exists>n. \<not> tasks_left env n ts st acts"
      and eq: "(case ts of [] \<Rightarrow> Some (Inr (st, acts))
        | t # ts \<Rightarrow> (case do_task env t st of Inl f \<Rightarrow> Some (Inl f)
            | Inr (new, st', a) \<Rightarrow> f env (new @ ts) st' (acts @ a))) = Some r"
    show "\<exists>n. \<not> tasks_left env n ts st acts"
    proof (cases ts)
      case Nil
      then show ?thesis by (intro exI [of _ 0]) (simp add: tasks_left_def)
    next
      case (Cons t ts')
      show ?thesis
      proof (cases "do_task env t st")
        case (Inl e)
        then show ?thesis using Cons by (intro exI [of _ 1]) (simp add: tasks_left_def)
      next
        case (Inr q)
        obtain new st' a where q: "q = (new, st', a)" by (cases q)
        obtain n where "\<not> tasks_left env n (new @ ts') st' (acts @ a)" using IH eq Cons Inr q by fastforce
        then show ?thesis using Cons Inr q by (intro exI [of _ "Suc n"]) (simp add: tasks_left_Suc)
      qed
    qed
  qed
  then show "run_tasks env ts st acts = None" if "\<forall>n. tasks_left env n ts st acts"
    using that by (cases "run_tasks env ts st acts") auto
qed

end
