(* ===== verification/Batch_Laws.thy ===== *)
theory Batch_Laws
  imports Batch
begin

text \<open>
  What a batch does: its messages are replayed once and in order and the batch is gone, unless a message
  of the batch is about a batch itself or closes the window of the batch.
\<close>

section \<open>Messages that are not about batches\<close>

definition plain_action :: "action \<Rightarrow> bool" where
  "plain_action a \<longleftrightarrow>
     (case a of Event_handler h _ \<Rightarrow> h \<noteq> ''event_batch'' | Batch_add _ _ \<Rightarrow> False | _ \<Rightarrow> True)"

fun effects :: "batch_env \<Rightarrow> action list \<Rightarrow> ev_state \<Rightarrow> batch_fault + ev_state \<times> batch_action list" where
  "effects env [] ev = Inr (ev, [])"
| "effects env (a # as) ev =
     (case a of
        Event_handler h compo \<Rightarrow>
          (case handle env h compo ev of
             None \<Rightarrow> Inl Abort
           | Some (ev, acts) \<Rightarrow> map_sum id (apsnd ((@) (map Bev acts))) (effects env as ev))
      | _ \<Rightarrow> map_sum id (apsnd ((#) (Core a))) (effects env as ev))"

text \<open>The messages, one after the other.\<close>

definition replayed :: "batch_env \<Rightarrow> string list \<Rightarrow> ev_state \<Rightarrow> batch_fault + ev_state \<times> batch_action list" where
  "replayed env msgs ev = effects env (concat (map irc_process_proto_msg msgs)) ev"

definition plain_messages :: "string list \<Rightarrow> bool" where
  "plain_messages msgs \<longleftrightarrow> list_all (\<lambda>m. list_all plain_action (irc_process_proto_msg m)) msgs"

lemma run_acts:
  "list_all plain_action as \<Longrightarrow>
   run_tasks env (map Act as @ ts) st acc =
     (case effects env as (bev st) of Inl f \<Rightarrow> Some (Inl f)
      | Inr (ev, out) \<Rightarrow> run_tasks env ts (st\<lparr>bev := ev\<rparr>) (acc @ out))"
proof (induction as arbitrary: st acc)
  case (Cons a as)
  show ?case
  proof (cases "\<exists>h c. a = Event_handler h c")
    case True
    then obtain h c where a: "a = Event_handler h c" by blast
    with Cons show ?thesis
      by (cases "handle env h c (bev st)")
        (auto simp: run_Cons do_task_def plain_action_def split: sum.splits prod.splits)
  next
    case False
    then have "do_task env (Act a) st = Inr ([], st, [Core a])"
      "effects env (a # as) (bev st) = map_sum id (apsnd ((#) (Core a))) (effects env as (bev st))"
      using Cons.prems by (cases a; simp add: do_task_def plain_action_def)+
    then show ?thesis using Cons by (auto simp: run_Cons split: sum.splits)
  qed
qed simp

lemma effects_append:
  "effects env (as @ bs) ev =
    (case effects env as ev of Inl f \<Rightarrow> Inl f
     | Inr (ev, out) \<Rightarrow> map_sum id (apsnd ((@) out)) (effects env bs ev))"
proof (induction as arbitrary: ev)
  case Nil
  then show ?case by (cases "effects env bs ev") auto
next
  case (Cons a as)
  have *: "map_sum id (apsnd h) (case x of Inl f \<Rightarrow> Inl f | Inr (ev, out) \<Rightarrow> map_sum id (apsnd ((@) out)) (g ev)) =
      (case map_sum id (apsnd h) x of Inl f \<Rightarrow> Inl f | Inr (ev, out) \<Rightarrow> map_sum id (apsnd ((@) out)) (g ev))"
    if "\<And>u v. h (u @ v) = h u @ v" for h x and g :: "ev_state \<Rightarrow> batch_fault + ev_state \<times> batch_action list"
    using that by (cases x; cases "g (fst (projr x))") auto
  show ?case using Cons by (cases a) (auto simp: * split: option.split)
qed

lemma run_msgs:
  "plain_messages ms \<Longrightarrow>
   run_tasks env (map Msg ms @ ts) st acc =
     (case replayed env ms (bev st) of Inl f \<Rightarrow> Some (Inl f)
      | Inr (ev, out) \<Rightarrow> run_tasks env ts (st\<lparr>bev := ev\<rparr>) (acc @ out))"
proof (induction ms arbitrary: st acc)
  case (Cons m ms)
  then have p: "list_all plain_action (irc_process_proto_msg m)" "plain_messages ms" by (simp_all add: plain_messages_def)
  have "run_tasks env (map Msg (m # ms) @ ts) st acc =
      run_tasks env (map Act (irc_process_proto_msg m) @ map Msg ms @ ts) st acc"
    by (simp add: run_Cons do_task_def)
  then show ?case
    using Cons.IH [OF p(2)] by (auto simp: run_acts [OF p(1)] replayed_def effects_append split: sum.splits)
qed (simp add: replayed_def)

section \<open>The database\<close>

lemma get_obj_behind:
  "\<lbrakk>\<forall>x\<in>set db. get_ref x \<noteq> get_ref b\<rbrakk> \<Longrightarrow> get_obj_by_ref (get_ref b) (db @ b # rest) pos = Some (b, pos + length db)"
  by (induction db arbitrary: pos) auto

lemma run_adds:
  assumes "\<forall>x\<in>set db. get_ref x \<noteq> get_ref b"
  shows "run_tasks env (map (\<lambda>m. Act (Batch_add (get_ref b) m)) ms @ ts) (st\<lparr>batch_db := db @ [b]\<rparr>) acc =
    run_tasks env ts (st\<lparr>batch_db := db @ [b\<lparr>irc_msgs := irc_msgs b @ ms\<rparr>]\<rparr>) acc"
  using assms
proof (induction ms arbitrary: b)
  case (Cons m ms)
  let ?b = "b\<lparr>irc_msgs := irc_msgs b @ [m]\<rparr>"
  have g: "get_obj_by_ref (get_ref b) (db @ [b]) 0 = Some (b, length db)"
    using get_obj_behind [OF Cons.prems, of "[]" 0] by simp
  have "event_batch_add_irc_msgs (get_ref b) m (st\<lparr>batch_db := db @ [b]\<rparr>) = (st\<lparr>batch_db := db @ [?b]\<rparr>, [])"
    using g by (simp add: event_batch_add_irc_msgs_def)
  then have "run_tasks env (map (\<lambda>m. Act (Batch_add (get_ref b) m)) (m # ms) @ ts) (st\<lparr>batch_db := db @ [b]\<rparr>) acc =
      run_tasks env (map (\<lambda>m. Act (Batch_add (get_ref ?b) m)) ms @ ts) (st\<lparr>batch_db := db @ [?b]\<rparr>) acc"
    by (simp add: run_Cons do_task_def)
  also have "\<dots> = run_tasks env ts (st\<lparr>batch_db := db @ [?b\<lparr>irc_msgs := irc_msgs ?b @ ms\<rparr>]\<rparr>) acc"
    by (rule Cons.IH) (use Cons.prems in simp)
  finally show ?case by simp
qed simp


section \<open>The text of the batch_opening message\<close>

definition word :: "string \<Rightarrow> bool" where
  "word w \<longleftrightarrow> w \<noteq> [] \<and> CHR '' '' \<notin> set w"

definition batch_opening :: "string \<Rightarrow> string \<Rightarrow> string list \<Rightarrow> string" where
  "batch_opening ref ty ps = ''+'' @ ref @ '' '' @ ty @ concat (map (\<lambda>p. '' '' @ p) ps)"

lemma batch_tok_word:
  assumes "word w"
  shows "tok '' '' (w @ CHR '' '' # s) = (Some w, s)" "tok '' '' w = (Some w, [])"
  using assms strtok_r_word [of w "'' ''"] by (auto simp: tok_def word_def)

lemma strtoks_words: "list_all word ps \<Longrightarrow> strtoks '' '' (concat (map (\<lambda>p. '' '' @ p) ps)) = ps"
proof (induction ps)
  case (Cons p ps)
  have w: "p \<noteq> []" "set p \<inter> set '' '' = {}" using Cons.prems by (auto simp: word_def)
  show ?case
  proof (cases ps)
    case Nil
    then show ?thesis using strtoks_word(1) [OF w] by (simp add: strtoks_sep)
  next
    case (Cons q qs)
    have "strtoks '' '' (p @ CHR '' '' # q @ concat (map (\<lambda>p. '' '' @ p) qs)) = p # strtoks '' '' (q @ concat (map (\<lambda>p. '' '' @ p) qs))"
      using strtoks_word(2) [OF w, of "CHR '' ''"] by simp
    also have "strtoks '' '' (q @ concat (map (\<lambda>p. '' '' @ p) qs)) = ps"
      using Cons.IH Cons.prems Cons by (simp add: strtoks_sep)
    finally show ?thesis using Cons by (simp add: strtoks_sep)
  qed
qed simp

lemma create_batch_ok:
  assumes "word ref" "word ty" "list_all word ps" "batch_type ty = Some t"
  shows "create_batch (tl (batch_opening ref ty ps)) db = Inr (db @ [\<lparr>b_params = ps, irc_msgs = [], get_ref = ref, get_type = t\<rparr>])"
proof -
  have "\<exists>s. tok '' '' (ty @ concat (map (\<lambda>p. '' '' @ p) ps)) = (Some ty, s) \<and> strtoks '' '' s = ps"
  proof (cases ps)
    case Nil
    then show ?thesis using batch_tok_word(2) [OF assms(2)] by simp
  next
    case (Cons q qs)
    have "strtoks '' '' (q @ concat (map (\<lambda>p. '' '' @ p) qs)) = ps"
      using strtoks_words [OF assms(3)] Cons by (simp add: strtoks_sep)
    then show ?thesis using batch_tok_word(1) [OF assms(2)] Cons by simp
  qed
  then show ?thesis using batch_tok_word(1) [OF assms(1)] assms(4) by (auto simp: create_batch_def batch_opening_def)
qed

section \<open>Properties\<close>

text \<open>
  The specification: the messages in order; a batch of history is shown between two lines in the window of its
  first parameter, whose logging is set for that time.  If a handler fails, that is the result; if the
  messages close this window, the freed window is used.
\<close>

definition is_net :: "batch_t \<Rightarrow> bool" where
  "is_net t \<longleftrightarrow> t = BATCH_NETJOIN \<or> t = BATCH_NETSPLIT"

definition history_name :: "batch_t \<Rightarrow> string" where
  "history_name t = (if t = BATCH_CHATHISTORY then ''chathistory'' else ''playback'')"

definition batch_spec ::
    "batch_env \<Rightarrow> batch_t \<Rightarrow> string \<Rightarrow> irc_window \<Rightarrow> string list \<Rightarrow> ev_state \<Rightarrow> batch_fault + ev_state \<times> batch_action list" where
  "batch_spec env t lbl w msgs ev =
     (if is_net t then replayed env msgs ev
      else
        let p = w_ptr w; (l, la) = save_backlogs_to_disk_yesno (bat_ev env) (label w);
            show = (\<lambda>s. Bev (Print (Some p) TYPE_SPEC_NONE s)) in
        case replayed env msgs (upd_win p (\<lambda>w. w\<lparr>logging := l\<rparr>) ev) of
          Inl f \<Rightarrow> Inl f
        | Inr (ev, out) \<Rightarrow>
            if window_at (wins ev) p = None then Inl Window_gone
            else Inr (upd_win p (\<lambda>v. v\<lparr>logging := logging w\<rparr>) ev,
              map Bev la @ show (begin_text (history_name t) lbl) # out @ [show (end_text (history_name t) lbl (length msgs))]))"

definition lbl_of :: "string list \<Rightarrow> string" where
  "lbl_of ps = (case ps of [] \<Rightarrow> [] | p # _ \<Rightarrow> p)"

lemma run_batch:
  assumes "get_obj_by_ref ref (batch_db st) 0 = Some (obj, pos)" "pos < length (batch_db st)" "CHR '' '' \<notin> set ref"
    "plain_messages (irc_msgs obj)" "get_type obj \<noteq> BATCH_UNKNOWN"
    "is_net (get_type obj) \<or> win (bev st) (lbl_of (b_params obj)) = Some w \<and> window_at (wins (bev st)) (w_ptr w) = Some w"
    "params compo = Some (''-'' @ ref)"
  shows "run_tasks env [Act (Event_handler ''event_batch'' compo)] st acc =
    (case batch_spec env (get_type obj) (lbl_of (b_params obj)) w (irc_msgs obj) (bev st) of Inl f \<Rightarrow> Some (Inl f)
     | Inr (ev, out) \<Rightarrow>
         Some (Inr (st\<lparr>bev := ev, batch_db := take pos (batch_db st) @ drop (Suc pos) (batch_db st)\<rparr>, acc @ out)))"
proof -
  have e: "event_batch env compo st = process_batch env ref st"
    using assms(7) by (simp add: event_batch_def params_of_def)
  have sp: "strchr ref (CHR '' '') = None" using assms(3) by (simp add: strchr_None_iff)
  show ?thesis
  proof (cases "is_net (get_type obj)")
    case True
    then have "process_batch env ref st = Inr (map Msg (irc_msgs obj) @ [Erase pos], st, [])"
      using assms(1) sp by (auto simp: process_batch_def is_net_def)
    then show ?thesis using True assms(2)
      by (auto simp: run_Cons do_task_def e run_msgs [OF assms(4)] batch_spec_def split: sum.splits)
  next
    case False
    obtain l la where l: "save_backlogs_to_disk_yesno (bat_ev env) (label w) = (l, la)" by fastforce
    let ?n = "history_name (get_type obj)" and ?p = "w_ptr w" and ?lbl = "lbl_of (b_params obj)"
    have w: "win (bev st) ?lbl = Some w" "window_at (wins (bev st)) ?p = Some w" using assms(6) False by auto
    have "process_batch env ref st = begin_playback env ?n obj pos st"
      using assms(1,5) sp False by (cases "get_type obj") (auto simp: process_batch_def is_net_def history_name_def)
    also have "\<dots> = Inr (map Msg (irc_msgs obj) @ [Finish ?n (Some ?p) (logging w) ?lbl (length (irc_msgs obj)), Erase pos],
        set_logging ?p l st, map Bev la @ [Bev (Print (Some ?p) TYPE_SPEC_NONE (begin_text ?n ?lbl))])"
      using w l by (simp add: begin_playback_def playback_window_def Let_def lbl_of_def)
    finally show ?thesis using assms(2) False l
      by (auto simp: run_Cons do_task_def e run_msgs [OF assms(4)] batch_spec_def set_logging_def Let_def split: sum.splits)
  qed
qed

lemma batch_lifecycle:
  assumes "word ref" "word ty" "list_all word ps" "batch_type ty = Some t" "\<forall>x\<in>set (batch_db st). get_ref x \<noteq> ref"
    "plain_messages msgs" "params c1 = Some (batch_opening ref ty ps)" "params c2 = Some (''-'' @ ref)"
    "is_net t \<or> win (bev st) (lbl_of ps) = Some w \<and> window_at (wins (bev st)) (w_ptr w) = Some w"
  shows "run_tasks env (Act (Event_handler ''event_batch'' c1) # map (\<lambda>m. Act (Batch_add ref m)) msgs @
      [Act (Event_handler ''event_batch'' c2)]) st [] =
    (case batch_spec env t (lbl_of ps) w msgs (bev st) of Inl f \<Rightarrow> Some (Inl f) | Inr (ev, out) \<Rightarrow> Some (Inr (st\<lparr>bev := ev\<rparr>, out)))"
proof -
  let ?b = "\<lparr>b_params = ps, irc_msgs = [], get_ref = ref, get_type = t\<rparr>" and ?db = "batch_db st"
  let ?b' = "?b\<lparr>irc_msgs := msgs\<rparr>" let ?st = "st\<lparr>batch_db := ?db @ [?b']\<rparr>"
  have open': "event_batch env c1 st = Inr ([], st\<lparr>batch_db := ?db @ [?b]\<rparr>, [])"
    using create_batch_ok [OF assms(1-4), of ?db] assms(7) by (simp add: event_batch_def params_of_def batch_opening_def)
  have t: "t \<noteq> BATCH_UNKNOWN" using assms(4) by (auto simp: batch_type_def split: if_splits)
  have g: "get_obj_by_ref ref (?db @ [?b']) 0 = Some (?b', length ?db)"
    using get_obj_behind [of ?db ?b' "[]" 0] assms(5) by simp
  have r: "run_tasks env [Act (Event_handler ''event_batch'' c2)] ?st [] =
    (case batch_spec env t (lbl_of ps) w msgs (bev st) of Inl f \<Rightarrow> Some (Inl f) | Inr (ev, out) \<Rightarrow> Some (Inr (st\<lparr>bev := ev\<rparr>, out)))"
    using run_batch [of ref ?st ?b' "length ?db" w c2 env "[]"] g assms(1,6,8,9) t
    by (auto simp: word_def split: sum.splits)
  have "run_tasks env (map (\<lambda>m. Act (Batch_add ref m)) msgs @ [Act (Event_handler ''event_batch'' c2)])
      (st\<lparr>batch_db := ?db @ [?b]\<rparr>) [] = run_tasks env [Act (Event_handler ''event_batch'' c2)] ?st []"
    using run_adds [of ?db ?b env msgs "[Act (Event_handler ''event_batch'' c2)]" st "[]"] assms(5) by simp
  then show ?thesis using r open' by (simp add: run_Cons do_task_def)
qed

text \<open>
  Property C39. A batch is replayed once: from the message that opens a batch over those that fill it to the one
  that ends it, the program does exactly what the messages of the batch would do one after the other, shown between
  two lines if it is a batch of history, and the batch is forgotten, the others are kept.  The replay ends, unless a
  handler fails.  If the messages of a batch of history close the window of the batch, then the window is used
  after it was freed (\<open>Window_gone\<close>).
\<close>

theorem batch_replayed_once:
  assumes "word ref" "word ty" "list_all word ps" "batch_type ty = Some t" "\<forall>x\<in>set (batch_db st). get_ref x \<noteq> ref"
    "plain_messages msgs" "params c1 = Some (batch_opening ref ty ps)" "params c2 = Some (''-'' @ ref)"
    "is_net t \<or> win (bev st) (lbl_of ps) = Some w \<and> window_at (wins (bev st)) (w_ptr w) = Some w"
  shows "run_tasks env (Act (Event_handler ''event_batch'' c1) # map (\<lambda>m. Act (Batch_add ref m)) msgs @
      [Act (Event_handler ''event_batch'' c2)]) st [] =
    (case batch_spec env t (lbl_of ps) w msgs (bev st) of Inl f \<Rightarrow> Some (Inl f) | Inr (ev, out) \<Rightarrow> Some (Inr (st\<lparr>bev := ev\<rparr>, out)))"
  by (rule batch_lifecycle [OF assms])


section \<open>Messages about batches inside a batch\<close>



text \<open>The messages of the examples and the components that the IRC core finds in them.\<close>

definition bare_compo :: "string \<Rightarrow> irc_message_compo" where
  "bare_compo ps = compo_init\<lparr>command := Some ''BATCH'', params := Some ps\<rparr>"



definition example_batch_env :: batch_env where
  "example_batch_env = \<lparr>bat_ev = example_ev_env, handle = (\<lambda>h c ev. Some (ev, [Log h]))\<rparr>"

lemma quit_line:
  "list_all plain_action (irc_process_proto_msg '':joe QUIT :a.net b.net'')"
  "effects example_batch_env (irc_process_proto_msg '':joe QUIT :a.net b.net'') ev = Inr (ev, [Bev (Log ''event_quit'')])"
proof -
  have "case irc_process_proto_msg '':joe QUIT :a.net b.net'' of [Event_handler h _] \<Rightarrow> h = ''event_quit'' | _ \<Rightarrow> False"
    by code_simp
  then have "\<exists>c. irc_process_proto_msg '':joe QUIT :a.net b.net'' = [Event_handler ''event_quit'' c]"
    by (auto split: list.splits action.splits)
  then show "list_all plain_action (irc_process_proto_msg '':joe QUIT :a.net b.net'')"
    "effects example_batch_env (irc_process_proto_msg '':joe QUIT :a.net b.net'') ev = Inr (ev, [Bev (Log ''event_quit'')])"
    by (auto simp: plain_action_def example_batch_env_def)
qed

theorem batch_replayed_once_witness:
  "run_tasks example_batch_env [Act (Event_handler ''event_batch'' (bare_compo ''+x netsplit'')),
      Act (Batch_add ''x'' '':joe QUIT :a.net b.net''), Act (Event_handler ''event_batch'' (bare_compo ''-x''))]
      \<lparr>batch_db = [], bev = example_ev_state\<rparr> [] =
    Some (Inr (\<lparr>batch_db = [], bev = example_ev_state\<rparr>, [Bev (Log ''event_quit'')]))"
proof -
  have "word ''x''" "word ''netsplit''" "batch_type ''netsplit'' = Some BATCH_NETSPLIT"
    by (simp_all add: word_def batch_type_def)
  moreover have "plain_messages ['':joe QUIT :a.net b.net'']" using quit_line(1) by (simp add: plain_messages_def)
  ultimately show ?thesis
    using batch_replayed_once [of "''x''" "''netsplit''" "[]" BATCH_NETSPLIT "\<lparr>batch_db = [], bev = example_ev_state\<rparr>"
        "['':joe QUIT :a.net b.net'']" "bare_compo ''+x netsplit''" "bare_compo ''-x''" _ example_batch_env] quit_line(2)
    by (simp add: bare_compo_def batch_opening_def is_net_def batch_spec_def replayed_def)
qed





end
