(* ===== verification/Spec2Isabelle.thy ===== *)
theory Spec2Isabelle
  imports Str_Hand Data_Classify Lib_Utils Base64 Text_Buffer Irc Icb Scrolling Readline_Loop Config Theme Nicklist Channel_Members Printtext_Laws Sasl_Command Io_Loop_Laws Batch_Laws
begin

text \<open>
  Verification library of swirc, an IRC and ICB client for the terminal (C and C++, \<^verbatim>\<open>src/src\<close>).

  \<^bold>\<open>How the program works.\<close>  A listening thread reads octets from the server.  \<^verbatim>\<open>irc.c\<close> cuts the
  stream into messages, parses each one (\<^verbatim>\<open>messagetags.c\<close> reads the IRCv3 tags) and finds its
  handler in one of two tables; for an ICB server \<^verbatim>\<open>icb.c\<close> first translates the packets into IRC
  messages.  The handlers of \<^verbatim>\<open>events/\<close> change the tables of channel members
  (\<^verbatim>\<open>events/names.cpp\<close>), the windows (\<^verbatim>\<open>window.c\<close>), the netsplits (\<^verbatim>\<open>netsplit.cpp\<close>) and the
  state of the authentication, send answers and print messages.  \<^verbatim>\<open>printtext.cpp\<close> composes a
  message, stores it in the text buffer of a window (\<^verbatim>\<open>textBuffer.c\<close>) and lays it out in rows.  In
  the main thread \<^verbatim>\<open>readline.c\<close> edits a line and \<^verbatim>\<open>readlineTabCompletion.c\<close> completes it.
  Settings (\<^verbatim>\<open>config.cpp\<close>) and theme (\<^verbatim>\<open>theme.c\<close>) are tables read from files by
  \<^verbatim>\<open>interpreter.cpp\<close>.

  \<^bold>\<open>Theories.\<close>
  \<^item> \<^verbatim>\<open>Prelude\<close>: bounded buffers with checked access, list lemmas, theorem collections.
  \<^verbatim>\<open>C_String\<close>: \<^verbatim>\<open><string.h>\<close> and \<^verbatim>\<open><ctype.h>\<close> on lists of characters.
  \<^item> \<^verbatim>\<open>Char_Class\<close>, \<^verbatim>\<open>Str_Hand\<close>, \<^verbatim>\<open>Data_Classify\<close>, \<^verbatim>\<open>Lib_Utils\<close>, \<^verbatim>\<open>Base64\<close>,
  \<^verbatim>\<open>Crypt\<close>: the files \<^verbatim>\<open>strHand.[ch]\<close>, \<^verbatim>\<open>dataClassify.[ch]\<close>, \<^verbatim>\<open>libUtils.c\<close>,
  \<^verbatim>\<open>b64_*.c\<close> and \<^verbatim>\<open>crypt.cpp\<close>.  Machine integers are words or carry their bounds; copies go
  through bounded buffers.
  \<^item> \<^verbatim>\<open>Text_Buffer\<close>: \<^verbatim>\<open>textBuffer.c\<close> on an explicit store of list elements, refined to a
  list; the locale \<open>line_queue\<close> is the contract of a bounded scrollback.
  \<^item> \<^verbatim>\<open>Message_Tags\<close>, \<^verbatim>\<open>Irc_Tables\<close>, \<^verbatim>\<open>Irc\<close>, \<^verbatim>\<open>Icb\<close>: from the stream of octets to
  the handler.  The globals of \<^verbatim>\<open>irc.c\<close> are the record \<open>irc_globals\<close>.
  \<^item> \<^verbatim>\<open>Name_Chains\<close>, \<^verbatim>\<open>Names_Table\<close>: chained hash tables keyed by names up to case (locales
  \<open>label_hash\<close> and \<open>name_chains\<close>), and the members of one channel with their counters.
  \<^item> \<^verbatim>\<open>Window\<close>, \<^verbatim>\<open>Scrolling\<close>: \<^verbatim>\<open>window.c\<close>; state \<open>win_state\<close>, pointers are numbers.
  \<^item> \<^verbatim>\<open>Text_Deco\<close>, \<^verbatim>\<open>Printtext\<close>, \<^verbatim>\<open>Printtext_Laws\<close>: \<^verbatim>\<open>squeeze_text_deco.cpp\<close>
  and \<^verbatim>\<open>printtext.cpp\<close>; a curses window is the list of drawing calls made on it.
  \<^item> \<^verbatim>\<open>Line_Editor\<close> (the abstract editor, a locale), \<^verbatim>\<open>Readline\<close>, \<^verbatim>\<open>Readline_Edit\<close>
  (the refinement), \<^verbatim>\<open>Tab_Completion\<close>, \<^verbatim>\<open>Readline_Loop\<close>: \<^verbatim>\<open>readline.c\<close>,
  \<^verbatim>\<open>readlineAPI.c\<close> and \<^verbatim>\<open>readlineTabCompletion.c\<close>.
  \<^item> \<^verbatim>\<open>Interpreter\<close>, \<^verbatim>\<open>Settings\<close> (the locale \<open>settings_reader\<close>), \<^verbatim>\<open>Config\<close>,
  \<^verbatim>\<open>Theme\<close>: \<^verbatim>\<open>interpreter.cpp\<close>, \<^verbatim>\<open>config.cpp\<close> and \<^verbatim>\<open>theme.c\<close>.
  \<^item> \<^verbatim>\<open>Events\<close>, \<^verbatim>\<open>Netsplit\<close>, \<^verbatim>\<open>Names\<close>, \<^verbatim>\<open>Channel\<close> with \<^verbatim>\<open>Channel_Laws\<close>,
  \<^verbatim>\<open>Channel_Effects\<close> and \<^verbatim>\<open>Channel_Members\<close>, \<^verbatim>\<open>Nicklist\<close>: the channel events.  The
  state \<open>ev_state\<close> joins windows, IRC globals and netsplits; a handler returns the new state and the
  list of its actions (\<open>ev_action\<close>: messages, lines sent, redraws).
  \<^item> \<^verbatim>\<open>Scram\<close>, \<^verbatim>\<open>Scram_Laws\<close>, \<^verbatim>\<open>Sasl\<close>, \<^verbatim>\<open>Sasl_Laws\<close>, \<^verbatim>\<open>Sasl_Command\<close>:
  \<^verbatim>\<open>sasl-scram-sha.cpp\<close>, \<^verbatim>\<open>cap.c\<close>, \<^verbatim>\<open>auth.c\<close>, the registration of \<^verbatim>\<open>network.cpp\<close>,
  \<^verbatim>\<open>sasl.cpp\<close> and the password prompt of \<^verbatim>\<open>nestHome.c\<close>.  HMAC, hashes, PBKDF2, ciphers and
  random numbers are parameters; the peer of the laws is a server written after RFC 5802.
  \<^item> \<^verbatim>\<open>Command_Help\<close>, \<^verbatim>\<open>Io_Loop\<close>, \<^verbatim>\<open>Io_Loop_Laws\<close>: the table of commands
  (\<^verbatim>\<open>commandhelp.h\<close>) and the main loop with the history of lines (\<^verbatim>\<open>io-loop.c\<close>, state
  \<open>io_state\<close>); the commands are parameters, messages are taken untranslated.
  \<^item> \<^verbatim>\<open>Batch\<close>, \<^verbatim>\<open>Batch_Laws\<close>: \<^verbatim>\<open>events/batch.cpp\<close>; the recursion from a replayed
  message into its handler is a list of tasks, run as an option-valued partial function.

  \<^bold>\<open>Conventions.\<close>  Functions of the source keep their names.  A result \<^const>\<open>None\<close> of a function on
  buffers, pointers or windows means an access outside an object or the end of the program by an
  assertion; theorems that an operation succeeds state \<^const>\<open>Some\<close>.  Reported errors are values.
  Loops that need not end are \<^theory_text>\<open>partial_function (option)\<close>, so that not returning is
  \<^const>\<open>None\<close> too; the theorems then prove that they return.

  \<^bold>\<open>Bounds.\<close>  They are those of the code: 252 and 249 characters per ICB packet, tables of 300, 800 and
  4500 chains, a line buffer of 2001 characters, setting values of at most 478 characters, Base64 in buffers of
  4096, 1000 and 500 octets, nonces of at most 63 characters, at most 15 parameters of a mode change.
  No model uses fuel.

  \<^bold>\<open>Not modelled.\<close>  curses, sockets, TLS, files, clocks and thread locks appear only as parameters or as
  lists of calls.  The handlers in \<^verbatim>\<open>events/\<close> that only print a line and the commands in
  \<^verbatim>\<open>commands/\<close> other than \<^verbatim>\<open>/sasl\<close> are left out, and so are file transfers (DCC, FTP), the
  ident server and the SOCKS client, which are sequences of calls on sockets and files.
\<close>

end
